(* ===== verification/HSM_Prelude.thy ===== *)
theory HSM_Prelude
  imports Main "HOL-Library.Word"
begin

text \<open>
  Shared vocabulary of the development: the machine types of the C++ sources, the
  PKCS\#11 return codes, the two ordered containers of the C++ standard library the
  sources use (\<^verbatim>\<open>std::set\<close> and \<^verbatim>\<open>std::map\<close>), the C library function
  \<^verbatim>\<open>strtoul\<close> in base 16, and the lemmas about them that every component uses.
  The collection \<open>container_simps\<close> gathers the rewrite rules of the containers.
\<close>

named_theorems container_simps "rewrite rules of the ordered containers"
named_theorems model_defs "definitions unfolded when a concrete input is evaluated"

section \<open>Machine types\<close>

text \<open>
  \<^verbatim>\<open>unsigned char\<close> is a byte; \<^verbatim>\<open>CK_ULONG\<close>, \<^verbatim>\<open>unsigned long\<close> and the
  handle and slot identifiers are 64 bits wide on the LP64 platforms.
\<close>

type_synonym byte = "8 word"
type_synonym bytes = "byte list"
type_synonym ulong = "64 word"

text \<open>Pointers to heap objects; the null pointer is 0.\<close>

type_synonym addr = nat

text \<open>
  \<^verbatim>\<open>size_t\<close> values are sizes of objects in memory and are written as \<open>nat\<close>;
  where the source subtracts them, the wrap-around of the 64-bit type is explicit.
\<close>

definition size_sub :: "nat \<Rightarrow> nat \<Rightarrow> nat" where
  "size_sub a b = (if b \<le> a then a - b else 2 ^ 64 + a - b)"

lemma size_sub_le [simp]: "b \<le> a \<Longrightarrow> size_sub a b = a - b"
  by (simp add: size_sub_def)

text \<open>An increment that does not wrap gives the next larger number.\<close>

lemma unat_succ: "(n :: ulong) + 1 \<noteq> 0 \<Longrightarrow> unat (n + 1) = Suc (unat n)"
  by (metis add.commute unatSuc)

lemma less_succ: "(n :: ulong) + 1 \<noteq> 0 \<Longrightarrow> n < n + 1"
  by (simp add: word_less_nat_alt unat_succ)

lemma below_succ: "(n :: ulong) < m \<Longrightarrow> n + 1 \<noteq> 0"
  by (auto simp flip: eq_neg_iff_add_eq_0)

section \<open>Return codes\<close>

text \<open>The \<^verbatim>\<open>CKR_\<close> codes that the modelled functions return.\<close>

datatype ck_rv =
    CKR_OK
  | CKR_HOST_MEMORY
  | CKR_SLOT_ID_INVALID
  | CKR_GENERAL_ERROR
  | CKR_FUNCTION_FAILED
  | CKR_ARGUMENTS_BAD
  | CKR_ATTRIBUTE_READ_ONLY
  | CKR_ATTRIBUTE_SENSITIVE
  | CKR_ATTRIBUTE_TYPE_INVALID
  | CKR_ATTRIBUTE_VALUE_INVALID
  | CKR_ACTION_PROHIBITED
  | CKR_DATA_INVALID
  | CKR_DEVICE_ERROR
  | CKR_FUNCTION_NOT_SUPPORTED
  | CKR_FUNCTION_REJECTED
  | CKR_OBJECT_HANDLE_INVALID
  | CKR_OPERATION_ACTIVE
  | CKR_OPERATION_NOT_INITIALIZED
  | CKR_PIN_INCORRECT
  | CKR_PIN_INVALID
  | CKR_PIN_LEN_RANGE
  | CKR_PIN_LOCKED
  | CKR_SESSION_CLOSED
  | CKR_SESSION_COUNT
  | CKR_SESSION_HANDLE_INVALID
  | CKR_SESSION_PARALLEL_NOT_SUPPORTED
  | CKR_SESSION_READ_ONLY
  | CKR_SESSION_EXISTS
  | CKR_SESSION_READ_ONLY_EXISTS
  | CKR_SESSION_READ_WRITE_SO_EXISTS
  | CKR_TEMPLATE_INCOMPLETE
  | CKR_TEMPLATE_INCONSISTENT
  | CKR_TOKEN_NOT_PRESENT
  | CKR_TOKEN_NOT_RECOGNIZED
  | CKR_USER_ALREADY_LOGGED_IN
  | CKR_USER_NOT_LOGGED_IN
  | CKR_USER_PIN_NOT_INITIALIZED
  | CKR_USER_TYPE_INVALID
  | CKR_USER_ANOTHER_ALREADY_LOGGED_IN
  | CKR_DATA_LEN_RANGE
  | CKR_ENCRYPTED_DATA_INVALID
  | CKR_ENCRYPTED_DATA_LEN_RANGE
  | CKR_KEY_SIZE_RANGE
  | CKR_KEY_TYPE_INCONSISTENT
  | CKR_KEY_INDIGESTIBLE
  | CKR_KEY_FUNCTION_NOT_PERMITTED
  | CKR_MECHANISM_INVALID
  | CKR_MECHANISM_PARAM_INVALID
  | CKR_SIGNATURE_INVALID
  | CKR_SIGNATURE_LEN_RANGE
  | CKR_BUFFER_TOO_SMALL
  | CKR_CRYPTOKI_NOT_INITIALIZED

section \<open>Ordered containers\<close>

text \<open>
  A \<^verbatim>\<open>std::set\<close> is the strictly ascending list of its elements, which is also
  the order its iterators visit them in.
\<close>

fun sset_insert :: "'a::linorder \<Rightarrow> 'a list \<Rightarrow> 'a list" where
  "sset_insert x [] = [x]"
| "sset_insert x (y # ys) =
     (if x < y then x # y # ys else if x = y then y # ys else y # sset_insert x ys)"

definition sset_erase :: "'a \<Rightarrow> 'a list \<Rightarrow> 'a list" where
  "sset_erase x xs = filter (\<lambda>y. y \<noteq> x) xs"

abbreviation sset_ok :: "'a::linorder list \<Rightarrow> bool" where
  "sset_ok xs \<equiv> sorted_wrt (<) xs"

lemma set_sset_insert [simp, container_simps]: "set (sset_insert x xs) = insert x (set xs)"
  by (induction xs) auto

lemma set_sset_erase [simp, container_simps]: "set (sset_erase x xs) = set xs - {x}"
  by (auto simp: sset_erase_def)

lemma sset_ok_insert [simp, container_simps]: "sset_ok xs \<Longrightarrow> sset_ok (sset_insert x xs)"
  by (induction xs) (auto intro: less_trans)

lemma sset_ok_erase [simp, container_simps]: "sset_ok xs \<Longrightarrow> sset_ok (sset_erase x xs)"
  by (simp add: sset_erase_def sorted_wrt_filter)

lemma sset_ok_distinct: "sset_ok (xs :: 'a::linorder list) \<Longrightarrow> distinct xs"
  by (simp add: strict_sorted_iff)

text \<open>Inserting the elements of an ascending list one by one rebuilds the list.\<close>

lemma sset_insert_snoc: "sset_ok (xs @ [x]) \<Longrightarrow> sset_insert x xs = xs @ [x]"
  by (induction xs) (auto simp: sorted_wrt_append)

text \<open>
  A \<^verbatim>\<open>std::map\<close> is the list of its pairs in strictly ascending key order. A null
  pointer that \<^verbatim>\<open>operator[]\<close> leaves behind for a missing key is an absent entry:
  every reader in the sources tests for it before use.
\<close>

type_synonym ('k, 'v) omap = "('k \<times> 'v) list"

fun omap_insert :: "'k::linorder \<Rightarrow> 'v \<Rightarrow> ('k, 'v) omap \<Rightarrow> ('k, 'v) omap" where
  "omap_insert k v [] = [(k, v)]"
| "omap_insert k v ((l, w) # m) =
     (if k < l then (k, v) # (l, w) # m
      else if k = l then (k, v) # m else (l, w) # omap_insert k v m)"

definition omap_erase :: "'k \<Rightarrow> ('k, 'v) omap \<Rightarrow> ('k, 'v) omap" where
  "omap_erase k m = filter (\<lambda>(l, _). l \<noteq> k) m"

abbreviation omap_find :: "('k, 'v) omap \<Rightarrow> 'k \<Rightarrow> 'v option" where
  "omap_find \<equiv> map_of"

abbreviation omap_ok :: "('k::linorder, 'v) omap \<Rightarrow> bool" where
  "omap_ok m \<equiv> sset_ok (map fst m)"

lemma omap_find_insert [simp, container_simps]:
  "omap_find (omap_insert k v m) = (omap_find m)(k \<mapsto> v)"
  by (induction k v m rule: omap_insert.induct) (auto simp: fun_eq_iff)

lemma omap_find_erase [simp, container_simps]:
  "omap_find (omap_erase k m) = (omap_find m)(k := None)"
  by (induction m) (auto simp: omap_erase_def fun_eq_iff)

lemma keys_omap_insert: "map fst (omap_insert k v m) = sset_insert k (map fst m)"
  by (induction k v m rule: omap_insert.induct) auto

lemma keys_omap_erase: "map fst (omap_erase k m) = sset_erase k (map fst m)"
  by (induction m) (auto simp: omap_erase_def sset_erase_def)

lemma omap_ok_insert [simp, container_simps]: "omap_ok m \<Longrightarrow> omap_ok (omap_insert k v m)"
  by (simp add: keys_omap_insert)

lemma omap_ok_erase [simp, container_simps]: "omap_ok m \<Longrightarrow> omap_ok (omap_erase k m)"
  by (simp add: keys_omap_erase)

lemma omap_insert_snoc: "omap_ok (m @ [(k, v)]) \<Longrightarrow> omap_insert k v m = m @ [(k, v)]"
  by (induction m) (auto simp: sorted_wrt_append)

text \<open>
  The contract of an ordered map, proved once for its clients: what a lookup returns
  after an insertion or a removal, and that the order is kept.
\<close>

locale ordered_map =
  fixes find :: "'m \<Rightarrow> 'k \<Rightarrow> 'v option"
    and insert_at :: "'k \<Rightarrow> 'v \<Rightarrow> 'm \<Rightarrow> 'm"
    and erase_at :: "'k \<Rightarrow> 'm \<Rightarrow> 'm"
    and invar :: "'m \<Rightarrow> bool"
  assumes find_insert: "invar m \<Longrightarrow> find (insert_at k v m) l = (if l = k then Some v else find m l)"
    and find_erase: "invar m \<Longrightarrow> find (erase_at k m) l = (if l = k then None else find m l)"
    and invar_insert: "invar m \<Longrightarrow> invar (insert_at k v m)"
    and invar_erase: "invar m \<Longrightarrow> invar (erase_at k m)"
begin

lemma find_insert_same: "invar m \<Longrightarrow> find (insert_at k v m) k = Some v"
  by (simp add: find_insert)

lemma find_insert_other: "invar m \<Longrightarrow> l \<noteq> k \<Longrightarrow> find (insert_at k v m) l = find m l"
  by (simp add: find_insert)

lemma find_erase_insert:
  "invar m \<Longrightarrow> find m k = None \<Longrightarrow> find (erase_at k (insert_at k v m)) l = find m l"
  by (simp add: find_erase find_insert invar_insert)

end

interpretation om: ordered_map omap_find omap_insert omap_erase omap_ok
  by unfold_locales simp_all

section \<open>Hexadecimal digits and strtoul\<close>

definition hex_digit_val :: "char \<Rightarrow> nat option" where
  "hex_digit_val c =
     (let n = (of_char c :: nat) in
      if 48 \<le> n \<and> n \<le> 57 then Some (n - 48)
      else if 65 \<le> n \<and> n \<le> 70 then Some (n - 55)
      else if 97 \<le> n \<and> n \<le> 102 then Some (n - 87)
      else None)"

definition is_space :: "char \<Rightarrow> bool" where
  "is_space c = (let n = (of_char c :: nat) in n = 32 \<or> (9 \<le> n \<and> n \<le> 13))"

text \<open>
  The digits \<^verbatim>\<open>strtoul\<close> consumes, as a number; a value that does not fit in
  \<^verbatim>\<open>unsigned long\<close> is answered with \<^verbatim>\<open>ULONG_MAX\<close>, whatever the sign.
\<close>

fun strtoul16_digits :: "string \<Rightarrow> nat \<Rightarrow> nat" where
  "strtoul16_digits [] acc = acc"
| "strtoul16_digits (c # cs) acc =
     (case hex_digit_val c of
        None \<Rightarrow> acc
      | Some d \<Rightarrow> strtoul16_digits cs (16 * acc + d))"

definition strtoul16_prefix :: "string \<Rightarrow> string" where
  "strtoul16_prefix s =
     (case s of
        z # x # d # _ \<Rightarrow>
          (if z = CHR ''0'' \<and> (x = CHR ''x'' \<or> x = CHR ''X'') \<and> hex_digit_val d \<noteq> None
           then drop 2 s else s)
      | _ \<Rightarrow> s)"

definition strtoul16_signed :: "bool \<Rightarrow> string \<Rightarrow> ulong" where
  "strtoul16_signed neg s =
     (let v = strtoul16_digits (strtoul16_prefix s) 0 in
      if v \<ge> 2 ^ 64 then - 1 else if neg then - of_nat v else of_nat v)"

definition strtoul16 :: "string \<Rightarrow> ulong" where
  "strtoul16 s =
     (let t = dropWhile is_space s in
      case t of
        [] \<Rightarrow> 0
      | c # cs \<Rightarrow>
          (if c = CHR ''-'' then strtoul16_signed True cs
           else if c = CHR ''+'' then strtoul16_signed False cs
           else strtoul16_signed False t))"

end
