(* ===== verification/Handle_Mgr.thy ===== *)
theory Handle_Mgr
  imports HSM_Prelude
begin

text \<open>
  \<^verbatim>\<open>src/lib/handle_mgr/Handle.cpp\<close> and \<^verbatim>\<open>HandleManager.cpp\<close>: the table of
  issued session and object handles, with the secondary indexes (objects by address,
  object handles by session, handles by slot, session count by slot) that the clean-up
  functions walk instead of scanning the table.

  Pointers to sessions and objects are addresses, 0 is the null pointer. A function
  that calls \<^verbatim>\<open>release()\<close> returns the addresses it releases, in order; the one
  that calls \<^verbatim>\<open>acquire()\<close> returns the address it acquires. The mutex makes every
  function atomic, so each is one step.

  Shown: the indexes always agree with the table (\<open>hm_inv\<close>), so each indexed clean-up
  is exactly the scan it replaces; a handle is never issued twice; a handle that was
  cleaned up does not resolve any more; and the references taken on session objects
  balance.
\<close>

section \<open>Data\<close>

datatype handle_kind = CKH_INVALID | CKH_SESSION | CKH_OBJECT

record handle =
  h_kind :: handle_kind
  h_slotID :: ulong
  h_hSession :: ulong
  h_object :: addr
  h_session :: addr
  h_isPrivate :: bool

abbreviation CK_INVALID_HANDLE :: ulong where
  "CK_INVALID_HANDLE \<equiv> 0"

definition Handle3 :: "handle_kind \<Rightarrow> ulong \<Rightarrow> ulong \<Rightarrow> handle" where
  "Handle3 k slot s =
     \<lparr>h_kind = k, h_slotID = slot, h_hSession = s, h_object = 0, h_session = 0, h_isPrivate = False\<rparr>"

definition Handle2 :: "handle_kind \<Rightarrow> ulong \<Rightarrow> handle" where
  "Handle2 k slot =
     \<lparr>h_kind = k, h_slotID = slot, h_hSession = CK_INVALID_HANDLE, h_object = 0, h_session = 0,
      h_isPrivate = False\<rparr>"

record handle_manager =
  handles :: "(ulong, handle) omap"
  objects :: "(addr, ulong) omap"
  handleCounter :: ulong
  sessionObjectHandles :: "(ulong, ulong list) omap"
  slotHandles :: "(ulong, ulong list) omap"
  slotSessionCount :: "(ulong, ulong) omap"

text \<open>\<^verbatim>\<open>operator[]\<close> on a map of sets, and on the map of counters.\<close>

definition idx_at :: "('k, 'v list) omap \<Rightarrow> 'k \<Rightarrow> 'v list" where
  "idx_at m k = (case omap_find m k of None \<Rightarrow> [] | Some xs \<Rightarrow> xs)"

definition count_at :: "(ulong, ulong) omap \<Rightarrow> ulong \<Rightarrow> ulong" where
  "count_at m k = (case omap_find m k of None \<Rightarrow> 0 | Some n \<Rightarrow> n)"

definition idx_insert :: "'k::linorder \<Rightarrow> 'v::linorder \<Rightarrow> ('k, 'v list) omap \<Rightarrow> ('k, 'v list) omap" where
  "idx_insert k v m = omap_insert k (sset_insert v (idx_at m k)) m"

definition idx_erase :: "'k::linorder \<Rightarrow> 'v \<Rightarrow> ('k, 'v list) omap \<Rightarrow> ('k, 'v list) omap" where
  "idx_erase k v m = omap_insert k (sset_erase v (idx_at m k)) m"

section \<open>Operations\<close>

definition HandleManager_new :: handle_manager where
  "HandleManager_new =
     \<lparr>handles = [], objects = [], handleCounter = 0, sessionObjectHandles = [], slotHandles = [],
      slotSessionCount = []\<rparr>"

text \<open>The destructor releases what is left, in handle order.\<close>

definition HandleManager_delete :: "handle_manager \<Rightarrow> addr list" where
  "HandleManager_delete hm =
     map (\<lambda>(_, e). h_object e)
       (filter (\<lambda>(_, e). h_kind e = CKH_OBJECT \<and> h_hSession e \<noteq> CK_INVALID_HANDLE) (handles hm))"

definition addSession :: "handle_manager \<Rightarrow> ulong \<Rightarrow> addr \<Rightarrow> ulong \<times> handle_manager" where
  "addSession hm slot sess =
     (let h = (Handle2 CKH_SESSION slot)\<lparr>h_session := sess\<rparr>;
          c = handleCounter hm + 1
      in (c, hm\<lparr>handleCounter := c,
                handles := omap_insert c h (handles hm),
                slotHandles := idx_insert slot c (slotHandles hm),
                slotSessionCount :=
                  omap_insert slot (count_at (slotSessionCount hm) slot + 1) (slotSessionCount hm)\<rparr>))"

definition hm_getSession :: "handle_manager \<Rightarrow> ulong \<Rightarrow> addr" where
  "hm_getSession hm s =
     (case omap_find (handles hm) s of
        None \<Rightarrow> 0
      | Some e \<Rightarrow> if h_kind e \<noteq> CKH_SESSION then 0 else h_session e)"

text \<open>
  The handle, the new manager and the acquired object, if any. An object that is already
  registered keeps its handle, provided the table agrees.
\<close>

definition addSessionObject ::
  "handle_manager \<Rightarrow> ulong \<Rightarrow> ulong \<Rightarrow> bool \<Rightarrow> addr \<Rightarrow> ulong \<times> handle_manager \<times> addr list" where
  "addSessionObject hm slot sess priv obj =
     (case omap_find (objects hm) obj of
        Some oh \<Rightarrow>
          (case omap_find (handles hm) oh of
             None \<Rightarrow> (CK_INVALID_HANDLE, hm\<lparr>objects := omap_erase obj (objects hm)\<rparr>, [])
           | Some hit \<Rightarrow>
               if h_kind hit \<noteq> CKH_OBJECT \<or> slot \<noteq> h_slotID hit
               then (CK_INVALID_HANDLE, hm\<lparr>objects := omap_erase obj (objects hm)\<rparr>, [])
               else (oh, hm, []))
      | None \<Rightarrow>
          (let h = (Handle3 CKH_OBJECT slot sess)\<lparr>h_isPrivate := priv, h_object := obj\<rparr>;
               c = handleCounter hm + 1
           in (c, hm\<lparr>handleCounter := c,
                     handles := omap_insert c h (handles hm),
                     objects := omap_insert obj c (objects hm),
                     sessionObjectHandles := idx_insert sess c (sessionObjectHandles hm),
                     slotHandles := idx_insert slot c (slotHandles hm)\<rparr>, [obj])))"

definition addTokenObject ::
  "handle_manager \<Rightarrow> ulong \<Rightarrow> bool \<Rightarrow> addr \<Rightarrow> ulong \<times> handle_manager" where
  "addTokenObject hm slot priv obj =
     (case omap_find (objects hm) obj of
        Some oh \<Rightarrow>
          (case omap_find (handles hm) oh of
             None \<Rightarrow> (CK_INVALID_HANDLE, hm\<lparr>objects := omap_erase obj (objects hm)\<rparr>)
           | Some hit \<Rightarrow>
               if h_kind hit \<noteq> CKH_OBJECT \<or> slot \<noteq> h_slotID hit
               then (CK_INVALID_HANDLE, hm\<lparr>objects := omap_erase obj (objects hm)\<rparr>)
               else (oh, hm))
      | None \<Rightarrow>
          (let h = (Handle2 CKH_OBJECT slot)\<lparr>h_isPrivate := priv, h_object := obj\<rparr>;
               c = handleCounter hm + 1
           in (c, hm\<lparr>handleCounter := c,
                     handles := omap_insert c h (handles hm),
                     objects := omap_insert obj c (objects hm),
                     slotHandles := idx_insert slot c (slotHandles hm)\<rparr>)))"

definition getObject :: "handle_manager \<Rightarrow> ulong \<Rightarrow> addr" where
  "getObject hm h =
     (case omap_find (handles hm) h of
        None \<Rightarrow> 0
      | Some e \<Rightarrow> if h_kind e \<noteq> CKH_OBJECT then 0 else h_object e)"

definition getObjectHandle :: "handle_manager \<Rightarrow> addr \<Rightarrow> ulong" where
  "getObjectHandle hm obj =
     (case omap_find (objects hm) obj of None \<Rightarrow> CK_INVALID_HANDLE | Some h \<Rightarrow> h)"

definition hm_destroyObject :: "handle_manager \<Rightarrow> ulong \<Rightarrow> handle_manager \<times> addr list" where
  "hm_destroyObject hm h =
     (case omap_find (handles hm) h of
        None \<Rightarrow> (hm, [])
      | Some e \<Rightarrow>
          if h_kind e \<noteq> CKH_OBJECT then (hm, [])
          else
            (let sess = h_hSession e \<noteq> CK_INVALID_HANDLE
             in (hm\<lparr>sessionObjectHandles :=
                      (if sess then idx_erase (h_hSession e) h (sessionObjectHandles hm)
                       else sessionObjectHandles hm),
                    slotHandles := idx_erase (h_slotID e) h (slotHandles hm),
                    objects := omap_erase (h_object e) (objects hm),
                    handles := omap_erase h (handles hm)\<rparr>,
                 if sess then [h_object e] else [])))"

text \<open>One turn of the loop of \<open>allSessionsClosed\<close>, and the whole function.\<close>

definition slot_close_step :: "ulong \<Rightarrow> handle_manager \<times> addr list \<Rightarrow> handle_manager \<times> addr list" where
  "slot_close_step h st =
     (let (hm, rel) = st in
      case omap_find (handles hm) h of
        None \<Rightarrow> (hm, rel)
      | Some e \<Rightarrow>
          (hm\<lparr>objects := (if h_kind e = CKH_OBJECT then omap_erase (h_object e) (objects hm)
                         else objects hm),
              sessionObjectHandles := (if h_kind e = CKH_SESSION
                                       then omap_erase h (sessionObjectHandles hm)
                                       else sessionObjectHandles hm),
              handles := omap_erase h (handles hm)\<rparr>,
           if h_kind e = CKH_OBJECT \<and> h_hSession e \<noteq> CK_INVALID_HANDLE
           then sset_insert (h_object e) rel else rel))"

definition hm_allSessionsClosed :: "handle_manager \<Rightarrow> ulong \<Rightarrow> handle_manager \<times> addr list" where
  "hm_allSessionsClosed hm slot =
     (let (hm1, rel) =
        (case omap_find (slotHandles hm) slot of
           None \<Rightarrow> (hm, [])
         | Some handleSet \<Rightarrow>
             (let (hm', rel') = fold slot_close_step handleSet (hm, [])
              in (hm'\<lparr>slotHandles := omap_erase slot (slotHandles hm')\<rparr>, rel')))
      in (hm1\<lparr>slotSessionCount := omap_erase slot (slotSessionCount hm1)\<rparr>, rel))"

text \<open>One turn of the loop of \<open>sessionClosed\<close>, and the whole function.\<close>

definition session_close_step ::
  "ulong \<Rightarrow> ulong \<Rightarrow> handle_manager \<times> addr list \<Rightarrow> handle_manager \<times> addr list" where
  "session_close_step slot h st =
     (let (hm, rel) = st in
      case omap_find (handles hm) h of
        None \<Rightarrow> (hm, rel)
      | Some e \<Rightarrow>
          (hm\<lparr>objects := omap_erase (h_object e) (objects hm),
              slotHandles := idx_erase slot h (slotHandles hm),
              handles := omap_erase h (handles hm)\<rparr>,
           sset_insert (h_object e) rel))"

text \<open>
  The entries of the session and of its objects go, and the session counter of the slot
  is decremented.
\<close>

definition close_entries :: "handle_manager \<Rightarrow> ulong \<Rightarrow> ulong \<Rightarrow> handle_manager \<times> addr list" where
  "close_entries hm s slot =
     (let hm1 = hm\<lparr>slotHandles := idx_erase slot s (slotHandles hm),
                   handles := omap_erase s (handles hm)\<rparr>;
          (hm2, rel) =
            (case omap_find (sessionObjectHandles hm1) s of
               None \<Rightarrow> (hm1, [])
             | Some objHandles \<Rightarrow>
                 (let (hm', rel') = fold (session_close_step slot) objHandles (hm1, [])
                  in (hm'\<lparr>sessionObjectHandles := omap_erase s (sessionObjectHandles hm')\<rparr>,
                      rel')));
          c0 = count_at (slotSessionCount hm2) slot;
          c = (if c0 > 0 then c0 - 1 else c0)
      in (hm2\<lparr>slotSessionCount := omap_insert slot c (slotSessionCount hm2)\<rparr>, rel))"

definition hm_sessionClosed :: "handle_manager \<Rightarrow> ulong \<Rightarrow> handle_manager \<times> addr list" where
  "hm_sessionClosed hm s =
     (case omap_find (handles hm) s of
        None \<Rightarrow> (hm, [])
      | Some sd \<Rightarrow>
          if h_kind sd \<noteq> CKH_SESSION then (hm, [])
          else
            (let slot = h_slotID sd;
                 (hm3, rel) = close_entries hm s slot
             in if count_at (slotSessionCount hm3) slot = 0
                then (let (hm4, rel4) = hm_allSessionsClosed hm3 slot in (hm4, rel4 @ rel))
                else (hm3, rel)))"

text \<open>One turn of the loop of \<open>tokenLoggedOut\<close>, and the whole function.\<close>

definition logout_step ::
  "ulong \<Rightarrow> ulong \<Rightarrow> handle_manager \<times> addr list \<Rightarrow> handle_manager \<times> addr list" where
  "logout_step slot h st =
     (let (hm, rel) = st in
      case omap_find (handles hm) h of
        None \<Rightarrow> (hm, rel)
      | Some e \<Rightarrow>
          if h_kind e = CKH_OBJECT \<and> h_isPrivate e
          then
            (hm\<lparr>sessionObjectHandles :=
                  (if h_hSession e \<noteq> CK_INVALID_HANDLE
                   then idx_erase (h_hSession e) h (sessionObjectHandles hm)
                   else sessionObjectHandles hm),
                objects := omap_erase (h_object e) (objects hm),
                handles := omap_erase h (handles hm),
                slotHandles := idx_erase slot h (slotHandles hm)\<rparr>,
             if h_hSession e \<noteq> CK_INVALID_HANDLE then sset_insert (h_object e) rel else rel)
          else (hm, rel))"

definition hm_tokenLoggedOut :: "handle_manager \<Rightarrow> ulong \<Rightarrow> handle_manager \<times> addr list" where
  "hm_tokenLoggedOut hm slot =
     (case omap_find (slotHandles hm) slot of
        None \<Rightarrow> (hm, [])
      | Some handleSet \<Rightarrow> fold (logout_step slot) handleSet (hm, []))"

section \<open>The abstract table\<close>

text \<open>
  The specification is the table alone, a partial map from handles to their data. Each
  clean-up function removes the entries that satisfy a predicate, found by looking at
  every entry.
\<close>

type_synonym table = "ulong \<Rightarrow> handle option"

definition hview :: "handle_manager \<Rightarrow> table" where
  "hview hm = omap_find (handles hm)"

definition scan_erase :: "(ulong \<Rightarrow> handle \<Rightarrow> bool) \<Rightarrow> table \<Rightarrow> table" where
  "scan_erase P t = (\<lambda>h. case t h of None \<Rightarrow> None | Some e \<Rightarrow> if P h e then None else Some e)"

definition slot_sessions :: "table \<Rightarrow> ulong \<Rightarrow> ulong set" where
  "slot_sessions t slot = {h. \<exists>e. t h = Some e \<and> h_kind e = CKH_SESSION \<and> h_slotID e = slot}"

definition spec_sessionClosed :: "table \<Rightarrow> ulong \<Rightarrow> table" where
  "spec_sessionClosed t s =
     (case t s of
        None \<Rightarrow> t
      | Some sd \<Rightarrow>
          if h_kind sd \<noteq> CKH_SESSION then t
          else
            (let t1 = scan_erase (\<lambda>h e. h = s \<or> h_kind e = CKH_OBJECT \<and> h_hSession e = s) t
             in if slot_sessions t1 (h_slotID sd) = {}
                then scan_erase (\<lambda>_ e. h_slotID e = h_slotID sd) t1 else t1))"

text \<open>The objects on which the table holds a reference: those with a session-object handle.\<close>

definition held :: "table \<Rightarrow> addr \<Rightarrow> bool" where
  "held t obj = (\<exists>h e. t h = Some e \<and> h_kind e = CKH_OBJECT
                        \<and> h_hSession e \<noteq> CK_INVALID_HANDLE \<and> h_object e = obj)"

section \<open>The invariant\<close>

text \<open>
  Issued handles lie between 1 and the counter; the object index inverts the object
  entries; the slot and session indexes list exactly the matching entries; a session
  object's session is live and on the same slot; the counter of a slot is the number of
  its sessions.
\<close>

definition issued :: "ulong \<Rightarrow> table \<Rightarrow> bool" where
  "issued n t \<longleftrightarrow> (\<forall>h e. t h = Some e \<longrightarrow> h \<noteq> 0 \<and> h \<le> n)"

definition inverts :: "(addr \<Rightarrow> ulong option) \<Rightarrow> table \<Rightarrow> bool" where
  "inverts m t \<longleftrightarrow> (\<forall>obj h. m obj = Some h \<longleftrightarrow>
     (\<exists>e. t h = Some e \<and> h_kind e = CKH_OBJECT \<and> h_object e = obj))"

definition slot_indexed :: "(ulong, ulong list) omap \<Rightarrow> table \<Rightarrow> bool" where
  "slot_indexed m t \<longleftrightarrow> (\<forall>slot. set (idx_at m slot) = {h. \<exists>e. t h = Some e \<and> h_slotID e = slot})"

definition sess_indexed :: "(ulong, ulong list) omap \<Rightarrow> table \<Rightarrow> bool" where
  "sess_indexed m t \<longleftrightarrow> (\<forall>s. s \<noteq> 0 \<longrightarrow>
     set (idx_at m s) = {h. \<exists>e. t h = Some e \<and> h_kind e = CKH_OBJECT \<and> h_hSession e = s})"

definition sessions_live :: "table \<Rightarrow> bool" where
  "sessions_live t \<longleftrightarrow> (\<forall>h e. t h = Some e \<and> h_kind e = CKH_OBJECT \<and> h_hSession e \<noteq> 0 \<longrightarrow>
     (\<exists>sd. t (h_hSession e) = Some sd \<and> h_kind sd = CKH_SESSION \<and> h_slotID sd = h_slotID e))"

definition counted :: "(ulong, ulong) omap \<Rightarrow> table \<Rightarrow> bool" where
  "counted m t \<longleftrightarrow> (\<forall>slot. unat (count_at m slot) = card (slot_sessions t slot))"

definition core_inv :: "handle_manager \<Rightarrow> bool" where
  "core_inv hm \<longleftrightarrow> issued (handleCounter hm) (hview hm) \<and> inverts (omap_find (objects hm)) (hview hm)"

definition hm_inv :: "handle_manager \<Rightarrow> bool" where
  "hm_inv hm \<longleftrightarrow>
     core_inv hm \<and> slot_indexed (slotHandles hm) (hview hm)
     \<and> sess_indexed (sessionObjectHandles hm) (hview hm) \<and> sessions_live (hview hm)
     \<and> counted (slotSessionCount hm) (hview hm)"

section \<open>Lookups after a change of an index\<close>

lemma idx_at_simps [simp, container_simps]:
  "idx_at (omap_insert k xs m) l = (if l = k then xs else idx_at m l)"
  "idx_at (omap_erase k m) l = (if l = k then [] else idx_at m l)"
  "idx_at [] l = []"
  by (simp_all add: idx_at_def)

lemma set_idx_insert [simp, container_simps]:
  "set (idx_at (idx_insert k v m) l) = (if l = k then insert v (set (idx_at m l)) else set (idx_at m l))"
  by (simp add: idx_insert_def)

lemma set_idx_erase [simp, container_simps]:
  "set (idx_at (idx_erase k v m) l) = (if l = k then set (idx_at m l) - {v} else set (idx_at m l))"
  by (simp add: idx_erase_def)

lemma count_at_simps [simp, container_simps]:
  "count_at (omap_insert k n m) l = (if l = k then n else count_at m l)"
  "count_at (omap_erase k m) l = (if l = k then 0 else count_at m l)"
  "count_at [] l = 0"
  by (simp_all add: count_at_def)

lemma scan_erase_Some [simp]: "scan_erase P t h = Some e \<longleftrightarrow> t h = Some e \<and> \<not> P h e"
  by (auto simp: scan_erase_def split: option.splits)

lemma scan_erase_None [simp]: "scan_erase P t h = None \<longleftrightarrow> t h = None \<or> (\<exists>e. t h = Some e \<and> P h e)"
  by (auto simp: scan_erase_def split: option.splits)

section \<open>What the loops do\<close>

text \<open>
  Each loop removes listed entries from the table, drops their objects from the object
  index, and collects the objects to release; \<open>core_inv\<close> holds after every single
  turn.
\<close>

lemma hview_simps [simp]:
  "hview (hm\<lparr>objects := a\<rparr>) = hview hm"
  "hview (hm\<lparr>handleCounter := b\<rparr>) = hview hm"
  "hview (hm\<lparr>sessionObjectHandles := c\<rparr>) = hview hm"
  "hview (hm\<lparr>slotHandles := d\<rparr>) = hview hm"
  "hview (hm\<lparr>slotSessionCount := f\<rparr>) = hview hm"
  "hview (hm\<lparr>handles := omap_erase h (handles hm)\<rparr>) = (hview hm)(h := None)"
  "hview (hm\<lparr>handles := omap_insert h e (handles hm)\<rparr>) = (hview hm)(h \<mapsto> e)"
  by (simp_all add: hview_def)

lemma hview_find: "omap_find (handles hm) = hview hm"
  by (simp add: hview_def)

lemma hview_handles: "hview (hm\<lparr>handles := m\<rparr>) = omap_find m"
  by (simp add: hview_def)

lemma issued_remove [simp]: "issued n t \<Longrightarrow> issued n (t(h := None))"
  by (auto simp: issued_def)

lemma issued_add: "issued n t \<Longrightarrow> n + 1 \<noteq> 0 \<Longrightarrow> issued (n + 1) (t(n + 1 \<mapsto> e))"
  using less_succ [of n] by (auto simp: issued_def intro: less_imp_le order_trans)

lemma issued_fresh: "issued n t \<Longrightarrow> n + 1 \<noteq> 0 \<Longrightarrow> t (n + 1) = None"
  using less_succ [of n] by (cases "t (n + 1)") (auto simp: issued_def simp flip: not_less)

lemma inverts_remove_object:
  "inverts m t \<Longrightarrow> t h = Some e \<Longrightarrow> h_kind e = CKH_OBJECT \<Longrightarrow> inverts (m(h_object e := None)) (t(h := None))"
  unfolding inverts_def by (auto; metis option.inject)

lemma inverts_remove_other:
  "inverts m t \<Longrightarrow> (\<And>e. t h = Some e \<Longrightarrow> h_kind e \<noteq> CKH_OBJECT) \<Longrightarrow> inverts m (t(h := None))"
  unfolding inverts_def by (auto; metis)

lemma inverts_add_object:
  "inverts m t \<Longrightarrow> m (h_object e) = None \<Longrightarrow> t h = None \<Longrightarrow> h_kind e = CKH_OBJECT \<Longrightarrow>
   inverts (m(h_object e \<mapsto> h)) (t(h \<mapsto> e))"
  unfolding inverts_def by (auto; metis option.distinct(1))

lemma inverts_add_session:
  "inverts m t \<Longrightarrow> t h = None \<Longrightarrow> h_kind e = CKH_SESSION \<Longrightarrow> inverts m (t(h \<mapsto> e))"
  unfolding inverts_def by (auto; metis option.distinct(1))

text \<open>The objects of the listed entries that satisfy a test.\<close>

definition objs_of :: "(handle \<Rightarrow> bool) \<Rightarrow> ulong list \<Rightarrow> table \<Rightarrow> addr set" where
  "objs_of Q hs t = {obj. \<exists>h e. h \<in> set hs \<and> t h = Some e \<and> Q e \<and> h_object e = obj}"

lemma objs_of_Nil [simp]: "objs_of Q [] t = {}"
  by (simp add: objs_of_def)

lemma objs_of_Cons_hit:
  "t h = Some e \<Longrightarrow> Q e \<Longrightarrow>
   objs_of Q (h # hs) t = insert (h_object e) (objs_of Q hs (t(h := None)))"
  by (auto simp: objs_of_def) (metis option.inject)

lemma objs_of_Cons_drop:
  "t h = Some e \<Longrightarrow> \<not> Q e \<Longrightarrow> objs_of Q (h # hs) t = objs_of Q hs (t(h := None))"
  by (auto simp: objs_of_def) (metis option.inject)

lemma objs_of_Cons_miss:
  "(\<And>e. t h = Some e \<Longrightarrow> \<not> Q e) \<Longrightarrow> objs_of Q (h # hs) t = objs_of Q hs t"
  by (auto simp: objs_of_def)

lemma objs_of_other: "s \<notin> set hs \<Longrightarrow> objs_of Q hs (t(s := None)) = objs_of Q hs t"
  unfolding objs_of_def by (intro Collect_cong ex_cong1 conj_cong refl) auto

subsection \<open>The loop over the handles of a slot\<close>

lemma slot_close_step_view [simp]:
  "hview (fst (slot_close_step h st)) = (hview (fst st))(h := None)"
  by (auto simp: slot_close_step_def hview_def fun_eq_iff split: prod.split option.split)

lemma slot_close_step_same:
  "handleCounter (fst (slot_close_step h st)) = handleCounter (fst st)"
  "slotHandles (fst (slot_close_step h st)) = slotHandles (fst st)"
  "slotSessionCount (fst (slot_close_step h st)) = slotSessionCount (fst st)"
  by (simp_all add: slot_close_step_def split: prod.split option.split)

lemma slot_close_fold:
  "hview (fst (fold slot_close_step hs st)) = (\<lambda>x. if x \<in> set hs then None else hview (fst st) x)"
  "handleCounter (fst (fold slot_close_step hs st)) = handleCounter (fst st)"
  "slotHandles (fst (fold slot_close_step hs st)) = slotHandles (fst st)"
  "slotSessionCount (fst (fold slot_close_step hs st)) = slotSessionCount (fst st)"
  by (induction hs arbitrary: st) (auto simp: fun_eq_iff slot_close_step_same)

lemma slot_close_step_core: "core_inv (fst st) \<Longrightarrow> core_inv (fst (slot_close_step h st))"
  unfolding core_inv_def slot_close_step_view slot_close_step_same
  by (auto simp: slot_close_step_def hview_find inverts_remove_object
      intro: inverts_remove_other split: prod.split option.split)

lemma slot_close_fold_core: "core_inv (fst st) \<Longrightarrow> core_inv (fst (fold slot_close_step hs st))"
  by (induction hs arbitrary: st) (simp_all add: slot_close_step_core)

lemma slot_close_fold_sess:
  "idx_at (sessionObjectHandles (fst (fold slot_close_step hs st))) s =
   (if s \<in> set hs \<and> (\<exists>e. hview (fst st) s = Some e \<and> h_kind e = CKH_SESSION) then []
    else idx_at (sessionObjectHandles (fst st)) s)"
proof (induction hs arbitrary: st)
  case (Cons h hs)
  have "idx_at (sessionObjectHandles (fst (slot_close_step h st))) s =
     (if s = h \<and> (\<exists>e. hview (fst st) s = Some e \<and> h_kind e = CKH_SESSION) then []
      else idx_at (sessionObjectHandles (fst st)) s)"
    by (auto simp: slot_close_step_def hview_find split: prod.split option.split)
  with Cons show ?case by auto
qed simp

abbreviation session_object :: "handle \<Rightarrow> bool" where
  "session_object e \<equiv> h_kind e = CKH_OBJECT \<and> h_hSession e \<noteq> CK_INVALID_HANDLE"

lemma slot_close_step_rel:
  "set (snd (slot_close_step h (hm, rel))) \<union> objs_of session_object hs ((hview hm)(h := None)) =
   set rel \<union> objs_of session_object (h # hs) (hview hm)"
proof (cases "hview hm h")
  case None
  with objs_of_Cons_miss [of "hview hm" h session_object hs] show ?thesis
    by (simp add: slot_close_step_def hview_find fun_upd_idem)
next
  case (Some e)
  show ?thesis
  proof (cases "session_object e")
    case True
    with Some objs_of_Cons_hit [of "hview hm" h e session_object hs] show ?thesis
      by (simp add: slot_close_step_def hview_find)
  next
    case False
    with Some objs_of_Cons_drop [of "hview hm" h e session_object hs] show ?thesis
      by (auto simp: slot_close_step_def hview_find)
  qed
qed

lemma slot_close_fold_rel:
  "set (snd (fold slot_close_step hs st)) = set (snd st) \<union> objs_of session_object hs (hview (fst st))"
proof (induction hs arbitrary: st)
  case (Cons h hs)
  show ?case
    using slot_close_step_rel [of h "fst st" "snd st" hs] by (simp only: fold_simps comp_apply Cons.IH
      slot_close_step_view prod.collapse fst_conv)
qed simp

lemma slot_close_fold_sset: "sset_ok (snd st) \<Longrightarrow> sset_ok (snd (fold slot_close_step hs st))"
proof (induction hs arbitrary: st)
  case (Cons h hs)
  have "sset_ok (snd (slot_close_step h st))"
    using Cons.prems by (auto simp: slot_close_step_def split: prod.split option.split)
  with Cons.IH show ?case by simp
qed simp

subsection \<open>The loop over the objects of a session\<close>

lemma session_close_step_view [simp]:
  "hview (fst (session_close_step slot h st)) = (hview (fst st))(h := None)"
  by (auto simp: session_close_step_def hview_def fun_eq_iff split: prod.split option.split)

lemma session_close_step_same:
  "handleCounter (fst (session_close_step slot h st)) = handleCounter (fst st)"
  "sessionObjectHandles (fst (session_close_step slot h st)) = sessionObjectHandles (fst st)"
  "slotSessionCount (fst (session_close_step slot h st)) = slotSessionCount (fst st)"
  by (simp_all add: session_close_step_def split: prod.split option.split)

lemma session_close_fold:
  "hview (fst (fold (session_close_step slot) hs st))
   = (\<lambda>x. if x \<in> set hs then None else hview (fst st) x)"
  "handleCounter (fst (fold (session_close_step slot) hs st)) = handleCounter (fst st)"
  "sessionObjectHandles (fst (fold (session_close_step slot) hs st)) = sessionObjectHandles (fst st)"
  "slotSessionCount (fst (fold (session_close_step slot) hs st)) = slotSessionCount (fst st)"
  by (induction hs arbitrary: st) (auto simp: fun_eq_iff session_close_step_same)

definition all_objects :: "ulong list \<Rightarrow> table \<Rightarrow> bool" where
  "all_objects hs t \<longleftrightarrow> (\<forall>h \<in> set hs. \<forall>e. t h = Some e \<longrightarrow> h_kind e = CKH_OBJECT)"

lemma all_objects_Cons:
  "all_objects (h # hs) t \<Longrightarrow> all_objects hs (t(h := None)) \<and> (\<forall>e. t h = Some e \<longrightarrow> h_kind e = CKH_OBJECT)"
  by (auto simp: all_objects_def)

lemma session_close_fold_core:
  "core_inv (fst st) \<Longrightarrow> all_objects hs (hview (fst st)) \<Longrightarrow>
   core_inv (fst (fold (session_close_step slot) hs st))"
proof (induction hs arbitrary: st)
  case (Cons h hs)
  have core: "core_inv (fst (session_close_step slot h st))"
    using Cons.prems all_objects_Cons [OF Cons.prems(2)]
    unfolding core_inv_def session_close_step_view session_close_step_same
    by (auto simp: session_close_step_def hview_find inverts_remove_object
        intro: inverts_remove_other split: prod.split option.split)
  have "all_objects hs (hview (fst (session_close_step slot h st)))"
    using all_objects_Cons [OF Cons.prems(2)] by (simp only: session_close_step_view)
  from Cons.IH [OF core this] show ?case by simp
qed simp

lemma session_close_fold_slot:
  "set (idx_at (slotHandles (fst (fold (session_close_step slot) hs st))) l) =
   set (idx_at (slotHandles (fst st)) l)
   - (if l = slot then {h \<in> set hs. hview (fst st) h \<noteq> None} else {})"
proof (induction hs arbitrary: st)
  case (Cons h hs)
  have "set (idx_at (slotHandles (fst (session_close_step slot h st))) l) =
    set (idx_at (slotHandles (fst st)) l) - (if l = slot \<and> hview (fst st) h \<noteq> None then {h} else {})"
    by (auto simp: session_close_step_def hview_find split: prod.split option.split)
  with Cons show ?case by auto
qed simp

lemma session_close_step_rel:
  "set (snd (session_close_step slot h (hm, rel))) \<union> objs_of (\<lambda>_. True) hs ((hview hm)(h := None)) =
   set rel \<union> objs_of (\<lambda>_. True) (h # hs) (hview hm)"
proof (cases "hview hm h")
  case None
  with objs_of_Cons_miss [of "hview hm" h "\<lambda>_. True" hs] show ?thesis
    by (simp add: session_close_step_def hview_find fun_upd_idem)
next
  case (Some e)
  with objs_of_Cons_hit [of "hview hm" h e "\<lambda>_. True" hs] show ?thesis
    by (simp add: session_close_step_def hview_find)
qed

lemma session_close_fold_rel:
  "set (snd (fold (session_close_step slot) hs st))
   = set (snd st) \<union> objs_of (\<lambda>_. True) hs (hview (fst st))"
proof (induction hs arbitrary: st)
  case (Cons h hs)
  show ?case
    using session_close_step_rel [of slot h "fst st" "snd st" hs]
    by (simp only: fold_simps comp_apply Cons.IH session_close_step_view prod.collapse fst_conv)
qed simp

lemma session_close_fold_sset:
  "sset_ok (snd st) \<Longrightarrow> sset_ok (snd (fold (session_close_step slot) hs st))"
proof (induction hs arbitrary: st)
  case (Cons h hs)
  have "sset_ok (snd (session_close_step slot h st))"
    using Cons.prems by (auto simp: session_close_step_def split: prod.split option.split)
  with Cons.IH show ?case by simp
qed simp

subsection \<open>The loop over the private objects of a slot\<close>

abbreviation private_object :: "handle \<Rightarrow> bool" where
  "private_object e \<equiv> h_kind e = CKH_OBJECT \<and> h_isPrivate e"

lemma logout_step_view [simp]:
  "hview (fst (logout_step slot h st)) =
   (if \<exists>e. hview (fst st) h = Some e \<and> private_object e then (hview (fst st))(h := None)
    else hview (fst st))"
  by (auto simp: logout_step_def hview_def fun_eq_iff split: prod.split option.split)

lemma logout_step_same:
  "handleCounter (fst (logout_step slot h st)) = handleCounter (fst st)"
  "slotSessionCount (fst (logout_step slot h st)) = slotSessionCount (fst st)"
  by (simp_all add: logout_step_def split: prod.split option.split)

lemma logout_fold:
  "hview (fst (fold (logout_step slot) hs st)) =
   scan_erase (\<lambda>h e. h \<in> set hs \<and> private_object e) (hview (fst st))"
  "handleCounter (fst (fold (logout_step slot) hs st)) = handleCounter (fst st)"
  "slotSessionCount (fst (fold (logout_step slot) hs st)) = slotSessionCount (fst st)"
proof (induction hs arbitrary: st)
  case (Cons h hs)
  {
    case 1
    show ?case by (auto simp: Cons.IH scan_erase_def fun_eq_iff split: option.splits)
  next
    case 2
    show ?case by (simp add: Cons.IH logout_step_same)
  next
    case 3
    show ?case by (simp add: Cons.IH logout_step_same)
  }
qed (simp_all add: scan_erase_def option.case_eq_if fun_eq_iff)

lemma logout_fold_core: "core_inv (fst st) \<Longrightarrow> core_inv (fst (fold (logout_step slot) hs st))"
proof (induction hs arbitrary: st)
  case (Cons h hs)
  have "core_inv (fst (logout_step slot h st))"
    using Cons.prems
    by (auto simp: core_inv_def logout_step_same)
       (auto simp: logout_step_def hview_find inverts_remove_object
        intro: inverts_remove_other split: prod.split option.split)
  with Cons.IH show ?case by simp
qed simp

lemma logout_step_rest:
  "set (idx_at (sessionObjectHandles (fst (logout_step slot h st))) s) =
     set (idx_at (sessionObjectHandles (fst st)) s)
     - (if \<exists>e. hview (fst st) h = Some e \<and> private_object e \<and> h_hSession e = s \<and> s \<noteq> 0 then {h} else {})"
  "set (idx_at (slotHandles (fst (logout_step slot h st))) l) =
     set (idx_at (slotHandles (fst st)) l)
     - (if l = slot \<and> (\<exists>e. hview (fst st) h = Some e \<and> private_object e) then {h} else {})"
  by (auto simp: logout_step_def hview_find split: prod.split option.split)

lemma logout_fold_sess:
  "set (idx_at (sessionObjectHandles (fst (fold (logout_step slot) hs st))) s) =
   set (idx_at (sessionObjectHandles (fst st)) s)
   - {h \<in> set hs. \<exists>e. hview (fst st) h = Some e \<and> private_object e \<and> h_hSession e = s \<and> s \<noteq> 0}"
proof (induction hs arbitrary: st)
  case (Cons h hs)
  show ?case
    by (simp only: fold_simps comp_apply Cons.IH logout_step_rest logout_step_view) auto
qed simp

lemma logout_fold_slot:
  "set (idx_at (slotHandles (fst (fold (logout_step slot) hs st))) l) =
   set (idx_at (slotHandles (fst st)) l)
   - (if l = slot then {h \<in> set hs. \<exists>e. hview (fst st) h = Some e \<and> private_object e} else {})"
proof (induction hs arbitrary: st)
  case (Cons h hs)
  show ?case
    by (simp only: fold_simps comp_apply Cons.IH logout_step_rest logout_step_view) auto
qed simp

abbreviation private_session_object :: "handle \<Rightarrow> bool" where
  "private_session_object e \<equiv> private_object e \<and> h_hSession e \<noteq> CK_INVALID_HANDLE"

lemma logout_step_rel:
  "set (snd (logout_step slot h (hm, rel)))
   \<union> objs_of private_session_object hs (hview (fst (logout_step slot h (hm, rel)))) =
   set rel \<union> objs_of private_session_object (h # hs) (hview hm)"
proof (cases "hview hm h")
  case None
  with objs_of_Cons_miss [of "hview hm" h private_session_object hs] show ?thesis
    by (simp add: logout_step_def hview_find)
next
  case (Some e)
  consider "private_session_object e" | "private_object e" "h_hSession e = 0" | "\<not> private_object e"
    by blast
  then show ?thesis
  proof cases
    case 1
    with Some objs_of_Cons_hit [of "hview hm" h e private_session_object hs] show ?thesis
      by (simp add: logout_step_def hview_find hview_handles)
  next
    case 2
    with Some objs_of_Cons_drop [of "hview hm" h e private_session_object hs] show ?thesis
      by (simp add: logout_step_def hview_find hview_handles)
  next
    case 3
    with Some objs_of_Cons_miss [of "hview hm" h private_session_object hs] show ?thesis
      by (auto simp: logout_step_def hview_find)
  qed
qed

lemma logout_fold_rel:
  "set (snd (fold (logout_step slot) hs st))
   = set (snd st) \<union> objs_of private_session_object hs (hview (fst st))"
proof (induction hs arbitrary: st)
  case (Cons h hs)
  show ?case
    using logout_step_rel [of slot h "fst st" "snd st" hs]
    by (simp only: fold_simps comp_apply Cons.IH prod.collapse)
qed simp

lemma logout_fold_sset: "sset_ok (snd st) \<Longrightarrow> sset_ok (snd (fold (logout_step slot) hs st))"
proof (induction hs arbitrary: st)
  case (Cons h hs)
  have "sset_ok (snd (logout_step slot h st))"
    using Cons.prems by (auto simp: logout_step_def split: prod.split option.split)
  with Cons.IH show ?case by simp
qed simp

section \<open>The operations keep the invariant\<close>

lemma hm_invE:
  assumes "hm_inv hm"
  obtains "issued (handleCounter hm) (hview hm)" "inverts (omap_find (objects hm)) (hview hm)"
    "slot_indexed (slotHandles hm) (hview hm)" "sess_indexed (sessionObjectHandles hm) (hview hm)"
    "sessions_live (hview hm)" "counted (slotSessionCount hm) (hview hm)"
  using assms by (auto simp: hm_inv_def core_inv_def)

lemma hm_inv_new: "hm_inv HandleManager_new"
  by (simp add: hm_inv_def core_inv_def HandleManager_new_def hview_def issued_def inverts_def
      slot_indexed_def sess_indexed_def sessions_live_def counted_def slot_sessions_def)

lemma finite_slot_sessions [simp]: "finite (slot_sessions (hview hm) slot)"
proof (rule finite_subset)
  show "slot_sessions (hview hm) slot \<subseteq> dom (hview hm)" by (auto simp: slot_sessions_def)
  show "finite (dom (hview hm))" by (simp add: hview_def finite_dom_map_of)
qed

lemma sessions_live_scan:
  assumes "sessions_live t"
    and "\<And>h e sd. t h = Some e \<Longrightarrow> \<not> P h e \<Longrightarrow> h_kind e = CKH_OBJECT \<Longrightarrow> h_hSession e \<noteq> 0 \<Longrightarrow>
      t (h_hSession e) = Some sd \<Longrightarrow> h_kind sd = CKH_SESSION \<Longrightarrow> h_slotID sd = h_slotID e \<Longrightarrow>
      \<not> P (h_hSession e) sd"
  shows "sessions_live (scan_erase P t)"
  using assms unfolding sessions_live_def scan_erase_Some by blast

text \<open>An address has at most one object handle, so what a clean-up drops is no longer held.\<close>

lemma inverts_unique:
  "inverts m t \<Longrightarrow> t h = Some e \<Longrightarrow> h_kind e = CKH_OBJECT \<Longrightarrow> t h' = Some e' \<Longrightarrow>
   h_kind e' = CKH_OBJECT \<Longrightarrow> h_object e = h_object e' \<Longrightarrow> h = h'"
  unfolding inverts_def by (metis option.inject)

lemma objs_of_dropped:
  assumes "inverts m t"
    and "\<And>h e. t h = Some e \<Longrightarrow> session_object e \<Longrightarrow> P h e \<longleftrightarrow> h \<in> set hs \<and> Q e"
    and "\<And>h e. h \<in> set hs \<Longrightarrow> t h = Some e \<Longrightarrow> Q e \<Longrightarrow> session_object e"
  shows "objs_of Q hs t = {obj. held t obj \<and> \<not> held (scan_erase P t) obj}"
proof (intro set_eqI iffI)
  fix obj assume "obj \<in> objs_of Q hs t"
  then obtain h e where he: "h \<in> set hs" "t h = Some e" "Q e" "h_object e = obj"
    by (auto simp: objs_of_def)
  then have so: "session_object e" using assms(3) by blast
  have "\<not> held (scan_erase P t) obj"
  proof
    assume "held (scan_erase P t) obj"
    then obtain h' e' where h': "t h' = Some e'" "\<not> P h' e'" "session_object e'" "h_object e' = obj"
      by (auto simp: held_def)
    then have "h' = h" using inverts_unique [OF assms(1), of h' e' h e] he so by simp
    with h' he assms(2) show False by auto
  qed
  with he so show "obj \<in> {obj. held t obj \<and> \<not> held (scan_erase P t) obj}"
    by (auto simp: held_def)
next
  fix obj assume "obj \<in> {obj. held t obj \<and> \<not> held (scan_erase P t) obj}"
  then obtain h e where "t h = Some e" "session_object e" "h_object e = obj" "P h e"
    by (auto simp: held_def)
  with assms(2) show "obj \<in> objs_of Q hs t" by (auto simp: objs_of_def)
qed

subsection \<open>Closing every session of a slot\<close>

lemma slot_listed:
  "hm_inv hm \<Longrightarrow> h \<in> set (idx_at (slotHandles hm) slot) \<longleftrightarrow> (\<exists>e. hview hm h = Some e \<and> h_slotID e = slot)"
  by (auto simp: hm_inv_def slot_indexed_def)

lemma hm_allSessionsClosed_fold:
  fixes hm slot
  defines "st \<equiv> fold slot_close_step (idx_at (slotHandles hm) slot) (hm, [])"
  shows "hview (fst (hm_allSessionsClosed hm slot)) = hview (fst st)"
    "core_inv (fst (hm_allSessionsClosed hm slot)) = core_inv (fst st)"
    "handleCounter (fst (hm_allSessionsClosed hm slot)) = handleCounter (fst st)"
    "sessionObjectHandles (fst (hm_allSessionsClosed hm slot)) = sessionObjectHandles (fst st)"
    "idx_at (slotHandles (fst (hm_allSessionsClosed hm slot))) l =
       (if l = slot then [] else idx_at (slotHandles (fst st)) l)"
    "count_at (slotSessionCount (fst (hm_allSessionsClosed hm slot))) l =
       (if l = slot then 0 else count_at (slotSessionCount (fst st)) l)"
    "snd (hm_allSessionsClosed hm slot) = snd st"
  by (auto simp: hm_allSessionsClosed_def st_def idx_at_def core_inv_def
      split: option.split prod.split)

lemma hm_allSessionsClosed_view:
  "hm_inv hm \<Longrightarrow> hview (fst (hm_allSessionsClosed hm slot)) = scan_erase (\<lambda>_ e. h_slotID e = slot) (hview hm)"
  by (auto simp: hm_allSessionsClosed_fold slot_close_fold slot_listed scan_erase_def fun_eq_iff
      split: option.split)

lemma hm_allSessionsClosed_inv:
  assumes "hm_inv hm"
  shows "hm_inv (fst (hm_allSessionsClosed hm slot))"
proof -
  let ?hm = "fst (hm_allSessionsClosed hm slot)"
  let ?t = "scan_erase (\<lambda>_ e. h_slotID e = slot) (hview hm)"
  note view = hm_allSessionsClosed_view [OF assms, of slot]
  from assms show ?thesis
  proof (rule hm_invE)
    assume si: "slot_indexed (slotHandles hm) (hview hm)"
      and se: "sess_indexed (sessionObjectHandles hm) (hview hm)"
      and live: "sessions_live (hview hm)"
      and cnt: "counted (slotSessionCount hm) (hview hm)"
    have "core_inv ?hm"
      using assms by (simp add: hm_inv_def hm_allSessionsClosed_fold slot_close_fold_core)
    moreover have "slot_indexed (slotHandles ?hm) ?t"
      using si by (auto simp: slot_indexed_def hm_allSessionsClosed_fold slot_close_fold)
    moreover have "sess_indexed (sessionObjectHandles ?hm) ?t"
      using se live unfolding sess_indexed_def hm_allSessionsClosed_fold slot_close_fold_sess
      by (auto simp: slot_listed [OF assms] sessions_live_def)
        (metis option.inject)+
    moreover have "sessions_live ?t"
      using live by (rule sessions_live_scan) auto
    moreover have "counted (slotSessionCount ?hm) ?t"
    proof -
      have "slot_sessions ?t l = (if l = slot then {} else slot_sessions (hview hm) l)" for l
        by (auto simp: slot_sessions_def)
      with cnt show ?thesis by (simp add: counted_def hm_allSessionsClosed_fold slot_close_fold)
    qed
    ultimately show ?thesis by (simp add: hm_inv_def view)
  qed
qed

lemma hm_allSessionsClosed_released:
  assumes "hm_inv hm"
  shows "set (snd (hm_allSessionsClosed hm slot)) =
    {obj. held (hview hm) obj \<and> \<not> held (hview (fst (hm_allSessionsClosed hm slot))) obj}"
proof -
  have "inverts (omap_find (objects hm)) (hview hm)" using assms by (rule hm_invE)
  then show ?thesis
    unfolding hm_allSessionsClosed_view [OF assms] hm_allSessionsClosed_fold(7) slot_close_fold_rel
    by (subst objs_of_dropped [where P = "\<lambda>_ e. h_slotID e = slot"])
      (auto simp: slot_listed [OF assms])
qed

lemma hm_allSessionsClosed_sset: "sset_ok (snd (hm_allSessionsClosed hm slot))"
  by (simp add: hm_allSessionsClosed_fold slot_close_fold_sset)

subsection \<open>Closing one session\<close>

abbreviation of_session :: "ulong \<Rightarrow> ulong \<Rightarrow> handle \<Rightarrow> bool" where
  "of_session s h e \<equiv> h = s \<or> h_kind e = CKH_OBJECT \<and> h_hSession e = s"

text \<open>The entries of a session and of its objects, without the last-session clean-up.\<close>

definition close_start :: "handle_manager \<Rightarrow> ulong \<Rightarrow> ulong \<Rightarrow> handle_manager" where
  "close_start hm s slot =
     hm\<lparr>slotHandles := idx_erase slot s (slotHandles hm), handles := omap_erase s (handles hm)\<rparr>"

lemma close_start_simps [simp]:
  "hview (close_start hm s slot) = (hview hm)(s := None)"
  "objects (close_start hm s slot) = objects hm"
  "handleCounter (close_start hm s slot) = handleCounter hm"
  "sessionObjectHandles (close_start hm s slot) = sessionObjectHandles hm"
  "slotSessionCount (close_start hm s slot) = slotSessionCount hm"
  "slotHandles (close_start hm s slot) = idx_erase slot s (slotHandles hm)"
  by (simp_all add: close_start_def hview_def)

lemma close_entries_fold:
  fixes hm s slot
  defines "st \<equiv> fold (session_close_step slot) (idx_at (sessionObjectHandles hm) s) (close_start hm s slot, [])"
  shows "hview (fst (close_entries hm s slot)) = hview (fst st)"
    "core_inv (fst (close_entries hm s slot)) = core_inv (fst st)"
    "handleCounter (fst (close_entries hm s slot)) = handleCounter (fst st)"
    "slotHandles (fst (close_entries hm s slot)) = slotHandles (fst st)"
    "idx_at (sessionObjectHandles (fst (close_entries hm s slot))) l =
       (if l = s then [] else idx_at (sessionObjectHandles hm) l)"
    "count_at (slotSessionCount (fst (close_entries hm s slot))) l =
       (if l = slot \<and> count_at (slotSessionCount hm) slot > 0
        then count_at (slotSessionCount hm) slot - 1 else count_at (slotSessionCount hm) l)"
    "snd (close_entries hm s slot) = snd st"
proof -
  have st1: "sessionObjectHandles (fst st) = sessionObjectHandles hm"
    "slotSessionCount (fst st) = slotSessionCount hm"
    by (simp_all add: st_def session_close_fold)
  have "close_entries hm s slot =
    (let hm2 = (if omap_find (sessionObjectHandles hm) s = None then fst st
                else (fst st)\<lparr>sessionObjectHandles := omap_erase s (sessionObjectHandles (fst st))\<rparr>);
         c0 = count_at (slotSessionCount hm2) slot;
         c = (if c0 > 0 then c0 - 1 else c0)
     in (hm2\<lparr>slotSessionCount := omap_insert slot c (slotSessionCount hm2)\<rparr>, snd st))"
    by (auto simp: close_entries_def st_def close_start_def idx_at_def Let_def
        split: option.split prod.split)
  then show "hview (fst (close_entries hm s slot)) = hview (fst st)"
    "core_inv (fst (close_entries hm s slot)) = core_inv (fst st)"
    "handleCounter (fst (close_entries hm s slot)) = handleCounter (fst st)"
    "slotHandles (fst (close_entries hm s slot)) = slotHandles (fst st)"
    "idx_at (sessionObjectHandles (fst (close_entries hm s slot))) l =
       (if l = s then [] else idx_at (sessionObjectHandles hm) l)"
    "count_at (slotSessionCount (fst (close_entries hm s slot))) l =
       (if l = slot \<and> count_at (slotSessionCount hm) slot > 0
        then count_at (slotSessionCount hm) slot - 1 else count_at (slotSessionCount hm) l)"
    "snd (close_entries hm s slot) = snd st"
    by (auto simp: Let_def core_inv_def st1 idx_at_def)
qed

lemma sess_listed:
  "hm_inv hm \<Longrightarrow> s \<noteq> 0 \<Longrightarrow> h \<in> set (idx_at (sessionObjectHandles hm) s) \<longleftrightarrow>
     (\<exists>e. hview hm h = Some e \<and> h_kind e = CKH_OBJECT \<and> h_hSession e = s)"
  by (auto simp: hm_inv_def sess_indexed_def)

lemma handle_nonzero: "hm_inv hm \<Longrightarrow> hview hm h = Some e \<Longrightarrow> h \<noteq> 0"
  by (auto simp: hm_inv_def core_inv_def issued_def)

lemma close_entries_view:
  assumes "hm_inv hm" "hview hm s = Some sd" "h_kind sd = CKH_SESSION"
  shows "hview (fst (close_entries hm s slot)) = scan_erase (of_session s) (hview hm)"
  using sess_listed [OF assms(1) handle_nonzero [OF assms(1, 2)]]
  by (auto simp: close_entries_fold session_close_fold scan_erase_def fun_eq_iff split: option.split)

lemma close_entries_slot:
  assumes "hm_inv hm" "hview hm s = Some sd" "h_kind sd = CKH_SESSION"
  shows "set (idx_at (slotHandles (fst (close_entries hm s (h_slotID sd)))) l) =
    {h. \<exists>e. scan_erase (of_session s) (hview hm) h = Some e \<and> h_slotID e = l}"
proof -
  have nz: "s \<noteq> 0" using handle_nonzero assms by blast
  have live: "sessions_live (hview hm)" using assms(1) by (rule hm_invE)
  have same: "h_slotID e = h_slotID sd"
    if "hview hm h = Some e" "h_kind e = CKH_OBJECT" "h_hSession e = s" for h e
    using live that nz assms(2) unfolding sessions_live_def by (metis option.inject)
  show ?thesis
    unfolding close_entries_fold(4) session_close_fold_slot
    using same assms(2, 3) by (auto simp: slot_listed [OF assms(1)] sess_listed [OF assms(1) nz])
qed

lemma close_entries_inv:
  assumes "hm_inv hm" "hview hm s = Some sd" "h_kind sd = CKH_SESSION"
  shows "hm_inv (fst (close_entries hm s (h_slotID sd)))"
proof -
  let ?hm = "fst (close_entries hm s (h_slotID sd))"
  let ?t = "scan_erase (of_session s) (hview hm)"
  have nz: "s \<noteq> 0" using handle_nonzero assms by blast
  from assms(1) show ?thesis
  proof (rule hm_invE)
    assume iss: "issued (handleCounter hm) (hview hm)"
      and inv: "inverts (omap_find (objects hm)) (hview hm)"
      and se: "sess_indexed (sessionObjectHandles hm) (hview hm)"
      and live: "sessions_live (hview hm)"
      and cnt: "counted (slotSessionCount hm) (hview hm)"
    have "core_inv (close_start hm s (h_slotID sd))"
      using iss inv assms(2, 3) by (auto simp: core_inv_def intro: inverts_remove_other)
    then have "core_inv ?hm"
      unfolding close_entries_fold
      by (intro session_close_fold_core)
         (auto simp: all_objects_def sess_listed [OF assms(1) nz])
    moreover have "slot_indexed (slotHandles ?hm) ?t"
      using close_entries_slot [OF assms] by (simp add: slot_indexed_def)
    moreover have "sess_indexed (sessionObjectHandles ?hm) ?t"
      using se assms(2, 3) by (auto simp: sess_indexed_def close_entries_fold)
    moreover have "sessions_live ?t"
      using live by (rule sessions_live_scan) auto
    moreover have "counted (slotSessionCount ?hm) ?t"
    proof -
      have ss: "slot_sessions ?t l = slot_sessions (hview hm) l - (if l = h_slotID sd then {s} else {})" for l
        using assms(2, 3) by (auto simp: slot_sessions_def)
      have "s \<in> slot_sessions (hview hm) (h_slotID sd)"
        using assms(2, 3) by (simp add: slot_sessions_def)
      moreover from this have "0 < card (slot_sessions (hview hm) (h_slotID sd))"
        by (simp add: card_gt_0_iff) blast
      ultimately show ?thesis
        using cnt by (auto simp: counted_def close_entries_fold ss word_less_nat_alt unat_sub word_le_nat_alt)
    qed
    ultimately show ?thesis by (simp add: hm_inv_def close_entries_view [OF assms])
  qed
qed

lemma close_entries_released:
  assumes "hm_inv hm" "hview hm s = Some sd" "h_kind sd = CKH_SESSION"
  shows "set (snd (close_entries hm s slot)) =
    {obj. held (hview hm) obj \<and> \<not> held (hview (fst (close_entries hm s slot))) obj}"
proof -
  have nz: "s \<noteq> 0" using handle_nonzero assms by blast
  have inv: "inverts (omap_find (objects hm)) (hview hm)" using assms(1) by (rule hm_invE)
  have "objs_of (\<lambda>_. True) (idx_at (sessionObjectHandles hm) s) ((hview hm)(s := None)) =
    objs_of (\<lambda>_. True) (idx_at (sessionObjectHandles hm) s) (hview hm)"
    using assms(2, 3) by (intro objs_of_other) (simp add: sess_listed [OF assms(1) nz])
  also have "\<dots> = {obj. held (hview hm) obj \<and> \<not> held (scan_erase (of_session s) (hview hm)) obj}"
    using assms(2, 3) nz by (intro objs_of_dropped [OF inv]) (auto simp: sess_listed [OF assms(1) nz])
  finally show ?thesis
    by (simp add: close_entries_fold(7) session_close_fold_rel close_entries_view [OF assms])
qed

lemma close_entries_sset: "sset_ok (snd (close_entries hm s slot))"
  by (simp add: close_entries_fold session_close_fold_sset)

lemma counted_zero:
  assumes "hm_inv hm"
  shows "count_at (slotSessionCount hm) slot = 0 \<longleftrightarrow> slot_sessions (hview hm) slot = {}"
proof -
  have "unat (count_at (slotSessionCount hm) slot) = card (slot_sessions (hview hm) slot)"
    using assms by (rule hm_invE) (simp add: counted_def)
  then show ?thesis by (metis card_0_eq finite_slot_sessions unat_eq_0)
qed

text \<open>The cases of \<open>sessionClosed\<close>: no such session, a session that was the last one, another.\<close>

lemma hm_sessionClosed_cases:
  assumes "hm_inv hm"
  obtains (none) "\<And>sd. hview hm s = Some sd \<Longrightarrow> h_kind sd \<noteq> CKH_SESSION" "hm_sessionClosed hm s = (hm, [])"
  | (last) sd st where "hview hm s = Some sd" "h_kind sd = CKH_SESSION" "st = close_entries hm s (h_slotID sd)"
      "slot_sessions (hview (fst st)) (h_slotID sd) = {}"
      "hm_sessionClosed hm s =
        (fst (hm_allSessionsClosed (fst st) (h_slotID sd)),
         snd (hm_allSessionsClosed (fst st) (h_slotID sd)) @ snd st)"
  | (more) sd st where "hview hm s = Some sd" "h_kind sd = CKH_SESSION" "st = close_entries hm s (h_slotID sd)"
      "slot_sessions (hview (fst st)) (h_slotID sd) \<noteq> {}" "hm_sessionClosed hm s = st"
proof (cases "\<exists>sd. hview hm s = Some sd \<and> h_kind sd = CKH_SESSION")
  case False
  then show thesis
    by (intro none) (auto simp: hm_sessionClosed_def hview_find split: option.split)
next
  case True
  then obtain sd where sd: "hview hm s = Some sd" "h_kind sd = CKH_SESSION" by blast
  let ?st = "close_entries hm s (h_slotID sd)"
  note cz = counted_zero [OF close_entries_inv [OF assms sd], of "h_slotID sd"]
  show thesis
  proof (cases "slot_sessions (hview (fst ?st)) (h_slotID sd) = {}")
    case True
    with sd cz show thesis
      by (intro last [of sd ?st]) (simp_all add: hm_sessionClosed_def hview_find Let_def case_prod_unfold)
  next
    case False
    with sd cz show thesis
      by (intro more [of sd ?st]) (simp_all add: hm_sessionClosed_def hview_find Let_def case_prod_unfold)
  qed
qed

lemma hm_sessionClosed_view:
  assumes "hm_inv hm"
  shows "hview (fst (hm_sessionClosed hm s)) = spec_sessionClosed (hview hm) s"
  using assms
proof (cases rule: hm_sessionClosed_cases [of hm s])
  case none
  then show ?thesis by (auto simp: spec_sessionClosed_def split: option.split)
next
  case (last sd st)
  with close_entries_view [OF assms last(1, 2)] hm_allSessionsClosed_view [OF close_entries_inv [OF assms last(1, 2)]]
  show ?thesis by (simp add: spec_sessionClosed_def)
next
  case (more sd st)
  with close_entries_view [OF assms more(1, 2)] show ?thesis by (simp add: spec_sessionClosed_def)
qed

lemma hm_sessionClosed_inv: "hm_inv hm \<Longrightarrow> hm_inv (fst (hm_sessionClosed hm s))"
  by (cases rule: hm_sessionClosed_cases [of hm s])
    (simp_all add: close_entries_inv hm_allSessionsClosed_inv)

lemma held_mono: "(\<And>h e. t' h = Some e \<Longrightarrow> t h = Some e) \<Longrightarrow> held t' obj \<Longrightarrow> held t obj"
  unfolding held_def by blast

lemma hm_sessionClosed_released:
  assumes "hm_inv hm"
  shows "distinct (snd (hm_sessionClosed hm s))"
    and "set (snd (hm_sessionClosed hm s)) =
      {obj. held (hview hm) obj \<and> \<not> held (hview (fst (hm_sessionClosed hm s))) obj}"
proof -
  have "distinct (snd (hm_sessionClosed hm s)) \<and> set (snd (hm_sessionClosed hm s)) =
      {obj. held (hview hm) obj \<and> \<not> held (hview (fst (hm_sessionClosed hm s))) obj}"
    using assms
  proof (cases rule: hm_sessionClosed_cases [of hm s])
    case (last sd st)
    note inv = close_entries_inv [OF assms last(1, 2), folded last(3)]
    note rel = close_entries_released [OF assms last(1, 2), of "h_slotID sd", folded last(3)]
      hm_allSessionsClosed_released [OF inv, of "h_slotID sd"]
    have sub: "held (hview (fst st)) obj \<Longrightarrow> held (hview hm) obj"
      "held (hview (fst (hm_allSessionsClosed (fst st) (h_slotID sd)))) obj \<Longrightarrow> held (hview (fst st)) obj" for obj
      using close_entries_view [OF assms last(1, 2), of "h_slotID sd"] hm_allSessionsClosed_view [OF inv]
      by (auto simp: last(3) intro: held_mono [rotated])
    show ?thesis
      using sub sset_ok_distinct [OF close_entries_sset [of hm s "h_slotID sd"]]
        sset_ok_distinct [OF hm_allSessionsClosed_sset [of "fst st" "h_slotID sd"]]
      by (auto simp: last(5) rel last(3) [symmetric])
  next
    case (more sd st)
    with close_entries_released [OF assms more(1, 2)] sset_ok_distinct [OF close_entries_sset]
    show ?thesis by simp
  qed simp
  then show "distinct (snd (hm_sessionClosed hm s))"
    and "set (snd (hm_sessionClosed hm s)) =
      {obj. held (hview hm) obj \<and> \<not> held (hview (fst (hm_sessionClosed hm s))) obj}"
    by simp_all
qed

subsection \<open>Logging out of a token\<close>

lemma hm_tokenLoggedOut_fold:
  "hm_tokenLoggedOut hm slot = fold (logout_step slot) (idx_at (slotHandles hm) slot) (hm, [])"
  by (simp add: hm_tokenLoggedOut_def idx_at_def split: option.split)

lemma hm_tokenLoggedOut_view:
  "hm_inv hm \<Longrightarrow> hview (fst (hm_tokenLoggedOut hm slot)) =
     scan_erase (\<lambda>_ e. h_slotID e = slot \<and> private_object e) (hview hm)"
  by (auto simp: hm_tokenLoggedOut_fold logout_fold slot_listed scan_erase_def fun_eq_iff split: option.split)

lemma hm_tokenLoggedOut_inv:
  assumes "hm_inv hm"
  shows "hm_inv (fst (hm_tokenLoggedOut hm slot))"
proof -
  let ?hm = "fst (hm_tokenLoggedOut hm slot)"
  let ?t = "scan_erase (\<lambda>_ e. h_slotID e = slot \<and> private_object e) (hview hm)"
  from assms show ?thesis
  proof (rule hm_invE)
    assume si: "slot_indexed (slotHandles hm) (hview hm)"
      and se: "sess_indexed (sessionObjectHandles hm) (hview hm)"
      and live: "sessions_live (hview hm)"
      and cnt: "counted (slotSessionCount hm) (hview hm)"
    have "core_inv ?hm"
      using assms by (simp add: hm_inv_def hm_tokenLoggedOut_fold logout_fold_core)
    moreover have "slot_indexed (slotHandles ?hm) ?t"
      using si by (auto simp: slot_indexed_def hm_tokenLoggedOut_fold logout_fold_slot slot_listed [OF assms])
    moreover have "sess_indexed (sessionObjectHandles ?hm) ?t"
      using se by (auto simp: sess_indexed_def hm_tokenLoggedOut_fold logout_fold_sess slot_listed [OF assms])
    moreover have "sessions_live ?t"
      using live by (rule sessions_live_scan) auto
    moreover have "slot_sessions ?t l = slot_sessions (hview hm) l" for l
      by (auto simp: slot_sessions_def)
    then have "counted (slotSessionCount ?hm) ?t"
      using cnt by (simp add: counted_def hm_tokenLoggedOut_fold logout_fold)
    ultimately show ?thesis by (simp add: hm_inv_def hm_tokenLoggedOut_view [OF assms])
  qed
qed

lemma hm_tokenLoggedOut_released:
  assumes "hm_inv hm"
  shows "set (snd (hm_tokenLoggedOut hm slot)) =
    {obj. held (hview hm) obj \<and> \<not> held (hview (fst (hm_tokenLoggedOut hm slot))) obj}"
proof -
  have "inverts (omap_find (objects hm)) (hview hm)" using assms by (rule hm_invE)
  then show ?thesis
    unfolding hm_tokenLoggedOut_view [OF assms]
    unfolding hm_tokenLoggedOut_fold logout_fold_rel
    by (subst objs_of_dropped [where P = "\<lambda>_ e. h_slotID e = slot \<and> private_object e"])
      (auto simp: slot_listed [OF assms])
qed

lemma hm_tokenLoggedOut_sset: "sset_ok (snd (hm_tokenLoggedOut hm slot))"
  by (simp add: hm_tokenLoggedOut_fold logout_fold_sset)

subsection \<open>The contract of a clean-up\<close>

text \<open>
  What the three functions promise: they drop exactly the entries a scan of the table
  would drop, keep the invariant and the counter, and release every object they stop
  holding once.
\<close>

locale table_cleanup =
  fixes cleanup :: "handle_manager \<Rightarrow> handle_manager \<times> addr list"
    and spec :: "table \<Rightarrow> table"
  assumes spec_le: "spec t h = Some e \<Longrightarrow> t h = Some e"
    and view: "hm_inv hm \<Longrightarrow> hview (fst (cleanup hm)) = spec (hview hm)"
    and inv: "hm_inv hm \<Longrightarrow> hm_inv (fst (cleanup hm))"
    and released: "hm_inv hm \<Longrightarrow> set (snd (cleanup hm)) =
      {obj. held (hview hm) obj \<and> \<not> held (hview (fst (cleanup hm))) obj}"
    and once: "hm_inv hm \<Longrightarrow> distinct (snd (cleanup hm))"
begin

lemma getObject_spec:
  "hm_inv hm \<Longrightarrow> getObject (fst (cleanup hm)) h = (if spec (hview hm) h = None then 0 else getObject hm h)"
  using spec_le [of "hview hm" h] view
  by (auto simp: getObject_def hview_find split: option.split)

lemma getSession_spec:
  "hm_inv hm \<Longrightarrow> hm_getSession (fst (cleanup hm)) h = (if spec (hview hm) h = None then 0 else hm_getSession hm h)"
  using spec_le [of "hview hm" h] view
  by (auto simp: hm_getSession_def hview_find split: option.split)

lemma contract:
  "hm_inv hm \<Longrightarrow>
   hm_inv (fst (cleanup hm)) \<and> hview (fst (cleanup hm)) = spec (hview hm)
   \<and> distinct (snd (cleanup hm))
   \<and> set (snd (cleanup hm)) = {obj. held (hview hm) obj \<and> \<not> held (spec (hview hm)) obj}"
  by (simp add: inv view once released)

end

interpretation all_closed: table_cleanup "\<lambda>hm. hm_allSessionsClosed hm slot" "scan_erase (\<lambda>_ e. h_slotID e = slot)"
  for slot
  by unfold_locales
    (simp_all add: hm_allSessionsClosed_view hm_allSessionsClosed_inv hm_allSessionsClosed_released
      hm_allSessionsClosed_sset sset_ok_distinct flip: hm_allSessionsClosed_view)

interpretation logged_out: table_cleanup "\<lambda>hm. hm_tokenLoggedOut hm slot"
  "scan_erase (\<lambda>_ e. h_slotID e = slot \<and> private_object e)"
  for slot
  by unfold_locales
    (simp_all add: hm_tokenLoggedOut_view hm_tokenLoggedOut_inv hm_tokenLoggedOut_released
      hm_tokenLoggedOut_sset sset_ok_distinct flip: hm_tokenLoggedOut_view)

lemma spec_sessionClosed_le: "spec_sessionClosed t s h = Some e \<Longrightarrow> t h = Some e"
  by (auto simp: spec_sessionClosed_def Let_def split: option.splits if_splits)

interpretation one_closed: table_cleanup "\<lambda>hm. hm_sessionClosed hm s" "\<lambda>t. spec_sessionClosed t s"
  for s
  by unfold_locales
    (auto simp: hm_sessionClosed_view hm_sessionClosed_inv hm_sessionClosed_released intro: spec_sessionClosed_le)

subsection \<open>Issuing and destroying handles\<close>

text \<open>What adding an entry under the next handle does to the indexes.\<close>

lemma indexed_add:
  assumes "t h = None"
  shows "slot_indexed m t \<Longrightarrow> slot_indexed (idx_insert (h_slotID e) h m) (t(h \<mapsto> e))"
    and "sess_indexed n t \<Longrightarrow> h_kind e = CKH_OBJECT \<Longrightarrow> sess_indexed (idx_insert (h_hSession e) h n) (t(h \<mapsto> e))"
    and "sess_indexed n t \<Longrightarrow> h_kind e = CKH_SESSION \<or> h_hSession e = 0 \<Longrightarrow> sess_indexed n (t(h \<mapsto> e))"
  using assms by (auto simp: slot_indexed_def sess_indexed_def)

lemma sessions_live_add:
  assumes "sessions_live t" "t h = None"
    and "h_kind e = CKH_OBJECT \<Longrightarrow> h_hSession e \<noteq> 0 \<Longrightarrow>
      \<exists>sd. t (h_hSession e) = Some sd \<and> h_kind sd = CKH_SESSION \<and> h_slotID sd = h_slotID e"
  shows "sessions_live (t(h \<mapsto> e))"
  unfolding sessions_live_def
proof (intro allI impI)
  fix h' e' assume *: "(t(h \<mapsto> e)) h' = Some e' \<and> h_kind e' = CKH_OBJECT \<and> h_hSession e' \<noteq> 0"
  then have "\<exists>sd. t (h_hSession e') = Some sd \<and> h_kind sd = CKH_SESSION \<and> h_slotID sd = h_slotID e'"
    using assms(1, 3) by (cases "h' = h") (auto simp: sessions_live_def)
  with assms(2) show "\<exists>sd. (t(h \<mapsto> e)) (h_hSession e') = Some sd \<and> h_kind sd = CKH_SESSION \<and> h_slotID sd = h_slotID e'"
    by (metis fun_upd_apply option.distinct(1))
qed

lemma slot_sessions_add:
  "t h = None \<Longrightarrow> slot_sessions (t(h \<mapsto> e)) l =
   (if h_kind e = CKH_SESSION \<and> h_slotID e = l then insert h (slot_sessions t l) else slot_sessions t l)"
  by (auto simp: slot_sessions_def)

lemma hm_fresh: "hm_inv hm \<Longrightarrow> handleCounter hm + 1 \<noteq> 0 \<Longrightarrow> hview hm (handleCounter hm + 1) = None"
  by (auto simp: hm_inv_def core_inv_def intro: issued_fresh)

lemma count_le_counter:
  assumes "hm_inv hm"
  shows "unat (count_at (slotSessionCount hm) slot) \<le> unat (handleCounter hm)"
proof -
  have "slot_sessions (hview hm) slot \<subseteq> {1..handleCounter hm}"
    using assms by (auto simp: hm_inv_def core_inv_def issued_def slot_sessions_def word_le_nat_alt unat_gt_0 Suc_le_eq)
  then have "unat ` slot_sessions (hview hm) slot \<subseteq> {1..unat (handleCounter hm)}"
    by (auto simp: word_le_nat_alt)
  then have "card (unat ` slot_sessions (hview hm) slot) \<le> unat (handleCounter hm)"
    using card_mono [of "{1..unat (handleCounter hm)}"] by simp
  moreover have "card (unat ` slot_sessions (hview hm) slot) = card (slot_sessions (hview hm) slot)"
    by (intro card_image inj_onI) (simp add: word_eq_iff_unsigned [where 'a = nat])
  ultimately show ?thesis using assms by (auto simp: hm_inv_def counted_def)
qed

lemma count_succ:
  assumes "hm_inv hm" "handleCounter hm + 1 \<noteq> 0"
  shows "unat (count_at (slotSessionCount hm) slot + 1) = Suc (card (slot_sessions (hview hm) slot))"
proof -
  have "unat (count_at (slotSessionCount hm) slot) < unat (handleCounter hm + 1)"
    using count_le_counter [OF assms(1), of slot] unat_succ [OF assms(2)] by simp
  then have "count_at (slotSessionCount hm) slot + 1 \<noteq> 0"
    by (intro below_succ) (simp add: word_less_nat_alt)
  then show ?thesis using assms(1) by (simp add: unat_succ hm_inv_def counted_def)
qed

lemma hm_inv_add_session:
  assumes "hm_inv hm" and "handleCounter hm + 1 \<noteq> 0" and "h_kind e = CKH_SESSION"
    and "hview hm' = (hview hm)(handleCounter hm + 1 \<mapsto> e)" and "handleCounter hm' = handleCounter hm + 1"
    and "objects hm' = objects hm" and "sessionObjectHandles hm' = sessionObjectHandles hm"
    and "slotHandles hm' = idx_insert (h_slotID e) (handleCounter hm + 1) (slotHandles hm)"
    and "slotSessionCount hm' =
      omap_insert (h_slotID e) (count_at (slotSessionCount hm) (h_slotID e) + 1) (slotSessionCount hm)"
  shows "hm_inv hm'"
proof -
  note fresh = hm_fresh [OF assms(1, 2)]
  have "handleCounter hm + 1 \<notin> slot_sessions (hview hm) (h_slotID e)"
    using fresh by (simp add: slot_sessions_def)
  then have "counted (slotSessionCount hm') (hview hm')"
    using assms(1, 3) count_succ [OF assms(1, 2)]
    by (auto simp: assms(4-9) counted_def slot_sessions_add [of "hview hm", OF fresh] hm_inv_def)
  moreover have "sessions_live (hview hm')"
    using assms(1, 3) fresh by (auto simp: assms(4) hm_inv_def intro: sessions_live_add)
  ultimately show ?thesis
    using assms(1-3) fresh
    by (simp add: assms(4-8) hm_inv_def core_inv_def issued_add inverts_add_session indexed_add)
qed

lemma hm_inv_add_object:
  assumes "hm_inv hm" and "handleCounter hm + 1 \<noteq> 0" and "h_kind e = CKH_OBJECT"
    and "omap_find (objects hm) (h_object e) = None"
    and "h_hSession e \<noteq> 0 \<Longrightarrow> \<exists>sd. hview hm (h_hSession e) = Some sd \<and> h_kind sd = CKH_SESSION \<and> h_slotID sd = h_slotID e"
    and "hview hm' = (hview hm)(handleCounter hm + 1 \<mapsto> e)" and "handleCounter hm' = handleCounter hm + 1"
    and "objects hm' = omap_insert (h_object e) (handleCounter hm + 1) (objects hm)"
    and "sessionObjectHandles hm' = (if h_hSession e = 0 then sessionObjectHandles hm
      else idx_insert (h_hSession e) (handleCounter hm + 1) (sessionObjectHandles hm))"
    and "slotHandles hm' = idx_insert (h_slotID e) (handleCounter hm + 1) (slotHandles hm)"
    and "slotSessionCount hm' = slotSessionCount hm"
  shows "hm_inv hm'"
proof -
  note fresh = hm_fresh [OF assms(1, 2)]
  have "counted (slotSessionCount hm') (hview hm')"
    using assms(1, 3) by (simp add: assms(6, 11) counted_def slot_sessions_add [of "hview hm", OF fresh] hm_inv_def)
  moreover have "sessions_live (hview hm')"
    using assms(1, 5) fresh by (auto simp: assms(6) hm_inv_def intro: sessions_live_add)
  ultimately show ?thesis
    using assms(1-4) fresh
    by (simp add: assms(6-10) hm_inv_def core_inv_def issued_add inverts_add_object indexed_add)
qed

lemma addSession_inv:
  "hm_inv hm \<Longrightarrow> handleCounter hm + 1 \<noteq> 0 \<Longrightarrow> hm_inv (snd (addSession hm slot sess))"
  by (erule hm_inv_add_session [where e = "(Handle2 CKH_SESSION slot)\<lparr>h_session := sess\<rparr>"])
    (simp_all add: addSession_def Let_def Handle2_def hview_handles hview_find)

text \<open>
  An object that is already registered must be registered for the slot it is added on:
  an object belongs to one token. Otherwise the code drops the index entry and reports
  an invalid handle.
\<close>

definition registered_here :: "handle_manager \<Rightarrow> ulong \<Rightarrow> addr \<Rightarrow> bool" where
  "registered_here hm slot obj =
     (case omap_find (objects hm) obj of
        None \<Rightarrow> True
      | Some h \<Rightarrow> (case omap_find (handles hm) h of None \<Rightarrow> False | Some e \<Rightarrow> h_slotID e = slot))"

lemma registered_again:
  assumes "hm_inv hm" "registered_here hm slot obj" "omap_find (objects hm) obj = Some h"
  shows "addSessionObject hm slot sess priv obj = (h, hm, [])" "addTokenObject hm slot priv obj = (h, hm)"
proof -
  have "inverts (omap_find (objects hm)) (hview hm)" using assms(1) by (rule hm_invE)
  with assms(3) obtain e where "hview hm h = Some e" "h_kind e = CKH_OBJECT"
    by (auto simp: inverts_def)
  with assms(2, 3) show "addSessionObject hm slot sess priv obj = (h, hm, [])"
    "addTokenObject hm slot priv obj = (h, hm)"
    by (auto simp: addSessionObject_def addTokenObject_def registered_here_def hview_find)
qed

lemma addSessionObject_inv:
  assumes "hm_inv hm" "handleCounter hm + 1 \<noteq> 0" "registered_here hm slot obj"
    and "hview hm sess = Some sd" "h_kind sd = CKH_SESSION" "h_slotID sd = slot"
  shows "hm_inv (fst (snd (addSessionObject hm slot sess priv obj)))"
proof (cases "omap_find (objects hm) obj")
  case None
  let ?e = "(Handle3 CKH_OBJECT slot sess)\<lparr>h_isPrivate := priv, h_object := obj\<rparr>"
  have "sess \<noteq> 0" using assms handle_nonzero by blast
  with None assms show ?thesis
    by (intro hm_inv_add_object [where e = ?e, OF assms(1, 2)])
      (simp_all add: addSessionObject_def Let_def Handle3_def hview_handles hview_find)
qed (simp add: registered_again assms)

lemma addTokenObject_inv:
  assumes "hm_inv hm" "handleCounter hm + 1 \<noteq> 0" "registered_here hm slot obj"
  shows "hm_inv (snd (addTokenObject hm slot priv obj))"
proof (cases "omap_find (objects hm) obj")
  case None
  let ?e = "(Handle2 CKH_OBJECT slot)\<lparr>h_isPrivate := priv, h_object := obj\<rparr>"
  from None show ?thesis
    by (intro hm_inv_add_object [where e = ?e, OF assms(1, 2)])
      (simp_all add: addTokenObject_def Let_def Handle2_def hview_handles hview_find)
qed (simp add: registered_again assms)

lemma hm_destroyObject_view:
  "hview (fst (hm_destroyObject hm h)) =
   (case hview hm h of
      Some e \<Rightarrow> if h_kind e = CKH_OBJECT then (hview hm)(h := None) else hview hm
    | None \<Rightarrow> hview hm)"
  by (simp add: hm_destroyObject_def Let_def hview_handles hview_find split: option.split)

lemma hm_destroyObject_inv:
  assumes "hm_inv hm"
  shows "hm_inv (fst (hm_destroyObject hm h))"
proof (cases "\<exists>e. hview hm h = Some e \<and> h_kind e = CKH_OBJECT")
  case True
  then obtain e where e: "hview hm h = Some e" "h_kind e = CKH_OBJECT" by blast
  let ?hm = "fst (hm_destroyObject hm h)"
  have v: "hview ?hm = scan_erase (\<lambda>h' _. h' = h) (hview hm)"
    by (auto simp: hm_destroyObject_view e scan_erase_def fun_eq_iff split: option.split)
  have f: "handleCounter ?hm = handleCounter hm" "slotSessionCount ?hm = slotSessionCount hm"
    "objects ?hm = omap_erase (h_object e) (objects hm)"
    "slotHandles ?hm = idx_erase (h_slotID e) h (slotHandles hm)"
    "sessionObjectHandles ?hm = (if h_hSession e \<noteq> 0 then idx_erase (h_hSession e) h (sessionObjectHandles hm)
       else sessionObjectHandles hm)"
    using e by (simp_all add: hm_destroyObject_def hview_find Let_def)
  from assms show ?thesis
  proof (rule hm_invE)
    assume iss: "issued (handleCounter hm) (hview hm)"
      and inv: "inverts (omap_find (objects hm)) (hview hm)"
      and si: "slot_indexed (slotHandles hm) (hview hm)"
      and se: "sess_indexed (sessionObjectHandles hm) (hview hm)"
      and live: "sessions_live (hview hm)"
      and cnt: "counted (slotSessionCount hm) (hview hm)"
    have "core_inv ?hm"
      using iss inverts_remove_object [OF inv e] e by (simp add: core_inv_def f hm_destroyObject_view)
    moreover have "slot_indexed (slotHandles ?hm) (hview ?hm)"
      using si e by (auto simp: slot_indexed_def f v)
    moreover have "sess_indexed (sessionObjectHandles ?hm) (hview ?hm)"
      using se e by (auto simp: sess_indexed_def f v)
    moreover have "sessions_live (hview ?hm)"
      unfolding v using live e by (intro sessions_live_scan) auto
    moreover have "slot_sessions (hview ?hm) l = slot_sessions (hview hm) l" for l
      using e by (auto simp: slot_sessions_def v)
    then have "counted (slotSessionCount ?hm) (hview ?hm)"
      using cnt by (simp add: counted_def f)
    ultimately show ?thesis by (simp add: hm_inv_def)
  qed
qed (use assms in \<open>auto simp: hm_destroyObject_def hview_find split: option.split\<close>)

section \<open>Histories\<close>

text \<open>
  One call on the manager. The callers add a session object only under a live session of
  the same slot, register an object for one slot only, and stop before the counter wraps.
\<close>

inductive hm_step :: "handle_manager \<Rightarrow> handle_manager \<Rightarrow> bool" where
  add_session: "handleCounter hm + 1 \<noteq> 0 \<Longrightarrow> hm_step hm (snd (addSession hm slot sess))"
| add_session_object:
    "handleCounter hm + 1 \<noteq> 0 \<Longrightarrow> registered_here hm slot obj \<Longrightarrow> hview hm sess = Some sd \<Longrightarrow>
     h_kind sd = CKH_SESSION \<Longrightarrow> h_slotID sd = slot \<Longrightarrow>
     hm_step hm (fst (snd (addSessionObject hm slot sess priv obj)))"
| add_token_object:
    "handleCounter hm + 1 \<noteq> 0 \<Longrightarrow> registered_here hm slot obj \<Longrightarrow>
     hm_step hm (snd (addTokenObject hm slot priv obj))"
| destroy_object: "hm_step hm (fst (hm_destroyObject hm h))"
| session_closed: "hm_step hm (fst (hm_sessionClosed hm s))"
| all_sessions_closed: "hm_step hm (fst (hm_allSessionsClosed hm slot))"
| token_logged_out: "hm_step hm (fst (hm_tokenLoggedOut hm slot))"

lemma hm_step_inv: "hm_step hm hm' \<Longrightarrow> hm_inv hm \<Longrightarrow> hm_inv hm'"
  by (induction rule: hm_step.induct)
    (simp_all add: addSession_inv addSessionObject_inv addTokenObject_inv hm_destroyObject_inv
      hm_sessionClosed_inv hm_allSessionsClosed_inv hm_tokenLoggedOut_inv)

lemma hm_steps_inv: "hm_step\<^sup>*\<^sup>* hm hm' \<Longrightarrow> hm_inv hm \<Longrightarrow> hm_inv hm'"
  by (induction rule: rtranclp_induct) (auto intro: hm_step_inv)

text \<open>Entries appear only under the next counter value, and the counter never falls.\<close>

definition grows :: "handle_manager \<Rightarrow> handle_manager \<Rightarrow> bool" where
  "grows hm hm' \<longleftrightarrow> handleCounter hm \<le> handleCounter hm'
     \<and> (\<forall>h. h \<le> handleCounter hm \<longrightarrow> hview hm' h \<noteq> None \<longrightarrow> hview hm' h = hview hm h)"

lemma cleanup_counter:
  "handleCounter (fst (hm_allSessionsClosed hm slot)) = handleCounter hm"
  "handleCounter (fst (close_entries hm s slot)) = handleCounter hm"
  "handleCounter (fst (hm_tokenLoggedOut hm slot)) = handleCounter hm"
  by (simp_all add: hm_allSessionsClosed_fold slot_close_fold close_entries_fold session_close_fold
      hm_tokenLoggedOut_fold logout_fold)

lemma hm_sessionClosed_counter:
  assumes "hm_inv hm"
  shows "handleCounter (fst (hm_sessionClosed hm s)) = handleCounter hm"
  using assms by (cases rule: hm_sessionClosed_cases [of hm s]) (simp_all add: cleanup_counter)

lemma hm_destroyObject_counter: "handleCounter (fst (hm_destroyObject hm h)) = handleCounter hm"
  by (simp add: hm_destroyObject_def Let_def split: option.split)

lemma grows_add:
  "hview hm' = (hview hm)(handleCounter hm + 1 \<mapsto> e) \<Longrightarrow> handleCounter hm' = handleCounter hm + 1 \<Longrightarrow>
   handleCounter hm + 1 \<noteq> 0 \<Longrightarrow> grows hm hm'"
  using less_succ [of "handleCounter hm"] by (auto simp: grows_def)

lemma grows_refl [simp]: "grows hm hm"
  by (simp add: grows_def)

lemma hm_step_grows: "hm_step hm hm' \<Longrightarrow> hm_inv hm \<Longrightarrow> grows hm hm'"
proof (induction rule: hm_step.induct)
  case (add_session hm slot sess)
  then show ?case
    by (intro grows_add) (auto simp: addSession_def Let_def hview_handles hview_find)
next
  case (add_session_object hm slot obj sess sd priv)
  then show ?case
  proof (cases "omap_find (objects hm) obj")
    case None
    with add_session_object show ?thesis
      by (auto simp: addSessionObject_def Let_def hview_handles hview_find intro: grows_add)
  qed (simp add: registered_again)
next
  case (add_token_object hm slot obj priv)
  then show ?case
  proof (cases "omap_find (objects hm) obj")
    case None
    with add_token_object show ?thesis
      by (auto simp: addTokenObject_def Let_def hview_handles hview_find intro: grows_add)
  qed (simp add: registered_again)
next
  case (destroy_object hm h)
  then show ?case
    by (auto simp: grows_def hm_destroyObject_view hm_destroyObject_counter split: option.splits if_splits)
next
  case (session_closed hm s)
  then show ?case
    by (auto simp: grows_def hm_sessionClosed_counter hm_sessionClosed_view intro: spec_sessionClosed_le [symmetric])
next
  case (all_sessions_closed hm slot)
  then show ?case
    by (auto simp: grows_def cleanup_counter hm_allSessionsClosed_view)
next
  case (token_logged_out hm slot)
  then show ?case
    by (auto simp: grows_def cleanup_counter hm_tokenLoggedOut_view)
qed

lemma hm_steps_grow:
  assumes "hm_step\<^sup>*\<^sup>* hm hm'" "hm_inv hm"
  shows "grows hm hm'"
  using assms
proof (induction rule: rtranclp_induct)
  case (step y z)
  have "grows y z" using hm_step_grows hm_steps_inv step by blast
  with step show ?case by (auto simp: grows_def)
qed simp

section \<open>Properties\<close>

text \<open>
  A concrete history: session 1 and a second session 4 on slot 7, a private session object
  (handle 2) of the first, and a private token object (handle 3).
\<close>

definition sample1 :: handle_manager where
  "sample1 = snd (addSession HandleManager_new 7 42)"

definition sample3 :: handle_manager where
  "sample3 = snd (addTokenObject (fst (snd (addSessionObject sample1 7 1 True 99))) 7 True 100)"

definition sample4 :: handle_manager where
  "sample4 = snd (addSession sample3 7 43)"

lemmas sample_defs = sample1_def sample3_def sample4_def addSession_def addSessionObject_def
  addTokenObject_def HandleManager_new_def Handle2_def Handle3_def hview_def Let_def idx_insert_def
  idx_at_def omap_erase_def count_at_def registered_here_def

lemma sample_steps: "hm_step\<^sup>*\<^sup>* HandleManager_new sample4"
proof -
  have "hm_step HandleManager_new sample1"
    unfolding sample1_def by (rule add_session) (simp add: sample_defs)
  moreover have "hm_step sample1 (fst (snd (addSessionObject sample1 7 1 True 99)))"
    by (rule add_session_object [where sd = "(Handle2 CKH_SESSION 7)\<lparr>h_session := 42\<rparr>"])
      (simp_all add: sample_defs)
  moreover have "hm_step (fst (snd (addSessionObject sample1 7 1 True 99))) sample3"
    unfolding sample3_def by (rule add_token_object) (simp_all add: sample_defs)
  moreover have "hm_step sample3 sample4"
    unfolding sample4_def by (rule add_session) (simp add: sample_defs)
  ultimately show ?thesis by (meson converse_rtranclp_into_rtranclp rtranclp.rtrancl_refl)
qed

lemma sample_inv: "hm_inv sample4"
  by (rule hm_steps_inv [OF sample_steps hm_inv_new])

text \<open>
  The indexes of the handle manager agree with its table after every history of
  calls that starts from a new manager: issued handles lie between 1 and the counter, the
  object index inverts the object entries, the slot and session indexes list exactly the
  matching entries, every session object's session is live on its slot, and the session
  counter of a slot is the number of its sessions.
\<close>

theorem hm_reachable_inv: "hm_step\<^sup>*\<^sup>* HandleManager_new hm \<Longrightarrow> hm_inv hm"
  by (rule hm_steps_inv [OF _ hm_inv_new])

theorem hm_reachable_inv_witness: "hm_step\<^sup>*\<^sup>* HandleManager_new sample4 \<and> hm_inv sample4"
  using hm_reachable_inv [of sample4] sample_steps by simp

text \<open>
  C10: closing a session through the indexes does what a scan of the whole table would do:
  the session's entry and its objects' entries go, and everything on the slot when it was
  the last session there. The invariant is kept, and exactly the session objects that lose
  their handle are released, each once.
\<close>

theorem hm_sessionClosed_refines:
  assumes "hm_inv hm"
  shows "hm_inv (fst (hm_sessionClosed hm s))
    \<and> hview (fst (hm_sessionClosed hm s)) = spec_sessionClosed (hview hm) s
    \<and> distinct (snd (hm_sessionClosed hm s))
    \<and> set (snd (hm_sessionClosed hm s))
        = {obj. held (hview hm) obj \<and> \<not> held (spec_sessionClosed (hview hm) s) obj}"
  using assms by (rule one_closed.contract)

theorem hm_sessionClosed_refines_witness:
  "hm_inv sample4 \<and> hview (fst (hm_sessionClosed sample4 1)) = spec_sessionClosed (hview sample4) 1
   \<and> set (snd (hm_sessionClosed sample4 1)) = {obj. held (hview sample4) obj \<and> \<not> held (spec_sessionClosed (hview sample4) 1) obj}"
  using hm_sessionClosed_refines [OF sample_inv, of 1] sample_inv by simp

text \<open>
  Closing all sessions of a slot removes exactly the entries of that slot, sessions and
  objects, keeps the invariant, and releases exactly the session objects that lose their
  handle, each once.
\<close>

theorem hm_allSessionsClosed_refines:
  assumes "hm_inv hm"
  shows "hm_inv (fst (hm_allSessionsClosed hm slot))
    \<and> hview (fst (hm_allSessionsClosed hm slot)) = scan_erase (\<lambda>_ e. h_slotID e = slot) (hview hm)
    \<and> distinct (snd (hm_allSessionsClosed hm slot))
    \<and> set (snd (hm_allSessionsClosed hm slot))
        = {obj. held (hview hm) obj \<and> \<not> held (scan_erase (\<lambda>_ e. h_slotID e = slot) (hview hm)) obj}"
  using assms by (rule all_closed.contract)

theorem hm_allSessionsClosed_refines_witness:
  "hm_inv sample4 \<and> hview (fst (hm_allSessionsClosed sample4 7)) = scan_erase (\<lambda>_ e. h_slotID e = 7) (hview sample4)
   \<and> hview sample4 3 \<noteq> None \<and> hview (fst (hm_allSessionsClosed sample4 7)) 3 = None"
  using hm_allSessionsClosed_refines [OF sample_inv, of 7] sample_inv by (simp add: sample_defs)

text \<open>
  logging out of a token makes every private object handle of its slot unusable and
  leaves every other handle, public objects and sessions included, as it was.
\<close>

theorem hm_tokenLoggedOut_private_gone:
  assumes "hm_inv hm"
  shows "getObject (fst (hm_tokenLoggedOut hm slot)) h =
      (case hview hm h of
         Some e \<Rightarrow> if h_slotID e = slot \<and> h_kind e = CKH_OBJECT \<and> h_isPrivate e then 0 else getObject hm h
       | None \<Rightarrow> 0)
    \<and> hm_getSession (fst (hm_tokenLoggedOut hm slot)) h = hm_getSession hm h
    \<and> hm_inv (fst (hm_tokenLoggedOut hm slot))"
  using logged_out.getObject_spec [OF assms, of slot h] logged_out.getSession_spec [OF assms, of slot h]
    logged_out.inv [OF assms]
  by (auto simp: getObject_def hm_getSession_def hview_find split: option.splits if_splits)

theorem hm_tokenLoggedOut_private_gone_witness:
  "hm_inv sample4 \<and> getObject sample4 3 = 100 \<and> getObject (fst (hm_tokenLoggedOut sample4 7)) 3 = 0
   \<and> hm_getSession (fst (hm_tokenLoggedOut sample4 7)) 4 = 43"
proof -
  have "hview sample4 3 = Some ((Handle2 CKH_OBJECT 7)\<lparr>h_isPrivate := True, h_object := 100\<rparr>)"
    "getObject sample4 3 = 100" "hm_getSession sample4 4 = 43"
    by (simp_all add: sample_defs getObject_def hm_getSession_def)
  with hm_tokenLoggedOut_private_gone [OF sample_inv, of 7 3]
    hm_tokenLoggedOut_private_gone [OF sample_inv, of 7 4] sample_inv
  show ?thesis by (simp add: Handle2_def)
qed

text \<open>
  C11: a handle that has been issued and has died never resolves again, neither as a session
  nor as an object: the counter only grows, so no later call hands the number out again.
\<close>

theorem dead_handle_stays_dead:
  assumes "hm_inv hm" and "h \<le> handleCounter hm" and "hview hm h = None" and "hm_step\<^sup>*\<^sup>* hm hm'"
  shows "getObject hm' h = 0 \<and> hm_getSession hm' h = 0"
  using hm_steps_grow [OF assms(4, 1)] assms(2, 3)
  by (auto simp: grows_def getObject_def hm_getSession_def hview_find split: option.split)

theorem dead_handle_stays_dead_witness:
  "hm_getSession sample4 1 = 42
   \<and> hm_getSession (snd (addSession (fst (hm_allSessionsClosed sample4 7)) 7 44)) 1 = 0"
proof -
  let ?hm = "fst (hm_allSessionsClosed sample4 7)"
  have inv: "hm_inv ?hm" by (rule hm_allSessionsClosed_inv [OF sample_inv])
  have c: "handleCounter ?hm = 4" by (simp add: cleanup_counter) (simp add: sample_defs)
  have "hview ?hm 1 = None" by (simp add: hm_allSessionsClosed_view [OF sample_inv]) (simp add: sample_defs)
  moreover have "hm_step ?hm (snd (addSession ?hm 7 44))" by (rule add_session) (simp add: c)
  then have "hm_step\<^sup>*\<^sup>* ?hm (snd (addSession ?hm 7 44))" by blast
  ultimately have "hm_getSession (snd (addSession ?hm 7 44)) 1 = 0"
    using dead_handle_stays_dead [OF inv, of 1] c by simp
  then show ?thesis by (simp add: sample_defs hm_getSession_def)
qed

end
