(* ===== verification/Byte_String.thy ===== *)
theory Byte_String
  imports HSM_Prelude
begin

unbundle bit_operations_syntax

text \<open>
  \<^verbatim>\<open>src/lib/data_mgr/ByteString.cpp\<close>: the byte vector every other component
  passes around. A \<^verbatim>\<open>ByteString\<close> is the list of its bytes; each method is the
  function from the old contents to the result and the new contents. Shown here: the
  substring with its wrapping subtraction is \<open>take\<close> of \<open>drop\<close>, the big-endian
  integer encoding and the length-prefixed serialisation round-trip, hexadecimal
  printing and parsing are inverse, \<open>bits\<close> is the bit length of the big-endian
  number, and XOR is an involution.
\<close>

section \<open>Constructors\<close>

text \<open>\<open>ByteString(const char*)\<close>: two hexadecimal digits per byte, padded on the left.\<close>

fun hex_pairs :: "string \<Rightarrow> bytes" where
  "hex_pairs (a # b # cs) = ucast (strtoul16 [a, b]) # hex_pairs cs"
| "hex_pairs _ = []"

definition ByteString_hex :: "string \<Rightarrow> bytes" where
  "ByteString_hex hexString =
     (let hex = (if length hexString mod 2 \<noteq> 0 then CHR ''0'' # hexString else hexString)
      in hex_pairs hex)"

text \<open>
  \<open>ByteString(unsigned long)\<close>: eight bytes, most significant first. The loop fills
  the array from its last cell while shifting the value right.
\<close>

fun ulong_loop :: "nat \<Rightarrow> ulong \<Rightarrow> bytes \<Rightarrow> bytes" where
  "ulong_loop 0 setValue acc = acc"
| "ulong_loop (Suc i) setValue acc =
     ulong_loop i (drop_bit 8 setValue) (ucast (setValue AND 0xFF) # acc)"

definition ByteString_ulong :: "ulong \<Rightarrow> bytes" where
  "ByteString_ulong longValue = ulong_loop 8 longValue []"

section \<open>Appending, cutting, resizing\<close>

definition bs_append :: "bytes \<Rightarrow> bytes \<Rightarrow> bytes" where
  "bs_append lhs rhs = lhs @ rhs"

definition bs_append_byte :: "bytes \<Rightarrow> byte \<Rightarrow> bytes" where
  "bs_append_byte lhs b = lhs @ [b]"

definition substr :: "bytes \<Rightarrow> nat \<Rightarrow> nat \<Rightarrow> bytes" where
  "substr bs start len =
     (let retLen = min len (size_sub (length bs) start)
      in if start \<ge> length bs then [] else take retLen (drop start bs))"

text \<open>
  \<open>substr(start)\<close>: the length defaults to \<^verbatim>\<open>SIZE_T_MAX\<close>, which no size exceeds,
  so the minimum with the remaining length is the remaining length.
\<close>

definition substr_from :: "bytes \<Rightarrow> nat \<Rightarrow> bytes" where
  "substr_from bs start = (if start \<ge> length bs then [] else drop start bs)"

definition resize :: "bytes \<Rightarrow> nat \<Rightarrow> bytes" where
  "resize bs newSize = take newSize bs @ replicate (newSize - length bs) 0"

definition wipe :: "bytes \<Rightarrow> nat \<Rightarrow> bytes" where
  "wipe bs newSize = map (\<lambda>_. 0) (resize bs newSize)"

text \<open>\<open>split(len)\<close>: the first part is returned, the rest moves to the front.\<close>

definition split :: "bytes \<Rightarrow> nat \<Rightarrow> bytes \<times> bytes" where
  "split bs len =
     (let rv = substr bs 0 len;
          newSize = (if length bs > len then length bs - len else 0)
      in (rv, resize (map (\<lambda>i. bs ! (i + len)) [0..<newSize]) newSize))"

section \<open>XOR\<close>

text \<open>\<open>operator^=\<close> keeps the bytes beyond the shorter operand; \<open>operator^\<close> drops them.\<close>

definition xor_assign :: "bytes \<Rightarrow> bytes \<Rightarrow> bytes" where
  "xor_assign lhs rhs =
     map2 (XOR) lhs rhs @ drop (min (length lhs) (length rhs)) lhs"

definition bs_xor :: "bytes \<Rightarrow> bytes \<Rightarrow> bytes" where
  "bs_xor lhs rhs = map2 (XOR) lhs rhs"

section \<open>Numbers, hexadecimal form, size in bits\<close>

definition hex_char :: "nat \<Rightarrow> char" where
  "hex_char n = (if n < 10 then char_of (48 + n) else char_of (55 + n))"

definition hex_str :: "bytes \<Rightarrow> string" where
  "hex_str bs = concat (map (\<lambda>b. [hex_char (unat b div 16), hex_char (unat b mod 16)]) bs)"

fun long_loop :: "ulong \<Rightarrow> bytes \<Rightarrow> ulong" where
  "long_loop rv [] = rv"
| "long_loop rv (b # bs) = long_loop (push_bit 8 rv + ucast b) bs"

definition long_val :: "bytes \<Rightarrow> ulong" where
  "long_val bs = long_loop 0 (take (min 8 (length bs)) bs)"

definition firstLong :: "bytes \<Rightarrow> ulong \<times> bytes" where
  "firstLong bs = (long_val bs, snd (split bs 8))"

text \<open>
  \<open>bits()\<close>: the outer loop visits the bytes, the inner one the masks 0x80, 0x40, ...
  and takes one off the count for every leading zero bit. \<open>bits_byte\<close> returns the count
  and whether a set bit was met, which ends both loops.
\<close>

fun bits_byte :: "byte \<Rightarrow> byte list \<Rightarrow> nat \<Rightarrow> nat \<times> bool" where
  "bits_byte b [] n = (n, False)"
| "bits_byte b (m # masks) n =
     (if b AND m = 0 then bits_byte b masks (n - 1) else (n, True))"

fun bits_loop :: "bytes \<Rightarrow> nat \<Rightarrow> nat" where
  "bits_loop [] n = n"
| "bits_loop (b # bs) n =
     (case bits_byte b [0x80, 0x40, 0x20, 0x10, 0x08, 0x04, 0x02, 0x01] n of
        (n', found) \<Rightarrow> if found then n' else bits_loop bs n')"

definition bits :: "bytes \<Rightarrow> nat" where
  "bits bs = (let n = length bs * 8 in if n = 0 then 0 else bits_loop bs n)"

section \<open>Comparison and serialisation\<close>

definition bs_eq :: "bytes \<Rightarrow> bytes \<Rightarrow> bool" where
  "bs_eq a b = (if length b \<noteq> length a then False else if length a = 0 then True else a = b)"

definition serialise :: "bytes \<Rightarrow> bytes" where
  "serialise bs = bs_append (ByteString_ulong (of_nat (length bs))) bs"

definition chainDeserialise :: "bytes \<Rightarrow> bytes \<times> bytes" where
  "chainDeserialise serialised =
     (let (len, rest) = firstLong serialised in split rest (unat len))"

section \<open>Cutting is take and drop\<close>

lemma substr_take_drop [simp]: "substr bs start len = take len (drop start bs)"
  by (auto simp: substr_def Let_def min_def)

lemma substr_from_drop [simp]: "substr_from bs start = drop start bs"
  by (simp add: substr_from_def)

lemma split_take_drop [simp]: "split bs len = (take len bs, drop len bs)"
  by (auto simp: split_def Let_def resize_def add.commute intro!: nth_equalityI)

lemma length_resize [simp]: "length (resize bs n) = n"
  by (simp add: resize_def)

lemma wipe_zeros [simp]: "wipe bs n = replicate n 0"
  by (simp add: wipe_def map_replicate_const)

lemma bs_eq_iff [simp]: "bs_eq a b \<longleftrightarrow> a = b"
  by (auto simp: bs_eq_def)

section \<open>XOR\<close>

lemma length_xor_assign [simp]: "length (xor_assign a b) = length a"
  by (simp add: xor_assign_def)

lemma nth_xor_assign:
  "i < length a \<Longrightarrow> xor_assign a b ! i = (if i < length b then a ! i XOR b ! i else a ! i)"
  by (auto simp: xor_assign_def nth_append min_def)

lemma xor_assign_twice [simp]: "xor_assign (xor_assign a b) b = a"
  by (rule nth_equalityI) (auto simp: nth_xor_assign xor.assoc)

section \<open>Big-endian numbers\<close>

definition be_val :: "bytes \<Rightarrow> nat" where
  "be_val bs = foldl (\<lambda>v b. 256 * v + unat b) 0 bs"

lemma be_val_Nil [simp]: "be_val [] = 0"
  by (simp add: be_val_def)

lemma be_val_snoc [simp]: "be_val (bs @ [b]) = 256 * be_val bs + unat b"
  by (simp add: be_val_def)

lemma be_val_append: "be_val (as @ bs) = be_val as * 256 ^ length bs + be_val bs"
  by (induction bs rule: rev_induct) (auto simp flip: append_assoc simp: algebra_simps)

lemma be_val_Cons: "be_val (b # bs) = unat b * 256 ^ length bs + be_val bs"
  using be_val_append [of "[b]" bs] be_val_snoc [of "[]" b] by simp

lemma be_val_replicate_zero [simp]: "be_val (replicate n 0) = 0"
  by (induction n) (simp_all add: replicate_append_same [symmetric])

lemma be_val_less: "be_val bs < 256 ^ length bs"
proof (induction bs rule: rev_induct)
  case (snoc b bs)
  have "unat b < 256" using unsigned_less [of b, where 'a = nat] by simp
  with snoc show ?case by simp
qed simp

lemma ucast_byte_ulong: "(ucast (b :: byte) :: ulong) = of_nat (unat b)"
proof -
  have "unat b < 2 ^ 8" using unsigned_less [of b, where 'a = nat] by simp
  then show ?thesis
    by (simp add: word_eq_iff_unsigned [where 'a = nat] unsigned_ucast_eq unsigned_of_nat
        take_bit_nat_eq_self)
qed

lemma long_loop_of_nat: "long_loop (of_nat v) bs = of_nat (v * 256 ^ length bs + be_val bs)"
proof (induction bs arbitrary: v)
  case (Cons b bs)
  have "push_bit 8 (of_nat v :: ulong) + ucast b = of_nat (256 * v + unat b)"
    by (simp add: push_bit_eq_mult mult.commute)
  then show ?case
    by (simp only: long_loop.simps Cons.IH) (simp add: be_val_Cons algebra_simps)
qed simp

lemma long_val_eq: "length bs \<le> 8 \<Longrightarrow> long_val bs = of_nat (be_val bs)"
  using long_loop_of_nat [of 0 bs] by (simp add: long_val_def)

lemma length_ulong_loop: "length (ulong_loop n v acc) = n + length acc"
  by (induction n arbitrary: v acc) auto

lemma length_ByteString_ulong [simp]: "length (ByteString_ulong v) = 8"
  by (simp add: ByteString_ulong_def length_ulong_loop)

lemma low_byte_unat: "unat (ucast ((v :: ulong) AND 0xFF) :: byte) = unat v mod 256"
proof -
  have "(v AND 0xFF) = take_bit 8 v" by (simp add: take_bit_eq_mask mask_eq_exp_minus_1)
  then show ?thesis
    by (simp add: unsigned_ucast_eq take_bit_eq_mod unat_mod_distrib)
qed

lemma be_val_ulong_loop:
  "be_val (ulong_loop n v acc)
   = (unat v mod 256 ^ n) * 256 ^ length acc + be_val acc"
proof (induction n arbitrary: v acc)
  case (Suc n)
  have d: "unat (drop_bit 8 v) = unat v div 256"
    by (simp add: drop_bit_eq_div unat_div_distrib)
  have m: "unat v mod 256 ^ Suc n = 256 * (unat v div 256 mod 256 ^ n) + unat v mod 256"
    by (simp add: mod_mult2_eq)
  show ?case
    by (simp add: Suc.IH d be_val_Cons low_byte_unat m algebra_simps del: power_Suc)
       (simp add: algebra_simps)
qed simp

lemma be_val_ByteString_ulong [simp]: "be_val (ByteString_ulong v) = unat v"
proof -
  have "unat v < 256 ^ 8" using unsigned_less [of v, where 'a = nat] by simp
  then show ?thesis by (simp add: ByteString_ulong_def be_val_ulong_loop)
qed

section \<open>Hexadecimal digits\<close>

lemma of_char_hex_char: "n < 16 \<Longrightarrow> of_char (hex_char n) = (if n < 10 then 48 + n else 55 + n)"
  by (simp add: hex_char_def of_char_of)

lemma hex_char_facts:
  assumes "n < 16"
  shows "hex_digit_val (hex_char n) = Some n" and "\<not> is_space (hex_char n)"
    and "hex_char n \<noteq> CHR ''-''" and "hex_char n \<noteq> CHR ''+''"
proof -
  have "of_char (hex_char n) \<noteq> (45 :: nat)" "of_char (hex_char n) \<noteq> (43 :: nat)"
    using assms by (simp_all add: of_char_hex_char)
  then show "hex_char n \<noteq> CHR ''-''" "hex_char n \<noteq> CHR ''+''" by auto
qed (use assms in \<open>simp_all add: hex_digit_val_def is_space_def Let_def of_char_hex_char\<close>)

lemma strtoul16_two_digits:
  "a < 16 \<Longrightarrow> b < 16 \<Longrightarrow> strtoul16 [hex_char a, hex_char b] = of_nat (16 * a + b)"
  by (simp add: strtoul16_def strtoul16_signed_def strtoul16_prefix_def Let_def hex_char_facts)

lemma byte_of_two_digits: "(ucast (of_nat (16 * (unat b div 16) + unat b mod 16) :: ulong) :: byte) = b"
proof -
  have "16 * (unat b div 16) + unat b mod 16 = unat b" by simp
  then show ?thesis
    by (simp add: word_eq_iff_unsigned [where 'a = nat] unsigned_ucast_eq take_bit_word_eq_self)
qed

lemma hex_pairs_hex_str: "hex_pairs (hex_str bs) = bs"
proof (induction bs)
  case (Cons b bs)
  have "unat b div 16 < 16" using unsigned_less [of b, where 'a = nat] by simp
  then have "ucast (strtoul16 [hex_char (unat b div 16), hex_char (unat b mod 16)]) = b"
    by (simp only: strtoul16_two_digits byte_of_two_digits mod_less_divisor)
  with Cons show ?case by (simp add: hex_str_def)
qed (simp add: hex_str_def)

lemma length_hex_str [simp]: "length (hex_str bs) = 2 * length bs"
  by (induction bs) (simp_all add: hex_str_def)

section \<open>Counting bits\<close>

fun bit_masks :: "nat \<Rightarrow> byte list" where
  "bit_masks 0 = []"
| "bit_masks (Suc k) = 2 ^ k # bit_masks k"

lemma bit_masks_8: "bit_masks 8 = [0x80, 0x40, 0x20, 0x10, 0x08, 0x04, 0x02, 0x01]"
  by (simp add: eval_nat_numeral)

lemma and_top_bit:
  assumes "unat (b :: byte) < 2 ^ Suc k" and "k < 8"
  shows "b AND 2 ^ k = 0 \<longleftrightarrow> unat b < 2 ^ k"
proof -
  have q: "unat b div 2 ^ k < 2" using assms(1) by (simp add: less_mult_imp_div_less)
  have "b AND 2 ^ k = 0 \<longleftrightarrow> \<not> bit b k"
    by (simp add: and_exp_eq_0_iff_not_bit)
  also have "\<dots> \<longleftrightarrow> even (unat b div 2 ^ k)"
    using assms(2) bit_unsigned_iff [of b k, where 'a = nat] bit_iff_odd [of "unat b" k] by auto
  also have "\<dots> \<longleftrightarrow> unat b div 2 ^ k = 0" using q by (cases "unat b div 2 ^ k") auto
  also have "\<dots> \<longleftrightarrow> unat b < 2 ^ k" by (simp add: div_eq_0_iff)
  finally show ?thesis .
qed

lemma bits_byte_masks:
  assumes "unat b < 2 ^ k" and "k \<le> 8" and "k \<le> n"
  obtains j where "j \<le> k" "bits_byte b (bit_masks k) n = (n - k + j, 0 < j)"
    "unat b < 2 ^ j" "0 < j \<Longrightarrow> 2 ^ (j - 1) \<le> unat b"
  using assms
proof (induction k arbitrary: n thesis)
  case 0
  then show ?case by (auto intro: "0.prems"(1) [of 0])
next
  case (Suc k)
  show ?case
  proof (cases "unat b < 2 ^ k")
    case True
    with Suc.prems(2-) obtain j where "j \<le> k"
      "bits_byte b (bit_masks k) (n - 1) = (n - 1 - k + j, 0 < j)"
      "unat b < 2 ^ j" "0 < j \<Longrightarrow> 2 ^ (j - 1) \<le> unat b"
      by (auto intro: Suc.IH [of "n - 1"])
    with True Suc.prems show ?thesis
      by (intro Suc.prems(1) [of j]) (simp_all add: and_top_bit)
  next
    case False
    with Suc.prems show ?thesis
      by (intro Suc.prems(1) [of "Suc k"]) (simp_all add: and_top_bit)
  qed
qed

lemma bits_loop_bounds:
  "n = 8 * length bs \<Longrightarrow>
   be_val bs < 2 ^ bits_loop bs n \<and> (0 < be_val bs \<longrightarrow> 2 ^ (bits_loop bs n - 1) \<le> be_val bs)
   \<and> (be_val bs = 0 \<longrightarrow> bits_loop bs n = 0)"
proof (induction bs arbitrary: n)
  case (Cons b bs)
  let ?m = "8 * length bs"
  have p: "(256 :: nat) ^ length bs = 2 ^ ?m" by (simp add: power_mult)
  obtain j where j: "j \<le> 8" "bits_byte b (bit_masks 8) n = (n - 8 + j, 0 < j)"
    "unat b < 2 ^ j" "0 < j \<Longrightarrow> 2 ^ (j - 1) \<le> unat b"
    using bits_byte_masks [of b 8 n] Cons.prems unsigned_less [of b, where 'a = nat] by auto
  show ?case
  proof (cases "j = 0")
    case True
    with j Cons show ?thesis by (simp add: bit_masks_8 be_val_Cons)
  next
    case False
    have lo: "2 ^ (?m + j - 1) \<le> unat b * 2 ^ ?m"
      using j(4) False by (simp add: power_add [symmetric] mult.commute flip: add_diff_assoc)
        (metis Nat.add_diff_assoc Suc_leI mult_le_mono1 mult.commute neq0_conv One_nat_def power_add)
    have "unat b * 2 ^ ?m + be_val bs < Suc (unat b) * 2 ^ ?m"
      using be_val_less [of bs] p by simp
    also have "\<dots> \<le> 2 ^ j * 2 ^ ?m" using j(3) by (intro mult_le_mono1) simp
    finally have hi: "unat b * 2 ^ ?m + be_val bs < 2 ^ (?m + j)" by (simp add: power_add mult.commute)
    have "0 < unat b" using lo by (cases "unat b") simp_all
    then have "0 < unat b * 2 ^ ?m" by simp
    with lo hi False j Cons.prems show ?thesis
      by (simp add: bit_masks_8 be_val_Cons p)
  qed
qed simp

lemma bits_is_Least: "bits bs = (LEAST n. be_val bs < 2 ^ n)"
proof -
  have b: "bits bs = bits_loop bs (8 * length bs)"
    by (cases bs) (simp_all add: bits_def Let_def mult.commute)
  note bnd = bits_loop_bounds [of "8 * length bs" bs, OF refl, folded b]
  show ?thesis
  proof (rule Least_equality [symmetric])
    show "be_val bs < 2 ^ bits bs" using bnd by simp
  next
    fix n assume n: "be_val bs < 2 ^ n"
    show "bits bs \<le> n"
    proof (cases "be_val bs = 0")
      case False
      with bnd n have "(2 :: nat) ^ (bits bs - 1) < 2 ^ n" by linarith
      then have "bits bs - 1 < n" by simp
      then show ?thesis by simp
    qed (use bnd in simp)
  qed
qed

section \<open>Properties\<close>

lemma long_val_ulong [simp]: "long_val (ByteString_ulong v) = v"
  by (simp add: long_val_eq)

lemma firstLong_ulong: "firstLong (ByteString_ulong v @ rest) = (v, rest)"
proof -
  have "long_val (ByteString_ulong v @ rest) = long_val (ByteString_ulong v)"
    by (simp add: long_val_def)
  then show ?thesis by (simp add: firstLong_def)
qed

text \<open>
  serialisation round-trips. Reading a length-prefixed byte string off the front
  of a stream that \<open>serialise\<close> wrote gives back the string and leaves exactly the rest
  of the stream, for every string that fits in memory.
\<close>

theorem chainDeserialise_serialise:
  assumes "length bs < 2 ^ 64"
  shows "chainDeserialise (bs_append (serialise bs) rest) = (bs, rest)"
proof -
  have "unat (of_nat (length bs) :: ulong) = length bs"
    using assms by (simp add: unsigned_of_nat take_bit_nat_eq_self)
  then show ?thesis
    by (simp add: chainDeserialise_def serialise_def bs_append_def firstLong_ulong)
qed

theorem chainDeserialise_serialise_witness:
  "length [0x52, 0x4A, 0x52 :: byte] < 2 ^ 64 \<and>
   chainDeserialise (bs_append (serialise [0x52, 0x4A, 0x52]) [1, 2]) = ([0x52, 0x4A, 0x52], [1, 2])"
  using chainDeserialise_serialise [of "[0x52, 0x4A, 0x52]" "[1, 2]"] by simp

text \<open>
  Hexadecimal printing and parsing are inverse. The byte string built from the
  upper-case hexadecimal form of a byte string is that byte string.
\<close>

theorem ByteString_hex_str: "ByteString_hex (hex_str bs) = bs"
  by (simp add: ByteString_hex_def hex_pairs_hex_str)

text \<open>
  \<open>bits()\<close> is the bit length of the big-endian number the bytes spell: the least
  \<open>n\<close> with the number below \<open>2 ^ n\<close>. The nested loops with their early exit compute
  it for every byte string, leading zero bytes included.
\<close>

theorem bits_is_bit_length: "bits bs = (LEAST n. be_val bs < 2 ^ n)"
  by (rule bits_is_Least)

end
