(* ===== verification/Symmetric_Alg.thy ===== *)
theory Symmetric_Alg
  imports Byte_String
begin

text \<open>
  \<^verbatim>\<open>src/lib/crypto/SymmetricAlgorithm.cpp\<close>, \<^verbatim>\<open>SymmetricKey.cpp\<close>,
  \<^verbatim>\<open>OSSLEVPSymmetricAlgorithm.cpp\<close> and the cipher selection of \<^verbatim>\<open>OSSLAES.cpp\<close>: the
  cipher objects with their init/update/final protocol, on top of OpenSSL. The EVP
  functions of OpenSSL are the fields of the parameter record \<open>evp\<close>; the virtual functions
  a cipher class overrides (\<open>getBlockSize\<close>, \<open>getCipher\<close>) are the record \<open>cipher_class\<close>.

  Shown: an EVP context is held exactly while an operation is active, whatever calls of the
  matching direction succeed or fail; encrypting a message in chunks and decrypting the
  result gives the message back, under the documented behaviour of EVP in CBC mode; and the
  number of bytes a CTR counter of \<open>n\<close> bits allows is exactly the number of blocks before
  the counter wraps.
\<close>

section \<open>Keys, modes and ciphers\<close>

datatype sym_mode =
    SymMode_Unknown | SymMode_CBC | SymMode_CFB | SymMode_CTR | SymMode_ECB
  | SymMode_GCM | SymMode_MGM | SymMode_OFB | SymMode_CTR_ACPKM

datatype sym_operation = NONE | ENCRYPT | DECRYPT

record symmetric_key =
  keyData :: bytes
  bitLen :: nat

definition SymmetricKey_new :: "nat \<Rightarrow> symmetric_key" where
  "SymmetricKey_new inBitLen = \<lparr>keyData = [], bitLen = inBitLen\<rparr>"

definition setKeyBits :: "symmetric_key \<Rightarrow> bytes \<Rightarrow> bool \<times> symmetric_key" where
  "setKeyBits key keybits =
     (if bitLen key > 0 \<and> length keybits * 8 \<noteq> bitLen key then (False, key)
      else (True, key\<lparr>keyData := keybits\<rparr>))"

text \<open>
  The OpenSSL ciphers \<^verbatim>\<open>EVP_aes_<bits>_<mode>()\<close>, and \<^verbatim>\<open>EVP_des_<mode>()\<close>,
  \<^verbatim>\<open>EVP_des_ede_<mode>()\<close>, \<^verbatim>\<open>EVP_des_ede3_<mode>()\<close> for 56, 112 and 168 bits.
\<close>

datatype evp_cipher = EVP_aes nat sym_mode | EVP_des nat sym_mode

text \<open>
  OpenSSL: a context, its initialisation with cipher, key and IV (True to encrypt), in one
  call or, for GCM, in two with the IV length set between them; padding; additional data;
  update and final; the GCM tag. \<open>None\<close> is the null pointer or a zero return value.
\<close>

record 'c evp =
  EVP_CIPHER_CTX_new :: "'c option"
  EVP_Init :: "'c \<Rightarrow> bool \<Rightarrow> evp_cipher \<Rightarrow> bytes \<Rightarrow> bytes \<Rightarrow> 'c option"
  EVP_Init_cipher :: "'c \<Rightarrow> bool \<Rightarrow> evp_cipher \<Rightarrow> 'c option"
  EVP_CTRL_GCM_SET_IVLEN :: "'c \<Rightarrow> nat \<Rightarrow> 'c"
  EVP_Init_key :: "'c \<Rightarrow> bool \<Rightarrow> bytes \<Rightarrow> bytes \<Rightarrow> 'c option"
  EVP_CIPHER_CTX_set_padding :: "'c \<Rightarrow> bool \<Rightarrow> 'c"
  EVP_Update_aad :: "'c \<Rightarrow> bytes \<Rightarrow> 'c option"
  EVP_Update :: "'c \<Rightarrow> bytes \<Rightarrow> (bytes \<times> 'c) option"
  EVP_Final :: "'c \<Rightarrow> bytes option"
  EVP_CTRL_GCM_GET_TAG :: "'c \<Rightarrow> nat \<Rightarrow> bytes"
  EVP_CTRL_GCM_SET_TAG :: "'c \<Rightarrow> bytes \<Rightarrow> 'c"

record cipher_class =
  getBlockSize :: nat
  getCipher :: "symmetric_key \<Rightarrow> sym_mode \<Rightarrow> evp_cipher option"

definition OSSLAES_getCipher :: "symmetric_key \<Rightarrow> sym_mode \<Rightarrow> evp_cipher option" where
  "OSSLAES_getCipher currentKey currentCipherMode =
     (if bitLen currentKey \<noteq> 128 \<and> bitLen currentKey \<noteq> 192 \<and> bitLen currentKey \<noteq> 256 then None
      else if currentCipherMode = SymMode_CBC then Some (EVP_aes (bitLen currentKey) SymMode_CBC)
      else if currentCipherMode = SymMode_ECB then Some (EVP_aes (bitLen currentKey) SymMode_ECB)
      else if currentCipherMode = SymMode_CTR then Some (EVP_aes (bitLen currentKey) SymMode_CTR)
      else if currentCipherMode = SymMode_GCM then Some (EVP_aes (bitLen currentKey) SymMode_GCM)
      else None)"

definition OSSLAES :: cipher_class where
  "OSSLAES = \<lparr>getBlockSize = 128 div 2 ^ 3, getCipher = OSSLAES_getCipher\<rparr>"

text \<open>Built without \<^verbatim>\<open>WITH_FIPS\<close>: single DES is allowed.\<close>

definition OSSLDES_getCipher :: "symmetric_key \<Rightarrow> sym_mode \<Rightarrow> evp_cipher option" where
  "OSSLDES_getCipher currentKey currentCipherMode =
     (if bitLen currentKey \<noteq> 56 \<and> bitLen currentKey \<noteq> 112 \<and> bitLen currentKey \<noteq> 168 then None
      else if currentCipherMode \<in> {SymMode_CBC, SymMode_ECB, SymMode_OFB, SymMode_CFB}
      then Some (EVP_des (bitLen currentKey) currentCipherMode)
      else None)"

definition OSSLDES :: cipher_class where
  "OSSLDES = \<lparr>getBlockSize = 64 div 2 ^ 3, getCipher = OSSLDES_getCipher\<rparr>"

section \<open>The base class\<close>

record 'c sym_alg =
  currentKey :: "symmetric_key option"
  currentCipherMode :: sym_mode
  currentPaddingMode :: bool
  currentCounterBits :: nat
  currentTagBytes :: nat
  currentOperation :: sym_operation
  currentBufferSize :: ulong
  currentAEADBuffer :: bytes
  pCurCTX :: "'c option"
  maximumBytes :: "nat option"
  counterBytes :: "nat option"

definition SymmetricAlgorithm_new :: "'c sym_alg" where
  "SymmetricAlgorithm_new =
     \<lparr>currentKey = None, currentCipherMode = SymMode_Unknown, currentPaddingMode = True,
      currentCounterBits = 0, currentTagBytes = 0, currentOperation = NONE, currentBufferSize = 0,
      currentAEADBuffer = [], pCurCTX = None, maximumBytes = None, counterBytes = None\<rparr>"

definition base_encryptInit ::
  "symmetric_key option \<Rightarrow> sym_mode \<Rightarrow> bool \<Rightarrow> nat \<Rightarrow> nat \<Rightarrow> 'c sym_alg \<Rightarrow> bool \<times> 'c sym_alg" where
  "base_encryptInit key mode padding counterBits tagBytes alg =
     (if key = None \<or> currentOperation alg \<noteq> NONE then (False, alg)
      else (True, alg\<lparr>currentKey := key, currentCipherMode := mode, currentPaddingMode := padding,
                      currentCounterBits := counterBits, currentTagBytes := tagBytes,
                      currentOperation := ENCRYPT, currentBufferSize := 0\<rparr>))"

definition base_encryptUpdate :: "bytes \<Rightarrow> 'c sym_alg \<Rightarrow> bool \<times> 'c sym_alg" where
  "base_encryptUpdate data alg =
     (if currentOperation alg \<noteq> ENCRYPT then (False, alg)
      else (True, alg\<lparr>currentBufferSize := currentBufferSize alg + of_nat (length data)\<rparr>))"

definition base_encryptFinal :: "'c sym_alg \<Rightarrow> bool \<times> 'c sym_alg" where
  "base_encryptFinal alg =
     (if currentOperation alg \<noteq> ENCRYPT then (False, alg)
      else (True, alg\<lparr>currentKey := None, currentCipherMode := SymMode_Unknown,
                      currentPaddingMode := True, currentCounterBits := 0, currentTagBytes := 0,
                      currentOperation := NONE, currentBufferSize := 0\<rparr>))"

definition base_decryptInit ::
  "symmetric_key option \<Rightarrow> sym_mode \<Rightarrow> bool \<Rightarrow> nat \<Rightarrow> nat \<Rightarrow> 'c sym_alg \<Rightarrow> bool \<times> 'c sym_alg" where
  "base_decryptInit key mode padding counterBits tagBytes alg =
     (if key = None \<or> currentOperation alg \<noteq> NONE then (False, alg)
      else (True, alg\<lparr>currentKey := key, currentCipherMode := mode, currentPaddingMode := padding,
                      currentCounterBits := counterBits, currentTagBytes := tagBytes,
                      currentOperation := DECRYPT, currentBufferSize := 0, currentAEADBuffer := []\<rparr>))"

definition base_decryptUpdate :: "bytes \<Rightarrow> 'c sym_alg \<Rightarrow> bool \<times> 'c sym_alg" where
  "base_decryptUpdate encryptedData alg =
     (if currentOperation alg \<noteq> DECRYPT then (False, alg)
      else (True, alg\<lparr>currentBufferSize := currentBufferSize alg + of_nat (length encryptedData),
                      currentAEADBuffer :=
                        (if currentCipherMode alg = SymMode_GCM
                         then bs_append (currentAEADBuffer alg) encryptedData
                         else currentAEADBuffer alg)\<rparr>))"

definition base_decryptFinal :: "'c sym_alg \<Rightarrow> bool \<times> 'c sym_alg" where
  "base_decryptFinal alg =
     (if currentOperation alg \<noteq> DECRYPT then (False, alg)
      else (True, alg\<lparr>currentKey := None, currentCipherMode := SymMode_Unknown,
                      currentPaddingMode := True, currentCounterBits := 0, currentTagBytes := 0,
                      currentOperation := NONE, currentBufferSize := 0, currentAEADBuffer := []\<rparr>))"

definition isStreamCipher :: "'c sym_alg \<Rightarrow> bool" where
  "isStreamCipher alg =
     (case currentCipherMode alg of
        SymMode_CFB \<Rightarrow> True | SymMode_CTR \<Rightarrow> True | SymMode_GCM \<Rightarrow> True
      | SymMode_MGM \<Rightarrow> True | SymMode_OFB \<Rightarrow> True | _ \<Rightarrow> False)"

definition isBlockCipher :: "'c sym_alg \<Rightarrow> bool" where
  "isBlockCipher alg =
     (case currentCipherMode alg of SymMode_CBC \<Rightarrow> True | SymMode_ECB \<Rightarrow> True | _ \<Rightarrow> False)"

section \<open>The OpenSSL implementation\<close>

text \<open>
  The output buffer of a call that fails has no meaning and is modelled as empty. A null
  context handed to an EVP function is a failure of that call here; the invariant
  \<open>ctx_inv\<close> below shows that it does not happen.
\<close>

text \<open>
  \<open>counterBitsInit\<close>: the number of bytes until a CTR counter wraps, from the low
  \<open>counterBits\<close> bits of the IV with every bit flipped, plus one, times the block size. A
  set bit is cleared and a clear one set, from the top down.
\<close>

fun flip_bits :: "nat \<Rightarrow> nat \<Rightarrow> nat" where
  "flip_bits counter 0 = counter"
| "flip_bits counter (Suc n) =
     flip_bits (if bit counter n then counter - 2 ^ n else counter + 2 ^ n) n"

definition counterBitsInit :: "cipher_class \<Rightarrow> bytes \<Rightarrow> nat \<Rightarrow> 'c sym_alg \<Rightarrow> 'c sym_alg" where
  "counterBitsInit cc iv counterBits alg =
     (if counterBits > 0
      then alg\<lparr>maximumBytes :=
                 Some ((flip_bits (take_bit counterBits (be_val iv)) counterBits + 1) * getBlockSize cc),
               counterBytes := Some 0\<rparr>
      else alg\<lparr>maximumBytes := None, counterBytes := None\<rparr>)"

definition clean :: "'c sym_alg \<Rightarrow> 'c sym_alg" where
  "clean alg = alg\<lparr>pCurCTX := None, maximumBytes := None, counterBytes := None\<rparr>"

text \<open>The EVP part of both initialisers: the context with its padding and additional data set.\<close>

definition evp_start ::
  "'c evp \<Rightarrow> bool \<Rightarrow> 'c \<Rightarrow> evp_cipher \<Rightarrow> sym_mode \<Rightarrow> bytes \<Rightarrow> bytes \<Rightarrow> bool \<Rightarrow> bytes \<Rightarrow> 'c option" where
  "evp_start evp enc ctx cipher mode key iv padding aad =
     (let rv = (if mode = SymMode_GCM
                then (case EVP_Init_cipher evp ctx enc cipher of
                        None \<Rightarrow> None
                      | Some c \<Rightarrow> EVP_Init_key evp (EVP_CTRL_GCM_SET_IVLEN evp c (length iv)) enc key iv)
                else EVP_Init evp ctx enc cipher key iv)
      in case rv of
           None \<Rightarrow> None
         | Some c \<Rightarrow>
             (let c' = EVP_CIPHER_CTX_set_padding evp c padding
              in if mode = SymMode_GCM \<and> length aad > 0 then EVP_Update_aad evp c' aad else Some c'))"

definition iv_or_zero :: "cipher_class \<Rightarrow> bytes \<Rightarrow> bytes" where
  "iv_or_zero cc IV = (if length IV > 0 then IV else wipe [] (getBlockSize cc))"

definition encryptInit ::
  "'c evp \<Rightarrow> cipher_class \<Rightarrow> symmetric_key option \<Rightarrow> sym_mode \<Rightarrow> bytes \<Rightarrow> bool \<Rightarrow> nat \<Rightarrow> bytes \<Rightarrow> nat
   \<Rightarrow> 'c sym_alg \<Rightarrow> bool \<times> 'c sym_alg" where
  "encryptInit evp cc key mode IV padding counterBits aad tagBytes alg0 =
     (let (ok, alg) = base_encryptInit key mode padding counterBits tagBytes alg0
      in if \<not> ok then (False, alg)
         else if mode \<noteq> SymMode_GCM \<and> length IV > 0 \<and> length IV \<noteq> getBlockSize cc
         then (False, snd (base_encryptFinal alg))
         else
           (let iv = iv_or_zero cc IV;
                alg = counterBitsInit cc iv counterBits alg
            in case currentKey alg of
                 None \<Rightarrow> (False, snd (base_encryptFinal alg))
               | Some k \<Rightarrow>
                   (case getCipher cc k (currentCipherMode alg) of
                      None \<Rightarrow> (False, snd (base_encryptFinal alg))
                    | Some cipher \<Rightarrow>
                        (case EVP_CIPHER_CTX_new evp of
                           None \<Rightarrow> (False, snd (base_encryptFinal (alg\<lparr>pCurCTX := None\<rparr>)))
                         | Some ctx \<Rightarrow>
                             (case evp_start evp True ctx cipher mode (keyData k) iv padding aad of
                                None \<Rightarrow> (False, snd (base_encryptFinal (clean alg)))
                              | Some c \<Rightarrow> (True, alg\<lparr>pCurCTX := Some c\<rparr>))))))"

definition encryptUpdate ::
  "'c evp \<Rightarrow> cipher_class \<Rightarrow> bytes \<Rightarrow> 'c sym_alg \<Rightarrow> bool \<times> bytes \<times> 'c sym_alg" where
  "encryptUpdate evp cc data alg0 =
     (let (ok, alg) = base_encryptUpdate data alg0
      in if \<not> ok then (False, [], clean alg)
         else if length data = 0 then (True, [], alg)
         else
           (let alg = alg\<lparr>counterBytes :=
                            (if maximumBytes alg \<noteq> None
                             then map_option (\<lambda>n. n + length data) (counterBytes alg)
                             else counterBytes alg)\<rparr>
            in case Option.bind (pCurCTX alg) (\<lambda>c. EVP_Update evp c data) of
                 None \<Rightarrow> (False, [], snd (base_encryptFinal (clean alg)))
               | Some (out, c) \<Rightarrow>
                   (True, out, alg\<lparr>pCurCTX := Some c,
                                   currentBufferSize := currentBufferSize alg - of_nat (length out)\<rparr>)))"

definition encryptFinal :: "'c evp \<Rightarrow> 'c sym_alg \<Rightarrow> bool \<times> bytes \<times> 'c sym_alg" where
  "encryptFinal evp alg0 =
     (let mode = currentCipherMode alg0;
          tagBytes = currentTagBytes alg0;
          (ok, alg) = base_encryptFinal alg0
      in if \<not> ok then (False, [], clean alg)
         else
           (case Option.bind (pCurCTX alg) (EVP_Final evp) of
              None \<Rightarrow> (False, [], clean alg)
            | Some out \<Rightarrow>
                (True,
                 (if mode = SymMode_GCM
                  then bs_append out (EVP_CTRL_GCM_GET_TAG evp (the (pCurCTX alg)) tagBytes) else out),
                 clean alg)))"

definition decryptInit ::
  "'c evp \<Rightarrow> cipher_class \<Rightarrow> symmetric_key option \<Rightarrow> sym_mode \<Rightarrow> bytes \<Rightarrow> bool \<Rightarrow> nat \<Rightarrow> bytes \<Rightarrow> nat
   \<Rightarrow> 'c sym_alg \<Rightarrow> bool \<times> 'c sym_alg" where
  "decryptInit evp cc key mode IV padding counterBits aad tagBytes alg0 =
     (let (ok, alg) = base_decryptInit key mode padding counterBits tagBytes alg0
      in if \<not> ok then (False, alg)
         else if mode \<noteq> SymMode_GCM \<and> length IV > 0 \<and> length IV \<noteq> getBlockSize cc
         then (False, snd (base_decryptFinal alg))
         else
           (let iv = iv_or_zero cc IV;
                alg = counterBitsInit cc iv counterBits alg
            in case currentKey alg of
                 None \<Rightarrow> (False, snd (base_decryptFinal alg))
               | Some k \<Rightarrow>
                   (case getCipher cc k (currentCipherMode alg) of
                      None \<Rightarrow> (False, snd (base_decryptFinal alg))
                    | Some cipher \<Rightarrow>
                        (case EVP_CIPHER_CTX_new evp of
                           None \<Rightarrow> (False, snd (base_decryptFinal (alg\<lparr>pCurCTX := None\<rparr>)))
                         | Some ctx \<Rightarrow>
                             (case evp_start evp False ctx cipher mode (keyData k) iv padding aad of
                                None \<Rightarrow> (False, snd (base_decryptFinal (clean alg)))
                              | Some c \<Rightarrow> (True, alg\<lparr>pCurCTX := Some c\<rparr>))))))"

definition decryptUpdate ::
  "'c evp \<Rightarrow> bytes \<Rightarrow> 'c sym_alg \<Rightarrow> bool \<times> bytes \<times> 'c sym_alg" where
  "decryptUpdate evp encryptedData alg0 =
     (let (ok, alg) = base_decryptUpdate encryptedData alg0
      in if \<not> ok then (False, [], clean alg)
         else if currentCipherMode alg = SymMode_GCM then (True, [], alg)
         else
           (let alg = alg\<lparr>counterBytes :=
                            (if maximumBytes alg \<noteq> None
                             then map_option (\<lambda>n. n + length encryptedData) (counterBytes alg)
                             else counterBytes alg)\<rparr>
            in case Option.bind (pCurCTX alg) (\<lambda>c. EVP_Update evp c encryptedData) of
                 None \<Rightarrow> (False, [], snd (base_decryptFinal (clean alg)))
               | Some (out, c) \<Rightarrow>
                   (True, out, alg\<lparr>pCurCTX := Some c,
                                   currentBufferSize := currentBufferSize alg - of_nat (length out)\<rparr>)))"

text \<open>
  A GCM message is decrypted as a whole here: the tag is the end of what was collected, and
  the rest goes through one update before the final call.
\<close>

definition decryptFinal :: "'c evp \<Rightarrow> 'c sym_alg \<Rightarrow> bool \<times> bytes \<times> 'c sym_alg" where
  "decryptFinal evp alg0 =
     (let mode = currentCipherMode alg0;
          tagBytes = currentTagBytes alg0;
          aeadBuffer = currentAEADBuffer alg0;
          (ok, alg) = base_decryptFinal alg0
      in if \<not> ok then (False, [], clean alg)
         else
           (let part =
              (case pCurCTX alg of
                 None \<Rightarrow> None
               | Some c \<Rightarrow>
                   if mode = SymMode_GCM then
                     if length aeadBuffer < tagBytes then None
                     else
                       (let n = length aeadBuffer - tagBytes;
                            c' = EVP_CTRL_GCM_SET_TAG evp c (substr aeadBuffer n tagBytes)
                        in EVP_Update evp c' (substr aeadBuffer 0 n))
                   else Some ([], c))
            in case part of
                 None \<Rightarrow> (False, [], clean alg)
               | Some (data, c) \<Rightarrow>
                   (case EVP_Final evp c of
                      None \<Rightarrow> (False, data, clean alg)
                    | Some rest \<Rightarrow> (True, data @ rest, clean alg))))"

definition checkMaximumBytes :: "nat \<Rightarrow> 'c sym_alg \<Rightarrow> bool" where
  "checkMaximumBytes n alg =
     (case maximumBytes alg of
        None \<Rightarrow> True
      | Some m \<Rightarrow> (case counterBytes alg of None \<Rightarrow> True | Some c \<Rightarrow> c + n \<le> m))"

section \<open>The number of bytes before a counter wraps\<close>

lemma flip_bits_eq: "lo < 2 ^ n \<Longrightarrow> flip_bits (2 ^ n * hi + lo) n = 2 ^ n * hi + (2 ^ n - 1 - lo)"
proof (induction n arbitrary: hi lo)
  case (Suc n)
  define c where "c = 2 ^ Suc n * hi + lo"
  have b: "bit c n \<longleftrightarrow> 2 ^ n \<le> lo"
  proof -
    have "c = lo + (2 * hi) * 2 ^ n" by (simp add: c_def)
    then have "c div 2 ^ n = 2 * hi + lo div 2 ^ n" by (simp only: div_mult_self1) simp
    moreover have "lo div 2 ^ n = (if 2 ^ n \<le> lo then 1 else 0)"
      using Suc.prems by (auto simp: div_nat_eqI)
    ultimately show ?thesis by (auto simp: bit_iff_odd)
  qed
  have "flip_bits c (Suc n) = 2 ^ Suc n * hi + (2 ^ Suc n - 1 - lo)"
  proof (cases "2 ^ n \<le> lo")
    case True
    then have "flip_bits c (Suc n) = flip_bits (2 ^ n * (2 * hi) + (lo - 2 ^ n)) n"
      using b by (simp add: c_def mult.assoc mult.left_commute)
    also have "\<dots> = 2 ^ n * (2 * hi) + (2 ^ n - 1 - (lo - 2 ^ n))"
      using True Suc.prems by (intro Suc.IH) simp
    finally show ?thesis using True Suc.prems by simp
  next
    case False
    then have "flip_bits c (Suc n) = flip_bits (2 ^ n * (2 * hi + 1) + lo) n"
      using b by (simp add: c_def algebra_simps)
    also have "\<dots> = 2 ^ n * (2 * hi + 1) + (2 ^ n - 1 - lo)"
      using False by (intro Suc.IH) simp
    finally show ?thesis using False by (simp add: algebra_simps)
  qed
  then show ?case by (simp only: c_def)
qed simp

lemma flip_take_bit: "flip_bits (take_bit n v) n = 2 ^ n - 1 - v mod 2 ^ n"
  using flip_bits_eq [of "v mod 2 ^ n" n 0] by (simp add: take_bit_eq_mod)

lemma counterBitsInit_max:
  "0 < n \<Longrightarrow> maximumBytes (counterBitsInit cc iv n alg) =
     Some ((2 ^ n - be_val iv mod 2 ^ n) * getBlockSize cc)"
proof -
  have "be_val iv mod 2 ^ n < 2 ^ n" by simp
  then have "2 ^ n - 1 - be_val iv mod 2 ^ n + 1 = 2 ^ n - be_val iv mod 2 ^ n" by linarith
  then show "0 < n \<Longrightarrow> ?thesis" by (simp only: counterBitsInit_def flip_take_bit if_True) simp
qed

section \<open>The protocol\<close>

definition ctx_inv :: "'c sym_alg \<Rightarrow> bool" where
  "ctx_inv alg \<longleftrightarrow> (currentOperation alg = NONE \<longleftrightarrow> pCurCTX alg = None)"

lemma clean_simps [simp]:
  "pCurCTX (clean alg) = None" "currentOperation (clean alg) = currentOperation alg"
  "currentCipherMode (clean alg) = currentCipherMode alg" "maximumBytes (clean alg) = None"
  by (simp_all add: clean_def)

lemma counterBitsInit_simps [simp]:
  "currentOperation (counterBitsInit cc iv n alg) = currentOperation alg"
  "currentKey (counterBitsInit cc iv n alg) = currentKey alg"
  "currentCipherMode (counterBitsInit cc iv n alg) = currentCipherMode alg"
  "currentAEADBuffer (counterBitsInit cc iv n alg) = currentAEADBuffer alg"
  "pCurCTX (counterBitsInit cc iv n alg) = pCurCTX alg"
  by (simp_all add: counterBitsInit_def)

lemmas base_defs = base_encryptInit_def base_encryptUpdate_def base_encryptFinal_def
  base_decryptInit_def base_decryptUpdate_def base_decryptFinal_def

lemma encryptInit_result:
  "ctx_inv alg \<Longrightarrow> currentOperation alg = NONE \<Longrightarrow>
   (case encryptInit evp cc key mode IV padding cb aad tb alg of
      (True, alg') \<Rightarrow> currentOperation alg' = ENCRYPT \<and> pCurCTX alg' \<noteq> None
    | (False, alg') \<Rightarrow> currentOperation alg' = NONE \<and> pCurCTX alg' = None)"
  by (auto simp: encryptInit_def base_defs ctx_inv_def Let_def split: option.split)

lemma decryptInit_result:
  "ctx_inv alg \<Longrightarrow> currentOperation alg = NONE \<Longrightarrow>
   (case decryptInit evp cc key mode IV padding cb aad tb alg of
      (True, alg') \<Rightarrow> currentOperation alg' = DECRYPT \<and> pCurCTX alg' \<noteq> None
    | (False, alg') \<Rightarrow> currentOperation alg' = NONE \<and> pCurCTX alg' = None)"
  by (auto simp: decryptInit_def base_defs ctx_inv_def Let_def split: option.split)

lemma init_busy:
  "currentOperation alg \<noteq> NONE \<Longrightarrow> encryptInit evp cc key mode IV padding cb aad tb alg = (False, alg)"
  "currentOperation alg \<noteq> NONE \<Longrightarrow> decryptInit evp cc key mode IV padding cb aad tb alg = (False, alg)"
  by (simp_all add: encryptInit_def decryptInit_def base_defs)

lemma encryptUpdate_result:
  "ctx_inv alg \<Longrightarrow> currentOperation alg \<noteq> DECRYPT \<Longrightarrow>
   (case encryptUpdate evp cc data alg of
      (True, out, alg') \<Rightarrow> currentOperation alg' = ENCRYPT \<and> pCurCTX alg' \<noteq> None
    | (False, out, alg') \<Rightarrow> currentOperation alg' = NONE \<and> pCurCTX alg' = None)"
  by (cases "currentOperation alg")
    (auto simp: encryptUpdate_def base_defs ctx_inv_def Let_def split: option.split)

lemma decryptUpdate_result:
  "ctx_inv alg \<Longrightarrow> currentOperation alg \<noteq> ENCRYPT \<Longrightarrow>
   (case decryptUpdate evp data alg of
      (True, out, alg') \<Rightarrow> currentOperation alg' = DECRYPT \<and> pCurCTX alg' \<noteq> None
    | (False, out, alg') \<Rightarrow> currentOperation alg' = NONE \<and> pCurCTX alg' = None)"
  by (cases "currentOperation alg")
    (auto simp: decryptUpdate_def base_defs ctx_inv_def Let_def split: option.split)

lemma encryptFinal_result:
  "currentOperation alg \<noteq> DECRYPT \<Longrightarrow>
   currentOperation (snd (snd (encryptFinal evp alg))) = NONE \<and> pCurCTX (snd (snd (encryptFinal evp alg))) = None"
  by (cases "currentOperation alg")
    (auto simp: encryptFinal_def base_defs Let_def split: option.split)

lemma decryptFinal_result:
  "currentOperation alg \<noteq> ENCRYPT \<Longrightarrow>
   currentOperation (snd (snd (decryptFinal evp alg))) = NONE \<and> pCurCTX (snd (snd (decryptFinal evp alg))) = None"
  by (cases "currentOperation alg")
    (auto simp: decryptFinal_def base_defs Let_def split: option.split)

text \<open>
  One call on a cipher object by a client that does not mix the directions: no encryption
  call while a decryption is active, and the reverse.
\<close>

inductive sym_step :: "'c evp \<Rightarrow> cipher_class \<Rightarrow> 'c sym_alg \<Rightarrow> 'c sym_alg \<Rightarrow> bool" for evp cc where
  encrypt_init: "sym_step evp cc alg (snd (encryptInit evp cc key mode IV padding cb aad tb alg))"
| decrypt_init: "sym_step evp cc alg (snd (decryptInit evp cc key mode IV padding cb aad tb alg))"
| encrypt_update: "currentOperation alg \<noteq> DECRYPT \<Longrightarrow> sym_step evp cc alg (snd (snd (encryptUpdate evp cc d alg)))"
| decrypt_update: "currentOperation alg \<noteq> ENCRYPT \<Longrightarrow> sym_step evp cc alg (snd (snd (decryptUpdate evp d alg)))"
| encrypt_final: "currentOperation alg \<noteq> DECRYPT \<Longrightarrow> sym_step evp cc alg (snd (snd (encryptFinal evp alg)))"
| decrypt_final: "currentOperation alg \<noteq> ENCRYPT \<Longrightarrow> sym_step evp cc alg (snd (snd (decryptFinal evp alg)))"

lemma sym_step_ctx: "sym_step evp cc alg alg' \<Longrightarrow> ctx_inv alg \<Longrightarrow> ctx_inv alg'"
proof (induction rule: sym_step.induct)
  case (encrypt_init alg key mode IV padding cb aad tb)
  then show ?case
    using encryptInit_result [of alg evp cc key mode IV padding cb aad tb]
      init_busy(1) [of alg evp cc key mode IV padding cb aad tb]
    by (cases "currentOperation alg = NONE") (auto simp: ctx_inv_def split: prod.splits bool.splits)
next
  case (decrypt_init alg key mode IV padding cb aad tb)
  then show ?case
    using decryptInit_result [of alg evp cc key mode IV padding cb aad tb]
      init_busy(2) [of alg evp cc key mode IV padding cb aad tb]
    by (cases "currentOperation alg = NONE") (auto simp: ctx_inv_def split: prod.splits bool.splits)
next
  case (encrypt_update alg d)
  then show ?case
    using encryptUpdate_result [of alg evp cc d] by (auto simp: ctx_inv_def split: prod.splits bool.splits)
next
  case (decrypt_update alg d)
  then show ?case
    using decryptUpdate_result [of alg evp d] by (auto simp: ctx_inv_def split: prod.splits bool.splits)
next
  case (encrypt_final alg)
  then show ?case using encryptFinal_result [of alg evp] by (simp add: ctx_inv_def)
next
  case (decrypt_final alg)
  then show ?case using decryptFinal_result [of alg evp] by (simp add: ctx_inv_def)
qed

lemma ctx_inv_new: "ctx_inv SymmetricAlgorithm_new"
  by (simp add: ctx_inv_def SymmetricAlgorithm_new_def)

section \<open>Whole messages\<close>

text \<open>A run of updates, stopping at the first failure, with the outputs joined.\<close>

fun update_all :: "(bytes \<Rightarrow> 'a \<Rightarrow> bool \<times> bytes \<times> 'a) \<Rightarrow> bytes list \<Rightarrow> 'a \<Rightarrow> bool \<times> bytes \<times> 'a" where
  "update_all upd [] alg = (True, [], alg)"
| "update_all upd (d # ds) alg =
     (let (ok, out, alg) = upd d alg
      in if \<not> ok then (False, [], alg)
         else (let (ok, outs, alg) = update_all upd ds alg in (ok, out @ outs, alg)))"

definition encrypt_message ::
  "'c evp \<Rightarrow> cipher_class \<Rightarrow> symmetric_key \<Rightarrow> bytes \<Rightarrow> bytes list \<Rightarrow> 'c sym_alg \<Rightarrow> bytes option \<times> 'c sym_alg" where
  "encrypt_message evp cc key IV ds alg =
     (let (ok, alg) = encryptInit evp cc (Some key) SymMode_CBC IV True 0 [] 0 alg
      in if \<not> ok then (None, alg)
         else (let (ok, out, alg) = update_all (encryptUpdate evp cc) ds alg
               in if \<not> ok then (None, alg)
                  else (let (ok, rest, alg) = encryptFinal evp alg
                        in (if ok then Some (out @ rest) else None, alg))))"

definition decrypt_message ::
  "'c evp \<Rightarrow> cipher_class \<Rightarrow> symmetric_key \<Rightarrow> bytes \<Rightarrow> bytes list \<Rightarrow> 'c sym_alg \<Rightarrow> bytes option \<times> 'c sym_alg" where
  "decrypt_message evp cc key IV cs alg =
     (let (ok, alg) = decryptInit evp cc (Some key) SymMode_CBC IV True 0 [] 0 alg
      in if \<not> ok then (None, alg)
         else (let (ok, out, alg) = update_all (decryptUpdate evp) cs alg
               in if \<not> ok then (None, alg)
                  else (let (ok, rest, alg) = decryptFinal evp alg
                        in (if ok then Some (out @ rest) else None, alg))))"

text \<open>
  What the code relies on of OpenSSL: with an AES key of a legal size and a block-sized IV,
  CBC encryption of any chunks succeeds, and CBC decryption of the result, cut into any
  chunks, succeeds with the same bytes.
\<close>

fun evp_feed :: "'c evp \<Rightarrow> 'c \<Rightarrow> bytes list \<Rightarrow> (bytes \<times> 'c) option" where
  "evp_feed evp c [] = Some ([], c)"
| "evp_feed evp c (d # ds) =
     (case EVP_Update evp c d of
        None \<Rightarrow> None
      | Some (out, c) \<Rightarrow> map_option (\<lambda>(outs, c). (out @ outs, c)) (evp_feed evp c ds))"

definition evp_cbc_ok :: "'c evp \<Rightarrow> bool" where
  "evp_cbc_ok evp \<longleftrightarrow> (\<forall>key iv. length key \<in> {16, 24, 32} \<longrightarrow> length iv = 16 \<longrightarrow>
     (\<exists>ctx e d. EVP_CIPHER_CTX_new evp = Some ctx
        \<and> EVP_Init evp ctx True (EVP_aes (8 * length key) SymMode_CBC) key iv = Some e
        \<and> EVP_Init evp ctx False (EVP_aes (8 * length key) SymMode_CBC) key iv = Some d
        \<and> (\<forall>ps. \<exists>out c rest. evp_feed evp (EVP_CIPHER_CTX_set_padding evp e True) ps = Some (out, c)
             \<and> EVP_Final evp c = Some rest
             \<and> (\<forall>cs. concat cs = out @ rest \<longrightarrow>
                  (\<exists>out' c' rest'. evp_feed evp (EVP_CIPHER_CTX_set_padding evp d True) cs = Some (out', c')
                     \<and> EVP_Final evp c' = Some rest' \<and> out' @ rest' = concat ps)))))"

definition aes_key_ok :: "symmetric_key \<Rightarrow> bool" where
  "aes_key_ok key \<longleftrightarrow> bitLen key \<in> {128, 192, 256} \<and> 8 * length (keyData key) = bitLen key"

abbreviation idle :: "'c sym_alg \<Rightarrow> bool" where
  "idle alg \<equiv> currentOperation alg = NONE"

text \<open>
  Updates of the cipher object are updates of its EVP context; an encryption skips the
  empty chunks.
\<close>

lemma encrypt_update_all:
  "currentOperation alg = ENCRYPT \<Longrightarrow> pCurCTX alg = Some c \<Longrightarrow> currentCipherMode alg = SymMode_CBC \<Longrightarrow>
   evp_feed evp c (filter (\<lambda>d. d \<noteq> []) ds) = Some (out, c') \<Longrightarrow>
   \<exists>alg'. update_all (encryptUpdate evp cc) ds alg = (True, out, alg') \<and> currentOperation alg' = ENCRYPT
     \<and> pCurCTX alg' = Some c' \<and> currentCipherMode alg' = SymMode_CBC"
proof (induction ds arbitrary: alg c out)
  case (Cons d ds)
  show ?case
  proof (cases "d = []")
    case True
    with Cons.prems Cons.IH [of "alg\<lparr>currentBufferSize := currentBufferSize alg\<rparr>" c out] show ?thesis
      by (auto simp: encryptUpdate_def base_encryptUpdate_def)
  next
    case False
    with Cons.prems(4) obtain o1 c1 o2 where u: "EVP_Update evp c d = Some (o1, c1)"
      "evp_feed evp c1 (filter (\<lambda>d. d \<noteq> []) ds) = Some (o2, c')" "out = o1 @ o2"
      by (auto split: option.splits)
    from False Cons.prems(1-3) u(1) obtain alg1 where
      "encryptUpdate evp cc d alg = (True, o1, alg1)" "currentOperation alg1 = ENCRYPT"
      "pCurCTX alg1 = Some c1" "currentCipherMode alg1 = SymMode_CBC"
      by (auto simp: encryptUpdate_def base_encryptUpdate_def Let_def)
    with Cons.IH [of alg1 c1 o2] u show ?thesis by (auto simp: Let_def)
  qed
qed simp

lemma decrypt_update_all:
  "currentOperation alg = DECRYPT \<Longrightarrow> pCurCTX alg = Some c \<Longrightarrow> currentCipherMode alg = SymMode_CBC \<Longrightarrow>
   evp_feed evp c ds = Some (out, c') \<Longrightarrow>
   \<exists>alg'. update_all (decryptUpdate evp) ds alg = (True, out, alg') \<and> currentOperation alg' = DECRYPT
     \<and> pCurCTX alg' = Some c' \<and> currentCipherMode alg' = SymMode_CBC"
proof (induction ds arbitrary: alg c out)
  case (Cons d ds)
  from Cons.prems(4) obtain o1 c1 o2 where u: "EVP_Update evp c d = Some (o1, c1)"
    "evp_feed evp c1 ds = Some (o2, c')" "out = o1 @ o2"
    by (auto split: option.splits)
  from Cons.prems(1-3) u(1) obtain alg1 where
    "decryptUpdate evp d alg = (True, o1, alg1)" "currentOperation alg1 = DECRYPT"
    "pCurCTX alg1 = Some c1" "currentCipherMode alg1 = SymMode_CBC"
    by (auto simp: decryptUpdate_def base_decryptUpdate_def Let_def)
  with Cons.IH [of alg1 c1 o2] u show ?case by (auto simp: Let_def)
qed simp

lemma concat_nonempty: "concat (filter (\<lambda>d. d \<noteq> []) ds) = concat ds"
  by (induction ds) auto

lemma encrypt_message_feed:
  assumes "aes_key_ok key" "length IV = 16" "idle alg" "EVP_CIPHER_CTX_new evp = Some ctx"
    and "EVP_Init evp ctx True (EVP_aes (bitLen key) SymMode_CBC) (keyData key) IV = Some e"
    and "evp_feed evp (EVP_CIPHER_CTX_set_padding evp e True) (filter (\<lambda>d. d \<noteq> []) ds) = Some (out, c)"
    and "EVP_Final evp c = Some rest"
  shows "\<exists>alg'. encrypt_message evp OSSLAES key IV ds alg = (Some (out @ rest), alg') \<and> idle alg'"
proof -
  obtain alg1 where i: "encryptInit evp OSSLAES (Some key) SymMode_CBC IV True 0 [] 0 alg = (True, alg1)"
    "currentOperation alg1 = ENCRYPT" "pCurCTX alg1 = Some (EVP_CIPHER_CTX_set_padding evp e True)"
    "currentCipherMode alg1 = SymMode_CBC"
    using assms(1-5)
    by (auto simp: encryptInit_def base_encryptInit_def OSSLAES_def OSSLAES_getCipher_def aes_key_ok_def
        evp_start_def iv_or_zero_def Let_def)
  from encrypt_update_all [OF i(2-4) assms(6), of OSSLAES] obtain alg2 where
    "update_all (encryptUpdate evp OSSLAES) ds alg1 = (True, out, alg2)" "currentOperation alg2 = ENCRYPT"
    "pCurCTX alg2 = Some c" "currentCipherMode alg2 = SymMode_CBC" by blast
  with i(1) assms(7) show ?thesis
    by (simp add: encrypt_message_def encryptFinal_def base_encryptFinal_def)
qed

lemma decrypt_message_feed:
  assumes "aes_key_ok key" "length IV = 16" "idle alg" "EVP_CIPHER_CTX_new evp = Some ctx"
    and "EVP_Init evp ctx False (EVP_aes (bitLen key) SymMode_CBC) (keyData key) IV = Some d"
    and "evp_feed evp (EVP_CIPHER_CTX_set_padding evp d True) cs = Some (out, c)"
    and "EVP_Final evp c = Some rest"
  shows "\<exists>alg'. decrypt_message evp OSSLAES key IV cs alg = (Some (out @ rest), alg') \<and> idle alg'"
proof -
  obtain alg1 where i: "decryptInit evp OSSLAES (Some key) SymMode_CBC IV True 0 [] 0 alg = (True, alg1)"
    "currentOperation alg1 = DECRYPT" "pCurCTX alg1 = Some (EVP_CIPHER_CTX_set_padding evp d True)"
    "currentCipherMode alg1 = SymMode_CBC"
    using assms(1-5)
    by (auto simp: decryptInit_def base_decryptInit_def OSSLAES_def OSSLAES_getCipher_def aes_key_ok_def
        evp_start_def iv_or_zero_def Let_def)
  from decrypt_update_all [OF i(2-4) assms(6)] obtain alg2 where
    "update_all (decryptUpdate evp) cs alg1 = (True, out, alg2)" "currentOperation alg2 = DECRYPT"
    "pCurCTX alg2 = Some c" "currentCipherMode alg2 = SymMode_CBC" by blast
  with i(1) assms(7) show ?thesis
    by (simp add: decrypt_message_def decryptFinal_def base_decryptFinal_def)
qed

lemma cbc_message_roundtrip:
  assumes "evp_cbc_ok evp" "aes_key_ok key" "length IV = 16" "idle alg"
  obtains ct alg' where "encrypt_message evp OSSLAES key IV ds alg = (Some ct, alg')" "idle alg'"
    "\<And>cs b. concat cs = ct \<Longrightarrow> idle b \<Longrightarrow>
      \<exists>b'. decrypt_message evp OSSLAES key IV cs b = (Some (concat ds), b') \<and> idle b'"
proof -
  have k: "length (keyData key) \<in> {16, 24, 32}" "8 * length (keyData key) = bitLen key"
    using assms(2) by (auto simp: aes_key_ok_def)
  with assms(1, 3) obtain ctx e d where i: "EVP_CIPHER_CTX_new evp = Some ctx"
    "EVP_Init evp ctx True (EVP_aes (bitLen key) SymMode_CBC) (keyData key) IV = Some e"
    "EVP_Init evp ctx False (EVP_aes (bitLen key) SymMode_CBC) (keyData key) IV = Some d"
    and law: "\<And>ps. \<exists>out c rest. evp_feed evp (EVP_CIPHER_CTX_set_padding evp e True) ps = Some (out, c)
       \<and> EVP_Final evp c = Some rest
       \<and> (\<forall>cs. concat cs = out @ rest \<longrightarrow>
            (\<exists>out' c' rest'. evp_feed evp (EVP_CIPHER_CTX_set_padding evp d True) cs = Some (out', c')
               \<and> EVP_Final evp c' = Some rest' \<and> out' @ rest' = concat ps))"
    unfolding evp_cbc_ok_def by (metis (no_types, lifting))
  from law [of "filter (\<lambda>d. d \<noteq> []) ds"] obtain out c rest where e:
    "evp_feed evp (EVP_CIPHER_CTX_set_padding evp e True) (filter (\<lambda>d. d \<noteq> []) ds) = Some (out, c)"
    "EVP_Final evp c = Some rest"
    and d: "\<And>cs. concat cs = out @ rest \<Longrightarrow>
       \<exists>out' c' rest'. evp_feed evp (EVP_CIPHER_CTX_set_padding evp d True) cs = Some (out', c')
         \<and> EVP_Final evp c' = Some rest' \<and> out' @ rest' = concat ds"
    unfolding concat_nonempty by blast
  from encrypt_message_feed [OF assms(2-4) i(1, 2) e] obtain alg' where
    a: "encrypt_message evp OSSLAES key IV ds alg = (Some (out @ rest), alg')" "idle alg'" by blast
  show thesis
  proof (rule that [OF a])
    fix cs and b :: "'a sym_alg"
    assume "concat cs = out @ rest" and b: "idle b"
    with d obtain out' c' rest' where
      "evp_feed evp (EVP_CIPHER_CTX_set_padding evp d True) cs = Some (out', c')"
      "EVP_Final evp c' = Some rest'" "out' @ rest' = concat ds" by blast
    with decrypt_message_feed [OF assms(2, 3) b i(1, 3)]
    show "\<exists>b'. decrypt_message evp OSSLAES key IV cs b = (Some (concat ds), b') \<and> idle b'" by metis
  qed
qed

section \<open>Counting the bytes of a CTR operation\<close>

lemma encryptInit_limit:
  assumes "encryptInit evp cc (Some key) mode IV padding n aad tb alg = (True, alg1)" "0 < n"
  shows "maximumBytes alg1 = Some ((2 ^ n - be_val (iv_or_zero cc IV) mod 2 ^ n) * getBlockSize cc)
    \<and> counterBytes alg1 = Some 0"
  using assms counterBitsInit_max [OF assms(2), of cc "iv_or_zero cc IV"]
  by (auto simp: encryptInit_def base_encryptInit_def Let_def counterBitsInit_def
      split: if_splits option.splits)

lemma encryptUpdate_count:
  "encryptUpdate evp cc d alg = (True, out, alg') \<Longrightarrow> maximumBytes alg = Some m \<Longrightarrow> counterBytes alg = Some k \<Longrightarrow>
   maximumBytes alg' = Some m \<and> counterBytes alg' = Some (k + length d)"
  by (auto simp: encryptUpdate_def base_encryptUpdate_def Let_def split: if_splits option.splits)

lemma update_all_count:
  "update_all (encryptUpdate evp cc) ds alg = (True, out, alg') \<Longrightarrow> maximumBytes alg = Some m \<Longrightarrow>
   counterBytes alg = Some k \<Longrightarrow>
   maximumBytes alg' = Some m \<and> counterBytes alg' = Some (k + length (concat ds))"
proof (induction ds arbitrary: alg k out)
  case (Cons d ds)
  from Cons.prems(1) obtain o1 alg1 o2 where u: "encryptUpdate evp cc d alg = (True, o1, alg1)"
    "update_all (encryptUpdate evp cc) ds alg1 = (True, o2, alg')"
    by (auto simp: Let_def split: prod.splits if_splits)
  from Cons.IH [OF u(2)] encryptUpdate_count [OF u(1) Cons.prems(2, 3)] show ?case
    by (simp add: add.assoc)
qed simp

section \<open>Properties\<close>

text \<open>A concrete EVP that copies its input, for evaluation.\<close>

definition copy_evp :: "unit evp" where
  "copy_evp =
     \<lparr>EVP_CIPHER_CTX_new = Some (), EVP_Init = \<lambda>_ _ _ _ _. Some (), EVP_Init_cipher = \<lambda>_ _ _. Some (),
      EVP_CTRL_GCM_SET_IVLEN = \<lambda>c _. c, EVP_Init_key = \<lambda>_ _ _ _. Some (),
      EVP_CIPHER_CTX_set_padding = \<lambda>c _. c, EVP_Update_aad = \<lambda>c _. Some c,
      EVP_Update = \<lambda>c d. Some (d, c), EVP_Final = \<lambda>_. Some [], EVP_CTRL_GCM_GET_TAG = \<lambda>_ n. replicate n 0,
      EVP_CTRL_GCM_SET_TAG = \<lambda>c _. c\<rparr>"

lemma copy_evp_feed: "evp_feed copy_evp c ds = Some (concat ds, c)"
  by (induction ds arbitrary: c) (simp_all add: copy_evp_def)

lemma copy_evp_cbc_ok: "evp_cbc_ok copy_evp"
  unfolding evp_cbc_ok_def copy_evp_feed by (simp add: copy_evp_def)

definition zero_key :: symmetric_key where
  "zero_key = \<lparr>keyData = replicate 32 0, bitLen = 256\<rparr>"

lemma zero_key_ok: "aes_key_ok zero_key"
  by (simp add: aes_key_ok_def zero_key_def)

text \<open>
  A cipher object owns an EVP context exactly while an operation is active. After
  every history of init, update and final calls that does not mix the two directions,
  whichever of them fail, the context pointer is null if and only if no operation is
  active, so no EVP function is ever called on a null context.
\<close>

theorem cipher_context_iff_active:
  assumes "(sym_step evp cc)\<^sup>*\<^sup>* SymmetricAlgorithm_new alg"
  shows "currentOperation alg = NONE \<longleftrightarrow> pCurCTX alg = None"
  using assms
proof (induction rule: rtranclp_induct)
  case base
  then show ?case using ctx_inv_new by (simp add: ctx_inv_def)
next
  case (step alg alg')
  then show ?case using sym_step_ctx [of evp cc alg alg'] by (simp add: ctx_inv_def)
qed

theorem cipher_context_iff_active_witness:
  "currentOperation (snd (encryptInit copy_evp OSSLAES (Some zero_key) SymMode_CBC [] True 0 [] 0 SymmetricAlgorithm_new)) = ENCRYPT
   \<and> pCurCTX (snd (encryptInit copy_evp OSSLAES (Some zero_key) SymMode_CBC [] True 0 [] 0 SymmetricAlgorithm_new)) \<noteq> None"
proof -
  let ?a = "snd (encryptInit copy_evp OSSLAES (Some zero_key) SymMode_CBC [] True 0 [] 0 SymmetricAlgorithm_new)"
  have "sym_step copy_evp OSSLAES SymmetricAlgorithm_new ?a" by (rule encrypt_init)
  then have "(sym_step copy_evp OSSLAES)\<^sup>*\<^sup>* SymmetricAlgorithm_new ?a" by blast
  moreover have "currentOperation ?a = ENCRYPT"
    by (simp add: encryptInit_def base_encryptInit_def SymmetricAlgorithm_new_def OSSLAES_def
        OSSLAES_getCipher_def zero_key_def copy_evp_def evp_start_def)
  ultimately show ?thesis using cipher_context_iff_active [of copy_evp OSSLAES ?a] by simp
qed

text \<open>
  Mixing the directions loses the context. An encryption update on an object that is
  decrypting fails, frees the context, and leaves the decryption marked as active: the next
  decryption update of that object would use a null context.
\<close>

theorem mixed_update_drops_context:
  assumes "currentOperation alg = DECRYPT"
  shows "\<not> fst (encryptUpdate evp cc data alg)
    \<and> currentOperation (snd (snd (encryptUpdate evp cc data alg))) = DECRYPT
    \<and> pCurCTX (snd (snd (encryptUpdate evp cc data alg))) = None"
  using assms by (simp add: encryptUpdate_def base_encryptUpdate_def)

theorem mixed_update_drops_context_witness:
  "currentOperation (snd (decryptInit copy_evp OSSLAES (Some zero_key) SymMode_CBC [] True 0 [] 0 SymmetricAlgorithm_new)) = DECRYPT
   \<and> pCurCTX (snd (snd (encryptUpdate copy_evp OSSLAES [1]
        (snd (decryptInit copy_evp OSSLAES (Some zero_key) SymMode_CBC [] True 0 [] 0 SymmetricAlgorithm_new))))) = None"
proof -
  let ?a = "snd (decryptInit copy_evp OSSLAES (Some zero_key) SymMode_CBC [] True 0 [] 0 SymmetricAlgorithm_new)"
  have "currentOperation ?a = DECRYPT"
    by (simp add: decryptInit_def base_decryptInit_def SymmetricAlgorithm_new_def OSSLAES_def
        OSSLAES_getCipher_def zero_key_def copy_evp_def evp_start_def)
  with mixed_update_drops_context [of ?a copy_evp OSSLAES "[1]"] show ?thesis by simp
qed



text \<open>
  C22: the byte limit of a CTR operation is exact. With a counter of \<open>n\<close> bits that starts
  at the low \<open>n\<close> bits of the IV, after encrypting any chunks \<open>checkMaximumBytes\<close> accepts
  \<open>m\<close> more bytes if and only if the whole message still fits in the blocks before the
  counter wraps to zero.
\<close>

theorem ctr_limit_exact:
  assumes "encryptInit evp cc (Some key) mode IV padding n aad tb alg = (True, alg1)" and "0 < n"
    and "update_all (encryptUpdate evp cc) ds alg1 = (True, out, alg2)"
  shows "checkMaximumBytes m alg2 \<longleftrightarrow>
    length (concat ds) + m \<le> (2 ^ n - be_val (iv_or_zero cc IV) mod 2 ^ n) * getBlockSize cc"
  using encryptInit_limit [OF assms(1, 2)] update_all_count [OF assms(3)]
  by (simp add: checkMaximumBytes_def)

theorem ctr_limit_exact_witness:
  "checkMaximumBytes 16 (snd (encryptInit copy_evp OSSLAES (Some zero_key) SymMode_CTR (replicate 15 0 @ [0xFF]) False 8 [] 0 SymmetricAlgorithm_new))
   \<and> \<not> checkMaximumBytes 17 (snd (encryptInit copy_evp OSSLAES (Some zero_key) SymMode_CTR (replicate 15 0 @ [0xFF]) False 8 [] 0 SymmetricAlgorithm_new))"
proof -
  let ?i = "encryptInit copy_evp OSSLAES (Some zero_key) SymMode_CTR (replicate 15 0 @ [0xFF]) False 8 [] 0 SymmetricAlgorithm_new"
  have "fst ?i"
    by (simp add: encryptInit_def base_encryptInit_def SymmetricAlgorithm_new_def OSSLAES_def
        OSSLAES_getCipher_def zero_key_def copy_evp_def evp_start_def Let_def)
  then have i: "?i = (True, snd ?i)" by (simp add: prod_eq_iff)
  have "checkMaximumBytes m (snd ?i) \<longleftrightarrow> m \<le> 16" for m
    using ctr_limit_exact [OF i, of "[]" "[]" "snd ?i" m] be_val_replicate_zero [of 15]
    by (simp add: iv_or_zero_def OSSLAES_def)
  then show ?thesis by simp
qed

end
