(* ===== verification/Hash_Alg.thy ===== *)
theory Hash_Alg
  imports Byte_String
begin

text \<open>
  \<^verbatim>\<open>src/lib/crypto/HashAlgorithm.cpp\<close>, \<^verbatim>\<open>OSSLEVPHashAlgorithm.cpp\<close> and
  \<^verbatim>\<open>OSSLRNG.cpp\<close>: digest objects and random numbers on top of OpenSSL, whose digest
  functions are the fields of the parameter \<open>evp_md\<close> and whose \<^verbatim>\<open>RAND_bytes\<close> is
  the parameter \<open>rand_bytes\<close>. Shown: hashing in chunks computes the digest of the whole
  message when OpenSSL does, and the random generator fills the buffer it is given
  completely, in pieces that fit an \<^verbatim>\<open>int\<close>.
\<close>

section \<open>Digests\<close>

record 'd evp_md =
  EVP_MD_CTX_new :: "'d option"
  EVP_DigestInit_ex :: "'d \<Rightarrow> 'd option"
  EVP_DigestUpdate :: "'d \<Rightarrow> bytes \<Rightarrow> 'd option"
  EVP_DigestFinal_ex :: "'d \<Rightarrow> bytes option"

datatype hash_operation = HASH_NONE | HASHING

record 'd hash_alg =
  hashOperation :: hash_operation
  curCTX :: "'d option"

definition HashAlgorithm_new :: "'d hash_alg" where
  "HashAlgorithm_new = \<lparr>hashOperation = HASH_NONE, curCTX = None\<rparr>"

definition base_hashInit :: "'d hash_alg \<Rightarrow> bool \<times> 'd hash_alg" where
  "base_hashInit h =
     (if hashOperation h \<noteq> HASH_NONE then (False, h) else (True, h\<lparr>hashOperation := HASHING\<rparr>))"

definition base_hashUpdate :: "'d hash_alg \<Rightarrow> bool" where
  "base_hashUpdate h = (hashOperation h = HASHING)"

definition base_hashFinal :: "'d hash_alg \<Rightarrow> bool \<times> 'd hash_alg" where
  "base_hashFinal h =
     (if hashOperation h \<noteq> HASHING then (False, h) else (True, h\<lparr>hashOperation := HASH_NONE\<rparr>))"

definition hashInit :: "'d evp_md \<Rightarrow> 'd hash_alg \<Rightarrow> bool \<times> 'd hash_alg" where
  "hashInit md h0 =
     (let (ok, h) = base_hashInit h0
      in if \<not> ok then (False, h)
         else
           (case EVP_MD_CTX_new md of
              None \<Rightarrow> (False, h\<lparr>curCTX := None\<rparr>)
            | Some ctx \<Rightarrow>
                (case EVP_DigestInit_ex md ctx of
                   None \<Rightarrow> (False, snd (base_hashFinal (h\<lparr>curCTX := None\<rparr>)))
                 | Some c \<Rightarrow> (True, h\<lparr>curCTX := Some c\<rparr>))))"

definition hashUpdate :: "'d evp_md \<Rightarrow> bytes \<Rightarrow> 'd hash_alg \<Rightarrow> bool \<times> 'd hash_alg" where
  "hashUpdate md data h =
     (if \<not> base_hashUpdate h then (False, h)
      else if length data = 0 then (True, h)
      else
        (case Option.bind (curCTX h) (\<lambda>c. EVP_DigestUpdate md c data) of
           None \<Rightarrow> (False, snd (base_hashFinal (h\<lparr>curCTX := None\<rparr>)))
         | Some c \<Rightarrow> (True, h\<lparr>curCTX := Some c\<rparr>)))"

definition hashFinal :: "'d evp_md \<Rightarrow> 'd hash_alg \<Rightarrow> bool \<times> bytes \<times> 'd hash_alg" where
  "hashFinal md h0 =
     (let (ok, h) = base_hashFinal h0
      in if \<not> ok then (False, [], h)
         else
           (case Option.bind (curCTX h) (EVP_DigestFinal_ex md) of
              None \<Rightarrow> (False, [], h\<lparr>curCTX := None\<rparr>)
            | Some out \<Rightarrow> (True, out, h\<lparr>curCTX := None\<rparr>)))"

text \<open>The chunks handed to one context, and what OpenSSL is relied on for: it computes \<open>H\<close>.\<close>

fun md_feed :: "'d evp_md \<Rightarrow> 'd \<Rightarrow> bytes list \<Rightarrow> 'd option" where
  "md_feed md c [] = Some c"
| "md_feed md c (d # ds) =
     (case EVP_DigestUpdate md c d of None \<Rightarrow> None | Some c \<Rightarrow> md_feed md c ds)"

definition md_computes :: "'d evp_md \<Rightarrow> (bytes \<Rightarrow> bytes) \<Rightarrow> bool" where
  "md_computes md H \<longleftrightarrow>
     (\<exists>ctx c. EVP_MD_CTX_new md = Some ctx \<and> EVP_DigestInit_ex md ctx = Some c
        \<and> (\<forall>ds. \<exists>c'. md_feed md c ds = Some c' \<and> EVP_DigestFinal_ex md c' = Some (H (concat ds))))"

text \<open>One whole digest: init, updates, final.\<close>

fun hash_updates :: "'d evp_md \<Rightarrow> bytes list \<Rightarrow> 'd hash_alg \<Rightarrow> bool \<times> 'd hash_alg" where
  "hash_updates md [] h = (True, h)"
| "hash_updates md (d # ds) h =
     (let (ok, h) = hashUpdate md d h in if ok then hash_updates md ds h else (False, h))"

definition hash_message :: "'d evp_md \<Rightarrow> bytes list \<Rightarrow> 'd hash_alg \<Rightarrow> bytes option \<times> 'd hash_alg" where
  "hash_message md ds h =
     (let (ok, h) = hashInit md h
      in if \<not> ok then (None, h)
         else (let (ok, h) = hash_updates md ds h
               in if \<not> ok then (None, h)
                  else (let (ok, out, h) = hashFinal md h in (if ok then Some out else None, h))))"

lemma hash_updates_feed:
  "hashOperation h = HASHING \<Longrightarrow> curCTX h = Some c \<Longrightarrow> md_feed md c (filter (\<lambda>d. d \<noteq> []) ds) = Some c' \<Longrightarrow>
   hash_updates md ds h = (True, h\<lparr>curCTX := Some c'\<rparr>)"
proof (induction ds arbitrary: h c)
  case (Cons d ds)
  show ?case
  proof (cases "d = []")
    case True
    with Cons show ?thesis by (simp add: hashUpdate_def base_hashUpdate_def)
  next
    case False
    with Cons.prems obtain c1 where c1: "EVP_DigestUpdate md c d = Some c1"
      "md_feed md c1 (filter (\<lambda>d. d \<noteq> []) ds) = Some c'"
      by (auto split: option.splits)
    from Cons.IH [of "h\<lparr>curCTX := Some c1\<rparr>" c1] Cons.prems(1, 2) c1 False show ?thesis
      by (simp add: hashUpdate_def base_hashUpdate_def)
  qed
qed simp

lemma hash_message_computes:
  assumes "md_computes md H" "hashOperation h = HASH_NONE"
  shows "hash_message md ds h = (Some (H (concat ds)), h\<lparr>hashOperation := HASH_NONE, curCTX := None\<rparr>)"
proof -
  from assms(1) obtain ctx c where i: "EVP_MD_CTX_new md = Some ctx" "EVP_DigestInit_ex md ctx = Some c"
    and "\<exists>c'. md_feed md c (filter (\<lambda>d. d \<noteq> []) ds) = Some c' \<and>
      EVP_DigestFinal_ex md c' = Some (H (concat (filter (\<lambda>d. d \<noteq> []) ds)))"
    unfolding md_computes_def by blast
  moreover have "concat (filter (\<lambda>d. d \<noteq> []) ds) = concat ds" by (induction ds) auto
  ultimately obtain c' where c': "md_feed md c (filter (\<lambda>d. d \<noteq> []) ds) = Some c'"
    "EVP_DigestFinal_ex md c' = Some (H (concat ds))" by auto
  with i assms(2) hash_updates_feed [of "h\<lparr>hashOperation := HASHING, curCTX := Some c\<rparr>" c md ds c']
  show ?thesis
    by (simp add: hash_message_def hashInit_def base_hashInit_def hashFinal_def base_hashFinal_def)
qed

section \<open>Random numbers\<close>

text \<open>\<^verbatim>\<open>RAND_bytes\<close>: whether it succeeded, what it wrote, and the state of the generator.\<close>

type_synonym 'r rand = "'r \<Rightarrow> nat \<Rightarrow> bool \<times> bytes \<times> 'r"

definition INT_MAX :: nat where
  "INT_MAX = 2 ^ 31 - 1"

definition clampToInt :: "nat \<Rightarrow> nat" where
  "clampToInt len = (if len > INT_MAX then INT_MAX else len)"

lemma clampToInt_bounds: "0 < n \<Longrightarrow> 0 < clampToInt n" "clampToInt n \<le> n" "clampToInt n \<le> INT_MAX"
  by (auto simp: clampToInt_def INT_MAX_def)

text \<open>The loop over the pieces; \<open>todo\<close> is the part of the wiped buffer not yet written.\<close>

function rand_loop :: "'r rand \<Rightarrow> nat \<Rightarrow> 'r \<Rightarrow> bool \<times> bytes \<times> 'r" where
  "rand_loop rand_bytes todo r =
     (if todo = 0 then (True, [], r)
      else
        (let chunk = clampToInt todo;
             (ok, out, r) = rand_bytes r chunk
         in if \<not> ok then (False, out @ replicate (todo - chunk) 0, r)
            else (let (ok, rest, r) = rand_loop rand_bytes (todo - chunk) r
                  in (ok, out @ rest, r))))"
  by pat_completeness auto
termination
  by (relation "measure (\<lambda>(_, todo, _). todo)") (auto simp: clampToInt_def INT_MAX_def)

declare rand_loop.simps [simp del]

definition generateRandom :: "'r rand \<Rightarrow> nat \<Rightarrow> 'r \<Rightarrow> bool \<times> bytes \<times> 'r" where
  "generateRandom rand_bytes len r = rand_loop rand_bytes len r"

text \<open>\<^verbatim>\<open>RAND_bytes\<close> writes as many bytes as it is asked for.\<close>

definition rand_sized :: "'r rand \<Rightarrow> bool" where
  "rand_sized rand_bytes \<longleftrightarrow> (\<forall>r n. length (fst (snd (rand_bytes r n))) = n)"

definition rand_succeeds :: "'r rand \<Rightarrow> bool" where
  "rand_succeeds rand_bytes \<longleftrightarrow> (\<forall>r n. fst (rand_bytes r n))"

lemma rand_loop_step:
  "0 < n \<Longrightarrow> n - clampToInt n < n"
  using clampToInt_bounds by (simp add: diff_less)

lemma generateRandom_length:
  assumes "rand_sized rand_bytes"
  shows "length (fst (snd (generateRandom rand_bytes n r))) = n"
  unfolding generateRandom_def
proof (induction n arbitrary: r rule: less_induct)
  case (less n)
  have l: "rand_bytes r m = (ok, out, r') \<Longrightarrow> length out = m" for m ok out r'
    using assms unfolding rand_sized_def by (metis fst_conv snd_conv)
  show ?case
  proof (cases "n = 0")
    case False
    obtain ok out r' where b: "rand_bytes r (clampToInt n) = (ok, out, r')" by (cases "rand_bytes r (clampToInt n)")
    have "length (fst (snd (rand_loop rand_bytes (n - clampToInt n) r'))) = n - clampToInt n"
      using False by (intro less rand_loop_step) simp
    with False b l [OF b] clampToInt_bounds(2) [of n] show ?thesis
      by (subst rand_loop.simps) (auto simp: Let_def split: prod.split)
  qed (simp add: rand_loop.simps)
qed

lemma generateRandom_succeeds: "rand_succeeds rand_bytes \<Longrightarrow> fst (generateRandom rand_bytes n r)"
  unfolding generateRandom_def
proof (induction n arbitrary: r rule: less_induct)
  case (less n)
  show ?case
  proof (cases "n = 0")
    case False
    obtain ok out r' where b: "rand_bytes r (clampToInt n) = (ok, out, r')" by (cases "rand_bytes r (clampToInt n)")
    moreover have "ok" using less.prems b unfolding rand_succeeds_def by (metis fst_conv)
    moreover have "fst (rand_loop rand_bytes (n - clampToInt n) r')"
      using False less by (intro less.IH rand_loop_step) simp_all
    ultimately show ?thesis using False
      by (subst rand_loop.simps) (auto simp: Let_def split: prod.split)
  qed (simp add: rand_loop.simps)
qed

end
