(* ===== verification/Secure_Data.thy ===== *)
theory Secure_Data
  imports Symmetric_Alg Hash_Alg
begin

text \<open>
  \<^verbatim>\<open>src/lib/data_mgr/RFC4880.cpp\<close> and \<^verbatim>\<open>SecureDataManager.cpp\<close>: the token's master
  key. It is stored twice, encrypted under a key derived from the SO PIN and under one
  derived from the user PIN, and kept in memory XORed with a mask that changes at every use.
  Sensitive attributes are encrypted under it.

  The crypto library enters through the record \<open>crypto\<close>: OpenSSL's ciphers, digest and
  random source. What is relied on of them is \<open>crypto_ok\<close>. Shown: the derived key is the
  iterated salted hash; setting a PIN produces a blob from which a login with that PIN
  recovers the same master key in any later object built from it, so both PINs unlock the
  same key; what was encrypted under a master key decrypts under it; nothing is decrypted,
  encrypted or re-keyed without a login; a failed login leaves no key behind.
\<close>

record ('c, 'd, 'r) crypto =
  cx_evp :: "'c evp"
  cx_md :: "'d evp_md"
  cx_rand :: "'r rand"

section \<open>Password-based key derivation\<close>

definition PBE_ITERATION_BASE_COUNT :: nat where
  "PBE_ITERATION_BASE_COUNT = 1500"

text \<open>\<^verbatim>\<open>while (--iter > 0)\<close>: the number of further iterations is \<open>iter - 1\<close>.\<close>

fun pbe_loop :: "'d evp_md \<Rightarrow> nat \<Rightarrow> 'd hash_alg \<Rightarrow> bytes \<Rightarrow> bytes option" where
  "pbe_loop md 0 hash intermediate = Some intermediate"
| "pbe_loop md (Suc n) hash intermediate =
     (case hash_message md [intermediate] hash of
        (None, hash) \<Rightarrow> None
      | (Some intermediate, hash) \<Rightarrow> pbe_loop md n hash intermediate)"

definition PBEDeriveKey :: "('c, 'd, 'r) crypto \<Rightarrow> bytes \<Rightarrow> bytes \<Rightarrow> symmetric_key option" where
  "PBEDeriveKey cx password salt =
     (if length salt < 8 then None
      else if length password = 0 then None
      else
        (let iter = PBE_ITERATION_BASE_COUNT + unat (salt ! (length salt - 1))
         in case hash_message (cx_md cx) [salt, password] HashAlgorithm_new of
              (None, hash) \<Rightarrow> None
            | (Some intermediate, hash) \<Rightarrow>
                (case pbe_loop (cx_md cx) (iter - 1) hash intermediate of
                   None \<Rightarrow> None
                 | Some intermediate \<Rightarrow>
                     Some (snd (setKeyBits (SymmetricKey_new 256) intermediate)))))"

section \<open>The secure data manager\<close>

record ('c, 'r) sdm =
  userEncryptedKey :: bytes
  soEncryptedKey :: bytes
  soLoggedIn :: bool
  userLoggedIn :: bool
  maskedKey :: bytes
  sdm_mask :: bytes
  sdm_rng :: 'r
  sdm_aes :: "'c sym_alg"

definition magic :: bytes where
  "magic = ByteString_hex ''524A52''"

definition sdm_random :: "('c, 'd, 'r) crypto \<Rightarrow> nat \<Rightarrow> ('c, 'r) sdm \<Rightarrow> bool \<times> bytes \<times> ('c, 'r) sdm" where
  "sdm_random cx n sdm =
     (let (ok, bs, r) = generateRandom (cx_rand cx) n (sdm_rng sdm) in (ok, bs, sdm\<lparr>sdm_rng := r\<rparr>))"

definition initObject :: "('c, 'd, 'r) crypto \<Rightarrow> ('c, 'r) sdm \<Rightarrow> ('c, 'r) sdm" where
  "initObject cx sdm =
     (let (_, m, sdm) = sdm_random cx 32 sdm
      in sdm\<lparr>sdm_aes := SymmetricAlgorithm_new, sdm_mask := m, soLoggedIn := False, userLoggedIn := False\<rparr>)"

definition sdm_blank :: "'r \<Rightarrow> ('c, 'r) sdm" where
  "sdm_blank r =
     \<lparr>userEncryptedKey = [], soEncryptedKey = [], soLoggedIn = False, userLoggedIn = False,
      maskedKey = [], sdm_mask = [], sdm_rng = r, sdm_aes = SymmetricAlgorithm_new\<rparr>"

definition SecureDataManager_new :: "('c, 'd, 'r) crypto \<Rightarrow> 'r \<Rightarrow> ('c, 'r) sdm" where
  "SecureDataManager_new cx r = initObject cx (sdm_blank r)"

definition SecureDataManager_blobs :: "('c, 'd, 'r) crypto \<Rightarrow> 'r \<Rightarrow> bytes \<Rightarrow> bytes \<Rightarrow> ('c, 'r) sdm" where
  "SecureDataManager_blobs cx r soPINBlob userPINBlob =
     (initObject cx (sdm_blank r))\<lparr>soEncryptedKey := soPINBlob, userEncryptedKey := userPINBlob\<rparr>"

definition unmask :: "('c, 'r) sdm \<Rightarrow> bytes" where
  "unmask sdm = xor_assign (maskedKey sdm) (sdm_mask sdm)"

definition remask :: "('c, 'd, 'r) crypto \<Rightarrow> bytes \<Rightarrow> ('c, 'r) sdm \<Rightarrow> ('c, 'r) sdm" where
  "remask cx key sdm =
     (let (_, m, sdm) = sdm_random cx 32 sdm
      in sdm\<lparr>sdm_mask := m, maskedKey := xor_assign key m\<rparr>)"

abbreviation aes_block :: nat where
  "aes_block \<equiv> getBlockSize OSSLAES"

text \<open>
  \<open>pbeEncryptKey\<close>: the result flag, the new contents of the blob, and the manager. The
  blob is salt, IV and the encryption of magic and key; it is overwritten as the function
  goes, so a late failure leaves a part of it.
\<close>

definition pbeEncryptKey ::
  "('c, 'd, 'r) crypto \<Rightarrow> bytes \<Rightarrow> bytes \<Rightarrow> ('c, 'r) sdm \<Rightarrow> bool \<times> bytes \<times> ('c, 'r) sdm" where
  "pbeEncryptKey cx passphrase encryptedKey sdm0 =
     (let (ok, salt, sdm) = sdm_random cx 8 sdm0
      in if \<not> ok then (False, encryptedKey, sdm)
         else
           case PBEDeriveKey cx passphrase salt of
             None \<Rightarrow> (False, encryptedKey, sdm)
           | Some pbeKey \<Rightarrow>
               (let enc = bs_append (wipe encryptedKey 0) salt;
                    (ok, IV, sdm) = sdm_random cx aes_block sdm
                in if \<not> ok then (False, enc, sdm)
                   else
                     (let enc = bs_append enc IV;
                          (ok, aes) = encryptInit (cx_evp cx) OSSLAES (Some pbeKey) SymMode_CBC IV True 0 [] 0 (sdm_aes sdm);
                          sdm = sdm\<lparr>sdm_aes := aes\<rparr>
                      in if \<not> ok then (False, enc, sdm)
                         else
                           (let (ok, block, aes) = encryptUpdate (cx_evp cx) OSSLAES magic (sdm_aes sdm);
                                sdm = sdm\<lparr>sdm_aes := aes\<rparr>
                            in if \<not> ok then (False, enc, sdm)
                               else
                                 (let enc = bs_append enc block;
                                      key = unmask sdm;
                                      (rv, block, aes) = encryptUpdate (cx_evp cx) OSSLAES key (sdm_aes sdm);
                                      sdm = remask cx key (sdm\<lparr>sdm_aes := aes\<rparr>)
                                  in if \<not> rv then (False, enc, sdm)
                                     else
                                       (let enc = bs_append enc block;
                                            (ok, block, aes) = encryptFinal (cx_evp cx) (sdm_aes sdm);
                                            sdm = sdm\<lparr>sdm_aes := aes\<rparr>
                                        in if \<not> ok then (False, enc, sdm)
                                           else (True, bs_append enc block, sdm)))))))"

definition setSOPIN :: "('c, 'd, 'r) crypto \<Rightarrow> bytes \<Rightarrow> ('c, 'r) sdm \<Rightarrow> bool \<times> ('c, 'r) sdm" where
  "setSOPIN cx soPIN sdm0 =
     (if length soPIN = 0 then (False, sdm0)
      else if length (soEncryptedKey sdm0) > 0 \<and> \<not> soLoggedIn sdm0 then (False, sdm0)
      else
        (let sdm = (if length (soEncryptedKey sdm0) = 0
                    then (let (_, key, sdm) = sdm_random cx 32 sdm0 in remask cx key sdm)
                    else sdm0);
             (ok, blob, sdm) = pbeEncryptKey cx soPIN (soEncryptedKey sdm) sdm
         in (ok, sdm\<lparr>soEncryptedKey := blob\<rparr>)))"

definition setUserPIN :: "('c, 'd, 'r) crypto \<Rightarrow> bytes \<Rightarrow> ('c, 'r) sdm \<Rightarrow> bool \<times> ('c, 'r) sdm" where
  "setUserPIN cx userPIN sdm0 =
     (if \<not> soLoggedIn sdm0 \<and> \<not> userLoggedIn sdm0 then (False, sdm0)
      else if length userPIN = 0 then (False, sdm0)
      else (let (ok, blob, sdm) = pbeEncryptKey cx userPIN (userEncryptedKey sdm0) sdm0
            in (ok, sdm\<lparr>userEncryptedKey := blob\<rparr>)))"

definition sdm_logout :: "('c, 'r) sdm \<Rightarrow> ('c, 'r) sdm" where
  "sdm_logout sdm = sdm\<lparr>soLoggedIn := False, userLoggedIn := False, maskedKey := wipe (maskedKey sdm) 0\<rparr>"

text \<open>
  The part \<open>login\<close> and \<open>reAuthenticate\<close> have in common, in the same words: cut the blob,
  derive the key, decrypt, check the magic. The result is what follows the magic.
\<close>

definition open_blob :: "('c, 'd, 'r) crypto \<Rightarrow> bytes \<Rightarrow> bytes \<Rightarrow> ('c, 'r) sdm \<Rightarrow> bytes option \<times> ('c, 'r) sdm" where
  "open_blob cx passphrase encryptedKey sdm =
     (let salt = substr encryptedKey 0 8;
          IV = substr encryptedKey 8 aes_block;
          encryptedKeyData = substr_from encryptedKey (8 + aes_block)
      in case PBEDeriveKey cx passphrase salt of
           None \<Rightarrow> (None, sdm)
         | Some pbeKey \<Rightarrow>
             (let (dec, aes) = decrypt_message (cx_evp cx) OSSLAES pbeKey IV [encryptedKeyData] (sdm_aes sdm);
                  sdm = sdm\<lparr>sdm_aes := aes\<rparr>
              in case dec of
                   None \<Rightarrow> (None, sdm)
                 | Some decryptedKeyData \<Rightarrow>
                     if \<not> bs_eq (substr decryptedKeyData 0 3) magic then (None, sdm)
                     else (Some (substr_from decryptedKeyData 3), sdm)))"

definition sdm_login :: "('c, 'd, 'r) crypto \<Rightarrow> bytes \<Rightarrow> bytes \<Rightarrow> ('c, 'r) sdm \<Rightarrow> bool \<times> ('c, 'r) sdm" where
  "sdm_login cx passphrase encryptedKey sdm =
     (case open_blob cx passphrase encryptedKey (sdm_logout sdm) of
        (None, sdm) \<Rightarrow> (False, sdm)
      | (Some key, sdm) \<Rightarrow> (True, remask cx key sdm))"

definition sdm_loginSO :: "('c, 'd, 'r) crypto \<Rightarrow> bytes \<Rightarrow> ('c, 'r) sdm \<Rightarrow> bool \<times> ('c, 'r) sdm" where
  "sdm_loginSO cx soPIN sdm =
     (let (ok, sdm) = sdm_login cx soPIN (soEncryptedKey sdm) sdm in (ok, sdm\<lparr>soLoggedIn := ok\<rparr>))"

definition sdm_loginUser :: "('c, 'd, 'r) crypto \<Rightarrow> bytes \<Rightarrow> ('c, 'r) sdm \<Rightarrow> bool \<times> ('c, 'r) sdm" where
  "sdm_loginUser cx userPIN sdm =
     (let (ok, sdm) = sdm_login cx userPIN (userEncryptedKey sdm) sdm in (ok, sdm\<lparr>userLoggedIn := ok\<rparr>))"

definition sdm_reAuthenticate :: "('c, 'd, 'r) crypto \<Rightarrow> bytes \<Rightarrow> bytes \<Rightarrow> ('c, 'r) sdm \<Rightarrow> bool \<times> ('c, 'r) sdm" where
  "sdm_reAuthenticate cx passphrase encryptedKey sdm =
     (case open_blob cx passphrase encryptedKey sdm of
        (None, sdm) \<Rightarrow> (False, sdm)
      | (Some _, sdm) \<Rightarrow> (True, sdm))"

definition reAuthenticateSO :: "('c, 'd, 'r) crypto \<Rightarrow> bytes \<Rightarrow> ('c, 'r) sdm \<Rightarrow> bool \<times> ('c, 'r) sdm" where
  "reAuthenticateSO cx soPIN sdm = sdm_reAuthenticate cx soPIN (soEncryptedKey sdm) sdm"

definition reAuthenticateUser :: "('c, 'd, 'r) crypto \<Rightarrow> bytes \<Rightarrow> ('c, 'r) sdm \<Rightarrow> bool \<times> ('c, 'r) sdm" where
  "reAuthenticateUser cx userPIN sdm = sdm_reAuthenticate cx userPIN (userEncryptedKey sdm) sdm"

text \<open>The key is unmasked into an AES key object and masked again at once.\<close>

definition take_key :: "('c, 'd, 'r) crypto \<Rightarrow> ('c, 'r) sdm \<Rightarrow> symmetric_key \<times> ('c, 'r) sdm" where
  "take_key cx sdm =
     (let k = unmask sdm in (snd (setKeyBits (SymmetricKey_new 256) k), remask cx k sdm))"

definition sdm_decrypt :: "('c, 'd, 'r) crypto \<Rightarrow> bytes \<Rightarrow> ('c, 'r) sdm \<Rightarrow> bytes option \<times> ('c, 'r) sdm" where
  "sdm_decrypt cx encrypted sdm0 =
     (if (\<not> userLoggedIn sdm0 \<and> \<not> soLoggedIn sdm0) \<or> length (maskedKey sdm0) \<noteq> 32 then (None, sdm0)
      else if length encrypted = 0 then (Some (ByteString_hex ''''), sdm0)
      else
        (let (theKey, sdm) = take_key cx sdm0;
             IV = substr encrypted 0 aes_block
         in if length IV \<noteq> aes_block then (None, sdm)
            else (let (pt, aes) = decrypt_message (cx_evp cx) OSSLAES theKey IV [substr_from encrypted aes_block] (sdm_aes sdm)
                  in (pt, sdm\<lparr>sdm_aes := aes\<rparr>))))"

definition sdm_encrypt :: "('c, 'd, 'r) crypto \<Rightarrow> bytes \<Rightarrow> ('c, 'r) sdm \<Rightarrow> bytes option \<times> ('c, 'r) sdm" where
  "sdm_encrypt cx plaintext sdm0 =
     (if (\<not> userLoggedIn sdm0 \<and> \<not> soLoggedIn sdm0) \<or> length (maskedKey sdm0) \<noteq> 32 then (None, sdm0)
      else
        (let (theKey, sdm) = take_key cx sdm0;
             (ok, IV, sdm) = sdm_random cx aes_block sdm
         in if \<not> ok then (None, sdm)
            else (let (ct, aes) = encrypt_message (cx_evp cx) OSSLAES theKey IV [plaintext] (sdm_aes sdm)
                  in (map_option (\<lambda>c. bs_append IV c) ct, sdm\<lparr>sdm_aes := aes\<rparr>))))"

definition getSOPINBlob :: "('c, 'r) sdm \<Rightarrow> bytes" where
  "getSOPINBlob sdm = soEncryptedKey sdm"

definition getUserPINBlob :: "('c, 'r) sdm \<Rightarrow> bytes" where
  "getUserPINBlob sdm = userEncryptedKey sdm"

section \<open>What is relied on of the crypto library\<close>

definition crypto_ok :: "('c, 'd, 'r) crypto \<Rightarrow> (bytes \<Rightarrow> bytes) \<Rightarrow> bool" where
  "crypto_ok cx H \<longleftrightarrow> evp_cbc_ok (cx_evp cx) \<and> md_computes (cx_md cx) H \<and> (\<forall>x. length (H x) = 32)
     \<and> rand_sized (cx_rand cx)"

text \<open>The iterated and salted hash of RFC 4880.\<close>

definition iterated_hash :: "(bytes \<Rightarrow> bytes) \<Rightarrow> bytes \<Rightarrow> bytes \<Rightarrow> bytes" where
  "iterated_hash H password salt = (H ^^ (PBE_ITERATION_BASE_COUNT + unat (last salt))) (salt @ password)"

lemma pbe_loop_iterates:
  "md_computes md H \<Longrightarrow> hashOperation h = HASH_NONE \<Longrightarrow> pbe_loop md n h x = Some ((H ^^ n) x)"
proof (induction n arbitrary: h x)
  case (Suc n)
  then show ?case by (simp add: hash_message_computes [of md H] funpow_swap1)
qed simp

lemma PBEDeriveKey_eq:
  assumes "crypto_ok cx H" "8 \<le> length salt" "password \<noteq> []"
  shows "PBEDeriveKey cx password salt = Some \<lparr>keyData = iterated_hash H password salt, bitLen = 256\<rparr>"
proof -
  let ?n = "PBE_ITERATION_BASE_COUNT + unat (last salt)"
  have md: "md_computes (cx_md cx) H" and len: "\<And>x. length (H x) = 32"
    using assms(1) by (simp_all add: crypto_ok_def)
  have sl: "salt ! (length salt - 1) = last salt" using assms(2) by (metis last_conv_nth list.size(3) not_numeral_le_zero)
  have n: "?n = Suc (?n - 1)" by (simp add: PBE_ITERATION_BASE_COUNT_def)
  have it: "(H ^^ (?n - 1)) (H (salt @ password)) = iterated_hash H password salt"
    unfolding iterated_hash_def by (subst (2) n) (simp add: funpow_swap1)
  have "length (iterated_hash H password salt) = 32"
    unfolding iterated_hash_def by (subst n) (simp add: len)
  then show ?thesis
    using assms(2, 3) it sl
    by (simp add: PBEDeriveKey_def hash_message_computes [OF md] pbe_loop_iterates [OF md]
        HashAlgorithm_new_def setKeyBits_def SymmetricKey_new_def Let_def)
qed

section \<open>Masking\<close>

lemma unmask_simps [simp]:
  "unmask (s\<lparr>soLoggedIn := b\<rparr>) = unmask s" "unmask (s\<lparr>userLoggedIn := b\<rparr>) = unmask s"
  "unmask (s\<lparr>soEncryptedKey := x\<rparr>) = unmask s" "unmask (s\<lparr>userEncryptedKey := x\<rparr>) = unmask s"
  "unmask (s\<lparr>sdm_aes := a\<rparr>) = unmask s" "unmask (s\<lparr>sdm_rng := r\<rparr>) = unmask s"
  by (simp_all add: unmask_def)

lemma sdm_random_facts:
  assumes "sdm_random cx n sdm = (ok, bs, sdm')"
  shows "sdm' = sdm\<lparr>sdm_rng := sdm_rng sdm'\<rparr>" "rand_sized (cx_rand cx) \<Longrightarrow> length bs = n"
    "rand_succeeds (cx_rand cx) \<Longrightarrow> ok"
  using assms generateRandom_length [of "cx_rand cx" n "sdm_rng sdm"]
    generateRandom_succeeds [of "cx_rand cx" n "sdm_rng sdm"]
  by (auto simp: sdm_random_def split: prod.splits)

lemma remask_facts:
  "unmask (remask cx k sdm) = k" "length (maskedKey (remask cx k sdm)) = length k"
  "rand_sized (cx_rand cx) \<Longrightarrow> length (sdm_mask (remask cx k sdm)) = 32"
  "userEncryptedKey (remask cx k sdm) = userEncryptedKey sdm"
  "soEncryptedKey (remask cx k sdm) = soEncryptedKey sdm"
  "soLoggedIn (remask cx k sdm) = soLoggedIn sdm" "userLoggedIn (remask cx k sdm) = userLoggedIn sdm"
  "sdm_aes (remask cx k sdm) = sdm_aes sdm"
  using generateRandom_length [of "cx_rand cx" 32 "sdm_rng sdm"]
  by (auto simp: remask_def sdm_random_def unmask_def split: prod.splits)

definition sdm_inv :: "('c, 'r) sdm \<Rightarrow> bool" where
  "sdm_inv sdm \<longleftrightarrow> length (sdm_mask sdm) = 32 \<and> idle (sdm_aes sdm) \<and> ctx_inv (sdm_aes sdm)
     \<and> \<not> (soLoggedIn sdm \<and> userLoggedIn sdm)"

section \<open>Cipher runs end idle\<close>

text \<open>What a call leaves behind: the operation it belongs to, or none when it failed.\<close>

definition left_in :: "sym_operation \<Rightarrow> bool \<Rightarrow> 'c sym_alg \<Rightarrow> bool" where
  "left_in op ok a \<longleftrightarrow> ctx_inv a \<and> currentOperation a = (if ok then op else NONE)"

lemma init_left_in:
  "left_in NONE True a \<Longrightarrow> encryptInit evp cc k m iv p n aad t a = (ok, a') \<Longrightarrow> left_in ENCRYPT ok a'"
  "left_in NONE True a \<Longrightarrow> decryptInit evp cc k m iv p n aad t a = (ok, a') \<Longrightarrow> left_in DECRYPT ok a'"
  using encryptInit_result [of a evp cc k m iv p n aad t] decryptInit_result [of a evp cc k m iv p n aad t]
  by (auto simp: left_in_def ctx_inv_def split: bool.splits)

lemma update_left_in:
  "left_in ENCRYPT True a \<Longrightarrow> encryptUpdate evp cc d a = (ok, out, a') \<Longrightarrow> left_in ENCRYPT ok a'"
  "left_in DECRYPT True a \<Longrightarrow> decryptUpdate evp d a = (ok, out, a') \<Longrightarrow> left_in DECRYPT ok a'"
  using encryptUpdate_result [of a evp cc d] decryptUpdate_result [of a evp d]
  by (auto simp: left_in_def ctx_inv_def split: bool.splits)

lemma final_left_in:
  "left_in ENCRYPT True a \<Longrightarrow> encryptFinal evp a = (ok, out, a') \<Longrightarrow> left_in NONE True a'"
  "left_in DECRYPT True a \<Longrightarrow> decryptFinal evp a = (ok, out, a') \<Longrightarrow> left_in NONE True a'"
  using encryptFinal_result [of a evp] decryptFinal_result [of a evp]
  by (auto simp: left_in_def ctx_inv_def)

lemma left_in_failed: "left_in op False a \<longleftrightarrow> left_in NONE True a"
  by (simp add: left_in_def)

lemma update_all_left_in:
  assumes "\<And>d a ok out a'. left_in op True a \<Longrightarrow> upd d a = (ok, out, a') \<Longrightarrow> left_in op ok a'"
  shows "left_in op True a \<Longrightarrow> update_all upd ds a = (ok, out, a') \<Longrightarrow> left_in op ok a'"
proof (induction ds arbitrary: a out)
  case (Cons d ds)
  obtain ok1 o1 a1 where u: "upd d a = (ok1, o1, a1)" by (cases "upd d a")
  obtain ok2 o2 a2 where us: "update_all upd ds a1 = (ok2, o2, a2)" by (cases "update_all upd ds a1")
  from Cons.prems(2) u us have r: "ok = (ok1 \<and> ok2)" "a' = (if ok1 then a2 else a1)"
    by (cases ok1; auto simp: Let_def)+
  have "left_in op ok1 a1" using assms Cons.prems(1) u by blast
  moreover have "left_in op ok2 a2" if ok1
    using Cons.IH [of a1 o2] us \<open>left_in op ok1 a1\<close> that r by simp
  ultimately show ?case using r by (cases ok1) auto
qed simp

lemma decrypt_message_left_in:
  assumes "left_in NONE True a" "decrypt_message evp cc k iv cs a = (res, a')"
  shows "left_in NONE True a'"
proof -
  obtain ok1 a1 where i: "decryptInit evp cc (Some k) SymMode_CBC iv True 0 [] 0 a = (ok1, a1)"
    by (cases "decryptInit evp cc (Some k) SymMode_CBC iv True 0 [] 0 a")
  obtain ok2 o2 a2 where u: "update_all (decryptUpdate evp) cs a1 = (ok2, o2, a2)"
    by (cases "update_all (decryptUpdate evp) cs a1")
  obtain ok3 o3 a3 where f: "decryptFinal evp a2 = (ok3, o3, a3)" by (cases "decryptFinal evp a2")
  note l1 = init_left_in(2) [OF assms(1) i]
  show ?thesis
  proof (cases ok1)
    case True
    with l1 u have l2: "left_in DECRYPT ok2 a2"
      using update_all_left_in [of DECRYPT "decryptUpdate evp" a1 cs] update_left_in(2) by metis
    show ?thesis
      using assms(2) i u f True l2 final_left_in(2) [of a2 evp ok3 o3 a3]
      by (cases ok2) (auto simp: decrypt_message_def left_in_failed)
  next
    case False
    with assms(2) i l1 show ?thesis by (simp add: decrypt_message_def left_in_failed)
  qed
qed

lemma encrypt_message_left_in:
  assumes "left_in NONE True a" "encrypt_message evp cc k iv cs a = (res, a')"
  shows "left_in NONE True a'"
proof -
  obtain ok1 a1 where i: "encryptInit evp cc (Some k) SymMode_CBC iv True 0 [] 0 a = (ok1, a1)"
    by (cases "encryptInit evp cc (Some k) SymMode_CBC iv True 0 [] 0 a")
  obtain ok2 o2 a2 where u: "update_all (encryptUpdate evp cc) cs a1 = (ok2, o2, a2)"
    by (cases "update_all (encryptUpdate evp cc) cs a1")
  obtain ok3 o3 a3 where f: "encryptFinal evp a2 = (ok3, o3, a3)" by (cases "encryptFinal evp a2")
  note l1 = init_left_in(1) [OF assms(1) i]
  show ?thesis
  proof (cases ok1)
    case True
    with l1 u have l2: "left_in ENCRYPT ok2 a2"
      using update_all_left_in [of ENCRYPT "encryptUpdate evp cc" a1 cs] update_left_in(1) by metis
    show ?thesis
      using assms(2) i u f True l2 final_left_in(1) [of a2 evp ok3 o3 a3]
      by (cases ok2) (auto simp: encrypt_message_def left_in_failed)
  next
    case False
    with assms(2) i l1 show ?thesis by (simp add: encrypt_message_def left_in_failed)
  qed
qed

section \<open>Writing a key blob\<close>

text \<open>The master key, the blobs and the login state are as before; the mask may differ.\<close>

definition same_key :: "('c, 'r) sdm \<Rightarrow> ('c, 'r) sdm \<Rightarrow> bool" where
  "same_key a b \<longleftrightarrow> unmask b = unmask a \<and> length (maskedKey b) = length (maskedKey a)
     \<and> userEncryptedKey b = userEncryptedKey a \<and> soEncryptedKey b = soEncryptedKey a
     \<and> soLoggedIn b = soLoggedIn a \<and> userLoggedIn b = userLoggedIn a
     \<and> (length (sdm_mask a) = 32 \<longrightarrow> length (sdm_mask b) = 32)"

lemma same_key_refl [simp]: "same_key a a"
  by (simp add: same_key_def)

lemma same_key_trans: "same_key a b \<Longrightarrow> same_key b c \<Longrightarrow> same_key a c"
  by (simp add: same_key_def)

lemma same_key_aes [simp]: "same_key a (b\<lparr>sdm_aes := x\<rparr>) = same_key a b" "same_key (a\<lparr>sdm_aes := x\<rparr>) b = same_key a b"
  by (simp_all add: same_key_def unmask_def)

lemma same_key_random: "sdm_random cx n a = (ok, bs, b) \<Longrightarrow> same_key a b \<and> sdm_aes b = sdm_aes a"
  by (auto simp: sdm_random_def same_key_def unmask_def split: prod.splits)

lemma length_unmask [simp]: "length (unmask a) = length (maskedKey a)"
  by (simp add: unmask_def)

lemma same_key_remask: "rand_sized (cx_rand cx) \<Longrightarrow> same_key a (remask cx (unmask a) a)"
  by (simp add: same_key_def remask_facts)

text \<open>
  Interleaving the re-masking between the two updates does not matter to the cipher: the
  blob is salt, IV and one encrypted message of two chunks.
\<close>

definition blob_seals :: "('c, 'd, 'r) crypto \<Rightarrow> bytes \<Rightarrow> bytes \<Rightarrow> 'c sym_alg \<Rightarrow> bytes \<Rightarrow> bool" where
  "blob_seals cx pass key aes blob \<longleftrightarrow>
     (\<exists>salt IV k ct. length salt = 8 \<and> length IV = aes_block \<and> PBEDeriveKey cx pass salt = Some k
        \<and> fst (encrypt_message (cx_evp cx) OSSLAES k IV [magic, key] aes) = Some ct
        \<and> blob = salt @ IV @ ct)"

lemma pbeEncryptKey_steps:
  assumes "sdm_random cx 8 sdm = (True, salt, s1)" "PBEDeriveKey cx pass salt = Some k"
    and "sdm_random cx aes_block s1 = (True, IV, s2)"
    and "encryptInit (cx_evp cx) OSSLAES (Some k) SymMode_CBC IV True 0 [] 0 (sdm_aes sdm) = (i, a0)"
    and "encryptUpdate (cx_evp cx) OSSLAES magic a0 = (u, b1, a1)"
    and "encryptUpdate (cx_evp cx) OSSLAES (unmask sdm) a1 = (v, b2, a2)"
    and "encryptFinal (cx_evp cx) a2 = (w, b3, a3)"
  shows "pbeEncryptKey cx pass enc sdm =
      (if \<not> i then (False, salt @ IV, s2\<lparr>sdm_aes := a0\<rparr>)
       else if \<not> u then (False, salt @ IV, s2\<lparr>sdm_aes := a1\<rparr>)
       else if \<not> v then (False, salt @ IV @ b1, remask cx (unmask sdm) (s2\<lparr>sdm_aes := a2\<rparr>))
       else if \<not> w then (False, salt @ IV @ b1 @ b2, (remask cx (unmask sdm) (s2\<lparr>sdm_aes := a2\<rparr>))\<lparr>sdm_aes := a3\<rparr>)
       else (True, salt @ IV @ b1 @ b2 @ b3, (remask cx (unmask sdm) (s2\<lparr>sdm_aes := a2\<rparr>))\<lparr>sdm_aes := a3\<rparr>))"
proof -
  have "sdm_aes s2 = sdm_aes sdm" "unmask s2 = unmask sdm"
    using same_key_random [OF assms(1)] same_key_random [OF assms(3)] by (auto simp: same_key_def)
  with assms show ?thesis by (simp add: pbeEncryptKey_def remask_facts bs_append_def)
qed

lemma pbeEncryptKey_early:
  assumes "sdm_random cx 8 sdm = (r1, salt, s1)" "sdm_random cx aes_block s1 = (r2, IV, s2)"
    and "\<not> (r1 \<and> PBEDeriveKey cx pass salt \<noteq> None \<and> r2)"
  shows "\<not> fst (pbeEncryptKey cx pass enc sdm) \<and> snd (snd (pbeEncryptKey cx pass enc sdm)) \<in> {s1, s2}"
  using assms by (auto simp: pbeEncryptKey_def split: option.splits)

lemma pbeEncryptKey_sound:
  assumes "rand_sized (cx_rand cx)" "pbeEncryptKey cx pass enc sdm = (ok, blob, sdm')" "left_in NONE True (sdm_aes sdm)"
  shows "same_key sdm sdm' \<and> left_in NONE True (sdm_aes sdm') \<and> (ok \<longrightarrow> blob_seals cx pass (unmask sdm) (sdm_aes sdm) blob)"
proof -
  obtain r1 salt s1 where 1: "sdm_random cx 8 sdm = (r1, salt, s1)" by (cases "sdm_random cx 8 sdm")
  obtain r2 IV s2 where 2: "sdm_random cx aes_block s1 = (r2, IV, s2)" by (cases "sdm_random cx aes_block s1")
  note f1 = same_key_random [OF 1] and f2 = same_key_random [OF 2]
  then have k12: "same_key sdm s2" "sdm_aes s2 = sdm_aes sdm" "sdm_aes s1 = sdm_aes sdm"
    using same_key_trans by auto
  have len: "length salt = 8" "length IV = aes_block"
    using sdm_random_facts(2) [OF 1 assms(1)] sdm_random_facts(2) [OF 2 assms(1)] by simp_all
  show ?thesis
  proof (cases "r1 \<and> PBEDeriveKey cx pass salt \<noteq> None \<and> r2")
    case False
    with pbeEncryptKey_early [OF 1 2 False, of enc] assms(2, 3) f1 k12 show ?thesis by auto
  next
    case True
    then obtain k where k: "PBEDeriveKey cx pass salt = Some k" by blast
    obtain i a0 where 3: "encryptInit (cx_evp cx) OSSLAES (Some k) SymMode_CBC IV True 0 [] 0 (sdm_aes sdm) = (i, a0)"
      by (cases "encryptInit (cx_evp cx) OSSLAES (Some k) SymMode_CBC IV True 0 [] 0 (sdm_aes sdm)")
    obtain u b1 a1 where 4: "encryptUpdate (cx_evp cx) OSSLAES magic a0 = (u, b1, a1)"
      by (cases "encryptUpdate (cx_evp cx) OSSLAES magic a0")
    obtain v b2 a2 where 5: "encryptUpdate (cx_evp cx) OSSLAES (unmask sdm) a1 = (v, b2, a2)"
      by (cases "encryptUpdate (cx_evp cx) OSSLAES (unmask sdm) a1")
    obtain w b3 a3 where 6: "encryptFinal (cx_evp cx) a2 = (w, b3, a3)"
      by (cases "encryptFinal (cx_evp cx) a2")
    have t1: "sdm_random cx 8 sdm = (True, salt, s1)" and t2: "sdm_random cx aes_block s1 = (True, IV, s2)"
      using True 1 2 by auto
    note res = pbeEncryptKey_steps [OF t1 k t2 3 4 5 6, of enc]
    have um: "unmask s2 = unmask sdm" using k12(1) by (simp add: same_key_def)
    have rm: "same_key sdm (remask cx (unmask sdm) (s2\<lparr>sdm_aes := x\<rparr>))" for x
      using same_key_remask [OF assms(1), of "s2\<lparr>sdm_aes := x\<rparr>"] k12(1) same_key_trans by (simp add: um) blast
    note l3 = init_left_in(1) [OF assms(3) 3]
    have l4: "i \<Longrightarrow> left_in ENCRYPT u a1" using update_left_in(1) [OF _ 4] l3 by simp
    have l5: "i \<Longrightarrow> u \<Longrightarrow> left_in ENCRYPT v a2" using update_left_in(1) [OF _ 5] l4 by simp
    have l6: "i \<Longrightarrow> u \<Longrightarrow> v \<Longrightarrow> left_in NONE True a3" using final_left_in(1) [OF _ 6] l5 by simp
    have "same_key sdm sdm' \<and> left_in NONE True (sdm_aes sdm')"
      using assms(2) l3 l4 l5 l6 rm k12(1) unfolding res
      by (auto simp: left_in_failed remask_facts split: if_splits)
    moreover have "blob_seals cx pass (unmask sdm) (sdm_aes sdm) blob" if ok
    proof -
      have all: "i \<and> u \<and> v \<and> w \<and> blob = salt @ IV @ (b1 @ b2 @ b3)"
        using assms(2) that unfolding res by (auto split: if_splits)
      then have "fst (encrypt_message (cx_evp cx) OSSLAES k IV [magic, unmask sdm] (sdm_aes sdm)) = Some (b1 @ b2 @ b3)"
        by (simp add: encrypt_message_def 3 4 5 6)
      with all k len show ?thesis unfolding blob_seals_def by blast
    qed
    ultimately show ?thesis by blast
  qed
qed

section \<open>Opening a key blob\<close>

lemma derived_key_ok:
  assumes "crypto_ok cx H" "PBEDeriveKey cx pass salt = Some k"
  shows "aes_key_ok k"
proof -
  have "8 \<le> length salt" "pass \<noteq> []" using assms(2) by (auto simp: PBEDeriveKey_def split: if_splits)
  note eq = PBEDeriveKey_eq [OF assms(1) this]
  have "length (iterated_hash H pass salt) = 32"
    using assms(1) unfolding iterated_hash_def PBE_ITERATION_BASE_COUNT_def crypto_ok_def
    by (metis (no_types, lifting) add.commute add_Suc_right comp_apply funpow.simps(2) numeral_eq_Suc)
  with eq assms(2) show ?thesis by (auto simp: aes_key_ok_def)
qed

lemma magic_eq: "magic = [0x52, 0x4A, 0x52]"
  by (simp add: magic_def ByteString_hex_def strtoul16_def strtoul16_signed_def strtoul16_prefix_def
      hex_digit_val_def is_space_def Let_def)

lemma aes_block_16 [simp]: "aes_block = 16"
  by (simp add: OSSLAES_def)

lemma open_sealed:
  assumes "crypto_ok cx H" "blob_seals cx pass key aes blob" "idle aes" "left_in NONE True (sdm_aes sdm)"
  shows "\<exists>a. open_blob cx pass blob sdm = (Some key, sdm\<lparr>sdm_aes := a\<rparr>) \<and> left_in NONE True a"
proof -
  from assms(2) obtain salt IV k ct where b: "length salt = 8" "length IV = 16" "PBEDeriveKey cx pass salt = Some k"
    "fst (encrypt_message (cx_evp cx) OSSLAES k IV [magic, key] aes) = Some ct" "blob = salt @ IV @ ct"
    by (auto simp: blob_seals_def)
  have cbc: "evp_cbc_ok (cx_evp cx)" using assms(1) by (simp add: crypto_ok_def)
  have idle: "idle (sdm_aes sdm)" using assms(4) by (simp add: left_in_def)
  obtain a where a: "decrypt_message (cx_evp cx) OSSLAES k IV [ct] (sdm_aes sdm) = (Some (magic @ key), a)"
    using cbc_message_roundtrip [OF cbc derived_key_ok [OF assms(1) b(3)] b(2) assms(3), of "[magic, key]"] b(4) idle
    by (metis (no_types, lifting) append_Nil2 concat.simps fst_conv option.inject)
  have "left_in NONE True a" using decrypt_message_left_in [OF assms(4) a] .
  moreover have "open_blob cx pass blob sdm = (Some key, sdm\<lparr>sdm_aes := a\<rparr>)"
    using b a by (simp add: open_blob_def magic_eq)
  ultimately show ?thesis by blast
qed

lemma open_blob_keeps:
  assumes "open_blob cx pass blob sdm = (res, sdm')" "left_in NONE True (sdm_aes sdm)"
  shows "\<exists>a. sdm' = sdm\<lparr>sdm_aes := a\<rparr> \<and> left_in NONE True a"
proof (cases "PBEDeriveKey cx pass (substr blob 0 8)")
  case (Some k)
  obtain dec a where d: "decrypt_message (cx_evp cx) OSSLAES k (substr blob 8 aes_block)
      [substr_from blob (8 + aes_block)] (sdm_aes sdm) = (dec, a)"
    by (cases "decrypt_message (cx_evp cx) OSSLAES k (substr blob 8 aes_block)
      [substr_from blob (8 + aes_block)] (sdm_aes sdm)")
  from decrypt_message_left_in [OF assms(2) d] assms(1) Some d show ?thesis
    by (auto simp: open_blob_def Let_def split: option.splits if_splits)
next
  case None
  with assms show ?thesis by (intro exI [of _ "sdm_aes sdm"]) (simp add: open_blob_def)
qed

section \<open>Logging in and out\<close>

lemma sdm_inv_left_in: "sdm_inv sdm \<Longrightarrow> left_in NONE True (sdm_aes sdm)"
  by (simp add: sdm_inv_def left_in_def)

lemma sdm_inv_intro:
  "length (sdm_mask s) = 32 \<Longrightarrow> left_in NONE True (sdm_aes s) \<Longrightarrow> \<not> (soLoggedIn s \<and> userLoggedIn s) \<Longrightarrow> sdm_inv s"
  by (simp add: sdm_inv_def left_in_def)

lemma sdm_login_sealed:
  assumes "crypto_ok cx H" "blob_seals cx pass key aes blob" "idle aes" "sdm_inv sdm"
  shows "\<exists>s. sdm_login cx pass blob sdm = (True, s) \<and> unmask s = key \<and> \<not> soLoggedIn s \<and> \<not> userLoggedIn s
    \<and> length (sdm_mask s) = 32 \<and> left_in NONE True (sdm_aes s)
    \<and> soEncryptedKey s = soEncryptedKey sdm \<and> userEncryptedKey s = userEncryptedKey sdm"
proof -
  have r: "rand_sized (cx_rand cx)" using assms(1) by (simp add: crypto_ok_def)
  have "left_in NONE True (sdm_aes (sdm_logout sdm))"
    using sdm_inv_left_in [OF assms(4)] by (simp add: sdm_logout_def)
  from open_sealed [OF assms(1-3) this] obtain a where
    "open_blob cx pass blob (sdm_logout sdm) = (Some key, (sdm_logout sdm)\<lparr>sdm_aes := a\<rparr>)" "left_in NONE True a"
    by blast
  then show ?thesis by (simp add: sdm_login_def remask_facts r sdm_logout_def)
qed

lemma sdm_login_failed:
  assumes "sdm_login cx pass blob sdm = (False, s)" "sdm_inv sdm"
  shows "\<not> soLoggedIn s \<and> \<not> userLoggedIn s \<and> maskedKey s = [] \<and> sdm_inv s"
proof -
  have "left_in NONE True (sdm_aes (sdm_logout sdm))"
    using sdm_inv_left_in [OF assms(2)] by (simp add: sdm_logout_def)
  moreover obtain res where "open_blob cx pass blob (sdm_logout sdm) = (res, s)"
    using assms(1) by (auto simp: sdm_login_def split: prod.splits option.splits)
  ultimately obtain a where "s = (sdm_logout sdm)\<lparr>sdm_aes := a\<rparr>" "left_in NONE True a"
    using open_blob_keeps by blast
  with assms(2) show ?thesis by (simp add: sdm_inv_def left_in_def sdm_logout_def)
qed

text \<open>After setting a PIN the blob seals the master key; the rest of the state is as it was.\<close>

lemma setUserPIN_seals:
  assumes "crypto_ok cx H" "sdm_inv sdm" "setUserPIN cx pin sdm = (True, sdm')"
  shows "blob_seals cx pin (unmask sdm) (sdm_aes sdm) (userEncryptedKey sdm') \<and> unmask sdm' = unmask sdm
    \<and> soEncryptedKey sdm' = soEncryptedKey sdm \<and> soLoggedIn sdm' = soLoggedIn sdm
    \<and> userLoggedIn sdm' = userLoggedIn sdm \<and> sdm_inv sdm'"
proof -
  have r: "rand_sized (cx_rand cx)" using assms(1) by (simp add: crypto_ok_def)
  obtain blob s where p: "pbeEncryptKey cx pin (userEncryptedKey sdm) sdm = (True, blob, s)"
    and s: "sdm' = s\<lparr>userEncryptedKey := blob\<rparr>"
    using assms(3) by (auto simp: setUserPIN_def split: if_splits prod.splits)
  from pbeEncryptKey_sound [OF r p sdm_inv_left_in [OF assms(2)]] assms(2) show ?thesis
    by (auto simp: s same_key_def unmask_def sdm_inv_def left_in_def)
qed

lemma setSOPIN_seals:
  assumes "crypto_ok cx H" "sdm_inv sdm" "setSOPIN cx pin sdm = (True, sdm')"
  shows "\<exists>aes. idle aes \<and> blob_seals cx pin (unmask sdm') aes (soEncryptedKey sdm')"
    and "soEncryptedKey sdm = [] \<Longrightarrow> length (unmask sdm') = 32"
    and "soEncryptedKey sdm \<noteq> [] \<Longrightarrow> unmask sdm' = unmask sdm"
    and "sdm_inv sdm'" and "soLoggedIn sdm' = soLoggedIn sdm" and "userLoggedIn sdm' = userLoggedIn sdm"
    and "userEncryptedKey sdm' = userEncryptedKey sdm"
proof -
  have r: "rand_sized (cx_rand cx)" using assms(1) by (simp add: crypto_ok_def)
  define s0 where "s0 = (if length (soEncryptedKey sdm) = 0
    then (let (_, key, sdm) = sdm_random cx 32 sdm in remask cx key sdm) else sdm)"
  obtain blob s where p: "pbeEncryptKey cx pin (soEncryptedKey s0) s0 = (True, blob, s)"
    and s: "sdm' = s\<lparr>soEncryptedKey := blob\<rparr>"
    using assms(3) unfolding setSOPIN_def s0_def [symmetric] by (auto split: if_splits prod.splits)
  obtain ok key s1 where rd: "sdm_random cx 32 sdm = (ok, key, s1)" by (cases "sdm_random cx 32 sdm")
  have s0: "s0 = (if soEncryptedKey sdm = [] then remask cx key s1 else sdm)" by (simp add: s0_def rd)
  have f: "length key = 32" "same_key sdm s1" "sdm_aes s1 = sdm_aes sdm"
    using sdm_random_facts(2) [OF rd r] same_key_random [OF rd] by simp_all
  have inv: "sdm_inv s0" "soLoggedIn s0 = soLoggedIn sdm" "userLoggedIn s0 = userLoggedIn sdm"
    "userEncryptedKey s0 = userEncryptedKey sdm"
    "soEncryptedKey sdm = [] \<Longrightarrow> length (unmask s0) = 32" "soEncryptedKey sdm \<noteq> [] \<Longrightarrow> unmask s0 = unmask sdm"
    using f assms(2) by (auto simp: s0 sdm_inv_def remask_facts r same_key_def)
  note ps = pbeEncryptKey_sound [OF r p sdm_inv_left_in [OF inv(1)]]
  have um: "unmask sdm' = unmask s0" using ps by (simp add: s same_key_def unmask_def)
  then show "\<exists>aes. idle aes \<and> blob_seals cx pin (unmask sdm') aes (soEncryptedKey sdm')"
    using ps inv(1) by (auto simp: s sdm_inv_def)
  show "soEncryptedKey sdm = [] \<Longrightarrow> length (unmask sdm') = 32"
    "soEncryptedKey sdm \<noteq> [] \<Longrightarrow> unmask sdm' = unmask sdm" using inv(5, 6) by (auto simp: um)
  show "sdm_inv sdm'" "soLoggedIn sdm' = soLoggedIn sdm" "userLoggedIn sdm' = userLoggedIn sdm"
    "userEncryptedKey sdm' = userEncryptedKey sdm"
    using ps inv by (auto simp: s same_key_def sdm_inv_def left_in_def)
qed

section \<open>Encrypting attributes\<close>

abbreviation logged_in :: "('c, 'r) sdm \<Rightarrow> bool" where
  "logged_in sdm \<equiv> soLoggedIn sdm \<or> userLoggedIn sdm"

lemma take_key_eq:
  "length (maskedKey sdm) = 32 \<Longrightarrow> take_key cx sdm = (\<lparr>keyData = unmask sdm, bitLen = 256\<rparr>, remask cx (unmask sdm) sdm)"
  by (simp add: take_key_def setKeyBits_def SymmetricKey_new_def Let_def)

lemma sdm_encrypt_shape:
  assumes "rand_sized (cx_rand cx)" "sdm_inv sdm" "sdm_encrypt cx pt sdm = (res, sdm')"
  shows "same_key sdm sdm' \<and> sdm_inv sdm' \<and>
    (\<forall>ct. res = Some ct \<longrightarrow> logged_in sdm \<and> length (unmask sdm) = 32 \<and>
      (\<exists>IV c. length IV = 16 \<and> ct = IV @ c \<and>
        fst (encrypt_message (cx_evp cx) OSSLAES \<lparr>keyData = unmask sdm, bitLen = 256\<rparr> IV [pt] (sdm_aes sdm)) = Some c))"
proof (cases "logged_in sdm \<and> length (maskedKey sdm) = 32")
  case False
  with assms show ?thesis by (auto simp: sdm_encrypt_def)
next
  case True
  let ?s = "remask cx (unmask sdm) sdm"
  obtain ok IV s2 where r: "sdm_random cx 16 ?s = (ok, IV, s2)" by (cases "sdm_random cx 16 ?s")
  obtain c a where e: "encrypt_message (cx_evp cx) OSSLAES \<lparr>keyData = unmask sdm, bitLen = 256\<rparr> IV [pt] (sdm_aes sdm) = (c, a)"
    by (cases "encrypt_message (cx_evp cx) OSSLAES \<lparr>keyData = unmask sdm, bitLen = 256\<rparr> IV [pt] (sdm_aes sdm)")
  have k: "same_key sdm s2" "sdm_aes s2 = sdm_aes sdm"
    using same_key_random [OF r] same_key_trans [OF same_key_remask [OF assms(1), of sdm]] by (auto simp: remask_facts)
  have l: "left_in NONE True a" using encrypt_message_left_in [OF sdm_inv_left_in [OF assms(2)] e] .
  have "sdm_encrypt cx pt sdm =
    (if ok then (map_option (bs_append IV) c, s2\<lparr>sdm_aes := a\<rparr>) else (None, s2))"
    using True r e k by (auto simp: sdm_encrypt_def take_key_eq)
  moreover have "sdm_inv s2" "sdm_inv (s2\<lparr>sdm_aes := a\<rparr>)"
    using k l assms(2) by (auto simp: same_key_def sdm_inv_def left_in_def)
  ultimately show ?thesis
    using assms(3) True k e sdm_random_facts(2) [OF r assms(1)]
    by (auto simp: bs_append_def split: if_splits)
qed

lemma sdm_decrypt_sealed:
  assumes "crypto_ok cx H" "sdm_inv sdm" "logged_in sdm" "length (unmask sdm) = 32" "length IV = 16" "idle aes"
    and "fst (encrypt_message (cx_evp cx) OSSLAES \<lparr>keyData = unmask sdm, bitLen = 256\<rparr> IV [pt] aes) = Some c"
  shows "\<exists>sdm'. sdm_decrypt cx (IV @ c) sdm = (Some pt, sdm') \<and> same_key sdm sdm' \<and> sdm_inv sdm'"
proof -
  let ?s = "remask cx (unmask sdm) sdm" and ?k = "\<lparr>keyData = unmask sdm, bitLen = 256\<rparr>"
  have r: "rand_sized (cx_rand cx)" and cbc: "evp_cbc_ok (cx_evp cx)" using assms(1) by (simp_all add: crypto_ok_def)
  have "aes_key_ok ?k" using assms(4) by (simp add: aes_key_ok_def)
  moreover have "idle (sdm_aes sdm)" using assms(2) by (simp add: sdm_inv_def)
  ultimately obtain a where a: "decrypt_message (cx_evp cx) OSSLAES ?k IV [c] (sdm_aes sdm) = (Some pt, a)"
    using cbc_message_roundtrip [OF cbc _ assms(5, 6), of ?k "[pt]"] assms(7)
    by (metis (no_types, lifting) append_Nil2 concat.simps fst_conv option.inject)
  have "left_in NONE True a" using decrypt_message_left_in [OF sdm_inv_left_in [OF assms(2)] a] .
  moreover have "sdm_decrypt cx (IV @ c) sdm = (Some pt, ?s\<lparr>sdm_aes := a\<rparr>)"
    using assms(3-5) a by (simp add: sdm_decrypt_def take_key_eq remask_facts) auto
  ultimately show ?thesis
    using same_key_remask [OF r, of sdm] assms(2) by (auto simp: sdm_inv_def left_in_def same_key_def unmask_def)
qed

section \<open>Success\<close>

lemma encrypt_message_succeeds:
  assumes "evp_cbc_ok evp" "aes_key_ok k" "length IV = 16" "idle a"
  shows "\<exists>ct. fst (encrypt_message evp OSSLAES k IV ds a) = Some ct"
  using cbc_message_roundtrip [OF assms, of ds] by (metis fst_conv)

lemma pbeEncryptKey_succeeds:
  assumes "crypto_ok cx H" "rand_succeeds (cx_rand cx)" "pass \<noteq> []" "sdm_inv sdm"
  shows "fst (pbeEncryptKey cx pass enc sdm)"
proof -
  have r: "rand_sized (cx_rand cx)" and cbc: "evp_cbc_ok (cx_evp cx)" using assms(1) by (simp_all add: crypto_ok_def)
  obtain r1 salt s1 where 1: "sdm_random cx 8 sdm = (r1, salt, s1)" by (cases "sdm_random cx 8 sdm")
  obtain r2 IV s2 where 2: "sdm_random cx aes_block s1 = (r2, IV, s2)" by (cases "sdm_random cx aes_block s1")
  have ok: r1 r2 "length salt = 8" "length IV = 16"
    using sdm_random_facts [OF 1] sdm_random_facts [OF 2] assms(2) r by simp_all
  obtain k where k: "PBEDeriveKey cx pass salt = Some k"
    using PBEDeriveKey_eq [OF assms(1), of salt pass] ok assms(3) by simp
  obtain i a0 where 3: "encryptInit (cx_evp cx) OSSLAES (Some k) SymMode_CBC IV True 0 [] 0 (sdm_aes sdm) = (i, a0)"
    by (cases "encryptInit (cx_evp cx) OSSLAES (Some k) SymMode_CBC IV True 0 [] 0 (sdm_aes sdm)")
  obtain u b1 a1 where 4: "encryptUpdate (cx_evp cx) OSSLAES magic a0 = (u, b1, a1)"
    by (cases "encryptUpdate (cx_evp cx) OSSLAES magic a0")
  obtain v b2 a2 where 5: "encryptUpdate (cx_evp cx) OSSLAES (unmask sdm) a1 = (v, b2, a2)"
    by (cases "encryptUpdate (cx_evp cx) OSSLAES (unmask sdm) a1")
  obtain w b3 a3 where 6: "encryptFinal (cx_evp cx) a2 = (w, b3, a3)"
    by (cases "encryptFinal (cx_evp cx) a2")
  have "\<exists>ct. fst (encrypt_message (cx_evp cx) OSSLAES k IV [magic, unmask sdm] (sdm_aes sdm)) = Some ct"
    using assms(4) by (intro encrypt_message_succeeds cbc derived_key_ok [OF assms(1) k] ok) (simp add: sdm_inv_def)
  then have "i \<and> u \<and> v \<and> w" by (auto simp: encrypt_message_def 3 4 5 6 split: if_splits)
  moreover have "sdm_random cx 8 sdm = (True, salt, s1)" "sdm_random cx aes_block s1 = (True, IV, s2)"
    using 1 2 ok by auto
  ultimately show ?thesis using pbeEncryptKey_steps [OF _ k _ 3 4 5 6, of s1 s2 enc] by simp
qed

lemma sdm_inv_init: "rand_sized (cx_rand cx) \<Longrightarrow> sdm_inv (initObject cx s)"
  using sdm_random_facts(2) [of cx 32 s]
  by (auto simp: initObject_def sdm_inv_def SymmetricAlgorithm_new_def ctx_inv_def split: prod.splits)

lemma sdm_inv_constructors:
  "rand_sized (cx_rand cx) \<Longrightarrow> sdm_inv (SecureDataManager_new cx r)"
  "rand_sized (cx_rand cx) \<Longrightarrow> sdm_inv (SecureDataManager_blobs cx r b c)"
  using sdm_inv_init [of cx "sdm_blank r"]
  by (simp_all add: SecureDataManager_new_def SecureDataManager_blobs_def sdm_inv_def)

section \<open>Properties\<close>

text \<open>A concrete library: a copying cipher, a constant digest, zeros for random bytes.\<close>

definition const_md :: "unit evp_md" where
  "const_md = \<lparr>EVP_MD_CTX_new = Some (), EVP_DigestInit_ex = Some, EVP_DigestUpdate = \<lambda>c _. Some c,
     EVP_DigestFinal_ex = \<lambda>_. Some (replicate 32 7)\<rparr>"

definition sample_crypto :: "(unit, unit, unit) crypto" where
  "sample_crypto = \<lparr>cx_evp = copy_evp, cx_md = const_md, cx_rand = \<lambda>r n. (True, replicate n 5, r)\<rparr>"

lemma const_md_feed: "md_feed const_md c ds = Some c"
  by (induction ds) (simp_all add: const_md_def)

lemma sample_crypto_ok:
  "crypto_ok sample_crypto (\<lambda>_. replicate 32 7)" "rand_succeeds (cx_rand sample_crypto)"
  using copy_evp_cbc_ok
  by (simp_all add: crypto_ok_def sample_crypto_def md_computes_def const_md_feed rand_sized_def rand_succeeds_def)
    (simp add: const_md_def)

abbreviation sample_new :: "(unit, unit) sdm" where
  "sample_new \<equiv> SecureDataManager_new sample_crypto ()"

lemma sample_new_inv: "sdm_inv sample_new"
  using sample_crypto_ok(1) by (intro sdm_inv_constructors) (simp add: crypto_ok_def)

lemma sample_new_fields: "soEncryptedKey sample_new = []" "\<not> soLoggedIn sample_new" "\<not> userLoggedIn sample_new"
  by (auto simp: SecureDataManager_new_def initObject_def sdm_random_def sdm_blank_def split: prod.splits)

lemma sample_setSOPIN: "fst (setSOPIN sample_crypto [1, 2, 3, 4] sample_new)"
proof -
  let ?cx = sample_crypto
  obtain ok key s1 where rd: "sdm_random ?cx 32 sample_new = (ok, key, s1)" by (cases "sdm_random ?cx 32 sample_new")
  have r: "rand_sized (cx_rand ?cx)" using sample_crypto_ok(1) by (simp add: crypto_ok_def)
  have "sdm_inv (remask ?cx key s1)"
    using same_key_random [OF rd] sample_new_inv by (auto simp: sdm_inv_def remask_facts r same_key_def)
  then have p: "fst (pbeEncryptKey ?cx [1, 2, 3, 4] (soEncryptedKey (remask ?cx key s1)) (remask ?cx key s1))"
    by (intro pbeEncryptKey_succeeds [OF sample_crypto_ok]) simp_all
  have "fst (setSOPIN ?cx [1, 2, 3, 4] sample_new) =
    fst (pbeEncryptKey ?cx [1, 2, 3, 4] (soEncryptedKey (remask ?cx key s1)) (remask ?cx key s1))"
    by (simp add: setSOPIN_def sample_new_fields rd Let_def case_prod_unfold)
  with p show ?thesis by simp
qed

lemma sample_set:
  "setSOPIN sample_crypto [1, 2, 3, 4] sample_new = (True, snd (setSOPIN sample_crypto [1, 2, 3, 4] sample_new))"
  using sample_setSOPIN by (metis prod.collapse)

text \<open>
  the key derivation of RFC 4880 is the iterated and salted hash. For a salt of at
  least eight bytes and a password that is not empty, the derived AES key is the digest
  applied 1500 plus the last salt byte times, the first time to salt and password.
\<close>

theorem PBEDeriveKey_iterated:
  assumes "crypto_ok cx H" and "8 \<le> length salt" and "password \<noteq> []"
  shows "PBEDeriveKey cx password salt =
    Some \<lparr>keyData = (H ^^ (1500 + unat (last salt))) (salt @ password), bitLen = 256\<rparr>"
  using PBEDeriveKey_eq [OF assms] by (simp add: iterated_hash_def PBE_ITERATION_BASE_COUNT_def)

theorem PBEDeriveKey_iterated_witness:
  "PBEDeriveKey sample_crypto [1, 2, 3, 4] [0, 0, 0, 0, 0, 0, 0, 3] =
     Some \<lparr>keyData = ((\<lambda>_ :: bytes. replicate 32 7) ^^ (1500 + unat (3 :: byte))) [0, 0, 0, 0, 0, 0, 0, 3, 1, 2, 3, 4], bitLen = 256\<rparr>"
  using PBEDeriveKey_iterated [OF sample_crypto_ok(1), of "[0, 0, 0, 0, 0, 0, 0, 3]" "[1, 2, 3, 4]"] by simp

text \<open>
  A PIN that was set opens the token. When setting the SO PIN has succeeded, a login
  with it on any manager that carries the resulting blob, for example one built later from
  the stored blobs, succeeds, recovers the same master key, and logs in the SO only.
\<close>

theorem setSOPIN_then_login:
  assumes "crypto_ok cx H" and "sdm_inv sdm" and "setSOPIN cx pin sdm = (True, sdm')"
    and "sdm_inv s2" and "soEncryptedKey s2 = soEncryptedKey sdm'"
  shows "\<exists>s3. sdm_loginSO cx pin s2 = (True, s3) \<and> unmask s3 = unmask sdm'
    \<and> soLoggedIn s3 \<and> \<not> userLoggedIn s3 \<and> sdm_inv s3"
proof -
  obtain aes where "idle aes" "blob_seals cx pin (unmask sdm') aes (soEncryptedKey s2)"
    using setSOPIN_seals(1) [OF assms(1-3)] assms(5) by auto
  then obtain s where "sdm_login cx pin (soEncryptedKey s2) s2 = (True, s)" "unmask s = unmask sdm'"
    "\<not> userLoggedIn s" "length (sdm_mask s) = 32" "left_in NONE True (sdm_aes s)"
    using sdm_login_sealed [OF assms(1) _ _ assms(4)] by blast
  then show ?thesis by (auto simp: sdm_loginSO_def sdm_inv_def left_in_def unmask_def)
qed

theorem setSOPIN_then_login_witness:
  "\<exists>s3. sdm_loginSO sample_crypto [1, 2, 3, 4] (snd (setSOPIN sample_crypto [1, 2, 3, 4] sample_new)) = (True, s3)
     \<and> unmask s3 = unmask (snd (setSOPIN sample_crypto [1, 2, 3, 4] sample_new))"
  using setSOPIN_then_login [OF sample_crypto_ok(1) sample_new_inv sample_set
      setSOPIN_seals(4) [OF sample_crypto_ok(1) sample_new_inv sample_set] refl] by blast

text \<open>
  C27: both PINs open the same 32-byte master key. Start from a blank manager, set the SO
  PIN, log in as SO, set the user PIN. On any manager built from the two blobs, the SO
  login with the one PIN and the user login with the other both succeed and give the
  same key.
\<close>

theorem both_pins_open_same_key:
  assumes "crypto_ok cx H" and "sdm_inv s0" and "soEncryptedKey s0 = []"
    and "setSOPIN cx sopin s0 = (True, s1)" and "sdm_loginSO cx sopin s1 = (True, s2)"
    and "setUserPIN cx userpin s2 = (True, s3)"
    and "a = SecureDataManager_blobs cx r (getSOPINBlob s3) (getUserPINBlob s3)"
  shows "\<exists>so user. sdm_loginSO cx sopin a = (True, so) \<and> sdm_loginUser cx userpin a = (True, user)
    \<and> unmask so = unmask user \<and> length (unmask so) = 32"
proof -
  note seal1 = setSOPIN_seals [OF assms(1, 2, 4)]
  obtain aes where aes: "idle aes" "blob_seals cx sopin (unmask s1) aes (soEncryptedKey s1)" using seal1(1) by blast
  from sdm_login_sealed [OF assms(1) aes(2, 1) seal1(4)] assms(5)
  have s2: "unmask s2 = unmask s1" "sdm_inv s2" "soEncryptedKey s2 = soEncryptedKey s1"
    by (auto simp: sdm_loginSO_def sdm_inv_def left_in_def unmask_def)
  note seal2 = setUserPIN_seals [OF assms(1) s2(2) assms(6)]
  have a: "sdm_inv a" "soEncryptedKey a = soEncryptedKey s1" "userEncryptedKey a = userEncryptedKey s3"
    using assms(1, 7) seal2 s2(3) sdm_inv_constructors(2) [of cx r]
    by (auto simp: SecureDataManager_blobs_def getSOPINBlob_def getUserPINBlob_def crypto_ok_def)
  obtain so where "sdm_login cx sopin (soEncryptedKey a) a = (True, so)" "unmask so = unmask s1"
    using sdm_login_sealed [OF assms(1) _ aes(1) a(1)] aes(2) a(2) by metis
  moreover obtain user where "sdm_login cx userpin (userEncryptedKey a) a = (True, user)" "unmask user = unmask s2"
    using sdm_login_sealed [OF assms(1) _ _ a(1), of userpin "unmask s2" "sdm_aes s2" "userEncryptedKey a"]
      seal2 a(3) s2(2) by (auto simp: sdm_inv_def)
  ultimately show ?thesis
    using seal1(2) [OF assms(3)] s2(1) by (auto simp: sdm_loginSO_def sdm_loginUser_def simp del: length_unmask)
qed

theorem both_pins_open_same_key_witness:
  "\<exists>s2 s3 so user. sdm_loginSO sample_crypto [1, 2, 3, 4] (snd (setSOPIN sample_crypto [1, 2, 3, 4] sample_new)) = (True, s2)
     \<and> setUserPIN sample_crypto [9, 8, 7, 6] s2 = (True, s3)
     \<and> sdm_loginSO sample_crypto [1, 2, 3, 4] (SecureDataManager_blobs sample_crypto () (getSOPINBlob s3) (getUserPINBlob s3)) = (True, so)
     \<and> sdm_loginUser sample_crypto [9, 8, 7, 6] (SecureDataManager_blobs sample_crypto () (getSOPINBlob s3) (getUserPINBlob s3)) = (True, user)
     \<and> unmask so = unmask user"
proof -
  let ?cx = sample_crypto and ?s1 = "snd (setSOPIN sample_crypto [1, 2, 3, 4] sample_new)"
  note seal1 = setSOPIN_seals [OF sample_crypto_ok(1) sample_new_inv sample_set]
  obtain aes where aes: "idle aes" "blob_seals ?cx [1, 2, 3, 4] (unmask ?s1) aes (soEncryptedKey ?s1)" using seal1(1) by blast
  from sdm_login_sealed [OF sample_crypto_ok(1) aes(2, 1) seal1(4)] obtain s2 where
    s2: "sdm_loginSO ?cx [1, 2, 3, 4] ?s1 = (True, s2)" "sdm_inv s2" "soLoggedIn s2"
    by (auto simp: sdm_loginSO_def sdm_inv_def left_in_def)
  have "fst (setUserPIN ?cx [9, 8, 7, 6] s2)"
    using pbeEncryptKey_succeeds [OF sample_crypto_ok _ s2(2), of "[9, 8, 7, 6]" "userEncryptedKey s2"] s2(3)
    by (auto simp: setUserPIN_def split: prod.splits)
  then obtain s3 where s3: "setUserPIN ?cx [9, 8, 7, 6] s2 = (True, s3)" by (metis prod.collapse)
  from both_pins_open_same_key [OF sample_crypto_ok(1) sample_new_inv sample_new_fields(1) sample_set s2(1) s3 refl, of "()"]
    s2(1) s3 show ?thesis by blast
qed



text \<open>
  without a login the manager gives nothing away and changes nothing. When nobody is
  logged in, decryption and encryption fail, the user PIN cannot be set, and the SO PIN can
  be set only on a blank token; the state is untouched. After a login attempt that failed,
  nobody is logged in and the key is gone, even if somebody was logged in before.
\<close>

theorem sdm_locked_without_login:
  assumes "sdm_inv sdm"
  shows "(\<not> (soLoggedIn sdm \<or> userLoggedIn sdm) \<longrightarrow>
      sdm_decrypt cx x sdm = (None, sdm) \<and> sdm_encrypt cx x sdm = (None, sdm)
      \<and> setUserPIN cx pin sdm = (False, sdm)
      \<and> (soEncryptedKey sdm \<noteq> [] \<longrightarrow> setSOPIN cx pin sdm = (False, sdm)))
    \<and> (\<forall>s. sdm_loginSO cx pin sdm = (False, s) \<or> sdm_loginUser cx pin sdm = (False, s) \<longrightarrow>
      \<not> (soLoggedIn s \<or> userLoggedIn s) \<and> maskedKey s = [] \<and> sdm_inv s)"
proof (intro conjI allI impI)
  fix s assume "sdm_loginSO cx pin sdm = (False, s) \<or> sdm_loginUser cx pin sdm = (False, s)"
  then obtain blob t where t: "sdm_login cx pin blob sdm = (False, t)"
    and s: "s = t\<lparr>soLoggedIn := False\<rparr> \<or> s = t\<lparr>userLoggedIn := False\<rparr>"
    by (auto simp: sdm_loginSO_def sdm_loginUser_def split: prod.splits)
  from sdm_login_failed [OF t assms] s
  show "\<not> (soLoggedIn s \<or> userLoggedIn s)" "maskedKey s = []" "sdm_inv s"
    by (auto simp: sdm_inv_def)
qed (simp_all add: sdm_decrypt_def sdm_encrypt_def setUserPIN_def setSOPIN_def)

theorem sdm_locked_without_login_witness:
  "sdm_decrypt sample_crypto [1] sample_new = (None, sample_new) \<and>
   (\<exists>s. sdm_loginSO sample_crypto [] sample_new = (False, s) \<and> maskedKey s = [])"
proof -
  have "open_blob sample_crypto [] [] (sdm_logout sample_new) = (None, sdm_logout sample_new)"
    by (simp add: open_blob_def PBEDeriveKey_def)
  then have "\<exists>s. sdm_loginSO sample_crypto [] sample_new = (False, s)"
    by (simp add: sdm_loginSO_def sdm_login_def sample_new_fields)
  with sdm_locked_without_login [OF sample_new_inv, of sample_crypto "[1]" "[]"] sample_new_fields
  show ?thesis by blast
qed

end
