(* ===== verification/OS_Attributes.thy ===== *)
theory OS_Attributes
  imports Byte_String
begin

text \<open>
  \<^verbatim>\<open>src/lib/object_store/OSAttribute.cpp\<close>: the values that attributes have, and the
  interface that every stored object offers (\<^verbatim>\<open>OSObject.h\<close>), as the locale
  \<open>os_object\<close>. Session objects and object files are its two implementations. The laws say
  what a lookup returns after a set or a delete; the lemmas inside say what setting a
  whole template leaves behind.
\<close>

section \<open>Attribute values\<close>

text \<open>
  The C++ class keeps one field per kind and a tag; the constructors set the field of
  the tag and leave the others at false, zero or empty, which the getters of another kind
  return.
\<close>

datatype os_attribute =
    BOOL bool
  | ULONG ulong
  | BYTESTR bytes
  | MECHSET "ulong list"
  | ATTRMAP "(ulong \<times> os_attribute) list"

fun isBooleanAttribute :: "os_attribute \<Rightarrow> bool" where
  "isBooleanAttribute (BOOL _) = True"
| "isBooleanAttribute _ = False"

fun isUnsignedLongAttribute :: "os_attribute \<Rightarrow> bool" where
  "isUnsignedLongAttribute (ULONG _) = True"
| "isUnsignedLongAttribute _ = False"

fun isByteStringAttribute :: "os_attribute \<Rightarrow> bool" where
  "isByteStringAttribute (BYTESTR _) = True"
| "isByteStringAttribute _ = False"

fun isMechanismTypeSetAttribute :: "os_attribute \<Rightarrow> bool" where
  "isMechanismTypeSetAttribute (MECHSET _) = True"
| "isMechanismTypeSetAttribute _ = False"

fun isAttributeMapAttribute :: "os_attribute \<Rightarrow> bool" where
  "isAttributeMapAttribute (ATTRMAP _) = True"
| "isAttributeMapAttribute _ = False"

fun attr_getBooleanValue :: "os_attribute \<Rightarrow> bool" where
  "attr_getBooleanValue (BOOL b) = b"
| "attr_getBooleanValue _ = False"

fun attr_getUnsignedLongValue :: "os_attribute \<Rightarrow> ulong" where
  "attr_getUnsignedLongValue (ULONG n) = n"
| "attr_getUnsignedLongValue _ = 0"

fun attr_getByteStringValue :: "os_attribute \<Rightarrow> bytes" where
  "attr_getByteStringValue (BYTESTR b) = b"
| "attr_getByteStringValue _ = []"

fun attr_getMechanismTypeSetValue :: "os_attribute \<Rightarrow> ulong list" where
  "attr_getMechanismTypeSetValue (MECHSET s) = s"
| "attr_getMechanismTypeSetValue _ = []"

fun attr_getAttributeMapValue :: "os_attribute \<Rightarrow> (ulong \<times> os_attribute) list" where
  "attr_getAttributeMapValue (ATTRMAP m) = m"
| "attr_getAttributeMapValue _ = []"

text \<open>
  \<open>peekValue\<close> copies the value as it lies in memory: one byte for a \<^verbatim>\<open>bool\<close>, and the
  eight bytes of an \<^verbatim>\<open>unsigned long\<close> in the order of the host, least significant first
  on the little-endian platforms.
\<close>

definition host_ulong :: "ulong \<Rightarrow> bytes" where
  "host_ulong n = rev (ByteString_ulong n)"

fun peekValue :: "os_attribute \<Rightarrow> bytes option" where
  "peekValue (BOOL b) = Some [if b then 1 else 0]"
| "peekValue (ULONG n) = Some (host_ulong n)"
| "peekValue (BYTESTR b) = Some b"
| "peekValue (MECHSET s) = Some (concat (map host_ulong s))"
| "peekValue (ATTRMAP _) = None"

type_synonym attr_map = "(ulong, os_attribute) omap"

text \<open>The typed getters that every stored object shares: the default when the kind is wrong.\<close>

definition bool_of :: "os_attribute option \<Rightarrow> bool \<Rightarrow> bool" where
  "bool_of a val =
     (case a of
        None \<Rightarrow> val
      | Some attr \<Rightarrow> if isBooleanAttribute attr then attr_getBooleanValue attr else val)"

definition ulong_of :: "os_attribute option \<Rightarrow> ulong \<Rightarrow> ulong" where
  "ulong_of a val =
     (case a of
        None \<Rightarrow> val
      | Some attr \<Rightarrow> if isUnsignedLongAttribute attr then attr_getUnsignedLongValue attr else val)"

definition bytes_of :: "os_attribute option \<Rightarrow> bytes" where
  "bytes_of a =
     (case a of
        None \<Rightarrow> []
      | Some attr \<Rightarrow> if isByteStringAttribute attr then attr_getByteStringValue attr else [])"

definition attr_of :: "os_attribute option \<Rightarrow> os_attribute" where
  "attr_of a = (case a of None \<Rightarrow> ULONG 0 | Some attr \<Rightarrow> attr)"

text \<open>The key after \<open>type\<close> in a map, or \<^verbatim>\<open>CKA_CLASS\<close>, which is 0, at the end.\<close>

definition next_key :: "attr_map \<Rightarrow> ulong \<Rightarrow> ulong" where
  "next_key m type = (case filter (\<lambda>(k, _). type < k) m of [] \<Rightarrow> 0 | (k, _) # _ \<Rightarrow> k)"

lemma typed_getters [simp]:
  "bool_of (Some (BOOL b)) d = b" "ulong_of (Some (ULONG n)) e = n" "bytes_of (Some (BYTESTR s)) = s"
  "attr_of (Some a) = a" "bool_of None d = d" "ulong_of None e = e" "bytes_of None = []" "attr_of None = ULONG 0"
  by (simp_all add: bool_of_def ulong_of_def bytes_of_def attr_of_def)

section \<open>The interface of stored objects\<close>

locale os_object =
  fixes lookup :: "'o \<Rightarrow> ulong \<Rightarrow> os_attribute option"
    and set_attr :: "ulong \<Rightarrow> os_attribute \<Rightarrow> 'o \<Rightarrow> bool \<times> 'o"
    and delete_attr :: "ulong \<Rightarrow> 'o \<Rightarrow> bool \<times> 'o"
    and usable :: "'o \<Rightarrow> bool"
  assumes set_ok: "usable x \<Longrightarrow> fst (set_attr t v x) \<and> usable (snd (set_attr t v x))"
    and lookup_set: "usable x \<Longrightarrow> lookup (snd (set_attr t v x)) = (lookup x)(t \<mapsto> v)"
    and delete_ok: "usable x \<Longrightarrow> fst (delete_attr t x) = (lookup x t \<noteq> None) \<and> usable (snd (delete_attr t x))"
    and lookup_delete: "usable x \<Longrightarrow> lookup (snd (delete_attr t x)) = (lookup x)(t := None)"
begin

text \<open>Setting the attributes of a template one after the other.\<close>

fun set_all :: "(ulong \<times> os_attribute) list \<Rightarrow> 'o \<Rightarrow> bool \<times> 'o" where
  "set_all [] x = (True, x)"
| "set_all ((t, v) # as) x =
     (let (ok, x) = set_attr t v x in if ok then set_all as x else (False, x))"

lemma set_all_ok:
  "usable x \<Longrightarrow> fst (set_all as x) \<and> usable (snd (set_all as x)) \<and>
     lookup (snd (set_all as x)) = (lookup x) ++ map_of (rev as)"
proof (induction as arbitrary: x)
  case (Cons a as)
  obtain t v where a: "a = (t, v)" by (cases a)
  obtain x' where x': "set_attr t v x = (True, x')" "usable x'" "lookup x' = (lookup x)(t \<mapsto> v)"
    using set_ok [OF Cons.prems, of t v] lookup_set [OF Cons.prems, of t v]
    by (cases "set_attr t v x") auto
  with Cons.IH [OF x'(2)] show ?case
    by (simp add: a map_add_def fun_eq_iff split: option.split)
qed simp

lemma set_then_get: "usable x \<Longrightarrow> lookup (snd (set_attr t v x)) t = Some v"
  by (simp add: lookup_set)

lemma delete_then_get: "usable x \<Longrightarrow> lookup (snd (delete_attr t x)) t = None"
  by (simp add: lookup_delete)

end

section \<open>Walking over the attributes\<close>

text \<open>The attributes a walk from \<open>type\<close> meets, as \<^verbatim>\<open>nextAttributeType\<close> is used in a loop.\<close>

lemma next_key_zero: "omap_ok m \<Longrightarrow> next_key m type = 0 \<longleftrightarrow> (\<forall>k \<in> set (map fst m). k \<le> type)"
  by (auto simp: next_key_def filter_empty_conv split: list.splits)
    (metis (no_types, lifting) case_prodE filter_eq_ConsD fst_conv in_set_conv_decomp not_less word_not_simps(1))+

lemma next_key_least:
  assumes "omap_ok m" "k \<in> set (map fst m)" "type < k"
  shows "type < next_key m type \<and> next_key m type \<le> k \<and> next_key m type \<in> set (map fst m)"
proof -
  let ?f = "filter (\<lambda>(k, _). type < k) m"
  have ne: "?f \<noteq> []" using assms(2, 3) by (auto simp: filter_empty_conv)
  then obtain l v r where f: "?f = (l, v) # r" by (metis list.exhaust surj_pair)
  have ok: "omap_ok ?f" using assms(1) by (induction m) (auto simp: image_iff)
  have "(l, v) \<in> set ?f" by (simp add: f)
  then have l: "type < l" "l \<in> set (map fst m)" by (auto simp: image_iff intro: rev_bexI)
  have "k \<in> set (map fst ?f)" using assms(2, 3) by (auto simp: image_iff)
  then have "l \<le> k" using ok by (auto simp: f less_imp_le)
  with l f show ?thesis by (simp add: next_key_def)
qed

lemma next_key_greater: "next_key m type \<noteq> 0 \<Longrightarrow> type < next_key m type"
proof (cases "filter (\<lambda>(k, _). type < k) m")
  case (Cons p r)
  then have "p \<in> set (filter (\<lambda>(k, _). type < k) m)" by (simp only: list.set_intros)
  then have "type < fst p" by (auto split: prod.splits)
  with Cons show ?thesis by (simp add: next_key_def case_prod_unfold)
qed (simp add: next_key_def)

function walk :: "attr_map \<Rightarrow> ulong \<Rightarrow> ulong list" where
  "walk m type = (if next_key m type = 0 then [] else next_key m type # walk m (next_key m type))"
  by pat_completeness auto
termination
proof (relation "measure (\<lambda>(_, t). 2 ^ 64 - unat t)")
  fix m :: attr_map and t :: ulong
  assume "next_key m t \<noteq> 0"
  then have "unat t < unat (next_key m t)" using next_key_greater word_less_nat_alt by blast
  moreover have "unat (next_key m t) < 2 ^ 64" using unsigned_less [of "next_key m t", where 'a = nat] by simp
  ultimately show "((m, next_key m t), m, t) \<in> measure (\<lambda>(_, t). 2 ^ 64 - unat t)" by simp
qed simp

declare walk.simps [simp del]

lemma filter_split_first:
  "omap_ok m \<Longrightarrow> filter (\<lambda>(k, _). type < k) m = (l, v) # r \<Longrightarrow>
   filter (\<lambda>k. type < k) (map fst m) = l # filter (\<lambda>k. l < k) (map fst m)"
proof (induction m)
  case (Cons p m)
  obtain k w where p: "p = (k, w)" by (cases p)
  show ?case
  proof (cases "type < k")
    case True
    with Cons.prems p have "l = k" by simp
    moreover have "\<forall>k' \<in> set (map fst m). l < k'" using Cons.prems(1) p \<open>l = k\<close> by simp
    then have "filter (\<lambda>k. l < k) (map fst m) = map fst m" "filter (\<lambda>k. type < k) (map fst m) = map fst m"
      using True \<open>l = k\<close> by (fastforce intro!: filter_True)+
    ultimately show ?thesis using p True by simp
  next
    case False
    with Cons p have IH: "filter (\<lambda>k. type < k) (map fst m) = l # filter (\<lambda>k. l < k) (map fst m)" by simp
    then have "l \<in> set (filter (\<lambda>k. type < k) (map fst m))" by simp
    then have "l \<in> set (map fst m)" by simp
    then have "k < l" using Cons.prems(1) p by auto
    with IH p False show ?thesis by simp
  qed
qed simp

lemma walk_keys: "omap_ok m \<Longrightarrow> walk m type = filter (\<lambda>k. type < k) (map fst m)"
proof (induction m type rule: walk.induct)
  case (1 m type)
  show ?case
  proof (cases "next_key m type = 0")
    case True
    then have "\<forall>k \<in> set (map fst m). k \<le> type" using next_key_zero "1.prems" by blast
    then have "filter (\<lambda>k. type < k) (map fst m) = []" by (auto simp: filter_empty_conv)
    with True show ?thesis by (simp add: walk.simps)
  next
    case False
    then obtain l v r where f: "filter (\<lambda>(k, _). type < k) m = (l, v) # r"
      by (auto simp: next_key_def split: list.splits)
    then have "next_key m type = l" by (simp add: next_key_def)
    with False 1 filter_split_first [OF "1.prems" f] show ?thesis by (simp add: walk.simps)
  qed
qed

end
