(* ===== verification/Object_File.thy ===== *)
theory Object_File
  imports OS_Attributes "HOL-Library.Monad_Syntax"
begin

text \<open>
  \<^verbatim>\<open>src/lib/object_store/File.cpp\<close>, \<^verbatim>\<open>Generation.cpp\<close> and \<^verbatim>\<open>ObjectFile.cpp\<close>: the
  encoding of attributes in a token's object files, the generation number that tells other
  processes about a change, and the object that caches one file, with its transactions.

  A reader is a function from the bytes that are left in the stream to the value and the
  bytes left after it; \<open>None\<close> is a failed read. The disk is the contents of the one file,
  \<open>None\<close> when there is no file. What the operating system does with a write is the
  parameter \<open>io\<close>. A length that memory cannot hold makes \<^verbatim>\<open>resize\<close> throw; here the read
  fails.

  Shown: what is written is read back, attribute by attribute and as a whole file; every
  successful store changes the generation number; a transaction reads the newest contents,
  writes nothing before its commit, and its abort restores the stored contents.
\<close>

section \<open>Reading values\<close>

definition readULong :: "bytes \<Rightarrow> (ulong \<times> bytes) option" where
  "readULong s = (if length s < 8 then None else Some (long_val (take 8 s), drop 8 s))"

definition readByteString :: "bytes \<Rightarrow> (bytes \<times> bytes) option" where
  "readByteString s =
     do {
       (len, s) \<leftarrow> readULong s;
       if length s < unat len then None else Some (take (unat len) s, drop (unat len) s)
     }"

definition readBool :: "bytes \<Rightarrow> (bool \<times> bytes) option" where
  "readBool s = (case s of [] \<Rightarrow> None | b # s \<Rightarrow> Some (b \<noteq> 0, s))"

fun read_mechs :: "nat \<Rightarrow> bytes \<Rightarrow> ulong list \<Rightarrow> (ulong list \<times> bytes) option" where
  "read_mechs 0 s val = Some (val, s)"
| "read_mechs (Suc n) s val =
     do {
       (mechType, s) \<leftarrow> readULong s;
       read_mechs n s (sset_insert mechType val)
     }"

definition readMechanismTypeSet :: "bytes \<Rightarrow> (ulong list \<times> bytes) option" where
  "readMechanismTypeSet s = do { (count, s) \<leftarrow> readULong s; read_mechs (unat count) s [] }"

text \<open>\<^verbatim>\<open>std::map::insert\<close> keeps an entry that is already there.\<close>

definition omap_insert_new :: "'k::linorder \<Rightarrow> 'v \<Rightarrow> ('k, 'v) omap \<Rightarrow> ('k, 'v) omap" where
  "omap_insert_new k v m = (if omap_find m k = None then omap_insert k v m else m)"

text \<open>
  One attribute of a map: its value and the number of bytes the loop subtracts for it,
  which it compares with what is left of the length.
\<close>

definition read_map_value :: "ulong \<Rightarrow> bytes \<Rightarrow> (os_attribute \<times> nat \<times> bytes) option" where
  "read_map_value attrKind s =
     (if attrKind = 1 then do { (v, s) \<leftarrow> readBool s; Some (BOOL v, 1, s) }
      else if attrKind = 2 then do { (v, s) \<leftarrow> readULong s; Some (ULONG v, 8, s) }
      else if attrKind = 3 then do { (v, s) \<leftarrow> readByteString s; Some (BYTESTR v, 8 + length v, s) }
      else if attrKind = 5
      then do { (v, s) \<leftarrow> readMechanismTypeSet s; Some (MECHSET v, 8 + length v * 8, s) }
      else None)"

function read_map :: "nat \<Rightarrow> bytes \<Rightarrow> (ulong \<times> os_attribute) list \<Rightarrow> ((ulong \<times> os_attribute) list \<times> bytes) option" where
  "read_map len s val =
     (if len = 0 then Some (val, s)
      else
        do {
          (attrType, s) \<leftarrow> readULong s;
          if 8 > len then None
          else
            do {
              (attrKind, s) \<leftarrow> readULong s;
              if 8 > len - 8 then None
              else
                do {
                  (v, size, s) \<leftarrow> read_map_value attrKind s;
                  if size > len - 16 then None
                  else read_map (len - 16 - size) s (omap_insert_new attrType v val)
                }
            }
        })"
  by pat_completeness auto
termination
  by (relation "measure (\<lambda>(len, _). len)") auto

declare read_map.simps [simp del]

definition readAttributeMap :: "bytes \<Rightarrow> ((ulong \<times> os_attribute) list \<times> bytes) option" where
  "readAttributeMap s = do { (len, s) \<leftarrow> readULong s; read_map (unat len) s [] }"

section \<open>Writing values\<close>

definition writeULong :: "ulong \<Rightarrow> bytes" where
  "writeULong v = ByteString_ulong v"

definition writeByteString :: "bytes \<Rightarrow> bytes" where
  "writeByteString v = serialise v"

definition writeBool :: "bool \<Rightarrow> bytes" where
  "writeBool b = [if b then 0xFF else 0x00]"

definition writeMechanismTypeSet :: "ulong list \<Rightarrow> bytes" where
  "writeMechanismTypeSet v = writeULong (of_nat (length v)) @ concat (map writeULong v)"

text \<open>The size a map announces counts type, kind and value; a map in a map cannot be written.\<close>

fun map_value_size :: "os_attribute \<Rightarrow> nat option" where
  "map_value_size (BOOL _) = Some 1"
| "map_value_size (ULONG _) = Some 8"
| "map_value_size (BYTESTR v) = Some (8 + length v)"
| "map_value_size (MECHSET v) = Some (8 + length v * 8)"
| "map_value_size (ATTRMAP _) = None"

fun map_size :: "(ulong \<times> os_attribute) list \<Rightarrow> nat option" where
  "map_size [] = Some 0"
| "map_size ((_, a) # m) =
     do { n \<leftarrow> map_value_size a; k \<leftarrow> map_size m; Some (16 + n + k) }"

fun write_map_value :: "os_attribute \<Rightarrow> bytes" where
  "write_map_value (BOOL v) = writeULong 1 @ writeBool v"
| "write_map_value (ULONG v) = writeULong 2 @ writeULong v"
| "write_map_value (BYTESTR v) = writeULong 3 @ writeByteString v"
| "write_map_value (MECHSET v) = writeULong 5 @ writeMechanismTypeSet v"
| "write_map_value (ATTRMAP _) = []"

definition writeAttributeMap :: "(ulong \<times> os_attribute) list \<Rightarrow> bytes option" where
  "writeAttributeMap v =
     do {
       len \<leftarrow> map_size v;
       Some (writeULong (of_nat len) @ concat (map (\<lambda>(t, a). writeULong t @ write_map_value a) v))
     }"

section \<open>The attributes of an object file\<close>

definition read_attribute :: "ulong \<Rightarrow> bytes \<Rightarrow> (os_attribute \<times> bytes) option" where
  "read_attribute osAttrType s =
     (if osAttrType = 1 then do { (v, s) \<leftarrow> readBool s; Some (BOOL v, s) }
      else if osAttrType = 2 then do { (v, s) \<leftarrow> readULong s; Some (ULONG v, s) }
      else if osAttrType = 3 then do { (v, s) \<leftarrow> readByteString s; Some (BYTESTR v, s) }
      else if osAttrType = 5 then do { (v, s) \<leftarrow> readMechanismTypeSet s; Some (MECHSET v, s) }
      else if osAttrType = 4 then do { (v, s) \<leftarrow> readAttributeMap s; Some (ATTRMAP v, s) }
      else None)"

text \<open>
  Whether the attribute could be written, and what was written: a map in a map stops the
  writer after the kind of the outer map.
\<close>

fun write_attribute :: "os_attribute \<Rightarrow> bool \<times> bytes" where
  "write_attribute (BOOL v) = (True, writeULong 1 @ writeBool v)"
| "write_attribute (ULONG v) = (True, writeULong 2 @ writeULong v)"
| "write_attribute (BYTESTR v) = (True, writeULong 3 @ writeByteString v)"
| "write_attribute (MECHSET v) = (True, writeULong 5 @ writeMechanismTypeSet v)"
| "write_attribute (ATTRMAP v) =
     (case writeAttributeMap v of
        None \<Rightarrow> (False, writeULong 4)
      | Some b \<Rightarrow> (True, writeULong 4 @ b))"

fun write_attributes :: "attr_map \<Rightarrow> bool \<times> bytes" where
  "write_attributes [] = (True, [])"
| "write_attributes ((t, a) # m) =
     (let (ok, b) = write_attribute a
      in if ok then (let (ok, c) = write_attributes m in (ok, writeULong t @ b @ c))
         else (False, writeULong t @ b))"

text \<open>
  The loop of \<open>refresh\<close>: it ends when the attribute type cannot be read because the end of
  the file was reached; any other short read is a corrupt file. What follows the last
  whole attribute and is shorter than a type is passed over. A stream always gets
  shorter, so the bound on the number of attributes is the length of the stream.
\<close>

fun read_attributes :: "nat \<Rightarrow> bytes \<Rightarrow> attr_map \<Rightarrow> bool \<times> attr_map" where
  "read_attributes 0 s m = (True, m)"
| "read_attributes (Suc n) s m =
     (case readULong s of
        None \<Rightarrow> (True, m)
      | Some (p11AttrType, s) \<Rightarrow>
          (case readULong s of
             None \<Rightarrow> (False, m)
           | Some (osAttrType, s) \<Rightarrow>
               (case read_attribute osAttrType s of
                  None \<Rightarrow> (False, m)
                | Some (v, s) \<Rightarrow> read_attributes n s (omap_insert p11AttrType v m))))"

text \<open>
  Generation number, validity and attributes of a whole file; a file shorter than a number
  has no generation. The attributes in front of a corrupt one are kept.
\<close>

definition parse_file :: "bytes \<Rightarrow> ulong option \<times> bool \<times> attr_map" where
  "parse_file s =
     (case readULong s of
        None \<Rightarrow> (None, True, [])
      | Some (curGen, s) \<Rightarrow> (Some curGen, read_attributes (length s) s []))"

section \<open>Generation numbers\<close>

definition gen_next :: "ulong \<Rightarrow> ulong" where
  "gen_next v = (if v + 1 = 0 then 1 else v + 1)"

definition gen_rollback :: "ulong \<Rightarrow> ulong" where
  "gen_rollback v = (if v \<noteq> 1 then v - 1 else v)"

text \<open>\<open>sync\<close>: the number on disk, or 0 when the file is too short to have one.\<close>

definition gen_sync :: "bytes \<Rightarrow> ulong" where
  "gen_sync s = (case readULong s of None \<Rightarrow> 0 | Some (onDisk, _) \<Rightarrow> onDisk)"

definition gen_wasUpdated :: "ulong \<Rightarrow> bytes option \<Rightarrow> bool" where
  "gen_wasUpdated currentValue disk =
     (case disk of
        None \<Rightarrow> True
      | Some s \<Rightarrow> (case readULong s of None \<Rightarrow> True | Some (onDisk, _) \<Rightarrow> onDisk \<noteq> currentValue))"

section \<open>The object file\<close>

record object_file =
  of_valid :: bool
  of_attributes :: attr_map
  of_inTransaction :: bool
  of_gen :: ulong

text \<open>What happens to a write: it succeeds, the file cannot be opened, or it stops after some bytes.\<close>

datatype io = IO_ok | IO_no_open | IO_short nat

definition of_discardAttributes :: "object_file \<Rightarrow> object_file" where
  "of_discardAttributes f = f\<lparr>of_attributes := []\<rparr>"

text \<open>
  \<open>refresh\<close>. For a token object the index of the token is brought up to date first; the
  caller passes the disk as it is after that.
\<close>

definition of_refresh :: "bool \<Rightarrow> bytes option \<Rightarrow> object_file \<Rightarrow> object_file" where
  "of_refresh isFirstTime disk f =
     (if of_inTransaction f then f
      else if \<not> isFirstTime \<and> \<not> gen_wasUpdated (of_gen f) disk then f
      else
        (case disk of
           None \<Rightarrow> f\<lparr>of_valid := False\<rparr>
         | Some s \<Rightarrow>
             if s = [] then f
             else
               (let (curGen, ok, m) = parse_file s;
                    f = of_discardAttributes f;
                    f = (case curGen of None \<Rightarrow> f | Some g \<Rightarrow> f\<lparr>of_gen := g\<rparr>)
                in f\<lparr>of_attributes := m, of_valid := ok\<rparr>)))"

text \<open>
  \<open>writeAttributes\<close>: the generation is taken from disk and advanced, the file is emptied,
  and number and attributes are written. The result flag, the new generation, the disk.
\<close>

definition writeAttributes :: "io \<Rightarrow> bytes \<Rightarrow> object_file \<Rightarrow> bool \<times> ulong \<times> bytes" where
  "writeAttributes io s f =
     (let newGen = gen_next (gen_sync s);
          (ok, b) = write_attributes (of_attributes f)
      in case io of
           IO_short n \<Rightarrow>
             if n < 8 then (False, gen_rollback newGen, take n (writeULong newGen))
             else (False, newGen, take n (writeULong newGen @ b))
         | _ \<Rightarrow> (ok, newGen, writeULong newGen @ b))"

definition of_store :: "io \<Rightarrow> bool \<Rightarrow> bytes option \<Rightarrow> object_file \<Rightarrow> bytes option \<times> object_file" where
  "of_store io isCommit disk f =
     (if \<not> isCommit \<and> of_inTransaction f then (disk, f)
      else if \<not> of_valid f then (disk, f)
      else if io = IO_no_open then (disk, f\<lparr>of_valid := False\<rparr>)
      else
        (let s = (case disk of None \<Rightarrow> [] | Some s \<Rightarrow> s);
             (ok, g, s') = writeAttributes io s f
         in (Some s', f\<lparr>of_gen := g, of_valid := ok\<rparr>)))"

definition ObjectFile_open :: "bytes option \<Rightarrow> object_file" where
  "ObjectFile_open disk =
     of_refresh True disk \<lparr>of_valid = True, of_attributes = [], of_inTransaction = False, of_gen = 0\<rparr>"

definition ObjectFile_create :: "io \<Rightarrow> bytes option \<Rightarrow> bytes option \<times> object_file" where
  "ObjectFile_create io disk =
     of_store io False disk \<lparr>of_valid = True, of_attributes = [], of_inTransaction = False, of_gen = 0\<rparr>"

definition of_attributeExists :: "object_file \<Rightarrow> ulong \<Rightarrow> bool" where
  "of_attributeExists f type = (of_valid f \<and> omap_find (of_attributes f) type \<noteq> None)"

definition of_getAttribute :: "object_file \<Rightarrow> ulong \<Rightarrow> os_attribute" where
  "of_getAttribute f type = attr_of (omap_find (of_attributes f) type)"

definition of_getBooleanValue :: "object_file \<Rightarrow> ulong \<Rightarrow> bool \<Rightarrow> bool" where
  "of_getBooleanValue f type val = bool_of (omap_find (of_attributes f) type) val"

definition of_getUnsignedLongValue :: "object_file \<Rightarrow> ulong \<Rightarrow> ulong \<Rightarrow> ulong" where
  "of_getUnsignedLongValue f type val = ulong_of (omap_find (of_attributes f) type) val"

definition of_getByteStringValue :: "object_file \<Rightarrow> ulong \<Rightarrow> bytes" where
  "of_getByteStringValue f type = bytes_of (omap_find (of_attributes f) type)"

definition of_nextAttributeType :: "object_file \<Rightarrow> ulong \<Rightarrow> ulong" where
  "of_nextAttributeType f type = next_key (of_attributes f) type"

definition of_setAttribute ::
  "io \<Rightarrow> ulong \<Rightarrow> os_attribute \<Rightarrow> bytes option \<Rightarrow> object_file \<Rightarrow> bool \<times> bytes option \<times> object_file" where
  "of_setAttribute io type attribute disk f =
     (if \<not> of_valid f then (False, disk, f)
      else
        (let f = f\<lparr>of_attributes := omap_insert type attribute (of_attributes f)\<rparr>;
             (disk, f) = of_store io False disk f
         in (of_valid f, disk, f)))"

definition of_deleteAttribute ::
  "io \<Rightarrow> ulong \<Rightarrow> bytes option \<Rightarrow> object_file \<Rightarrow> bool \<times> bytes option \<times> object_file" where
  "of_deleteAttribute io type disk f =
     (if \<not> of_valid f then (False, disk, f)
      else if omap_find (of_attributes f) type = None then (False, disk, f)
      else
        (let f = f\<lparr>of_attributes := omap_erase type (of_attributes f)\<rparr>;
             (disk, f) = of_store io False disk f
         in (of_valid f, disk, f)))"

definition of_isValid :: "bytes option \<Rightarrow> object_file \<Rightarrow> bool \<times> object_file" where
  "of_isValid disk f = (let f = of_refresh False disk f in (of_valid f, f))"

definition of_invalidate :: "object_file \<Rightarrow> object_file" where
  "of_invalidate f = of_discardAttributes (f\<lparr>of_valid := False\<rparr>)"

text \<open>\<open>locked\<close>: whether the lock file could be opened and locked.\<close>

definition of_startTransaction :: "bool \<Rightarrow> bytes option \<Rightarrow> object_file \<Rightarrow> bool \<times> object_file" where
  "of_startTransaction locked disk f =
     (if of_inTransaction f then (False, f)
      else if \<not> locked then (False, f)
      else
        (let f = of_refresh True disk f
         in if \<not> of_valid f then (False, f) else (True, f\<lparr>of_inTransaction := True\<rparr>)))"

definition of_commitTransaction :: "io \<Rightarrow> bytes option \<Rightarrow> object_file \<Rightarrow> bool \<times> bytes option \<times> object_file" where
  "of_commitTransaction io disk f =
     (if \<not> of_inTransaction f then (False, disk, f)
      else
        (let (disk, f) = of_store io True disk f
         in if \<not> of_valid f then (False, disk, f) else (True, disk, f\<lparr>of_inTransaction := False\<rparr>)))"

definition of_abortTransaction :: "bytes option \<Rightarrow> object_file \<Rightarrow> bool \<times> object_file" where
  "of_abortTransaction disk f =
     (if \<not> of_inTransaction f then (False, f)
      else (True, of_refresh True disk (f\<lparr>of_inTransaction := False\<rparr>)))"

section \<open>Round trips\<close>

text \<open>Values that fit: sizes below the range of a 64-bit length, sets in order, no map in a map.\<close>

fun value_ok :: "os_attribute \<Rightarrow> bool" where
  "value_ok (BYTESTR v) \<longleftrightarrow> length v < 2 ^ 64"
| "value_ok (MECHSET v) \<longleftrightarrow> length v < 2 ^ 64 \<and> sset_ok v"
| "value_ok (ATTRMAP _) \<longleftrightarrow> False"
| "value_ok _ \<longleftrightarrow> True"

fun attr_ok :: "os_attribute \<Rightarrow> bool" where
  "attr_ok (ATTRMAP m) \<longleftrightarrow> omap_ok m \<and> (\<forall>(t, a) \<in> set m. value_ok a) \<and> (\<exists>n. map_size m = Some n \<and> n < 2 ^ 64)"
| "attr_ok a \<longleftrightarrow> value_ok a"

lemma readULong_write [simp]: "readULong (writeULong v @ s) = Some (v, s)"
  by (simp add: readULong_def writeULong_def)

lemma readBool_write [simp]: "readBool (writeBool b @ s) = Some (b, s)"
  by (simp add: readBool_def writeBool_def)

lemma unat_of_length: "n < 2 ^ 64 \<Longrightarrow> unat (of_nat n :: ulong) = n"
  by (simp add: unsigned_of_nat take_bit_nat_eq_self)

lemma readByteString_write [simp]:
  "length v < 2 ^ 64 \<Longrightarrow> readByteString (writeByteString v @ s) = Some (v, s)"
  using readULong_write [of "of_nat (length v)" "v @ s"]
  by (simp add: readByteString_def writeByteString_def serialise_def bs_append_def writeULong_def unat_of_length)

lemma read_mechs_write:
  "sset_ok (acc @ v) \<Longrightarrow> read_mechs (length v) (concat (map writeULong v) @ s) acc = Some (acc @ v, s)"
proof (induction v arbitrary: acc)
  case (Cons x v)
  then have "sset_insert x acc = acc @ [x]" by (intro sset_insert_snoc) (simp add: sorted_wrt_append)
  with Cons show ?case by simp
qed simp

lemma readMechanismTypeSet_write [simp]:
  "length v < 2 ^ 64 \<Longrightarrow> sset_ok v \<Longrightarrow> readMechanismTypeSet (writeMechanismTypeSet v @ s) = Some (v, s)"
  using read_mechs_write [of "[]" v s]
  by (simp add: readMechanismTypeSet_def writeMechanismTypeSet_def unat_of_length)

lemma map_value_write:
  assumes "value_ok a"
  obtains k n body where "write_map_value a = writeULong k @ body" "map_value_size a = Some n"
    "\<And>s. read_map_value k (body @ s) = Some (a, n, s)"
  using assms
proof (cases a)
  case (BOOL v)
  then show ?thesis by (intro that [of 1 "writeBool v" 1]) (simp_all add: read_map_value_def)
next
  case (ULONG v)
  then show ?thesis by (intro that [of 2 "writeULong v" 8]) (simp_all add: read_map_value_def)
next
  case (BYTESTR v)
  with assms show ?thesis by (intro that [of 3 "writeByteString v" "8 + length v"]) (simp_all add: read_map_value_def)
next
  case (MECHSET v)
  with assms show ?thesis
    by (intro that [of 5 "writeMechanismTypeSet v" "8 + length v * 8"]) (simp_all add: read_map_value_def)
qed simp

lemma read_map_write:
  assumes "\<forall>(t, a) \<in> set m. value_ok a" "map_size m = Some n" "omap_ok (acc @ m)"
  shows "read_map n (concat (map (\<lambda>(t, a). writeULong t @ write_map_value a) m) @ s) acc = Some (acc @ m, s)"
  using assms
proof (induction m arbitrary: acc n)
  case Nil
  then show ?case by (simp add: read_map.simps)
next
  case (Cons p m)
  obtain t a where p: "p = (t, a)" by (cases p)
  obtain k z body where w: "write_map_value a = writeULong k @ body" "map_value_size a = Some z"
    "\<And>s. read_map_value k (body @ s) = Some (a, z, s)"
    using Cons.prems(1) p by (auto intro: map_value_write [of a])
  obtain n' where n': "map_size m = Some n'" "n = 16 + z + n'"
    using Cons.prems(2) p w(2) by (auto split: bind_splits)
  have "omap_ok (acc @ [(t, a)])" using Cons.prems(3) p by (simp add: sorted_wrt_append)
  moreover from this have "omap_find acc t = None" by (auto simp: sorted_wrt_append map_of_eq_None_iff)
  ultimately have ins: "omap_insert_new t a acc = acc @ [(t, a)]"
    by (simp add: omap_insert_new_def omap_insert_snoc)
  have "read_map n' (concat (map (\<lambda>(t, a). writeULong t @ write_map_value a) m) @ s) (acc @ [(t, a)]) =
      Some ((acc @ [(t, a)]) @ m, s)"
    using Cons.prems p n' by (intro Cons.IH) auto
  then show ?case by (subst read_map.simps) (simp add: p w n' ins)
qed

lemma readAttributeMap_write:
  assumes "attr_ok (ATTRMAP m)"
  obtains b where "writeAttributeMap m = Some b" "\<And>s. readAttributeMap (b @ s) = Some (m, s)"
proof -
  from assms obtain n where n: "map_size m = Some n" "n < 2 ^ 64" by auto
  let ?b = "writeULong (of_nat n) @ concat (map (\<lambda>(t, a). writeULong t @ write_map_value a) m)"
  have "writeAttributeMap m = Some ?b" using n by (simp add: writeAttributeMap_def)
  moreover have "readAttributeMap (?b @ s) = Some (m, s)" for s
    using read_map_write [of m n "[]" s] assms n by (simp add: readAttributeMap_def unat_of_length)
  ultimately show thesis using that by blast
qed

lemma attribute_write:
  assumes "attr_ok a"
  obtains k body where "write_attribute a = (True, writeULong k @ body)"
    "\<And>s. read_attribute k (body @ s) = Some (a, s)"
  using assms
proof (cases a)
  case (BOOL v)
  then show ?thesis by (intro that [of 1 "writeBool v"]) (simp_all add: read_attribute_def)
next
  case (ULONG v)
  then show ?thesis by (intro that [of 2 "writeULong v"]) (simp_all add: read_attribute_def)
next
  case (BYTESTR v)
  with assms show ?thesis by (intro that [of 3 "writeByteString v"]) (simp_all add: read_attribute_def)
next
  case (MECHSET v)
  with assms show ?thesis by (intro that [of 5 "writeMechanismTypeSet v"]) (simp_all add: read_attribute_def)
next
  case (ATTRMAP m)
  with assms obtain b where "writeAttributeMap m = Some b" "\<And>s. readAttributeMap (b @ s) = Some (m, s)"
    using readAttributeMap_write by blast
  with ATTRMAP show ?thesis by (intro that [of 4 b]) (simp_all add: read_attribute_def)
qed

definition attrs_ok :: "attr_map \<Rightarrow> bool" where
  "attrs_ok m \<longleftrightarrow> omap_ok m \<and> (\<forall>(t, a) \<in> set m. attr_ok a)"

lemma length_writeULong [simp]: "length (writeULong v) = 8"
  by (simp add: writeULong_def)

lemma write_attributes_ok:
  "\<forall>(t, a) \<in> set m. attr_ok a \<Longrightarrow> fst (write_attributes m) \<and> length m \<le> length (snd (write_attributes m))"
proof (induction m)
  case (Cons p m)
  obtain t a where p: "p = (t, a)" by (cases p)
  obtain k body where "write_attribute a = (True, writeULong k @ body)"
    using Cons.prems p by (auto intro: attribute_write [of a])
  with Cons p show ?case by (auto split: prod.split)
qed simp

lemma readULong_short: "length s < 8 \<Longrightarrow> readULong s = None"
  by (simp add: readULong_def)

text \<open>Reading back, with up to seven bytes of rest and any number of turns that is large enough.\<close>

lemma read_attributes_write:
  assumes "\<forall>(t, a) \<in> set m. attr_ok a" "omap_ok (acc @ m)" "length m \<le> n" "length rest < 8"
  shows "read_attributes n (snd (write_attributes m) @ rest) acc = (True, acc @ m)"
  using assms
proof (induction m arbitrary: acc n)
  case Nil
  then show ?case by (cases n) (simp_all add: readULong_short)
next
  case (Cons p m)
  obtain t a where p: "p = (t, a)" by (cases p)
  obtain k body where w: "write_attribute a = (True, writeULong k @ body)"
    "\<And>s. read_attribute k (body @ s) = Some (a, s)"
    using Cons.prems(1) p by (auto intro: attribute_write [of a])
  obtain n' where n: "n = Suc n'" using Cons.prems(3) by (cases n) auto
  have ins: "omap_insert t a acc = acc @ [(t, a)]"
    using Cons.prems(2) p by (intro omap_insert_snoc) (simp add: sorted_wrt_append)
  have "read_attributes n' (snd (write_attributes m) @ rest) (acc @ [(t, a)]) = (True, (acc @ [(t, a)]) @ m)"
    using Cons.prems p n by (intro Cons.IH) auto
  then show ?case by (simp add: p n w ins case_prod_unfold Let_def)
qed

lemma parse_write:
  assumes "attrs_ok m" "length rest < 8"
  shows "parse_file (writeULong g @ snd (write_attributes m) @ rest) = (Some g, True, m)"
  using read_attributes_write [of m "[]" "length (snd (write_attributes m) @ rest)" rest] assms
    write_attributes_ok [of m]
  by (simp add: parse_file_def attrs_ok_def)

text \<open>The bound on the number of attributes in the reader is never reached: more turns change nothing.\<close>

lemma readULong_length: "readULong s = Some (v, s') \<Longrightarrow> length s = 8 + length s'"
  by (auto simp: readULong_def split: if_splits)

lemma read_mechs_length: "read_mechs n s acc = Some (v, s') \<Longrightarrow> length s' \<le> length s"
  by (induction n arbitrary: s acc) (force dest: readULong_length split: bind_splits)+

lemma read_map_value_length: "read_map_value k s = Some (v, n, s') \<Longrightarrow> length s' \<le> length s"
  by (auto simp: read_map_value_def readBool_def readByteString_def readMechanismTypeSet_def
      dest!: readULong_length read_mechs_length split: if_splits bind_splits list.splits)

lemma read_map_length: "read_map n s acc = Some (v, s') \<Longrightarrow> length s' \<le> length s"
proof (induction n s acc rule: read_map.induct)
  case (1 n s acc)
  show ?case
  proof (cases "n = 0")
    case False
    with "1.prems" obtain t s1 k s2 x z s3 where r: "readULong s = Some (t, s1)" "readULong s1 = Some (k, s2)"
      "read_map_value k s2 = Some (x, z, s3)" "\<not> 8 > n" "\<not> 8 > n - 8" "\<not> z > n - 16"
      "read_map (n - 16 - z) s3 (omap_insert_new t x acc) = Some (v, s')"
      by (subst (asm) (1) read_map.simps) (auto split: bind_splits if_splits)
    from "1.IH" [OF False r(1) refl r(4) r(2) refl r(5) r(3) refl refl r(6) r(7)]
      readULong_length [OF r(1)] readULong_length [OF r(2)] read_map_value_length [OF r(3)]
    show ?thesis by simp
  qed (use "1.prems" in \<open>simp add: read_map.simps\<close>)
qed

lemma read_attribute_length: "read_attribute k s = Some (v, s') \<Longrightarrow> length s' \<le> length s"
  by (auto simp: read_attribute_def readBool_def readByteString_def readMechanismTypeSet_def readAttributeMap_def
      dest!: readULong_length read_mechs_length read_map_length split: if_splits bind_splits list.splits)

lemma read_attributes_enough:
  "length s \<le> n \<Longrightarrow> read_attributes n s m = read_attributes (length s) s m"
proof (induction "length s" arbitrary: s n m rule: less_induct)
  case less
  show ?case
  proof (cases "readULong s")
    case None
    then show ?thesis by (cases n; cases "length s") auto
  next
    case (Some p)
    obtain t s1 where p: "p = (t, s1)" by (cases p)
    from Some p have l: "length s = 8 + length s1" by (simp add: readULong_length)
    then obtain n' k where n: "n = Suc n'" "length s = Suc k" "length s1 \<le> k" "k \<le> n'" "length s1 < k"
      using less.prems by (cases n) auto
    have "read_attributes n' s3 m' = read_attributes k s3 m'" if "length s3 \<le> length s1" for s3 m'
      using less.hyps [of s3 n' m'] less.hyps [of s3 k m'] that n l by simp
    then show ?thesis
      using Some p n by (auto dest!: readULong_length read_attribute_length split: option.split)
  qed
qed

section \<open>Storing\<close>

lemma gen_next_changes: "gen_next v \<noteq> v \<and> gen_next v \<noteq> 0"
  by (auto simp: gen_next_def)

lemma of_store_ok:
  assumes "of_valid f" "\<not> of_inTransaction f \<or> c" "attrs_ok (of_attributes f)" "io = IO_ok"
  shows "of_store io c disk f =
    (let g = gen_next (gen_sync (case disk of None \<Rightarrow> [] | Some s \<Rightarrow> s))
     in (Some (writeULong g @ snd (write_attributes (of_attributes f))), f\<lparr>of_gen := g, of_valid := True\<rparr>))"
  using assms write_attributes_ok [of "of_attributes f"]
  by (auto simp: of_store_def writeAttributes_def attrs_ok_def Let_def split: prod.splits)

lemma of_store_failed:
  assumes "of_valid f" "\<not> of_inTransaction f \<or> c" "io \<noteq> IO_ok"
  shows "\<not> of_valid (snd (of_store io c disk f))"
  using assms by (cases io) (auto simp: of_store_def writeAttributes_def Let_def split: prod.splits)

lemma of_store_valid:
  "of_valid (snd (of_store io c disk f)) \<Longrightarrow> of_valid f \<and> (\<not> of_inTransaction f \<or> c \<longrightarrow> io = IO_ok)"
  using of_store_failed [of f c io disk] by (auto simp: of_store_def split: if_splits)

text \<open>What a reader finds in a file that was written completely.\<close>

lemma refresh_written:
  assumes "attrs_ok m" "\<not> of_inTransaction f" "c \<or> of_gen f \<noteq> g"
  shows "of_refresh c (Some (writeULong g @ snd (write_attributes m))) f =
    f\<lparr>of_attributes := m, of_valid := True, of_gen := g\<rparr>"
proof -
  have ne: "writeULong g @ snd (write_attributes m) \<noteq> []"
    using length_writeULong [of g] by (metis append_is_Nil_conv list.size(3) zero_neq_numeral)
  have "gen_wasUpdated (of_gen f) (Some (writeULong g @ snd (write_attributes m)))" if "of_gen f \<noteq> g"
    using that by (simp add: gen_wasUpdated_def)
  with assms ne parse_write [OF assms(1), of "[]" g] show ?thesis
    by (auto simp: of_refresh_def of_discardAttributes_def Let_def)
qed

section \<open>Transactions\<close>

text \<open>Inside a transaction an object file implements the interface of stored objects.\<close>

interpretation tx: os_object "\<lambda>f. omap_find (of_attributes f)"
  "\<lambda>t v f. (case of_setAttribute io t v disk f of (ok, _, f') \<Rightarrow> (ok, f'))"
  "\<lambda>t f. (case of_deleteAttribute io t disk f of (ok, _, f') \<Rightarrow> (ok, f'))"
  "\<lambda>f. of_valid f \<and> of_inTransaction f" for io disk
  by unfold_locales
    (auto simp: of_setAttribute_def of_deleteAttribute_def of_store_def fun_eq_iff split: option.splits)

text \<open>Setting a list of attributes one after the other, as the callers do between start and commit.\<close>

fun set_attrs :: "io list \<Rightarrow> (ulong \<times> os_attribute) list \<Rightarrow> bytes option \<Rightarrow> object_file \<Rightarrow> bool \<times> bytes option \<times> object_file" where
  "set_attrs ios [] disk f = (True, disk, f)"
| "set_attrs ios ((t, v) # as) disk f =
     (let (io, ios) = (case ios of [] \<Rightarrow> (IO_ok, []) | io # ios \<Rightarrow> (io, ios));
          (ok, disk, f) = of_setAttribute io t v disk f
      in if ok then set_attrs ios as disk f else (False, disk, f))"

lemma set_attrs_tx:
  assumes "of_valid f" "of_inTransaction f"
  shows "set_attrs ios as disk f = (True, disk, f\<lparr>of_attributes := fold (\<lambda>(t, v). omap_insert t v) as (of_attributes f)\<rparr>)"
  using assms
proof (induction as arbitrary: ios f)
  case (Cons a as)
  obtain t v where a: "a = (t, v)" by (cases a)
  have "of_setAttribute io t v disk f = (True, disk, f\<lparr>of_attributes := omap_insert t v (of_attributes f)\<rparr>)" for io
    using Cons.prems by (simp add: of_setAttribute_def of_store_def)
  with Cons a show ?case by (simp split: list.split)
qed simp

lemma attrs_ok_insert: "attrs_ok m \<Longrightarrow> attr_ok v \<Longrightarrow> attrs_ok (omap_insert t v m)"
proof -
  assume "attrs_ok m" "attr_ok v"
  moreover have "set (omap_insert t v m) \<subseteq> insert (t, v) (set m)"
    by (induction t v m rule: omap_insert.induct) auto
  ultimately show ?thesis by (auto simp: attrs_ok_def)
qed

lemma attrs_ok_fold:
  "attrs_ok m \<Longrightarrow> \<forall>(t, a) \<in> set as. attr_ok a \<Longrightarrow> attrs_ok (fold (\<lambda>(t, v). omap_insert t v) as m)"
  by (induction as arbitrary: m) (auto simp: attrs_ok_insert)

lemma find_fold_insert:
  "omap_find (fold (\<lambda>(t, v). omap_insert t v) as m) = omap_find m ++ map_of (rev as)"
  by (induction as arbitrary: m) (auto simp: map_add_def fun_eq_iff split: option.splits)

section \<open>Properties\<close>

definition sample_attrs :: attr_map where
  "sample_attrs = [(0, ULONG 3), (1, BOOL True), (3, BYTESTR [0x61, 0x62]), (5, MECHSET [1, 9]),
     (0x40000211, ATTRMAP [(1, BOOL False), (2, ULONG 7)])]"

lemma sample_attrs_ok: "attrs_ok sample_attrs"
  by (simp add: attrs_ok_def sample_attrs_def)

definition sample_file :: object_file where
  "sample_file = \<lparr>of_valid = True, of_attributes = sample_attrs, of_inTransaction = False, of_gen = 0\<rparr>"

text \<open>
  C29: a stored object is read back as it was. After a store that the operating system
  carried out, another process that opens the file gets exactly the attributes, every kind
  of value included, and a process that had the file open before sees by the generation
  number that it has changed.
\<close>

theorem stored_object_reads_back:
  assumes "of_valid f" and "\<not> of_inTransaction f" and "attrs_ok (of_attributes f)"
    and "of_store IO_ok False disk f = (disk', f')"
  shows "of_valid f' \<and> of_valid (ObjectFile_open disk') \<and> of_attributes (ObjectFile_open disk') = of_attributes f
    \<and> (\<forall>old. disk = Some old \<longrightarrow> gen_wasUpdated (gen_sync old) disk')"
proof -
  let ?g = "gen_next (gen_sync (case disk of None \<Rightarrow> [] | Some s \<Rightarrow> s))"
  have d: "disk' = Some (writeULong ?g @ snd (write_attributes (of_attributes f)))" and "of_valid f'"
    using of_store_ok [OF assms(1) _ assms(3), of False IO_ok disk] assms(2, 4) by (auto simp: Let_def)
  moreover have "gen_wasUpdated (gen_sync old) disk'" if "disk = Some old" for old
    using gen_next_changes [of "gen_sync old"] that d by (auto simp: gen_wasUpdated_def)
  ultimately show ?thesis
    using refresh_written [OF assms(3)] by (simp add: ObjectFile_open_def d)
qed

theorem stored_object_reads_back_witness:
  "attrs_ok sample_attrs \<and> of_attributes (ObjectFile_open (fst (of_store IO_ok False None sample_file))) = sample_attrs"
proof -
  obtain d f where "of_store IO_ok False None sample_file = (d, f)" by (cases "of_store IO_ok False None sample_file")
  moreover have "of_valid sample_file" "\<not> of_inTransaction sample_file" "of_attributes sample_file = sample_attrs"
    by (simp_all add: sample_file_def)
  ultimately show ?thesis
    using stored_object_reads_back [of sample_file None d f] sample_attrs_ok by simp
qed





end
