(* ===== verification/OS_Token.thy ===== *)
theory OS_Token
  imports Object_File "HOL-Library.Char_ord" "HOL-Library.List_Lexorder"
begin

unbundle bit_operations_syntax

text \<open>
  \<^verbatim>\<open>src/lib/object_store/OSToken.cpp\<close>: a token on disk, a directory with the token object
  \<^verbatim>\<open>token.object\<close>, one file per object, the lock files and the generation file by which
  processes that share the token tell each other that the set of objects has changed.

  The directory is part of the state, as other processes see it. What the operating system
  answers to each write and to each lock, removal and listing is taken from two lists of
  answers, so that every failure the source handles is a run of the model; an exhausted
  list answers that all is well.

  Shown: what a transaction on the token object does to the disk when it succeeds and that
  it changes nothing when the file cannot be opened; the retry counters of the PIN policy
  move by the rules; the set of objects follows the directory.
\<close>

section \<open>Attributes of the token object\<close>

definition CKA_VENDOR_SOFTHSM :: ulong where
  "CKA_VENDOR_SOFTHSM = 0x80000000 + 0x5348"

definition CKA_OS_TOKENLABEL :: ulong where
  "CKA_OS_TOKENLABEL = CKA_VENDOR_SOFTHSM + 1"

definition CKA_OS_TOKENSERIAL :: ulong where
  "CKA_OS_TOKENSERIAL = CKA_VENDOR_SOFTHSM + 2"

definition CKA_OS_TOKENFLAGS :: ulong where
  "CKA_OS_TOKENFLAGS = CKA_VENDOR_SOFTHSM + 3"

definition CKA_OS_SOPIN :: ulong where
  "CKA_OS_SOPIN = CKA_VENDOR_SOFTHSM + 4"

definition CKA_OS_USERPIN :: ulong where
  "CKA_OS_USERPIN = CKA_VENDOR_SOFTHSM + 5"

definition CKA_OS_TOKENCREATED :: ulong where
  "CKA_OS_TOKENCREATED = CKA_VENDOR_SOFTHSM + 6"

definition CKA_OS_PINPOLICY :: ulong where
  "CKA_OS_PINPOLICY = CKA_VENDOR_SOFTHSM + 7"

definition CKA_OS_TOKENNAME :: ulong where
  "CKA_OS_TOKENNAME = CKA_VENDOR_SOFTHSM + 8"

definition CKA_OS_USERPINEXPIRED :: ulong where
  "CKA_OS_USERPINEXPIRED = CKA_VENDOR_SOFTHSM + 9"

definition CKA_OS_PINDEFAULT :: "ulong \<Rightarrow> ulong" where
  "CKA_OS_PINDEFAULT n = CKA_VENDOR_SOFTHSM + 0x200 + n"

definition CKA_OS_LICENSE :: "ulong \<Rightarrow> ulong" where
  "CKA_OS_LICENSE n = CKA_VENDOR_SOFTHSM + 0x20 + n"

definition CKA_OS_JOURNAL :: ulong where
  "CKA_OS_JOURNAL = CKA_VENDOR_SOFTHSM + 0x30"

definition CKA_OS_LOCALPIN :: "ulong \<Rightarrow> ulong" where
  "CKA_OS_LOCALPIN n = CKA_VENDOR_SOFTHSM + 0x100 + n"

lemmas cka_os_defs = CKA_VENDOR_SOFTHSM_def CKA_OS_TOKENLABEL_def CKA_OS_TOKENSERIAL_def CKA_OS_TOKENFLAGS_def
  CKA_OS_SOPIN_def CKA_OS_USERPIN_def CKA_OS_TOKENCREATED_def CKA_OS_PINPOLICY_def CKA_OS_TOKENNAME_def
  CKA_OS_USERPINEXPIRED_def CKA_OS_PINDEFAULT_def CKA_OS_LICENSE_def CKA_OS_JOURNAL_def CKA_OS_LOCALPIN_def

section \<open>Token flags\<close>

abbreviation (input) CKF_RNG :: ulong where "CKF_RNG \<equiv> 0x1"
abbreviation (input) CKF_LOGIN_REQUIRED :: ulong where "CKF_LOGIN_REQUIRED \<equiv> 0x4"
abbreviation (input) CKF_USER_PIN_INITIALIZED :: ulong where "CKF_USER_PIN_INITIALIZED \<equiv> 0x8"
abbreviation (input) CKF_RESTORE_KEY_NOT_NEEDED :: ulong where "CKF_RESTORE_KEY_NOT_NEEDED \<equiv> 0x20"
abbreviation (input) CKF_TOKEN_INITIALIZED :: ulong where "CKF_TOKEN_INITIALIZED \<equiv> 0x400"
abbreviation (input) CKF_USER_PIN_COUNT_LOW :: ulong where "CKF_USER_PIN_COUNT_LOW \<equiv> 0x10000"
abbreviation (input) CKF_USER_PIN_FINAL_TRY :: ulong where "CKF_USER_PIN_FINAL_TRY \<equiv> 0x20000"
abbreviation (input) CKF_USER_PIN_LOCKED :: ulong where "CKF_USER_PIN_LOCKED \<equiv> 0x40000"
abbreviation (input) CKF_USER_PIN_TO_BE_CHANGED :: ulong where "CKF_USER_PIN_TO_BE_CHANGED \<equiv> 0x80000"
abbreviation (input) CKF_SO_PIN_COUNT_LOW :: ulong where "CKF_SO_PIN_COUNT_LOW \<equiv> 0x100000"
abbreviation (input) CKF_SO_PIN_FINAL_TRY :: ulong where "CKF_SO_PIN_FINAL_TRY \<equiv> 0x200000"
abbreviation (input) CKF_SO_PIN_LOCKED :: ulong where "CKF_SO_PIN_LOCKED \<equiv> 0x400000"
abbreviation (input) CKF_SO_PIN_TO_BE_CHANGED :: ulong where "CKF_SO_PIN_TO_BE_CHANGED \<equiv> 0x800000"

section \<open>State\<close>

text \<open>
  Objects are known by address; the heap gives the file name and the cached object. The
  directory is the list of its files with their contents, or absent when it cannot be read.
\<close>

record os_token =
  ot_valid :: bool
  ot_tokenObject :: object_file
  ot_gen :: ulong
  ot_pendingUpdate :: bool
  ot_currentFiles :: "string list"
  ot_objects :: "addr list"
  ot_allObjects :: "addr list"
  ot_heap :: "addr \<rightharpoonup> string \<times> object_file"
  ot_next :: addr
  ot_dir :: "(string \<times> bytes) list option"
  ot_writes :: "io list"
  ot_answers :: "bool list"

definition dir_get :: "os_token \<Rightarrow> string \<Rightarrow> bytes option" where
  "dir_get t f = (case ot_dir t of None \<Rightarrow> None | Some fs \<Rightarrow> map_of fs f)"

definition dir_put :: "string \<Rightarrow> bytes option \<Rightarrow> os_token \<Rightarrow> os_token" where
  "dir_put f c t =
     (case (ot_dir t, c) of
        (Some fs, Some b) \<Rightarrow>
          if map_of fs f = Some b then t
          else t\<lparr>ot_dir := Some ((f, b) # filter (\<lambda>(g, _). g \<noteq> f) fs)\<rparr>
      | _ \<Rightarrow> t)"

definition next_write :: "os_token \<Rightarrow> io \<times> os_token" where
  "next_write t =
     (if ot_dir t = None then (IO_no_open, t)
      else case ot_writes t of [] \<Rightarrow> (IO_ok, t) | io # r \<Rightarrow> (io, t\<lparr>ot_writes := r\<rparr>))"

definition next_answer :: "os_token \<Rightarrow> bool \<times> os_token" where
  "next_answer t =
     (case ot_answers t of [] \<Rightarrow> (True, t) | a # r \<Rightarrow> (a, t\<lparr>ot_answers := r\<rparr>))"

text \<open>\<open>Directory::remove\<close>: the removal, and the listing that follows it.\<close>

definition dir_remove :: "string \<Rightarrow> os_token \<Rightarrow> bool \<times> os_token" where
  "dir_remove f t =
     (case ot_dir t of
        None \<Rightarrow> (False, t)
      | Some fs \<Rightarrow>
          if map_of fs f = None then (False, t)
          else
            (let (a, t) = next_answer t
             in if \<not> a then (False, t)
                else next_answer (t\<lparr>ot_dir := Some (filter (\<lambda>(g, _). g \<noteq> f) fs)\<rparr>)))"

text \<open>\<open>Directory::refresh\<close> and \<open>getFiles\<close>.\<close>

definition dir_list :: "os_token \<Rightarrow> string list option \<times> os_token" where
  "dir_list t =
     (case ot_dir t of
        None \<Rightarrow> (None, t)
      | Some fs \<Rightarrow> (let (a, t) = next_answer t in (if a then Some (map fst fs) else None, t)))"

section \<open>The generation file\<close>

definition tokengen_wasUpdated :: "os_token \<Rightarrow> bool \<times> os_token" where
  "tokengen_wasUpdated t =
     (case dir_get t ''generation'' of
        None \<Rightarrow> (True, t)
      | Some s \<Rightarrow>
          (case readULong s of
             None \<Rightarrow> (True, t)
           | Some (onDisk, _) \<Rightarrow>
               if onDisk \<noteq> ot_gen t then (True, t\<lparr>ot_gen := onDisk\<rparr>) else (False, t)))"

definition tokengen_update :: "os_token \<Rightarrow> os_token" where
  "tokengen_update t = t\<lparr>ot_pendingUpdate := True\<rparr>"

text \<open>
  \<open>commit\<close> overwrites the number in place. A write that fails leaves the number in memory
  as it was, except on an empty file, where the result of the write is not looked at.
\<close>

definition tokengen_commit :: "os_token \<Rightarrow> os_token" where
  "tokengen_commit t0 =
     (let (io, t) = next_write t0;
          s = (case dir_get t ''generation'' of None \<Rightarrow> [] | Some s \<Rightarrow> s)
      in if io = IO_no_open then t
         else if s = [] then
           (let g = gen_next (ot_gen t);
                t = t\<lparr>ot_gen := g, ot_pendingUpdate := False\<rparr>
            in dir_put ''generation'' (Some (case io of IO_short n \<Rightarrow> take n (writeULong g) | _ \<Rightarrow> writeULong g)) t)
         else
           (case readULong s of
              None \<Rightarrow> t
            | Some (onDisk, rest) \<Rightarrow>
                (let g = (if ot_pendingUpdate t then gen_next onDisk else onDisk)
                 in case io of
                      IO_short n \<Rightarrow> dir_put ''generation'' (Some (take n (writeULong g) @ drop (min n 8) s)) t
                    | _ \<Rightarrow> dir_put ''generation'' (Some (writeULong g @ rest)) (t\<lparr>ot_gen := g, ot_pendingUpdate := False\<rparr>))))"

section \<open>The index of the objects\<close>

definition ends_with :: "string \<Rightarrow> string \<Rightarrow> bool" where
  "ends_with suffix s \<longleftrightarrow> length suffix < length s \<and> drop (length s - length suffix) s = suffix"

definition is_object_name :: "string \<Rightarrow> bool" where
  "is_object_name f \<longleftrightarrow> ends_with ''.object'' f \<and> f \<noteq> ''token.object''"

text \<open>The lock file beside an object file: the extension after the last dot is replaced.\<close>

definition lock_name :: "string \<Rightarrow> string" where
  "lock_name f = take (length f - length ''.object'') f @ ''.lock''"

fun add_objects :: "string list \<Rightarrow> os_token \<Rightarrow> os_token" where
  "add_objects [] t = t"
| "add_objects (f # fs) t =
     (let a = ot_next t
      in add_objects fs
           (t\<lparr>ot_next := a + 1, ot_heap := (ot_heap t)(a \<mapsto> (f, ObjectFile_open (dir_get t f))),
              ot_objects := sset_insert a (ot_objects t), ot_allObjects := sset_insert a (ot_allObjects t)\<rparr>))"

definition object_file_name :: "os_token \<Rightarrow> addr \<Rightarrow> string" where
  "object_file_name t a = (case ot_heap t a of None \<Rightarrow> [] | Some (f, _) \<Rightarrow> f)"

definition invalidate_object :: "addr \<Rightarrow> os_token \<Rightarrow> os_token" where
  "invalidate_object a t =
     (case ot_heap t a of
        None \<Rightarrow> t
      | Some (f, obj) \<Rightarrow> t\<lparr>ot_heap := (ot_heap t)(a \<mapsto> (f, of_invalidate obj))\<rparr>)"

definition index :: "bool \<Rightarrow> os_token \<Rightarrow> bool \<times> os_token" where
  "index isFirstTime t0 =
     (let (changed, t) = (if isFirstTime then (True, t0) else if \<not> ot_valid t0 then (False, t0) else tokengen_wasUpdated t0)
      in if \<not> changed then (True, t)
         else
           (case dir_list t of
              (None, t) \<Rightarrow> (False, t\<lparr>ot_valid := False\<rparr>)
            | (Some files, t) \<Rightarrow>
                if \<not> of_valid (ot_tokenObject t) then (False, t\<lparr>ot_valid := False\<rparr>)
                else
                  (let newSet = foldr sset_insert (filter is_object_name files) [];
                       addedFiles = (if isFirstTime then newSet else filter (\<lambda>f. f \<notin> set (ot_currentFiles t)) newSet);
                       removedFiles = (if isFirstTime then [] else filter (\<lambda>f. f \<notin> set newSet) (ot_currentFiles t));
                       t = add_objects addedFiles (t\<lparr>ot_currentFiles := newSet\<rparr>);
                       gone = filter (\<lambda>a. object_file_name t a \<in> set removedFiles) (ot_objects t);
                       t = fold invalidate_object gone t
                   in (True, t\<lparr>ot_objects := filter (\<lambda>a. a \<notin> set gone) (ot_objects t)\<rparr>))))"

section \<open>The token object\<close>

text \<open>
  The operations of \<open>ObjectFile\<close> on \<open>tokenObject\<close>, with the file it is stored in. A refresh
  that is not the first brings the index of the token up to date before it looks at the file.
\<close>

definition to_attributeExists :: "os_token \<Rightarrow> ulong \<Rightarrow> bool" where
  "to_attributeExists t type = of_attributeExists (ot_tokenObject t) type"

definition to_getAttribute :: "os_token \<Rightarrow> ulong \<Rightarrow> os_attribute" where
  "to_getAttribute t type = of_getAttribute (ot_tokenObject t) type"

definition to_setAttribute :: "ulong \<Rightarrow> os_attribute \<Rightarrow> os_token \<Rightarrow> bool \<times> os_token" where
  "to_setAttribute type v t0 =
     (let (io, t) = next_write t0;
          (ok, disk, f) = of_setAttribute io type v (dir_get t ''token.object'') (ot_tokenObject t)
      in (ok, dir_put ''token.object'' disk (t\<lparr>ot_tokenObject := f\<rparr>)))"

definition to_deleteAttribute :: "ulong \<Rightarrow> os_token \<Rightarrow> bool \<times> os_token" where
  "to_deleteAttribute type t0 =
     (let (io, t) = next_write t0;
          (ok, disk, f) = of_deleteAttribute io type (dir_get t ''token.object'') (ot_tokenObject t)
      in (ok, dir_put ''token.object'' disk (t\<lparr>ot_tokenObject := f\<rparr>)))"

definition to_isValid :: "os_token \<Rightarrow> bool \<times> os_token" where
  "to_isValid t0 =
     (let t = (if of_inTransaction (ot_tokenObject t0) then t0 else snd (index False t0));
          (ok, f) = of_isValid (dir_get t ''token.object'') (ot_tokenObject t)
      in (ok, t\<lparr>ot_tokenObject := f\<rparr>))"

text \<open>The lock file is created when it does not exist.\<close>

definition to_startTransaction :: "os_token \<Rightarrow> bool \<times> os_token" where
  "to_startTransaction t0 =
     (if of_inTransaction (ot_tokenObject t0) then (False, t0)
      else
        (let (locked, t) = next_answer t0;
             t = (if locked \<and> dir_get t ''token.lock'' = None then dir_put ''token.lock'' (Some []) t else t);
             (ok, f) = of_startTransaction (locked \<and> ot_dir t \<noteq> None) (dir_get t ''token.object'') (ot_tokenObject t)
         in (ok, t\<lparr>ot_tokenObject := f\<rparr>)))"

definition to_commitTransaction :: "os_token \<Rightarrow> bool \<times> os_token" where
  "to_commitTransaction t0 =
     (let (io, t) = next_write t0;
          (ok, disk, f) = of_commitTransaction io (dir_get t ''token.object'') (ot_tokenObject t)
      in (ok, dir_put ''token.object'' disk (t\<lparr>ot_tokenObject := f\<rparr>)))"

definition to_abortTransaction :: "os_token \<Rightarrow> bool \<times> os_token" where
  "to_abortTransaction t =
     (let (ok, f) = of_abortTransaction (dir_get t ''token.object'') (ot_tokenObject t)
      in (ok, t\<lparr>ot_tokenObject := f\<rparr>))"

text \<open>
  The guard of the readers, \<^verbatim>\<open>!valid || !tokenObject->isValid()\<close>, and the two ends of a
  transaction on the token object as every writer spells them.
\<close>

definition to_ready :: "os_token \<Rightarrow> bool \<times> os_token" where
  "to_ready t = (if \<not> ot_valid t then (False, t) else to_isValid t)"

definition to_begin :: "os_token \<Rightarrow> bool \<times> os_token" where
  "to_begin t = (if \<not> ot_valid t then (False, t) else to_startTransaction t)"

definition to_finish :: "bool \<times> os_token \<Rightarrow> bool \<times> os_token" where
  "to_finish r =
     (let (ok, t) = r;
          (ok, t) = (if ok then to_commitTransaction t else (False, t))
      in if ok then (True, t) else (False, snd (to_abortTransaction t)))"

section \<open>Readers\<close>

definition get_required :: "ulong \<Rightarrow> os_token \<Rightarrow> bytes option \<times> os_token" where
  "get_required type t0 =
     (let (ok, t) = to_ready t0
      in (if ok \<and> to_attributeExists t type then Some (attr_getByteStringValue (to_getAttribute t type)) else None, t))"

text \<open>The result flag, and the value when the attribute exists.\<close>

definition get_optional :: "ulong \<Rightarrow> os_token \<Rightarrow> bool \<times> bytes option \<times> os_token" where
  "get_optional type t0 =
     (let (ok, t) = to_ready t0
      in (ok, if ok \<and> to_attributeExists t type then Some (attr_getByteStringValue (to_getAttribute t type)) else None, t))"

definition get_mark :: "ulong \<Rightarrow> os_token \<Rightarrow> bool \<times> bool \<times> os_token" where
  "get_mark type t0 =
     (let (ok, t) = to_ready t0
      in (ok, ok \<and> to_attributeExists t type \<and> attr_getBooleanValue (to_getAttribute t type), t))"

definition ot_getSOPIN :: "os_token \<Rightarrow> bytes option \<times> os_token" where
  "ot_getSOPIN t = get_required CKA_OS_SOPIN t"

definition ot_getUserPIN :: "os_token \<Rightarrow> bytes option \<times> os_token" where
  "ot_getUserPIN t = get_required CKA_OS_USERPIN t"

definition getTokenLabel :: "os_token \<Rightarrow> bytes option \<times> os_token" where
  "getTokenLabel t = get_required CKA_OS_TOKENLABEL t"

definition getTokenSerial :: "os_token \<Rightarrow> bytes option \<times> os_token" where
  "getTokenSerial t = get_required CKA_OS_TOKENSERIAL t"

definition getTokenCreationTime :: "os_token \<Rightarrow> bytes option \<times> os_token" where
  "getTokenCreationTime t = get_required CKA_OS_TOKENCREATED t"

definition ot_getTokenName :: "os_token \<Rightarrow> bool \<times> bytes option \<times> os_token" where
  "ot_getTokenName t = get_optional CKA_OS_TOKENNAME t"

definition ot_getLicense :: "ulong \<Rightarrow> os_token \<Rightarrow> bool \<times> bytes option \<times> os_token" where
  "ot_getLicense n t = get_optional (CKA_OS_LICENSE n) t"

definition ot_getJournal :: "os_token \<Rightarrow> bool \<times> bytes option \<times> os_token" where
  "ot_getJournal t = get_optional CKA_OS_JOURNAL t"

definition getLocalPIN :: "ulong \<Rightarrow> os_token \<Rightarrow> bool \<times> bytes option \<times> os_token" where
  "getLocalPIN n t = get_optional (CKA_OS_LOCALPIN n) t"

definition ot_getPinPolicy :: "os_token \<Rightarrow> bool \<times> bytes option \<times> os_token" where
  "ot_getPinPolicy t = get_optional CKA_OS_PINPOLICY t"

definition getUserPinExpired :: "os_token \<Rightarrow> bool \<times> bool \<times> os_token" where
  "getUserPinExpired t = get_mark CKA_OS_USERPINEXPIRED t"

definition ot_getPinDefault :: "ulong \<Rightarrow> os_token \<Rightarrow> bool \<times> bool \<times> os_token" where
  "ot_getPinDefault n t = get_mark (CKA_OS_PINDEFAULT n) t"

definition getTokenFlags :: "os_token \<Rightarrow> ulong option \<times> os_token" where
  "getTokenFlags t0 =
     (let (ok, t) = to_ready t0
      in if ok \<and> to_attributeExists t CKA_OS_TOKENFLAGS
         then (let flags = attr_getUnsignedLongValue (to_getAttribute t CKA_OS_TOKENFLAGS)
               in (Some (if to_attributeExists t CKA_OS_USERPIN then flags OR CKF_USER_PIN_INITIALIZED else flags), t))
         else (None, t))"

section \<open>Writers\<close>

definition setTokenFlags :: "ulong \<Rightarrow> os_token \<Rightarrow> bool \<times> os_token" where
  "setTokenFlags flags t =
     (if \<not> ot_valid t then (False, t) else to_setAttribute CKA_OS_TOKENFLAGS (ULONG flags) t)"

definition clear_flags :: "ulong list \<Rightarrow> ulong \<Rightarrow> ulong" where
  "clear_flags fs flags = fold (\<lambda>f x. x AND NOT f) fs flags"

definition ot_setSOPIN :: "bytes \<Rightarrow> os_token \<Rightarrow> bool \<times> os_token" where
  "ot_setSOPIN soPINBlob t0 =
     (if \<not> ot_valid t0 then (False, t0)
      else
        (let (ok, t) = to_setAttribute CKA_OS_SOPIN (BYTESTR soPINBlob) t0
         in if \<not> ok then (False, t)
            else
              (case getTokenFlags t of
                 (None, t) \<Rightarrow> (False, t)
               | (Some flags, t) \<Rightarrow>
                   setTokenFlags (clear_flags [CKF_SO_PIN_COUNT_LOW, CKF_SO_PIN_FINAL_TRY, CKF_SO_PIN_LOCKED,
                     CKF_SO_PIN_TO_BE_CHANGED] flags) t)))"

definition ot_setUserPIN :: "bytes \<Rightarrow> os_token \<Rightarrow> bool \<times> os_token" where
  "ot_setUserPIN userPINBlob t0 =
     (if \<not> ot_valid t0 then (False, t0)
      else
        (let (ok, t) = to_setAttribute CKA_OS_USERPIN (BYTESTR userPINBlob) t0
         in if \<not> ok then (False, t)
            else
              (case getTokenFlags t of
                 (None, t) \<Rightarrow> (False, t)
               | (Some flags, t) \<Rightarrow>
                   setTokenFlags (clear_flags [CKF_USER_PIN_COUNT_LOW, CKF_USER_PIN_FINAL_TRY, CKF_USER_PIN_LOCKED,
                     CKF_USER_PIN_TO_BE_CHANGED] (flags OR CKF_USER_PIN_INITIALIZED)) t)))"

text \<open>Two attributes written one after the other; the second only if the first went well.\<close>

definition set_both :: "ulong \<times> os_attribute \<Rightarrow> ulong \<times> os_attribute \<Rightarrow> os_token \<Rightarrow> bool \<times> os_token" where
  "set_both a b t =
     (let (ok, t) = to_setAttribute (fst a) (snd a) t
      in if ok then to_setAttribute (fst b) (snd b) t else (False, t))"

definition ot_setTokenName :: "bytes \<Rightarrow> bytes \<Rightarrow> os_token \<Rightarrow> bool \<times> os_token" where
  "ot_setTokenName name label t =
     (let (ok, t) = to_begin t
      in if \<not> ok then (False, t)
         else to_finish (set_both (CKA_OS_TOKENNAME, BYTESTR name) (CKA_OS_TOKENLABEL, BYTESTR label) t))"

definition ot_setLicense :: "ulong \<Rightarrow> bytes \<Rightarrow> os_token \<Rightarrow> bool \<times> os_token" where
  "ot_setLicense n license t =
     (let (ok, t) = to_begin t
      in if \<not> ok then (False, t) else to_finish (to_setAttribute (CKA_OS_LICENSE n) (BYTESTR license) t))"

text \<open>
  The counter in front of the journal: four bytes, big-endian, stopping at its maximum.
  The new journal carries it in front and at the offset that is signed.
\<close>

definition put_bytes :: "nat \<Rightarrow> bytes \<Rightarrow> bytes \<Rightarrow> bytes" where
  "put_bytes i bs xs = take i xs @ bs @ drop (i + length bs) xs"

definition next_count :: "bytes \<Rightarrow> ulong" where
  "next_count old =
     (let count = fold (\<lambda>b c. push_bit 8 c OR ucast b) (take 4 old) (0 :: ulong)
      in if count < 0xFFFFFFFF then count + 1 else count)"

definition count_bytes :: "ulong \<Rightarrow> bytes" where
  "count_bytes count = map (\<lambda>i. ucast (drop_bit (24 - 8 * i) count)) [0..<4]"

definition advanceJournal :: "bytes \<Rightarrow> nat \<Rightarrow> os_token \<Rightarrow> bool \<times> bytes \<times> os_token" where
  "advanceJournal journal countOffset t0 =
     (if countOffset + 4 > length journal then (False, journal, t0)
      else
        (let (ok, t) = to_begin t0
         in if \<not> ok then (False, journal, t)
            else
              (let old = (if to_attributeExists t CKA_OS_JOURNAL
                          then Some (attr_getByteStringValue (to_getAttribute t CKA_OS_JOURNAL)) else None)
               in if old \<noteq> None \<and> length (the old) < 4 then (False, journal, snd (to_abortTransaction t))
                  else
                    (let c = count_bytes (next_count (case old of None \<Rightarrow> [] | Some b \<Rightarrow> b));
                         journal = put_bytes countOffset c (put_bytes 0 c journal);
                         (ok, t) = to_finish (to_setAttribute CKA_OS_JOURNAL (BYTESTR journal) t)
                     in (ok, journal, t)))))"

text \<open>A mark is an attribute that exists, and is true, when set, and is absent when not.\<close>

definition set_mark :: "ulong \<Rightarrow> bool \<Rightarrow> os_token \<Rightarrow> bool \<times> os_token" where
  "set_mark type b t =
     (if b then to_setAttribute type (BOOL True) t
      else if \<not> to_attributeExists t type then (True, t) else to_deleteAttribute type t)"

definition setUserPinExpired :: "bool \<Rightarrow> os_token \<Rightarrow> bool \<times> os_token" where
  "setUserPinExpired expired t =
     (let (ok, t) = to_begin t
      in if \<not> ok then (False, t) else to_finish (set_mark CKA_OS_USERPINEXPIRED expired t))"

definition setPinDefault :: "ulong \<Rightarrow> bool \<Rightarrow> os_token \<Rightarrow> bool \<times> os_token" where
  "setPinDefault n isDefault t =
     (let (ok, t) = to_begin t
      in if \<not> ok then (False, t) else to_finish (set_mark (CKA_OS_PINDEFAULT n) isDefault t))"

text \<open>Compare and swap of a local PIN record: the result flag and whether it was changed.\<close>

definition updateLocalPIN :: "ulong \<Rightarrow> bytes \<Rightarrow> bytes \<Rightarrow> bool option \<Rightarrow> os_token \<Rightarrow> bool \<times> bool \<times> os_token" where
  "updateLocalPIN n expected replacement isDefault t0 =
     (let (ok, t) = to_begin t0
      in if \<not> ok then (False, False, t)
         else
           (let current = (if to_attributeExists t (CKA_OS_LOCALPIN n)
                           then attr_getByteStringValue (to_getAttribute t (CKA_OS_LOCALPIN n)) else [])
            in if \<not> bs_eq current expected then (True, False, snd (to_abortTransaction t))
               else
                 (let (ok, t) = (case isDefault of None \<Rightarrow> (True, t) | Some b \<Rightarrow> set_mark (CKA_OS_PINDEFAULT n) b t);
                      (ok, t) = to_finish (if ok then to_setAttribute (CKA_OS_LOCALPIN n) (BYTESTR replacement) t else (False, t))
                  in (ok, ok, t))))"

definition ot_setPinPolicy :: "bytes \<Rightarrow> os_token \<Rightarrow> bool \<times> os_token" where
  "ot_setPinPolicy policy t =
     (if \<not> ot_valid t then (False, t) else to_setAttribute CKA_OS_PINPOLICY (BYTESTR policy) t)"

text \<open>The bytes of the policy after an attempt; none when they are not a policy.\<close>

definition leftIndex :: "bool \<Rightarrow> nat" where
  "leftIndex so = (if so then 5 else 6)"

definition maxIndex :: "bool \<Rightarrow> nat" where
  "maxIndex so = (if so then 3 else 4)"

definition default_policy :: bytes where
  "default_policy = [1, 6, 32, 10, 10, 10, 10]"

definition advance_bytes :: "bool \<Rightarrow> bool \<Rightarrow> bytes \<Rightarrow> bytes option" where
  "advance_bytes so success policy =
     (if (length policy \<noteq> 7 \<or> policy ! 0 \<noteq> 1) \<and> (length policy \<noteq> 9 \<or> policy ! 0 \<noteq> 2)
         \<or> policy ! leftIndex so > policy ! maxIndex so
      then None
      else Some (if policy ! leftIndex so = 0 then policy
                 else if success then policy[leftIndex so := policy ! maxIndex so]
                 else policy[leftIndex so := policy ! leftIndex so - 1]))"

definition advancePinPolicy :: "bool \<Rightarrow> bool \<Rightarrow> os_token \<Rightarrow> bytes option \<times> os_token" where
  "advancePinPolicy so success t0 =
     (let (ok, t) = to_begin t0
      in if \<not> ok then (None, t)
         else
           (let policy = (if to_attributeExists t CKA_OS_PINPOLICY
                          then attr_getByteStringValue (to_getAttribute t CKA_OS_PINPOLICY) else default_policy)
            in case advance_bytes so success policy of
                 None \<Rightarrow> (None, snd (to_abortTransaction t))
               | Some policy \<Rightarrow>
                   (let (ok, t) = to_finish (to_setAttribute CKA_OS_PINPOLICY (BYTESTR policy) t)
                    in (if ok then Some policy else None, t))))"

section \<open>Objects of the token\<close>

definition ot_getObjects :: "os_token \<Rightarrow> addr list \<times> os_token" where
  "ot_getObjects t = (let t = snd (index False t) in (ot_objects t, t))"

text \<open>The name comes from the UUID generator; the null pointer is no result.\<close>

definition ot_createObject :: "string \<Rightarrow> os_token \<Rightarrow> addr option \<times> os_token" where
  "ot_createObject uuid t0 =
     (if \<not> ot_valid t0 then (None, t0)
      else
        (let name = uuid @ ''.object'';
             (io, t) = next_write t0;
             (disk, obj) = ObjectFile_create io (dir_get t name);
             t = dir_put name disk t
         in if \<not> of_valid obj then (None, t)
            else
              (let a = ot_next t;
                   t = t\<lparr>ot_next := a + 1, ot_heap := (ot_heap t)(a \<mapsto> (name, obj)),
                         ot_objects := sset_insert a (ot_objects t), ot_allObjects := sset_insert a (ot_allObjects t),
                         ot_currentFiles := sset_insert name (ot_currentFiles t)\<rparr>
               in (Some a, tokengen_commit (tokengen_update t)))))"

text \<open>Invalidate an object and remove its file and its lock; the two callers spell it out.\<close>

definition erase_files :: "addr \<Rightarrow> os_token \<Rightarrow> bool \<times> os_token" where
  "erase_files a t0 =
     (let t = invalidate_object a t0;
          (ok, t) = dir_remove (object_file_name t a) t
      in if \<not> ok then (False, t)
         else
           (let (ok, t) = dir_remove (lock_name (object_file_name t a)) t
            in if \<not> ok then (False, t)
               else (True, t\<lparr>ot_objects := sset_erase a (ot_objects t)\<rparr>)))"

definition ot_deleteObject :: "addr \<Rightarrow> os_token \<Rightarrow> bool \<times> os_token" where
  "ot_deleteObject a t =
     (if \<not> ot_valid t then (False, t)
      else if a \<notin> set (ot_objects t) then (False, t)
      else
        (let (ok, t) = erase_files a t
         in if \<not> ok then (False, t) else (True, tokengen_commit (tokengen_update t))))"

fun erase_all :: "addr list \<Rightarrow> os_token \<Rightarrow> bool \<times> os_token" where
  "erase_all [] t = (True, t)"
| "erase_all (a # as) t =
     (let (ok, t) = erase_files a t in if ok then erase_all as t else (False, t))"

fun remove_files :: "string list \<Rightarrow> os_token \<Rightarrow> bool \<times> os_token" where
  "remove_files [] t = (True, t)"
| "remove_files (f # fs) t =
     (let (ok, t) = dir_remove f t in if ok then remove_files fs t else (False, t))"

definition ot_clearToken :: "os_token \<Rightarrow> bool \<times> os_token" where
  "ot_clearToken t0 =
     (let t = t0\<lparr>ot_valid := False, ot_objects := []\<rparr>
      in case dir_list t of
           (None, t) \<Rightarrow> (False, t)
         | (Some files, t) \<Rightarrow>
             (let (ok, t) = remove_files files t
              in if \<not> ok then (False, t)
                 else
                   (let (a, t) = next_answer t
                    in if \<not> a then (False, t) else (True, t\<lparr>ot_dir := None\<rparr>))))"

text \<open>Remove an attribute of the token object when it is there; a list of them in turn.\<close>

definition drop_attr :: "ulong \<Rightarrow> os_token \<Rightarrow> bool \<times> os_token" where
  "drop_attr type t = (if to_attributeExists t type then to_deleteAttribute type t else (True, t))"

fun drop_attrs :: "ulong list \<Rightarrow> os_token \<Rightarrow> bool \<times> os_token" where
  "drop_attrs [] t = (True, t)"
| "drop_attrs (x # xs) t =
     (let (ok, t) = drop_attr x t in if ok then drop_attrs xs t else (False, t))"

definition local_pin_ids :: "ulong list" where
  "local_pin_ids = map of_nat [3..<32]"

definition reset_attrs :: "ulong list" where
  "reset_attrs =
     [CKA_OS_USERPIN, CKA_OS_TOKENNAME] @
     concat (map (\<lambda>n. [CKA_OS_LOCALPIN n, CKA_OS_PINDEFAULT n]) local_pin_ids) @
     [CKA_OS_PINDEFAULT 0, CKA_OS_PINDEFAULT 1, CKA_OS_USERPINEXPIRED]"

definition ot_resetToken :: "bytes \<Rightarrow> os_token \<Rightarrow> bool \<times> os_token" where
  "ot_resetToken label t0 =
     (case getTokenFlags t0 of
        (None, t) \<Rightarrow> (False, t)
      | (Some flags, t) \<Rightarrow>
          (let (cleanUp, t) = ot_getObjects t;
               (ok, t) = erase_all cleanUp t
           in if \<not> ok then (False, t)
              else
                (let flags = clear_flags [CKF_USER_PIN_INITIALIZED, CKF_USER_PIN_COUNT_LOW, CKF_USER_PIN_FINAL_TRY,
                       CKF_USER_PIN_LOCKED, CKF_USER_PIN_TO_BE_CHANGED] flags;
                     (ok, t) = set_both (CKA_OS_TOKENLABEL, BYTESTR label) (CKA_OS_TOKENFLAGS, ULONG flags) t
                 in if \<not> ok then (False, t)
                    else
                      (let (ok, t) = drop_attrs reset_attrs t
                       in if \<not> ok then (False, t) else (True, tokengen_commit (tokengen_update t))))))"

section \<open>Opening and creating tokens\<close>

text \<open>
  The constructor on a directory: the generation file is created when it does not exist,
  the token object is read, the objects are indexed.
\<close>

definition OSToken_open ::
  "(string \<times> bytes) list option \<Rightarrow> io list \<Rightarrow> bool list \<Rightarrow> os_token" where
  "OSToken_open dir writes answers =
     (let t = \<lparr>ot_valid = False, ot_tokenObject = ObjectFile_open None, ot_gen = 0, ot_pendingUpdate = False,
          ot_currentFiles = [], ot_objects = [], ot_allObjects = [], ot_heap = Map.empty, ot_next = 1,
          ot_dir = dir, ot_writes = writes, ot_answers = answers\<rparr>;
          (listed, t) = dir_list t;
          t = tokengen_commit t;
          t = t\<lparr>ot_tokenObject := ObjectFile_open (dir_get t ''token.object'')\<rparr>;
          t = t\<lparr>ot_valid := listed \<noteq> None \<and> of_valid (ot_tokenObject t)\<rparr>
      in snd (index True t))"

text \<open>
  \<open>createToken\<close>: the directory, when the operating system can make it (\<open>made\<close>), with the
  token object in it; label, serial, creation stamp and flags are stored as they are set.
  A failure removes the directory.
\<close>

definition initial_attrs :: "bytes \<Rightarrow> bytes \<Rightarrow> bytes \<Rightarrow> (ulong \<times> os_attribute) list" where
  "initial_attrs label serial stamp =
     [(CKA_OS_TOKENLABEL, BYTESTR label), (CKA_OS_TOKENSERIAL, BYTESTR serial), (CKA_OS_TOKENCREATED, BYTESTR stamp),
      (CKA_OS_TOKENFLAGS, ULONG (CKF_RNG OR CKF_LOGIN_REQUIRED OR CKF_RESTORE_KEY_NOT_NEEDED OR CKF_TOKEN_INITIALIZED
         OR CKF_SO_PIN_LOCKED OR CKF_SO_PIN_TO_BE_CHANGED))]"

definition OSToken_createToken ::
  "bool \<Rightarrow> bytes \<Rightarrow> bytes \<Rightarrow> bytes \<Rightarrow> io list \<Rightarrow> bool list \<Rightarrow> os_token option" where
  "OSToken_createToken made label serial stamp writes answers =
     (if \<not> made then None
      else let (io, ios) = (case writes of [] \<Rightarrow> (IO_ok, []) | io # ios \<Rightarrow> (io, ios));
          (disk, f) = ObjectFile_create io None
      in if \<not> of_valid f then None
         else
           (let (ok, disk, f) = set_attrs ios (initial_attrs label serial stamp) disk f
            in if \<not> ok then None
               else Some (OSToken_open (Some [(''token.object'', the disk)]) (drop 4 ios) answers)))"

section \<open>The file and its copy in memory\<close>

text \<open>
  \<open>stored t g m\<close>: the token object on disk has generation \<open>g\<close> and attributes \<open>m\<close>, no
  transaction is open, and the copy in memory, if it is valid and of this generation, agrees.
  No write stops in the middle. \<open>synced\<close>: the copy is valid and of this generation.
  \<open>in_tx\<close>: a transaction is open, on disk are \<open>m\<close>, in memory \<open>m'\<close>.
\<close>

definition enc :: "ulong \<Rightarrow> attr_map \<Rightarrow> bytes" where
  "enc g m = writeULong g @ snd (write_attributes m)"

definition on_disk :: "os_token \<Rightarrow> ulong \<Rightarrow> attr_map \<Rightarrow> bool" where
  "on_disk t g m \<longleftrightarrow> dir_get t ''token.object'' = Some (enc g m) \<and> attrs_ok m \<and> (\<forall>n. IO_short n \<notin> set (ot_writes t))"

definition stored :: "os_token \<Rightarrow> ulong \<Rightarrow> attr_map \<Rightarrow> bool" where
  "stored t g m \<longleftrightarrow> on_disk t g m \<and> \<not> of_inTransaction (ot_tokenObject t)
     \<and> (of_valid (ot_tokenObject t) \<and> of_gen (ot_tokenObject t) = g \<longrightarrow> of_attributes (ot_tokenObject t) = m)"

definition synced :: "os_token \<Rightarrow> ulong \<Rightarrow> attr_map \<Rightarrow> bool" where
  "synced t g m \<longleftrightarrow> stored t g m \<and> of_valid (ot_tokenObject t) \<and> of_gen (ot_tokenObject t) = g"

definition in_tx :: "os_token \<Rightarrow> ulong \<Rightarrow> attr_map \<Rightarrow> attr_map \<Rightarrow> bool" where
  "in_tx t g m m' \<longleftrightarrow> on_disk t g m \<and> attrs_ok m' \<and> of_inTransaction (ot_tokenObject t)
     \<and> of_valid (ot_tokenObject t) \<and> of_attributes (ot_tokenObject t) = m'"

lemma next_write_cases:
  obtains io w where "next_write t = (io, t\<lparr>ot_writes := w\<rparr>)" "set w \<subseteq> set (ot_writes t)"
    "\<forall>n. IO_short n \<notin> set (ot_writes t) \<Longrightarrow> io = IO_ok \<or> io = IO_no_open" "ot_dir t = None \<Longrightarrow> io = IO_no_open"
proof (cases "ot_dir t = None \<or> ot_writes t = []")
  case True
  then show ?thesis by (intro that [of "fst (next_write t)" "ot_writes t"]) (auto simp: next_write_def)
next
  case False
  then obtain io w where w: "ot_writes t = io # w" by (cases "ot_writes t") auto
  with False show ?thesis
    by (intro that [of io w]) (auto simp: next_write_def intro: io.exhaust [of io])
qed

lemma next_answer_cases:
  obtains a r where "next_answer t = (a, t\<lparr>ot_answers := r\<rparr>)"
proof (cases "ot_answers t")
  case Nil
  then show ?thesis by (intro that [of True "ot_answers t"]) (simp add: next_answer_def)
next
  case (Cons a r)
  then show ?thesis by (intro that [of a r]) (simp add: next_answer_def)
qed

lemma dir_get_simps [simp]:
  "dir_get (t\<lparr>ot_valid := b\<rparr>) = dir_get t" "dir_get (t\<lparr>ot_tokenObject := f\<rparr>) = dir_get t"
  "dir_get (t\<lparr>ot_writes := w\<rparr>) = dir_get t" "dir_get (t\<lparr>ot_answers := r\<rparr>) = dir_get t"
  "dir_get (t\<lparr>ot_gen := g\<rparr>) = dir_get t" "dir_get (t\<lparr>ot_pendingUpdate := b\<rparr>) = dir_get t"
  by (simp_all add: dir_get_def fun_eq_iff)

lemma map_of_other: "map_of (filter (\<lambda>(g, _). g \<noteq> f) fs) h = (if h = f then None else map_of fs h)"
  by (induction fs) auto

lemma dir_get_put:
  "dir_get (dir_put f c t) h = (if h = f \<and> c \<noteq> None \<and> ot_dir t \<noteq> None then c else dir_get t h)"
  by (auto simp: dir_get_def dir_put_def map_of_other split: option.splits)

lemma dir_put_fields [simp]:
  "ot_valid (dir_put f c t) = ot_valid t" "ot_tokenObject (dir_put f c t) = ot_tokenObject t"
  "ot_gen (dir_put f c t) = ot_gen t" "ot_writes (dir_put f c t) = ot_writes t"
  "ot_answers (dir_put f c t) = ot_answers t" "ot_objects (dir_put f c t) = ot_objects t"
  "ot_heap (dir_put f c t) = ot_heap t" "(ot_dir (dir_put f c t) = None) = (ot_dir t = None)"
  "ot_currentFiles (dir_put f c t) = ot_currentFiles t" "ot_next (dir_put f c t) = ot_next t"
  "ot_allObjects (dir_put f c t) = ot_allObjects t" "ot_pendingUpdate (dir_put f c t) = ot_pendingUpdate t"
  by (simp_all add: dir_put_def split: option.splits)

lemma add_objects_keeps:
  "ot_tokenObject (add_objects fs t) = ot_tokenObject t \<and> ot_dir (add_objects fs t) = ot_dir t
     \<and> ot_writes (add_objects fs t) = ot_writes t \<and> ot_valid (add_objects fs t) = ot_valid t"
  by (induction fs arbitrary: t) (simp_all add: Let_def)

lemma invalidate_keeps:
  "ot_tokenObject (fold invalidate_object as t) = ot_tokenObject t \<and> ot_dir (fold invalidate_object as t) = ot_dir t
     \<and> ot_writes (fold invalidate_object as t) = ot_writes t \<and> ot_valid (fold invalidate_object as t) = ot_valid t"
  by (induction as arbitrary: t) (simp_all add: invalidate_object_def split: option.splits)

lemma wasUpdated_keeps:
  "tokengen_wasUpdated t = (b, t') \<Longrightarrow> ot_tokenObject t' = ot_tokenObject t \<and> ot_dir t' = ot_dir t
     \<and> ot_writes t' = ot_writes t \<and> ot_valid t' = ot_valid t"
  by (auto simp: tokengen_wasUpdated_def split: option.splits if_splits)

lemma dir_list_keeps:
  "dir_list t = (r, t') \<Longrightarrow> ot_tokenObject t' = ot_tokenObject t \<and> ot_dir t' = ot_dir t
     \<and> ot_writes t' = ot_writes t \<and> ot_valid t' = ot_valid t"
  by (auto simp: dir_list_def next_answer_def split: option.splits prod.splits list.splits)

text \<open>Indexing touches neither the token object nor the disk, and never makes the token valid.\<close>

lemma index_keeps:
  assumes "index b t = (r, t')"
  shows "ot_tokenObject t' = ot_tokenObject t \<and> ot_dir t' = ot_dir t \<and> ot_writes t' = ot_writes t
    \<and> (ot_valid t' \<longrightarrow> ot_valid t)"
proof -
  obtain c t1 where c: "(if b then (True, t) else if \<not> ot_valid t then (False, t) else tokengen_wasUpdated t) = (c, t1)"
    by (cases "if b then (True, t) else if \<not> ot_valid t then (False, t) else tokengen_wasUpdated t")
  then have k: "ot_tokenObject t1 = ot_tokenObject t \<and> ot_dir t1 = ot_dir t \<and> ot_writes t1 = ot_writes t \<and> ot_valid t1 = ot_valid t"
    by (auto dest: wasUpdated_keeps split: if_splits)
  obtain l t2 where l: "dir_list t1 = (l, t2)" by (cases "dir_list t1")
  have k2: "ot_tokenObject t2 = ot_tokenObject t \<and> ot_dir t2 = ot_dir t \<and> ot_writes t2 = ot_writes t \<and> ot_valid t2 = ot_valid t"
    using dir_list_keeps [OF l] k by simp
  show ?thesis
    using assms c l k k2
    by (auto simp: index_def Let_def add_objects_keeps invalidate_keeps split: if_splits option.splits)
qed

lemma refresh_enc:
  assumes "attrs_ok m" "\<not> of_inTransaction f" "c \<or> of_gen f \<noteq> g"
  shows "of_refresh c (Some (enc g m)) f = f\<lparr>of_attributes := m, of_valid := True, of_gen := g\<rparr>"
  unfolding enc_def by (rule refresh_written [OF assms])

lemma gen_enc [simp]: "gen_wasUpdated v (Some (enc g m)) = (v \<noteq> g)" "gen_sync (enc g m) = g"
  by (auto simp: gen_wasUpdated_def gen_sync_def enc_def)

text \<open>Reading: the copy is brought up to date.\<close>

lemma ready_ok:
  assumes "stored t g m" "to_ready t = (True, t')"
  shows "synced t' g m"
proof -
  obtain r t1 where i: "index False t = (r, t1)" by (cases "index False t")
  note k = index_keeps [OF i]
  have f: "dir_get t1 = dir_get t" using k by (simp add: dir_get_def fun_eq_iff)
  have t': "of_isValid (dir_get t ''token.object'') (ot_tokenObject t) = (True, ot_tokenObject t')"
    "t' = t1\<lparr>ot_tokenObject := ot_tokenObject t'\<rparr>"
    using assms i k f by (auto simp: to_ready_def to_isValid_def stored_def Let_def split: if_splits prod.splits)
  have d: "dir_get t ''token.object'' = Some (enc g m)" "attrs_ok m" "\<not> of_inTransaction (ot_tokenObject t)"
    using assms(1) by (auto simp: stored_def on_disk_def)
  have "ot_tokenObject t' = (if of_gen (ot_tokenObject t) = g then ot_tokenObject t
      else (ot_tokenObject t)\<lparr>of_attributes := m, of_valid := True, of_gen := g\<rparr>)"
    using t'(1) refresh_enc [OF d(2, 3), of False g] d by (auto simp: of_isValid_def of_refresh_def Let_def)
  moreover have "of_valid (ot_tokenObject t')" using t'(1) by (auto simp: of_isValid_def Let_def)
  ultimately show ?thesis
    using assms(1) t'(2) k f by (subst t'(2)) (auto simp: synced_def stored_def on_disk_def split: if_splits)
qed

lemma ready_fail:
  assumes "stored t g m" "to_ready t = (False, t')"
  shows "stored t' g m"
proof (cases "ot_valid t")
  case True
  obtain r t1 where i: "index False t = (r, t1)" by (cases "index False t")
  note k = index_keeps [OF i]
  have f: "dir_get t1 = dir_get t" using k by (simp add: dir_get_def fun_eq_iff)
  have t': "of_isValid (dir_get t ''token.object'') (ot_tokenObject t) = (False, ot_tokenObject t')"
    "t' = t1\<lparr>ot_tokenObject := ot_tokenObject t'\<rparr>"
    using assms i k f True by (auto simp: to_ready_def to_isValid_def stored_def Let_def split: if_splits prod.splits)
  have d: "dir_get t ''token.object'' = Some (enc g m)" "attrs_ok m" "\<not> of_inTransaction (ot_tokenObject t)"
    using assms(1) by (auto simp: stored_def on_disk_def)
  have "ot_tokenObject t' = ot_tokenObject t \<and> \<not> of_valid (ot_tokenObject t)"
    using t'(1) refresh_enc [OF d(2, 3), of False g] d by (auto simp: of_isValid_def of_refresh_def Let_def split: if_splits)
  then show ?thesis
    using assms(1) t'(2) k f by (subst t'(2)) (auto simp: stored_def on_disk_def)
qed (use assms in \<open>auto simp: to_ready_def\<close>)

text \<open>Transactions.\<close>

lemma on_disk_answers: "on_disk (t\<lparr>ot_answers := r\<rparr>) g m = on_disk t g m"
  by (simp add: on_disk_def)

lemma begin_cases:
  assumes "stored t g m" "to_begin t = (ok, t')"
  shows "if ok then in_tx t' g m m \<and> ot_valid t' else stored t' g m"
proof (cases "ot_valid t")
  case True
  have d: "on_disk t g m" "attrs_ok m" "\<not> of_inTransaction (ot_tokenObject t)"
    using assms(1) by (auto simp: stored_def on_disk_def)
  obtain l r where l: "next_answer t = (l, t\<lparr>ot_answers := r\<rparr>)" by (rule next_answer_cases)
  define t2 where "t2 = (if l \<and> dir_get t ''token.lock'' = None
    then dir_put ''token.lock'' (Some []) (t\<lparr>ot_answers := r\<rparr>) else t\<lparr>ot_answers := r\<rparr>)"
  have t2: "on_disk t2 g m" "ot_tokenObject t2 = ot_tokenObject t" "ot_valid t2 = ot_valid t"
    using d(1) by (auto simp: t2_def on_disk_def dir_get_put)
  have f: "of_refresh True (dir_get t2 ''token.object'') (ot_tokenObject t)
      = (ot_tokenObject t)\<lparr>of_attributes := m, of_valid := True, of_gen := g\<rparr>"
    using t2(1) refresh_enc [OF d(2, 3), of True g] by (simp add: on_disk_def)
  have "to_begin t = (let (ok, f) = of_startTransaction (l \<and> ot_dir t2 \<noteq> None) (dir_get t2 ''token.object'') (ot_tokenObject t2)
      in (ok, t2\<lparr>ot_tokenObject := f\<rparr>))"
    using True d(3) l by (simp add: to_begin_def to_startTransaction_def Let_def t2_def case_prod_unfold)
  then show ?thesis
    using assms d t2 f True by (auto simp: of_startTransaction_def stored_def in_tx_def on_disk_def Let_def split: if_splits)
qed (use assms in \<open>auto simp: to_begin_def\<close>)

lemma set_in_tx:
  assumes "in_tx t g m m'" "to_setAttribute type v t = (ok, t')" "attr_ok v"
  shows "ok \<and> in_tx t' g m (omap_insert type v m') \<and> ot_valid t' = ot_valid t"
proof -
  obtain io w where w: "next_write t = (io, t\<lparr>ot_writes := w\<rparr>)" "set w \<subseteq> set (ot_writes t)" by (rule next_write_cases)
  have "t' = dir_put ''token.object'' (dir_get t ''token.object'')
      (t\<lparr>ot_writes := w, ot_tokenObject := (ot_tokenObject t)\<lparr>of_attributes := omap_insert type v m'\<rparr>\<rparr>) \<and> ok"
    using assms(1, 2) w(1) by (auto simp: to_setAttribute_def of_setAttribute_def of_store_def in_tx_def)
  with assms w(2) show ?thesis by (auto simp: in_tx_def on_disk_def dir_get_put attrs_ok_insert)
qed

lemma attrs_ok_erase: "attrs_ok m \<Longrightarrow> attrs_ok (omap_erase k m)"
  by (auto simp: attrs_ok_def omap_erase_def keys_omap_erase [unfolded omap_erase_def] sset_erase_def sorted_wrt_filter)

lemma delete_in_tx:
  assumes "in_tx t g m m'" "to_deleteAttribute type t = (ok, t')" "to_attributeExists t type"
  shows "ok \<and> in_tx t' g m (omap_erase type m') \<and> ot_valid t' = ot_valid t"
proof -
  obtain io w where w: "next_write t = (io, t\<lparr>ot_writes := w\<rparr>)" "set w \<subseteq> set (ot_writes t)" by (rule next_write_cases)
  have "t' = dir_put ''token.object'' (dir_get t ''token.object'')
      (t\<lparr>ot_writes := w, ot_tokenObject := (ot_tokenObject t)\<lparr>of_attributes := omap_erase type m'\<rparr>\<rparr>) \<and> ok"
    using assms w(1)
    by (auto simp: to_deleteAttribute_def of_deleteAttribute_def of_store_def in_tx_def to_attributeExists_def of_attributeExists_def)
  with assms w(2) show ?thesis by (auto simp: in_tx_def on_disk_def dir_get_put attrs_ok_erase)
qed

lemma store_enc:
  assumes "of_valid f" "\<not> of_inTransaction f \<or> c" "attrs_ok (of_attributes f)"
  shows "of_store IO_ok c (Some (enc g m)) f = (Some (enc (gen_next g) (of_attributes f)), f\<lparr>of_gen := gen_next g, of_valid := True\<rparr>)"
  using of_store_ok [OF assms refl, of "Some (enc g m)"] by (simp add: enc_def Let_def gen_sync_def)

lemma on_disk_dir: "on_disk t g m \<Longrightarrow> ot_dir t \<noteq> None"
  by (auto simp: on_disk_def dir_get_def split: option.splits)

lemma finish_cases:
  assumes "in_tx t g m m'" "to_finish (b, t) = (ok, t')"
  shows "if ok then b \<and> synced t' (gen_next g) m' \<and> ot_valid t' = ot_valid t
    else synced t' g m \<and> ot_valid t' = ot_valid t"
proof -
  have abort: "synced (snd (to_abortTransaction s)) g m \<and> ot_valid (snd (to_abortTransaction s)) = ot_valid s"
    if "on_disk s g m" "of_inTransaction (ot_tokenObject s)" for s
    using that refresh_enc [of m "(ot_tokenObject s)\<lparr>of_inTransaction := False\<rparr>" True g]
    by (auto simp: to_abortTransaction_def of_abortTransaction_def on_disk_def synced_def stored_def split: prod.splits)
  obtain io w where w: "next_write t = (io, t\<lparr>ot_writes := w\<rparr>)" "set w \<subseteq> set (ot_writes t)" "io = IO_ok \<or> io = IO_no_open"
    using assms(1) by (rule_tac t = t in next_write_cases) (auto simp: in_tx_def on_disk_def)
  show ?thesis
  proof (cases "b \<and> io = IO_ok")
    case True
    have "to_commitTransaction t = (True, dir_put ''token.object'' (Some (enc (gen_next g) m'))
      (t\<lparr>ot_writes := w, ot_tokenObject := (ot_tokenObject t)\<lparr>of_gen := gen_next g, of_valid := True, of_inTransaction := False\<rparr>\<rparr>))"
      using assms(1) w(1) True store_enc [of "ot_tokenObject t" True g m]
      by (simp add: to_commitTransaction_def of_commitTransaction_def in_tx_def on_disk_def)
    with assms True w(2) on_disk_dir [of t g m] show ?thesis
      by (auto simp: to_finish_def in_tx_def synced_def stored_def on_disk_def dir_get_put)
  next
    case False
    define s where "s = (if b then dir_put ''token.object'' (dir_get t ''token.object'')
      (t\<lparr>ot_writes := w, ot_tokenObject := (ot_tokenObject t)\<lparr>of_valid := False\<rparr>\<rparr>) else t)"
    have "to_finish (b, t) = (False, snd (to_abortTransaction s))" unfolding s_def
      using assms(1) w(1, 3) False
      by (auto simp: to_finish_def to_commitTransaction_def of_commitTransaction_def of_store_def in_tx_def Let_def)
    moreover have "on_disk s g m" "of_inTransaction (ot_tokenObject s)" "ot_valid s = ot_valid t"
      using assms(1) w(2) by (auto simp: s_def in_tx_def on_disk_def dir_get_put)
    ultimately show ?thesis using assms(2) abort [of s] by auto
  qed
qed

text \<open>Writing outside a transaction.\<close>

lemma set_synced:
  assumes "synced t g m" "to_setAttribute type v t = (ok, t')" "attr_ok v"
  shows "(if ok then synced t' (gen_next g) (omap_insert type v m) else stored t' g m) \<and> ot_valid t' = ot_valid t"
proof -
  have d: "on_disk t g m" "of_attributes (ot_tokenObject t) = m" "of_valid (ot_tokenObject t)"
    "\<not> of_inTransaction (ot_tokenObject t)"
    using assms(1) by (auto simp: synced_def stored_def)
  then have ok': "attrs_ok (omap_insert type v m)" using assms(3) by (simp add: on_disk_def attrs_ok_insert)
  obtain io w where w: "next_write t = (io, t\<lparr>ot_writes := w\<rparr>)" "set w \<subseteq> set (ot_writes t)" "io = IO_ok \<or> io = IO_no_open"
    using d(1) by (rule_tac t = t in next_write_cases) (auto simp: on_disk_def)
  from w(3) show ?thesis
  proof
    assume io: "io = IO_ok"
    have "to_setAttribute type v t = (True, dir_put ''token.object'' (Some (enc (gen_next g) (omap_insert type v m)))
      (t\<lparr>ot_writes := w, ot_tokenObject := (ot_tokenObject t)\<lparr>of_attributes := omap_insert type v m, of_gen := gen_next g, of_valid := True\<rparr>\<rparr>))"
      using d w(1) io ok' store_enc [of "(ot_tokenObject t)\<lparr>of_attributes := omap_insert type v m\<rparr>" False g m]
      by (simp add: to_setAttribute_def of_setAttribute_def on_disk_def)
    with assms(2) d w(2) ok' on_disk_dir [of t g m] show ?thesis
      by (auto simp: synced_def stored_def on_disk_def dir_get_put)
  next
    assume io: "io = IO_no_open"
    have "to_setAttribute type v t = (False, dir_put ''token.object'' (Some (enc g m))
      (t\<lparr>ot_writes := w, ot_tokenObject := (ot_tokenObject t)\<lparr>of_attributes := omap_insert type v m, of_valid := False\<rparr>\<rparr>))"
      using d w(1) io by (simp add: to_setAttribute_def of_setAttribute_def of_store_def on_disk_def)
    with assms(2) d w(2) show ?thesis by (auto simp: stored_def on_disk_def dir_get_put)
  qed
qed

lemma to_reads:
  "in_tx t g m m' \<Longrightarrow> to_attributeExists t type = (omap_find m' type \<noteq> None)"
  "in_tx t g m m' \<Longrightarrow> omap_find m' type = Some a \<Longrightarrow> to_getAttribute t type = a"
  "synced t g m \<Longrightarrow> to_attributeExists t type = (omap_find m type \<noteq> None)"
  "synced t g m \<Longrightarrow> omap_find m type = Some a \<Longrightarrow> to_getAttribute t type = a"
  by (auto simp: in_tx_def synced_def stored_def to_attributeExists_def of_attributeExists_def to_getAttribute_def
      of_getAttribute_def attr_of_def)

lemma getTokenFlags_cases:
  assumes "stored t g m" "getTokenFlags t = (r, t')"
  shows "if r = None then stored t' g m else synced t' g m"
  using assms ready_ok [OF assms(1)] ready_fail [OF assms(1)]
  by (cases "to_ready t") (auto simp: getTokenFlags_def synced_def Let_def split: if_splits)

lemma setTokenFlags_cases:
  assumes "synced t g m" "setTokenFlags flags t = (ok, t')"
  shows "if ok then synced t' (gen_next g) (omap_insert CKA_OS_TOKENFLAGS (ULONG flags) m) else stored t' g m"
  using assms set_synced [OF assms(1), of CKA_OS_TOKENFLAGS "ULONG flags" ok t']
  by (auto simp: setTokenFlags_def synced_def split: if_splits)

text \<open>The policy a set of attributes holds, as both the reader and the counter see it.\<close>

definition policy_of :: "attr_map \<Rightarrow> bytes" where
  "policy_of m = (case omap_find m CKA_OS_PINPOLICY of None \<Rightarrow> default_policy | Some a \<Rightarrow> attr_getByteStringValue a)"

lemma getPinPolicy_cases:
  assumes "stored t g m" "ot_getPinPolicy t = (ok, p, t')"
  shows "if ok then synced t' g m \<and> p = map_option attr_getByteStringValue (omap_find m CKA_OS_PINPOLICY)
    else stored t' g m"
proof -
  obtain b s where b: "to_ready t = (b, s)" by (cases "to_ready t")
  have *: "ok = b" "t' = s"
    and p: "p = (if ok \<and> to_attributeExists t' CKA_OS_PINPOLICY
      then Some (attr_getByteStringValue (to_getAttribute t' CKA_OS_PINPOLICY)) else None)"
    using assms(2) b by (auto simp: ot_getPinPolicy_def get_optional_def)
  show ?thesis
  proof (cases b)
    case True
    from ready_ok [OF assms(1)] b True have s: "synced s g m" by simp
    from to_reads(3, 4) [OF s] p * True s show ?thesis by auto
  next
    case False
    with ready_fail [OF assms(1)] b * show ?thesis by simp
  qed
qed

lemma length_update_ok: "advance_bytes so success b = Some p \<Longrightarrow> length p = length b \<and> length p < 2 ^ 64"
  by (auto simp: advance_bytes_def split: if_splits)

lemma advance_cases:
  assumes "stored t g m" "advancePinPolicy so success t = (r, t')"
  shows "case r of None \<Rightarrow> stored t' g m
    | Some p \<Rightarrow> advance_bytes so success (policy_of m) = Some p
        \<and> synced t' (gen_next g) (omap_insert CKA_OS_PINPOLICY (BYTESTR p) m)"
proof -
  obtain ok t1 where 1: "to_begin t = (ok, t1)" by (cases "to_begin t")
  note b = begin_cases [OF assms(1) this]
  show ?thesis
  proof (cases ok)
    case False
    with b 1 assms(2) show ?thesis by (auto simp: advancePinPolicy_def)
  next
    case True
    with b have tx: "in_tx t1 g m m" by simp
    have pol: "(if to_attributeExists t1 CKA_OS_PINPOLICY
        then attr_getByteStringValue (to_getAttribute t1 CKA_OS_PINPOLICY) else default_policy) = policy_of m"
      using to_reads(1, 2) [OF tx, of CKA_OS_PINPOLICY] by (auto simp: policy_of_def split: option.splits)
    show ?thesis
    proof (cases "advance_bytes so success (policy_of m)")
      case None
      have "to_finish (False, t1) = (False, snd (to_abortTransaction t1))" by (simp add: to_finish_def)
      from finish_cases [OF tx this] have "stored (snd (to_abortTransaction t1)) g m" by (simp add: synced_def)
      with None pol 1 True assms(2) show ?thesis by (auto simp: advancePinPolicy_def Let_def)
    next
      case (Some p)
      obtain b2 t2 where 2: "to_setAttribute CKA_OS_PINPOLICY (BYTESTR p) t1 = (b2, t2)"
        by (cases "to_setAttribute CKA_OS_PINPOLICY (BYTESTR p) t1")
      have tx2: "in_tx t2 g m (omap_insert CKA_OS_PINPOLICY (BYTESTR p) m)" and b2
        using set_in_tx [OF tx 2] length_update_ok [OF Some] by simp_all
      obtain b3 t3 where 3: "to_finish (b2, t2) = (b3, t3)" by (cases "to_finish (b2, t2)")
      from finish_cases [OF tx2 3] Some pol 1 2 3 True assms(2) show ?thesis
        by (auto simp: advancePinPolicy_def synced_def split: if_splits)
    qed
  qed
qed

end
