(* ===== verification/Token_Index.thy ===== *)
theory Token_Index
  imports OS_Token
begin

text \<open>
  The set of objects of a token against its directory (\<open>index\<close> of
  \<^verbatim>\<open>src/lib/object_store/OSToken.cpp\<close>): after another process has added and removed object
  files and moved the generation number, indexing gives one object per object file that
  exists, keeps the objects whose file is still there as they are, and invalidates the others.
\<close>

definition heap_ok :: "os_token \<Rightarrow> bool" where
  "heap_ok t \<longleftrightarrow> (\<forall>a \<in> dom (ot_heap t). a < ot_next t) \<and> set (ot_objects t) \<subseteq> dom (ot_heap t)"

abbreviation names :: "os_token \<Rightarrow> string set" where
  "names t \<equiv> object_file_name t ` set (ot_objects t)"

text \<open>
  Every object has a file name of its own, which is among the known files; a known file
  that is still in the directory has an object.
\<close>

definition index_inv :: "os_token \<Rightarrow> bool" where
  "index_inv t \<longleftrightarrow> heap_ok t \<and> inj_on (object_file_name t) (set (ot_objects t)) \<and> names t \<subseteq> set (ot_currentFiles t)
     \<and> (\<forall>f \<in> set (ot_currentFiles t). is_object_name f \<and> (dir_get t f \<noteq> None \<longrightarrow> f \<in> names t))"

lemma add_objects_facts:
  assumes "heap_ok t"
  shows "heap_ok (add_objects fs t) \<and> (\<forall>a < ot_next t. ot_heap (add_objects fs t) a = ot_heap t a)
    \<and> set (ot_objects (add_objects fs t)) = set (ot_objects t) \<union> {ot_next t..<ot_next t + length fs}
    \<and> (\<forall>i < length fs. ot_heap (add_objects fs t) (ot_next t + i) = Some (fs ! i, ObjectFile_open (dir_get t (fs ! i))))
    \<and> ot_currentFiles (add_objects fs t) = ot_currentFiles t"
  using assms
proof (induction fs arbitrary: t)
  case (Cons f fs)
  let ?t = "t\<lparr>ot_next := ot_next t + 1, ot_heap := (ot_heap t)(ot_next t \<mapsto> (f, ObjectFile_open (dir_get t f))),
    ot_objects := sset_insert (ot_next t) (ot_objects t), ot_allObjects := sset_insert (ot_next t) (ot_allObjects t)\<rparr>"
  have h: "heap_ok ?t" using Cons.prems by (auto simp: heap_ok_def less_Suc_eq)
  have d: "dir_get ?t = dir_get t" by (simp add: dir_get_def fun_eq_iff)
  note IH = Cons.IH [OF h]
  have "ot_heap (add_objects fs ?t) (ot_next t + i) = Some ((f # fs) ! i, ObjectFile_open (dir_get t ((f # fs) ! i)))"
    if "i < length (f # fs)" for i
    using IH that d by (cases i) simp_all
  moreover have "{ot_next t..<ot_next t + length (f # fs)} = insert (ot_next t) {ot_next ?t..<ot_next ?t + length fs}"
    by auto
  ultimately show ?case using IH by (simp add: Let_def)
qed simp

lemma invalidate_heap:
  "object_file_name (fold invalidate_object as t) a = object_file_name t a \<and>
   ot_objects (fold invalidate_object as t) = ot_objects t \<and> ot_next (fold invalidate_object as t) = ot_next t \<and>
   ot_currentFiles (fold invalidate_object as t) = ot_currentFiles t \<and>
   dom (ot_heap (fold invalidate_object as t)) = dom (ot_heap t) \<and>
   (a \<notin> set as \<longrightarrow> ot_heap (fold invalidate_object as t) a = ot_heap t a) \<and>
   (a \<in> set as \<longrightarrow> (\<forall>f obj. ot_heap (fold invalidate_object as t) a = Some (f, obj) \<longrightarrow> \<not> of_valid obj \<and> of_attributes obj = []))"
proof (induction as arbitrary: t)
  case (Cons x as)
  have inv: "of_attributes (of_invalidate obj) = [] \<and> \<not> of_valid (of_invalidate obj)" for obj
    by (simp add: of_invalidate_def of_discardAttributes_def)
  from Cons [of "invalidate_object x t"] show ?case
    by (auto simp: invalidate_object_def object_file_name_def inv split: option.splits)
qed simp

lemma set_foldr_insert: "set (foldr sset_insert xs ys) = set xs \<union> set ys"
  by (induction xs) auto

lemma distinct_foldr_insert: "sset_ok ys \<Longrightarrow> distinct (foldr sset_insert xs ys)"
  by (rule sset_ok_distinct) (induction xs; simp)

lemma index_inv_env [simp]:
  "index_inv (t\<lparr>ot_gen := u\<rparr>) = index_inv t" "index_inv (t\<lparr>ot_answers := r\<rparr>) = index_inv t"
proof -
  have "object_file_name (t\<lparr>ot_gen := u\<rparr>) = object_file_name t" "object_file_name (t\<lparr>ot_answers := r\<rparr>) = object_file_name t"
    by (simp_all add: object_file_name_def fun_eq_iff)
  then show "index_inv (t\<lparr>ot_gen := u\<rparr>) = index_inv t" "index_inv (t\<lparr>ot_answers := r\<rparr>) = index_inv t"
    by (simp_all add: index_inv_def heap_ok_def)
qed

lemma dir_list_facts:
  assumes "dir_list t = (Some files, t')"
  shows "\<exists>r. t' = t\<lparr>ot_answers := r\<rparr> \<and> (\<forall>f. f \<in> set files \<longleftrightarrow> dir_get t f \<noteq> None)"
proof -
  obtain a r where a: "next_answer t = (a, t\<lparr>ot_answers := r\<rparr>)" by (rule next_answer_cases)
  with assms obtain fs where "ot_dir t = Some fs" "files = map fst fs" "t' = t\<lparr>ot_answers := r\<rparr>"
    by (auto simp: dir_list_def split: option.splits if_splits)
  moreover have "f \<in> set (map fst fs) \<longleftrightarrow> map_of fs f \<noteq> None" for f by (simp add: map_of_eq_None_iff)
  ultimately show ?thesis by (auto simp: dir_get_def)
qed

text \<open>The last part of indexing, on the listing: files added, files gone.\<close>

lemma reindex_facts:
  assumes inv: "index_inv t" and listed: "\<And>f. f \<in> set newSet \<longleftrightarrow> is_object_name f \<and> dir_get t f \<noteq> None"
    and "distinct newSet"
    and added: "added = filter (\<lambda>f. f \<notin> set (ot_currentFiles t)) newSet"
    and t1: "t1 = add_objects added (t\<lparr>ot_currentFiles := newSet\<rparr>)"
    and gone: "set gone = {a \<in> set (ot_objects t1). object_file_name t1 a \<in> set (ot_currentFiles t) - set newSet}"
    and t2: "t2 = (fold invalidate_object gone t1)\<lparr>ot_objects := filter (\<lambda>a. a \<notin> set gone) (ot_objects t1)\<rparr>"
  shows "names t2 = set newSet \<and> index_inv t2
    \<and> (\<forall>a \<in> set (ot_objects t). if dir_get t (object_file_name t a) \<noteq> None
         then a \<in> set (ot_objects t2) \<and> ot_heap t2 a = ot_heap t a
         else a \<notin> set (ot_objects t2) \<and> (\<forall>f obj. ot_heap t2 a = Some (f, obj) \<longrightarrow> \<not> of_valid obj))"
proof -
  let ?n = "ot_next t" and ?t0 = "t\<lparr>ot_currentFiles := newSet\<rparr>"
  have h: "heap_ok t" "heap_ok ?t0" using inv by (auto simp: index_inv_def heap_ok_def)
  note A = add_objects_facts [OF h(2), of added, folded t1, simplified]
  note I = invalidate_heap [of gone t1]
  have low: "a < ?n" if "a \<in> set (ot_objects t)" for a using h(1) that by (auto simp: heap_ok_def)
  have name_old: "object_file_name t1 a = object_file_name t a" if "a \<in> set (ot_objects t)" for a
    using A low [OF that] by (simp add: object_file_name_def)
  have name_new: "object_file_name t1 (?n + i) = added ! i" if "i < length added" for i
    using A that by (simp add: object_file_name_def)
  have new: "\<exists>i < length added. a = ?n + i" if "a \<in> set (ot_objects t1)" "a \<notin> set (ot_objects t)" for a
    using A that by (auto intro: exI [of _ "a - ?n"])
  have old_listed: "object_file_name t a \<in> set (ot_currentFiles t)" if "a \<in> set (ot_objects t)" for a
    using inv that by (auto simp: index_inv_def)
  have names1: "names t1 = names t \<union> set added"
  proof -
    have "{?n..<?n + length added} = (+) ?n ` {..<length added}" by (simp add: lessThan_atLeast0 add.commute)
    then have "object_file_name t1 ` {?n..<?n + length added} = (\<lambda>i. added ! i) ` {..<length added}"
      using name_new by (auto simp: image_image)
    then have "object_file_name t1 ` {?n..<?n + length added} = set added" by (auto simp: set_conv_nth)
    then show ?thesis using A name_old by (auto simp: image_Un)
  qed
  have inj1: "inj_on (object_file_name t1) (set (ot_objects t1))"
  proof (rule inj_onI)
    fix a b assume a: "a \<in> set (ot_objects t1)" and b: "b \<in> set (ot_objects t1)"
      and e: "object_file_name t1 a = object_file_name t1 b"
    have sep: False if xy: "x \<in> set (ot_objects t)" "y \<in> set (ot_objects t1)" "y \<notin> set (ot_objects t)"
      "object_file_name t1 x = object_file_name t1 y" for x y
    proof -
      obtain i where i: "i < length added" "y = ?n + i" using new [OF xy(2, 3)] by blast
      then have "object_file_name t1 y \<in> set added" using name_new [OF i(1)] by simp
      with xy(4) name_old [OF xy(1)] old_listed [OF xy(1)] added show False by simp
    qed
    have d: "distinct added" using assms(3) added by simp
    have old: "a = b" if "a \<in> set (ot_objects t)" "b \<in> set (ot_objects t)"
      using inv that e name_old by (simp add: index_inv_def inj_on_def)
    show "a = b"
    proof (cases "a \<in> set (ot_objects t)"; cases "b \<in> set (ot_objects t)")
      assume n: "a \<notin> set (ot_objects t)" "b \<notin> set (ot_objects t)"
      obtain i j where "i < length added" "a = ?n + i" "j < length added" "b = ?n + j"
        using new [OF a n(1)] new [OF b n(2)] by auto
      with e name_new d show ?thesis by (auto simp: nth_eq_iff_index_eq)
    qed (use a b e old sep [of a b] sep [of b a] in auto)
  qed
  have objs2: "set (ot_objects t2) = set (ot_objects t1) - set gone" by (auto simp: t2)
  have name2: "object_file_name t2 a = object_file_name t1 a" for a
    using invalidate_heap [of gone t1 a] by (simp add: t2 object_file_name_def)
  have names_ok: "is_object_name (object_file_name t a)" if "a \<in> set (ot_objects t)" for a
    using inv old_listed [OF that] unfolding index_inv_def by blast
  have known: "f \<in> names t" if "f \<in> set (ot_currentFiles t)" "dir_get t f \<noteq> None" for f
    using inv that unfolding index_inv_def by blast
  have keep: "object_file_name t1 a \<in> set newSet" if "a \<in> set (ot_objects t1)" "a \<notin> set gone" for a
  proof -
    have "object_file_name t1 a \<in> names t \<union> set added" using names1 that(1) by blast
    then have "object_file_name t1 a \<in> set (ot_currentFiles t) \<or> object_file_name t1 a \<in> set newSet"
      using old_listed added by auto
    then show ?thesis using gone that by blast
  qed
  have "names t2 = set newSet"
  proof
    show "names t2 \<subseteq> set newSet" using keep objs2 name2 by auto
    show "set newSet \<subseteq> names t2"
    proof
      fix f assume f: "f \<in> set newSet"
      then have "f \<in> names t1" using names1 added known listed by (cases "f \<in> set (ot_currentFiles t)") auto
      then obtain a where "a \<in> set (ot_objects t1)" "f = object_file_name t1 a" by auto
      with f gone objs2 name2 show "f \<in> names t2" by auto
    qed
  qed
  moreover have "index_inv t2"
  proof -
    have "heap_ok t2" using A I by (auto simp: t2 heap_ok_def)
    moreover have "ot_currentFiles t2 = newSet" "dir_get t2 = dir_get t"
      using A I t1 invalidate_keeps [of gone t1] add_objects_keeps [of added ?t0]
      by (simp_all add: t2 dir_get_def fun_eq_iff)
    moreover have "inj_on (object_file_name t2) (set (ot_objects t2))"
      using inj1 by (simp add: name2 objs2 inj_on_def)
    ultimately show ?thesis using \<open>names t2 = set newSet\<close> listed by (simp add: index_inv_def)
  qed
  moreover have "if dir_get t (object_file_name t a) \<noteq> None
         then a \<in> set (ot_objects t2) \<and> ot_heap t2 a = ot_heap t a
         else a \<notin> set (ot_objects t2) \<and> (\<forall>f obj. ot_heap t2 a = Some (f, obj) \<longrightarrow> \<not> of_valid obj)"
    if a: "a \<in> set (ot_objects t)" for a
  proof -
    have 1: "a \<in> set (ot_objects t1)" using A a by auto
    have 2: "a \<in> set gone \<longleftrightarrow> dir_get t (object_file_name t a) = None"
      using a gone 1 name_old [OF a] old_listed [OF a] listed names_ok by auto
    have 3: "ot_heap t1 a = ot_heap t a" using A low [OF a] by auto
    show ?thesis using invalidate_heap [of gone t1 a] 1 2 3 objs2 by (auto simp: t2)
  qed
  ultimately show ?thesis by blast
qed


definition sample_dir :: "(string \<times> bytes) list" where
  "sample_dir = [(''token.object'', enc 1 []), (''b.object'', enc 1 []), (''generation'', writeULong 7)]"

definition sample_token :: os_token where
  "sample_token =
     \<lparr>ot_valid = True, ot_tokenObject = ObjectFile_open (Some (enc 1 [])), ot_gen = 6, ot_pendingUpdate = False,
      ot_currentFiles = [''a.object''], ot_objects = [1], ot_allObjects = [1],
      ot_heap = [1 \<mapsto> (''a.object'', ObjectFile_open (Some (enc 1 [])))], ot_next = 2,
      ot_dir = Some sample_dir, ot_writes = [], ot_answers = []\<rparr>"

lemma open_enc_nil: "of_valid (ObjectFile_open (Some (enc g [])))"
  using refresh_enc [of "[]" _ True g] by (simp add: ObjectFile_open_def attrs_ok_def)


end
