(* ===== verification/Token.thy ===== *)
theory Token
  imports Token_Index Secure_Data
begin

unbundle bit_operations_syntax

text \<open>
  \<^verbatim>\<open>src/lib/slot_mgr/Token.cpp\<close>: the token as the PKCS\#11 layer sees it. It puts the
  retry counters of the PIN policy, stored with the token object, in front of the secure
  data manager, and keeps PINs, policy and flags on disk in step with it.

  The state joins the stored token of \<open>OS_Token\<close> and the manager of \<open>Secure_Data\<close>. The
  random generator is shared by all managers; its state is carried by the manager that
  lives and handed through the short-lived ones. Every operation runs under the token's
  mutex and is one step. What it promises is in \<open>Token_Security\<close>, \<open>Token_Life\<close> and
  \<open>Token_Progress\<close>.
\<close>

section \<open>State\<close>

record pin_policy =
  minLength :: byte
  minSOLength :: byte
  maxLength :: byte
  changeUserPINPolicy :: byte
  maxSO :: byte
  maxUser :: byte
  leftSO :: byte
  leftUser :: byte

definition PinPolicy_new :: pin_policy where
  "PinPolicy_new = \<lparr>minLength = 6, minSOLength = 6, maxLength = 32, changeUserPINPolicy = 3,
     maxSO = 10, maxUser = 10, leftSO = 10, leftUser = 10\<rparr>"

record ('c, 'r) hsm_token =
  tk_token :: "os_token option"
  tk_sdm :: "('c, 'r) sdm option"
  tk_valid :: bool
  tk_rng :: 'r

definition rng_of :: "('c, 'r) hsm_token \<Rightarrow> 'r" where
  "rng_of tk = (case tk_sdm tk of None \<Rightarrow> tk_rng tk | Some s \<Rightarrow> sdm_rng s)"

definition put_rng :: "'r \<Rightarrow> ('c, 'r) hsm_token \<Rightarrow> ('c, 'r) hsm_token" where
  "put_rng r tk =
     (case tk_sdm tk of
        None \<Rightarrow> tk\<lparr>tk_rng := r\<rparr>
      | Some s \<Rightarrow> tk\<lparr>tk_sdm := Some (s\<lparr>sdm_rng := r\<rparr>)\<rparr>)"

definition put_token :: "os_token \<Rightarrow> ('c, 'r) hsm_token \<Rightarrow> ('c, 'r) hsm_token" where
  "put_token t tk = tk\<lparr>tk_token := Some t\<rparr>"

definition put_sdm :: "('c, 'r) sdm \<Rightarrow> ('c, 'r) hsm_token \<Rightarrow> ('c, 'r) hsm_token" where
  "put_sdm s tk = tk\<lparr>tk_sdm := Some s\<rparr>"

text \<open>The factory PINs, \<^verbatim>\<open>87654321\<close> for the SO and \<^verbatim>\<open>12345678\<close> for the user.\<close>

definition isFactoryPIN :: "bytes \<Rightarrow> bool \<Rightarrow> bool" where
  "isFactoryPIN pin so \<longleftrightarrow>
     pin = map of_char (if so then ''87654321'' else ''12345678'')"

text \<open>Both blobs, the second only when the first is there; missing ones are empty.\<close>

definition read_pins :: "os_token \<Rightarrow> bool \<times> bytes \<times> bytes \<times> os_token" where
  "read_pins t =
     (case ot_getSOPIN t of
        (None, t) \<Rightarrow> (False, [], [], t)
      | (Some so, t) \<Rightarrow>
          (case ot_getUserPIN t of
             (None, t) \<Rightarrow> (False, so, [], t)
           | (Some user, t) \<Rightarrow> (True, so, user, t)))"

definition Token_null :: "'r \<Rightarrow> ('c, 'r) hsm_token" where
  "Token_null r = \<lparr>tk_token = None, tk_sdm = None, tk_valid = False, tk_rng = r\<rparr>"

definition Token_new :: "('c, 'd, 'r) crypto \<Rightarrow> 'r \<Rightarrow> os_token \<Rightarrow> ('c, 'r) hsm_token" where
  "Token_new cx r inToken =
     (let (ok, soPINBlob, userPINBlob, t) = read_pins inToken
      in \<lparr>tk_token = Some t, tk_sdm = Some (SecureDataManager_blobs cx r soPINBlob userPINBlob),
          tk_valid = ok, tk_rng = r\<rparr>)"

section \<open>The PIN policy\<close>

definition policy_bytes_ok :: "bytes \<Rightarrow> bool" where
  "policy_bytes_ok b \<longleftrightarrow>
     \<not> ((length b \<noteq> 7 \<and> length b \<noteq> 9) \<or> b ! 0 \<noteq> (if length b = 7 then 1 else 2) \<or> b ! 1 < 6
        \<or> b ! 2 > 32 \<or> b ! 1 > b ! 2 \<or> b ! 3 < 3 \<or> b ! 3 > 15 \<or> b ! 4 < 3 \<or> b ! 4 > 15
        \<or> b ! 5 > b ! 3 \<or> b ! 6 > b ! 4)
     \<and> \<not> (length b = 9 \<and> (b ! 7 < 6 \<or> b ! 7 > b ! 2 \<or> b ! 8 < 1 \<or> b ! 8 > 3))"

definition policy_of_bytes :: "bytes \<Rightarrow> pin_policy" where
  "policy_of_bytes b =
     \<lparr>minLength = b ! 1, minSOLength = (if length b = 9 then b ! 7 else b ! 1), maxLength = b ! 2,
      changeUserPINPolicy = (if length b = 9 then b ! 8 else 3),
      maxSO = b ! 3, maxUser = b ! 4, leftSO = b ! 5, leftUser = b ! 6\<rparr>"

definition parse_policy :: "bytes option \<Rightarrow> pin_policy option" where
  "parse_policy b =
     (case b of
        None \<Rightarrow> Some PinPolicy_new
      | Some bytes \<Rightarrow> if policy_bytes_ok bytes then Some (policy_of_bytes bytes) else None)"

definition tk_getPinPolicy :: "('c, 'r) hsm_token \<Rightarrow> pin_policy option \<times> ('c, 'r) hsm_token" where
  "tk_getPinPolicy tk =
     (case tk_token tk of
        None \<Rightarrow> (None, tk)
      | Some t \<Rightarrow>
          (let (ok, b, t) = ot_getPinPolicy t
           in (if ok then parse_policy b else None, put_token t tk)))"

definition policy_to_bytes :: "pin_policy \<Rightarrow> bytes" where
  "policy_to_bytes p =
     [2, minLength p, maxLength p, maxSO p, maxUser p, leftSO p, leftUser p, minSOLength p, changeUserPINPolicy p]"

definition tk_setPinPolicy :: "pin_policy \<Rightarrow> ('c, 'r) hsm_token \<Rightarrow> bool \<times> ('c, 'r) hsm_token" where
  "tk_setPinPolicy p tk =
     (case tk_token tk of
        None \<Rightarrow> (False, tk)
      | Some t \<Rightarrow> (let (ok, t) = ot_setPinPolicy (policy_to_bytes p) t in (ok, put_token t tk)))"

definition pinLocked :: "bool \<Rightarrow> ('c, 'r) hsm_token \<Rightarrow> bool \<times> ('c, 'r) hsm_token" where
  "pinLocked so tk =
     (let (p, tk) = tk_getPinPolicy tk
      in (case p of None \<Rightarrow> True | Some p \<Rightarrow> (if so then leftSO p else leftUser p) = 0, tk))"

text \<open>The three flags that show the state of a counter.\<close>

definition counter_flags :: "bool \<Rightarrow> byte \<Rightarrow> byte \<Rightarrow> ulong \<Rightarrow> ulong" where
  "counter_flags so left maximum flags =
     (let low = (if so then CKF_SO_PIN_COUNT_LOW else CKF_USER_PIN_COUNT_LOW);
          final = (if so then CKF_SO_PIN_FINAL_TRY else CKF_USER_PIN_FINAL_TRY);
          locked = (if so then CKF_SO_PIN_LOCKED else CKF_USER_PIN_LOCKED);
          flags = flags AND NOT (low OR final OR locked);
          flags = (if left < maximum then flags OR low else flags);
          flags = (if left = 1 then flags OR final else flags)
      in if left = 0 then flags OR locked else flags)"

definition pinResult ::
  "bool \<Rightarrow> bool \<Rightarrow> os_token \<Rightarrow> ('c, 'r) sdm \<Rightarrow> ck_rv \<times> os_token \<times> ('c, 'r) sdm" where
  "pinResult so success t sdm =
     (case advancePinPolicy so success t of
        (None, t) \<Rightarrow> (CKR_DEVICE_ERROR, t, sdm_logout sdm)
      | (Some bytes, t) \<Rightarrow>
          (let left = bytes ! leftIndex so; maximum = bytes ! maxIndex so
           in case getTokenFlags t of
                (None, t) \<Rightarrow> (CKR_DEVICE_ERROR, t, sdm_logout sdm)
              | (Some flags, t) \<Rightarrow>
                  (let (ok, t) = setTokenFlags (counter_flags so left maximum flags) t
                   in if \<not> ok then (CKR_DEVICE_ERROR, t, sdm_logout sdm)
                      else if left = 0 then (CKR_PIN_LOCKED, t, sdm_logout sdm)
                      else (if success then CKR_OK else CKR_PIN_INCORRECT, t, sdm))))"

text \<open>
  The end of every operation that looked at a PIN. A token that is not there counts as
  locked before a PIN is looked at, so that case does not arise.
\<close>

definition tk_pinResult ::
  "bool \<Rightarrow> bool \<Rightarrow> ('c, 'r) sdm \<Rightarrow> ('c, 'r) hsm_token \<Rightarrow> ck_rv \<times> ('c, 'r) hsm_token" where
  "tk_pinResult so success sdm tk =
     (case tk_token tk of
        None \<Rightarrow> (CKR_GENERAL_ERROR, put_sdm sdm tk)
      | Some t \<Rightarrow>
          (let (rv, t, sdm) = pinResult so success t sdm in (rv, put_sdm sdm (put_token t tk))))"

section \<open>Login state\<close>

definition tk_isValid :: "('c, 'r) hsm_token \<Rightarrow> bool" where
  "tk_isValid tk \<longleftrightarrow> tk_valid tk \<and> (case tk_token tk of None \<Rightarrow> False | Some t \<Rightarrow> ot_valid t)"

definition isInitialized :: "('c, 'r) hsm_token \<Rightarrow> bool" where
  "isInitialized tk \<longleftrightarrow> tk_token tk \<noteq> None"

definition isSOLoggedIn :: "('c, 'r) hsm_token \<Rightarrow> bool" where
  "isSOLoggedIn tk \<longleftrightarrow> (case tk_sdm tk of None \<Rightarrow> False | Some s \<Rightarrow> soLoggedIn s)"

definition isUserLoggedIn :: "('c, 'r) hsm_token \<Rightarrow> bool" where
  "isUserLoggedIn tk \<longleftrightarrow> (case tk_sdm tk of None \<Rightarrow> False | Some s \<Rightarrow> userLoggedIn s)"

definition loginSO :: "('c, 'd, 'r) crypto \<Rightarrow> bytes \<Rightarrow> ('c, 'r) hsm_token \<Rightarrow> ck_rv \<times> ('c, 'r) hsm_token" where
  "loginSO cx pin tk =
     (case tk_sdm tk of
        None \<Rightarrow> (CKR_GENERAL_ERROR, tk)
      | Some sdm \<Rightarrow>
          if userLoggedIn sdm then (CKR_USER_ANOTHER_ALREADY_LOGGED_IN, tk)
          else if soLoggedIn sdm then (CKR_USER_ALREADY_LOGGED_IN, tk)
          else
            (let (locked, tk) = pinLocked True tk
             in if locked then (CKR_PIN_LOCKED, tk)
                else (let (ok, sdm) = sdm_loginSO cx pin sdm in tk_pinResult True ok sdm tk)))"

definition loginUser :: "('c, 'd, 'r) crypto \<Rightarrow> bytes \<Rightarrow> ('c, 'r) hsm_token \<Rightarrow> ck_rv \<times> ('c, 'r) hsm_token" where
  "loginUser cx pin tk =
     (case tk_sdm tk of
        None \<Rightarrow> (CKR_GENERAL_ERROR, tk)
      | Some sdm \<Rightarrow>
          if soLoggedIn sdm then (CKR_USER_ANOTHER_ALREADY_LOGGED_IN, tk)
          else if userLoggedIn sdm then (CKR_USER_ALREADY_LOGGED_IN, tk)
          else if length (getUserPINBlob sdm) = 0 then (CKR_USER_PIN_NOT_INITIALIZED, tk)
          else
            (let (locked, tk) = pinLocked False tk
             in if locked then (CKR_PIN_LOCKED, tk)
                else (let (ok, sdm) = sdm_loginUser cx pin sdm in tk_pinResult False ok sdm tk)))"

definition reAuthenticate :: "('c, 'd, 'r) crypto \<Rightarrow> bytes \<Rightarrow> ('c, 'r) hsm_token \<Rightarrow> ck_rv \<times> ('c, 'r) hsm_token" where
  "reAuthenticate cx pin tk =
     (case tk_sdm tk of
        None \<Rightarrow> (CKR_GENERAL_ERROR, tk)
      | Some sdm \<Rightarrow>
          if soLoggedIn sdm then
            (let (locked, tk) = pinLocked True tk
             in if locked then (CKR_PIN_LOCKED, tk)
                else (let (ok, sdm) = reAuthenticateSO cx pin sdm in tk_pinResult True ok sdm tk))
          else if userLoggedIn sdm then
            (let (locked, tk) = pinLocked False tk
             in if locked then (CKR_PIN_LOCKED, tk)
                else (let (ok, sdm) = reAuthenticateUser cx pin sdm in tk_pinResult False ok sdm tk))
          else (CKR_OPERATION_NOT_INITIALIZED, tk))"

definition tk_logout :: "('c, 'r) hsm_token \<Rightarrow> ('c, 'r) hsm_token" where
  "tk_logout tk = tk\<lparr>tk_sdm := map_option sdm_logout (tk_sdm tk)\<rparr>"

section \<open>Changing PINs\<close>

text \<open>
  A PIN is verified on a manager made for the purpose. It draws from the shared generator;
  its state goes back to the manager that stays.
\<close>

definition verifier :: "('c, 'd, 'r) crypto \<Rightarrow> ('c, 'r) sdm \<Rightarrow> ('c, 'r) sdm" where
  "verifier cx sdm = SecureDataManager_blobs cx (sdm_rng sdm) (getSOPINBlob sdm) (getUserPINBlob sdm)"

definition tk_setSOPIN ::
  "('c, 'd, 'r) crypto \<Rightarrow> bytes \<Rightarrow> bytes \<Rightarrow> ('c, 'r) hsm_token \<Rightarrow> ck_rv \<times> ('c, 'r) hsm_token" where
  "tk_setSOPIN cx oldPIN newPIN tk =
     (case tk_sdm tk of
        None \<Rightarrow> (CKR_GENERAL_ERROR, tk)
      | Some sdm \<Rightarrow>
          (let (locked, tk) = pinLocked True tk
           in if locked then (CKR_PIN_LOCKED, tk)
              else
                (let (result, v) = sdm_loginSO cx oldPIN (verifier cx sdm);
                     sdm = sdm\<lparr>sdm_rng := sdm_rng v\<rparr>
                 in if \<not> result then tk_pinResult True False sdm tk
                    else
                      (let (ok, sdm) = setSOPIN cx newPIN sdm;
                           tk = put_sdm sdm tk
                       in if \<not> ok then (CKR_GENERAL_ERROR, tk)
                          else
                            (case tk_token tk of
                               None \<Rightarrow> (CKR_GENERAL_ERROR, tk)
                             | Some t \<Rightarrow>
                                 (let (ok, t) = ot_setSOPIN (getSOPINBlob sdm) t
                                  in if \<not> ok then (CKR_GENERAL_ERROR, put_token t tk)
                                     else
                                       (let (ok, t) = setPinDefault 0 (isFactoryPIN newPIN True) t
                                        in if \<not> ok then (CKR_DEVICE_ERROR, put_token t tk)
                                           else
                                             (let (v, _, _, t) = read_pins t
                                              in tk_pinResult True True sdm ((put_token t tk)\<lparr>tk_valid := v\<rparr>)))))))))"

definition tk_setUserPIN ::
  "('c, 'd, 'r) crypto \<Rightarrow> bytes \<Rightarrow> bytes \<Rightarrow> ('c, 'r) hsm_token \<Rightarrow> ck_rv \<times> ('c, 'r) hsm_token" where
  "tk_setUserPIN cx oldPIN newPIN tk =
     (case tk_sdm tk of
        None \<Rightarrow> (CKR_GENERAL_ERROR, tk)
      | Some sdm \<Rightarrow>
          (let stayLoggedIn = userLoggedIn sdm;
               (locked, tk) = pinLocked False tk
           in if locked then (CKR_PIN_LOCKED, tk)
              else
                (let (ok, newSdm) = sdm_loginUser cx oldPIN (verifier cx sdm);
                     old = sdm\<lparr>sdm_rng := sdm_rng newSdm\<rparr>
                 in if \<not> ok then tk_pinResult False False old tk
                    else
                      (let (ok, newSdm) = setUserPIN cx newPIN newSdm;
                           old = sdm\<lparr>sdm_rng := sdm_rng newSdm\<rparr>
                       in if \<not> ok then (CKR_GENERAL_ERROR, put_sdm old tk)
                          else
                            (case tk_token tk of
                               None \<Rightarrow> (CKR_GENERAL_ERROR, put_sdm old tk)
                             | Some t \<Rightarrow>
                                 (let (ok, t) = ot_setUserPIN (getUserPINBlob newSdm) t
                                  in if \<not> ok then (CKR_GENERAL_ERROR, put_sdm old (put_token t tk))
                                     else
                                       (let (ok, t) = setPinDefault 1 (isFactoryPIN newPIN False) t
                                        in if \<not> ok then (CKR_DEVICE_ERROR, put_sdm old (put_token t tk))
                                           else
                                             (let newSdm = (if \<not> stayLoggedIn then sdm_logout newSdm else newSdm);
                                                  (v, _, _, t) = read_pins t;
                                                  (result, tk) = tk_pinResult False True newSdm ((put_token t tk)\<lparr>tk_valid := v\<rparr>)
                                              in if result = CKR_OK
                                                 then (case tk_token tk of
                                                         None \<Rightarrow> (result, tk)
                                                       | Some t \<Rightarrow>
                                                           (let (ok, t) = setUserPinExpired False t
                                                            in (if ok then CKR_OK else CKR_DEVICE_ERROR, put_token t tk)))
                                                 else (result, tk)))))))))"

text \<open>Fill the user counter and clear its flags.\<close>

definition refill_user :: "('c, 'r) hsm_token \<Rightarrow> ck_rv \<times> ('c, 'r) hsm_token" where
  "refill_user tk =
     (let (p, tk) = tk_getPinPolicy tk
      in case (p, tk_token tk) of
           (Some policy, Some t) \<Rightarrow>
             (case getTokenFlags t of
                (None, t) \<Rightarrow> (CKR_DEVICE_ERROR, put_token t tk)
              | (Some flags, t) \<Rightarrow>
                  (let (ok, tk) = tk_setPinPolicy (policy\<lparr>leftUser := maxUser policy\<rparr>) (put_token t tk)
                   in if \<not> ok then (CKR_DEVICE_ERROR, tk)
                      else
                        (case tk_token tk of
                           None \<Rightarrow> (CKR_DEVICE_ERROR, tk)
                         | Some t \<Rightarrow>
                             (let (ok, t) = setTokenFlags (flags AND NOT (CKF_USER_PIN_COUNT_LOW OR CKF_USER_PIN_FINAL_TRY
                                    OR CKF_USER_PIN_LOCKED)) t
                              in (if ok then CKR_OK else CKR_DEVICE_ERROR, put_token t tk)))))
         | _ \<Rightarrow> (CKR_DEVICE_ERROR, tk))"

text \<open>No result: the null pointer \<open>token\<close> would be followed.\<close>

definition initUserPIN ::
  "('c, 'd, 'r) crypto \<Rightarrow> bytes \<Rightarrow> ('c, 'r) hsm_token \<Rightarrow> ck_rv option \<times> ('c, 'r) hsm_token" where
  "initUserPIN cx pin tk =
     (case tk_sdm tk of
        None \<Rightarrow> (Some CKR_GENERAL_ERROR, tk)
      | Some sdm \<Rightarrow>
          (let (ok, sdm) = setUserPIN cx pin sdm;
               tk = put_sdm sdm tk
           in if \<not> ok then (Some CKR_GENERAL_ERROR, tk)
              else
                (case tk_token tk of
                   None \<Rightarrow> (None, tk)
                 | Some t \<Rightarrow>
                     (let (ok, t) = ot_setUserPIN (getUserPINBlob sdm) t
                      in if \<not> ok then (Some CKR_GENERAL_ERROR, put_token t tk)
                         else
                           (let (ok, t) = setPinDefault 1 (isFactoryPIN pin False) t
                            in if \<not> ok then (Some CKR_DEVICE_ERROR, put_token t tk)
                               else
                                 (let (v, _, _, t) = read_pins t;
                                      (rv, tk) = refill_user ((put_token t tk)\<lparr>tk_valid := v\<rparr>)
                                  in (Some rv, tk)))))))"

definition unblockUserPIN :: "('c, 'r) hsm_token \<Rightarrow> ck_rv \<times> ('c, 'r) hsm_token" where
  "unblockUserPIN tk = (if \<not> isSOLoggedIn tk then (CKR_USER_NOT_LOGGED_IN, tk) else refill_user tk)"

section \<open>Creating and formatting tokens\<close>

text \<open>
  \<^verbatim>\<open>sscanf\<close> with \<^verbatim>\<open>%u:%u:%u:%u%c\<close>: white space in front of a number is skipped, a sign
  is taken, a number too long for \<^verbatim>\<open>unsigned long\<close> saturates, and the low 32 bits are
  kept. Four conversions and no fifth means that nothing follows.
\<close>

definition digit_val :: "char \<Rightarrow> nat option" where
  "digit_val c = (let n = (of_char c :: nat) in if 48 \<le> n \<and> n \<le> 57 then Some (n - 48) else None)"

fun scan_digits :: "string \<Rightarrow> nat \<Rightarrow> nat \<times> string" where
  "scan_digits [] acc = (acc, [])"
| "scan_digits (c # cs) acc =
     (case digit_val c of None \<Rightarrow> (acc, c # cs) | Some d \<Rightarrow> scan_digits cs (10 * acc + d))"

definition scan_u :: "string \<Rightarrow> (nat \<times> string) option" where
  "scan_u s =
     (let s = dropWhile is_space s;
          neg = (s \<noteq> [] \<and> List.hd s = CHR ''-'');
          s = (if s \<noteq> [] \<and> (List.hd s = CHR ''-'' \<or> List.hd s = CHR ''+'') then tl s else s)
      in if s = [] \<or> digit_val (List.hd s) = None then None
         else
           (let (v, rest) = scan_digits s 0;
                w = (if v \<ge> 2 ^ 64 then 2 ^ 64 - 1 else if neg then (2 ^ 64 - v) mod 2 ^ 64 else v)
            in Some (w mod 2 ^ 32, rest)))"

fun scan_colon :: "string \<Rightarrow> string option" where
  "scan_colon (c # cs) = (if c = CHR '':'' then Some cs else None)"
| "scan_colon [] = None"

definition scan_policy :: "string \<Rightarrow> (nat \<times> nat \<times> nat \<times> nat) option" where
  "scan_policy s =
     do {
       (so, s) \<leftarrow> scan_u s;
       s \<leftarrow> scan_colon s;
       (user, s) \<leftarrow> scan_u s;
       s \<leftarrow> scan_colon s;
       (minLen, s) \<leftarrow> scan_u s;
       s \<leftarrow> scan_colon s;
       (maxLen, s) \<leftarrow> scan_u s;
       if s = [] then Some (so, user, minLen, maxLen) else None
     }"

text \<open>The policy of \<^verbatim>\<open>SOFTHSM2_INIT_PIN_POLICY\<close>; none when it is set and not acceptable.\<close>

definition requested_policy :: "string option \<Rightarrow> pin_policy option" where
  "requested_policy requested =
     (if requested = None \<or> requested = Some [] then Some PinPolicy_new
      else
        (case scan_policy (the requested) of
           None \<Rightarrow> None
         | Some (so, user, minLen, maxLen) \<Rightarrow>
             if so < 3 \<or> so > 15 \<or> user < 3 \<or> user > 15 \<or> minLen < 6 \<or> maxLen > 32 \<or> minLen > maxLen then None
             else Some (PinPolicy_new\<lparr>maxSO := of_nat so, leftSO := of_nat so, maxUser := of_nat user,
               leftUser := of_nat user, minLength := of_nat minLen, minSOLength := of_nat minLen,
               maxLength := of_nat maxLen\<rparr>)))"

text \<open>The object store: what \<open>newToken\<close> returns for a label; no store is the null pointer.\<close>

type_synonym token_store = "(bytes \<Rightarrow> os_token option) option"

definition fill_token ::
  "('c, 'd, 'r) crypto \<Rightarrow> pin_policy \<Rightarrow> bytes \<Rightarrow> ('c, 'r) hsm_token \<Rightarrow> ck_rv \<times> ('c, 'r) hsm_token" where
  "fill_token cx newPolicy soPIN tk =
     (let (ok, tk) = tk_setPinPolicy newPolicy tk
      in if \<not> ok then (CKR_DEVICE_ERROR, tk)
         else
           (case tk_token tk of
              None \<Rightarrow> (CKR_DEVICE_ERROR, tk)
            | Some t \<Rightarrow>
                (let (ok, t) = setPinDefault 0 (isFactoryPIN soPIN True) t
                 in if \<not> ok then (CKR_DEVICE_ERROR, put_token t tk)
                    else
                      (let (v, soPINBlob, userPINBlob, t) = read_pins t;
                           tk = (put_token t tk)\<lparr>tk_valid := v\<rparr>
                       in (CKR_OK, put_sdm (SecureDataManager_blobs cx (rng_of tk) soPINBlob userPINBlob) tk)))))"

definition createToken ::
  "('c, 'd, 'r) crypto \<Rightarrow> string option \<Rightarrow> token_store \<Rightarrow> bytes \<Rightarrow> bytes option \<Rightarrow> ('c, 'r) hsm_token
     \<Rightarrow> ck_rv option \<times> ('c, 'r) hsm_token" where
  "createToken cx requested objectStore soPIN label tk =
     (case requested_policy requested of
        None \<Rightarrow> (Some CKR_ARGUMENTS_BAD, tk)
      | Some newPolicy \<Rightarrow>
          if length soPIN < unat (minSOLength newPolicy) \<or> length soPIN > unat (maxLength newPolicy)
          then (Some CKR_PIN_LEN_RANGE, tk)
          else
            (case (objectStore, label) of
               (None, _) \<Rightarrow> (Some CKR_GENERAL_ERROR, tk)
             | (_, None) \<Rightarrow> (Some CKR_ARGUMENTS_BAD, tk)
             | (Some newToken, Some lbl) \<Rightarrow>
                 if tk_token tk \<noteq> None then
                   (let (locked, tk) = pinLocked True tk
                    in if locked then (Some CKR_PIN_LOCKED, tk)
                       else
                         (case getTokenFlags (the (tk_token tk)) of
                            (None, t) \<Rightarrow> (Some CKR_GENERAL_ERROR, put_token t tk)
                          | (Some flags, t) \<Rightarrow>
                              (case tk_sdm tk of
                                 None \<Rightarrow> (None, put_token t tk)
                               | Some sdm \<Rightarrow>
                                   (let (ok, sdm) = (if length (getSOPINBlob sdm) > 0 then sdm_loginSO cx soPIN sdm else (True, sdm));
                                        tk = put_token t tk
                                    in if \<not> ok then map_prod Some (\<lambda>x. x) (tk_pinResult True False sdm tk)
                                       else
                                         (let (_, t) = setTokenFlags (flags AND NOT CKF_SO_PIN_COUNT_LOW) t;
                                              (ok, t) = ot_resetToken (take 32 lbl) t;
                                              tk = put_sdm sdm (put_token t tk)
                                          in if \<not> ok then (Some CKR_DEVICE_ERROR, tk)
                                             else map_prod Some (\<lambda>x. x) (fill_token cx newPolicy soPIN tk))))))
                 else
                   (let gen = SecureDataManager_new cx (rng_of tk);
                        (ok, gen) = setSOPIN cx soPIN gen;
                        tk = put_rng (sdm_rng gen) tk
                    in if \<not> ok then (Some CKR_GENERAL_ERROR, tk)
                       else
                         (case newToken (take 32 lbl) of
                            None \<Rightarrow> (Some CKR_DEVICE_ERROR, tk)
                          | Some t \<Rightarrow>
                              (let (ok, t) = ot_setSOPIN (getSOPINBlob gen) t
                               in if \<not> ok then (Some CKR_DEVICE_ERROR, tk)
                                  else map_prod Some (\<lambda>x. x) (fill_token cx newPolicy soPIN (put_token t tk)))))))"

text \<open>Whether formatting is allowed; otherwise the code it ends with.\<close>

definition authorise_format ::
  "('c, 'd, 'r) crypto \<Rightarrow> bool \<Rightarrow> bytes \<Rightarrow> ('c, 'r) hsm_token \<Rightarrow> ck_rv option \<times> ('c, 'r) hsm_token" where
  "authorise_format cx repairMode soPIN tk =
     (if repairMode then
        (if tk_token tk = None then (None, tk)
         else (let (locked, tk) = pinLocked True tk in (if locked then None else Some CKR_PIN_LEN_RANGE, tk)))
      else
        (case (tk_token tk, tk_sdm tk) of
           (Some _, Some sdm) \<Rightarrow>
             if length (getSOPINBlob sdm) > 0 then
               (let (locked, tk) = pinLocked True tk
                in if locked then (Some CKR_PIN_LOCKED, tk)
                   else
                     (let (ok, v) = sdm_loginSO cx soPIN (verifier cx sdm);
                          sdm = sdm\<lparr>sdm_rng := sdm_rng v\<rparr>
                      in if \<not> ok then map_prod Some (\<lambda>x. x) (tk_pinResult True False sdm tk)
                         else (None, put_sdm sdm tk)))
             else (None, tk)
         | _ \<Rightarrow> (None, tk)))"

text \<open>A new master key sealed under both PINs.\<close>

definition fresh_blobs :: "('c, 'd, 'r) crypto \<Rightarrow> bytes \<Rightarrow> bytes \<Rightarrow> 'r \<Rightarrow> bool \<times> ('c, 'r) sdm" where
  "fresh_blobs cx newSOPIN newUserPIN r =
     (let (ok, gen) = setSOPIN cx newSOPIN (SecureDataManager_new cx r)
      in if \<not> ok then (False, gen)
         else
           (let (ok, gen) = sdm_loginSO cx newSOPIN gen
            in if \<not> ok then (False, gen)
               else
                 (let (ok, gen) = setUserPIN cx newUserPIN gen
                  in if \<not> ok then (False, gen) else (True, sdm_logout gen))))"

definition initTokenExtended ::
  "('c, 'd, 'r) crypto \<Rightarrow> token_store \<Rightarrow> bool \<Rightarrow> bytes \<Rightarrow> bytes \<Rightarrow> bytes \<Rightarrow> pin_policy \<Rightarrow> bytes option
     \<Rightarrow> ('c, 'r) hsm_token \<Rightarrow> ck_rv \<times> ('c, 'r) hsm_token" where
  "initTokenExtended cx objectStore repairMode soPIN newSOPIN newUserPIN policy label tk =
     (case (objectStore, label) of
        (None, _) \<Rightarrow> (CKR_GENERAL_ERROR, tk)
      | (_, None) \<Rightarrow> (CKR_ARGUMENTS_BAD, tk)
      | (Some newToken, Some lbl) \<Rightarrow>
          (let existing = (tk_token tk \<noteq> None);
               (refused, tk) = authorise_format cx repairMode soPIN tk
           in case refused of
                Some rv \<Rightarrow> (rv, tk)
              | None \<Rightarrow>
                  (let (ok, gen) = fresh_blobs cx newSOPIN newUserPIN (rng_of tk);
                       tk = put_rng (sdm_rng gen) tk
                   in if \<not> ok then (CKR_GENERAL_ERROR, tk)
                      else
                        (let (ok, t) = (case tk_token tk of
                               Some t \<Rightarrow> (let (ok, t) = ot_resetToken (take 32 lbl) t in (ok, Some t))
                             | None \<Rightarrow> (let t = newToken (take 32 lbl) in (t \<noteq> None, t)));
                             tk = tk\<lparr>tk_token := t\<rparr>
                         in if \<not> ok then (CKR_DEVICE_ERROR, tk)
                            else
                              (let (ok, t) = ot_setSOPIN (getSOPINBlob gen) (the t);
                                   (ok, t) = (if ok then ot_setUserPIN (getUserPINBlob gen) t else (False, t))
                               in if \<not> ok then (CKR_DEVICE_ERROR, tk\<lparr>tk_token := (if existing then Some t else None)\<rparr>)
                                  else
                                    (let (ok, tk) = tk_setPinPolicy policy (put_token t tk)
                                     in if \<not> ok then (CKR_DEVICE_ERROR, tk)
                                        else
                                          (let (ok, t) = setPinDefault 0 (isFactoryPIN newSOPIN True) (the (tk_token tk));
                                               (ok, t) = (if ok then setPinDefault 1 (isFactoryPIN newUserPIN False) t else (False, t));
                                               tk = put_token t tk
                                           in if \<not> ok then (CKR_DEVICE_ERROR, tk)
                                              else
                                                (let (v, soPINBlob, userPINBlob, t) = read_pins t;
                                                     tk = (put_token t tk)\<lparr>tk_valid := v\<rparr>
                                                 in (CKR_OK, put_sdm (SecureDataManager_blobs cx (rng_of tk) soPINBlob userPINBlob) tk)))))))))"

section \<open>Names, licences, the journal\<close>

definition getCreationTime :: "('c, 'r) hsm_token \<Rightarrow> bytes option \<times> ('c, 'r) hsm_token" where
  "getCreationTime tk =
     (case tk_token tk of
        None \<Rightarrow> (None, tk)
      | Some t \<Rightarrow> (let (b, t) = getTokenCreationTime t in (b, put_token t tk)))"

definition getSerial :: "('c, 'r) hsm_token \<Rightarrow> bytes option \<times> ('c, 'r) hsm_token" where
  "getSerial tk =
     (case tk_token tk of
        None \<Rightarrow> (None, tk)
      | Some t \<Rightarrow> (let (b, t) = getTokenSerial t in (b, put_token t tk)))"

text \<open>The label is the name cut or filled up with blanks to 32 bytes.\<close>

definition label_of_name :: "bytes \<Rightarrow> bytes" where
  "label_of_name name = map (\<lambda>i. if i < length name then name ! i else 0x20) [0..<32]"

definition tk_setTokenName :: "bytes \<Rightarrow> ('c, 'r) hsm_token \<Rightarrow> ck_rv \<times> ('c, 'r) hsm_token" where
  "tk_setTokenName name tk =
     (case tk_token tk of
        None \<Rightarrow> (CKR_ARGUMENTS_BAD, tk)
      | Some t \<Rightarrow>
          (let (ok, t) = ot_setTokenName name (label_of_name name) t
           in (if ok then CKR_OK else CKR_DEVICE_ERROR, put_token t tk)))"

definition tk_getTokenName :: "('c, 'r) hsm_token \<Rightarrow> bool \<times> bytes option \<times> ('c, 'r) hsm_token" where
  "tk_getTokenName tk =
     (case tk_token tk of
        None \<Rightarrow> (False, None, tk)
      | Some t \<Rightarrow> (let (ok, b, t) = ot_getTokenName t in (ok, b, put_token t tk)))"

definition tk_getLicense :: "ulong \<Rightarrow> ('c, 'r) hsm_token \<Rightarrow> bool \<times> bytes option \<times> ('c, 'r) hsm_token" where
  "tk_getLicense n tk =
     (case tk_token tk of
        None \<Rightarrow> (False, None, tk)
      | Some t \<Rightarrow> (let (ok, b, t) = ot_getLicense n t in (ok, b, put_token t tk)))"

definition tk_setLicense :: "ulong \<Rightarrow> bytes \<Rightarrow> ('c, 'r) hsm_token \<Rightarrow> ck_rv \<times> ('c, 'r) hsm_token" where
  "tk_setLicense n license tk =
     (case tk_token tk of
        None \<Rightarrow> (CKR_TOKEN_NOT_PRESENT, tk)
      | Some t \<Rightarrow>
          (let (ok, t) = ot_setLicense n license t
           in (if ok then CKR_OK else CKR_DEVICE_ERROR, put_token t tk)))"

definition tk_getJournal :: "('c, 'r) hsm_token \<Rightarrow> bytes option \<times> ('c, 'r) hsm_token" where
  "tk_getJournal tk =
     (case tk_token tk of
        None \<Rightarrow> (None, tk)
      | Some t \<Rightarrow>
          (let (ok, stored, t) = ot_getJournal t
           in (if \<not> ok then None
               else case stored of
                      None \<Rightarrow> Some []
                    | Some s \<Rightarrow> if length s < 4 then None else Some (substr_from s 4),
               put_token t tk)))"

text \<open>
  The record of a signature: tag \<^verbatim>\<open>0x80\<close> around an optional digest (\<^verbatim>\<open>0xAA\<close>), the reversed
  signature (\<^verbatim>\<open>0xB6\<close>) and the operation (\<^verbatim>\<open>0x85\<close>), with the place where the counter goes.
\<close>

definition journal_inner :: "bytes \<Rightarrow> bytes \<Rightarrow> bytes" where
  "journal_inner digest signature =
     (if length digest = 32 \<or> length digest = 64 then [0xAA, of_nat (length digest)] @ digest else []) @
     [0xB6] @ (if length signature \<ge> 128 then [0x81] else []) @ [of_nat (length signature)] @ rev signature @ [0x85, 12]"

definition journal_operation :: "byte \<Rightarrow> bool \<Rightarrow> bytes" where
  "journal_operation rsfType hashedOnToken = [1, rsfType, 0, (if hashedOnToken then 1 else 0), 0, 0, 0, 0, 0, 0, 0, 0]"

definition journal_record :: "bytes \<Rightarrow> bytes \<Rightarrow> byte \<Rightarrow> bool \<Rightarrow> bytes \<times> nat" where
  "journal_record digest signature rsfType hashedOnToken =
     (let inner = journal_inner digest signature;
          countOffsetInInner = length inner + 8;
          inner = inner @ journal_operation rsfType hashedOnToken;
          stored = [0, 0, 0, 0, 0x80] @ (if length inner \<ge> 128 then [0x81] else []) @ [of_nat (length inner)]
      in (stored @ inner, length stored + countOffsetInInner))"

definition recordSignature ::
  "bytes \<Rightarrow> bytes \<Rightarrow> byte \<Rightarrow> bool \<Rightarrow> ('c, 'r) hsm_token \<Rightarrow> ck_rv \<times> ('c, 'r) hsm_token" where
  "recordSignature digest signature rsfType hashedOnToken tk =
     (case tk_token tk of
        None \<Rightarrow> (CKR_TOKEN_NOT_PRESENT, tk)
      | Some t \<Rightarrow>
          if length signature = 0 \<or> length signature > 128 then (CKR_DEVICE_ERROR, tk)
          else
            (let (stored, countOffset) = journal_record digest signature rsfType hashedOnToken;
                 (ok, _, t) = advanceJournal stored countOffset t
             in (if ok then CKR_OK else CKR_DEVICE_ERROR, put_token t tk)))"

section \<open>Local PINs\<close>

definition local_record_ok :: "bytes \<Rightarrow> bool" where
  "local_record_ok r \<longleftrightarrow> \<not> (length r < 43 \<or> r ! 0 \<noteq> 1 \<or> r ! 1 \<noteq> 10 \<or> r ! 2 > 10)"

text \<open>
  One turn of the loop: an answer, or another turn because the record was changed by
  someone else in between. First the current PIN is verified, against the record if there
  is one and as the user PIN if not; \<^verbatim>\<open>CKR_OK\<close> goes on. Then the new record is sealed and
  put in place of the one that was read.
\<close>

definition local_pin_verify ::
  "('c, 'd, 'r) crypto \<Rightarrow> ulong \<Rightarrow> bytes option \<Rightarrow> bytes \<Rightarrow> ('c, 'r) sdm \<Rightarrow> os_token \<Rightarrow> ('c, 'r) hsm_token
     \<Rightarrow> ck_rv option \<times> ('c, 'r) hsm_token" where
  "local_pin_verify cx n record currentPIN sdm t tk =
     (case record of
        Some r \<Rightarrow>
          if \<not> local_record_ok r then (Some CKR_DEVICE_ERROR, tk)
          else if r ! 2 = 0 then (Some CKR_PIN_LOCKED, tk)
          else
            (let (ok, v) = sdm_loginSO cx currentPIN (SecureDataManager_blobs cx (sdm_rng sdm) (substr_from r 3) []);
                 tk = put_rng (sdm_rng v) tk
             in if \<not> ok then
                  (let (ok, changed, t) = updateLocalPIN n r (r[2 := r ! 2 - 1]) None t
                   in (if \<not> ok then Some CKR_DEVICE_ERROR else if changed then Some CKR_PIN_INCORRECT else None,
                       put_token t tk))
                else (Some CKR_OK, tk))
      | None \<Rightarrow>
          (let (locked, tk) = pinLocked False tk
           in if locked then (Some CKR_PIN_LOCKED, tk)
              else
                (let (v, soBlob, userBlob, t) = read_pins (the (tk_token tk));
                     tk = put_token t tk
                 in if \<not> v then (Some CKR_DEVICE_ERROR, tk)
                    else
                      (let (ok, v) = sdm_loginUser cx currentPIN (SecureDataManager_blobs cx (sdm_rng sdm) soBlob userBlob)
                       in map_prod Some (\<lambda>x. x) (tk_pinResult False ok (sdm\<lparr>sdm_rng := sdm_rng v\<rparr>) tk)))))"

definition local_pin_replace ::
  "('c, 'd, 'r) crypto \<Rightarrow> ulong \<Rightarrow> bytes option \<Rightarrow> bytes \<Rightarrow> ('c, 'r) hsm_token \<Rightarrow> ck_rv option \<times> ('c, 'r) hsm_token" where
  "local_pin_replace cx n record newPIN tk =
     (let (ok, replacement) = setSOPIN cx newPIN (SecureDataManager_new cx (rng_of tk));
          tk = put_rng (sdm_rng replacement) tk
      in if \<not> ok then (Some CKR_DEVICE_ERROR, tk)
         else
           (let next = [1, 10, 10] @ getSOPINBlob replacement;
                (ok, changed, t) = updateLocalPIN n (case record of None \<Rightarrow> [] | Some r \<Rightarrow> r) next
                  (Some (isFactoryPIN newPIN False)) (the (tk_token tk))
            in (if \<not> ok then Some CKR_DEVICE_ERROR else if changed then Some CKR_OK else None, put_token t tk)))"

definition local_pin_turn ::
  "('c, 'd, 'r) crypto \<Rightarrow> ulong \<Rightarrow> bytes \<Rightarrow> bytes \<Rightarrow> ('c, 'r) hsm_token \<Rightarrow> ck_rv option \<times> ('c, 'r) hsm_token" where
  "local_pin_turn cx n currentPIN newPIN tk =
     (case (tk_token tk, tk_sdm tk) of
        (Some t, Some sdm) \<Rightarrow>
          (let (ok, record, t) = getLocalPIN n t;
               tk = put_token t tk
           in if \<not> ok then (Some CKR_DEVICE_ERROR, tk)
              else
                (let (answer, tk) = local_pin_verify cx n record currentPIN sdm t tk
                 in if answer \<noteq> Some CKR_OK then (answer, tk) else local_pin_replace cx n record newPIN tk))
      | _ \<Rightarrow> (Some CKR_TOKEN_NOT_PRESENT, tk))"

fun local_pin_loop ::
  "nat \<Rightarrow> ('c, 'd, 'r) crypto \<Rightarrow> ulong \<Rightarrow> bytes \<Rightarrow> bytes \<Rightarrow> ('c, 'r) hsm_token \<Rightarrow> ck_rv \<times> ('c, 'r) hsm_token" where
  "local_pin_loop 0 cx n currentPIN newPIN tk = (CKR_DEVICE_ERROR, tk)"
| "local_pin_loop (Suc k) cx n currentPIN newPIN tk =
     (case local_pin_turn cx n currentPIN newPIN tk of
        (Some rv, tk) \<Rightarrow> (rv, tk)
      | (None, tk) \<Rightarrow> local_pin_loop k cx n currentPIN newPIN tk)"

definition setLocalPIN ::
  "('c, 'd, 'r) crypto \<Rightarrow> ulong \<Rightarrow> bytes \<Rightarrow> bytes \<Rightarrow> ('c, 'r) hsm_token \<Rightarrow> ck_rv \<times> ('c, 'r) hsm_token" where
  "setLocalPIN cx n currentPIN newPIN tk =
     (if tk_token tk = None \<or> tk_sdm tk = None then (CKR_TOKEN_NOT_PRESENT, tk)
      else
        (case tk_getPinPolicy tk of
           (None, tk) \<Rightarrow> (CKR_DEVICE_ERROR, tk)
         | (Some policy, tk) \<Rightarrow>
             if length newPIN < unat (minLength policy) \<or> length newPIN > 249 then (CKR_PIN_LEN_RANGE, tk)
             else local_pin_loop 16 cx n currentPIN newPIN tk))"

definition getLocalPINInfo ::
  "ulong \<Rightarrow> ('c, 'r) hsm_token \<Rightarrow> (ck_rv + byte \<times> byte \<times> byte \<times> bool) \<times> ('c, 'r) hsm_token" where
  "getLocalPINInfo n tk =
     (if tk_token tk = None then (Inl CKR_TOKEN_NOT_PRESENT, tk)
      else
        (case tk_getPinPolicy tk of
           (None, tk) \<Rightarrow> (Inl CKR_DEVICE_ERROR, tk)
         | (Some policy, tk) \<Rightarrow>
             (let (ok, record, t) = getLocalPIN n (the (tk_token tk));
                  tk = put_token t tk
              in case record of
                   None \<Rightarrow> (Inl CKR_DEVICE_ERROR, tk)
                 | Some r \<Rightarrow>
                     if \<not> ok \<or> \<not> local_record_ok r then (Inl CKR_DEVICE_ERROR, tk)
                     else
                       (let (ok, isDefault, t) = ot_getPinDefault n t
                        in (if ok then Inr (minLength policy, r ! 1, r ! 2, isDefault) else Inl CKR_DEVICE_ERROR,
                            put_token t tk)))))"

definition forceUserPINChange :: "('c, 'r) hsm_token \<Rightarrow> ck_rv \<times> ('c, 'r) hsm_token" where
  "forceUserPINChange tk =
     (case (tk_token tk, tk_sdm tk) of
        (Some t, Some sdm) \<Rightarrow>
          if \<not> soLoggedIn sdm then (CKR_USER_NOT_LOGGED_IN, tk)
          else
            (let (ok, t) = setUserPinExpired True t
             in (if ok then CKR_OK else CKR_DEVICE_ERROR, put_token t tk))
      | _ \<Rightarrow> (CKR_TOKEN_NOT_PRESENT, tk))"

definition tk_decrypt :: "('c, 'd, 'r) crypto \<Rightarrow> bytes \<Rightarrow> ('c, 'r) hsm_token \<Rightarrow> bytes option \<times> ('c, 'r) hsm_token" where
  "tk_decrypt cx encrypted tk =
     (case tk_sdm tk of
        None \<Rightarrow> (None, tk)
      | Some sdm \<Rightarrow> (let (p, sdm) = sdm_decrypt cx encrypted sdm in (p, put_sdm sdm tk)))"

definition tk_encrypt :: "('c, 'd, 'r) crypto \<Rightarrow> bytes \<Rightarrow> ('c, 'r) hsm_token \<Rightarrow> bytes option \<times> ('c, 'r) hsm_token" where
  "tk_encrypt cx plaintext tk =
     (case tk_sdm tk of
        None \<Rightarrow> (None, tk)
      | Some sdm \<Rightarrow> (let (c, sdm) = sdm_encrypt cx plaintext sdm in (c, put_sdm sdm tk)))"

section \<open>Token information\<close>

record token_info =
  ti_label :: bytes
  ti_serialNumber :: bytes
  ti_flags :: ulong
  ti_manufacturerID :: bytes
  ti_model :: bytes
  ti_maxPinLen :: nat
  ti_minPinLen :: nat

text \<open>
  \<^verbatim>\<open>strncpy\<close> with the size of the source as its bound, onto a buffer: the bytes up to the
  first zero, then zeros; the rest of the buffer stays.
\<close>

definition strncpy :: "bytes \<Rightarrow> bytes \<Rightarrow> bytes" where
  "strncpy dst src =
     (let s = takeWhile (\<lambda>b. b \<noteq> 0) src
      in s @ replicate (length src - length s) 0 @ drop (length src) dst)"

definition blank_filled :: "nat \<Rightarrow> string \<Rightarrow> bytes" where
  "blank_filled n s = (let b = map of_char (take n s) in b @ replicate (n - length b) 0x20)"

definition policy_flags :: "pin_policy \<Rightarrow> ulong \<Rightarrow> ulong" where
  "policy_flags policy flags =
     (let flags = flags AND NOT (CKF_SO_PIN_COUNT_LOW OR CKF_SO_PIN_FINAL_TRY OR CKF_SO_PIN_LOCKED OR
            CKF_USER_PIN_COUNT_LOW OR CKF_USER_PIN_FINAL_TRY OR CKF_USER_PIN_LOCKED);
          flags = (if leftSO policy < maxSO policy then flags OR CKF_SO_PIN_COUNT_LOW else flags);
          flags = (if leftSO policy = 1 then flags OR CKF_SO_PIN_FINAL_TRY else flags);
          flags = (if leftSO policy = 0 then flags OR CKF_SO_PIN_LOCKED else flags);
          flags = (if leftUser policy < maxUser policy then flags OR CKF_USER_PIN_COUNT_LOW else flags);
          flags = (if leftUser policy = 1 then flags OR CKF_USER_PIN_FINAL_TRY else flags)
      in if leftUser policy = 0 then flags OR CKF_USER_PIN_LOCKED else flags)"

definition info_blank :: token_info where
  "info_blank =
     \<lparr>ti_label = replicate 32 0x20, ti_serialNumber = replicate 16 0x20, ti_flags = 0,
      ti_manufacturerID = blank_filled 32 ''SoftHSM project'', ti_model = blank_filled 16 ''SoftHSM v2'',
      ti_maxPinLen = 0, ti_minPinLen = 0\<rparr>"

text \<open>The fields that are the same for every token and the time are left out.\<close>

definition getTokenInfo :: "('c, 'r) hsm_token \<Rightarrow> (ck_rv + token_info) \<times> ('c, 'r) hsm_token" where
  "getTokenInfo tk =
     (case tk_token tk of
        None \<Rightarrow>
          (Inr (info_blank\<lparr>ti_flags := CKF_RNG OR CKF_LOGIN_REQUIRED OR CKF_RESTORE_KEY_NOT_NEEDED OR
             CKF_SO_PIN_LOCKED OR CKF_SO_PIN_TO_BE_CHANGED,
             ti_maxPinLen := unat (maxLength PinPolicy_new), ti_minPinLen := unat (minLength PinPolicy_new)\<rparr>), tk)
      | Some t \<Rightarrow>
          (case getTokenFlags t of
             (None, t) \<Rightarrow> (Inl CKR_GENERAL_ERROR, put_token t tk)
           | (Some flags, t) \<Rightarrow>
               (case tk_getPinPolicy (put_token t tk) of
                  (None, tk) \<Rightarrow> (Inl CKR_DEVICE_ERROR, tk)
                | (Some policy, tk) \<Rightarrow>
                    (let (label, t) = getTokenLabel (the (tk_token tk));
                         (serial, t) = getTokenSerial t;
                         info = info_blank\<lparr>ti_flags := policy_flags policy flags\<rparr>;
                         info = (case label of None \<Rightarrow> info | Some l \<Rightarrow> info\<lparr>ti_label := strncpy (ti_label info) l\<rparr>);
                         info = (case serial of None \<Rightarrow> info | Some l \<Rightarrow> info\<lparr>ti_serialNumber := strncpy (ti_serialNumber info) l\<rparr>)
                     in case tk_getPinPolicy (put_token t tk) of
                          (None, tk) \<Rightarrow> (Inl CKR_DEVICE_ERROR, tk)
                        | (Some policy, tk) \<Rightarrow>
                            (Inr (info\<lparr>ti_maxPinLen := unat (maxLength policy), ti_minPinLen := unat (minLength policy)\<rparr>), tk)))))"

end
