(* ===== verification/Token_Security.thy ===== *)
theory Token_Security
  imports Token
begin

text \<open>
  What the token promises about PINs (\<^verbatim>\<open>src/lib/slot_mgr/Token.cpp\<close> on top of
  \<^verbatim>\<open>OSToken.cpp\<close> and \<^verbatim>\<open>SecureDataManager.cpp\<close>). The contract of a guarded PIN is the
  locale \<open>pin_guard\<close>: a wrong answer costs a try, without tries the PIN is not looked at.
  The bound on the number of guesses is proved once in it and holds for both roles by
  interpretation.
\<close>

section \<open>The bytes of the policy\<close>

definition policy_ok :: "pin_policy \<Rightarrow> bool" where
  "policy_ok p \<longleftrightarrow> 6 \<le> minLength p \<and> minLength p \<le> maxLength p \<and> maxLength p \<le> 32
     \<and> 6 \<le> minSOLength p \<and> minSOLength p \<le> maxLength p
     \<and> changeUserPINPolicy p \<noteq> 0 \<and> changeUserPINPolicy p \<le> 3
     \<and> 3 \<le> maxSO p \<and> maxSO p \<le> 15 \<and> 3 \<le> maxUser p \<and> maxUser p \<le> 15
     \<and> leftSO p \<le> maxSO p \<and> leftUser p \<le> maxUser p"

lemma policy_of_accepted: "policy_bytes_ok b \<Longrightarrow> policy_ok (policy_of_bytes b)"
  by (auto simp: policy_bytes_ok_def policy_of_bytes_def policy_ok_def not_less)

lemma parse_policy_cases: "parse_policy b = Some p \<Longrightarrow> policy_ok p"
  by (auto simp: parse_policy_def policy_of_accepted split: option.splits if_splits)
    (simp add: policy_ok_def PinPolicy_new_def)

text \<open>
  The PIN policy survives storage, and nothing out of range is ever taken from disk.
  A policy within the limits is written as nine bytes that are read back as the same
  policy; whatever bytes are found, a policy that is accepted is within the limits (lengths
  6 to 32, 3 to 15 tries, counters not above their maximum), also from the older form of
  seven bytes.
\<close>

theorem policy_bytes_roundtrip:
  "policy_ok p \<Longrightarrow> parse_policy (Some (policy_to_bytes p)) = Some p \<and> (\<forall>b q. parse_policy b = Some q \<longrightarrow> policy_ok q)"
proof -
  assume "policy_ok p"
  then have "policy_bytes_ok (policy_to_bytes p)"
    by (auto simp: policy_bytes_ok_def policy_to_bytes_def policy_ok_def)
  moreover have "policy_of_bytes (policy_to_bytes p) = p"
    by (cases p) (simp add: policy_of_bytes_def policy_to_bytes_def)
  ultimately show ?thesis using parse_policy_cases by (simp add: parse_policy_def)
qed

theorem policy_bytes_roundtrip_witness:
  "policy_ok PinPolicy_new \<and> parse_policy (Some (policy_to_bytes PinPolicy_new)) = Some PinPolicy_new"
proof -
  have "policy_ok PinPolicy_new" by (simp add: policy_ok_def PinPolicy_new_def)
  with policy_bytes_roundtrip [OF this] show ?thesis by blast
qed

section \<open>The counter on disk\<close>

text \<open>How many tries the stored attributes grant; none when there is no readable policy.\<close>

definition tries :: "bool \<Rightarrow> attr_map \<Rightarrow> nat" where
  "tries so m = (if policy_bytes_ok (policy_of m) then unat (policy_of m ! leftIndex so) else 0)"

lemma policy_of_find:
  "parse_policy (map_option attr_getByteStringValue (omap_find m CKA_OS_PINPOLICY)) =
     (if policy_bytes_ok (policy_of m) then Some (policy_of_bytes (policy_of m)) else None)"
  by (auto simp: parse_policy_def policy_of_def policy_of_bytes_def default_policy_def PinPolicy_new_def
      policy_bytes_ok_def split: option.splits)

lemma policy_of_insert: "policy_of (omap_insert CKA_OS_PINPOLICY (BYTESTR p) m) = p"
  by (simp add: policy_of_def)

lemma policy_of_flags: "policy_of (omap_insert CKA_OS_TOKENFLAGS v m) = policy_of m"
  by (simp add: policy_of_def cka_os_defs)

lemma bytes_shape: "policy_bytes_ok b \<Longrightarrow> length b = 7 \<or> length b = 9"
  by (auto simp: policy_bytes_ok_def)

lemma byte_pred:
  fixes x y :: byte
  assumes "x \<noteq> 0"
  shows "unat (x - 1) = unat x - 1" "x \<le> y \<Longrightarrow> x - 1 \<le> y"
  using assms by (simp_all add: unat_minus_one word_le_nat_alt)

lemma advance_ok:
  assumes "policy_bytes_ok b" "advance_bytes so success b = Some b'"
  shows "policy_bytes_ok b' \<and> b' ! leftIndex (\<not> so) = b ! leftIndex (\<not> so)
    \<and> unat (b' ! leftIndex so) = (if b ! leftIndex so = 0 then 0 else if success then unat (b ! maxIndex so)
         else unat (b ! leftIndex so) - 1)"
  using assms bytes_shape [OF assms(1)] byte_pred
  by (cases so) (auto simp: advance_bytes_def policy_bytes_ok_def leftIndex_def maxIndex_def nth_list_update not_less
      split: if_splits)

lemma tries_advance:
  assumes "policy_bytes_ok (policy_of m)" "advance_bytes so success (policy_of m) = Some (policy_of m')"
  shows "\<not> success \<Longrightarrow> tries so m' = tries so m - 1"
    and "success \<Longrightarrow> 0 < tries so m \<Longrightarrow> tries so m' = unat (policy_of m ! maxIndex so)"
    and "tries (\<not> so) m' = tries (\<not> so) m"
  using advance_ok [OF assms] assms(1) by (auto simp: tries_def unat_gt_0)

lemma tries_bound: "tries so m \<le> 15"
proof (cases "policy_bytes_ok (policy_of m)")
  case True
  then have "policy_of m ! leftIndex so \<le> 15"
    by (cases so) (auto simp: policy_bytes_ok_def leftIndex_def not_less)
  with True show ?thesis by (simp add: tries_def word_le_nat_alt)
qed (simp add: tries_def)

section \<open>Locking and the result of an attempt\<close>

lemma put_token_simps [simp]:
  "tk_token (put_token t tk) = Some t" "tk_sdm (put_token t tk) = tk_sdm tk" "tk_valid (put_token t tk) = tk_valid tk"
  "tk_sdm (put_sdm s tk) = Some s" "tk_token (put_sdm s tk) = tk_token tk" "put_token t (put_token u tk) = put_token t tk"
  by (simp_all add: put_token_def put_sdm_def)

lemma pinLocked_stored:
  assumes "tk_token tk = Some t" "stored t g m" "pinLocked so tk = (l, tk')"
  shows "\<exists>t'. tk' = put_token t' tk \<and> stored t' g m \<and> (\<not> l \<longrightarrow> policy_bytes_ok (policy_of m) \<and> 0 < tries so m)
    \<and> (tries so m = 0 \<longrightarrow> l)"
proof -
  obtain ok b t' where r: "ot_getPinPolicy t = (ok, b, t')" by (cases "ot_getPinPolicy t")
  note c = getPinPolicy_cases [OF assms(2) r]
  have tk': "tk' = put_token t' tk"
    and l: "l = (case if ok then parse_policy b else None of None \<Rightarrow> True | Some p \<Rightarrow> (if so then leftSO p else leftUser p) = 0)"
    using assms(1, 3) r by (auto simp: pinLocked_def tk_getPinPolicy_def)
  have left: "(if so then leftSO (policy_of_bytes b) else leftUser (policy_of_bytes b)) = b ! leftIndex so" for b
    by (simp add: policy_of_bytes_def leftIndex_def)
  show ?thesis
  proof (cases ok)
    case True
    with c have b: "synced t' g m" "b = map_option attr_getByteStringValue (omap_find m CKA_OS_PINPOLICY)" by auto
    have "l = (\<not> policy_bytes_ok (policy_of m) \<or> policy_of m ! leftIndex so = 0)"
      unfolding l b(2) policy_of_find using True left by (simp split: option.splits)
    with tk' b(1) show ?thesis by (auto simp: synced_def tries_def unat_gt_0)
  qed (use c tk' l in auto)
qed

lemma pinLocked_absent: "tk_token tk = None \<Longrightarrow> pinLocked so tk = (True, tk)"
  by (simp add: pinLocked_def tk_getPinPolicy_def)

lemma pinLocked_sdm: "pinLocked so tk = (l, tk') \<Longrightarrow> tk_sdm tk' = tk_sdm tk \<and> (\<not> l \<longrightarrow> tk_token tk' \<noteq> None)"
  by (auto simp: pinLocked_def tk_getPinPolicy_def split: option.splits prod.splits)

text \<open>
  The counter moves before any answer that depends on the PIN is given; what is on disk
  afterwards is the old policy or the advanced one.
\<close>

lemma pinResult_stored:
  assumes "stored t g m" "pinResult so success t sdm = (rv, t', sdm')"
  shows "\<exists>g' m'. stored t' g' m' \<and>
    (advance_bytes so success (policy_of m) = Some (policy_of m') \<or> policy_of m' = policy_of m \<and> rv = CKR_DEVICE_ERROR)"
proof -
  obtain r t1 where 1: "advancePinPolicy so success t = (r, t1)" by (cases "advancePinPolicy so success t")
  note a = advance_cases [OF assms(1) 1]
  show ?thesis
  proof (cases r)
    case None
    with a 1 assms(2) show ?thesis by (auto simp: pinResult_def)
  next
    case (Some p)
    let ?m = "omap_insert CKA_OS_PINPOLICY (BYTESTR p) m"
    from a Some have p: "advance_bytes so success (policy_of m) = Some p" and s1: "synced t1 (gen_next g) ?m" by auto
    then have st1: "stored t1 (gen_next g) ?m" by (simp add: synced_def)
    obtain fl t2 where 2: "getTokenFlags t1 = (fl, t2)" by (cases "getTokenFlags t1")
    note f = getTokenFlags_cases [OF st1 2]
    show ?thesis
    proof (cases fl)
      case None
      with f 1 2 Some assms(2) have "stored t' (gen_next g) ?m" by (auto simp: pinResult_def)
      with p show ?thesis by (intro exI [of _ "gen_next g"] exI [of _ ?m]) (simp add: policy_of_insert)
    next
      case (Some flags)
      let ?fl = "counter_flags so (p ! leftIndex so) (p ! maxIndex so) flags"
      obtain ok t3 where 3: "setTokenFlags ?fl t2 = (ok, t3)" by (cases "setTokenFlags ?fl t2")
      have "\<exists>g' m'. stored t3 g' m' \<and> policy_of m' = p"
        using setTokenFlags_cases [OF _ 3] f Some
        by (cases ok) (auto simp: synced_def policy_of_insert policy_of_flags intro!: exI)
      moreover have "t' = t3" using assms(2) 1 2 3 \<open>r = Some p\<close> Some by (auto simp: pinResult_def Let_def split: if_splits)
      ultimately show ?thesis using p by auto
    qed
  qed
qed

text \<open>What the answers say about the login.\<close>

lemma pinResult_rv:
  assumes "pinResult so success t sdm = (rv, t', sdm')"
  shows "rv \<in> {CKR_OK, CKR_PIN_INCORRECT, CKR_PIN_LOCKED, CKR_DEVICE_ERROR}"
    and "rv = CKR_OK \<Longrightarrow> success \<and> sdm' = sdm" and "rv = CKR_PIN_INCORRECT \<Longrightarrow> \<not> success \<and> sdm' = sdm"
    and "rv \<noteq> CKR_OK \<Longrightarrow> rv \<noteq> CKR_PIN_INCORRECT \<Longrightarrow> sdm' = sdm_logout sdm"
  using assms by (auto simp: pinResult_def Let_def split: option.splits prod.splits if_splits)

lemma open_blob_aes: "\<exists>a. snd (open_blob cx pass blob sdm) = sdm\<lparr>sdm_aes := a\<rparr>"
proof -
  have "sdm = sdm\<lparr>sdm_aes := sdm_aes sdm\<rparr>" by simp
  then show ?thesis
    by (auto simp: open_blob_def Let_def split: option.splits prod.splits if_splits intro: exI [of _ "sdm_aes sdm"])
qed

lemma sdm_login_fields:
  assumes "sdm_login cx pass blob sdm = (ok, s)"
  shows "\<not> soLoggedIn s \<and> \<not> userLoggedIn s \<and> soEncryptedKey s = soEncryptedKey sdm \<and> userEncryptedKey s = userEncryptedKey sdm"
proof -
  obtain a where "snd (open_blob cx pass blob (sdm_logout sdm)) = (sdm_logout sdm)\<lparr>sdm_aes := a\<rparr>"
    using open_blob_aes by blast
  with assms show ?thesis
    by (auto simp: sdm_login_def sdm_logout_def remask_facts split: prod.splits option.splits)
qed

lemma sdm_loginUser_fields:
  assumes "sdm_loginUser cx pin sdm = (ok, s)"
  shows "\<not> soLoggedIn s \<and> userLoggedIn s = ok \<and> soEncryptedKey s = soEncryptedKey sdm \<and> userEncryptedKey s = userEncryptedKey sdm"
  using assms sdm_login_fields [of cx pin "userEncryptedKey sdm" sdm]
  by (auto simp: sdm_loginUser_def split: prod.splits)

lemma sdm_loginSO_fields:
  assumes "sdm_loginSO cx pin sdm = (ok, s)"
  shows "\<not> userLoggedIn s \<and> soLoggedIn s = ok \<and> soEncryptedKey s = soEncryptedKey sdm \<and> userEncryptedKey s = userEncryptedKey sdm"
  using assms sdm_login_fields [of cx pin "soEncryptedKey sdm" sdm]
  by (auto simp: sdm_loginSO_def split: prod.splits)

abbreviation nobody :: "('c, 'r) hsm_token \<Rightarrow> bool" where
  "nobody tk \<equiv> \<not> isSOLoggedIn tk \<and> \<not> isUserLoggedIn tk"

lemma pinLocked_keeps: "pinLocked so tk = (l, tk') \<Longrightarrow> isSOLoggedIn tk' = isSOLoggedIn tk \<and> isUserLoggedIn tk' = isUserLoggedIn tk"
  using pinLocked_sdm [of so tk l tk'] by (simp add: isSOLoggedIn_def isUserLoggedIn_def)

text \<open>The two logins, from the point where the PIN is looked at.\<close>

lemma loginUser_cases:
  assumes "loginUser cx pin tk = (rv, tk')" "nobody tk"
  obtains (early) "rv \<noteq> CKR_OK" "rv \<noteq> CKR_PIN_INCORRECT" "nobody tk'" "tk_sdm tk' = tk_sdm tk"
      "tk' = tk \<or> tk' = snd (pinLocked False tk)"
      "\<forall>s. tk_sdm tk = Some s \<and> length (getUserPINBlob s) \<noteq> 0 \<longrightarrow> rv = CKR_PIN_LOCKED \<and> fst (pinLocked False tk)"
  | (looked) s t ok s1 t' s2 tk1 where "tk_sdm tk = Some s" "pinLocked False tk = (False, tk1)" "tk_token tk1 = Some t"
      "sdm_loginUser cx pin s = (ok, s1)" "pinResult False ok t s1 = (rv, t', s2)" "tk' = put_sdm s2 (put_token t' tk1)"
proof (cases "tk_sdm tk")
  case None
  with assms show ?thesis by (intro early) (auto simp: loginUser_def)
next
  case (Some s)
  have nb: "\<not> soLoggedIn s" "\<not> userLoggedIn s" using assms(2) Some by (simp_all add: isSOLoggedIn_def isUserLoggedIn_def)
  obtain l tk1 where l: "pinLocked False tk = (l, tk1)" by (cases "pinLocked False tk")
  show ?thesis
  proof (cases "length (getUserPINBlob s) = 0 \<or> l")
    case True
    then show ?thesis
      using assms Some nb l pinLocked_keeps [OF l] pinLocked_sdm [OF l]
      by (intro early) (auto simp: loginUser_def split: if_splits)
  next
    case False
    then obtain t where t: "tk_token tk1 = Some t" using pinLocked_sdm [OF l] by auto
    obtain ok s1 where o: "sdm_loginUser cx pin s = (ok, s1)" by (cases "sdm_loginUser cx pin s")
    obtain rv' t' s2 where r: "pinResult False ok t s1 = (rv', t', s2)" by (cases "pinResult False ok t s1")
    have "rv' = rv" "tk' = put_sdm s2 (put_token t' tk1)"
      using assms(1) Some nb l False t o r by (auto simp: loginUser_def tk_pinResult_def)
    with Some l False t o r show ?thesis by (intro looked) auto
  qed
qed

lemma loginSO_cases:
  assumes "loginSO cx pin tk = (rv, tk')" "nobody tk"
  obtains (early) "rv \<noteq> CKR_OK" "rv \<noteq> CKR_PIN_INCORRECT" "nobody tk'" "tk_sdm tk' = tk_sdm tk"
      "tk' = tk \<or> tk' = snd (pinLocked True tk)"
      "tk_sdm tk \<noteq> None \<longrightarrow> rv = CKR_PIN_LOCKED \<and> fst (pinLocked True tk)"
  | (looked) s t ok s1 t' s2 tk1 where "tk_sdm tk = Some s" "pinLocked True tk = (False, tk1)" "tk_token tk1 = Some t"
      "sdm_loginSO cx pin s = (ok, s1)" "pinResult True ok t s1 = (rv, t', s2)" "tk' = put_sdm s2 (put_token t' tk1)"
proof (cases "tk_sdm tk")
  case None
  with assms show ?thesis by (intro early) (auto simp: loginSO_def)
next
  case (Some s)
  have nb: "\<not> soLoggedIn s" "\<not> userLoggedIn s" using assms(2) Some by (simp_all add: isSOLoggedIn_def isUserLoggedIn_def)
  obtain l tk1 where l: "pinLocked True tk = (l, tk1)" by (cases "pinLocked True tk")
  show ?thesis
  proof (cases l)
    case True
    then show ?thesis
      using assms Some nb l pinLocked_keeps [OF l] pinLocked_sdm [OF l]
      by (intro early) (auto simp: loginSO_def split: if_splits)
  next
    case False
    then obtain t where t: "tk_token tk1 = Some t" using pinLocked_sdm [OF l] by auto
    obtain ok s1 where o: "sdm_loginSO cx pin s = (ok, s1)" by (cases "sdm_loginSO cx pin s")
    obtain rv' t' s2 where r: "pinResult True ok t s1 = (rv', t', s2)" by (cases "pinResult True ok t s1")
    have "rv' = rv" "tk' = put_sdm s2 (put_token t' tk1)"
      using assms(1) Some nb l False t o r by (auto simp: loginSO_def tk_pinResult_def)
    with Some l False t o r show ?thesis by (intro looked) auto
  qed
qed

lemma sdm_logout_fields [simp]:
  "\<not> soLoggedIn (sdm_logout s)" "\<not> userLoggedIn (sdm_logout s)" "userEncryptedKey (sdm_logout s) = userEncryptedKey s"
  "soEncryptedKey (sdm_logout s) = soEncryptedKey s"
  by (simp_all add: sdm_logout_def)

lemma looked_login:
  assumes "pinResult so ok t s1 = (rv, t', s2)" "soLoggedIn s1 = (so \<and> ok)" "userLoggedIn s1 = (\<not> so \<and> ok)"
  shows "if rv = CKR_OK then ok \<and> soLoggedIn s2 = so \<and> userLoggedIn s2 = (\<not> so) else \<not> soLoggedIn s2 \<and> \<not> userLoggedIn s2"
  using pinResult_rv [OF assms(1)] assms(2, 3) by (cases "rv = CKR_PIN_INCORRECT") (auto split: if_splits)

text \<open>
  C33: a login that is not answered with \<^verbatim>\<open>CKR_OK\<close> logs nobody in, and one that is logs in
  the one role asked for, and only when the PIN opened the key. This holds whatever the
  disk answers: a failure to record the attempt, after a correct PIN, logs out again.
\<close>

theorem login_fails_closed:
  assumes "nobody tk" and "loginUser cx pin tk = (rv, tk')" and "loginSO cx pin tk = (rv2, tk2)"
  shows "(rv \<noteq> CKR_OK \<longrightarrow> nobody tk')
    \<and> (rv = CKR_OK \<longrightarrow> isUserLoggedIn tk' \<and> \<not> isSOLoggedIn tk' \<and> fst (sdm_loginUser cx pin (the (tk_sdm tk))))
    \<and> (rv2 \<noteq> CKR_OK \<longrightarrow> nobody tk2)
    \<and> (rv2 = CKR_OK \<longrightarrow> isSOLoggedIn tk2 \<and> \<not> isUserLoggedIn tk2 \<and> fst (sdm_loginSO cx pin (the (tk_sdm tk))))"
proof -
  have "(rv \<noteq> CKR_OK \<longrightarrow> nobody tk')
    \<and> (rv = CKR_OK \<longrightarrow> isUserLoggedIn tk' \<and> \<not> isSOLoggedIn tk' \<and> fst (sdm_loginUser cx pin (the (tk_sdm tk))))"
    using assms(2, 1)
  proof (cases rule: loginUser_cases)
    case (looked s t ok s1 t' s2 tk1)
    with looked_login [OF looked(5)] sdm_loginUser_fields [OF looked(4)] show ?thesis
      by (auto simp: isSOLoggedIn_def isUserLoggedIn_def split: if_splits)
  qed simp
  moreover have "(rv2 \<noteq> CKR_OK \<longrightarrow> nobody tk2)
    \<and> (rv2 = CKR_OK \<longrightarrow> isSOLoggedIn tk2 \<and> \<not> isUserLoggedIn tk2 \<and> fst (sdm_loginSO cx pin (the (tk_sdm tk))))"
    using assms(3, 1)
  proof (cases rule: loginSO_cases)
    case (looked s t ok s1 t' s2 tk1)
    with looked_login [OF looked(5)] sdm_loginSO_fields [OF looked(4)] show ?thesis
      by (auto simp: isSOLoggedIn_def isUserLoggedIn_def split: if_splits)
  qed simp
  ultimately show ?thesis by blast
qed

theorem login_fails_closed_witness:
  "nobody (Token_null () :: (unit, unit) hsm_token)
     \<and> fst (loginUser sample_crypto [1, 2] (Token_null ())) \<noteq> CKR_OK
     \<and> nobody (snd (loginUser sample_crypto [1, 2] (Token_null ())))"
proof -
  have n: "nobody (Token_null () :: (unit, unit) hsm_token)"
    by (simp add: Token_null_def isSOLoggedIn_def isUserLoggedIn_def)
  have "loginUser sample_crypto [1, 2] (Token_null ()) = (CKR_GENERAL_ERROR, Token_null ())"
    "loginSO sample_crypto [1, 2] (Token_null ()) = (CKR_GENERAL_ERROR, Token_null ())"
    by (simp_all add: loginUser_def loginSO_def Token_null_def)
  with login_fails_closed [OF n this] n show ?thesis by simp
qed

section \<open>Guessing\<close>

text \<open>A sequence of attempts and their answers.\<close>

fun attempts :: "('p \<Rightarrow> 's \<Rightarrow> ck_rv \<times> 's) \<Rightarrow> 'p list \<Rightarrow> 's \<Rightarrow> ck_rv list \<times> 's" where
  "attempts f [] s = ([], s)"
| "attempts f (p # ps) s = (let (rv, s) = f p s; (rvs, s) = attempts f ps s in (rv # rvs, s))"

locale pin_guard =
  fixes attempt :: "'p \<Rightarrow> 's \<Rightarrow> ck_rv \<times> 's"
    and left :: "'s \<Rightarrow> nat"
    and invar :: "'s \<Rightarrow> bool"
    and wrong :: "'p \<Rightarrow> bool"
  assumes invar_attempt: "invar s \<Longrightarrow> invar (snd (attempt p s))"
    and no_tries: "invar s \<Longrightarrow> left s = 0 \<Longrightarrow> fst (attempt p s) = CKR_PIN_LOCKED \<and> left (snd (attempt p s)) = 0"
    and costs: "invar s \<Longrightarrow> wrong p \<Longrightarrow> fst (attempt p s) = CKR_PIN_INCORRECT \<Longrightarrow> left (snd (attempt p s)) < left s"
    and keeps: "invar s \<Longrightarrow> wrong p \<Longrightarrow> left (snd (attempt p s)) \<le> left s"
    and refused: "invar s \<Longrightarrow> wrong p \<Longrightarrow> fst (attempt p s) \<noteq> CKR_OK"
begin

lemma guesses_bounded:
  assumes "invar s" "\<forall>p \<in> set ps. wrong p" "attempts attempt ps s = (rvs, s')"
  shows "invar s' \<and> CKR_OK \<notin> set rvs \<and> count_list rvs CKR_PIN_INCORRECT + left s' \<le> left s"
  using assms
proof (induction ps arbitrary: s rvs)
  case (Cons p ps)
  obtain rv s1 where 1: "attempt p s = (rv, s1)" by (cases "attempt p s")
  obtain rvs1 where 2: "attempts attempt ps s1 = (rvs1, s')" and r: "rvs = rv # rvs1"
    using Cons.prems(3) 1 by (auto split: prod.splits)
  have "invar s1" "rv \<noteq> CKR_OK" "left s1 \<le> left s" "rv = CKR_PIN_INCORRECT \<longrightarrow> left s1 < left s"
    using invar_attempt [of s p] refused [of s p] keeps [of s p] costs [of s p] Cons.prems 1 by auto
  with Cons.IH [OF _ _ 2] Cons.prems r show ?case by auto
qed simp

lemma stays_locked:
  assumes "invar s" "left s = 0" "attempts attempt ps s = (rvs, s')"
  shows "set rvs \<subseteq> {CKR_PIN_LOCKED} \<and> left s' = 0"
  using assms
proof (induction ps arbitrary: s rvs)
  case (Cons p ps)
  obtain rv s1 where 1: "attempt p s = (rv, s1)" by (cases "attempt p s")
  obtain rvs1 where 2: "attempts attempt ps s1 = (rvs1, s')" and r: "rvs = rv # rvs1"
    using Cons.prems(3) 1 by (auto split: prod.splits)
  have "invar s1" "rv = CKR_PIN_LOCKED" "left s1 = 0"
    using invar_attempt [of s p] no_tries [of s p] Cons.prems 1 by auto
  with Cons.IH [OF _ _ 2] r show ?case by auto
qed simp

end

text \<open>The attributes on disk, and the tries they grant.\<close>

definition disk_attrs :: "os_token \<Rightarrow> attr_map" where
  "disk_attrs t = (case dir_get t ''token.object'' of None \<Rightarrow> [] | Some b \<Rightarrow> snd (snd (parse_file b)))"

definition tries_left :: "bool \<Rightarrow> ('c, 'r) hsm_token \<Rightarrow> nat" where
  "tries_left so tk = (case tk_token tk of None \<Rightarrow> 0 | Some t \<Rightarrow> tries so (disk_attrs t))"

definition pin_blob :: "bool \<Rightarrow> ('c, 'r) sdm \<Rightarrow> bytes" where
  "pin_blob so s = (if so then soEncryptedKey s else userEncryptedKey s)"

definition guard_inv :: "bool \<Rightarrow> bytes \<Rightarrow> ('c, 'r) hsm_token \<Rightarrow> bool" where
  "guard_inv so blob tk \<longleftrightarrow> blob \<noteq> [] \<and> (\<exists>t g m. tk_token tk = Some t \<and> stored t g m)
     \<and> (\<exists>s. tk_sdm tk = Some s \<and> pin_blob so s = blob)"

definition wrong_pin :: "('c, 'd, 'r) crypto \<Rightarrow> bool \<Rightarrow> bytes \<Rightarrow> bytes \<Rightarrow> bool" where
  "wrong_pin cx so blob pin \<longleftrightarrow>
     (\<forall>s. pin_blob so s = blob \<longrightarrow> \<not> fst (if so then sdm_loginSO cx pin s else sdm_loginUser cx pin s))"

definition guess :: "bool \<Rightarrow> ('c, 'd, 'r) crypto \<Rightarrow> bytes \<Rightarrow> ('c, 'r) hsm_token \<Rightarrow> ck_rv \<times> ('c, 'r) hsm_token" where
  "guess so cx pin tk = (if so then loginSO cx pin (tk_logout tk) else loginUser cx pin (tk_logout tk))"

lemma disk_attrs_stored: "stored t g m \<Longrightarrow> disk_attrs t = m"
  using parse_write [of m "[]" g] by (simp add: disk_attrs_def stored_def on_disk_def enc_def)

lemma tries_left_stored: "tk_token tk = Some t \<Longrightarrow> stored t g m \<Longrightarrow> tries_left so tk = tries so m"
  by (simp add: tries_left_def disk_attrs_stored)

lemma logout_simps [simp]:
  "tk_token (tk_logout tk) = tk_token tk" "nobody (tk_logout tk)" "tk_sdm (tk_logout tk) = map_option sdm_logout (tk_sdm tk)"
  by (auto simp: tk_logout_def isSOLoggedIn_def isUserLoggedIn_def split: option.splits)

text \<open>Both roles in one: an attempt ends early without touching the policy, or the PIN was looked at.\<close>

lemma guess_cases:
  assumes "guard_inv so blob tk" "guess so cx pin tk = (rv, tk')"
  obtains (locked) t t' g m where "tk_token tk = Some t" "stored t g m" "rv = CKR_PIN_LOCKED"
      "tk_token tk' = Some t'" "stored t' g m" "tk_sdm tk' = map_option sdm_logout (tk_sdm tk)"
  | (looked) t g m s ok s1 t1 t' s2 where "tk_token tk = Some t" "stored t g m" "stored t1 g m"
      "policy_bytes_ok (policy_of m)" "0 < tries so m" "pin_blob so s = blob" "pin_blob so s1 = blob"
      "(if so then sdm_loginSO cx pin s else sdm_loginUser cx pin s) = (ok, s1)"
      "pinResult so ok t1 s1 = (rv, t', s2)" "tk_token tk' = Some t'" "tk_sdm tk' = Some s2"
proof -
  from assms(1) obtain t g m s where t: "tk_token tk = Some t" "stored t g m" and s: "tk_sdm tk = Some s" "pin_blob so s = blob" "blob \<noteq> []"
    by (auto simp: guard_inv_def)
  let ?tk = "tk_logout tk"
  obtain l tk1 where l: "pinLocked so ?tk = (l, tk1)" by (cases "pinLocked so ?tk")
  obtain t1 where t1: "tk1 = put_token t1 ?tk" "stored t1 g m" "\<not> l \<longrightarrow> policy_bytes_ok (policy_of m) \<and> 0 < tries so m"
    using pinLocked_stored [OF _ t(2) l] t(1) by auto
  let ?s = "sdm_logout s"
  have s': "tk_sdm ?tk = Some ?s" "pin_blob so ?s = blob" using s by (auto simp: pin_blob_def)
  show ?thesis
  proof (cases l)
    case True
    have "rv = CKR_PIN_LOCKED" "tk' = tk1"
      using assms(2) s s' l True by (auto simp: guess_def loginSO_def loginUser_def getUserPINBlob_def pin_blob_def split: if_splits)
    then show ?thesis using t t1 by (intro locked [where t' = t1]) simp_all
  next
    case False
    obtain ok s1 where o: "(if so then sdm_loginSO cx pin ?s else sdm_loginUser cx pin ?s) = (ok, s1)"
      by (cases "if so then sdm_loginSO cx pin ?s else sdm_loginUser cx pin ?s")
    obtain rv' t' s2 where r: "pinResult so ok t1 s1 = (rv', t', s2)" by (cases "pinResult so ok t1 s1")
    have "rv' = rv" "tk' = put_sdm s2 (put_token t' tk1)"
      using assms(2) s s' l False o r t1
      by (auto simp: guess_def loginSO_def loginUser_def getUserPINBlob_def pin_blob_def tk_pinResult_def split: if_splits)
    moreover have "pin_blob so s1 = blob"
      using o s'(2) sdm_loginSO_fields [of cx pin ?s ok s1] sdm_loginUser_fields [of cx pin ?s ok s1]
      by (auto simp: pin_blob_def split: if_splits)
    ultimately show ?thesis using t t1 False o r s' by (intro looked) auto
  qed
qed

lemma guess_laws:
  assumes "guard_inv so blob tk" "guess so cx pin tk = (rv, tk')"
  shows "guard_inv so blob tk'"
    and "tries_left so tk = 0 \<Longrightarrow> rv = CKR_PIN_LOCKED \<and> tries_left so tk' = 0"
    and "wrong_pin cx so blob pin \<Longrightarrow> tries_left so tk' \<le> tries_left so tk"
    and "wrong_pin cx so blob pin \<Longrightarrow> rv \<noteq> CKR_OK \<and> (rv = CKR_PIN_INCORRECT \<longrightarrow> tries_left so tk' < tries_left so tk)"
proof -
  have "guard_inv so blob tk' \<and> (tries_left so tk = 0 \<longrightarrow> rv = CKR_PIN_LOCKED \<and> tries_left so tk' = 0)
    \<and> (wrong_pin cx so blob pin \<longrightarrow> tries_left so tk' \<le> tries_left so tk \<and> rv \<noteq> CKR_OK
         \<and> (rv = CKR_PIN_INCORRECT \<longrightarrow> tries_left so tk' < tries_left so tk))"
    using assms
  proof (cases rule: guess_cases)
    case (locked t t' g m)
    have "tries_left so tk = tries so m" "tries_left so tk' = tries so m"
      using tries_left_stored [of tk t g m so] tries_left_stored [of tk' t' g m so] locked by simp_all
    moreover have "guard_inv so blob tk'"
      using assms(1) locked by (auto simp: guard_inv_def pin_blob_def)
    ultimately show ?thesis using locked by simp
  next
    case (looked t g m s ok s1 t1 t' s2)
    obtain g' m' where d: "stored t' g' m'"
      "advance_bytes so ok (policy_of m) = Some (policy_of m') \<or> policy_of m' = policy_of m \<and> rv = CKR_DEVICE_ERROR"
      using pinResult_stored [OF looked(3, 9)] by blast
    have e: "tries_left so tk = tries so m" "tries_left so tk' = tries so m'"
      using tries_left_stored [of tk t g m so] tries_left_stored [of tk' t' g' m' so] looked d(1) by simp_all
    have "pin_blob so s2 = blob"
      using pinResult_rv [OF looked(9)] looked(7) by (cases "rv = CKR_OK \<or> rv = CKR_PIN_INCORRECT") (auto simp: pin_blob_def)
    then have i: "guard_inv so blob tk'" using assms(1) d(1) looked(10, 11) by (auto simp: guard_inv_def)
    have w: "\<not> ok" if "wrong_pin cx so blob pin" using that looked(6, 8) by (auto simp: wrong_pin_def split: if_splits)
    have "tries so m' = tries so m - 1 \<or> tries so m' = tries so m \<and> rv = CKR_DEVICE_ERROR" if "\<not> ok"
      using d(2) tries_advance(1) [OF looked(4), of so ok m'] that by (auto simp: tries_def)
    with i e w looked(5) pinResult_rv(2) [OF looked(9)] show ?thesis by auto
  qed
  then show "guard_inv so blob tk'"
    "tries_left so tk = 0 \<Longrightarrow> rv = CKR_PIN_LOCKED \<and> tries_left so tk' = 0"
    "wrong_pin cx so blob pin \<Longrightarrow> tries_left so tk' \<le> tries_left so tk"
    "wrong_pin cx so blob pin \<Longrightarrow> rv \<noteq> CKR_OK \<and> (rv = CKR_PIN_INCORRECT \<longrightarrow> tries_left so tk' < tries_left so tk)"
    by auto
qed

interpretation pins: pin_guard "guess so cx" "tries_left so" "guard_inv so blob" "wrong_pin cx so blob" for so cx blob
  by unfold_locales (metis guess_laws prod.collapse)+

text \<open>
  C34: the number of guesses at a PIN is bounded. From a token whose policy on disk grants
  some number of tries, never more than 15, let any sequence of wrong PINs be tried for
  either role, each after a logout, while any of the writes may fail to open the file: at
  most that many attempts are answered as wrong, none succeeds, and every such answer has
  taken one of the remaining tries from the disk. When none are left, no PIN is looked at
  any more, the right one included.
\<close>

theorem pin_guesses_bounded:
  assumes "guard_inv so blob tk" and "\<forall>pin \<in> set pins. wrong_pin cx so blob pin"
    and "attempts (guess so cx) pins tk = (rvs, tk')"
  shows "CKR_OK \<notin> set rvs \<and> count_list rvs CKR_PIN_INCORRECT + tries_left so tk' \<le> tries_left so tk
    \<and> tries_left so tk \<le> 15
    \<and> (tries_left so tk' = 0 \<longrightarrow> (\<forall>pin. fst (guess so cx pin tk') = CKR_PIN_LOCKED))"
proof -
  have "tries_left so tk \<le> 15" using tries_bound by (simp add: tries_left_def split: option.splits)
  moreover have "fst (guess so cx pin tk') = CKR_PIN_LOCKED" if "tries_left so tk' = 0" for pin
    using pins.no_tries [of so blob tk' cx pin] pins.guesses_bounded [OF assms] that by blast
  ultimately show ?thesis using pins.guesses_bounded [OF assms] by blast
qed

lemma sample_token_stored: "stored sample_token 1 []"
proof -
  have "dir_get sample_token ''token.object'' = Some (enc 1 [])"
    by (simp add: dir_get_def sample_token_def sample_dir_def)
  moreover have "ot_tokenObject sample_token = \<lparr>of_valid = True, of_attributes = [], of_inTransaction = False, of_gen = 1\<rparr>"
    using refresh_enc [of "[]" "\<lparr>of_valid = True, of_attributes = [], of_inTransaction = False, of_gen = 0\<rparr>" True 1]
    by (simp add: sample_token_def ObjectFile_open_def attrs_ok_def)
  ultimately show ?thesis by (simp add: stored_def on_disk_def attrs_ok_def) (simp add: sample_token_def)
qed

definition sample_hsm :: "(unit, unit) hsm_token" where
  "sample_hsm = \<lparr>tk_token = Some sample_token, tk_sdm = Some (SecureDataManager_blobs sample_crypto () [1] [2]),
     tk_valid = True, tk_rng = ()\<rparr>"

lemma empty_pin_wrong: "wrong_pin cx so blob []"
  by (auto simp: wrong_pin_def sdm_loginSO_def sdm_loginUser_def sdm_login_def open_blob_def PBEDeriveKey_def Let_def)

lemma sample_hsm_guard: "guard_inv False [2] sample_hsm"
proof -
  have "\<exists>t g m. tk_token sample_hsm = Some t \<and> stored t g m"
    using sample_token_stored by (intro exI [of _ sample_token] exI [of _ 1] exI [of _ "[]"]) (simp add: sample_hsm_def)
  then show ?thesis by (simp add: guard_inv_def sample_hsm_def pin_blob_def SecureDataManager_blobs_def)
qed

theorem pin_guesses_bounded_witness:
  "guard_inv False [2] sample_hsm \<and> tries_left False sample_hsm = 10
     \<and> count_list (fst (attempts (guess False sample_crypto) (replicate 20 []) sample_hsm)) CKR_PIN_INCORRECT \<le> 10"
proof -
  obtain rvs tk' where a: "attempts (guess False sample_crypto) (replicate 20 []) sample_hsm = (rvs, tk')"
    by (cases "attempts (guess False sample_crypto) (replicate 20 []) sample_hsm")
  have "tries_left False sample_hsm = tries False []"
    by (rule tries_left_stored [OF _ sample_token_stored]) (simp add: sample_hsm_def)
  also have "\<dots> = 10"
    by (simp add: tries_def policy_of_def default_policy_def policy_bytes_ok_def leftIndex_def)
  finally have t: "tries_left False sample_hsm = 10" .
  from pin_guesses_bounded [OF sample_hsm_guard _ a] empty_pin_wrong [of sample_crypto False "[2]"] t sample_hsm_guard show ?thesis by (auto simp: a)
qed

end
