(* ===== verification/Token_Life.thy ===== *)
theory Token_Life
  imports Token_Security
begin

text \<open>
  The life of a token (\<^verbatim>\<open>src/lib/slot_mgr/Token.cpp\<close>): every operation as a step, the
  invariant of the login state over all of them: SO and user are never logged in together.
\<close>

section \<open>The manager stays well-formed\<close>

lemma sdm_inv_rng [simp]: "sdm_inv (s\<lparr>sdm_rng := r\<rparr>) = sdm_inv s"
  by (simp add: sdm_inv_def)

lemma sdm_inv_logout [simp]: "sdm_inv s \<Longrightarrow> sdm_inv (sdm_logout s)"
  by (simp add: sdm_inv_def sdm_logout_def)

lemma sdm_inv_login:
  assumes "rand_sized (cx_rand cx)" "sdm_inv s" "sdm_login cx pass blob s = (ok, s')"
  shows "sdm_inv s'"
proof -
  obtain r s1 where o: "open_blob cx pass blob (sdm_logout s) = (r, s1)" by (cases "open_blob cx pass blob (sdm_logout s)")
  have l: "left_in NONE True (sdm_aes (sdm_logout s))" using sdm_inv_left_in [OF assms(2)] by (simp add: sdm_logout_def)
  obtain a where s1: "s1 = (sdm_logout s)\<lparr>sdm_aes := a\<rparr>" "left_in NONE True a"
    using open_blob_keeps [OF o l] by blast
  have m: "length (sdm_mask s) = 32" using assms(2) by (simp add: sdm_inv_def)
  show ?thesis
    using assms(1, 3) o s1 m
    by (cases r) (auto simp: sdm_login_def sdm_inv_def left_in_def remask_facts sdm_logout_def)
qed

lemma sdm_inv_loginSO:
  assumes "rand_sized (cx_rand cx)" "sdm_inv s" "sdm_loginSO cx pin s = (ok, s')"
  shows "sdm_inv s'"
proof -
  obtain b s1 where l: "sdm_login cx pin (soEncryptedKey s) s = (b, s1)" by (cases "sdm_login cx pin (soEncryptedKey s) s")
  then have "s' = s1\<lparr>soLoggedIn := ok\<rparr>" using assms(3) by (auto simp: sdm_loginSO_def)
  with sdm_inv_login [OF assms(1, 2) l] sdm_login_fields [OF l] show ?thesis by (simp add: sdm_inv_def)
qed

lemma sdm_inv_loginUser:
  assumes "rand_sized (cx_rand cx)" "sdm_inv s" "sdm_loginUser cx pin s = (ok, s')"
  shows "sdm_inv s'"
proof -
  obtain b s1 where l: "sdm_login cx pin (userEncryptedKey s) s = (b, s1)" by (cases "sdm_login cx pin (userEncryptedKey s) s")
  then have "s' = s1\<lparr>userLoggedIn := ok\<rparr>" using assms(3) by (auto simp: sdm_loginUser_def)
  with sdm_inv_login [OF assms(1, 2) l] sdm_login_fields [OF l] show ?thesis by (simp add: sdm_inv_def)
qed

lemma sdm_inv_reAuthenticate:
  assumes "sdm_inv s" "sdm_reAuthenticate cx pin blob s = (ok, s')"
  shows "sdm_inv s'"
proof -
  obtain r s1 where o: "open_blob cx pin blob s = (r, s1)" by (cases "open_blob cx pin blob s")
  obtain a where "s1 = s\<lparr>sdm_aes := a\<rparr>" "left_in NONE True a"
    using open_blob_keeps [OF o sdm_inv_left_in [OF assms(1)]] by blast
  with assms o show ?thesis by (cases r) (auto simp: sdm_reAuthenticate_def sdm_inv_def left_in_def)
qed

lemma sdm_inv_pbe:
  assumes "rand_sized (cx_rand cx)" "sdm_inv s" "pbeEncryptKey cx pass b0 s = (ok, blob, s')"
  shows "sdm_inv s'"
  using pbeEncryptKey_sound [OF assms(1, 3) sdm_inv_left_in [OF assms(2)]] assms(2)
  by (auto simp: sdm_inv_def left_in_def same_key_def)

lemma sdm_inv_blobs [simp]:
  "sdm_inv (s\<lparr>userEncryptedKey := b\<rparr>) = sdm_inv s" "sdm_inv (s\<lparr>soEncryptedKey := b\<rparr>) = sdm_inv s"
  by (simp_all add: sdm_inv_def)

lemma sdm_inv_setUserPIN:
  assumes "rand_sized (cx_rand cx)" "sdm_inv s" "setUserPIN cx pin s = (ok, s')"
  shows "sdm_inv s'"
  using assms sdm_inv_pbe [OF assms(1, 2)] by (auto simp: setUserPIN_def split: if_splits prod.splits)

lemma sdm_inv_setSOPIN:
  assumes "rand_sized (cx_rand cx)" "sdm_inv s" "setSOPIN cx pin s = (ok, s')"
  shows "sdm_inv s'"
proof -
  have "sdm_inv (remask cx k s1)" if "sdm_random cx n s = (b, k, s1)" for n b k s1
    using sdm_random_facts(1) [OF that] assms(1, 2) same_key_random [OF that]
    by (auto simp: sdm_inv_def remask_facts same_key_def)
  then have i: "sdm_inv (if length (soEncryptedKey s) = 0
      then (let (_, key, s) = sdm_random cx 32 s in remask cx key s) else s)" (is "sdm_inv ?s0")
    using assms(2) by (auto split: prod.splits)
  obtain b bl s1 where p: "pbeEncryptKey cx pin (soEncryptedKey ?s0) ?s0 = (b, bl, s1)"
    by (cases "pbeEncryptKey cx pin (soEncryptedKey ?s0) ?s0")
  have "s' = s \<or> s' = s1\<lparr>soEncryptedKey := bl\<rparr>"
    using assms(3) p by (simp add: setSOPIN_def Let_def split: if_splits)
  then show ?thesis using sdm_inv_pbe [OF assms(1) i p] assms(2) by auto
qed

lemma sdm_inv_encrypt: "rand_sized (cx_rand cx) \<Longrightarrow> sdm_inv s \<Longrightarrow> sdm_encrypt cx d s = (r, s') \<Longrightarrow> sdm_inv s'"
  using sdm_encrypt_shape by blast

lemma sdm_inv_decrypt:
  assumes "rand_sized (cx_rand cx)" "sdm_inv s" "sdm_decrypt cx d s = (r, s')"
  shows "sdm_inv s'"
proof -
  have k: "sdm_inv (snd (take_key cx s))"
    using assms(1, 2) by (simp add: take_key_def sdm_inv_def remask_facts Let_def)
  show ?thesis
    using assms k decrypt_message_left_in [OF sdm_inv_left_in [OF k]]
    by (auto simp: sdm_decrypt_def sdm_inv_def left_in_def Let_def split: if_splits prod.splits)
qed

section \<open>Every operation keeps the login state consistent\<close>

definition tk_inv :: "('c, 'r) hsm_token \<Rightarrow> bool" where
  "tk_inv tk \<longleftrightarrow> (case tk_sdm tk of None \<Rightarrow> True | Some s \<Rightarrow> sdm_inv s \<and> tk_token tk \<noteq> None)"

text \<open>The operations that touch only the stored token; \<open>same_sdm\<close> is what they have in common.\<close>

definition same_sdm :: "('c, 'r) hsm_token \<Rightarrow> ('c, 'r) hsm_token \<Rightarrow> bool" where
  "same_sdm tk tk' \<longleftrightarrow> tk_sdm tk' = tk_sdm tk \<and> (tk_token tk = None \<longleftrightarrow> tk_token tk' = None)"

lemma tk_inv_same: "tk_inv tk \<Longrightarrow> same_sdm tk tk' \<Longrightarrow> tk_inv tk'"
  by (auto simp: tk_inv_def same_sdm_def split: option.splits)

lemma same_sdm_put: "tk_token tk \<noteq> None \<Longrightarrow> same_sdm tk (put_token t tk)"
  by (simp add: same_sdm_def)

lemma same_sdm_refl [simp]: "same_sdm tk tk"
  by (simp add: same_sdm_def)

lemma same_sdm_trans: "same_sdm a b \<Longrightarrow> same_sdm b c \<Longrightarrow> same_sdm a c"
  by (simp add: same_sdm_def)

lemma same_getPinPolicy: "tk_getPinPolicy tk = (p, tk') \<Longrightarrow> same_sdm tk tk'"
  by (auto simp: tk_getPinPolicy_def same_sdm_def split: option.splits prod.splits)

lemma same_setPinPolicy: "tk_setPinPolicy p tk = (ok, tk') \<Longrightarrow> same_sdm tk tk'"
  by (auto simp: tk_setPinPolicy_def same_sdm_def split: option.splits prod.splits)

lemma same_pinLocked: "pinLocked so tk = (l, tk') \<Longrightarrow> same_sdm tk tk'"
  using same_getPinPolicy by (fastforce simp: pinLocked_def split: prod.splits)

lemma same_refill: "refill_user tk = (rv, tk') \<Longrightarrow> same_sdm tk tk'"
proof -
  assume r: "refill_user tk = (rv, tk')"
  obtain p tk1 where 1: "tk_getPinPolicy tk = (p, tk1)" by (cases "tk_getPinPolicy tk")
  have s1: "same_sdm tk tk1" by (rule same_getPinPolicy [OF 1])
  show ?thesis
  proof (cases "p = None \<or> tk_token tk1 = None")
    case True
    with r 1 s1 show ?thesis by (auto simp: refill_user_def split: option.splits)
  next
    case False
    then obtain q t where pt: "p = Some q" "tk_token tk1 = Some t" by auto
    obtain f t2 where 2: "getTokenFlags t = (f, t2)" by (cases "getTokenFlags t")
    have s2: "same_sdm tk (put_token t2 tk1)" using s1 pt by (auto intro: same_sdm_trans same_sdm_put)
    obtain ok tk3 where 3: "tk_setPinPolicy (q\<lparr>leftUser := maxUser q\<rparr>) (put_token t2 tk1) = (ok, tk3)"
      by (cases "tk_setPinPolicy (q\<lparr>leftUser := maxUser q\<rparr>) (put_token t2 tk1)")
    have s3: "same_sdm tk tk3" using s2 same_setPinPolicy [OF 3] same_sdm_trans by blast
    show ?thesis
      using r 1 2 3 pt s1 s2 s3
      by (auto simp: refill_user_def Let_def same_sdm_def split: option.splits if_splits prod.splits)
  qed
qed

lemma tk_inv_pinResult:
  assumes "sdm_inv s" "tk_token tk \<noteq> None" "tk_pinResult so ok s tk = (rv, tk')"
  shows "tk_inv tk'"
proof -
  obtain t where t: "tk_token tk = Some t" using assms(2) by auto
  obtain rv' t' s' where r: "pinResult so ok t s = (rv', t', s')" by (cases "pinResult so ok t s")
  have "s' = s \<or> s' = sdm_logout s" using pinResult_rv [OF r] by blast
  then show ?thesis using assms r t by (auto simp: tk_pinResult_def tk_inv_def)
qed

lemma tk_inv_put: "sdm_inv s \<Longrightarrow> tk_token tk \<noteq> None \<Longrightarrow> tk_inv (put_sdm s tk)"
  by (simp add: tk_inv_def)

lemma tk_inv_put_token: "tk_inv tk \<Longrightarrow> tk_inv (put_token t tk)"
  by (simp add: tk_inv_def split: option.splits)

lemma tk_inv_valid [simp]: "tk_inv (tk\<lparr>tk_valid := v\<rparr>) = tk_inv tk"
  by (simp add: tk_inv_def split: option.splits)

lemma tk_inv_rng [simp]: "tk_inv (put_rng r tk) = tk_inv tk"
  by (simp add: tk_inv_def put_rng_def split: option.splits)

lemma put_rng_token [simp]: "tk_token (put_rng r tk) = tk_token tk"
  by (simp add: put_rng_def split: option.splits)

lemma tk_inv_login:
  assumes "rand_sized (cx_rand cx)" "tk_inv tk"
  shows "loginSO cx pin tk = (rv, tk') \<Longrightarrow> tk_inv tk'" "loginUser cx pin tk = (rv, tk') \<Longrightarrow> tk_inv tk'"
proof -
  have *: "tk_inv (snd (pinLocked so tk))" for so
    using tk_inv_same [OF assms(2)] same_pinLocked [of so tk] by (cases "pinLocked so tk") auto
  { assume l: "loginSO cx pin tk = (rv, tk')"
    show "tk_inv tk'"
    proof (cases "nobody tk")
      case True
      with l show ?thesis
      proof (cases rule: loginSO_cases)
        case (looked s t ok s1 t' s2 tk1)
        have "sdm_inv s" using assms(2) looked(1) by (simp add: tk_inv_def)
        from sdm_inv_loginSO [OF assms(1) this looked(4)] pinResult_rv [OF looked(5)]
        have "sdm_inv s2" by (cases "rv = CKR_OK \<or> rv = CKR_PIN_INCORRECT") auto
        then show ?thesis by (simp add: looked(6) tk_inv_put)
      qed (use * assms(2) in auto)
    next
      case False
      with l assms(2) show ?thesis
        by (auto simp: loginSO_def isSOLoggedIn_def isUserLoggedIn_def split: option.splits if_splits)
    qed }
  { assume l: "loginUser cx pin tk = (rv, tk')"
    show "tk_inv tk'"
    proof (cases "nobody tk")
      case True
      with l show ?thesis
      proof (cases rule: loginUser_cases)
        case (looked s t ok s1 t' s2 tk1)
        have "sdm_inv s" using assms(2) looked(1) by (simp add: tk_inv_def)
        from sdm_inv_loginUser [OF assms(1) this looked(4)] pinResult_rv [OF looked(5)]
        have "sdm_inv s2" by (cases "rv = CKR_OK \<or> rv = CKR_PIN_INCORRECT") auto
        then show ?thesis by (simp add: looked(6) tk_inv_put)
      qed (use * assms(2) in auto)
    next
      case False
      with l assms(2) show ?thesis
        by (auto simp: loginUser_def isSOLoggedIn_def isUserLoggedIn_def split: option.splits if_splits)
    qed }
qed

lemma tk_inv_reAuthenticate:
  assumes "tk_inv tk" "reAuthenticate cx pin tk = (rv, tk')"
  shows "tk_inv tk'"
proof (cases "tk_sdm tk")
  case None
  with assms show ?thesis by (auto simp: reAuthenticate_def)
next
  case (Some s)
  have i: "sdm_inv s" "tk_token tk \<noteq> None" using assms(1) Some by (simp_all add: tk_inv_def)
  have *: "tk_inv tk2" if "pinLocked so tk = (l, tk1)" "(if l then (CKR_PIN_LOCKED, tk1) else
      (let (ok, s) = sdm_reAuthenticate cx pin blob s in tk_pinResult so ok s tk1)) = (rv, tk2)" for so l tk1 blob tk2
  proof -
    have s: "same_sdm tk tk1" by (rule same_pinLocked [OF that(1)])
    obtain ok s1 where o: "sdm_reAuthenticate cx pin blob s = (ok, s1)" by (cases "sdm_reAuthenticate cx pin blob s")
    show ?thesis
      using that(2) o s i tk_inv_same [OF assms(1) s] tk_inv_pinResult [OF sdm_inv_reAuthenticate [OF i(1) o], of tk1 so ok rv tk2]
      by (auto simp: same_sdm_def split: if_splits)
  qed
  show ?thesis
    using assms Some *
    by (auto simp: reAuthenticate_def reAuthenticateSO_def reAuthenticateUser_def split: if_splits prod.splits)
qed

lemma sdm_inv_verifier [simp]: "rand_sized (cx_rand cx) \<Longrightarrow> sdm_inv (verifier cx s)"
  by (simp add: verifier_def sdm_inv_constructors)

lemma tk_inv_setSOPIN:
  assumes "rand_sized (cx_rand cx)" "tk_inv tk" "tk_setSOPIN cx old new tk = (rv, tk')"
  shows "tk_inv tk'"
proof (cases "tk_sdm tk")
  case None
  with assms show ?thesis by (auto simp: tk_setSOPIN_def)
next
  case (Some s)
  have i: "sdm_inv s" "tk_token tk \<noteq> None" using assms(2) Some by (simp_all add: tk_inv_def)
  obtain l tk1 where l: "pinLocked True tk = (l, tk1)" by (cases "pinLocked True tk")
  have s1: "same_sdm tk tk1" "tk_inv tk1" "tk_token tk1 \<noteq> None"
    using same_pinLocked [OF l] tk_inv_same [OF assms(2)] i(2) by (auto simp: same_sdm_def)
  obtain r v where r: "sdm_loginSO cx old (verifier cx s) = (r, v)" by (cases "sdm_loginSO cx old (verifier cx s)")
  let ?s = "s\<lparr>sdm_rng := sdm_rng v\<rparr>"
  obtain ok s2 where o: "setSOPIN cx new ?s = (ok, s2)" by (cases "setSOPIN cx new ?s")
  have i2: "sdm_inv s2" using sdm_inv_setSOPIN [OF assms(1) _ o] i(1) by simp
  have p2: "tk_inv b" if "tk_pinResult True True s2 ((put_token t (put_sdm s2 tk1))\<lparr>tk_valid := v\<rparr>) = (a, b)" for t v a b
    using that tk_inv_pinResult [OF i2, of "(put_token t (put_sdm s2 tk1))\<lparr>tk_valid := v\<rparr>" True True a b] by simp
  show ?thesis
    using assms(3) Some l r o i s1 i2 tk_inv_pinResult [of ?s tk1 True False] p2
    by (auto simp: tk_setSOPIN_def Let_def tk_inv_put tk_inv_put_token split: if_splits option.splits prod.splits)
qed

lemma tk_inv_setUserPIN:
  assumes "rand_sized (cx_rand cx)" "tk_inv tk" "tk_setUserPIN cx old new tk = (rv, tk')"
  shows "tk_inv tk'"
proof (cases "tk_sdm tk")
  case None
  with assms show ?thesis by (auto simp: tk_setUserPIN_def)
next
  case (Some s)
  have i: "sdm_inv s" "tk_token tk \<noteq> None" using assms(2) Some by (simp_all add: tk_inv_def)
  obtain l tk1 where l: "pinLocked False tk = (l, tk1)" by (cases "pinLocked False tk")
  have s1: "same_sdm tk tk1" "tk_inv tk1" "tk_token tk1 \<noteq> None"
    using same_pinLocked [OF l] tk_inv_same [OF assms(2)] i(2) by (auto simp: same_sdm_def)
  obtain r n where r: "sdm_loginUser cx old (verifier cx s) = (r, n)" by (cases "sdm_loginUser cx old (verifier cx s)")
  have in1: "sdm_inv n" using sdm_inv_loginUser [OF assms(1) _ r] assms(1) by simp
  obtain ok n2 where o: "setUserPIN cx new n = (ok, n2)" by (cases "setUserPIN cx new n")
  have i2: "sdm_inv n2" by (rule sdm_inv_setUserPIN [OF assms(1) in1 o])
  have p1: "tk_inv b" if "tk_pinResult False False (s\<lparr>sdm_rng := x\<rparr>) tk1 = (a, b)" for x a b
    using that tk_inv_pinResult [of "s\<lparr>sdm_rng := x\<rparr>" tk1] i(1) s1(3) by simp
  have p2: "tk_inv b"
    if "tk_pinResult False True n' ((put_token t tk1)\<lparr>tk_valid := v\<rparr>) = (a, b)" "n' = n2 \<or> n' = sdm_logout n2" for n' t v a b
    using that i2 tk_inv_pinResult [of n' "(put_token t tk1)\<lparr>tk_valid := v\<rparr>" False True a b] by auto
  show ?thesis
    using assms(3) Some l r o i s1 i2
    by (auto simp: tk_setUserPIN_def Let_def tk_inv_put dest: p1 p2 intro: tk_inv_put_token split: if_splits option.splits prod.splits)
qed

lemma tk_inv_initUserPIN:
  assumes "rand_sized (cx_rand cx)" "tk_inv tk" "initUserPIN cx pin tk = (rv, tk')"
  shows "tk_inv tk' \<and> rv \<noteq> None"
proof (cases "tk_sdm tk")
  case None
  with assms show ?thesis by (auto simp: initUserPIN_def)
next
  case (Some s)
  have i: "sdm_inv s" "tk_token tk \<noteq> None" using assms(2) Some by (simp_all add: tk_inv_def)
  obtain ok s1 where o: "setUserPIN cx pin s = (ok, s1)" by (cases "setUserPIN cx pin s")
  have i1: "tk_inv (put_sdm s1 tk)" using sdm_inv_setUserPIN [OF assms(1) i(1) o] i(2) by (rule tk_inv_put)
  have r: "tk_inv tk2" if "refill_user ((put_token t (put_sdm s1 tk))\<lparr>tk_valid := v\<rparr>) = (x, tk2)" for t v x tk2
    using tk_inv_same [OF _ same_refill [OF that]] i1 tk_inv_put_token [OF i1] by simp
  show ?thesis
    using assms(3) Some o i(2) i1
    by (auto simp: initUserPIN_def Let_def dest: r intro: tk_inv_put_token split: if_splits option.splits prod.splits)
qed

lemma tk_inv_fill:
  assumes "rand_sized (cx_rand cx)" "tk_inv tk" "tk_token tk \<noteq> None" "fill_token cx p pin tk = (rv, tk')"
  shows "tk_inv tk'"
proof -
  obtain ok tk1 where 1: "tk_setPinPolicy p tk = (ok, tk1)" by (cases "tk_setPinPolicy p tk")
  have "tk_inv tk1" using tk_inv_same [OF assms(2) same_setPinPolicy [OF 1]] .
  then show ?thesis
    using assms(1, 4) 1 sdm_inv_constructors(2) [OF assms(1)]
    by (auto simp: fill_token_def Let_def intro!: tk_inv_put intro: tk_inv_put_token split: if_splits option.splits prod.splits)
qed

lemma tk_inv_createToken:
  assumes "rand_sized (cx_rand cx)" "tk_inv tk" "createToken cx req st pin lbl tk = (rv, tk')"
  shows "tk_inv tk'"
proof (cases "requested_policy req = None \<or> st = None \<or> lbl = None")
  case True
  with assms show ?thesis by (auto simp: createToken_def split: option.splits if_splits)
next
  case False
  then obtain pol nt lb where p: "requested_policy req = Some pol" "st = Some nt" "lbl = Some lb" by auto
  show ?thesis
  proof (cases "tk_token tk = None")
    case True
    obtain ok gen where g: "setSOPIN cx pin (SecureDataManager_new cx (rng_of tk)) = (ok, gen)"
      by (cases "setSOPIN cx pin (SecureDataManager_new cx (rng_of tk))")
    have i: "tk_inv (put_rng (sdm_rng gen) tk)" using assms(2) by simp
    show ?thesis
      using assms(2, 3) p True g i tk_inv_fill [OF assms(1) tk_inv_put_token [OF i]]
      by (auto simp: createToken_def Let_def map_prod_def split: option.splits if_splits prod.splits)
  next
    case t: False
    obtain l tk1 where l: "pinLocked True tk = (l, tk1)" by (cases "pinLocked True tk")
    have s1: "tk_inv tk1" "tk_sdm tk1 = tk_sdm tk" "tk_token tk1 \<noteq> None"
      using same_pinLocked [OF l] tk_inv_same [OF assms(2)] t by (auto simp: same_sdm_def)
    obtain f t1 where f: "getTokenFlags (the (tk_token tk1)) = (f, t1)" by (cases "getTokenFlags (the (tk_token tk1))")
    show ?thesis
    proof (cases "l \<or> f = None \<or> tk_sdm tk1 = None")
      case True
      with assms(2, 3) p t l f s1 show ?thesis
        by (auto simp: createToken_def Let_def intro: tk_inv_put_token split: option.splits if_splits)
    next
      case False
      then obtain fl s where fs: "f = Some fl" "tk_sdm tk1 = Some s" by auto
      have i: "sdm_inv s" using s1(1) fs(2) by (simp add: tk_inv_def)
      obtain ok s2 where o: "(if length (getSOPINBlob s) > 0 then sdm_loginSO cx pin s else (True, s)) = (ok, s2)"
        by (cases "if length (getSOPINBlob s) > 0 then sdm_loginSO cx pin s else (True, s)")
      have i2: "sdm_inv s2" using o i sdm_inv_loginSO [OF assms(1) i, of pin ok s2] by (auto split: if_splits)
      have p1: "tk_inv b" if "tk_pinResult True False s2 (put_token t1 tk1) = (a, b)" for a b
        using tk_inv_pinResult [OF i2 _ that] by simp
      have p2: "tk_inv (put_sdm s2 (put_token x (put_token t1 tk1)))" for x by (rule tk_inv_put [OF i2]) simp
      show ?thesis
        using assms(2, 3) p t l f fs o False p1 p2 tk_inv_fill [OF assms(1) p2]
        by (auto simp: createToken_def Let_def map_prod_def split: if_splits prod.splits)
    qed
  qed
qed

lemma tk_inv_authorise:
  assumes "rand_sized (cx_rand cx)" "tk_inv tk" "authorise_format cx rep pin tk = (rv, tk')"
  shows "tk_inv tk' \<and> (tk_token tk = None \<longleftrightarrow> tk_token tk' = None)"
proof -
  obtain l tk1 where l: "pinLocked True tk = (l, tk1)" by (cases "pinLocked True tk")
  have s1: "tk_inv tk1" "same_sdm tk tk1" using same_pinLocked [OF l] tk_inv_same [OF assms(2)] by auto
  show ?thesis
  proof (cases "rep \<or> tk_token tk = None \<or> tk_sdm tk = None")
    case True
    with assms(2, 3) l s1 show ?thesis
      by (auto simp: authorise_format_def same_sdm_def split: if_splits option.splits)
  next
    case False
    then obtain t s where ts: "tk_token tk = Some t" "tk_sdm tk = Some s" by auto
    have i: "sdm_inv s" using assms(2) ts by (simp add: tk_inv_def)
    obtain ok v where o: "sdm_loginSO cx pin (verifier cx s) = (ok, v)" by (cases "sdm_loginSO cx pin (verifier cx s)")
    have t1: "tk_token tk1 \<noteq> None" using s1(2) ts by (auto simp: same_sdm_def)
    have p: "tk_inv b \<and> tk_token b \<noteq> None" if "tk_pinResult True False (s\<lparr>sdm_rng := sdm_rng v\<rparr>) tk1 = (a, b)" for a b
      using tk_inv_pinResult [OF _ t1 that] i that t1 by (auto simp: tk_pinResult_def split: prod.splits)
    have q: "tk_inv (put_sdm (s\<lparr>sdm_rng := sdm_rng v\<rparr>) tk1)" using t1 i by (intro tk_inv_put) simp_all
    show ?thesis
      using assms(2, 3) False ts l o s1 t1 p q
      by (auto simp: authorise_format_def same_sdm_def map_prod_def Let_def split: if_splits prod.splits)
  qed
qed

lemma tk_inv_initTokenExtended:
  assumes "rand_sized (cx_rand cx)" "tk_inv tk" "initTokenExtended cx st rep pin sopin upin pol lbl tk = (rv, tk')"
  shows "tk_inv tk'"
proof (cases "st = None \<or> lbl = None")
  case True
  with assms show ?thesis by (auto simp: initTokenExtended_def split: option.splits)
next
  case False
  then obtain nt lb where p: "st = Some nt" "lbl = Some lb" by auto
  obtain ref tk1 where a: "authorise_format cx rep pin tk = (ref, tk1)" by (cases "authorise_format cx rep pin tk")
  note i1 = tk_inv_authorise [OF assms(1, 2) a]
  obtain ok gen where g: "fresh_blobs cx sopin upin (rng_of tk1) = (ok, gen)" by (cases "fresh_blobs cx sopin upin (rng_of tk1)")
  let ?tk = "put_rng (sdm_rng gen) tk1"
  have i2: "tk_inv ?tk" "(tk_token tk = None) = (tk_token ?tk = None)" "tk_token ?tk = tk_token tk1"
    using i1 by simp_all
  obtain ok2 t where t: "(case tk_token tk1 of Some t \<Rightarrow> (let (ok, t) = ot_resetToken (take 32 lb) t in (ok, Some t))
      | None \<Rightarrow> (let t = nt (take 32 lb) in (t \<noteq> None, t))) = (ok2, t)"
    by (cases "(case tk_token tk1 of Some t \<Rightarrow> (let (ok, t) = ot_resetToken (take 32 lb) t in (ok, Some t))
      | None \<Rightarrow> (let t = nt (take 32 lb) in (t \<noteq> None, t)))") auto
  have t': "tk_token tk1 \<noteq> None \<Longrightarrow> t \<noteq> None" "ok2 \<Longrightarrow> t \<noteq> None"
    using t by (auto split: option.splits prod.splits simp: Let_def)
  have set: "tk_inv (?tk\<lparr>tk_token := x\<rparr>)" if "x \<noteq> None \<or> tk_token tk = None" for x
    using i2 that by (auto simp: tk_inv_def split: option.splits)
  have pol: "tk_inv b \<and> tk_token b \<noteq> None" if "tk_setPinPolicy pol (put_token x (?tk\<lparr>tk_token := y\<rparr>)) = (c, b)" for x y c b
  proof -
    have "put_token x (?tk\<lparr>tk_token := y\<rparr>) = ?tk\<lparr>tk_token := Some x\<rparr>" by (simp add: put_token_def)
    then have "tk_inv (put_token x (?tk\<lparr>tk_token := y\<rparr>))" using set [of "Some x"] by simp
    then show ?thesis using tk_inv_same [OF _ same_setPinPolicy [OF that]] same_setPinPolicy [OF that] by (auto simp: same_sdm_def)
  qed
  show ?thesis
  proof (cases "ref \<noteq> None \<or> \<not> ok \<or> \<not> ok2")
    case True
    have "tk' = tk1 \<or> tk' = ?tk \<or> tk' = ?tk\<lparr>tk_token := t\<rparr> \<and> (t \<noteq> None \<or> tk_token tk = None)"
      using assms(3) p a g t t' i1 i2(3) True
      by (auto simp: initTokenExtended_def Let_def split: option.splits if_splits prod.splits)
    then show ?thesis using i1 i2 set [of t] by auto
  next
    case False
    obtain o1 t1 where 1: "ot_setSOPIN (getSOPINBlob gen) (the t) = (o1, t1)" by (cases "ot_setSOPIN (getSOPINBlob gen) (the t)")
    obtain o2 t2 where 2: "(if o1 then ot_setUserPIN (getUserPINBlob gen) t1 else (False, t1)) = (o2, t2)"
      by (cases "if o1 then ot_setUserPIN (getUserPINBlob gen) t1 else (False, t1)")
    obtain o3 tk3 where 3: "tk_setPinPolicy pol (put_token t2 (?tk\<lparr>tk_token := t\<rparr>)) = (o3, tk3)"
      by (cases "tk_setPinPolicy pol (put_token t2 (?tk\<lparr>tk_token := t\<rparr>))")
    note i3 = pol [OF 3]
    have 4: "initTokenExtended cx st rep pin sopin upin pol lbl tk =
      (if \<not> o2 then (CKR_DEVICE_ERROR, ?tk\<lparr>tk_token := t, tk_token := (if tk_token tk \<noteq> None then Some t2 else None)\<rparr>)
       else if \<not> o3 then (CKR_DEVICE_ERROR, tk3)
       else
         (let (ok, t) = setPinDefault 0 (isFactoryPIN sopin True) (the (tk_token tk3));
              (ok, t) = (if ok then setPinDefault 1 (isFactoryPIN upin False) t else (False, t));
              tk = put_token t tk3
          in if \<not> ok then (CKR_DEVICE_ERROR, tk)
             else
               (let (v, soPINBlob, userPINBlob, t) = read_pins t;
                    tk = (put_token t tk)\<lparr>tk_valid := v\<rparr>
                in (CKR_OK, put_sdm (SecureDataManager_blobs cx (rng_of tk) soPINBlob userPINBlob) tk))))"
      using p a g t i2(3) False 1 2 3 by (simp add: initTokenExtended_def Let_def)
    have 5: "tk_inv (?tk\<lparr>tk_token := (if tk_token tk \<noteq> None then Some t2 else None)\<rparr>)" using set by simp
    show ?thesis
      using assms(3) 4 5 i3 tk_inv_put_token [of tk3] sdm_inv_constructors(2) [OF assms(1)]
      by (auto simp: Let_def intro!: tk_inv_put split: if_splits prod.splits)
  qed
qed

lemma tk_inv_crypt:
  assumes "rand_sized (cx_rand cx)" "tk_inv tk"
  shows "tk_encrypt cx d tk = (r, tk') \<Longrightarrow> tk_inv tk'" "tk_decrypt cx d tk = (r, tk') \<Longrightarrow> tk_inv tk'"
proof -
  have "tk_inv (snd (tk_encrypt cx d tk)) \<and> tk_inv (snd (tk_decrypt cx d tk))"
  proof (cases "tk_sdm tk")
    case None
    with assms(2) show ?thesis by (simp add: tk_encrypt_def tk_decrypt_def)
  next
    case (Some s)
    have i: "sdm_inv s" "tk_token tk \<noteq> None" using assms(2) Some by (simp_all add: tk_inv_def)
    obtain c s1 p s2 where "sdm_encrypt cx d s = (c, s1)" "sdm_decrypt cx d s = (p, s2)"
      by (cases "sdm_encrypt cx d s"; cases "sdm_decrypt cx d s")
    with sdm_inv_encrypt [OF assms(1) i(1)] sdm_inv_decrypt [OF assms(1) i(1)] Some i(2) show ?thesis
      by (simp add: tk_encrypt_def tk_decrypt_def tk_inv_put)
  qed
  then show "tk_encrypt cx d tk = (r, tk') \<Longrightarrow> tk_inv tk'" "tk_decrypt cx d tk = (r, tk') \<Longrightarrow> tk_inv tk'" by auto
qed

lemma tk_inv_local_verify:
  assumes "tk_inv tk" "tk_token tk \<noteq> None" "sdm_inv s" "local_pin_verify cx n rec cur s t tk = (rv, tk')"
  shows "tk_inv tk'"
proof (cases rec)
  case None
  obtain l tk2 where l: "pinLocked False tk = (l, tk2)" by (cases "pinLocked False tk")
  have i2: "tk_inv tk2" using same_pinLocked [OF l] tk_inv_same [OF assms(1)] by blast
  have p: "tk_inv tk3" if "tk_pinResult False ok (s\<lparr>sdm_rng := r\<rparr>) (put_token x tk2) = (a, tk3)" for ok r x a tk3
    using tk_inv_pinResult [OF _ _ that] assms(3) by simp
  show ?thesis
    using assms(4) None l i2 tk_inv_put_token [OF i2] p
    by (auto simp: local_pin_verify_def Let_def map_prod_def split: if_splits prod.splits)
next
  case (Some r)
  with assms(1, 4) show ?thesis
    by (auto simp: local_pin_verify_def Let_def intro: tk_inv_put_token split: if_splits prod.splits)
qed

lemma tk_inv_local_turn:
  assumes "tk_inv tk" "local_pin_turn cx n cur new tk = (rv, tk')"
  shows "tk_inv tk'"
proof (cases "tk_token tk = None \<or> tk_sdm tk = None")
  case True
  with assms show ?thesis by (auto simp: local_pin_turn_def split: option.splits)
next
  case False
  then obtain t s where ts: "tk_token tk = Some t" "tk_sdm tk = Some s" by auto
  have i: "sdm_inv s" using assms(1) ts by (simp add: tk_inv_def)
  obtain b rec t1 where g: "getLocalPIN n t = (b, rec, t1)" by (cases "getLocalPIN n t")
  obtain a tk2 where v: "local_pin_verify cx n rec cur s t1 (put_token t1 tk) = (a, tk2)"
    by (cases "local_pin_verify cx n rec cur s t1 (put_token t1 tk)")
  have i1: "tk_inv (put_token t1 tk)" using assms(1) by (rule tk_inv_put_token)
  have i2: "tk_inv tk2" using tk_inv_local_verify [OF i1 _ i v] by simp
  have "tk_inv (snd (local_pin_replace cx n rec new tk2))"
    using i2 by (auto simp: local_pin_replace_def Let_def intro: tk_inv_put_token split: prod.splits)
  then show ?thesis
    using assms(2) ts g v i1 i2 by (auto simp: local_pin_turn_def Let_def split: if_splits)
qed

lemma tk_inv_setLocalPIN:
  assumes "tk_inv tk" "setLocalPIN cx n cur new tk = (rv, tk')"
  shows "tk_inv tk'"
proof -
  have loop: "tk_inv b" if "tk_inv a" "local_pin_loop k cx n cur new a = (r, b)" for k a r b
    using that
  proof (induction k arbitrary: a)
    case (Suc k)
    then show ?case using tk_inv_local_turn [of a cx n cur new] by (auto split: prod.splits option.splits)
  qed simp
  obtain p tk1 where "tk_getPinPolicy tk = (p, tk1)" by (cases "tk_getPinPolicy tk")
  with assms tk_inv_same [OF assms(1) same_getPinPolicy [of tk p tk1]] loop [of tk1] show ?thesis
    by (auto simp: setLocalPIN_def split: if_splits option.splits)
qed

section \<open>Steps\<close>

text \<open>
  Every operation of the token, whatever it answers; the readers and the writers of names,
  licences and the journal touch the stored token only.
\<close>

inductive tk_step :: "('c, 'd, 'r) crypto \<Rightarrow> ('c, 'r) hsm_token \<Rightarrow> ('c, 'r) hsm_token \<Rightarrow> bool" for cx where
  SO: "loginSO cx pin tk = (rv, tk') \<Longrightarrow> tk_step cx tk tk'"
| User: "loginUser cx pin tk = (rv, tk') \<Longrightarrow> tk_step cx tk tk'"
| Again: "reAuthenticate cx pin tk = (rv, tk') \<Longrightarrow> tk_step cx tk tk'"
| Logout: "tk_step cx tk (tk_logout tk)"
| SetSO: "tk_setSOPIN cx old new tk = (rv, tk') \<Longrightarrow> tk_step cx tk tk'"
| SetUser: "tk_setUserPIN cx old new tk = (rv, tk') \<Longrightarrow> tk_step cx tk tk'"
| InitUser: "initUserPIN cx pin tk = (rv', tk') \<Longrightarrow> tk_step cx tk tk'"
| Unblock: "unblockUserPIN tk = (rv, tk') \<Longrightarrow> tk_step cx tk tk'"
| Create: "createToken cx req st pin lbl tk = (rv', tk') \<Longrightarrow> tk_step cx tk tk'"
| Format: "initTokenExtended cx st rep pin sopin upin pol lbl tk = (rv, tk') \<Longrightarrow> tk_step cx tk tk'"
| Local: "setLocalPIN cx n cur new tk = (rv, tk') \<Longrightarrow> tk_step cx tk tk'"
| Encrypt: "tk_encrypt cx d tk = (r, tk') \<Longrightarrow> tk_step cx tk tk'"
| Decrypt: "tk_decrypt cx d tk = (r, tk') \<Longrightarrow> tk_step cx tk tk'"
| Stored: "tk_token tk \<noteq> None \<Longrightarrow> tk_step cx tk (put_token t tk)"

inductive tk_reachable :: "('c, 'd, 'r) crypto \<Rightarrow> ('c, 'r) hsm_token \<Rightarrow> bool" for cx where
  empty: "tk_reachable cx (Token_null r)"
| opened: "tk_reachable cx (Token_new cx r t)"
| step: "tk_reachable cx tk \<Longrightarrow> tk_step cx tk tk' \<Longrightarrow> tk_reachable cx tk'"

lemma tk_step_inv:
  assumes "rand_sized (cx_rand cx)" "tk_step cx tk tk'" "tk_inv tk"
  shows "tk_inv tk'"
  using assms(2)
proof cases
  case Logout
  with assms(3) show ?thesis by (simp add: tk_inv_def split: option.splits)
next
  case (Unblock rv)
  with assms(3) same_refill [of tk rv tk'] show ?thesis
    by (auto simp: unblockUserPIN_def intro: tk_inv_same split: if_splits)
next
  case (InitUser pin rv)
  with tk_inv_initUserPIN [OF assms(1, 3)] show ?thesis by blast
next
  case (Stored t)
  with assms(3) show ?thesis by (simp add: tk_inv_put_token)
next
  case SO
  then show ?thesis by (rule tk_inv_login(1) [OF assms(1, 3)])
next
  case User
  then show ?thesis by (rule tk_inv_login(2) [OF assms(1, 3)])
next
  case Again
  then show ?thesis by (rule tk_inv_reAuthenticate [OF assms(3)])
next
  case SetSO
  then show ?thesis by (rule tk_inv_setSOPIN [OF assms(1, 3)])
next
  case SetUser
  then show ?thesis by (rule tk_inv_setUserPIN [OF assms(1, 3)])
next
  case Create
  then show ?thesis by (rule tk_inv_createToken [OF assms(1, 3)])
next
  case Format
  then show ?thesis by (rule tk_inv_initTokenExtended [OF assms(1, 3)])
next
  case Local
  then show ?thesis by (rule tk_inv_setLocalPIN [OF assms(3)])
next
  case Encrypt
  then show ?thesis by (rule tk_inv_crypt(1) [OF assms(1, 3)])
next
  case Decrypt
  then show ?thesis by (rule tk_inv_crypt(2) [OF assms(1, 3)])
qed

lemma tk_reachable_inv:
  assumes "rand_sized (cx_rand cx)" "tk_reachable cx tk"
  shows "tk_inv tk"
  using assms(2)
proof induction
  case (empty r)
  show ?case by (simp add: tk_inv_def Token_null_def)
next
  case (opened r t)
  show ?case
    using sdm_inv_constructors(2) [OF assms(1)] by (simp add: tk_inv_def Token_new_def split: prod.splits)
next
  case (step tk tk')
  then show ?case using tk_step_inv [OF assms(1)] by blast
qed

text \<open>
  C35: SO and user are never logged in together. Over every history of token operations, with any PINs, any
  answers of the disk and any failures of the generator: not both roles at once; a manager
  exists only for a token that exists; and setting the user PIN never follows a null
  pointer.
\<close>

theorem token_login_exclusive:
  assumes "rand_sized (cx_rand cx)" and "tk_reachable cx tk"
  shows "\<not> (isSOLoggedIn tk \<and> isUserLoggedIn tk) \<and> (tk_sdm tk \<noteq> None \<longrightarrow> tk_token tk \<noteq> None)
    \<and> (\<forall>pin. fst (initUserPIN cx pin tk) \<noteq> None)"
proof -
  have i: "tk_inv tk" by (rule tk_reachable_inv [OF assms])
  have "fst (initUserPIN cx pin tk) \<noteq> None" for pin
    using tk_inv_initUserPIN [OF assms(1) i] by (cases "initUserPIN cx pin tk") auto
  with i show ?thesis
    by (auto simp: tk_inv_def isSOLoggedIn_def isUserLoggedIn_def sdm_inv_def split: option.splits)
qed

theorem token_login_exclusive_witness:
  "tk_reachable sample_crypto (Token_null ()) \<and> \<not> (isSOLoggedIn (Token_null () :: (unit, unit) hsm_token) \<and> isUserLoggedIn (Token_null () :: (unit, unit) hsm_token))"
  using token_login_exclusive [of sample_crypto "Token_null ()"] sample_crypto_ok(1) tk_reachable.empty [of sample_crypto "()"]
  by (simp add: crypto_ok_def)

end
