(* ===== verification/Token_Progress.thy ===== *)
theory Token_Progress
  imports Token_Life
begin

text \<open>
  What the token does when the disk works (\<^verbatim>\<open>src/lib/object_store/OSToken.cpp\<close> and
  \<^verbatim>\<open>src/lib/slot_mgr/Token.cpp\<close>): every read and every transaction on the token object
  comes through, so that the right PIN logs in while a try is left. Also who may format a
  token.
\<close>

section \<open>A disk that works\<close>

text \<open>The copy is up to date, and the operating system answers yes from here on.\<close>

definition works :: "os_token \<Rightarrow> ulong \<Rightarrow> attr_map \<Rightarrow> bool" where
  "works t g m \<longleftrightarrow> synced t g m \<and> ot_valid t \<and> ot_writes t = [] \<and> ot_answers t = []"

lemma add_objects_answers: "ot_answers (add_objects fs t) = ot_answers t"
  by (induction fs arbitrary: t) (simp_all add: Let_def)

lemma invalidate_answers: "ot_answers (fold invalidate_object as t) = ot_answers t"
  by (induction as arbitrary: t) (simp_all add: invalidate_object_def split: option.splits)

lemma index_works:
  assumes "works t g m"
  shows "ot_valid (snd (index False t)) \<and> ot_answers (snd (index False t)) = []"
proof -
  have v: "ot_valid t" "ot_answers t = []" "of_valid (ot_tokenObject t)" "ot_dir t \<noteq> None"
    using assms on_disk_dir [of t g m] by (auto simp: works_def synced_def stored_def)
  obtain c t1 where c: "tokengen_wasUpdated t = (c, t1)" by (cases "tokengen_wasUpdated t")
  have k: "ot_tokenObject t1 = ot_tokenObject t \<and> ot_dir t1 = ot_dir t \<and> ot_valid t1 = ot_valid t \<and> ot_answers t1 = ot_answers t"
    using c by (auto simp: tokengen_wasUpdated_def split: option.splits if_splits)
  obtain fs where "ot_dir t1 = Some fs" using k v by auto
  then have "dir_list t1 = (Some (map fst fs), t1)" using k v by (simp add: dir_list_def next_answer_def)
  with v k c show ?thesis
    by (simp add: index_def Let_def add_objects_keeps invalidate_keeps add_objects_answers invalidate_answers)
qed

lemma ready_works:
  assumes "works t g m"
  shows "\<exists>t'. to_ready t = (True, t') \<and> works t' g m"
proof -
  obtain r t1 where i: "index False t = (r, t1)" by (cases "index False t")
  note k = index_keeps [OF i] and w = index_works [OF assms, unfolded i, simplified]
  have s: "synced t g m" "ot_valid t" "ot_writes t = []" using assms by (simp_all add: works_def)
  then have obj: "\<not> of_inTransaction (ot_tokenObject t)" "dir_get t ''token.object'' = Some (enc g m)"
    "of_gen (ot_tokenObject t) = g" "of_valid (ot_tokenObject t)" by (auto simp: synced_def stored_def on_disk_def)
  have d: "dir_get t1 = dir_get t" using k by (simp add: dir_get_def fun_eq_iff)
  have "of_isValid (Some (enc g m)) (ot_tokenObject t) = (True, ot_tokenObject t)"
    using obj by (simp add: of_isValid_def of_refresh_def Let_def)
  then have r: "to_ready t = (True, t1)"
    using s(2) obj i k d by (simp add: to_ready_def to_isValid_def Let_def)
  have "stored t g m" using s(1) by (simp add: synced_def)
  from ready_ok [OF this r] have "synced t1 g m" .
  with r w k s(3) show ?thesis by (auto simp: works_def)
qed

definition tx_works :: "os_token \<Rightarrow> ulong \<Rightarrow> attr_map \<Rightarrow> attr_map \<Rightarrow> bool" where
  "tx_works t g m m' \<longleftrightarrow> in_tx t g m m' \<and> ot_valid t \<and> ot_writes t = [] \<and> ot_answers t = []"

lemma begin_works:
  assumes "works t g m"
  shows "\<exists>t'. to_begin t = (True, t') \<and> tx_works t' g m m"
proof -
  have s: "stored t g m" "ot_valid t" "ot_writes t = []" "ot_answers t = []" "\<not> of_inTransaction (ot_tokenObject t)"
    "on_disk t g m"
    using assms by (simp_all add: works_def synced_def stored_def)
  obtain ok t' where b: "to_begin t = (ok, t')" by (cases "to_begin t")
  define t2 where "t2 = (if dir_get t ''token.lock'' = None then dir_put ''token.lock'' (Some []) t else t)"
  have dir: "ot_dir t2 \<noteq> None" using on_disk_dir [OF s(6)] by (simp add: t2_def del: not_None_eq)
  have d: "dir_get t2 ''token.object'' = Some (enc g m)" "ot_tokenObject t2 = ot_tokenObject t"
    "ot_writes t2 = []" "ot_answers t2 = []"
    using s by (auto simp: t2_def dir_get_put on_disk_def)
  have r: "of_refresh True (Some (enc g m)) (ot_tokenObject t) = (ot_tokenObject t)\<lparr>of_attributes := m, of_valid := True, of_gen := g\<rparr>"
    using s(5, 6) by (intro refresh_enc) (auto simp: on_disk_def)
  have "to_begin t = (True, t2\<lparr>ot_tokenObject := (ot_tokenObject t)\<lparr>of_attributes := m, of_valid := True, of_gen := g, of_inTransaction := True\<rparr>\<rparr>)"
    using s d dir r by (simp add: to_begin_def to_startTransaction_def next_answer_def t2_def [symmetric] of_startTransaction_def Let_def)
  with begin_cases [OF s(1) b] b d show ?thesis by (auto simp: tx_works_def)
qed

lemma next_write_works: "ot_writes t = [] \<Longrightarrow> ot_dir t \<noteq> None \<Longrightarrow> next_write t = (IO_ok, t)"
  by (simp add: next_write_def)

lemma set_env:
  assumes "ot_writes t = []" "ot_dir t \<noteq> None" "to_setAttribute type v t = (ok, t')"
  shows "ot_writes t' = [] \<and> ot_answers t' = ot_answers t \<and> ot_valid t' = ot_valid t"
  using assms by (auto simp: to_setAttribute_def next_write_works split: prod.splits)

lemma set_works:
  assumes "works t g m" "attr_ok v"
  shows "\<exists>t'. to_setAttribute type v t = (True, t') \<and> works t' (gen_next g) (omap_insert type v m)"
proof -
  have s: "synced t g m" "ot_writes t = []" "on_disk t g m" "of_valid (ot_tokenObject t)" "of_attributes (ot_tokenObject t) = m"
    "\<not> of_inTransaction (ot_tokenObject t)" "ot_valid t" "ot_answers t = []"
    using assms(1) by (auto simp: works_def synced_def stored_def)
  note d = on_disk_dir [OF s(3)]
  obtain ok t' where r: "to_setAttribute type v t = (ok, t')" by (cases "to_setAttribute type v t")
  have "attrs_ok (omap_insert type v m)" using s(3) assms(2) by (simp add: on_disk_def attrs_ok_insert)
  then have ok
    using r s d store_enc [of "(ot_tokenObject t)\<lparr>of_attributes := omap_insert type v m\<rparr>" False g m]
    by (auto simp: to_setAttribute_def next_write_works of_setAttribute_def on_disk_def)
  with set_synced [OF s(1) r assms(2)] set_env [OF s(2) d r] r s(7, 8) show ?thesis by (auto simp: works_def)
qed

lemma tx_set_works:
  assumes "tx_works t g m m'" "attr_ok v"
  shows "\<exists>t'. to_setAttribute type v t = (True, t') \<and> tx_works t' g m (omap_insert type v m')"
proof -
  have s: "in_tx t g m m'" "ot_writes t = []" "on_disk t g m" "ot_valid t" "ot_answers t = []"
    using assms(1) by (auto simp: tx_works_def in_tx_def)
  obtain ok t' where r: "to_setAttribute type v t = (ok, t')" by (cases "to_setAttribute type v t")
  with set_in_tx [OF s(1) r assms(2)] set_env [OF s(2) on_disk_dir [OF s(3)] r] s show ?thesis by (auto simp: tx_works_def)
qed

lemma finish_works:
  assumes "tx_works t g m m'"
  shows "\<exists>t'. to_finish (True, t) = (True, t') \<and> works t' (gen_next g) m'"
proof -
  have s: "in_tx t g m m'" "ot_writes t = []" "on_disk t g m" "ot_valid t" "ot_answers t = []"
    using assms(1) by (auto simp: tx_works_def in_tx_def)
  note d = on_disk_dir [OF s(3)]
  have obj: "of_inTransaction (ot_tokenObject t)" "of_valid (ot_tokenObject t)" "of_attributes (ot_tokenObject t) = m'" "attrs_ok m'"
    using s(1) by (auto simp: in_tx_def)
  have "to_commitTransaction t = (True, dir_put ''token.object'' (Some (enc (gen_next g) m'))
      (t\<lparr>ot_tokenObject := (ot_tokenObject t)\<lparr>of_gen := gen_next g, of_valid := True, of_inTransaction := False\<rparr>\<rparr>))"
    using s d obj store_enc [of "ot_tokenObject t" True g m]
    by (simp add: to_commitTransaction_def next_write_works of_commitTransaction_def on_disk_def)
  then have r: "to_finish (True, t) = (True, dir_put ''token.object'' (Some (enc (gen_next g) m'))
      (t\<lparr>ot_tokenObject := (ot_tokenObject t)\<lparr>of_gen := gen_next g, of_valid := True, of_inTransaction := False\<rparr>\<rparr>))"
    by (simp add: to_finish_def)
  from finish_cases [OF s(1) r] r s show ?thesis by (auto simp: works_def)
qed

section \<open>The counter and the flags\<close>

lemma advance_works:
  assumes "works t g m" "advance_bytes so success (policy_of m) = Some p"
  shows "\<exists>t'. advancePinPolicy so success t = (Some p, t') \<and> works t' (gen_next g) (omap_insert CKA_OS_PINPOLICY (BYTESTR p) m)"
proof -
  obtain t1 where 1: "to_begin t = (True, t1)" "tx_works t1 g m m" using begin_works [OF assms(1)] by blast
  then have tx: "in_tx t1 g m m" by (simp add: tx_works_def)
  have pol: "(if to_attributeExists t1 CKA_OS_PINPOLICY
      then attr_getByteStringValue (to_getAttribute t1 CKA_OS_PINPOLICY) else default_policy) = policy_of m"
    using to_reads(1, 2) [OF tx, of CKA_OS_PINPOLICY] by (auto simp: policy_of_def split: option.splits)
  obtain t2 where 2: "to_setAttribute CKA_OS_PINPOLICY (BYTESTR p) t1 = (True, t2)"
    "tx_works t2 g m (omap_insert CKA_OS_PINPOLICY (BYTESTR p) m)"
    using tx_set_works [OF 1(2), of "BYTESTR p" CKA_OS_PINPOLICY] length_update_ok [OF assms(2)] by auto
  obtain t3 where 3: "to_finish (True, t2) = (True, t3)" "works t3 (gen_next g) (omap_insert CKA_OS_PINPOLICY (BYTESTR p) m)"
    using finish_works [OF 2(2)] by blast
  from 1 2 3 pol assms(2) show ?thesis by (simp add: advancePinPolicy_def)
qed

lemma flags_works:
  assumes "works t g m" "omap_find m CKA_OS_TOKENFLAGS \<noteq> None"
  shows "\<exists>f t'. getTokenFlags t = (Some f, t') \<and> works t' g m"
proof -
  obtain t1 where 1: "to_ready t = (True, t1)" "works t1 g m" using ready_works [OF assms(1)] by blast
  then have "to_attributeExists t1 CKA_OS_TOKENFLAGS" using to_reads(3) assms(2) by (auto simp: works_def)
  with 1 show ?thesis by (simp add: getTokenFlags_def Let_def)
qed

lemma pinResult_works:
  assumes "works t g m" "omap_find m CKA_OS_TOKENFLAGS \<noteq> None" "advance_bytes so success (policy_of m) = Some p"
  shows "\<exists>t' g' m'. pinResult so success t s =
      (if p ! leftIndex so = 0 then CKR_PIN_LOCKED else if success then CKR_OK else CKR_PIN_INCORRECT, t',
       if p ! leftIndex so = 0 then sdm_logout s else s)
    \<and> works t' g' m' \<and> policy_of m' = p
    \<and> (\<forall>k. k \<noteq> CKA_OS_PINPOLICY \<and> k \<noteq> CKA_OS_TOKENFLAGS \<longrightarrow> omap_find m' k = omap_find m k)"
proof -
  let ?m = "omap_insert CKA_OS_PINPOLICY (BYTESTR p) m"
  obtain t1 where 1: "advancePinPolicy so success t = (Some p, t1)" "works t1 (gen_next g) ?m"
    using advance_works [OF assms(1, 3)] by blast
  have "omap_find ?m CKA_OS_TOKENFLAGS \<noteq> None" using assms(2) by simp
  then obtain f t2 where 2: "getTokenFlags t1 = (Some f, t2)" "works t2 (gen_next g) ?m"
    using flags_works [OF 1(2)] by blast
  let ?f = "counter_flags so (p ! leftIndex so) (p ! maxIndex so) f"
  obtain t3 where 3: "setTokenFlags ?f t2 = (True, t3)"
    "works t3 (gen_next (gen_next g)) (omap_insert CKA_OS_TOKENFLAGS (ULONG ?f) ?m)"
    using set_works [OF 2(2), of "ULONG ?f" CKA_OS_TOKENFLAGS] 2(2) by (auto simp: setTokenFlags_def works_def)
  have "pinResult so success t s =
      (if p ! leftIndex so = 0 then CKR_PIN_LOCKED else if success then CKR_OK else CKR_PIN_INCORRECT, t3,
       if p ! leftIndex so = 0 then sdm_logout s else s)"
    using 1 2 3 by (simp add: pinResult_def)
  with 3(2) show ?thesis by (intro exI conjI) (auto simp: policy_of_flags policy_of_insert)
qed

lemma pinLocked_works:
  assumes "tk_token tk = Some t" "works t g m"
  shows "\<exists>t'. pinLocked so tk = (tries so m = 0, put_token t' tk) \<and> works t' g m"
proof -
  obtain t1 where 1: "to_ready t = (True, t1)" "works t1 g m" using ready_works [OF assms(2)] by blast
  obtain ok b t2 where r: "ot_getPinPolicy t = (ok, b, t2)" by (cases "ot_getPinPolicy t")
  have ok: ok "t2 = t1" using r 1 by (auto simp: ot_getPinPolicy_def get_optional_def)
  obtain l tk' where l: "pinLocked so tk = (l, tk')" by (cases "pinLocked so tk")
  have s: "stored t g m" using assms(2) by (simp add: works_def synced_def)
  have b: "b = map_option attr_getByteStringValue (omap_find m CKA_OS_PINPOLICY)"
    using getPinPolicy_cases [OF s r] ok by simp
  have left: "(if so then leftSO (policy_of_bytes b) else leftUser (policy_of_bytes b)) = b ! leftIndex so" for b
    by (simp add: policy_of_bytes_def leftIndex_def)
  have "pinLocked so tk = (\<not> policy_bytes_ok (policy_of m) \<or> policy_of m ! leftIndex so = 0, put_token t1 tk)"
    using assms(1) r ok left by (simp add: pinLocked_def tk_getPinPolicy_def b policy_of_find)
  moreover have "(\<not> policy_bytes_ok (policy_of m) \<or> policy_of m ! leftIndex so = 0) = (tries so m = 0)"
    by (auto simp: tries_def unat_eq_0)
  ultimately show ?thesis using 1(2) by auto
qed

lemma advance_total:
  assumes "0 < tries so m"
  shows "\<exists>p. advance_bytes so True (policy_of m) = Some p \<and> p ! leftIndex so \<noteq> 0 \<and> p ! leftIndex so = policy_of m ! maxIndex so"
proof -
  have ok: "policy_bytes_ok (policy_of m)" "policy_of m ! leftIndex so \<noteq> 0" using assms by (auto simp: tries_def split: if_splits)
  note len = bytes_shape [OF ok(1)]
  have le: "\<not> policy_of m ! leftIndex so > policy_of m ! maxIndex so" "policy_of m ! maxIndex so \<noteq> 0"
    using ok by (cases so; auto simp: policy_bytes_ok_def leftIndex_def maxIndex_def)+
  have "leftIndex so < length (policy_of m)" using len by (auto simp: leftIndex_def)
  with ok le len show ?thesis by (auto simp: advance_bytes_def policy_bytes_ok_def)
qed

lemma advance_failed:
  assumes "policy_bytes_ok b" "b ! leftIndex so \<noteq> 0"
  obtains p where "advance_bytes so False b = Some p"
proof -
  note len = bytes_shape [OF assms(1)]
  have le: "\<not> b ! leftIndex so > b ! maxIndex so" "b ! maxIndex so \<noteq> 0"
    using assms by (cases so; auto simp: policy_bytes_ok_def leftIndex_def maxIndex_def)+
  have "leftIndex so < length b" using len by (auto simp: leftIndex_def)
  with assms le len have "\<exists>p. advance_bytes so False b = Some p" by (auto simp: advance_bytes_def policy_bytes_ok_def)
  then show thesis using that by blast
qed

text \<open>A refused request to format: what it answers and what it leaves alone.\<close>

lemma refused_format:
  assumes "tk_token tk = Some t" and "works t g m" and "omap_find m CKA_OS_TOKENFLAGS \<noteq> None"
    and "tk_sdm tk = Some s" and "getSOPINBlob s \<noteq> []"
    and "if repair then 0 < tries True m else tries True m = 0 \<or> \<not> fst (sdm_loginSO cx pin (verifier cx s))"
    and "authorise_format cx repair pin tk = (ref, tk1)"
  shows "\<exists>r. ref = Some r \<and> r \<noteq> CKR_OK \<and>
    (\<exists>t' g' m'. tk_token tk1 = Some t' \<and> works t' g' m' \<and> (\<forall>k. k \<noteq> CKA_OS_PINPOLICY \<and> k \<noteq> CKA_OS_TOKENFLAGS \<longrightarrow> omap_find m' k = omap_find m k))
    \<and> (\<exists>s'. tk_sdm tk1 = Some s' \<and> soEncryptedKey s' = soEncryptedKey s \<and> userEncryptedKey s' = userEncryptedKey s)"
proof -
  obtain t1 where 1: "pinLocked True tk = (tries True m = 0, put_token t1 tk)" "works t1 g m"
    using pinLocked_works [OF assms(1, 2), of True] by blast
  show ?thesis
  proof (cases "repair \<or> tries True m = 0")
    case True
    then have "\<exists>r. ref = Some r \<and> r \<noteq> CKR_OK \<and> tk1 = put_token t1 tk"
      using assms(1, 4-7) 1(1) by (auto simp: authorise_format_def split: if_splits)
    moreover have "tk_token (put_token t1 tk) = Some t1" "tk_sdm (put_token t1 tk) = Some s" using assms(4) by simp_all
    ultimately show ?thesis using 1(2) by metis
  next
    case False
    then have left: "0 < tries True m" by simp
    obtain s1 where s1: "sdm_loginSO cx pin (verifier cx s) = (False, s1)"
      using assms(6) False by (cases "sdm_loginSO cx pin (verifier cx s)") simp
    let ?s = "s\<lparr>sdm_rng := sdm_rng s1\<rparr>"
    have ok: "policy_bytes_ok (policy_of m)" "policy_of m ! leftIndex True \<noteq> 0"
      using left by (auto simp: tries_def split: if_splits)
    obtain p where p: "advance_bytes True False (policy_of m) = Some p" using ok by (rule advance_failed)
    obtain rv t2 s2 where r: "pinResult True False t1 ?s = (rv, t2, s2)" by (cases "pinResult True False t1 ?s")
    from pinResult_works [OF 1(2) assms(3) p, of ?s] r obtain g' m' where
      "works t2 g' m'" "\<forall>k. k \<noteq> CKA_OS_PINPOLICY \<and> k \<noteq> CKA_OS_TOKENFLAGS \<longrightarrow> omap_find m' k = omap_find m k"
      "rv \<noteq> CKR_OK" "soEncryptedKey s2 = soEncryptedKey s" "userEncryptedKey s2 = userEncryptedKey s"
      by (auto split: if_splits)
    moreover have "ref = Some rv" "tk1 = put_sdm s2 (put_token t2 (put_token t1 tk))"
      using assms(1, 4, 5, 7) False 1(1) s1 r by (auto simp: authorise_format_def tk_pinResult_def)
    ultimately show ?thesis by auto
  qed
qed

section \<open>Properties\<close>

text \<open>
  C36: the right PIN logs in. When the disk works, the policy grants a try, and the user's
  blob on the manager seals a key under the PIN, the login is answered with \<^verbatim>\<open>CKR_OK\<close>, the
  user is logged in with that key, and the counter on disk is full again.
\<close>

theorem right_pin_logs_in:
  assumes "crypto_ok cx H" and "tk_token tk = Some t" and "works t g m" and "omap_find m CKA_OS_TOKENFLAGS \<noteq> None"
    and "0 < tries False m" and "tk_sdm tk = Some s" and "sdm_inv s" and "nobody tk"
    and "blob_seals cx pin key aes (userEncryptedKey s)" and "idle aes"
  shows "\<exists>tk' s'. loginUser cx pin tk = (CKR_OK, tk') \<and> isUserLoggedIn tk' \<and> tk_sdm tk' = Some s' \<and> unmask s' = key
    \<and> tries_left False tk' = unat (policy_of m ! 4)"
proof -
  obtain t1 where 1: "pinLocked False tk = (False, put_token t1 tk)" "works t1 g m"
    using pinLocked_works [OF assms(2, 3), of False] assms(5) by auto
  obtain s1 where l: "sdm_login cx pin (userEncryptedKey s) s = (True, s1)" "unmask s1 = key"
    using sdm_login_sealed [OF assms(1, 9, 10, 7)] by blast
  then have u: "sdm_loginUser cx pin s = (True, s1\<lparr>userLoggedIn := True\<rparr>)" by (simp add: sdm_loginUser_def)
  obtain p where p: "advance_bytes False True (policy_of m) = Some p" "p ! leftIndex False \<noteq> 0"
    "p ! leftIndex False = policy_of m ! maxIndex False"
    using advance_total [OF assms(5)] by blast
  obtain t2 g' m' where 2: "pinResult False True t1 (s1\<lparr>userLoggedIn := True\<rparr>) = (CKR_OK, t2, s1\<lparr>userLoggedIn := True\<rparr>)"
    "works t2 g' m'" "policy_of m' = p"
    using pinResult_works [OF 1(2) assms(4) p(1), of "s1\<lparr>userLoggedIn := True\<rparr>"] p(2) by auto
  have "userEncryptedKey s \<noteq> []" using assms(9) by (auto simp: blob_seals_def)
  then have r: "loginUser cx pin tk = (CKR_OK, put_sdm (s1\<lparr>userLoggedIn := True\<rparr>) (put_token t2 tk))"
    using assms(6, 8) 1(1) u 2(1)
    by (simp add: loginUser_def isSOLoggedIn_def isUserLoggedIn_def getUserPINBlob_def tk_pinResult_def)
  have ok: "policy_bytes_ok (policy_of m)" using assms(5) by (auto simp: tries_def split: if_splits)
  have "policy_bytes_ok p" using advance_ok [OF ok p(1)] by blast
  then have "tries False m' = unat (policy_of m ! 4)" using 2(3) p(3) by (simp add: tries_def maxIndex_def)
  moreover have "stored t2 g' m'" using 2(2) by (simp add: works_def synced_def)
  ultimately have "tries_left False (put_sdm (s1\<lparr>userLoggedIn := True\<rparr>) (put_token t2 tk)) = unat (policy_of m ! 4)"
    by (subst tries_left_stored [of _ t2 g' m']) simp_all
  with r l(2) show ?thesis by (auto simp: isUserLoggedIn_def)
qed

text \<open>A token with flags, whose user PIN is \<^verbatim>\<open>1234\<close> in bytes.\<close>

definition sample_blob :: bytes where
  "sample_blob = soEncryptedKey (snd (setSOPIN sample_crypto [1, 2, 3, 4] sample_new))"

definition sample_flagged :: os_token where
  "sample_flagged = snd (setTokenFlags CKF_RNG sample_token)"

definition sample_user :: "(unit, unit) hsm_token" where
  "sample_user = \<lparr>tk_token = Some sample_flagged,
     tk_sdm = Some (SecureDataManager_blobs sample_crypto () sample_blob sample_blob), tk_valid = True, tk_rng = ()\<rparr>"

lemma sample_token_works: "works sample_token 1 []"
proof -
  have "ot_tokenObject sample_token = \<lparr>of_valid = True, of_attributes = [], of_inTransaction = False, of_gen = 1\<rparr>"
    using refresh_enc [of "[]" "\<lparr>of_valid = True, of_attributes = [], of_inTransaction = False, of_gen = 0\<rparr>" True 1]
    by (simp add: sample_token_def ObjectFile_open_def attrs_ok_def)
  then show ?thesis using sample_token_stored by (simp add: works_def synced_def) (simp add: sample_token_def)
qed

lemma sample_flagged_works: "works sample_flagged 2 [(CKA_OS_TOKENFLAGS, ULONG CKF_RNG)]"
proof -
  have "synced sample_token 1 []" using sample_token_works by (simp add: works_def)
  obtain t where "to_ready sample_token = (True, t)" "works t 1 []" using ready_works [OF sample_token_works] by blast
  moreover obtain t' where "to_setAttribute CKA_OS_TOKENFLAGS (ULONG CKF_RNG) sample_token = (True, t')"
    "works t' (gen_next 1) (omap_insert CKA_OS_TOKENFLAGS (ULONG CKF_RNG) [])"
    using set_works [OF sample_token_works, of "ULONG CKF_RNG" CKA_OS_TOKENFLAGS] by auto
  ultimately show ?thesis using sample_token_works
    by (simp add: sample_flagged_def setTokenFlags_def works_def gen_next_def)
qed

theorem right_pin_logs_in_witness:
  "\<exists>tk'. loginUser sample_crypto [1, 2, 3, 4] sample_user = (CKR_OK, tk') \<and> isUserLoggedIn tk' \<and> tries_left False tk' = 10"
proof -
  let ?m = "[(CKA_OS_TOKENFLAGS, ULONG CKF_RNG)]" and ?s = "SecureDataManager_blobs sample_crypto () sample_blob sample_blob"
  obtain key aes where aes: "idle aes" "blob_seals sample_crypto [1, 2, 3, 4] key aes sample_blob"
    using setSOPIN_seals(1) [OF sample_crypto_ok(1) sample_new_inv sample_set] by (auto simp: sample_blob_def)
  have pol: "policy_of ?m = default_policy" by (simp add: policy_of_def CKA_OS_TOKENFLAGS_def CKA_OS_PINPOLICY_def)
  have "tries False ?m = 10" by (simp add: tries_def pol default_policy_def policy_bytes_ok_def leftIndex_def)
  moreover have "sdm_inv ?s" using sample_crypto_ok(1) by (intro sdm_inv_constructors) (simp add: crypto_ok_def)
  moreover have "nobody sample_user" "userEncryptedKey ?s = sample_blob"
    by (simp_all add: sample_user_def isSOLoggedIn_def isUserLoggedIn_def SecureDataManager_blobs_def initObject_def
      split: prod.splits)
  moreover have "tk_token sample_user = Some sample_flagged" "tk_sdm sample_user = Some ?s" by (simp_all add: sample_user_def)
  ultimately show ?thesis
    using right_pin_logs_in [OF sample_crypto_ok(1) _ sample_flagged_works, of sample_user ?s "[1, 2, 3, 4]" key aes] aes pol
    by (auto simp: default_policy_def)
qed



end
