(* ===== verification/Session_Mgr.thy ===== *)
theory Session_Mgr
  imports Token Handle_Mgr "HOL-Library.Multiset"
begin

unbundle bit_operations_syntax

text \<open>
  The access rules (\<^verbatim>\<open>src/lib/access.cpp\<close>), sessions (\<^verbatim>\<open>src/lib/session_mgr/Session.cpp\<close>)
  and the session manager (\<^verbatim>\<open>src/lib/session_mgr/SessionManager.cpp\<close>).

  Sessions are objects on a heap; the manager's vector holds their addresses, with the
  null pointer in the places of closed sessions. What a session owns (cipher and hash
  objects, keys, parameters) is a set of addresses too; an operation that gives something
  back to its factory returns the addresses it gives back. The slots are the map of the
  slot manager, from slot identifiers to tokens.

  Shown: the access rules are the table of the documentation; a session that ends its
  operation gives back everything it owns, once; closing the last session of a slot, and
  no other, logs the token out; a place in the vector is only reused when it is free.
\<close>

section \<open>Access rules\<close>

definition CKS_RO_PUBLIC_SESSION :: ulong where "CKS_RO_PUBLIC_SESSION = 0"
definition CKS_RO_USER_FUNCTIONS :: ulong where "CKS_RO_USER_FUNCTIONS = 1"
definition CKS_RW_PUBLIC_SESSION :: ulong where "CKS_RW_PUBLIC_SESSION = 2"
definition CKS_RW_USER_FUNCTIONS :: ulong where "CKS_RW_USER_FUNCTIONS = 3"
definition CKS_RW_SO_FUNCTIONS :: ulong where "CKS_RW_SO_FUNCTIONS = 4"

lemmas CKS_defs = CKS_RO_PUBLIC_SESSION_def CKS_RO_USER_FUNCTIONS_def CKS_RW_PUBLIC_SESSION_def
  CKS_RW_USER_FUNCTIONS_def CKS_RW_SO_FUNCTIONS_def

definition haveRead :: "ulong \<Rightarrow> bool \<Rightarrow> bool \<Rightarrow> ck_rv" where
  "haveRead sessionState isTokenObject isPrivateObject =
     (if sessionState = CKS_RO_PUBLIC_SESSION \<or> sessionState = CKS_RW_PUBLIC_SESSION
        \<or> sessionState = CKS_RW_SO_FUNCTIONS
      then (if isPrivateObject then CKR_USER_NOT_LOGGED_IN else CKR_OK)
      else if sessionState = CKS_RO_USER_FUNCTIONS \<or> sessionState = CKS_RW_USER_FUNCTIONS then CKR_OK
      else CKR_GENERAL_ERROR)"

definition haveWrite :: "ulong \<Rightarrow> bool \<Rightarrow> bool \<Rightarrow> ck_rv" where
  "haveWrite sessionState isTokenObject isPrivateObject =
     (if sessionState = CKS_RO_PUBLIC_SESSION then
        (if isTokenObject then CKR_SESSION_READ_ONLY
         else if isPrivateObject then CKR_USER_NOT_LOGGED_IN else CKR_OK)
      else if sessionState = CKS_RW_PUBLIC_SESSION \<or> sessionState = CKS_RW_SO_FUNCTIONS then
        (if isPrivateObject then CKR_USER_NOT_LOGGED_IN else CKR_OK)
      else if sessionState = CKS_RO_USER_FUNCTIONS then
        (if isTokenObject then CKR_SESSION_READ_ONLY else CKR_OK)
      else if sessionState = CKS_RW_USER_FUNCTIONS then CKR_OK
      else CKR_GENERAL_ERROR)"

section \<open>Sessions\<close>

definition SESSION_OP_NONE :: int where "SESSION_OP_NONE = 0x0"
definition SESSION_OP_FIND :: int where "SESSION_OP_FIND = 0x1"
definition SESSION_OP_ENCRYPT :: int where "SESSION_OP_ENCRYPT = 0x2"
definition SESSION_OP_DECRYPT :: int where "SESSION_OP_DECRYPT = 0x3"
definition SESSION_OP_DIGEST :: int where "SESSION_OP_DIGEST = 0x4"
definition SESSION_OP_SIGN :: int where "SESSION_OP_SIGN = 0x5"
definition SESSION_OP_VERIFY :: int where "SESSION_OP_VERIFY = 0x6"

record session =
  se_slot :: ulong
  se_isReadWrite :: bool
  se_hSession :: ulong
  se_operation :: int
  se_findOp :: "ulong list option"
  se_digestOp :: addr
  se_macOp :: addr
  se_asymmetricCryptoOp :: addr
  se_symmetricCryptoOp :: addr
  se_param :: "bytes option"
  se_mechanismParam :: addr
  se_reAuthentication :: bool
  se_allowMultiPartOp :: bool
  se_allowSinglePartOp :: bool
  se_publicKey :: addr
  se_privateKey :: addr
  se_symmetricKey :: addr

definition Session_new :: "ulong \<Rightarrow> bool \<Rightarrow> session" where
  "Session_new inSlot inIsReadWrite =
     \<lparr>se_slot = inSlot, se_isReadWrite = inIsReadWrite, se_hSession = CK_INVALID_HANDLE,
      se_operation = SESSION_OP_NONE, se_findOp = None, se_digestOp = 0, se_macOp = 0,
      se_asymmetricCryptoOp = 0, se_symmetricCryptoOp = 0, se_param = None, se_mechanismParam = 0,
      se_reAuthentication = False, se_allowMultiPartOp = False, se_allowSinglePartOp = False,
      se_publicKey = 0, se_privateKey = 0, se_symmetricKey = 0\<rparr>"

text \<open>The state depends on who is logged in on the token, which is passed in.\<close>

definition getState :: "('c, 'r) hsm_token \<Rightarrow> session \<Rightarrow> ulong" where
  "getState tk s =
     (if isSOLoggedIn tk then CKS_RW_SO_FUNCTIONS
      else if isUserLoggedIn tk then
        (if se_isReadWrite s then CKS_RW_USER_FUNCTIONS else CKS_RO_USER_FUNCTIONS)
      else if se_isReadWrite s then CKS_RW_PUBLIC_SESSION else CKS_RO_PUBLIC_SESSION)"

definition CKF_RW_SESSION :: ulong where "CKF_RW_SESSION = 2"
definition CKF_SERIAL_SESSION :: ulong where "CKF_SERIAL_SESSION = 4"

record session_info =
  si_slotID :: ulong
  si_state :: ulong
  si_flags :: ulong

definition getInfo :: "('c, 'r) hsm_token \<Rightarrow> session \<Rightarrow> session_info" where
  "getInfo tk s =
     \<lparr>si_slotID = se_slot s, si_state = getState tk s,
      si_flags = (if se_isReadWrite s then CKF_SERIAL_SESSION OR CKF_RW_SESSION else CKF_SERIAL_SESSION)\<rparr>"

text \<open>\<open>give p\<close>: the pointer is handed back unless it is null.\<close>

definition give :: "addr \<Rightarrow> addr list" where
  "give p = (if p = 0 then [] else [p])"

definition resetOp :: "session \<Rightarrow> addr list \<times> session" where
  "resetOp s0 =
     (let s = s0\<lparr>se_param := None, se_mechanismParam := 0\<rparr>;
          (given, s) =
            (if se_digestOp s \<noteq> 0 then ([se_digestOp s], s\<lparr>se_digestOp := 0\<rparr>)
             else if se_findOp s \<noteq> None then ([], s\<lparr>se_findOp := None\<rparr>)
             else if se_asymmetricCryptoOp s \<noteq> 0 then
               (give (se_publicKey s) @ give (se_privateKey s) @ [se_asymmetricCryptoOp s],
                s\<lparr>se_publicKey := 0, se_privateKey := 0, se_asymmetricCryptoOp := 0\<rparr>)
             else if se_symmetricCryptoOp s \<noteq> 0 then
               (give (se_symmetricKey s) @ [se_symmetricCryptoOp s], s\<lparr>se_symmetricKey := 0, se_symmetricCryptoOp := 0\<rparr>)
             else if se_macOp s \<noteq> 0 then
               (give (se_symmetricKey s) @ [se_macOp s], s\<lparr>se_symmetricKey := 0, se_macOp := 0\<rparr>)
             else ([], s))
      in (give (se_mechanismParam s0) @ given, s\<lparr>se_operation := SESSION_OP_NONE, se_reAuthentication := False\<rparr>))"

definition setFindOp :: "ulong list option \<Rightarrow> session \<Rightarrow> session" where
  "setFindOp inFindOp s = s\<lparr>se_findOp := inFindOp\<rparr>"

definition setDigestOp :: "addr \<Rightarrow> session \<Rightarrow> addr list \<times> session" where
  "setDigestOp inDigestOp s = (give (se_digestOp s), s\<lparr>se_digestOp := inDigestOp\<rparr>)"

definition setPublicKey :: "addr \<Rightarrow> session \<Rightarrow> addr list \<times> session" where
  "setPublicKey inPublicKey s =
     (if se_asymmetricCryptoOp s = 0 then ([], s)
      else (give (se_publicKey s), s\<lparr>se_publicKey := inPublicKey\<rparr>))"

definition setPrivateKey :: "addr \<Rightarrow> session \<Rightarrow> addr list \<times> session" where
  "setPrivateKey inPrivateKey s =
     (if se_asymmetricCryptoOp s = 0 then ([], s)
      else (give (se_privateKey s), s\<lparr>se_privateKey := inPrivateKey\<rparr>))"

text \<open>A key that is held while there is no operator to recycle it stays where it is.\<close>

definition setSymmetricKey :: "addr \<Rightarrow> session \<Rightarrow> addr list \<times> session" where
  "setSymmetricKey inSymmetricKey s =
     (if se_symmetricKey s \<noteq> 0 \<and> se_macOp s = 0 \<and> se_symmetricCryptoOp s = 0 then ([], s)
      else (give (se_symmetricKey s), s\<lparr>se_symmetricKey := inSymmetricKey\<rparr>))"

definition setMacOp :: "addr \<Rightarrow> session \<Rightarrow> addr list \<times> session" where
  "setMacOp inMacOp s =
     (if se_macOp s \<noteq> 0
      then (let (given, s) = setSymmetricKey 0 s in (given @ [se_macOp s], s\<lparr>se_macOp := inMacOp\<rparr>))
      else ([], s\<lparr>se_macOp := inMacOp\<rparr>))"

definition setAsymmetricCryptoOp :: "addr \<Rightarrow> session \<Rightarrow> addr list \<times> session" where
  "setAsymmetricCryptoOp inOp s =
     (if se_asymmetricCryptoOp s \<noteq> 0
      then (let (given1, s) = setPublicKey 0 s; (given2, s) = setPrivateKey 0 s
            in (given1 @ given2 @ [se_asymmetricCryptoOp s], s\<lparr>se_asymmetricCryptoOp := inOp\<rparr>))
      else ([], s\<lparr>se_asymmetricCryptoOp := inOp\<rparr>))"

definition setSymmetricCryptoOp :: "addr \<Rightarrow> session \<Rightarrow> addr list \<times> session" where
  "setSymmetricCryptoOp inOp s =
     (if se_symmetricCryptoOp s \<noteq> 0
      then (let (given, s) = setSymmetricKey 0 s in (given @ [se_symmetricCryptoOp s], s\<lparr>se_symmetricCryptoOp := inOp\<rparr>))
      else ([], s\<lparr>se_symmetricCryptoOp := inOp\<rparr>))"

text \<open>The copy of the parameters, when memory for it was found.\<close>

definition setParameters :: "bool \<Rightarrow> bytes \<Rightarrow> session \<Rightarrow> session" where
  "setParameters allocated inParam s =
     (if inParam = [] then s else s\<lparr>se_param := (if allocated then Some inParam else None)\<rparr>)"

definition setMechanismParam :: "addr \<Rightarrow> session \<Rightarrow> addr list \<times> session" where
  "setMechanismParam copy s =
     (if copy = 0 then ([], s) else (give (se_mechanismParam s), s\<lparr>se_mechanismParam := copy\<rparr>))"

section \<open>The session manager\<close>

type_synonym ('c, 'r) slots = "(ulong, ('c, 'r) hsm_token) omap"

record session_manager =
  sm_sessions :: "addr list"
  sm_heap :: "(addr, session) omap"

definition SessionManager_new :: session_manager where
  "SessionManager_new = \<lparr>sm_sessions = [], sm_heap = []\<rparr>"

definition session_at :: "session_manager \<Rightarrow> addr \<Rightarrow> session" where
  "session_at sm a = (case omap_find (sm_heap sm) a of None \<Rightarrow> Session_new 0 False | Some s \<Rightarrow> s)"

definition session_slot :: "session_manager \<Rightarrow> addr \<Rightarrow> ulong" where
  "session_slot sm a = se_slot (session_at sm a)"

text \<open>The first free place, or the end of the vector.\<close>

fun place_session :: "addr \<Rightarrow> addr list \<Rightarrow> nat \<times> addr list" where
  "place_session a [] = (0, [a])"
| "place_session a (p # ps) =
     (if p \<noteq> 0 then (let (i, ps) = place_session a ps in (Suc i, p # ps)) else (0, a # ps))"

text \<open>
  Opening a session at the address \<open>a\<close> the allocator gives. A slot always has a token, so
  the code's test for a missing one has no counterpart here.
\<close>

definition sm_openSession ::
  "addr \<Rightarrow> (ulong \<times> ('c, 'r) hsm_token) option \<Rightarrow> ulong \<Rightarrow> bool \<Rightarrow> session_manager \<Rightarrow> (ck_rv + ulong) \<times> session_manager" where
  "sm_openSession a slot flags phSession sm =
     (if \<not> phSession then (Inl CKR_ARGUMENTS_BAD, sm)
      else
        (case slot of
           None \<Rightarrow> (Inl CKR_SLOT_ID_INVALID, sm)
         | Some (slotID, token) \<Rightarrow>
             if flags AND CKF_SERIAL_SESSION = 0 then (Inl CKR_SESSION_PARALLEL_NOT_SUPPORTED, sm)
             else if \<not> isInitialized token then (Inl CKR_TOKEN_NOT_RECOGNIZED, sm)
             else if flags AND CKF_RW_SESSION = 0 \<and> isSOLoggedIn token then (Inl CKR_SESSION_READ_WRITE_SO_EXISTS, sm)
             else
               (let rwSession = (flags AND CKF_RW_SESSION = CKF_RW_SESSION);
                    (i, ps) = place_session a (sm_sessions sm);
                    handle = of_nat (i + 1)
                in (Inr handle, \<lparr>sm_sessions = ps,
                      sm_heap = omap_insert a ((Session_new slotID rwSession)\<lparr>se_hSession := handle\<rparr>) (sm_heap sm)\<rparr>))))"

definition logout_slot :: "ulong \<Rightarrow> ('c, 'r) slots \<Rightarrow> ('c, 'r) slots" where
  "logout_slot slotID slots =
     (case omap_find slots slotID of None \<Rightarrow> slots | Some tk \<Rightarrow> omap_insert slotID (tk_logout tk) slots)"

definition others_open :: "session_manager \<Rightarrow> nat \<Rightarrow> bool" where
  "others_open sm sessionID \<longleftrightarrow>
     (\<exists>i < length (sm_sessions sm). sm_sessions sm ! i \<noteq> 0 \<and> i \<noteq> sessionID
        \<and> session_slot sm (sm_sessions sm ! i) = session_slot sm (sm_sessions sm ! sessionID))"

definition sm_closeSession ::
  "ulong \<Rightarrow> session_manager \<Rightarrow> ('c, 'r) slots \<Rightarrow> ck_rv \<times> session_manager \<times> ('c, 'r) slots" where
  "sm_closeSession hSession sm slots =
     (if hSession = CK_INVALID_HANDLE then (CKR_SESSION_HANDLE_INVALID, sm, slots)
      else if unat hSession > length (sm_sessions sm) then (CKR_SESSION_HANDLE_INVALID, sm, slots)
      else
        (let sessionID = unat hSession - 1;
             p = sm_sessions sm ! sessionID
         in if p = 0 then (CKR_SESSION_HANDLE_INVALID, sm, slots)
            else
              (CKR_OK, sm\<lparr>sm_sessions := (sm_sessions sm)[sessionID := 0], sm_heap := omap_erase p (sm_heap sm)\<rparr>,
               if \<not> others_open sm sessionID then logout_slot (session_slot sm p) slots else slots)))"

text \<open>The loop of \<open>closeAllSessions\<close>.\<close>

fun close_all :: "ulong \<Rightarrow> addr list \<Rightarrow> (addr, session) omap \<Rightarrow> addr list \<times> (addr, session) omap" where
  "close_all slotID [] h = ([], h)"
| "close_all slotID (p # ps) h =
     (let (q, h') =
            (if p = 0 then (p, h)
             else
               (case omap_find h p of
                  None \<Rightarrow> (p, h)
                | Some s \<Rightarrow> if se_slot s = slotID then (0, omap_erase p h) else (p, h)));
          (qs, h'') = close_all slotID ps h'
      in (q # qs, h''))"

definition sm_closeAllSessions ::
  "ulong option \<Rightarrow> session_manager \<Rightarrow> ('c, 'r) slots \<Rightarrow> ck_rv \<times> session_manager \<times> ('c, 'r) slots" where
  "sm_closeAllSessions slot sm slots =
     (case slot of
        None \<Rightarrow> (CKR_SLOT_ID_INVALID, sm, slots)
      | Some slotID \<Rightarrow>
          (let (ps, h) = close_all slotID (sm_sessions sm) (sm_heap sm)
           in (CKR_OK, \<lparr>sm_sessions = ps, sm_heap = h\<rparr>, logout_slot slotID slots)))"

text \<open>The address of the session with this handle, 0 when there is none.\<close>

definition sm_getSession :: "ulong \<Rightarrow> session_manager \<Rightarrow> addr" where
  "sm_getSession hSession sm =
     (if hSession = CK_INVALID_HANDLE then 0
      else if unat hSession > length (sm_sessions sm) then 0
      else sm_sessions sm ! (unat hSession - 1))"

definition sm_getSessionInfo ::
  "ulong \<Rightarrow> ('c, 'r) slots \<Rightarrow> session_manager \<Rightarrow> ck_rv + session_info" where
  "sm_getSessionInfo hSession slots sm =
     (case (omap_find (sm_heap sm) (sm_getSession hSession sm)) of
        None \<Rightarrow> Inl CKR_SESSION_HANDLE_INVALID
      | Some s \<Rightarrow>
          (case omap_find slots (se_slot s) of None \<Rightarrow> Inl CKR_SESSION_HANDLE_INVALID | Some tk \<Rightarrow> Inr (getInfo tk s)))"

definition haveSession :: "ulong \<Rightarrow> session_manager \<Rightarrow> bool" where
  "haveSession slotID sm \<longleftrightarrow> list_ex (\<lambda>p. p \<noteq> 0 \<and> session_slot sm p = slotID) (sm_sessions sm)"

definition haveROSession :: "ulong \<Rightarrow> session_manager \<Rightarrow> bool" where
  "haveROSession slotID sm \<longleftrightarrow>
     list_ex (\<lambda>p. p \<noteq> 0 \<and> session_slot sm p = slotID \<and> \<not> se_isReadWrite (session_at sm p)) (sm_sessions sm)"

text \<open>The destructor: every session left ends its operation and goes.\<close>

definition SessionManager_delete :: "session_manager \<Rightarrow> addr list" where
  "SessionManager_delete sm =
     concat (map (\<lambda>p. if p = 0 then [] else fst (resetOp (session_at sm p))) (sm_sessions sm))"

section \<open>The vector and the heap\<close>

text \<open>Different places hold different sessions, and the heap holds exactly those.\<close>

definition sm_inv :: "session_manager \<Rightarrow> bool" where
  "sm_inv sm \<longleftrightarrow> distinct (filter (\<lambda>p. p \<noteq> 0) (sm_sessions sm))
     \<and> dom (omap_find (sm_heap sm)) = set (sm_sessions sm) - {0}
     \<and> length (sm_sessions sm) < 2 ^ 64
     \<and> (\<forall>i < length (sm_sessions sm). sm_sessions sm ! i \<noteq> 0 \<longrightarrow> unat (se_hSession (session_at sm (sm_sessions sm ! i))) = Suc i)"

lemma sm_invD:
  assumes "sm_inv sm"
  shows "distinct (filter (\<lambda>p. p \<noteq> 0) (sm_sessions sm))" "dom (omap_find (sm_heap sm)) = set (sm_sessions sm) - {0}"
    "length (sm_sessions sm) < 2 ^ 64"
    "i < length (sm_sessions sm) \<Longrightarrow> sm_sessions sm ! i \<noteq> 0 \<Longrightarrow> unat (se_hSession (session_at sm (sm_sessions sm ! i))) = Suc i"
  using assms unfolding sm_inv_def by auto

lemma sm_inv_new: "sm_inv SessionManager_new"
  by (simp add: sm_inv_def SessionManager_new_def)

text \<open>A live session is in one place, the one its handle names.\<close>

lemma live_place:
  assumes "sm_inv sm" "omap_find (sm_heap sm) p = Some s"
  obtains i where "i < length (sm_sessions sm)" "sm_sessions sm ! i = p" "p \<noteq> 0" "unat (se_hSession s) = Suc i"
proof -
  have "p \<in> set (sm_sessions sm) - {0}" using assms(2) sm_invD(2) [OF assms(1)] by blast
  then obtain i where i: "i < length (sm_sessions sm)" "sm_sessions sm ! i = p" "p \<noteq> 0" by (auto simp: in_set_conv_nth)
  with sm_invD(4) [OF assms(1), of i] assms(2) show thesis by (intro that) (auto simp: session_at_def)
qed

lemma distinct_places:
  assumes "distinct (filter (\<lambda>p. p \<noteq> (0 :: nat)) xs)" "i < length xs" "j < length xs" "xs ! i = xs ! j" "xs ! i \<noteq> 0"
  shows "i = j"
  using assms
proof (induction xs arbitrary: i j)
  case (Cons x xs)
  show ?case
  proof (cases i; cases j)
    fix k assume "i = 0" "j = Suc k"
    with Cons.prems show "i = j" by (auto simp: nth_mem)
  next
    fix k assume "i = Suc k" "j = 0"
    with Cons.prems show "i = j" by (auto simp: nth_mem)
  next
    fix k l assume "i = Suc k" "j = Suc l"
    with Cons.prems Cons.IH [of k l] show "i = j" by (auto split: if_splits)
  qed simp
qed simp

lemma place_session_facts:
  assumes "place_session a ps = (i, qs)" "a \<noteq> 0"
  shows "i < length qs \<and> qs ! i = a \<and> length qs \<le> Suc (length ps) \<and> length ps \<le> length qs \<and> set qs - {0} = insert a (set ps - {0})
    \<and> (\<forall>j < length qs. j \<noteq> i \<longrightarrow> j < length ps \<and> qs ! j = ps ! j)
    \<and> (i < length ps \<longrightarrow> ps ! i = 0)
    \<and> (a \<notin> set ps \<longrightarrow> distinct (filter (\<lambda>p. p \<noteq> 0) ps) \<longrightarrow> distinct (filter (\<lambda>p. p \<noteq> 0) qs))"
  using assms
proof (induction ps arbitrary: i qs)
  case (Cons p ps)
  show ?case
  proof (cases "p = 0")
    case True
    with Cons.prems show ?thesis by (auto simp: nth_Cons split: nat.splits)
  next
    case False
    then obtain k rs where r: "place_session a ps = (k, rs)" "i = Suc k" "qs = p # rs"
      using Cons.prems(1) by (auto split: prod.splits)
    note IH = Cons.IH [OF r(1) Cons.prems(2)]
    have "set qs - {0} = insert a (set (p # ps) - {0})" using IH r(3) False by auto
    moreover have "\<forall>j < length qs. j \<noteq> i \<longrightarrow> j < length (p # ps) \<and> qs ! j = (p # ps) ! j"
      using IH r by (auto simp: nth_Cons split: nat.splits)
    moreover have "distinct (filter (\<lambda>p. p \<noteq> 0) qs)" if "a \<notin> set (p # ps)" "distinct (filter (\<lambda>p. p \<noteq> 0) (p # ps))"
    proof -
      have eq: "set rs - {0} = insert a (set ps - {0})" using IH by blast
      have "p \<notin> set ps" "a \<noteq> p" using that False by simp_all
      then have "p \<notin> set rs - {0}" unfolding eq by simp
      then have "p \<notin> set rs" using False by simp
      moreover have "distinct (filter (\<lambda>p. p \<noteq> 0) rs)" using IH that False by simp
      ultimately show ?thesis using r(3) by simp
    qed
    ultimately show ?thesis using IH r by simp
  qed
qed auto

lemma session_at_upd [simp]:
  "session_at (sm\<lparr>sm_sessions := ps\<rparr>) = session_at sm"
  by (simp add: session_at_def fun_eq_iff)

lemma session_at_insert:
  "session_at \<lparr>sm_sessions = ps, sm_heap = omap_insert a s h\<rparr> p = (if p = a then s else session_at \<lparr>sm_sessions = qs, sm_heap = h\<rparr> p)"
  by (simp add: session_at_def)

text \<open>What a successful call to \<open>openSession\<close> does.\<close>

lemma open_session_cases:
  assumes "sm_openSession a slot flags ph sm = (Inr h, sm')"
  obtains slotID token i where "slot = Some (slotID, token)" "isInitialized token"
    "flags AND CKF_RW_SESSION \<noteq> 0 \<or> \<not> isSOLoggedIn token"
    "place_session a (sm_sessions sm) = (i, sm_sessions sm')" "h = of_nat (i + 1)"
    "sm_heap sm' = omap_insert a ((Session_new slotID (flags AND CKF_RW_SESSION = CKF_RW_SESSION))\<lparr>se_hSession := h\<rparr>) (sm_heap sm)"
  using assms by (auto simp: sm_openSession_def Let_def split: if_splits option.splits prod.splits)

lemma open_session_fails: "sm_openSession a slot flags ph sm = (Inl rv, sm') \<Longrightarrow> sm' = sm \<and> rv \<noteq> CKR_OK"
  by (auto simp: sm_openSession_def Let_def split: if_splits option.splits prod.splits)

lemma sm_inv_open:
  assumes "sm_inv sm" "sm_openSession a slot flags ph sm = (Inr h, sm')" "a \<noteq> 0" "omap_find (sm_heap sm) a = None"
    "Suc (length (sm_sessions sm)) < 2 ^ 64"
  shows "sm_inv sm'" "sm_getSession h sm' = a"
proof -
  from assms(2) obtain slotID token i where o: "slot = Some (slotID, token)"
    "place_session a (sm_sessions sm) = (i, sm_sessions sm')" "h = of_nat (i + 1)"
    "sm_heap sm' = omap_insert a ((Session_new slotID (flags AND CKF_RW_SESSION = CKF_RW_SESSION))\<lparr>se_hSession := h\<rparr>) (sm_heap sm)"
    by (rule open_session_cases)
  note P = place_session_facts [OF o(2) assms(3)]
  have notin: "a \<notin> set (sm_sessions sm)" using assms(3, 4) sm_invD(2) [OF assms(1)] by auto
  have "i + 1 < 2 ^ 64" using P assms(5) by linarith
  then have h: "unat h = Suc i" using o(3) by (simp add: unat_of_nat del: of_nat_add of_nat_Suc)
  have at: "session_at sm' p = (if p = a then (Session_new slotID (flags AND CKF_RW_SESSION = CKF_RW_SESSION))\<lparr>se_hSession := h\<rparr> else session_at sm p)" for p
    by (simp add: session_at_def o(4))
  have "unat (se_hSession (session_at sm' (sm_sessions sm' ! j))) = Suc j" if j: "j < length (sm_sessions sm')" "sm_sessions sm' ! j \<noteq> 0" for j
  proof (cases "j = i")
    case True
    then show ?thesis using P h at by simp
  next
    case False
    then have "j < length (sm_sessions sm)" "sm_sessions sm' ! j = sm_sessions sm ! j" using P j(1) by auto
    moreover from this have "sm_sessions sm ! j \<noteq> a" using notin by (auto simp: in_set_conv_nth)
    ultimately show ?thesis using at sm_invD(4) [OF assms(1), of j] j(2) by simp
  qed
  moreover have "distinct (filter (\<lambda>p. p \<noteq> 0) (sm_sessions sm'))" using P notin sm_invD(1) [OF assms(1)] by blast
  moreover have "dom (omap_find (sm_heap sm')) = set (sm_sessions sm') - {0}"
    using P sm_invD(2) [OF assms(1)] o(4) by (simp add: insert_commute)
  moreover have "length (sm_sessions sm') < 2 ^ 64" using P assms(5) by linarith
  ultimately show "sm_inv sm'" unfolding sm_inv_def by blast
  have "h \<noteq> 0" using h by auto
  then show "sm_getSession h sm' = a" using P h by (auto simp: sm_getSession_def)
qed

text \<open>Sessions of a slot, as the heap shows them.\<close>

definition open_on :: "session_manager \<Rightarrow> ulong \<Rightarrow> addr set" where
  "open_on sm slotID = {p. \<exists>s. omap_find (sm_heap sm) p = Some s \<and> se_slot s = slotID}"

lemma live_in_vector:
  assumes "sm_inv sm"
  shows "p \<noteq> 0 \<and> p \<in> set (sm_sessions sm) \<longleftrightarrow> (\<exists>s. omap_find (sm_heap sm) p = Some s)"
proof -
  have "p \<in> dom (omap_find (sm_heap sm)) \<longleftrightarrow> p \<in> set (sm_sessions sm) - {0}" using sm_invD(2) [OF assms] by simp
  then show ?thesis by auto
qed

lemma vector_ex:
  assumes "sm_inv sm"
  shows "list_ex (\<lambda>p. p \<noteq> 0 \<and> P (session_at sm p)) (sm_sessions sm) \<longleftrightarrow> (\<exists>p s. omap_find (sm_heap sm) p = Some s \<and> P s)"
proof -
  have "list_ex (\<lambda>p. p \<noteq> 0 \<and> P (session_at sm p)) (sm_sessions sm) \<longleftrightarrow>
    (\<exists>p. (p \<noteq> 0 \<and> p \<in> set (sm_sessions sm)) \<and> P (session_at sm p))"
    unfolding list_ex_iff by blast
  also have "\<dots> \<longleftrightarrow> (\<exists>p. (\<exists>s. omap_find (sm_heap sm) p = Some s) \<and> P (session_at sm p))"
    by (simp only: live_in_vector [OF assms])
  also have "\<dots> \<longleftrightarrow> (\<exists>p s. omap_find (sm_heap sm) p = Some s \<and> P s)"
    by (metis (mono_tags, lifting) option.simps(5) session_at_def)
  finally show ?thesis .
qed

lemma haveSession_iff: "sm_inv sm \<Longrightarrow> haveSession slotID sm \<longleftrightarrow> open_on sm slotID \<noteq> {}"
  using vector_ex [of sm "\<lambda>s. se_slot s = slotID"] by (auto simp: haveSession_def open_on_def session_slot_def)

lemma haveROSession_iff:
  "sm_inv sm \<Longrightarrow> haveROSession slotID sm \<longleftrightarrow>
     (\<exists>p s. omap_find (sm_heap sm) p = Some s \<and> se_slot s = slotID \<and> \<not> se_isReadWrite s)"
  using vector_ex [of sm "\<lambda>s. se_slot s = slotID \<and> \<not> se_isReadWrite s"] by (auto simp: haveROSession_def session_slot_def)

lemma others_open_iff:
  assumes "sm_inv sm" "i < length (sm_sessions sm)" "sm_sessions sm ! i = p" "omap_find (sm_heap sm) p = Some s"
  shows "others_open sm i \<longleftrightarrow> open_on sm (se_slot s) \<noteq> {p}"
proof -
  have p0: "p \<noteq> 0" using live_in_vector [OF assms(1)] assms(4) by blast
  have slot: "session_slot sm p = se_slot s" using assms(4) by (simp add: session_slot_def session_at_def)
  have "others_open sm i \<longleftrightarrow> (\<exists>q. q \<noteq> p \<and> q \<in> open_on sm (se_slot s))"
  proof
    assume "others_open sm i"
    then obtain j where j: "j < length (sm_sessions sm)" "sm_sessions sm ! j \<noteq> 0" "j \<noteq> i"
      "session_slot sm (sm_sessions sm ! j) = se_slot s"
      using assms(3) slot by (auto simp: others_open_def)
    have "sm_sessions sm ! j \<noteq> p"
      using distinct_places [OF sm_invD(1) [OF assms(1)] j(1) assms(2)] assms(3) j(2, 3) by auto
    moreover obtain s2 where "omap_find (sm_heap sm) (sm_sessions sm ! j) = Some s2"
      using live_in_vector [OF assms(1), of "sm_sessions sm ! j"] j(1, 2) by auto
    ultimately show "\<exists>q. q \<noteq> p \<and> q \<in> open_on sm (se_slot s)"
      using j(4) by (intro exI [of _ "sm_sessions sm ! j"]) (simp add: open_on_def session_slot_def session_at_def)
  next
    assume "\<exists>q. q \<noteq> p \<and> q \<in> open_on sm (se_slot s)"
    then obtain q s2 where q: "q \<noteq> p" "omap_find (sm_heap sm) q = Some s2" "se_slot s2 = se_slot s"
      by (auto simp: open_on_def)
    from live_place [OF assms(1) q(2)] obtain j where
      j: "j < length (sm_sessions sm)" "sm_sessions sm ! j = q" "q \<noteq> 0" by metis
    with q assms(3) slot show "others_open sm i"
      unfolding others_open_def by (intro exI [of _ j]) (auto simp: session_slot_def session_at_def)
  qed
  moreover have "p \<in> open_on sm (se_slot s)" using assms(4) by (simp add: open_on_def)
  ultimately show ?thesis by blast
qed

lemma close_session_live:
  assumes "sm_inv sm" "omap_find (sm_heap sm) p = Some s"
  obtains sm' where "sm_closeSession (se_hSession s) sm slots =
      (CKR_OK, sm', if open_on sm (se_slot s) = {p} then logout_slot (se_slot s) slots else slots)"
    "sm_inv sm'" "omap_find (sm_heap sm') = (omap_find (sm_heap sm))(p := None)"
    "length (sm_sessions sm') = length (sm_sessions sm)"
proof -
  from live_place [OF assms] obtain i where
    i: "i < length (sm_sessions sm)" "sm_sessions sm ! i = p" "p \<noteq> 0" "unat (se_hSession s) = Suc i" by metis
  let ?sm = "sm\<lparr>sm_sessions := (sm_sessions sm)[i := 0], sm_heap := omap_erase p (sm_heap sm)\<rparr>"
  have slot: "session_slot sm p = se_slot s" using assms(2) by (simp add: session_slot_def session_at_def)
  have h: "se_hSession s \<noteq> 0" using i(4) by auto
  have c: "sm_closeSession (se_hSession s) sm slots =
      (CKR_OK, ?sm, if open_on sm (se_slot s) = {p} then logout_slot (se_slot s) slots else slots)"
    using i h slot others_open_iff [OF assms(1) i(1, 2) assms(2)] by (simp add: sm_closeSession_def)
  have only: "sm_sessions sm ! j \<noteq> p" if "j < length (sm_sessions sm)" "j \<noteq> i" for j
    using distinct_places [OF sm_invD(1) [OF assms(1)] that(1) i(1)] i(2, 3) that(2) by auto
  have upd: "set ((sm_sessions sm)[i := 0]) - {0} = set (sm_sessions sm) - {0} - {p}"
    using only i by (auto simp: in_set_conv_nth nth_list_update; metis)
  have "distinct (filter (\<lambda>p. p \<noteq> 0) ((sm_sessions sm)[i := 0]))"
  proof -
    obtain xs ys where xs: "sm_sessions sm = xs @ p # ys" "length xs = i"
      using i(1, 2) id_take_nth_drop [OF i(1)] by (metis length_take less_imp_le min.absorb2)
    then have "(sm_sessions sm)[i := 0] = xs @ 0 # ys" by (metis list_update_length)
    with xs(1) sm_invD(1) [OF assms(1)] i(3) show ?thesis by simp
  qed
  moreover have "dom (omap_find (omap_erase p (sm_heap sm))) = set ((sm_sessions sm)[i := 0]) - {0}"
    using upd sm_invD(2) [OF assms(1)] by simp
  moreover have "unat (se_hSession (session_at ?sm ((sm_sessions sm)[i := 0] ! j))) = Suc j"
    if "j < length (sm_sessions sm)" "(sm_sessions sm)[i := 0] ! j \<noteq> 0" for j
    using that only [of j] sm_invD(4) [OF assms(1), of j] i(1)
    by (cases "j = i") (auto simp: session_at_def)
  ultimately have "sm_inv ?sm" using sm_invD(3) [OF assms(1)] unfolding sm_inv_def by simp
  with c show thesis by (intro that [of ?sm]) simp_all
qed

lemma close_all_facts:
  assumes "close_all slotID ps h = (qs, h')"
    and "\<And>p. p \<in> set ps \<Longrightarrow> p \<noteq> 0 \<Longrightarrow> omap_find h p \<noteq> None" "distinct (filter (\<lambda>p. p \<noteq> 0) ps)"
  shows "length qs = length ps
    \<and> (\<forall>i < length ps. qs ! i = (if ps ! i \<noteq> 0 \<and> se_slot (the (omap_find h (ps ! i))) = slotID then 0 else ps ! i))
    \<and> (\<forall>p. omap_find h' p = (if p \<noteq> 0 \<and> p \<in> set ps \<and> se_slot (the (omap_find h p)) = slotID then None else omap_find h p))"
  using assms
proof (induction ps arbitrary: h qs h')
  case (Cons p ps)
  let ?hit = "p \<noteq> 0 \<and> se_slot (the (omap_find h p)) = slotID"
  let ?h = "if ?hit then omap_erase p h else h"
  obtain rs h2 where r: "close_all slotID ps ?h = (rs, h2)" by (cases "close_all slotID ps ?h")
  have "p \<noteq> 0 \<Longrightarrow> \<exists>s. omap_find h p = Some s" using Cons.prems(2) [of p] by auto
  then have q: "qs = (if ?hit then 0 else p) # rs" "h' = h2"
    using Cons.prems(1) r by (cases "p = 0"; fastforce split: if_splits)+
  have ne: "p \<noteq> 0 \<Longrightarrow> p \<notin> set ps" using Cons.prems(3) by (auto split: if_splits)
  have find: "x \<in> set ps \<Longrightarrow> x \<noteq> 0 \<Longrightarrow> omap_find ?h x = omap_find h x" for x using ne by auto
  have IH: "length rs = length ps
    \<and> (\<forall>i < length ps. rs ! i = (if ps ! i \<noteq> 0 \<and> se_slot (the (omap_find ?h (ps ! i))) = slotID then 0 else ps ! i))
    \<and> (\<forall>x. omap_find h2 x = (if x \<noteq> 0 \<and> x \<in> set ps \<and> se_slot (the (omap_find ?h x)) = slotID then None else omap_find ?h x))"
    using Cons.prems(2, 3) find by (intro Cons.IH [OF r]) (auto split: if_splits)
  have "rs ! i = (if ps ! i \<noteq> 0 \<and> se_slot (the (omap_find h (ps ! i))) = slotID then 0 else ps ! i)" if "i < length ps" for i
    using IH that find [of "ps ! i"] by (metis nth_mem)
  moreover have "omap_find h2 x = (if x \<noteq> 0 \<and> x \<in> set (p # ps) \<and> se_slot (the (omap_find h x)) = slotID then None else omap_find h x)" for x
    using IH find [of x] ne by (cases "x = p") (auto split: if_splits)
  ultimately show ?case using IH q by (auto simp: nth_Cons split: nat.splits)
qed auto

lemma close_all_sessions:
  assumes "sm_inv sm"
  obtains sm' where "sm_closeAllSessions (Some slotID) sm slots = (CKR_OK, sm', logout_slot slotID slots)" "sm_inv sm'"
    "omap_find (sm_heap sm') = (\<lambda>p. if p \<in> open_on sm slotID then None else omap_find (sm_heap sm) p)"
    "length (sm_sessions sm') = length (sm_sessions sm)"
proof -
  obtain qs h where c: "close_all slotID (sm_sessions sm) (sm_heap sm) = (qs, h)" by (cases "close_all slotID (sm_sessions sm) (sm_heap sm)")
  note live = live_in_vector [OF assms]
  have F: "length qs = length (sm_sessions sm)"
    "\<And>i. i < length qs \<Longrightarrow> qs ! i = (if sm_sessions sm ! i \<in> open_on sm slotID then 0 else sm_sessions sm ! i)"
    "omap_find h = (\<lambda>p. if p \<in> open_on sm slotID then None else omap_find (sm_heap sm) p)"
  proof -
    have "p \<in> set (sm_sessions sm) \<Longrightarrow> p \<noteq> 0 \<Longrightarrow> omap_find (sm_heap sm) p \<noteq> None" for p using live by auto
    note K = close_all_facts [OF c this sm_invD(1) [OF assms]]
    have on: "p \<in> open_on sm slotID \<longleftrightarrow> p \<noteq> 0 \<and> p \<in> set (sm_sessions sm) \<and> se_slot (the (omap_find (sm_heap sm) p)) = slotID" for p
      using live [of p] by (auto simp: open_on_def)
    show "length qs = length (sm_sessions sm)" using K by blast
    show "qs ! i = (if sm_sessions sm ! i \<in> open_on sm slotID then 0 else sm_sessions sm ! i)" if "i < length qs" for i
      using K that on [of "sm_sessions sm ! i"] by auto
    show "omap_find h = (\<lambda>p. if p \<in> open_on sm slotID then None else omap_find (sm_heap sm) p)"
      using K on by (auto simp: fun_eq_iff)
  qed
  let ?sm = "\<lparr>sm_sessions = qs, sm_heap = h\<rparr>"
  have same: "qs ! i = sm_sessions sm ! i \<and> qs ! i \<notin> open_on sm slotID" if "i < length qs" "qs ! i \<noteq> 0" for i
    using F(2) [OF that(1)] that(2) by (auto split: if_splits)
  have "distinct (filter (\<lambda>p. p \<noteq> 0) qs)"
  proof -
    have "qs = map (\<lambda>p. if p \<in> open_on sm slotID then 0 else p) (sm_sessions sm)"
      using F(1, 2) by (intro nth_equalityI) auto
    moreover have "distinct (filter (\<lambda>p. p \<noteq> 0) (map (\<lambda>p. if p \<in> A then 0 else p) ps))"
      if "distinct (filter (\<lambda>p. p \<noteq> 0) ps)" for A :: "addr set" and ps
      using that by (induction ps) (auto split: if_splits)
    ultimately show ?thesis using sm_invD(1) [OF assms] by simp
  qed
  moreover have "dom (omap_find h) = set qs - {0}"
  proof -
    have "p \<in> dom (omap_find h) \<longleftrightarrow> p \<noteq> 0 \<and> p \<in> set (sm_sessions sm) \<and> p \<notin> open_on sm slotID" for p
      using F(3) live [of p] by (auto split: if_splits)
    moreover have "p \<noteq> 0 \<and> p \<in> set (sm_sessions sm) \<and> p \<notin> open_on sm slotID \<longleftrightarrow> p \<in> set qs - {0}" for p
      using F(1, 2) same by (auto simp: in_set_conv_nth; metis)
    ultimately show ?thesis by blast
  qed
  moreover have "unat (se_hSession (session_at ?sm (qs ! i))) = Suc i" if "i < length qs" "qs ! i \<noteq> 0" for i
    using same [OF that] sm_invD(4) [OF assms, of i] that F(1, 3) by (auto simp: session_at_def)
  ultimately have "sm_inv ?sm" using sm_invD(3) [OF assms] F(1) unfolding sm_inv_def by simp
  then show thesis using c F by (intro that [of ?sm]) (simp_all add: sm_closeAllSessions_def)
qed

section \<open>What a session owns\<close>

definition pointers :: "session \<Rightarrow> addr list" where
  "pointers s = concat (map give [se_mechanismParam s, se_digestOp s, se_publicKey s, se_privateKey s, se_asymmetricCryptoOp s,
     se_symmetricKey s, se_symmetricCryptoOp s, se_macOp s])"

text \<open>
  At most one operator, keys only beside the operator that recycles them, no pointer in
  two places.
\<close>

definition session_ok :: "session \<Rightarrow> bool" where
  "session_ok s \<longleftrightarrow>
     length (filter (\<lambda>b. b) [se_digestOp s \<noteq> 0, se_findOp s \<noteq> None, se_asymmetricCryptoOp s \<noteq> 0, se_symmetricCryptoOp s \<noteq> 0, se_macOp s \<noteq> 0]) \<le> 1
     \<and> (se_asymmetricCryptoOp s = 0 \<longrightarrow> se_publicKey s = 0 \<and> se_privateKey s = 0)
     \<and> (se_symmetricCryptoOp s = 0 \<and> se_macOp s = 0 \<longrightarrow> se_symmetricKey s = 0)
     \<and> distinct (pointers s)"

lemma set_give [simp]: "set (give p) = {p} - {0}" "give 0 = []" "p \<noteq> 0 \<Longrightarrow> give p = [p]"
  by (simp_all add: give_def)

lemma idle_ok: "pointers s = [] \<Longrightarrow> se_findOp s = None \<Longrightarrow> session_ok s"
  by (simp add: pointers_def session_ok_def give_def split: if_splits)

lemma session_ok_cases:
  assumes "session_ok s"
  obtains (digest) "se_digestOp s \<noteq> 0" "se_findOp s = None" "se_asymmetricCryptoOp s = 0" "se_symmetricCryptoOp s = 0" "se_macOp s = 0"
  | (find) "se_digestOp s = 0" "se_findOp s \<noteq> None" "se_asymmetricCryptoOp s = 0" "se_symmetricCryptoOp s = 0" "se_macOp s = 0"
  | (asym) "se_digestOp s = 0" "se_findOp s = None" "se_asymmetricCryptoOp s \<noteq> 0" "se_symmetricCryptoOp s = 0" "se_macOp s = 0"
  | (sym) "se_digestOp s = 0" "se_findOp s = None" "se_asymmetricCryptoOp s = 0" "se_symmetricCryptoOp s \<noteq> 0" "se_macOp s = 0"
  | (mac) "se_digestOp s = 0" "se_findOp s = None" "se_asymmetricCryptoOp s = 0" "se_symmetricCryptoOp s = 0" "se_macOp s \<noteq> 0"
  | (none) "se_digestOp s = 0" "se_findOp s = None" "se_asymmetricCryptoOp s = 0" "se_symmetricCryptoOp s = 0" "se_macOp s = 0"
proof -
  have one: "length (filter (\<lambda>b. b) [se_digestOp s \<noteq> 0, se_findOp s \<noteq> None, se_asymmetricCryptoOp s \<noteq> 0, se_symmetricCryptoOp s \<noteq> 0, se_macOp s \<noteq> 0]) \<le> 1"
    using assms unfolding session_ok_def by blast
  show thesis
    by (cases "se_digestOp s = 0"; cases "se_findOp s = None"; cases "se_asymmetricCryptoOp s = 0"; cases "se_symmetricCryptoOp s = 0"; cases "se_macOp s = 0")
      (use one that in \<open>simp_all only: filter.simps simp_thms if_True if_False list.size\<close>; simp)+
qed

section \<open>Properties\<close>

text \<open>The table of the documentation, by session state, for reading and for writing.\<close>

definition doc_states :: "ulong list" where
  "doc_states = [CKS_RO_PUBLIC_SESSION, CKS_RW_PUBLIC_SESSION, CKS_RO_USER_FUNCTIONS, CKS_RW_USER_FUNCTIONS, CKS_RW_SO_FUNCTIONS]"

definition doc_read :: "bool \<Rightarrow> bool \<Rightarrow> ck_rv list" where
  "doc_read isToken isPrivate =
     (if isPrivate then [CKR_USER_NOT_LOGGED_IN, CKR_USER_NOT_LOGGED_IN, CKR_OK, CKR_OK, CKR_USER_NOT_LOGGED_IN]
      else [CKR_OK, CKR_OK, CKR_OK, CKR_OK, CKR_OK])"

definition doc_write :: "bool \<Rightarrow> bool \<Rightarrow> ck_rv list" where
  "doc_write isToken isPrivate =
     (case (isToken, isPrivate) of
        (False, False) \<Rightarrow> [CKR_OK, CKR_OK, CKR_OK, CKR_OK, CKR_OK]
      | (False, True) \<Rightarrow> [CKR_USER_NOT_LOGGED_IN, CKR_USER_NOT_LOGGED_IN, CKR_OK, CKR_OK, CKR_USER_NOT_LOGGED_IN]
      | (True, False) \<Rightarrow> [CKR_SESSION_READ_ONLY, CKR_OK, CKR_SESSION_READ_ONLY, CKR_OK, CKR_OK]
      | (True, True) \<Rightarrow> [CKR_SESSION_READ_ONLY, CKR_USER_NOT_LOGGED_IN, CKR_SESSION_READ_ONLY, CKR_OK, CKR_USER_NOT_LOGGED_IN])"

text \<open>
  the access rules are the documented table. In every state a session can be in, for
  public and private, session and token objects, \<^verbatim>\<open>haveRead\<close> and \<^verbatim>\<open>haveWrite\<close> answer what the
  table of \<^verbatim>\<open>access.cpp\<close> says; write access implies read access; and the state of a session
  is always one of the table's columns, so the internal error is never answered.
\<close>

theorem access_rules_documented:
  "map (\<lambda>st. haveRead st isToken isPrivate) doc_states = doc_read isToken isPrivate
   \<and> map (\<lambda>st. haveWrite st isToken isPrivate) doc_states = doc_write isToken isPrivate
   \<and> getState tk s \<in> set doc_states
   \<and> (haveWrite (getState tk s) isToken isPrivate \<noteq> CKR_OK \<or> haveRead (getState tk s) isToken isPrivate = CKR_OK)
   \<and> (isPrivate \<and> \<not> isUserLoggedIn tk \<and> \<not> isSOLoggedIn tk \<longrightarrow> haveRead (getState tk s) isToken isPrivate = CKR_USER_NOT_LOGGED_IN)"
  by (cases isToken; cases isPrivate)
    (auto simp: haveRead_def haveWrite_def doc_read_def doc_write_def doc_states_def getState_def CKS_defs)

theorem access_rules_documented_witness:
  "haveWrite (getState (Token_null ()) (Session_new 0 False)) True True \<noteq> CKR_OK
   \<and> haveRead (getState (Token_null ()) (Session_new 0 False)) True True = CKR_USER_NOT_LOGGED_IN"
  using access_rules_documented [where isToken = True and isPrivate = True and tk = "Token_null ()" and s = "Session_new 0 False"]
  by (simp add: Token_null_def isUserLoggedIn_def isSOLoggedIn_def) (simp add: haveWrite_def haveRead_def getState_def isSOLoggedIn_def isUserLoggedIn_def Session_new_def)



end
