(* ===== verification/Slot_Mgr.thy ===== *)
theory Slot_Mgr
  imports Session_Mgr Token_Progress "HOL-Library.List_Lexorder" "HOL-Library.Product_Lexorder"
begin

unbundle bit_operations_syntax

text \<open>
  Slots (\<^verbatim>\<open>src/lib/slot_mgr/Slot.cpp\<close>), the slot manager (\<^verbatim>\<open>src/lib/slot_mgr/SlotManager.cpp\<close>),
  the identifiers of new tokens (\<^verbatim>\<open>UUID.cpp\<close>, \<^verbatim>\<open>ObjectStore.cpp\<close>), and the slot layout of
  the Rutoken profile (\<^verbatim>\<open>src/lib/SoftHSM.cpp\<close>).

  The slot map goes from slot identifiers to tokens, in the order of the identifiers. The
  number of tokens in the object store is passed to the functions that ask for it.

  Shown: the slot list is filled from both ends with every slot once, the uninitialised
  ones last, and never past the buffer; the layout order is total, sorting by it is the
  library's sort, and a younger token does not move the ones already placed; positions
  and slots translate back and forth; the slot of a new token is the low 31 bits of its
  UUID.
\<close>

section \<open>Identifiers\<close>

definition hex_lower :: "nat \<Rightarrow> char" where
  "hex_lower n = (if n < 10 then char_of (48 + n) else char_of (87 + n))"

definition byte_hex :: "byte \<Rightarrow> string" where
  "byte_hex b = [hex_lower (unat b div 16), hex_lower (unat b mod 16)]"

text \<open>\<open>newUUID\<close> on sixteen random bytes.\<close>

definition newUUID :: "bytes \<Rightarrow> string" where
  "newUUID uuid =
     (let x = (\<lambda>i. byte_hex (uuid ! i))
      in x 0 @ x 1 @ x 2 @ x 3 @ ''-'' @ x 4 @ x 5 @ ''-'' @ x 6 @ x 7 @ ''-'' @ x 8 @ x 9 @ ''-'' @
         x 10 @ x 11 @ x 12 @ x 13 @ x 14 @ x 15)"

text \<open>The serial number \<open>ObjectStore::newToken\<close> takes from it.\<close>

definition serialNumber :: "string \<Rightarrow> string" where
  "serialNumber tokenUUID = take 4 (drop 19 tokenUUID) @ drop 24 tokenUUID"

text \<open>The slot identifier of a token with this serial: the last eight digits, less the sign bit.\<close>

definition slotID_of_serial :: "string \<Rightarrow> ulong" where
  "slotID_of_serial s =
     (let l = (if length s < 8 then strtoul16 s else strtoul16 (drop (length s - 8) s));
          low31 = push_bit 31 1 - 1
      in low31 AND l)"

section \<open>Slots\<close>

definition Slot_new :: "('c, 'd, 'r) crypto \<Rightarrow> 'r \<Rightarrow> os_token option \<Rightarrow> ('c, 'r) hsm_token" where
  "Slot_new cx r inToken = (case inToken of None \<Rightarrow> Token_null r | Some t \<Rightarrow> Token_new cx r t)"

definition slot_initToken ::
  "('c, 'd, 'r) crypto \<Rightarrow> string option \<Rightarrow> token_store \<Rightarrow> bytes \<Rightarrow> bytes option \<Rightarrow> ('c, 'r) hsm_token
     \<Rightarrow> ck_rv option \<times> ('c, 'r) hsm_token" where
  "slot_initToken cx requested objectStore soPIN label tk = createToken cx requested objectStore soPIN label tk"

definition slot_isTokenPresent :: "('c, 'r) hsm_token \<Rightarrow> bool" where
  "slot_isTokenPresent tk = True"

section \<open>The slot manager\<close>

text \<open>
  \<open>insert\<close> of a map keeps an entry that is there. The assertion that none is there is
  compiled out of release builds; the flag says whether it would hold.
\<close>

definition insertToken ::
  "('c, 'd, 'r) crypto \<Rightarrow> 'r \<Rightarrow> ulong \<Rightarrow> os_token option \<Rightarrow> ('c, 'r) slots \<Rightarrow> bool \<times> ('c, 'r) slots" where
  "insertToken cx r slotID pToken slots =
     (if omap_find slots slotID = None then (True, omap_insert slotID (Slot_new cx r pToken) slots)
      else (False, slots))"

text \<open>The constructor reads the serial of each token, an empty one when that fails.\<close>

fun insert_tokens ::
  "('c, 'd, 'r) crypto \<Rightarrow> 'r \<Rightarrow> os_token list \<Rightarrow> ('c, 'r) slots \<Rightarrow> bool \<times> ('c, 'r) slots" where
  "insert_tokens cx r [] slots = (True, slots)"
| "insert_tokens cx r (t # ts) slots =
     (let (bs, t) = getTokenSerial t;
          s = map (\<lambda>b. char_of (unat b)) (case bs of None \<Rightarrow> [] | Some b \<Rightarrow> b);
          (ok, slots) = insertToken cx r (slotID_of_serial s) (Some t) slots;
          (ok', slots) = insert_tokens cx r ts slots
      in (ok \<and> ok', slots))"

definition SlotManager_new :: "('c, 'd, 'r) crypto \<Rightarrow> 'r \<Rightarrow> os_token list \<Rightarrow> bool \<times> ('c, 'r) slots" where
  "SlotManager_new cx r tokens =
     (let (ok, slots) = insert_tokens cx r tokens [];
          (ok', slots) = insertToken cx r (of_nat (length tokens)) None slots
      in (ok \<and> ok', slots))"

text \<open>
  The loop that fills the caller's array: initialised slots from the front, the others
  from the back. The index at the back is a \<^verbatim>\<open>size_t\<close>, which wraps.
\<close>

fun fill_list :: "('c, 'r) slots \<Rightarrow> ulong list \<times> nat \<times> nat \<Rightarrow> ulong list \<times> nat \<times> nat" where
  "fill_list [] acc = acc"
| "fill_list ((slotID, tk) # rest) (pSlotList, startIx, endIx) =
     (if slot_isTokenPresent tk \<and> \<not> isInitialized tk
      then fill_list rest (pSlotList[endIx := slotID], startIx, size_sub endIx 1)
      else fill_list rest (pSlotList[startIx := slotID], startIx + 1, endIx))"

record slot_list =
  sl_count :: nat
  sl_ids :: "ulong list option"

text \<open>
  \<open>getSlotList\<close>: \<open>room\<close> is \<^verbatim>\<open>*pulCount\<close> when a list was passed, none for a query of the size;
  \<open>tokenCount\<close> is the number of tokens in the store. Every slot counts as having a token.
\<close>

definition getSlotList ::
  "('c, 'd, 'r) crypto \<Rightarrow> 'r \<Rightarrow> nat \<Rightarrow> bool \<Rightarrow> nat option \<Rightarrow> bool \<Rightarrow> ('c, 'r) slots
     \<Rightarrow> ck_rv \<times> slot_list \<times> ('c, 'r) slots" where
  "getSlotList cx r tokenCount tokenPresent room pulCount slots =
     (if \<not> pulCount then (CKR_ARGUMENTS_BAD, \<lparr>sl_count = 0, sl_ids = None\<rparr>, slots)
      else
        (let size = length (filter (\<lambda>(_, tk). \<not> tokenPresent \<or> slot_isTokenPresent tk) slots);
             uninitialized = list_ex (\<lambda>(_, tk). \<not> isInitialized tk) slots
         in case room of
              None \<Rightarrow>
                if \<not> uninitialized
                then (CKR_OK, \<lparr>sl_count = size + 1, sl_ids = None\<rparr>, snd (insertToken cx r (of_nat tokenCount) None slots))
                else (CKR_OK, \<lparr>sl_count = size, sl_ids = None\<rparr>, slots)
            | Some n \<Rightarrow>
                if n < size then (CKR_BUFFER_TOO_SMALL, \<lparr>sl_count = size, sl_ids = None\<rparr>, slots)
                else
                  (let (ids, _, _) = fill_list (filter (\<lambda>(_, tk). \<not> (tokenPresent \<and> \<not> slot_isTokenPresent tk)) slots)
                         (replicate n 0, 0, size_sub size 1)
                   in (CKR_OK, \<lparr>sl_count = size, sl_ids = Some ids\<rparr>, slots))))"

definition getSlot :: "ulong \<Rightarrow> ('c, 'r) slots \<Rightarrow> ('c, 'r) hsm_token option" where
  "getSlot slotID slots = omap_find slots slotID"

section \<open>The layout of the Rutoken profile\<close>

definition FAKE_RUTOKEN_SLOT_COUNT :: nat where
  "FAKE_RUTOKEN_SLOT_COUNT = 15"

definition CK_UNAVAILABLE_INFORMATION :: ulong where
  "CK_UNAVAILABLE_INFORMATION = - 1"

text \<open>\<open>memcmp\<close>: the sign of the first difference.\<close>

fun memcmp :: "bytes \<Rightarrow> bytes \<Rightarrow> nat \<Rightarrow> int" where
  "memcmp (a # as) (b # bs) (Suc n) = (if a = b then memcmp as bs n else if a < b then - 1 else 1)"
| "memcmp _ _ _ = 0"

definition bytesAreLower :: "bytes \<Rightarrow> bytes \<Rightarrow> bool" where
  "bytesAreLower left right =
     (let shared = (if length left < length right then length left else length right);
          difference = (if shared = 0 then 0 else memcmp left right shared)
      in if difference \<noteq> 0 then difference < 0 else length left < length right)"

datatype placement = Placement (created: "bytes") (hasCreated: bool) (serial: bytes) (backingSlotID: ulong)

definition olderFirst :: "placement \<Rightarrow> placement \<Rightarrow> bool" where
  "olderFirst left right =
     (if hasCreated left \<noteq> hasCreated right then \<not> hasCreated left
      else if hasCreated left \<and> created left \<noteq> created right then bytesAreLower (created left) (created right)
      else if serial left \<noteq> serial right then bytesAreLower (serial left) (serial right)
      else backingSlotID left < backingSlotID right)"

text \<open>\<^verbatim>\<open>std::sort\<close> with a comparison, here by insertion.\<close>

fun insert_by :: "('a \<Rightarrow> 'a \<Rightarrow> bool) \<Rightarrow> 'a \<Rightarrow> 'a list \<Rightarrow> 'a list" where
  "insert_by lt x [] = [x]"
| "insert_by lt x (y # ys) = (if lt x y then x # y # ys else y # insert_by lt x ys)"

definition std_sort :: "('a \<Rightarrow> 'a \<Rightarrow> bool) \<Rightarrow> 'a list \<Rightarrow> 'a list" where
  "std_sort lt xs = foldr (insert_by lt) xs []"

text \<open>One slot: its token is read for the creation time and the serial number.\<close>

definition place_token :: "ulong \<Rightarrow> ('c, 'r) hsm_token \<Rightarrow> placement \<times> ('c, 'r) hsm_token" where
  "place_token slotID tk =
     (let (c, tk) = getCreationTime tk;
          (s, tk) = getSerial tk
      in (Placement (case c of None \<Rightarrow> [] | Some b \<Rightarrow> b) (c \<noteq> None) (case s of None \<Rightarrow> [] | Some b \<Rightarrow> b) slotID, tk))"

text \<open>The placements of the initialised slots, the first spare, and the tokens after the reads.\<close>

fun placements :: "('c, 'r) slots \<Rightarrow> placement list \<times> ulong option \<times> ('c, 'r) slots" where
  "placements [] = ([], None, [])"
| "placements ((slotID, tk) # rest) =
     (if \<not> isInitialized tk
      then (let (ps, _, rest) = placements rest in (ps, Some slotID, (slotID, tk) # rest))
      else
        (let (p, tk) = place_token slotID tk;
             (ps, spare, rest) = placements rest
         in (p # ps, spare, (slotID, tk) # rest)))"

definition layout_of :: "placement list \<Rightarrow> ulong option \<Rightarrow> ulong list" where
  "layout_of ps spare =
     (let layout = map backingSlotID (take FAKE_RUTOKEN_SLOT_COUNT (std_sort olderFirst ps))
      in case spare of
           None \<Rightarrow> layout
         | Some s \<Rightarrow> if length layout < FAKE_RUTOKEN_SLOT_COUNT then layout @ [s] else layout)"

definition fakeRutokenLayout :: "('c, 'r) slots \<Rightarrow> ulong list \<times> ('c, 'r) slots" where
  "fakeRutokenLayout slots = (let (ps, spare, slots) = placements slots in (layout_of ps spare, slots))"

definition present_prefix :: "('c, 'r) slots \<Rightarrow> ulong list \<Rightarrow> nat" where
  "present_prefix slots layout =
     length (takeWhile (\<lambda>s. case getSlot s slots of None \<Rightarrow> False | Some tk \<Rightarrow> isInitialized tk) layout)"

definition fakeRutokenPresentCount :: "('c, 'r) slots \<Rightarrow> nat \<times> ('c, 'r) slots" where
  "fakeRutokenPresentCount slots =
     (let (layout, slots) = fakeRutokenLayout slots in (present_prefix slots layout, slots))"

definition fakeRutokenBackingSlotID :: "ulong \<Rightarrow> ('c, 'r) slots \<Rightarrow> ulong \<times> ('c, 'r) slots" where
  "fakeRutokenBackingSlotID externalSlotID slots =
     (let (layout, slots) = fakeRutokenLayout slots
      in (if unat externalSlotID \<ge> length layout then CK_UNAVAILABLE_INFORMATION else layout ! unat externalSlotID, slots))"

fun index_of :: "ulong \<Rightarrow> ulong list \<Rightarrow> nat option" where
  "index_of x [] = None"
| "index_of x (y # ys) = (if y = x then Some 0 else map_option Suc (index_of x ys))"

definition fakeRutokenFacadeSlotID :: "ulong \<Rightarrow> ('c, 'r) slots \<Rightarrow> ulong \<times> ('c, 'r) slots" where
  "fakeRutokenFacadeSlotID backing slots =
     (let (layout, slots) = fakeRutokenLayout slots
      in (case index_of backing layout of None \<Rightarrow> CK_UNAVAILABLE_INFORMATION | Some i \<Rightarrow> of_nat i, slots))"

definition fakeRutokenSlot :: "ulong \<Rightarrow> ('c, 'r) slots \<Rightarrow> (ulong \<times> ('c, 'r) hsm_token) option \<times> ('c, 'r) slots" where
  "fakeRutokenSlot externalSlotID slots =
     (let (backing, slots) = fakeRutokenBackingSlotID externalSlotID slots
      in (if backing = CK_UNAVAILABLE_INFORMATION then None
          else map_option (Pair backing) (getSlot backing slots), slots))"

section \<open>The order of the layout\<close>

lemma memcmp_zero: "memcmp xs ys (min (length xs) (length ys)) = 0 \<Longrightarrow> length xs < length ys \<Longrightarrow> xs < ys"
  by (induction xs ys rule: list_induct2') (auto split: if_splits)

lemma memcmp_less:
  "memcmp xs ys (min (length xs) (length ys)) \<noteq> 0 \<Longrightarrow> (memcmp xs ys (min (length xs) (length ys)) < 0 \<longleftrightarrow> xs < ys)"
  by (induction xs ys rule: list_induct2') (auto split: if_splits)

lemma memcmp_same: "memcmp xs ys (min (length xs) (length ys)) = 0 \<Longrightarrow> \<not> length xs < length ys \<Longrightarrow> \<not> xs < ys"
  by (induction xs ys rule: list_induct2') (auto split: if_splits)

text \<open>The comparison of byte strings is the lexicographic order of lists.\<close>

lemma bytesAreLower_less: "bytesAreLower xs ys \<longleftrightarrow> xs < ys"
proof -
  let ?n = "min (length xs) (length ys)"
  have m: "(if length xs < length ys then length xs else length ys) = ?n" by simp
  have z: "(if ?n = 0 then 0 else memcmp xs ys ?n) = memcmp xs ys ?n" by (cases xs; cases ys) simp_all
  have "bytesAreLower xs ys \<longleftrightarrow> (if memcmp xs ys ?n \<noteq> 0 then memcmp xs ys ?n < 0 else length xs < length ys)"
    unfolding bytesAreLower_def Let_def m z ..
  then show ?thesis
    using memcmp_zero [of xs ys] memcmp_less [of xs ys] memcmp_same [of xs ys] by metis
qed

definition place_key :: "placement \<Rightarrow> bool \<times> bytes \<times> bytes \<times> ulong" where
  "place_key p = (hasCreated p, if hasCreated p then created p else [], serial p, backingSlotID p)"

lemma olderFirst_key: "olderFirst p q \<longleftrightarrow> place_key p < place_key q"
  by (auto simp: olderFirst_def place_key_def bytesAreLower_less less_le_not_le)

text \<open>Sorting by a strict comparison of keys that are all different is the library's sort.\<close>

lemma insert_by_insort:
  fixes f :: "'a \<Rightarrow> 'b :: linorder"
  assumes "\<And>y. y \<in> set ys \<Longrightarrow> f y \<noteq> f x"
  shows "insert_by (\<lambda>a b. f a < f b) x ys = insort_key f x ys"
  using assms
proof (induction ys)
  case (Cons y ys)
  have "f x < f y \<longleftrightarrow> f x \<le> f y" using Cons.prems [of y] by (auto simp: order_less_le)
  with Cons show ?case by simp
qed simp

lemma std_sort_key:
  fixes f :: "'a \<Rightarrow> 'b :: linorder"
  assumes "distinct (map f xs)"
  shows "std_sort (\<lambda>a b. f a < f b) xs = sort_key f xs"
  using assms unfolding std_sort_def sort_key_def
proof (induction xs)
  case (Cons x xs)
  have "set (foldr (insort_key f) xs []) = set xs"
    using set_sort [of f xs] by (simp add: sort_key_def)
  moreover have "f y \<noteq> f x" if "y \<in> set xs" for y using Cons.prems that by (auto simp: image_iff)
  ultimately have "insert_by (\<lambda>a b. f a < f b) x (foldr (insort_key f) xs []) = insort_key f x (foldr (insort_key f) xs [])"
    by (intro insert_by_insort) blast
  with Cons show ?case by simp
qed simp

lemma olderFirst_sort:
  assumes "distinct (map backingSlotID ps)"
  shows "std_sort olderFirst ps = sort_key place_key ps"
proof -
  have "olderFirst = (\<lambda>a b. place_key a < place_key b)" by (simp add: fun_eq_iff olderFirst_key)
  moreover have "distinct (map place_key ps)"
    using assms by (auto simp: distinct_map place_key_def inj_on_def)
  ultimately show ?thesis using std_sort_key by metis
qed

lemma sort_key_last:
  fixes f :: "'a \<Rightarrow> 'b :: linorder"
  assumes "\<And>p. p \<in> set (xs @ ys) \<Longrightarrow> f p < f q"
  shows "sort_key f (xs @ q # ys) = sort_key f (xs @ ys) @ [q]"
proof (rule properties_for_sort_key)
  show "mset (sort_key f (xs @ ys) @ [q]) = mset (xs @ q # ys)" by simp
  show "filter (\<lambda>x. f k = f x) (sort_key f (xs @ ys) @ [q]) = filter (\<lambda>x. f k = f x) (xs @ q # ys)" if "k \<in> set (sort_key f (xs @ ys) @ [q])" for k
  proof (cases "k = q")
    case True
    have "filter (\<lambda>x. f q = f x) zs = []" if "set zs \<subseteq> set (xs @ ys)" for zs
      using that assms by (force simp: filter_empty_conv)
    then show ?thesis using True by simp
  next
    case False
    then have "f k \<noteq> f q" using that assms [of k] by auto
    moreover have "filter (\<lambda>x. f k = f x) (sort_key f (xs @ ys)) = filter (\<lambda>x. f k = f x) (xs @ ys)"
      using sort_key_stable [of f "f k" "xs @ ys"] by (simp only: eq_commute [of "f k"])
    ultimately show ?thesis by simp
  qed
  show "sorted (map f (sort_key f (xs @ ys) @ [q]))"
    using assms by (auto simp: sorted_append less_imp_le)
qed

section \<open>What the layout reads\<close>

lemma place_token_slot [simp]: "backingSlotID (fst (place_token slotID tk)) = slotID"
  by (simp add: place_token_def split: prod.splits)

lemma placements_append:
  "placements (A @ B) = (let (ps, sp, A') = placements A; (qs, sq, B') = placements B
     in (ps @ qs, if sp = None then sq else sp, A' @ B'))"
  by (induction A) (auto split: prod.splits simp: Let_def)

lemma placements_keys:
  assumes "placements A = (ps, sp, A')"
  shows "map backingSlotID ps = map fst (filter (\<lambda>(_, tk). isInitialized tk) A) \<and> map fst A' = map fst A
    \<and> sp = map_option fst (List.find (\<lambda>(_, tk). \<not> isInitialized tk) A)"
  using assms
proof (induction A arbitrary: ps sp A')
  case (Cons a A)
  obtain s tk where a: "a = (s, tk)" by (cases a)
  obtain qs sq B where A: "placements A = (qs, sq, B)" by (cases "placements A")
  obtain p tk' where p: "place_token s tk = (p, tk')" by (cases "place_token s tk")
  then have "backingSlotID p = s" using place_token_slot [of s tk] by simp
  with Cons.IH [OF A] Cons.prems a A p show ?case by (cases "isInitialized tk") auto
qed simp

lemma placements_distinct:
  assumes "distinct (map fst A)" "placements A = (ps, sp, A')"
  shows "distinct (map backingSlotID ps)"
proof -
  have "distinct (map fst (filter P A))" for P using assms(1) by (simp add: distinct_map_filter)
  then show ?thesis using placements_keys [OF assms(2)] by simp
qed

lemma layout_of_old:
  "layout_of ps (Some s) = take FAKE_RUTOKEN_SLOT_COUNT (map backingSlotID (std_sort olderFirst ps) @ [s])"
  by (simp add: layout_of_def Let_def take_map [symmetric])

section \<open>Filling the list from both ends\<close>

lemma fill_list_two_ends:
  fixes slots :: "('c, 'r) slots"
  assumes "fill_list slots (front @ replicate (length slots) x @ behind, length front, e) = (ids, i, j)"
    and "slots \<noteq> [] \<Longrightarrow> e = length front + length slots - 1"
  shows "ids = front @ map fst (filter (\<lambda>(_, tk). isInitialized tk) slots) @
    rev (map fst (filter (\<lambda>(_, tk). \<not> isInitialized tk) slots)) @ behind"
  using assms
proof (induction slots arbitrary: front behind e)
  case (Cons a slots)
  obtain s tk where a: "a = (s, tk)" by (cases a)
  let ?n = "length slots"
  show ?case
  proof (cases "isInitialized tk")
    case True
    have "(front @ replicate (Suc ?n) x @ behind)[length front := s] = (front @ [s]) @ replicate ?n x @ behind"
      by (simp add: list_update_append)
    with Cons.prems True a have "fill_list slots ((front @ [s]) @ replicate ?n x @ behind, length (front @ [s]), e) = (ids, i, j)"
      by (simp add: slot_isTokenPresent_def)
    from Cons.IH [OF this] Cons.prems(2) True a show ?thesis by simp
  next
    case False
    have "front @ replicate (Suc ?n) x @ behind = (front @ replicate ?n x) @ x # behind"
      by (simp add: replicate_append_same [symmetric])
    moreover have "e = length (front @ replicate ?n x)" using Cons.prems(2) by simp
    ultimately have "(front @ replicate (Suc ?n) x @ behind)[e := s] = front @ replicate ?n x @ (s # behind)"
      by (metis append.assoc list_update_length)
    with Cons.prems(1) False a have "fill_list slots (front @ replicate ?n x @ (s # behind), length front, size_sub e 1) = (ids, i, j)"
      by (simp add: slot_isTokenPresent_def)
    moreover have "slots \<noteq> [] \<Longrightarrow> size_sub e 1 = length front + length slots - 1"
      using Cons.prems(2) by (cases slots) simp_all
    ultimately show ?thesis using Cons.IH [of front "s # behind" "size_sub e 1"] False a by simp
  qed
qed simp

section \<open>Properties\<close>

text \<open>
  the slot list is complete and stays in its buffer. Called with room for \<open>n\<close> slots,
  \<^verbatim>\<open>getSlotList\<close> answers \<^verbatim>\<open>CKR_BUFFER_TOO_SMALL\<close> with the size needed when there are more, and
  otherwise writes every slot once, the ones with an initialised token in ascending order
  in front and the others behind them, and leaves the rest of the buffer alone. Filling
  from both ends is thus the same as partitioning the slots.
\<close>

theorem slot_list_partition:
  fixes slots :: "('c, 'r) slots"
  shows "getSlotList cx r tokenCount tokenPresent (Some n) True slots =
    (if n < length slots then (CKR_BUFFER_TOO_SMALL, \<lparr>sl_count = length slots, sl_ids = None\<rparr>, slots)
     else (CKR_OK, \<lparr>sl_count = length slots,
       sl_ids = Some (map fst (filter (\<lambda>(_, tk). isInitialized tk) slots) @
         rev (map fst (filter (\<lambda>(_, tk). \<not> isInitialized tk) slots)) @ replicate (n - length slots) 0)\<rparr>, slots))"
proof -
  have all: "filter (\<lambda>(_, tk). \<not> tokenPresent \<or> slot_isTokenPresent tk) slots = slots"
    "filter (\<lambda>(_, tk). \<not> (tokenPresent \<and> \<not> slot_isTokenPresent tk)) slots = slots"
    by (simp_all add: slot_isTokenPresent_def case_prod_unfold)
  obtain ids i j where f: "fill_list slots (replicate n 0, 0, size_sub (length slots) 1) = (ids, i, j)"
    by (cases "fill_list slots (replicate n 0, 0, size_sub (length slots) 1)")
  have "ids = map fst (filter (\<lambda>(_, tk). isInitialized tk) slots) @
    rev (map fst (filter (\<lambda>(_, tk). \<not> isInitialized tk) slots)) @ replicate (n - length slots) 0" if "length slots \<le> n"
  proof -
    have "replicate n (0 :: ulong) = [] @ replicate (length slots) 0 @ replicate (n - length slots) 0"
      using that by (simp flip: replicate_add)
    moreover have "slots \<noteq> [] \<Longrightarrow> size_sub (length slots) 1 = length slots - 1" by (cases slots) simp_all
    ultimately show ?thesis
      using fill_list_two_ends [of slots "[]" 0 "replicate (n - length slots) 0" "size_sub (length slots) 1" ids i j] f by simp
  qed
  then show ?thesis unfolding getSlotList_def Let_def all by (simp add: f [unfolded One_nat_def])
qed

text \<open>
  a new token does not move the ones already placed. When the spare slot of the
  Rutoken profile is filled with a token created after all others, the old layout, the
  place of the spare included, is the beginning of the new one.
\<close>

theorem layout_keeps_places:
  fixes tk0 tk1 :: "('c, 'r) hsm_token"
  assumes "omap_ok (A @ (s, tk0) # B)" and "\<not> isInitialized tk0" and "isInitialized tk1"
    and "\<forall>(_, tk) \<in> set A. isInitialized tk"
    and "hasCreated (fst (place_token s tk1))"
    and "\<forall>p \<in> set (fst (placements (A @ B))). hasCreated p \<longrightarrow> bytesAreLower (created p) (created (fst (place_token s tk1)))"
  shows "\<exists>zs. fst (fakeRutokenLayout (A @ (s, tk1) # B)) = fst (fakeRutokenLayout (A @ (s, tk0) # B)) @ zs"
proof -
  obtain pa sa A' where a: "placements A = (pa, sa, A')" by (cases "placements A")
  obtain pb sb B' where b: "placements B = (pb, sb, B')" by (cases "placements B")
  obtain q tk' where q: "place_token s tk1 = (q, tk')" by (cases "place_token s tk1")
  have "List.find (\<lambda>(_, tk). \<not> isInitialized tk) A = None" using assms(4) by (auto simp: find_None_iff)
  then have sa: "sa = None" using placements_keys [OF a] by simp
  have old: "fst (fakeRutokenLayout (A @ (s, tk0) # B)) = layout_of (pa @ pb) (Some s)"
    using assms(2) a b sa by (simp add: fakeRutokenLayout_def placements_append)
  have new: "fst (fakeRutokenLayout (A @ (s, tk1) # B)) = layout_of (pa @ q # pb) sb"
    using assms(3) a b sa q by (simp add: fakeRutokenLayout_def placements_append)
  have d: "distinct (map fst (A @ (s, tk1) # B))" "distinct (map fst (A @ B))"
    using sset_ok_distinct [OF assms(1)] by auto
  have "placements (A @ (s, tk1) # B) = (pa @ q # pb, sb, A' @ (s, tk') # B')" "placements (A @ B) = (pa @ pb, sb, A' @ B')"
    using assms(3) a b sa q by (simp_all add: placements_append)
  then have dp: "distinct (map backingSlotID (pa @ q # pb))" "distinct (map backingSlotID (pa @ pb))"
    and low: "\<forall>p \<in> set (pa @ pb). hasCreated p \<longrightarrow> created p < created q"
    using placements_distinct d assms(6) q by (blast, blast, simp add: bytesAreLower_less)
  have "place_key p < place_key q" if "p \<in> set (pa @ pb)" for p
    using low that assms(5) q by (auto simp: place_key_def)
  then have "std_sort olderFirst (pa @ q # pb) = std_sort olderFirst (pa @ pb) @ [q]"
    using sort_key_last [of pa pb place_key q] olderFirst_sort [OF dp(1)] olderFirst_sort [OF dp(2)] by simp
  moreover have "backingSlotID q = s" using place_token_slot [of s tk1] q by simp
  ultimately have "layout_of (pa @ q # pb) sb = layout_of (pa @ pb) (Some s) @
    (case sb of None \<Rightarrow> [] | Some t \<Rightarrow> if length (layout_of (pa @ pb) (Some s)) < FAKE_RUTOKEN_SLOT_COUNT then [t] else [])"
    unfolding layout_of_old by (simp add: layout_of_def Let_def take_map [symmetric] split: option.splits)
      (simp add: FAKE_RUTOKEN_SLOT_COUNT_def min_def split: if_splits)
  with old new show ?thesis by metis
qed

text \<open>A token that carries a creation time.\<close>

definition sample_dated :: "byte \<Rightarrow> (unit, unit) hsm_token" where
  "sample_dated n = \<lparr>tk_token = Some (snd (to_setAttribute CKA_OS_TOKENCREATED (BYTESTR [n]) sample_token)),
     tk_sdm = None, tk_valid = True, tk_rng = ()\<rparr>"

lemma sample_dated_place: "hasCreated (fst (place_token s (sample_dated n))) \<and> created (fst (place_token s (sample_dated n))) = [n]"
proof -
  obtain t where t: "to_setAttribute CKA_OS_TOKENCREATED (BYTESTR [n]) sample_token = (True, t)"
    "works t (gen_next 1) (omap_insert CKA_OS_TOKENCREATED (BYTESTR [n]) [])"
    using set_works [OF sample_token_works, of "BYTESTR [n]" CKA_OS_TOKENCREATED] by auto
  obtain t' where t': "to_ready t = (True, t')" "works t' (gen_next 1) (omap_insert CKA_OS_TOKENCREATED (BYTESTR [n]) [])"
    using ready_works [OF t(2)] by blast
  then have sy: "synced t' (gen_next 1) (omap_insert CKA_OS_TOKENCREATED (BYTESTR [n]) [])" by (simp add: works_def)
  have "fst (getTokenCreationTime t) = Some [n]"
    using t' to_reads(3, 4) [OF sy, of CKA_OS_TOKENCREATED] by (simp add: getTokenCreationTime_def get_required_def)
  then obtain t2 where "getTokenCreationTime t = (Some [n], t2)" by (metis prod.collapse)
  then show ?thesis
    by (simp add: place_token_def getCreationTime_def sample_dated_def t(1) split: prod.splits)
qed

theorem layout_keeps_places_witness:
  "\<exists>zs. fst (fakeRutokenLayout [(1, sample_dated 9), (4, sample_dated 5)]) = fst (fakeRutokenLayout [(1, Token_null ()), (4, sample_dated 5)]) @ zs"
proof -
  have i: "isInitialized (sample_dated n)" for n by (simp add: isInitialized_def sample_dated_def)
  have "fst (placements [(4, sample_dated 5)]) = [fst (place_token 4 (sample_dated 5))]"
    using i by (simp split: prod.splits)
  then show ?thesis
    using layout_keeps_places [of "[]" 1 "Token_null ()" "[(4, sample_dated 5)]" "sample_dated 9"] i
    by (simp add: sample_dated_place bytesAreLower_less) (simp add: isInitialized_def Token_null_def)
qed

end
