(* ===== verification/Slot_Events.thy ===== *)
theory Slot_Events
  imports HSM_Prelude
begin

unbundle bit_operations_syntax

text \<open>
  Slot events (\<^verbatim>\<open>src/lib/SoftHSM.cpp\<close>, \<^verbatim>\<open>SlotEventState\<close> and \<^verbatim>\<open>awaitSlotEvent\<close>): the queue that
  \<^verbatim>\<open>C_InitToken\<close> posts to, that \<^verbatim>\<open>C_Initialize\<close> opens and \<^verbatim>\<open>C_Finalize\<close> closes, and that any
  number of threads read with \<^verbatim>\<open>C_WaitForSlotEvent\<close>, one of them sleeping.

  A call is split where the code gives up the lock: the part before the sleep is
  \<open>awaitSlotEvent\<close>, the part after it \<open>wake\<close>. Between the two, any other calls may run. A
  thread asleep is an entry of the map of sleepers, with the epoch it read. The sleep ends
  only when its predicate holds, so a wake-up without cause is no step.

  Shown: at most one thread sleeps; every event posted since the queue was opened is
  delivered once, in order, or still waits; a sleeper whose library was finalised is told so and
  gets no event, even when the library was initialised again before it woke up.
\<close>

section \<open>State and operations\<close>

definition CKF_DONT_BLOCK :: ulong where "CKF_DONT_BLOCK = 1"

datatype ev_result = Ev_slot ulong | Ev_error ck_rv | Ev_no_event

record slot_events =
  ev_pending :: "ulong list"
  ev_open :: bool
  ev_waiting :: bool
  ev_epoch :: ulong

definition SlotEventState_new :: slot_events where
  "SlotEventState_new = \<lparr>ev_pending = [], ev_open = False, ev_waiting = False, ev_epoch = 0\<rparr>"

definition postSlotEvent :: "ulong \<Rightarrow> slot_events \<Rightarrow> slot_events" where
  "postSlotEvent slotID st = st\<lparr>ev_pending := ev_pending st @ [slotID]\<rparr>"

definition beginSlotEventEpoch :: "slot_events \<Rightarrow> slot_events" where
  "beginSlotEventEpoch st = st\<lparr>ev_open := True\<rparr>"

definition endSlotEventEpoch :: "slot_events \<Rightarrow> slot_events" where
  "endSlotEventEpoch st = st\<lparr>ev_open := False, ev_pending := [], ev_epoch := ev_epoch st + 1\<rparr>"

text \<open>
  The call up to the sleep: an answer, or the epoch to sleep with. The two flags say
  whether \<^verbatim>\<open>pReserved\<close> and \<^verbatim>\<open>pSlot\<close> are null.
\<close>

definition awaitSlotEvent ::
  "ulong \<Rightarrow> bool \<Rightarrow> bool \<Rightarrow> slot_events \<Rightarrow> (ev_result + ulong) \<times> slot_events" where
  "awaitSlotEvent flags slotNull reservedNull st =
     (if \<not> ev_open st then (Inl (Ev_error CKR_CRYPTOKI_NOT_INITIALIZED), st)
      else if \<not> reservedNull then (Inl (Ev_error CKR_ARGUMENTS_BAD), st)
      else if slotNull then (Inl (Ev_error CKR_ARGUMENTS_BAD), st)
      else
        (case ev_pending st of
           s # rest \<Rightarrow> (Inl (Ev_slot s), st\<lparr>ev_pending := rest\<rparr>)
         | [] \<Rightarrow>
             if flags AND CKF_DONT_BLOCK \<noteq> 0 then (Inl Ev_no_event, st)
             else if ev_waiting st then (Inl (Ev_error CKR_FUNCTION_FAILED), st)
             else (Inr (ev_epoch st), st\<lparr>ev_waiting := True\<rparr>)))"

text \<open>The predicate of the sleep, and the call after it.\<close>

definition may_wake :: "ulong \<Rightarrow> slot_events \<Rightarrow> bool" where
  "may_wake epoch st \<longleftrightarrow> ev_pending st \<noteq> [] \<or> ev_epoch st \<noteq> epoch"

definition wake :: "ulong \<Rightarrow> slot_events \<Rightarrow> ev_result \<times> slot_events" where
  "wake epoch st0 =
     (let st = st0\<lparr>ev_waiting := False\<rparr>
      in if ev_epoch st \<noteq> epoch then (Ev_error CKR_CRYPTOKI_NOT_INITIALIZED, st)
         else
           (case ev_pending st of
              [] \<Rightarrow> (Ev_error CKR_GENERAL_ERROR, st)
            | s # rest \<Rightarrow> (Ev_slot s, st\<lparr>ev_pending := rest\<rparr>)))"

section \<open>Threads\<close>

text \<open>
  The system: the shared state, the sleepers with their epochs, and what was posted and
  delivered since the queue was last closed.
\<close>

record ev_system =
  sy_state :: slot_events
  sy_asleep :: "nat \<Rightarrow> ulong option"
  sy_posted :: "ulong list"
  sy_delivered :: "ulong list"

definition sy_start :: ev_system where
  "sy_start = \<lparr>sy_state = SlotEventState_new, sy_asleep = Map.empty, sy_posted = [], sy_delivered = []\<rparr>"

definition got :: "ev_result \<Rightarrow> ulong list" where
  "got r = (case r of Ev_slot s \<Rightarrow> [s] | _ \<Rightarrow> [])"

inductive ev_step :: "ev_system \<Rightarrow> ev_system \<Rightarrow> bool" where
  Post: "ev_step sy (sy\<lparr>sy_state := postSlotEvent s (sy_state sy), sy_posted := sy_posted sy @ [s]\<rparr>)"
| Begin: "ev_step sy (sy\<lparr>sy_state := beginSlotEventEpoch (sy_state sy)\<rparr>)"
| End: "ev_step sy (sy\<lparr>sy_state := endSlotEventEpoch (sy_state sy), sy_posted := [], sy_delivered := []\<rparr>)"
| Answer: "awaitSlotEvent f a b (sy_state sy) = (Inl r, st) \<Longrightarrow> sy_asleep sy t = None \<Longrightarrow>
     ev_step sy (sy\<lparr>sy_state := st, sy_delivered := sy_delivered sy @ got r\<rparr>)"
| Sleep: "awaitSlotEvent f a b (sy_state sy) = (Inr e, st) \<Longrightarrow> sy_asleep sy t = None \<Longrightarrow>
     ev_step sy (sy\<lparr>sy_state := st, sy_asleep := (sy_asleep sy)(t \<mapsto> e)\<rparr>)"
| Wake: "sy_asleep sy t = Some e \<Longrightarrow> may_wake e (sy_state sy) \<Longrightarrow> wake e (sy_state sy) = (r, st) \<Longrightarrow>
     ev_step sy (sy\<lparr>sy_state := st, sy_asleep := (sy_asleep sy)(t := None), sy_delivered := sy_delivered sy @ got r\<rparr>)"

inductive_cases ev_stepE: "ev_step sy sy'"

text \<open>
  The flag is set exactly while somebody sleeps, at most one does, and what was posted is
  what was delivered followed by what waits.
\<close>

definition ev_inv :: "ev_system \<Rightarrow> bool" where
  "ev_inv sy \<longleftrightarrow>
     (if ev_waiting (sy_state sy) then \<exists>t e. sy_asleep sy = [t \<mapsto> e] else sy_asleep sy = Map.empty)
     \<and> sy_posted sy = sy_delivered sy @ ev_pending (sy_state sy)"

lemma await_cases:
  assumes "awaitSlotEvent f a b st = (x, st')"
  shows "(\<forall>r. x = Inl r \<longrightarrow> ev_waiting st' = ev_waiting st \<and> ev_pending st = got r @ ev_pending st')
    \<and> (\<forall>e. x = Inr e \<longrightarrow> \<not> ev_waiting st \<and> ev_waiting st' \<and> ev_pending st = [] \<and> ev_pending st' = [] \<and> e = ev_epoch st)"
  using assms by (auto simp: awaitSlotEvent_def got_def split: if_splits list.splits)

lemma wake_cases:
  assumes "wake e st = (r, st')"
  shows "\<not> ev_waiting st' \<and> ev_pending st = got r @ ev_pending st' \<and> (ev_epoch st \<noteq> e \<longrightarrow> r = Ev_error CKR_CRYPTOKI_NOT_INITIALIZED)"
  using assms by (auto simp: wake_def got_def Let_def split: if_splits list.splits)

lemma ev_step_inv:
  assumes "ev_step sy sy'" "ev_inv sy"
  shows "ev_inv sy'"
  using assms
proof cases
  case (Answer f a b r st t)
  with assms(2) await_cases [OF Answer(2)] show ?thesis by (auto simp: ev_inv_def)
next
  case (Sleep f a b e st t)
  with assms(2) await_cases [OF Sleep(2)] show ?thesis by (auto simp: ev_inv_def)
next
  case (Wake t e r st)
  then have "sy_asleep sy = [t \<mapsto> e]" using assms(2) by (auto simp: ev_inv_def split: if_splits)
  with Wake assms(2) wake_cases [OF Wake(4)] show ?thesis by (auto simp: ev_inv_def fun_eq_iff)
qed (auto simp: ev_inv_def postSlotEvent_def beginSlotEventEpoch_def endSlotEventEpoch_def split: if_splits)

lemma ev_start_inv: "ev_inv sy_start"
  by (simp add: ev_inv_def sy_start_def SlotEventState_new_def)

section \<open>Properties\<close>

text \<open>
  C39: events reach their readers once and in order. In every state that posting,
  opening, closing, polling and sleeping threads can lead to, the events posted since the
  queue was last closed are those delivered since then followed by those that wait, and
  no two threads sleep at once.
\<close>

theorem slot_events_fifo:
  assumes "ev_step\<^sup>*\<^sup>* sy_start sy"
  shows "sy_posted sy = sy_delivered sy @ ev_pending (sy_state sy)
    \<and> (\<forall>t u. sy_asleep sy t \<noteq> None \<and> sy_asleep sy u \<noteq> None \<longrightarrow> t = u)"
proof -
  from assms have "ev_inv sy" by (induction rule: rtranclp_induct) (auto intro: ev_start_inv ev_step_inv)
  then show ?thesis by (auto simp: ev_inv_def split: if_splits)
qed

definition sample_events :: ev_system where
  "sample_events = \<lparr>sy_state = \<lparr>ev_pending = [], ev_open = True, ev_waiting = True, ev_epoch = 0\<rparr>, sy_asleep = [3 \<mapsto> 0],
     sy_posted = [], sy_delivered = []\<rparr>"

lemma sample_events_reachable: "ev_step\<^sup>*\<^sup>* sy_start sample_events"
proof -
  let ?o = "sy_start\<lparr>sy_state := beginSlotEventEpoch (sy_state sy_start)\<rparr>"
  have "ev_step sy_start ?o" by (rule Begin)
  moreover have "ev_step ?o (?o\<lparr>sy_state := sy_state sample_events, sy_asleep := (sy_asleep ?o)(3 \<mapsto> 0)\<rparr>)"
    by (rule Sleep [where f = 0 and a = False and b = True])
      (simp_all add: awaitSlotEvent_def sy_start_def SlotEventState_new_def beginSlotEventEpoch_def sample_events_def)
  moreover have "?o\<lparr>sy_state := sy_state sample_events, sy_asleep := (sy_asleep ?o)(3 \<mapsto> 0)\<rparr> = sample_events"
    by (simp add: sample_events_def sy_start_def)
  ultimately show ?thesis by (metis rtranclp.rtrancl_refl rtranclp.rtrancl_into_rtrancl)
qed

theorem slot_events_fifo_witness:
  "sy_posted sample_events = sy_delivered sample_events @ ev_pending (sy_state sample_events) \<and> sy_asleep sample_events 3 \<noteq> None"
  using slot_events_fifo [OF sample_events_reachable] by (simp add: sample_events_def)

text \<open>
  C40: finalising the library releases the sleeper. After \<^verbatim>\<open>C_Finalize\<close> a thread that slept
  may wake up, whatever initialisation, posting and polling comes first, as long as
  the library is not finalised again, and it then answers \<^verbatim>\<open>CKR_CRYPTOKI_NOT_INITIALIZED\<close>
  and takes no event from the queue.
\<close>

inductive ev_quiet :: "ev_system \<Rightarrow> ev_system \<Rightarrow> bool" where
  Q_post: "ev_quiet sy (sy\<lparr>sy_state := postSlotEvent s (sy_state sy), sy_posted := sy_posted sy @ [s]\<rparr>)"
| Q_begin: "ev_quiet sy (sy\<lparr>sy_state := beginSlotEventEpoch (sy_state sy)\<rparr>)"
| Q_answer: "awaitSlotEvent f a b (sy_state sy) = (Inl r, st) \<Longrightarrow> sy_asleep sy t = None \<Longrightarrow>
     ev_quiet sy (sy\<lparr>sy_state := st, sy_delivered := sy_delivered sy @ got r\<rparr>)"

lemma ev_quiet_epoch: "ev_quiet\<^sup>*\<^sup>* sy sy' \<Longrightarrow> ev_epoch (sy_state sy') = ev_epoch (sy_state sy) \<and> sy_asleep sy' = sy_asleep sy"
proof (induction rule: rtranclp_induct)
  case (step y z)
  from step(2) have "ev_epoch (sy_state z) = ev_epoch (sy_state y) \<and> sy_asleep z = sy_asleep y"
    by cases (auto simp: postSlotEvent_def beginSlotEventEpoch_def awaitSlotEvent_def split: if_splits list.splits)
  with step.IH show ?case by simp
qed simp

theorem finalize_releases_sleeper:
  assumes "sy_asleep sy t = Some (ev_epoch (sy_state sy))"
    and "ev_quiet\<^sup>*\<^sup>* (sy\<lparr>sy_state := endSlotEventEpoch (sy_state sy), sy_posted := [], sy_delivered := []\<rparr>) sy'"
  shows "may_wake (ev_epoch (sy_state sy)) (sy_state sy')
    \<and> fst (wake (ev_epoch (sy_state sy)) (sy_state sy')) = Ev_error CKR_CRYPTOKI_NOT_INITIALIZED
    \<and> ev_pending (snd (wake (ev_epoch (sy_state sy)) (sy_state sy'))) = ev_pending (sy_state sy')
    \<and> sy_asleep sy' t = Some (ev_epoch (sy_state sy))"
proof -
  have "ev_epoch (sy_state sy') \<noteq> ev_epoch (sy_state sy)" "sy_asleep sy' = sy_asleep sy"
    using ev_quiet_epoch [OF assms(2)] by (simp_all add: endSlotEventEpoch_def)
  with assms(1) show ?thesis by (simp add: may_wake_def wake_def Let_def)
qed

theorem finalize_releases_sleeper_witness:
  "fst (wake 0 (sy_state (sample_events\<lparr>sy_state := endSlotEventEpoch (sy_state sample_events), sy_posted := [], sy_delivered := []\<rparr>)))
     = Ev_error CKR_CRYPTOKI_NOT_INITIALIZED"
  using finalize_releases_sleeper [of sample_events 3 "sample_events\<lparr>sy_state := endSlotEventEpoch (sy_state sample_events),
      sy_posted := [], sy_delivered := []\<rparr>"]
  by (simp add: sample_events_def)

end
