(* ===== verification/SoftHSM_Core.thy ===== *)
theory SoftHSM_Core
  imports Slot_Mgr Slot_Events Session_Objects
begin

unbundle bit_operations_syntax

text \<open>
  The library as a whole (\<^verbatim>\<open>src/lib/SoftHSM.cpp\<close>): the PKCS\#11 functions for tokens, PINs,
  sessions and logins, and the search in progress on a session. The state joins the slot
  manager, the session manager, the handle manager, the store of session objects and the
  queue of slot events.

  A function returns its code, with the value it writes through a pointer where there is
  one, and the new state. Null pointers are flags or missing options. Addresses that the
  allocator gives are arguments. The environment (the requested PIN policy, the object
  store's answer to a request for a new token) is passed in.

  The handle manager's references to session objects are those of the store: what it
  releases is released there at once.
\<close>

section \<open>State\<close>

record ('c, 'r) softhsm =
  hs_initialised :: bool
  hs_rutoken :: bool
  hs_slots :: "('c, 'r) slots"
  hs_sm :: session_manager
  hs_hm :: handle_manager
  hs_store :: session_store
  hs_events :: slot_events

text \<open>Who may change the user PIN, in a PIN policy.\<close>

definition TOKEN_FLAGS_ADMIN_CHANGE_USER_PIN :: byte where "TOKEN_FLAGS_ADMIN_CHANGE_USER_PIN = 1"
definition TOKEN_FLAGS_USER_CHANGE_USER_PIN :: byte where "TOKEN_FLAGS_USER_CHANGE_USER_PIN = 2"

text \<open>The last part of \<open>C_Initialize\<close>, after configuration and object store are loaded.\<close>

definition hs_start ::
  "('c, 'd, 'r) crypto \<Rightarrow> 'r \<Rightarrow> bool \<Rightarrow> os_token list \<Rightarrow> slot_events \<Rightarrow> ('c, 'r) softhsm" where
  "hs_start cx r rutoken tokens ev =
     \<lparr>hs_initialised = True, hs_rutoken = rutoken, hs_slots = snd (SlotManager_new cx r tokens),
      hs_sm = SessionManager_new, hs_hm = HandleManager_new,
      hs_store = SessionObjectStore_new, hs_events = beginSlotEventEpoch ev\<rparr>"

text \<open>
  How a function finds its slot: the code to end with, or the identifier of the slot
  behind, and the slot. Under the Rutoken profile the layout is computed three times.
\<close>

definition resolve_slot ::
  "ulong \<Rightarrow> ('c, 'r) softhsm \<Rightarrow> (ck_rv + ulong \<times> (ulong \<times> ('c, 'r) hsm_token) option) \<times> ('c, 'r) softhsm" where
  "resolve_slot slotID st =
     (if hs_rutoken st then
        (let (layout, slots) = fakeRutokenLayout (hs_slots st);
             st = st\<lparr>hs_slots := slots\<rparr>
         in if unat slotID \<ge> length layout
            then (Inl (if unat slotID < FAKE_RUTOKEN_SLOT_COUNT then CKR_TOKEN_NOT_PRESENT else CKR_SLOT_ID_INVALID), st)
            else
              (let (backing, slots) = fakeRutokenBackingSlotID slotID slots;
                   (slot, slots) = fakeRutokenSlot slotID slots
               in (Inr (backing, slot), st\<lparr>hs_slots := slots\<rparr>)))
      else (Inr (slotID, map_option (Pair slotID) (getSlot slotID (hs_slots st))), st))"

text \<open>The session behind a handle, with its address and the token of its slot.\<close>

definition find_session ::
  "ulong \<Rightarrow> ('c, 'r) softhsm \<Rightarrow> (addr \<times> session \<times> ('c, 'r) hsm_token) option" where
  "find_session hSession st =
     (let p = hm_getSession (hs_hm st) hSession
      in if p = 0 then None
         else
           (case omap_find (sm_heap (hs_sm st)) p of
              None \<Rightarrow> None
            | Some s \<Rightarrow>
                (case omap_find (hs_slots st) (se_slot s) of None \<Rightarrow> None | Some tk \<Rightarrow> Some (p, s, tk))))"

definition put_slot :: "ulong \<Rightarrow> ('c, 'r) hsm_token \<Rightarrow> ('c, 'r) softhsm \<Rightarrow> ('c, 'r) softhsm" where
  "put_slot slotID tk st = st\<lparr>hs_slots := omap_insert slotID tk (hs_slots st)\<rparr>"

definition put_session :: "addr \<Rightarrow> session \<Rightarrow> ('c, 'r) softhsm \<Rightarrow> ('c, 'r) softhsm" where
  "put_session p s st = st\<lparr>hs_sm := (hs_sm st)\<lparr>sm_heap := omap_insert p s (sm_heap (hs_sm st))\<rparr>\<rparr>"

text \<open>The tail of every function that ends in an operation on the token.\<close>

definition on_token ::
  "session \<Rightarrow> (('c, 'r) hsm_token \<Rightarrow> ck_rv \<times> ('c, 'r) hsm_token) \<Rightarrow> ('c, 'r) hsm_token \<Rightarrow> ('c, 'r) softhsm \<Rightarrow> ck_rv \<times> ('c, 'r) softhsm" where
  "on_token s f tk st = (let (rv, tk) = f tk in (rv, put_slot (se_slot s) tk st))"

section \<open>Slots\<close>

text \<open>
  \<open>C_GetSlotList\<close>. Under the Rutoken profile the slot manager is asked for the size only, so
  that it keeps an uninitialised slot in reserve, and the slots are numbered from zero.
  \<open>tokenCount\<close> is the object store's number of tokens.
\<close>

definition C_GetSlotList ::
  "('c, 'd, 'r) crypto \<Rightarrow> 'r \<Rightarrow> nat \<Rightarrow> bool \<Rightarrow> nat option \<Rightarrow> bool \<Rightarrow> ('c, 'r) softhsm
     \<Rightarrow> ck_rv \<times> slot_list \<times> ('c, 'r) softhsm" where
  "C_GetSlotList cx r tokenCount tokenPresent room pulCount st =
     (if \<not> hs_initialised st then (CKR_CRYPTOKI_NOT_INITIALIZED, \<lparr>sl_count = 0, sl_ids = None\<rparr>, st)
      else if hs_rutoken st then
        (if \<not> pulCount then (CKR_ARGUMENTS_BAD, \<lparr>sl_count = 0, sl_ids = None\<rparr>, st)
         else
           (let (_, _, slots) = getSlotList cx r tokenCount False None True (hs_slots st);
                (n, slots) = (if tokenPresent then fakeRutokenPresentCount slots else (FAKE_RUTOKEN_SLOT_COUNT, slots));
                st = st\<lparr>hs_slots := slots\<rparr>
            in case room of
                 None \<Rightarrow> (CKR_OK, \<lparr>sl_count = n, sl_ids = None\<rparr>, st)
               | Some m \<Rightarrow>
                   if m < n then (CKR_BUFFER_TOO_SMALL, \<lparr>sl_count = n, sl_ids = None\<rparr>, st)
                   else (CKR_OK, \<lparr>sl_count = n, sl_ids = Some (map of_nat [0..<n] @ replicate (m - n) 0)\<rparr>, st)))
      else
        (let (rv, sl, slots) = getSlotList cx r tokenCount tokenPresent room pulCount (hs_slots st)
         in (rv, sl, st\<lparr>hs_slots := slots\<rparr>)))"

section \<open>Tokens and PINs\<close>

definition C_InitToken ::
  "('c, 'd, 'r) crypto \<Rightarrow> string option \<Rightarrow> token_store \<Rightarrow> ulong \<Rightarrow> bytes option \<Rightarrow> bytes option \<Rightarrow> ('c, 'r) softhsm
     \<Rightarrow> ck_rv option \<times> ('c, 'r) softhsm" where
  "C_InitToken cx requested objectStore slotID pPin pLabel st =
     (if \<not> hs_initialised st then (Some CKR_CRYPTOKI_NOT_INITIALIZED, st)
      else
        (case resolve_slot slotID st of
           (Inl rv, st) \<Rightarrow> (Some rv, st)
         | (Inr (_, None), st) \<Rightarrow> (Some CKR_SLOT_ID_INVALID, st)
         | (Inr (backing, Some (sid, tk)), st) \<Rightarrow>
             if haveSession backing (hs_sm st) then (Some CKR_SESSION_EXISTS, st)
             else
               (let (policy, tk) = (if hs_rutoken st \<and> isInitialized tk then map_prod Some (\<lambda>x. x) (tk_getPinPolicy tk) else (None, tk));
                    st = put_slot sid tk st
                in if policy = Some None then (Some CKR_DEVICE_ERROR, st)
                   else if policy \<noteq> None \<and> changeUserPINPolicy (the (the policy)) AND TOKEN_FLAGS_ADMIN_CHANGE_USER_PIN = 0
                   then (Some CKR_FUNCTION_REJECTED, st)
                   else
                     (case pPin of
                        None \<Rightarrow> (Some CKR_ARGUMENTS_BAD, st)
                      | Some soPIN \<Rightarrow>
                          (let wasInitialised = isInitialized tk;
                               (rv, tk) = slot_initToken cx requested objectStore soPIN pLabel tk;
                               st = put_slot sid tk st
                           in (rv, if rv = Some CKR_OK \<and> \<not> wasInitialised
                                   then st\<lparr>hs_events := postSlotEvent slotID (hs_events st)\<rparr> else st))))))"

definition C_InitPIN ::
  "('c, 'd, 'r) crypto \<Rightarrow> ulong \<Rightarrow> bytes option \<Rightarrow> ('c, 'r) softhsm \<Rightarrow> ck_rv option \<times> ('c, 'r) softhsm" where
  "C_InitPIN cx hSession pPin st =
     (if \<not> hs_initialised st then (Some CKR_CRYPTOKI_NOT_INITIALIZED, st)
      else
        (case find_session hSession st of
           None \<Rightarrow> (Some CKR_SESSION_HANDLE_INVALID, st)
         | Some (p, s, tk) \<Rightarrow>
             if getState tk s \<noteq> CKS_RW_SO_FUNCTIONS then (Some CKR_USER_NOT_LOGGED_IN, st)
             else
               (case pPin of
                  None \<Rightarrow> (Some CKR_ARGUMENTS_BAD, st)
                | Some userPIN \<Rightarrow>
                    (case tk_getPinPolicy tk of
                       (None, tk) \<Rightarrow> (Some CKR_DEVICE_ERROR, put_slot (se_slot s) tk st)
                     | (Some policy, tk) \<Rightarrow>
                         if hs_rutoken st \<and> changeUserPINPolicy policy AND TOKEN_FLAGS_ADMIN_CHANGE_USER_PIN = 0
                         then (Some CKR_USER_NOT_LOGGED_IN, put_slot (se_slot s) tk st)
                         else if length userPIN < unat (minLength policy) \<or> length userPIN > unat (maxLength policy)
                         then (Some CKR_PIN_LEN_RANGE, put_slot (se_slot s) tk st)
                         else (let (rv, tk) = initUserPIN cx userPIN tk in (rv, put_slot (se_slot s) tk st))))))"

definition C_SetPIN ::
  "('c, 'd, 'r) crypto \<Rightarrow> ulong \<Rightarrow> bytes option \<Rightarrow> bytes option \<Rightarrow> ('c, 'r) softhsm \<Rightarrow> ck_rv \<times> ('c, 'r) softhsm" where
  "C_SetPIN cx hSession pOldPin pNewPin st =
     (if \<not> hs_initialised st then (CKR_CRYPTOKI_NOT_INITIALIZED, st)
      else
        (case find_session hSession st of
           None \<Rightarrow> (CKR_SESSION_HANDLE_INVALID, st)
         | Some (p, s, tk) \<Rightarrow>
             (case (pOldPin, pNewPin) of
                (Some oldPIN, Some newPIN) \<Rightarrow>
                  (case tk_getPinPolicy tk of
                     (None, tk) \<Rightarrow> (CKR_DEVICE_ERROR, put_slot (se_slot s) tk st)
                   | (Some policy, tk) \<Rightarrow>
                       (let st = put_slot (se_slot s) tk st;
                            changingSO = (getState tk s = CKS_RW_SO_FUNCTIONS)
                        in if hs_rutoken st \<and> \<not> changingSO \<and> changeUserPINPolicy policy AND TOKEN_FLAGS_USER_CHANGE_USER_PIN = 0
                           then (CKR_USER_NOT_LOGGED_IN, st)
                           else if length newPIN < unat (if changingSO then minSOLength policy else minLength policy)
                             \<or> length newPIN > unat (maxLength policy)
                           then (CKR_PIN_LEN_RANGE, st)
                           else if getState tk s = CKS_RW_PUBLIC_SESSION \<or> getState tk s = CKS_RW_USER_FUNCTIONS
                           then on_token s (tk_setUserPIN cx oldPIN newPIN) tk st
                           else if getState tk s = CKS_RW_SO_FUNCTIONS then on_token s (tk_setSOPIN cx oldPIN newPIN) tk st
                           else (CKR_SESSION_READ_ONLY, st)))
              | _ \<Rightarrow> (CKR_ARGUMENTS_BAD, st))))"

section \<open>Sessions\<close>

definition C_OpenSession ::
  "addr \<Rightarrow> ulong \<Rightarrow> ulong \<Rightarrow> bool \<Rightarrow> ('c, 'r) softhsm \<Rightarrow> (ck_rv + ulong) \<times> ('c, 'r) softhsm" where
  "C_OpenSession a slotID flags phSession st =
     (if \<not> hs_initialised st then (Inl CKR_CRYPTOKI_NOT_INITIALIZED, st)
      else
        (case resolve_slot slotID st of
           (Inl rv, st) \<Rightarrow> (Inl rv, st)
         | (Inr (backing, slot), st) \<Rightarrow>
             (case sm_openSession a slot flags phSession (hs_sm st) of
                (Inl rv, sm) \<Rightarrow> (Inl rv, st\<lparr>hs_sm := sm\<rparr>)
              | (Inr handle, sm) \<Rightarrow>
                  (let session = sm_getSession handle sm;
                       st = st\<lparr>hs_sm := sm\<rparr>
                   in if session = 0 then (Inl CKR_SESSION_HANDLE_INVALID, st)
                      else (let (h, hm) = addSession (hs_hm st) backing session in (Inr h, st\<lparr>hs_hm := hm\<rparr>))))))"

definition C_CloseSession :: "ulong \<Rightarrow> ('c, 'r) softhsm \<Rightarrow> ck_rv \<times> ('c, 'r) softhsm" where
  "C_CloseSession hSession st =
     (if \<not> hs_initialised st then (CKR_CRYPTOKI_NOT_INITIALIZED, st)
      else
        (case find_session hSession st of
           None \<Rightarrow> (CKR_SESSION_HANDLE_INVALID, st)
         | Some (p, s, tk) \<Rightarrow>
             (let (hm, released) = hm_sessionClosed (hs_hm st) hSession;
                  store = fold release released (hs_store st);
                  store = ss_sessionClosed hSession store;
                  (rv, sm, slots) = sm_closeSession (se_hSession s) (hs_sm st) (hs_slots st)
              in (rv, st\<lparr>hs_hm := hm, hs_store := store, hs_sm := sm, hs_slots := slots\<rparr>))))"

definition C_CloseAllSessions :: "ulong \<Rightarrow> ('c, 'r) softhsm \<Rightarrow> ck_rv \<times> ('c, 'r) softhsm" where
  "C_CloseAllSessions slotID st =
     (if \<not> hs_initialised st then (CKR_CRYPTOKI_NOT_INITIALIZED, st)
      else
        (case resolve_slot slotID st of
           (Inl rv, st) \<Rightarrow> (rv, st)
         | (Inr (_, None), st) \<Rightarrow> (CKR_SLOT_ID_INVALID, st)
         | (Inr (backing, Some (sid, tk)), st) \<Rightarrow>
             (let (hm, released) = hm_allSessionsClosed (hs_hm st) backing;
                  store = fold release released (hs_store st);
                  store = ss_allSessionsClosed backing store;
                  (rv, sm, slots) = sm_closeAllSessions (Some sid) (hs_sm st) (hs_slots st)
              in (rv, st\<lparr>hs_hm := hm, hs_store := store, hs_sm := sm, hs_slots := slots\<rparr>))))"

definition C_GetSessionInfo :: "ulong \<Rightarrow> bool \<Rightarrow> ('c, 'r) softhsm \<Rightarrow> (ck_rv + session_info) \<times> ('c, 'r) softhsm" where
  "C_GetSessionInfo hSession pInfo st =
     (if \<not> hs_initialised st then (Inl CKR_CRYPTOKI_NOT_INITIALIZED, st)
      else
        (case find_session hSession st of
           None \<Rightarrow> (Inl CKR_SESSION_HANDLE_INVALID, st)
         | Some (p, s, tk) \<Rightarrow>
             if \<not> pInfo then (Inl CKR_ARGUMENTS_BAD, st)
             else
               (let info = getInfo tk s
                in if hs_rutoken st
                   then (let (facade, slots) = fakeRutokenFacadeSlotID (si_slotID info) (hs_slots st)
                         in (Inr (if facade \<noteq> CK_UNAVAILABLE_INFORMATION then info\<lparr>si_slotID := facade\<rparr> else info),
                             st\<lparr>hs_slots := slots\<rparr>))
                   else (Inr info, st))))"

section \<open>Logins\<close>

definition CKU_SO :: ulong where "CKU_SO = 0"
definition CKU_USER :: ulong where "CKU_USER = 1"
definition CKU_CONTEXT_SPECIFIC :: ulong where "CKU_CONTEXT_SPECIFIC = 2"

definition C_Login ::
  "('c, 'd, 'r) crypto \<Rightarrow> ulong \<Rightarrow> ulong \<Rightarrow> bytes option \<Rightarrow> ('c, 'r) softhsm \<Rightarrow> ck_rv \<times> ('c, 'r) softhsm" where
  "C_Login cx hSession userType pPin st =
     (if \<not> hs_initialised st then (CKR_CRYPTOKI_NOT_INITIALIZED, st)
      else
        (case find_session hSession st of
           None \<Rightarrow> (CKR_SESSION_HANDLE_INVALID, st)
         | Some (p, s, tk) \<Rightarrow>
             (case pPin of
                None \<Rightarrow> (CKR_ARGUMENTS_BAD, st)
              | Some pin \<Rightarrow>
                  if userType = CKU_SO then
                    (if haveROSession (se_slot s) (hs_sm st) then (CKR_SESSION_READ_ONLY_EXISTS, st)
                     else on_token s (loginSO cx pin) tk st)
                  else if userType = CKU_USER then on_token s (loginUser cx pin) tk st
                  else if userType = CKU_CONTEXT_SPECIFIC then
                    (if \<not> se_reAuthentication s then (CKR_OPERATION_NOT_INITIALIZED, st)
                     else
                       (let (rv, st) = on_token s (reAuthenticate cx pin) tk st
                        in (rv, if rv = CKR_OK then put_session p (s\<lparr>se_reAuthentication := False\<rparr>) st else st)))
                  else (CKR_USER_TYPE_INVALID, st))))"

definition C_Logout :: "ulong \<Rightarrow> ('c, 'r) softhsm \<Rightarrow> ck_rv \<times> ('c, 'r) softhsm" where
  "C_Logout hSession st =
     (if \<not> hs_initialised st then (CKR_CRYPTOKI_NOT_INITIALIZED, st)
      else
        (case find_session hSession st of
           None \<Rightarrow> (CKR_SESSION_HANDLE_INVALID, st)
         | Some (p, s, tk) \<Rightarrow>
             (let slotID = se_slot s;
                  st = put_slot slotID (tk_logout tk) st;
                  (hm, released) = hm_tokenLoggedOut (hs_hm st) slotID;
                  store = fold release released (hs_store st);
                  store = ss_tokenLoggedOut slotID store
              in (CKR_OK, st\<lparr>hs_hm := hm, hs_store := store\<rparr>))))"

section \<open>Vendor functions of the Rutoken profile\<close>

record init_param =
  ulSizeofThisStructure :: ulong
  UseRepairMode :: ulong
  pNewAdminPin :: "bytes option"
  ulNewAdminPinLen :: ulong
  pNewUserPin :: "bytes option"
  ulNewUserPinLen :: ulong
  ChangeUserPINPolicy :: ulong
  ulMinAdminPinLen :: ulong
  ulMinUserPinLen :: ulong
  ulMaxAdminRetryCount :: ulong
  ulMaxUserRetryCount :: ulong
  pTokenLabel :: "bytes option"
  ulTokenLabelLen :: ulong
  ulSmMode :: ulong

text \<open>The checks of the parameters; the structure has fourteen members of eight bytes.\<close>

definition init_param_ok :: "init_param \<Rightarrow> bool" where
  "init_param_ok p \<longleftrightarrow>
     ulSizeofThisStructure p = 112 \<and> pNewAdminPin p \<noteq> None \<and> pNewUserPin p \<noteq> None
     \<and> \<not> (ulMinAdminPinLen p < 6 \<or> ulMinAdminPinLen p > 32 \<or> ulMinUserPinLen p < 6 \<or> ulMinUserPinLen p > 32)
     \<and> \<not> (ulNewAdminPinLen p < ulMinAdminPinLen p \<or> ulNewAdminPinLen p > 32
          \<or> ulNewUserPinLen p < ulMinUserPinLen p \<or> ulNewUserPinLen p > 32)
     \<and> \<not> (ulMaxAdminRetryCount p < 3 \<or> ulMaxAdminRetryCount p > 10 \<or> ulMaxUserRetryCount p < 3 \<or> ulMaxUserRetryCount p > 10)
     \<and> ChangeUserPINPolicy p AND 3 \<noteq> 0 \<and> ChangeUserPINPolicy p AND NOT 3 = 0
     \<and> \<not> (ulTokenLabelLen p > 32 \<or> pTokenLabel p = None \<and> ulTokenLabelLen p \<noteq> 0) \<and> ulSmMode p = 0"

definition init_param_policy :: "init_param \<Rightarrow> pin_policy" where
  "init_param_policy p =
     \<lparr>minLength = ucast (ulMinUserPinLen p), minSOLength = ucast (ulMinAdminPinLen p), maxLength = 32,
      changeUserPINPolicy = ucast (ChangeUserPINPolicy p),
      maxSO = ucast (ulMaxAdminRetryCount p), maxUser = ucast (ulMaxUserRetryCount p),
      leftSO = ucast (ulMaxAdminRetryCount p), leftUser = ucast (ulMaxUserRetryCount p)\<rparr>"

definition init_param_label :: "init_param \<Rightarrow> bytes" where
  "init_param_label p =
     (let n = unat (ulTokenLabelLen p)
      in (if n \<noteq> 0 then take n (the (pTokenLabel p)) else []) @ replicate (32 - n) 32)"

definition C_EX_InitToken ::
  "('c, 'd, 'r) crypto \<Rightarrow> token_store \<Rightarrow> ulong \<Rightarrow> bytes option \<Rightarrow> ulong \<Rightarrow> init_param option \<Rightarrow> ('c, 'r) softhsm
     \<Rightarrow> ck_rv \<times> ('c, 'r) softhsm" where
  "C_EX_InitToken cx objectStore slotID pPin ulPinLen pInitInfo st =
     (if \<not> hs_initialised st then (CKR_CRYPTOKI_NOT_INITIALIZED, st)
      else if \<not> hs_rutoken st then (CKR_FUNCTION_NOT_SUPPORTED, st)
      else
        (case resolve_slot slotID st of
           (Inl rv, st) \<Rightarrow> (rv, st)
         | (Inr (_, None), st) \<Rightarrow> (CKR_SLOT_ID_INVALID, st)
         | (Inr (backing, Some (sid, tk)), st) \<Rightarrow>
             if haveSession backing (hs_sm st) then (CKR_SESSION_EXISTS, st)
             else
               (case pInitInfo of
                  None \<Rightarrow> (CKR_ARGUMENTS_BAD, st)
                | Some p \<Rightarrow>
                    if \<not> init_param_ok p \<or> pPin = None \<and> ulPinLen \<noteq> 0 then (CKR_ARGUMENTS_BAD, st)
                    else
                      (let soPIN = (case pPin of None \<Rightarrow> [] | Some b \<Rightarrow> take (unat ulPinLen) b);
                           newSOPIN = take (unat (ulNewAdminPinLen p)) (the (pNewAdminPin p));
                           newUserPIN = take (unat (ulNewUserPinLen p)) (the (pNewUserPin p));
                           wasInitialised = isInitialized tk;
                           (rv, tk) = initTokenExtended cx objectStore (UseRepairMode p \<noteq> 0) soPIN newSOPIN newUserPIN
                             (init_param_policy p) (Some (init_param_label p)) tk;
                           st = put_slot sid tk st
                       in (rv, if rv = CKR_OK \<and> \<not> wasInitialised
                               then st\<lparr>hs_events := postSlotEvent slotID (hs_events st)\<rparr> else st)))))"

definition C_EX_UnblockUserPIN :: "ulong \<Rightarrow> ('c, 'r) softhsm \<Rightarrow> ck_rv \<times> ('c, 'r) softhsm" where
  "C_EX_UnblockUserPIN hSession st =
     (if \<not> hs_initialised st then (CKR_CRYPTOKI_NOT_INITIALIZED, st)
      else if \<not> hs_rutoken st then (CKR_FUNCTION_NOT_SUPPORTED, st)
      else
        (case find_session hSession st of
           None \<Rightarrow> (CKR_SESSION_HANDLE_INVALID, st)
         | Some (p, s, tk) \<Rightarrow>
             if getState tk s \<noteq> CKS_RW_SO_FUNCTIONS then (CKR_USER_NOT_LOGGED_IN, st)
             else on_token s unblockUserPIN tk st))"

definition C_EX_SetTokenName :: "ulong \<Rightarrow> bytes option \<Rightarrow> ulong \<Rightarrow> ('c, 'r) softhsm \<Rightarrow> ck_rv \<times> ('c, 'r) softhsm" where
  "C_EX_SetTokenName hSession pLabel ulLabelLen st =
     (if \<not> hs_initialised st then (CKR_CRYPTOKI_NOT_INITIALIZED, st)
      else if \<not> hs_rutoken st then (CKR_FUNCTION_NOT_SUPPORTED, st)
      else
        (case find_session hSession st of
           None \<Rightarrow> (CKR_SESSION_HANDLE_INVALID, st)
         | Some (p, s, tk) \<Rightarrow>
             if getState tk s = CKS_RO_PUBLIC_SESSION \<or> getState tk s = CKS_RO_USER_FUNCTIONS then (CKR_SESSION_READ_ONLY, st)
             else if getState tk s \<noteq> CKS_RW_USER_FUNCTIONS then (CKR_USER_NOT_LOGGED_IN, st)
             else if pLabel = None \<and> ulLabelLen \<noteq> 0 then (CKR_ARGUMENTS_BAD, st)
             else on_token s (tk_setTokenName (if ulLabelLen \<noteq> 0 then take (unat ulLabelLen) (the pLabel) else [])) tk st))"

definition C_EX_SetLicense :: "ulong \<Rightarrow> ulong \<Rightarrow> bytes option \<Rightarrow> ulong \<Rightarrow> ('c, 'r) softhsm \<Rightarrow> ck_rv \<times> ('c, 'r) softhsm" where
  "C_EX_SetLicense hSession ulLicenseNum pLicense ulLicenseLen st =
     (if \<not> hs_initialised st then (CKR_CRYPTOKI_NOT_INITIALIZED, st)
      else if \<not> hs_rutoken st then (CKR_FUNCTION_NOT_SUPPORTED, st)
      else
        (case find_session hSession st of
           None \<Rightarrow> (CKR_SESSION_HANDLE_INVALID, st)
         | Some (p, s, tk) \<Rightarrow>
             if getState tk s = CKS_RO_PUBLIC_SESSION \<or> getState tk s = CKS_RO_USER_FUNCTIONS then (CKR_SESSION_READ_ONLY, st)
             else if getState tk s \<noteq> CKS_RW_USER_FUNCTIONS \<and> getState tk s \<noteq> CKS_RW_SO_FUNCTIONS then (CKR_USER_NOT_LOGGED_IN, st)
             else if ulLicenseNum < 1 \<or> ulLicenseNum > 4 \<or> pLicense = None \<or> ulLicenseLen \<noteq> 72 then (CKR_ARGUMENTS_BAD, st)
             else on_token s (tk_setLicense ulLicenseNum (take 72 (the pLicense))) tk st))"

definition C_EX_SetLocalPIN ::
  "('c, 'd, 'r) crypto \<Rightarrow> ulong \<Rightarrow> bytes option \<Rightarrow> bytes option \<Rightarrow> ulong \<Rightarrow> ('c, 'r) softhsm \<Rightarrow> ck_rv \<times> ('c, 'r) softhsm" where
  "C_EX_SetLocalPIN cx slotID pUserPin pNewLocalPin ulLocalID st =
     (if \<not> hs_initialised st then (CKR_CRYPTOKI_NOT_INITIALIZED, st)
      else if \<not> hs_rutoken st then (CKR_FUNCTION_NOT_SUPPORTED, st)
      else
        (let (layout, slots) = fakeRutokenLayout (hs_slots st);
             st = st\<lparr>hs_slots := slots\<rparr>
         in if unat slotID \<ge> length layout
            then (if unat slotID < FAKE_RUTOKEN_SLOT_COUNT then CKR_TOKEN_NOT_PRESENT else CKR_SLOT_ID_INVALID, st)
            else
              (let (slot, slots) = fakeRutokenSlot slotID slots;
                   st = st\<lparr>hs_slots := slots\<rparr>
               in case slot of
                    None \<Rightarrow> (CKR_TOKEN_NOT_PRESENT, st)
                  | Some (sid, tk) \<Rightarrow>
                      (case (pUserPin, pNewLocalPin) of
                         (Some currentPIN, Some newPIN) \<Rightarrow>
                           if ulLocalID < 3 \<or> ulLocalID > 31 \<or> length newPIN = 0 \<or> length newPIN > 249 then (CKR_ARGUMENTS_BAD, st)
                           else (let (rv, tk) = setLocalPIN cx ulLocalID currentPIN newPIN tk in (rv, put_slot sid tk st))
                       | _ \<Rightarrow> (CKR_ARGUMENTS_BAD, st)))))"

text \<open>The modes of \<open>C_EX_TokenManage\<close>: force the user to change the PIN, return to the standard PIN.\<close>

definition MODE_FORCE_USER_TO_CHANGE_PIN :: ulong where "MODE_FORCE_USER_TO_CHANGE_PIN = 0x6"
definition MODE_RESET_CUSTOM_PIN_TO_STANDARD :: ulong where "MODE_RESET_CUSTOM_PIN_TO_STANDARD = 0x3"

definition C_EX_TokenManage :: "ulong \<Rightarrow> ulong \<Rightarrow> ulong option \<Rightarrow> ('c, 'r) softhsm \<Rightarrow> ck_rv \<times> ('c, 'r) softhsm" where
  "C_EX_TokenManage hSession ulMode pValue st =
     (if \<not> hs_initialised st then (CKR_CRYPTOKI_NOT_INITIALIZED, st)
      else if \<not> hs_rutoken st then (CKR_FUNCTION_NOT_SUPPORTED, st)
      else
        (case find_session hSession st of
           None \<Rightarrow> (CKR_SESSION_HANDLE_INVALID, st)
         | Some (p, s, tk) \<Rightarrow>
             if ulMode \<noteq> MODE_FORCE_USER_TO_CHANGE_PIN \<and> ulMode \<noteq> MODE_RESET_CUSTOM_PIN_TO_STANDARD
             then (CKR_FUNCTION_NOT_SUPPORTED, st)
             else if getState tk s \<noteq> CKS_RW_SO_FUNCTIONS then (CKR_USER_NOT_LOGGED_IN, st)
             else if pValue \<noteq> Some CKU_USER then (CKR_ARGUMENTS_BAD, st)
             else if ulMode = MODE_FORCE_USER_TO_CHANGE_PIN then on_token s forceUserPINChange tk st
             else (CKR_OK, st)))"

section \<open>Reading the results of a search\<close>

definition C_FindObjects ::
  "ulong \<Rightarrow> bool \<Rightarrow> ulong \<Rightarrow> bool \<Rightarrow> ('c, 'r) softhsm \<Rightarrow> (ck_rv + ulong list) \<times> ('c, 'r) softhsm" where
  "C_FindObjects hSession phObject ulMaxObjectCount pulObjectCount st =
     (if \<not> hs_initialised st then (Inl CKR_CRYPTOKI_NOT_INITIALIZED, st)
      else if \<not> phObject \<or> \<not> pulObjectCount then (Inl CKR_ARGUMENTS_BAD, st)
      else
        (case find_session hSession st of
           None \<Rightarrow> (Inl CKR_SESSION_HANDLE_INVALID, st)
         | Some (p, s, tk) \<Rightarrow>
             if se_operation s \<noteq> SESSION_OP_FIND then (Inl CKR_OPERATION_NOT_INITIALIZED, st)
             else
               (case se_findOp s of
                  None \<Rightarrow> (Inl CKR_GENERAL_ERROR, st)
                | Some hs \<Rightarrow>
                    (let found = retrieveHandles hs ulMaxObjectCount;
                         (_, rest) = eraseHandles hs 0 (of_nat (length found))
                     in (Inr found, put_session p (setFindOp (Some rest) s) st)))))"

definition C_FindObjectsFinal :: "ulong \<Rightarrow> ('c, 'r) softhsm \<Rightarrow> ck_rv \<times> ('c, 'r) softhsm" where
  "C_FindObjectsFinal hSession st =
     (if \<not> hs_initialised st then (CKR_CRYPTOKI_NOT_INITIALIZED, st)
      else
        (case find_session hSession st of
           None \<Rightarrow> (CKR_SESSION_HANDLE_INVALID, st)
         | Some (p, s, tk) \<Rightarrow>
             if se_operation s \<noteq> SESSION_OP_FIND then (CKR_OPERATION_NOT_INITIALIZED, st)
             else (CKR_OK, put_session p (snd (resetOp s)) st)))"

end
