(* ===== verification/Store_Sync.thy ===== *)
theory Store_Sync
  imports Handle_Mgr Session_Objects
begin

text \<open>
  The handle manager and the store of session objects together. \<^verbatim>\<open>SoftHSM.cpp\<close> closes
  sessions and logs out by calling first the one and then the other; \<open>store_ok\<close> says what
  they agree on: the reference count of every session object is exactly what the store
  and the handle table hold; a handle of a session object leads to an object that the store
  lists, with the same slot, session and privacy; a listed object belongs to a session
  with a handle.

  The interface \<open>joint_cleanup\<close> joins the contracts of both components and shows once that
  the two calls keep the agreement; it is interpreted on the three pairs of functions.
\<close>

definition session_entry :: "table \<Rightarrow> ulong \<Rightarrow> ulong \<Rightarrow> bool" where
  "session_entry t h slot \<longleftrightarrow> (\<exists>sd. t h = Some sd \<and> h_kind sd = CKH_SESSION \<and> h_slotID sd = slot)"

definition object_entry :: "handle \<Rightarrow> bool" where
  "object_entry e \<longleftrightarrow> h_kind e = CKH_OBJECT \<and> h_hSession e \<noteq> CK_INVALID_HANDLE"

definition same_object :: "handle \<Rightarrow> session_object \<Rightarrow> bool" where
  "same_object e x \<longleftrightarrow> so_slotID x = h_slotID e \<and> so_hSession x = h_hSession e \<and> so_isPrivate x = h_isPrivate e"

definition references :: "table \<Rightarrow> addr \<Rightarrow> nat" where
  "references t a = of_bool (held t a)"

definition store_ok :: "table \<Rightarrow> session_store \<Rightarrow> bool" where
  "store_ok t st \<longleftrightarrow> refs_ok st (references t)
     \<and> (\<forall>h e. t h = Some e \<and> object_entry e \<longrightarrow>
          h_object e \<in> set (ss_objects st) \<and> (\<exists>x. omap_find (ss_heap st) (h_object e) = Some x \<and> same_object e x))
     \<and> (\<forall>a x. a \<in> set (ss_objects st) \<and> omap_find (ss_heap st) a = Some x \<longrightarrow> session_entry t (so_hSession x) (so_slotID x))"

lemma store_okD:
  assumes "store_ok t st"
  shows "refs_ok st (references t)"
    "t h = Some e \<Longrightarrow> object_entry e \<Longrightarrow> h_object e \<in> set (ss_objects st)"
    "t h = Some e \<Longrightarrow> object_entry e \<Longrightarrow> \<exists>x. omap_find (ss_heap st) (h_object e) = Some x \<and> same_object e x"
    "a \<in> set (ss_objects st) \<Longrightarrow> omap_find (ss_heap st) a = Some x \<Longrightarrow> session_entry t (so_hSession x) (so_slotID x)"
  using assms unfolding store_ok_def by blast+

lemma held_entry: "held t a \<longleftrightarrow> (\<exists>h e. t h = Some e \<and> object_entry e \<and> h_object e = a)"
  by (auto simp: held_def object_entry_def)

text \<open>No object in memory is forgotten: everything on the heap is listed and valid.\<close>

lemma store_ok_listed:
  assumes "store_ok t st" "omap_find (ss_heap st) a = Some x"
  shows "a \<in> set (ss_objects st) \<and> so_valid x"
proof -
  note r = refs_okD(3) [OF store_okD(1) [OF assms(1)], of a]
  have "a \<in> set (ss_objects st)"
  proof (rule ccontr)
    assume n: "a \<notin> set (ss_objects st)"
    with r assms(2) have "held t a" by (auto simp: ref_ok_def references_def split: if_splits)
    with n show False using store_okD(2) [OF assms(1)] by (auto simp: held_entry)
  qed
  with r assms(2) show ?thesis by (simp add: ref_ok_def)
qed

section \<open>The two calls together\<close>

locale joint_cleanup = table_cleanup cleanup spec + store_sweep close gone remove
  for cleanup :: "handle_manager \<Rightarrow> handle_manager \<times> addr list" and spec :: "table \<Rightarrow> table"
    and close :: "session_store \<Rightarrow> session_store" and gone :: "session_object \<Rightarrow> bool"
    and remove :: "session_object \<Rightarrow> bool \<times> session_object" +
  assumes gone_refs: "gone (x\<lparr>so_refCount := n\<rparr>) = gone x"
    and agree: "hm_inv hm \<Longrightarrow> hview hm h = Some e \<Longrightarrow> object_entry e \<Longrightarrow> same_object e x \<Longrightarrow>
      spec (hview hm) h = None \<longleftrightarrow> gone x"
    and owner: "hm_inv hm \<Longrightarrow> session_entry (hview hm) (so_hSession x) (so_slotID x) \<Longrightarrow> \<not> gone x \<Longrightarrow>
      session_entry (spec (hview hm)) (so_hSession x) (so_slotID x)"
begin

text \<open>After the references of the dropped handles are given back.\<close>

lemma released_refs:
  assumes "hm_inv hm" "store_ok (hview hm) st"
  shows "refs_ok (fold release (snd (cleanup hm)) st) (references (spec (hview hm)))"
proof (rule refs_ok_release_all)
  have "held (spec (hview hm)) a \<Longrightarrow> held (hview hm) a" for a using spec_le held_mono by blast
  then have "references (hview hm) = (\<lambda>a. references (spec (hview hm)) a + of_bool (a \<in> set (snd (cleanup hm))))"
    using released [OF assms(1)] view [OF assms(1)] by (auto simp: references_def fun_eq_iff)
  then show "refs_ok st (\<lambda>a. references (spec (hview hm)) a + of_bool (a \<in> set (snd (cleanup hm))))"
    using store_okD(1) [OF assms(2)] by simp
qed (simp add: once assms(1))

lemma closed:
  assumes "hm_inv hm" "store_ok (hview hm) st"
  shows "store_ok (spec (hview hm)) (close (fold release (snd (cleanup hm)) st))"
    and "ss_objects (close (fold release (snd (cleanup hm)) st)) =
      filter (\<lambda>a. \<forall>x. omap_find (ss_heap st) a = Some x \<longrightarrow> \<not> gone x) (ss_objects st)"
    and "a \<in> set (ss_objects st) \<Longrightarrow> omap_find (ss_heap st) a = Some x \<Longrightarrow> \<not> gone x \<Longrightarrow>
      omap_find (ss_heap (close (fold release (snd (cleanup hm)) st))) a = Some x"
proof -
  let ?t = "hview hm" and ?st = "fold release (snd (cleanup hm)) st"
  note r = released_refs [OF assms] and sw = sweep_refs [OF released_refs [OF assms] count]
  note S = store_okD [OF assms(2)]
  have keep: "h_object e \<notin> set (snd (cleanup hm))" if "spec ?t h = Some e" "object_entry e" for h e
    using released [OF assms(1)] view [OF assms(1)] that by (auto simp: held_entry)
  have alive: "a \<in> set (ss_objects st)" if "a \<in> set (snd (cleanup hm))" for a
    using released [OF assms(1)] that S(2) by (auto simp: held_entry)
  have same: "\<exists>y n. omap_find (ss_heap ?st) a = Some y \<and> y = x\<lparr>so_refCount := n\<rparr>"
    if a: "a \<in> set (ss_objects st)" "omap_find (ss_heap st) a = Some x" for a x
  proof -
    obtain y where y: "omap_find (ss_heap ?st) a = Some y"
      using refs_okD(3) [OF r, of a] a(1) by (auto simp: ref_ok_def split: option.splits)
    with fold_release_same [OF y] a(2) show ?thesis by auto
  qed
  have gone: "removed remove ?st a \<longleftrightarrow> gone x"
    if "a \<in> set (ss_objects st)" "omap_find (ss_heap st) a = Some x" for a x
    using same [OF that] by (auto simp: removed_def remove_def gone_refs)
  have objs: "ss_objects (close ?st) = filter (\<lambda>a. \<forall>x. omap_find (ss_heap st) a = Some x \<longrightarrow> \<not> gone x) (ss_objects st)"
  proof -
    have "(\<not> removed remove ?st a) = (\<forall>x. omap_find (ss_heap st) a = Some x \<longrightarrow> \<not> gone x)"
      if a: "a \<in> set (ss_objects st)" for a
    proof -
      obtain x where "omap_find (ss_heap st) a = Some x"
        using refs_okD(3) [OF S(1), of a] a by (auto simp: ref_ok_def split: option.splits)
      with gone [OF a] show ?thesis by simp
    qed
    then show ?thesis unfolding close_def sw(2) by (simp cong: filter_cong)
  qed
  show "ss_objects (close ?st) = filter (\<lambda>a. \<forall>x. omap_find (ss_heap st) a = Some x \<longrightarrow> \<not> gone x) (ss_objects st)"
    by (rule objs)
  have stays: "\<exists>n. omap_find (ss_heap (close ?st)) a = Some (x\<lparr>so_refCount := n\<rparr>)"
    if "a \<in> set (ss_objects st)" "omap_find (ss_heap st) a = Some x" "\<not> gone x" for a x
    using sw(3) [of a] same [OF that(1, 2)] gone [OF that(1, 2)] that(3) by (auto simp: close_def)
  show stay: "omap_find (ss_heap (close ?st)) a = Some x"
    if a: "a \<in> set (ss_objects st)" "omap_find (ss_heap st) a = Some x" "\<not> gone x" for a x
  proof -
    have "a \<notin> set (snd (cleanup hm))"
    proof
      assume "a \<in> set (snd (cleanup hm))"
      then obtain h e where h: "?t h = Some e" "object_entry e" "h_object e = a" "\<not> held (spec ?t) a"
        using released [OF assms(1)] view [OF assms(1)] by (auto simp: held_entry)
      have "same_object e x" using S(3) [OF h(1, 2)] h(3) a(2) by auto
      with agree [OF assms(1) h(1, 2)] a(3) obtain e' where "spec ?t h = Some e'" by blast
      with spec_le [of ?t h e'] h show False by (auto simp: held_entry)
    qed
    with sw(3) [of a] gone [OF a(1, 2)] a(2, 3) show ?thesis by (simp add: close_def fold_release_other)
  qed
  show "store_ok (spec ?t) (close ?st)"
    unfolding store_ok_def
  proof (intro conjI allI impI)
    show "refs_ok (close ?st) (references (spec ?t))" using sw(1) by (simp add: close_def)
  next
    fix h e assume "spec ?t h = Some e \<and> object_entry e"
    then have h: "spec ?t h = Some e" "?t h = Some e" "object_entry e" using spec_le by blast+
    from S(3) [OF h(2, 3)] obtain x where x: "omap_find (ss_heap st) (h_object e) = Some x" "same_object e x" by blast
    then have "\<not> gone x" using agree [OF assms(1) h(2, 3)] h(1) by auto
    then show "h_object e \<in> set (ss_objects (close ?st))"
      and "\<exists>x. omap_find (ss_heap (close ?st)) (h_object e) = Some x \<and> same_object e x"
      using S(2) [OF h(2, 3)] x stay objs by auto
  next
    fix a x assume ax: "a \<in> set (ss_objects (close ?st)) \<and> omap_find (ss_heap (close ?st)) a = Some x"
    then have a: "a \<in> set (ss_objects st)" unfolding objs by simp
    then obtain y where y: "omap_find (ss_heap st) a = Some y"
      using refs_okD(3) [OF S(1), of a] by (auto simp: ref_ok_def split: option.splits)
    with ax have "\<not> gone y" unfolding objs by simp
    with stay [OF a y] ax have "x = y" by simp
    with owner [OF assms(1) S(4) [OF a y]] \<open>\<not> gone y\<close>
    show "session_entry (spec ?t) (so_hSession x) (so_slotID x)" by simp
  qed
qed

end

text \<open>The three pairs of functions.\<close>

lemma session_entries_live: "hm_inv hm \<Longrightarrow> sessions_live (hview hm)"
  by (rule hm_invE)

lemma session_closed_entries:
  assumes "t s = Some sd" "h_kind sd = CKH_SESSION"
  shows "session_entry (spec_sessionClosed t s) h slot \<longleftrightarrow> session_entry t h slot \<and> h \<noteq> s"
proof
  let ?t1 = "scan_erase (\<lambda>h e. h = s \<or> h_kind e = CKH_OBJECT \<and> h_hSession e = s) t"
  assume "session_entry t h slot \<and> h \<noteq> s"
  then obtain e where e: "t h = Some e" "h_kind e = CKH_SESSION" "h_slotID e = slot" "h \<noteq> s"
    by (auto simp: session_entry_def)
  then have 1: "?t1 h = Some e" by simp
  with e have "h \<in> slot_sessions ?t1 slot" by (auto simp: slot_sessions_def)
  with 1 e assms show "session_entry (spec_sessionClosed t s) h slot"
    unfolding session_entry_def by (intro exI [of _ e]) (auto simp: spec_sessionClosed_def Let_def)
qed (use assms in \<open>auto simp: spec_sessionClosed_def session_entry_def Let_def split: if_splits\<close>)

interpretation close_one: joint_cleanup "\<lambda>hm. hm_sessionClosed hm s" "\<lambda>t. spec_sessionClosed t s"
  "ss_sessionClosed s" "\<lambda>x. so_hSession x = s" "removeOnSessionClose s" for s
proof unfold_locales
  fix hm h e x
  assume i: "hm_inv hm" and h: "hview hm h = Some e" and o: "object_entry e" and x: "same_object e x"
  let ?t = "hview hm"
  obtain sd where sd: "?t (h_hSession e) = Some sd" "h_kind sd = CKH_SESSION" "h_slotID sd = h_slotID e"
    using session_entries_live [OF i] h o by (auto simp: sessions_live_def object_entry_def)
  show "spec_sessionClosed ?t s h = None \<longleftrightarrow> so_hSession x = s"
  proof (cases "\<exists>d. ?t s = Some d \<and> h_kind d = CKH_SESSION")
    case True
    then obtain d where d: "?t s = Some d" "h_kind d = CKH_SESSION" by blast
    let ?t1 = "scan_erase (\<lambda>h e. h = s \<or> h_kind e = CKH_OBJECT \<and> h_hSession e = s) ?t"
    have "h \<noteq> s" using d h o by (auto simp: object_entry_def)
    show ?thesis
    proof (cases "h_hSession e = s")
      case True
      then show ?thesis using d h o x by (auto simp: spec_sessionClosed_def Let_def object_entry_def same_object_def)
    next
      case False
      with sd have "h_hSession e \<in> slot_sessions ?t1 (h_slotID e)" by (auto simp: slot_sessions_def)
      with False \<open>h \<noteq> s\<close> d h x show ?thesis by (auto simp: spec_sessionClosed_def Let_def same_object_def)
    qed
  next
    case False
    then have "spec_sessionClosed ?t s = ?t" by (auto simp: spec_sessionClosed_def split: option.split)
    with False h x sd show ?thesis by (auto simp: same_object_def)
  qed
next
  fix hm x
  assume "hm_inv hm" and e: "session_entry (hview hm) (so_hSession x) (so_slotID x)" and n: "so_hSession x \<noteq> s"
  show "session_entry (spec_sessionClosed (hview hm) s) (so_hSession x) (so_slotID x)"
  proof (cases "\<exists>d. hview hm s = Some d \<and> h_kind d = CKH_SESSION")
    case True
    with session_closed_entries e n show ?thesis by blast
  next
    case False
    then have "spec_sessionClosed (hview hm) s = hview hm" by (auto simp: spec_sessionClosed_def split: option.split)
    with e show ?thesis by simp
  qed
qed simp

interpretation close_slot: joint_cleanup "\<lambda>hm. hm_allSessionsClosed hm slot" "scan_erase (\<lambda>_ e. h_slotID e = slot)"
  "ss_allSessionsClosed slot" "\<lambda>x. so_slotID x = slot" "removeOnAllSessionsClose slot" for slot
  by unfold_locales (auto simp: same_object_def session_entry_def)

interpretation log_out: joint_cleanup "\<lambda>hm. hm_tokenLoggedOut hm slot" "scan_erase (\<lambda>_ e. h_slotID e = slot \<and> private_object e)"
  "ss_tokenLoggedOut slot" "\<lambda>x. so_slotID x = slot \<and> so_isPrivate x" "removeOnTokenLogout slot" for slot
  by unfold_locales (auto simp: same_object_def session_entry_def object_entry_def)

section \<open>Creating and destroying an object\<close>

lemma held_add: "t c = None \<Longrightarrow> object_entry e \<Longrightarrow> held (t(c \<mapsto> e)) b \<longleftrightarrow> b = h_object e \<or> held t b"
  unfolding held_entry by (metis fun_upd_apply option.distinct(1) option.inject)

lemma held_drop:
  assumes "\<And>k d. t k = Some d \<Longrightarrow> object_entry d \<Longrightarrow> h_object d = h_object e \<Longrightarrow> k = h" "t h = Some e"
  shows "held (t(h := None)) b \<longleftrightarrow> held t b \<and> b \<noteq> h_object e"
  unfolding held_entry using assms by (metis fun_upd_apply option.distinct(1) option.inject)

lemma store_ok_create:
  assumes "store_ok t st" "omap_find (ss_heap st) a = None" "t c = None" "session_entry t s slot"
    and "object_entry e" "h_object e = a" "h_slotID e = slot" "h_hSession e = s" "h_isPrivate e = priv"
  shows "store_ok (t(c \<mapsto> e)) (acquire a (ss_createObject a slot s priv st))"
proof -
  let ?st = "ss_createObject a slot s priv st"
  note S = store_okD [OF assms(1)]
  have no: "a \<notin> set (ss_objects st)" using refs_okD(3) [OF S(1), of a] assms(2) by (auto simp: ref_ok_def)
  have nh: "\<not> held t a" using S(2) no by (auto simp: held_entry)
  have r: "references (t(c \<mapsto> e)) = (references t)(a := references t a + 1)"
    using nh held_add [of t c e, OF assms(3, 5)] assms(6) by (auto simp: references_def fun_eq_iff)
  have h: "omap_find (ss_heap (acquire a ?st)) b =
      (if b = a then Some ((SessionObject_new slot s priv)\<lparr>so_refCount := 2\<rparr>) else omap_find (ss_heap st) b)" for b
    by (simp add: acquire_def ss_createObject_def SessionObject_new_def)
  have objs: "set (ss_objects (acquire a ?st)) = insert a (set (ss_objects st))"
    by (simp add: acquire_def ss_createObject_def)
  have "refs_ok (acquire a ?st) (references (t(c \<mapsto> e)))"
    unfolding r by (intro refs_ok_acquire refs_ok_create S(1) assms(2)) (simp add: ss_createObject_def)
  moreover have "session_entry (t(c \<mapsto> e)) l m" if "session_entry t l m" for l m
    using that assms(3) by (auto simp: session_entry_def)
  moreover have "h_object d \<noteq> a" if "t k = Some d" "object_entry d" for k d using nh that by (auto simp: held_entry)
  ultimately show ?thesis
    unfolding store_ok_def objs h
    using S(2, 3, 4) assms(4-9) no by (auto simp: SessionObject_new_def same_object_def)
qed

lemma store_ok_destroy:
  assumes "hm_inv hm" "store_ok (hview hm) st" "hview hm h = Some e" "object_entry e"
  shows "store_ok ((hview hm)(h := None)) (snd (ss_deleteObject (h_object e) (release (h_object e) st)))"
proof -
  let ?t = "hview hm" and ?a = "h_object e"
  let ?st = "snd (ss_deleteObject ?a (release ?a st))"
  note S = store_okD [OF assms(2)]
  have inv: "inverts (omap_find (objects hm)) ?t" using assms(1) by (rule hm_invE)
  have only: "k = h" if "?t k = Some d" "object_entry d" "h_object d = ?a" for k d
    using inverts_unique [OF inv] assms(3, 4) that by (auto simp: object_entry_def)
  have a: "?a \<in> set (ss_objects st)" by (rule S(2) [OF assms(3, 4)])
  have "references ?t ?a = 1" using assms(3, 4) by (auto simp: references_def held_entry)
  moreover have "references (?t(h := None)) = (references ?t)(?a := references ?t ?a - 1)"
    using held_drop [of ?t e h, OF only assms(3)] by (auto simp: references_def fun_eq_iff)
  ultimately have r: "refs_ok ?st (references (?t(h := None)))"
    using refs_ok_release [OF S(1), of ?a] by (simp add: refs_ok_delete)
  have other: "omap_find (ss_heap ?st) b = omap_find (ss_heap st) b" if "b \<noteq> ?a" for b
    using that by (auto simp: ss_deleteObject_def Let_def release_other heap_update_def split: option.split)
  have objs: "set (ss_objects ?st) = set (ss_objects st) - {?a}"
    using a by (simp add: ss_deleteObject_def Let_def heap_update_def split: option.split)
  have keep: "session_entry (?t(h := None)) k l" if "session_entry ?t k l" for k l
    using that assms(3, 4) by (auto simp: session_entry_def object_entry_def)
  have ne: "h_object d \<noteq> ?a" if "?t k = Some d" "object_entry d" "k \<noteq> h" for k d using only that by blast
  show ?thesis
    unfolding store_ok_def objs
    using r S(2, 3, 4) other keep ne by (auto split: if_splits)
qed

text \<open>A change of the attributes.\<close>

lemma store_ok_attributes:
  assumes "store_ok t st"
  shows "store_ok t (heap_update a (\<lambda>x. snd (so_setAttribute type v x)) st)"
proof (cases "omap_find (ss_heap st) a")
  case None
  then show ?thesis using assms by (simp add: heap_update_def)
next
  case (Some x)
  let ?x = "snd (so_setAttribute type v x)"
  let ?st = "st\<lparr>ss_heap := omap_insert a ?x (ss_heap st)\<rparr>"
  have x: "so_slotID ?x = so_slotID x" "so_hSession ?x = so_hSession x" "so_isPrivate ?x = so_isPrivate x"
    "so_refCount ?x = so_refCount x" "so_valid ?x = so_valid x"
    by (simp_all add: so_setAttribute_def)
  note S = store_okD [OF assms] and D = refs_okD [OF store_okD(1) [OF assms]]
  have "refs_ok ?st (references t)"
    using D(1, 2) D(3) [of a] Some x by (intro refs_ok_change [OF S(1), of _ a]) (auto simp: ref_ok_def)
  moreover have "\<exists>y. omap_find (ss_heap ?st) (h_object e) = Some y \<and> same_object e y" if "t k = Some e" "object_entry e" for k e
    using S(3) [OF that] Some x by (cases "h_object e = a") (auto simp: same_object_def)
  moreover have "session_entry t (so_hSession y) (so_slotID y)" if "b \<in> set (ss_objects st)" "omap_find (ss_heap ?st) b = Some y" for b y
    using S(4) [OF that(1)] that(2) Some x by (cases "b = a") auto
  moreover have "ss_objects ?st = ss_objects st" by simp
  ultimately have "store_ok t ?st" unfolding store_ok_def using S(2) by (metis (no_types, lifting))
  then show ?thesis using Some by (simp add: heap_update_def)
qed

end
