(* ===== verification/SO_Login.thy ===== *)
theory SO_Login
  imports Token_Life
begin

text \<open>
  Which operations of a token log the SO in (\<^verbatim>\<open>src/lib/slot_mgr/Token.cpp\<close>). For each one but
  \<open>loginSO\<close>, \<open>createToken\<close> and \<open>initTokenExtended\<close>: if the SO is logged in afterwards, the SO
  was logged in before. The library relies on it for the rule that no read-only session is
  open while the SO is logged in, which only \<open>C_Login\<close> and \<open>C_OpenSession\<close> check.
\<close>

lemma so_simps [simp]:
  "isSOLoggedIn (put_token t tk) = isSOLoggedIn tk" "isSOLoggedIn (put_sdm s tk) = soLoggedIn s"
  "isSOLoggedIn (tk\<lparr>tk_valid := v\<rparr>) = isSOLoggedIn tk" "\<not> isSOLoggedIn (tk_logout tk)"
  "isSOLoggedIn (put_rng r tk) = isSOLoggedIn tk"
  by (simp_all add: isSOLoggedIn_def tk_logout_def sdm_logout_def put_rng_def split: option.split)

lemma so_same: "same_sdm tk tk' \<Longrightarrow> isSOLoggedIn tk' = isSOLoggedIn tk"
  by (simp add: same_sdm_def isSOLoggedIn_def)

lemma so_setUserPIN:
  assumes "rand_sized (cx_rand cx)" "sdm_inv s" "setUserPIN cx pin s = (ok, s')"
  shows "soLoggedIn s' = soLoggedIn s"
  using assms(3) pbeEncryptKey_sound [OF assms(1) _ sdm_inv_left_in [OF assms(2)]]
  by (auto simp: setUserPIN_def same_key_def split: if_splits prod.splits)

lemma so_setSOPIN:
  assumes "rand_sized (cx_rand cx)" "sdm_inv s" "setSOPIN cx pin s = (ok, s')"
  shows "soLoggedIn s' = soLoggedIn s"
proof -
  let ?s0 = "if length (soEncryptedKey s) = 0 then (let (_, key, s) = sdm_random cx 32 s in remask cx key s) else s"
  obtain b bl s1 where p: "pbeEncryptKey cx pin (soEncryptedKey ?s0) ?s0 = (b, bl, s1)"
    by (cases "pbeEncryptKey cx pin (soEncryptedKey ?s0) ?s0")
  have l: "left_in NONE True (sdm_aes ?s0)"
    using sdm_inv_left_in [OF assms(2)] same_key_random by (fastforce simp: remask_facts same_key_def split: prod.splits)
  have so: "soLoggedIn ?s0 = soLoggedIn s"
    by (auto simp: remask_facts same_key_def dest: same_key_random split: prod.splits)
  have "s' = s \<or> s' = s1\<lparr>soEncryptedKey := bl\<rparr>"
    using assms(3) p by (simp add: setSOPIN_def Let_def split: if_splits)
  with pbeEncryptKey_sound [OF assms(1) p l] so show ?thesis by (auto simp: same_key_def)
qed

lemma so_pinResult:
  assumes "tk_pinResult so ok s tk = (rv, tk')"
  shows "isSOLoggedIn tk' \<Longrightarrow> soLoggedIn s"
proof -
  assume "isSOLoggedIn tk'"
  moreover have "s' = s \<or> s' = sdm_logout s" if "pinResult so ok t s = (r, t', s')" for t r t' s'
    using pinResult_rv [OF that] by blast
  ultimately show ?thesis using assms by (fastforce simp: tk_pinResult_def split: option.splits prod.splits)
qed

lemma so_loginUser:
  assumes "loginUser cx pin tk = (rv, tk')" "isSOLoggedIn tk'"
  shows "isSOLoggedIn tk"
proof (cases "tk_sdm tk")
  case None
  with assms show ?thesis by (auto simp: loginUser_def isSOLoggedIn_def)
next
  case (Some s)
  obtain l tk1 where l: "pinLocked False tk = (l, tk1)" by (cases "pinLocked False tk")
  obtain ok s1 where o: "sdm_loginUser cx pin s = (ok, s1)" by (cases "sdm_loginUser cx pin s")
  have "\<not> isSOLoggedIn b" if "tk_pinResult False ok s1 tk1 = (a, b)" for a b
    using so_pinResult [OF that] sdm_loginUser_fields [OF o] by blast
  with assms Some l o so_same [OF same_pinLocked [OF l]] show ?thesis
    by (auto simp: loginUser_def split: if_splits)
qed

lemma so_reAuthenticate:
  assumes "reAuthenticate cx pin tk = (rv, tk')" "isSOLoggedIn tk'"
  shows "isSOLoggedIn tk"
proof (cases "tk_sdm tk")
  case None
  with assms show ?thesis by (auto simp: reAuthenticate_def isSOLoggedIn_def)
next
  case (Some s)
  have r: "soLoggedIn s1 = soLoggedIn s" if "sdm_reAuthenticate cx pin blob s = (ok, s1)" for blob ok s1
  proof -
    obtain a where "snd (open_blob cx pin blob s) = s\<lparr>sdm_aes := a\<rparr>" using open_blob_aes by blast
    then show ?thesis using that by (auto simp: sdm_reAuthenticate_def split: prod.splits option.splits)
  qed
  show ?thesis
  proof (rule ccontr)
    assume n: "\<not> isSOLoggedIn tk"
    then have u: "\<not> soLoggedIn s" using Some by (simp add: isSOLoggedIn_def)
    obtain l tk1 where l: "pinLocked False tk = (l, tk1)" by (cases "pinLocked False tk")
    obtain ok s1 where o: "reAuthenticateUser cx pin s = (ok, s1)" by (cases "reAuthenticateUser cx pin s")
    have "\<not> isSOLoggedIn b" if "tk_pinResult False ok s1 tk1 = (a, b)" for a b
      using so_pinResult [OF that] r [of "userEncryptedKey s" ok s1] o u by (auto simp: reAuthenticateUser_def)
    with assms Some u n l o so_same [OF same_pinLocked [OF l]] show False
      by (auto simp: reAuthenticate_def split: if_splits)
  qed
qed

lemma so_tk_setSOPIN:
  assumes "rand_sized (cx_rand cx)" "tk_inv tk" "tk_setSOPIN cx old new tk = (rv, tk')" "isSOLoggedIn tk'"
  shows "isSOLoggedIn tk"
proof (cases "tk_sdm tk")
  case None
  with assms(3, 4) show ?thesis by (auto simp: tk_setSOPIN_def isSOLoggedIn_def)
next
  case (Some s)
  obtain l tk1 where l: "pinLocked True tk = (l, tk1)" by (cases "pinLocked True tk")
  note s1 = so_same [OF same_pinLocked [OF l]]
  obtain r v where r: "sdm_loginSO cx old (verifier cx s) = (r, v)" by (cases "sdm_loginSO cx old (verifier cx s)")
  let ?s = "s\<lparr>sdm_rng := sdm_rng v\<rparr>"
  obtain ok s2 where o: "setSOPIN cx new ?s = (ok, s2)" by (cases "setSOPIN cx new ?s")
  have i: "sdm_inv ?s" using assms(2) Some by (simp add: tk_inv_def)
  have so: "soLoggedIn s = isSOLoggedIn tk" "soLoggedIn s2 = isSOLoggedIn tk"
    using so_setSOPIN [OF assms(1) i o] Some by (simp_all add: isSOLoggedIn_def)
  have p: "isSOLoggedIn b \<Longrightarrow> isSOLoggedIn tk"
    if "tk_pinResult x y q c = (a, b)" "q = ?s \<or> q = s2" for x y q c a b
    using so_pinResult [OF that(1)] that(2) so by auto
  show ?thesis
    using assms(3, 4) Some l r o s1 so
    by (auto simp: tk_setSOPIN_def Let_def dest!: p split: if_splits option.splits prod.splits)
qed

lemma so_tk_setUserPIN:
  assumes "rand_sized (cx_rand cx)" "tk_inv tk" "tk_setUserPIN cx old new tk = (rv, tk')" "isSOLoggedIn tk'"
  shows "isSOLoggedIn tk"
proof (cases "tk_sdm tk")
  case None
  with assms(3, 4) show ?thesis by (auto simp: tk_setUserPIN_def isSOLoggedIn_def)
next
  case (Some s)
  obtain l tk1 where l: "pinLocked False tk = (l, tk1)" by (cases "pinLocked False tk")
  note s1 = so_same [OF same_pinLocked [OF l]]
  obtain r n where r: "sdm_loginUser cx old (verifier cx s) = (r, n)" by (cases "sdm_loginUser cx old (verifier cx s)")
  have n: "sdm_inv n" "\<not> soLoggedIn n"
    using sdm_inv_loginUser [OF assms(1) _ r] sdm_loginUser_fields [OF r] assms(1) by simp_all
  obtain ok n2 where o: "setUserPIN cx new n = (ok, n2)" by (cases "setUserPIN cx new n")
  have n2: "\<not> soLoggedIn n2" using so_setUserPIN [OF assms(1) n(1) o] n(2) by simp
  have so: "soLoggedIn s = isSOLoggedIn tk" using Some by (simp add: isSOLoggedIn_def)
  have p: "isSOLoggedIn b \<Longrightarrow> isSOLoggedIn tk"
    if "tk_pinResult x y q c = (a, b)" "q = s\<lparr>sdm_rng := z\<rparr> \<or> q = n2 \<or> q = sdm_logout n2" for x y q c a b z
    using so_pinResult [OF that(1)] that(2) so n2 by auto
  show ?thesis
    using assms(3, 4) Some l r o s1 so n2
    by (auto simp: tk_setUserPIN_def Let_def dest!: p split: if_splits option.splits prod.splits)
qed

lemma so_initUserPIN:
  assumes "rand_sized (cx_rand cx)" "tk_inv tk" "initUserPIN cx pin tk = (rv, tk')" "isSOLoggedIn tk'"
  shows "isSOLoggedIn tk"
proof (cases "tk_sdm tk")
  case None
  with assms(3, 4) show ?thesis by (auto simp: initUserPIN_def isSOLoggedIn_def)
next
  case (Some s)
  obtain ok s1 where o: "setUserPIN cx pin s = (ok, s1)" by (cases "setUserPIN cx pin s")
  have "sdm_inv s" using assms(2) Some by (simp add: tk_inv_def)
  from so_setUserPIN [OF assms(1) this o] have so: "soLoggedIn s1 = isSOLoggedIn tk" using Some by (simp add: isSOLoggedIn_def)
  have r: "isSOLoggedIn b = isSOLoggedIn tk" if "refill_user ((put_token t (put_sdm s1 tk))\<lparr>tk_valid := v\<rparr>) = (a, b)" for t v a b
    using so_same [OF same_refill [OF that]] so by simp
  show ?thesis
    using assms(3, 4) Some o so
    by (auto simp: initUserPIN_def Let_def dest!: r split: if_splits option.splits prod.splits)
qed

lemma so_local_verify:
  assumes "local_pin_verify cx n rec cur s t tk = (rv, tk')" "isSOLoggedIn tk'" "soLoggedIn s = isSOLoggedIn tk" "tk_sdm tk \<noteq> None"
  shows "isSOLoggedIn tk"
proof (cases rec)
  case None
  obtain l tk2 where l: "pinLocked False tk = (l, tk2)" by (cases "pinLocked False tk")
  note s2 = so_same [OF same_pinLocked [OF l]]
  have p: "isSOLoggedIn b \<Longrightarrow> isSOLoggedIn tk" if "tk_pinResult x y (s\<lparr>sdm_rng := z\<rparr>) c = (a, b)" for x y z c a b
    using so_pinResult [OF that] assms(3) by simp
  show ?thesis
    using assms(1, 2) None l s2
    by (auto simp: local_pin_verify_def Let_def map_prod_def dest!: p split: if_splits prod.splits)
next
  case (Some r)
  with assms(1, 2) show ?thesis
    by (auto simp: local_pin_verify_def Let_def split: if_splits prod.splits)
qed

lemma so_local_turn:
  assumes "local_pin_turn cx n cur new tk = (rv, tk')" "isSOLoggedIn tk'"
  shows "isSOLoggedIn tk"
proof (cases "tk_token tk = None \<or> tk_sdm tk = None")
  case True
  with assms show ?thesis by (auto simp: local_pin_turn_def split: option.splits)
next
  case False
  then obtain t s where ts: "tk_token tk = Some t" "tk_sdm tk = Some s" by auto
  obtain b rec t1 where g: "getLocalPIN n t = (b, rec, t1)" by (cases "getLocalPIN n t")
  obtain a tk2 where v: "local_pin_verify cx n rec cur s t1 (put_token t1 tk) = (a, tk2)"
    by (cases "local_pin_verify cx n rec cur s t1 (put_token t1 tk)")
  have 2: "isSOLoggedIn tk2 \<Longrightarrow> isSOLoggedIn tk"
    using so_local_verify [OF v] ts by (simp add: isSOLoggedIn_def)
  have "isSOLoggedIn (snd (local_pin_replace cx n rec new tk2)) \<Longrightarrow> isSOLoggedIn tk"
    using 2 by (auto simp: local_pin_replace_def Let_def split: prod.splits if_splits)
  with 2 show ?thesis
    using assms ts g v by (auto simp: local_pin_turn_def Let_def split: if_splits)
qed

lemma so_setLocalPIN:
  assumes "setLocalPIN cx n cur new tk = (rv, tk')" "isSOLoggedIn tk'"
  shows "isSOLoggedIn tk"
proof -
  have loop: "isSOLoggedIn b \<Longrightarrow> isSOLoggedIn a" if "local_pin_loop k cx n cur new a = (r, b)" for k a r b
    using that
  proof (induction k arbitrary: a)
    case (Suc k)
    then show ?case using so_local_turn [of cx n cur new a] by (auto split: prod.splits option.splits)
  qed simp
  obtain p tk1 where p: "tk_getPinPolicy tk = (p, tk1)" by (cases "tk_getPinPolicy tk")
  with assms so_same [OF same_getPinPolicy [OF p]] loop [of _ tk1] show ?thesis
    by (auto simp: setLocalPIN_def split: if_splits option.splits)
qed

lemma so_unblock: "unblockUserPIN tk = (rv, tk') \<Longrightarrow> isSOLoggedIn tk' \<Longrightarrow> isSOLoggedIn tk"
  using same_refill [of tk rv tk'] so_same [of tk tk'] by (auto simp: unblockUserPIN_def split: if_splits)

end
