(* ===== verification/SoftHSM_Safety.thy ===== *)
theory SoftHSM_Safety
  imports SoftHSM_Core Store_Sync SO_Login
begin

unbundle bit_operations_syntax

text \<open>
  The invariant of the library (\<^verbatim>\<open>src/lib/SoftHSM.cpp\<close>) over its functions for slots, tokens,
  sessions and logins, and what closing a session and logging out leave behind.

  The invariant joins those of the managers: every session handle leads to a session in
  memory on the same slot, and every session has one handle; the handle manager and the
  store of session objects agree (\<open>store_ok\<close>); every session stands on a slot, and while
  the SO is logged in on a slot no read-only session is open there; the token of every
  slot is sound (\<open>tk_inv\<close>), so that SO and user are never logged in together.
\<close>

section \<open>The invariant\<close>

definition sessions_match :: "table \<Rightarrow> (addr \<Rightarrow> session option) \<Rightarrow> bool" where
  "sessions_match t m \<longleftrightarrow>
     (\<forall>h e. t h = Some e \<and> h_kind e = CKH_SESSION \<longrightarrow> (\<exists>s. m (h_session e) = Some s \<and> se_slot s = h_slotID e))
     \<and> (\<forall>p s. m p = Some s \<longrightarrow> (\<exists>h e. t h = Some e \<and> h_kind e = CKH_SESSION \<and> h_session e = p))
     \<and> (\<forall>h h' e e'. t h = Some e \<and> h_kind e = CKH_SESSION \<and> t h' = Some e' \<and> h_kind e' = CKH_SESSION
          \<and> h_session e = h_session e' \<longrightarrow> h = h')"

lemma sessions_matchD:
  assumes "sessions_match t m"
  shows "t h = Some e \<Longrightarrow> h_kind e = CKH_SESSION \<Longrightarrow> \<exists>s. m (h_session e) = Some s \<and> se_slot s = h_slotID e"
    "m p = Some s \<Longrightarrow> \<exists>h e. t h = Some e \<and> h_kind e = CKH_SESSION \<and> h_session e = p"
  using assms unfolding sessions_match_def by blast+

definition sessions_placed :: "(addr \<Rightarrow> session option) \<Rightarrow> (ulong \<Rightarrow> ('c, 'r) hsm_token option) \<Rightarrow> bool" where
  "sessions_placed m f \<longleftrightarrow>
     (\<forall>p s. m p = Some s \<longrightarrow> (\<exists>tk. f (se_slot s) = Some tk \<and> (isSOLoggedIn tk \<longrightarrow> se_isReadWrite s)))"

definition tokens_ok :: "(ulong \<Rightarrow> ('c, 'r) hsm_token option) \<Rightarrow> bool" where
  "tokens_ok f \<longleftrightarrow> (\<forall>k tk. f k = Some tk \<longrightarrow> tk_inv tk)"

definition hs_inv :: "('c, 'r) softhsm \<Rightarrow> bool" where
  "hs_inv st \<longleftrightarrow> hm_inv (hs_hm st) \<and> sm_inv (hs_sm st)
     \<and> sessions_match (hview (hs_hm st)) (omap_find (sm_heap (hs_sm st)))
     \<and> store_ok (hview (hs_hm st)) (hs_store st)
     \<and> sessions_placed (omap_find (sm_heap (hs_sm st))) (omap_find (hs_slots st))
     \<and> tokens_ok (omap_find (hs_slots st))"

lemma hs_invD:
  assumes "hs_inv st"
  shows "hm_inv (hs_hm st)" "sm_inv (hs_sm st)" "sessions_match (hview (hs_hm st)) (omap_find (sm_heap (hs_sm st)))"
    "store_ok (hview (hs_hm st)) (hs_store st)" "sessions_placed (omap_find (sm_heap (hs_sm st))) (omap_find (hs_slots st))"
    "tokens_ok (omap_find (hs_slots st))"
  using assms unfolding hs_inv_def by blast+

lemma hs_inv_events [simp]: "hs_inv (st\<lparr>hs_events := ev\<rparr>) = hs_inv st"
  by (simp add: hs_inv_def)

section \<open>Changes of the slots\<close>

text \<open>Slots whose tokens were only read.\<close>

definition slots_read :: "('c, 'r) slots \<Rightarrow> ('c, 'r) slots \<Rightarrow> bool" where
  "slots_read a b \<longleftrightarrow> (\<forall>k. rel_option same_sdm (omap_find a k) (omap_find b k))"

lemma slots_read_refl [simp]: "slots_read a a"
  by (simp add: slots_read_def option.rel_refl)

lemma slots_read_trans:
  assumes "slots_read a b" "slots_read b c"
  shows "slots_read a c"
proof -
  have "rel_option same_sdm x z" if "rel_option same_sdm x y" "rel_option same_sdm y z" for x y z :: "('c, 'r) hsm_token option"
    using that by (cases x; cases y; cases z) (auto intro: same_sdm_trans)
  then show ?thesis using assms unfolding slots_read_def by blast
qed

lemma slots_read_insert:
  "omap_find a k = Some tk \<Longrightarrow> same_sdm tk tk' \<Longrightarrow> slots_read a (omap_insert k tk' a)"
  by (simp add: slots_read_def option.rel_refl)

lemma hs_inv_read:
  assumes "hs_inv st" "slots_read (hs_slots st) slots"
  shows "hs_inv (st\<lparr>hs_slots := slots\<rparr>)"
proof -
  have rel: "rel_option same_sdm (omap_find (hs_slots st) k) (omap_find slots k)" for k
    using assms(2) by (simp add: slots_read_def)
  have "tk_inv tk" if k: "omap_find slots k = Some tk" for k tk
  proof -
    obtain tk0 where "omap_find (hs_slots st) k = Some tk0" "same_sdm tk0 tk"
      using rel [of k] k by (auto simp: option_rel_Some2)
    then show ?thesis using hs_invD(6) [OF assms(1)] tk_inv_same by (auto simp: tokens_ok_def)
  qed
  moreover have "\<exists>tk. omap_find slots (se_slot s) = Some tk \<and> (isSOLoggedIn tk \<longrightarrow> se_isReadWrite s)"
    if p: "omap_find (sm_heap (hs_sm st)) p = Some s" for p s
  proof -
    obtain tk0 where "omap_find (hs_slots st) (se_slot s) = Some tk0" "isSOLoggedIn tk0 \<longrightarrow> se_isReadWrite s"
      using hs_invD(5) [OF assms(1)] p by (auto simp: sessions_placed_def)
    then show ?thesis using rel [of "se_slot s"] so_same by (auto simp: option_rel_Some1)
  qed
  ultimately show ?thesis
    using hs_invD(1-4) [OF assms(1)] by (simp add: hs_inv_def sessions_placed_def tokens_ok_def)
qed

text \<open>A token that changed: sound, and with the SO logged in only where no read-only session is.\<close>

lemma hs_inv_token:
  assumes "hs_inv st" "tk_inv tk'"
    and "isSOLoggedIn tk' \<Longrightarrow> (\<exists>tk. omap_find (hs_slots st) k = Some tk \<and> isSOLoggedIn tk) \<or> \<not> haveROSession k (hs_sm st)"
  shows "hs_inv (put_slot k tk' st)"
proof -
  have "\<exists>tk. ((omap_find (hs_slots st))(k \<mapsto> tk')) (se_slot s) = Some tk \<and> (isSOLoggedIn tk \<longrightarrow> se_isReadWrite s)"
    if p: "omap_find (sm_heap (hs_sm st)) p = Some s" for p s
  proof (cases "se_slot s = k")
    case True
    have placed: "isSOLoggedIn tk \<longrightarrow> se_isReadWrite s" if "omap_find (hs_slots st) k = Some tk" for tk
      using hs_invD(5) [OF assms(1)] p that True by (fastforce simp: sessions_placed_def)
    have "se_isReadWrite s" if so: "isSOLoggedIn tk'"
      using assms(3) [OF so] placed p True haveROSession_iff [OF hs_invD(2) [OF assms(1)], of k] by blast
    with True show ?thesis by simp
  next
    case False
    then show ?thesis using hs_invD(5) [OF assms(1)] p by (auto simp: sessions_placed_def)
  qed
  then show ?thesis
    using hs_invD [OF assms(1)] assms(2) by (auto simp: hs_inv_def put_slot_def sessions_placed_def tokens_ok_def)
qed

lemma hs_inv_token_keeps:
  assumes "hs_inv st" "omap_find (hs_slots st) k = Some tk" "tk_inv tk'" "isSOLoggedIn tk' \<Longrightarrow> isSOLoggedIn tk"
  shows "hs_inv (put_slot k tk' st)"
  using assms by (intro hs_inv_token) auto

lemma hs_inv_token_read:
  assumes "hs_inv st" "omap_find (hs_slots st) k = Some tk" "same_sdm tk tk'"
  shows "hs_inv (put_slot k tk' st)"
  unfolding put_slot_def using assms by (intro hs_inv_read slots_read_insert)

lemma put_slot_simps [simp]:
  "hs_hm (put_slot k tk st) = hs_hm st" "hs_sm (put_slot k tk st) = hs_sm st" "hs_store (put_slot k tk st) = hs_store st"
  "omap_find (hs_slots (put_slot k tk st)) = (omap_find (hs_slots st))(k \<mapsto> tk)" "hs_initialised (put_slot k tk st) = hs_initialised st"
  "hs_rutoken (put_slot k tk st) = hs_rutoken st"
  by (simp_all add: put_slot_def)

text \<open>Reading the layout.\<close>

lemma same_place: "isInitialized tk \<Longrightarrow> place_token k tk = (p, tk') \<Longrightarrow> same_sdm tk tk'"
  by (auto simp: place_token_def getCreationTime_def getSerial_def isInitialized_def same_sdm_def split: option.splits prod.splits)

lemma slots_read_Cons: "same_sdm a b \<Longrightarrow> slots_read xs ys \<Longrightarrow> slots_read ((k, a) # xs) ((k, b) # ys)"
  by (simp add: slots_read_def)

lemma placements_read: "placements A = (ps, sp, B) \<Longrightarrow> slots_read A B"
proof (induction A arbitrary: ps sp B)
  case (Cons a A)
  obtain s tk where a: "a = (s, tk)" by (cases a)
  obtain qs sq C where A: "placements A = (qs, sq, C)" by (cases "placements A")
  obtain p tk' where p: "place_token s tk = (p, tk')" by (cases "place_token s tk")
  show ?case
    using Cons.IH [OF A] Cons.prems a A p same_place [OF _ p] by (auto intro: slots_read_Cons split: if_splits)
qed simp

lemma layout_read: "fakeRutokenLayout slots = (l, slots') \<Longrightarrow> slots_read slots slots'"
  by (auto simp: fakeRutokenLayout_def intro: placements_read split: prod.splits)

lemma facade_read:
  "fakeRutokenBackingSlotID k slots = (b, slots') \<Longrightarrow> slots_read slots slots'"
  "fakeRutokenFacadeSlotID k slots = (b, slots') \<Longrightarrow> slots_read slots slots'"
  "fakeRutokenPresentCount slots = (n, slots') \<Longrightarrow> slots_read slots slots'"
  by (auto simp: fakeRutokenBackingSlotID_def fakeRutokenFacadeSlotID_def fakeRutokenPresentCount_def
      intro: layout_read split: prod.splits)

lemma facade_slot:
  assumes "fakeRutokenSlot k slots = (x, slots')"
  shows "slots_read slots slots'" "x = Some (b, tk) \<Longrightarrow> omap_find slots' b = Some tk"
  using assms facade_read(1) [of k slots]
  by (auto simp: fakeRutokenSlot_def getSlot_def split: prod.splits if_splits)

text \<open>What finding a slot leaves, and that the slot found is the one behind.\<close>

lemma resolve_slot_facts:
  assumes "hs_inv st" "resolve_slot slotID st = (x, st')"
  shows "hs_inv st'" "hs_hm st' = hs_hm st" "hs_sm st' = hs_sm st" "hs_store st' = hs_store st"
    "x = Inr (b, Some (sid, tk)) \<Longrightarrow> omap_find (hs_slots st') sid = Some tk"
proof -
  have "\<exists>slots. st' = st\<lparr>hs_slots := slots\<rparr> \<and> slots_read (hs_slots st) slots
    \<and> (\<forall>b sid tk. x = Inr (b, Some (sid, tk)) \<longrightarrow> omap_find slots sid = Some tk)"
  proof (cases "hs_rutoken st")
    case True
    obtain l s1 where l: "fakeRutokenLayout (hs_slots st) = (l, s1)" by (cases "fakeRutokenLayout (hs_slots st)")
    obtain bk s2 where b: "fakeRutokenBackingSlotID slotID s1 = (bk, s2)" by (cases "fakeRutokenBackingSlotID slotID s1")
    obtain sl s3 where s: "fakeRutokenSlot slotID s2 = (sl, s3)" by (cases "fakeRutokenSlot slotID s2")
    have r: "slots_read (hs_slots st) s1" "slots_read (hs_slots st) s3"
      using layout_read [OF l] facade_read(1) [OF b] facade_slot(1) [OF s] slots_read_trans by blast+
    show ?thesis
      using assms(2) True l b s r facade_slot(2) [OF s] by (auto simp: resolve_slot_def Let_def split: if_splits)
  next
    case False
    then show ?thesis
      using assms(2) by (intro exI [of _ "hs_slots st"]) (auto simp: resolve_slot_def getSlot_def)
  qed
  with assms(1) show "hs_inv st'" "hs_hm st' = hs_hm st" "hs_sm st' = hs_sm st" "hs_store st' = hs_store st"
    "x = Inr (b, Some (sid, tk)) \<Longrightarrow> omap_find (hs_slots st') sid = Some tk"
    by (auto intro: hs_inv_read)
qed

section \<open>Sessions\<close>

lemma find_session_facts:
  assumes "hs_inv st" "find_session h st = Some (p, s, tk)"
  shows "\<exists>e. hview (hs_hm st) h = Some e \<and> h_kind e = CKH_SESSION \<and> h_session e = p \<and> h_slotID e = se_slot s"
    "omap_find (sm_heap (hs_sm st)) p = Some s" "omap_find (hs_slots st) (se_slot s) = Some tk" "tk_inv tk"
proof -
  have f: "hm_getSession (hs_hm st) h = p" "p \<noteq> 0" "omap_find (sm_heap (hs_sm st)) p = Some s"
    "omap_find (hs_slots st) (se_slot s) = Some tk"
    using assms(2) by (auto simp: find_session_def Let_def split: if_splits option.splits)
  then obtain e where "hview (hs_hm st) h = Some e" "h_kind e = CKH_SESSION" "h_session e = p"
    by (auto simp: hm_getSession_def hview_find split: option.splits if_splits)
  moreover from this f(3) have "h_slotID e = se_slot s"
    using hs_invD(3) [OF assms(1)] by (fastforce simp: sessions_match_def)
  ultimately show "\<exists>e. hview (hs_hm st) h = Some e \<and> h_kind e = CKH_SESSION \<and> h_session e = p \<and> h_slotID e = se_slot s"
    by blast
  show "omap_find (sm_heap (hs_sm st)) p = Some s" "omap_find (hs_slots st) (se_slot s) = Some tk" by (fact f)+
  show "tk_inv tk" using f(4) hs_invD(6) [OF assms(1)] by (auto simp: tokens_ok_def)
qed

lemma one_handle:
  "sessions_match t m \<Longrightarrow> t h = Some e \<Longrightarrow> h_kind e = CKH_SESSION \<Longrightarrow> t k = Some d \<Longrightarrow> h_kind d = CKH_SESSION \<Longrightarrow>
   h_session d = h_session e \<longleftrightarrow> k = h"
  unfolding sessions_match_def by (metis option.inject)

text \<open>A change inside a session.\<close>

lemma hs_inv_session:
  assumes "hs_inv st" "omap_find (sm_heap (hs_sm st)) p = Some s"
    and "se_slot s' = se_slot s" "se_isReadWrite s' = se_isReadWrite s" "se_hSession s' = se_hSession s"
  shows "hs_inv (put_session p s' st)"
proof -
  have "sm_inv (hs_sm (put_session p s' st))"
    using hs_invD(2) [OF assms(1)] assms(2, 5) by (auto simp: sm_inv_def put_session_def session_at_def insert_absorb)
  moreover have "sessions_match t ((omap_find (sm_heap (hs_sm st)))(p \<mapsto> s'))"
    if "sessions_match t (omap_find (sm_heap (hs_sm st)))" for t
    using that assms(2, 3) unfolding sessions_match_def by (smt (verit, ccfv_threshold) fun_upd_apply option.inject)
  moreover have "sessions_placed ((omap_find (sm_heap (hs_sm st)))(p \<mapsto> s')) f"
    if "sessions_placed (omap_find (sm_heap (hs_sm st))) f" for f :: "ulong \<Rightarrow> ('a, 'b) hsm_token option"
    using that assms(2-4) by (auto simp: sessions_placed_def)
  ultimately show ?thesis
    using hs_invD [OF assms(1)] by (simp add: hs_inv_def) (simp add: put_session_def)
qed

text \<open>Sessions that are closed, with their handles; their objects are another matter.\<close>

lemma sessions_match_drop:
  assumes "sessions_match t m"
    and "\<And>h e. t' h = Some e \<Longrightarrow> t h = Some e"
    and "\<And>h e. t h = Some e \<Longrightarrow> h_kind e = CKH_SESSION \<Longrightarrow> t' h = None \<longleftrightarrow> h_session e \<in> P"
  shows "sessions_match t' (\<lambda>p. if p \<in> P then None else m p)"
proof -
  have 1: "m (h_session e) \<noteq> None \<and> h_session e \<notin> P \<and> se_slot (the (m (h_session e))) = h_slotID e" if "t' h = Some e" "h_kind e = CKH_SESSION" for h e
    using assms that unfolding sessions_match_def by (metis option.distinct(1) option.sel)
  have 2: "\<exists>h e. t' h = Some e \<and> h_kind e = CKH_SESSION \<and> h_session e = p" if p: "m p = Some s" "p \<notin> P" for p s
  proof -
    obtain h e where h: "t h = Some e" "h_kind e = CKH_SESSION" "h_session e = p"
      using assms(1) p unfolding sessions_match_def by blast
    with assms(3) [OF h(1, 2)] p obtain e' where "t' h = Some e'" by blast
    with assms(2) [OF this] h show ?thesis by auto
  qed
  have 3: "h = h'" if "t' h = Some e" "h_kind e = CKH_SESSION" "t' h' = Some e'" "h_kind e' = CKH_SESSION" "h_session e = h_session e'" for h h' e e'
    using assms(1) assms(2) that unfolding sessions_match_def by blast
  show ?thesis
    unfolding sessions_match_def using 1 2 3 by (fastforce split: if_splits)
qed

lemma sessions_match_same:
  assumes "sessions_match t m" "\<And>k d. h_kind d = CKH_SESSION \<Longrightarrow> t' k = Some d \<longleftrightarrow> t k = Some d"
  shows "sessions_match t' m"
proof -
  have e: "t' k = Some d \<and> h_kind d = CKH_SESSION \<longleftrightarrow> t k = Some d \<and> h_kind d = CKH_SESSION" for k d
    using assms(2) by blast
  show ?thesis
    unfolding sessions_match_def
  proof (intro conjI allI impI)
    fix h d assume "t' h = Some d \<and> h_kind d = CKH_SESSION"
    then show "\<exists>s. m (h_session d) = Some s \<and> se_slot s = h_slotID d" using sessions_matchD(1) [OF assms(1)] e by blast
  next
    fix p s assume "m p = Some s"
    then show "\<exists>h d. t' h = Some d \<and> h_kind d = CKH_SESSION \<and> h_session d = p" using sessions_matchD(2) [OF assms(1)] e by blast
  next
    fix h h' d d'
    assume "t' h = Some d \<and> h_kind d = CKH_SESSION \<and> t' h' = Some d' \<and> h_kind d' = CKH_SESSION \<and> h_session d = h_session d'"
    then show "h = h'" using one_handle [OF assms(1), of h' d' h d] e by blast
  qed
qed

lemma slots_after_logout:
  assumes "tokens_ok (omap_find slots)"
  shows "tokens_ok (omap_find (logout_slot k slots))"
    "omap_find slots j = Some tk \<Longrightarrow> \<exists>tk'. omap_find (logout_slot k slots) j = Some tk' \<and> (isSOLoggedIn tk' \<longrightarrow> isSOLoggedIn tk)"
proof -
  have "tk_inv (tk_logout tk)" if "tk_inv tk" for tk :: "('a, 'b) hsm_token"
    using that by (simp add: tk_inv_def split: option.splits)
  with assms show "tokens_ok (omap_find (logout_slot k slots))"
    by (auto simp: tokens_ok_def logout_slot_def split: option.splits if_splits)
  show "omap_find slots j = Some tk \<Longrightarrow> \<exists>tk'. omap_find (logout_slot k slots) j = Some tk' \<and> (isSOLoggedIn tk' \<longrightarrow> isSOLoggedIn tk)"
    by (auto simp: logout_slot_def split: option.split)
qed

section \<open>Every function keeps the invariant\<close>

text \<open>
  \<open>one_slot\<close>: the two readings of the layout in a call agree on the slot. Without the
  Rutoken profile it always holds; with it, another process that adds or removes a token
  between two readings can break it.
\<close>

definition one_slot :: "ulong \<Rightarrow> ('c, 'r) softhsm \<Rightarrow> bool" where
  "one_slot slotID st = (case resolve_slot slotID st of (Inr (b, Some (sid, _)), _) \<Rightarrow> b = sid | _ \<Rightarrow> True)"

lemma one_slot_plain: "\<not> hs_rutoken st \<Longrightarrow> one_slot slotID st"
  by (simp add: one_slot_def resolve_slot_def split: option.split)

lemma one_slotD: "one_slot slotID st \<Longrightarrow> resolve_slot slotID st = (Inr (b, Some (sid, tk)), st') \<Longrightarrow> b = sid"
  by (simp add: one_slot_def)

text \<open>The state after a session was closed.\<close>

lemma close_session_state:
  assumes "hs_inv st" "hs_initialised st" "find_session h st = Some (p, s, tk)" "C_CloseSession h st = (rv, st')"
  shows "rv = CKR_OK" "hm_inv (hs_hm st')" "hview (hs_hm st') = spec_sessionClosed (hview (hs_hm st)) h"
    "sm_inv (hs_sm st')" "omap_find (sm_heap (hs_sm st')) = (omap_find (sm_heap (hs_sm st)))(p := None)"
    "hs_store st' = ss_sessionClosed h (fold release (snd (hm_sessionClosed (hs_hm st) h)) (hs_store st))"
    "hs_slots st' = (if open_on (hs_sm st) (se_slot s) = {p} then logout_slot (se_slot s) (hs_slots st) else hs_slots st)"
proof -
  note I = hs_invD [OF assms(1)] and F = find_session_facts [OF assms(1, 3)]
  obtain hm rel where c: "hm_sessionClosed (hs_hm st) h = (hm, rel)" by (cases "hm_sessionClosed (hs_hm st) h")
  obtain sm where m: "sm_closeSession (se_hSession s) (hs_sm st) (hs_slots st) =
      (CKR_OK, sm, if open_on (hs_sm st) (se_slot s) = {p} then logout_slot (se_slot s) (hs_slots st) else hs_slots st)"
    "sm_inv sm" "omap_find (sm_heap sm) = (omap_find (sm_heap (hs_sm st)))(p := None)"
    by (rule close_session_live [OF I(2) F(2), of "hs_slots st"])
  have st': "rv = CKR_OK" "st' = st\<lparr>hs_hm := hm, hs_store := ss_sessionClosed h (fold release rel (hs_store st)), hs_sm := sm,
      hs_slots := (if open_on (hs_sm st) (se_slot s) = {p} then logout_slot (se_slot s) (hs_slots st) else hs_slots st)\<rparr>"
    using assms c m(1) by (simp_all add: C_CloseSession_def Let_def)
  have "hm_inv hm" "hview hm = spec_sessionClosed (hview (hs_hm st)) h"
    using one_closed.inv [OF I(1), of h] one_closed.view [OF I(1), of h] c by simp_all
  with st' m c show "rv = CKR_OK" "hm_inv (hs_hm st')" "hview (hs_hm st') = spec_sessionClosed (hview (hs_hm st)) h"
    "sm_inv (hs_sm st')" "omap_find (sm_heap (hs_sm st')) = (omap_find (sm_heap (hs_sm st)))(p := None)"
    "hs_store st' = ss_sessionClosed h (fold release (snd (hm_sessionClosed (hs_hm st) h)) (hs_store st))"
    "hs_slots st' = (if open_on (hs_sm st) (se_slot s) = {p} then logout_slot (se_slot s) (hs_slots st) else hs_slots st)"
    by simp_all
qed

lemma hs_inv_close_session:
  assumes "hs_inv st" "C_CloseSession h st = (rv, st')"
  shows "hs_inv st'"
proof (cases "hs_initialised st \<and> find_session h st \<noteq> None")
  case False
  then show ?thesis using assms by (auto simp: C_CloseSession_def split: if_splits option.splits)
next
  case True
  then obtain p s tk where i: "hs_initialised st" and f: "find_session h st = Some (p, s, tk)" by auto
  note I = hs_invD [OF assms(1)] and C = close_session_state [OF assms(1) i f assms(2)]
  let ?t = "hview (hs_hm st)"
  from find_session_facts(1) [OF assms(1) f] obtain e where
    e: "?t h = Some e" "h_kind e = CKH_SESSION" "h_session e = p" "h_slotID e = se_slot s" by blast
  have gone: "spec_sessionClosed ?t h k = None \<longleftrightarrow> h_session d \<in> {p}" if k: "?t k = Some d" "h_kind d = CKH_SESSION" for k d
  proof -
    have "spec_sessionClosed ?t h k = None \<longleftrightarrow> k = h"
      using session_closed_entries [of ?t h e k "h_slotID d", OF e(1, 2)] k spec_sessionClosed_le [of ?t h k]
      by (auto simp: session_entry_def)
    also have "\<dots> \<longleftrightarrow> h_session d = p" using one_handle [OF I(3) e(1, 2) k] e(3) by simp
    finally show ?thesis by simp
  qed
  have "sessions_match (hview (hs_hm st')) (\<lambda>q. if q \<in> {p} then None else omap_find (sm_heap (hs_sm st)) q)"
    unfolding C(3) by (rule sessions_match_drop [OF I(3)], erule spec_sessionClosed_le, rule gone)
  then have "sessions_match (hview (hs_hm st')) (omap_find (sm_heap (hs_sm st')))"
    unfolding C(5) by (simp add: fun_upd_def if_distrib cong: if_cong)
  moreover have "store_ok (hview (hs_hm st')) (hs_store st')"
    using close_one.closed(1) [OF I(1, 4), of h] by (simp add: C(3, 6))
  moreover have "tokens_ok (omap_find (hs_slots st'))" using I(6) slots_after_logout(1) [OF I(6)] by (simp add: C(7))
  moreover have "sessions_placed (omap_find (sm_heap (hs_sm st'))) (omap_find (hs_slots st'))"
    unfolding sessions_placed_def
  proof (intro allI impI)
    fix q r assume "omap_find (sm_heap (hs_sm st')) q = Some r"
    then have "omap_find (sm_heap (hs_sm st)) q = Some r" using C(5) by (auto split: if_splits)
    with I(5) obtain tk where "omap_find (hs_slots st) (se_slot r) = Some tk" "isSOLoggedIn tk \<longrightarrow> se_isReadWrite r"
      by (auto simp: sessions_placed_def)
    then show "\<exists>tk. omap_find (hs_slots st') (se_slot r) = Some tk \<and> (isSOLoggedIn tk \<longrightarrow> se_isReadWrite r)"
      using slots_after_logout(2) [OF I(6), of "se_slot r" tk "se_slot s"] by (auto simp: C(7))
  qed
  ultimately show ?thesis using C(2, 4) by (simp add: hs_inv_def)
qed

lemma hs_inv_close_all:
  assumes "hs_inv st" "one_slot slotID st" "C_CloseAllSessions slotID st = (rv, st')"
  shows "hs_inv st'"
proof -
  obtain x st1 where r: "resolve_slot slotID st = (x, st1)" by (cases "resolve_slot slotID st")
  note R = resolve_slot_facts [OF assms(1) r]
  show ?thesis
  proof (cases "hs_initialised st \<and> (\<exists>b y. x = Inr (b, Some y))")
    case False
    then show ?thesis using assms(1, 3) r R(1) by (auto simp: C_CloseAllSessions_def split: if_splits sum.splits prod.splits option.splits)
  next
    case True
    then obtain b sid tk where x: "x = Inr (b, Some (sid, tk))" by auto
    have b: "b = sid" using one_slotD [OF assms(2)] r x by simp
    note I = hs_invD [OF R(1)]
    let ?t = "hview (hs_hm st1)"
    obtain hm rel where c: "hm_allSessionsClosed (hs_hm st1) sid = (hm, rel)" by (cases "hm_allSessionsClosed (hs_hm st1) sid")
    obtain sm where m: "sm_closeAllSessions (Some sid) (hs_sm st1) (hs_slots st1) = (CKR_OK, sm, logout_slot sid (hs_slots st1))"
      "sm_inv sm" "omap_find (sm_heap sm) = (\<lambda>p. if p \<in> open_on (hs_sm st1) sid then None else omap_find (sm_heap (hs_sm st1)) p)"
      by (rule close_all_sessions [OF I(2), of sid "hs_slots st1"])
    have st': "st' = st1\<lparr>hs_hm := hm, hs_store := ss_allSessionsClosed sid (fold release rel (hs_store st1)), hs_sm := sm,
        hs_slots := logout_slot sid (hs_slots st1)\<rparr>"
      using assms(3) True r x b c m(1) by (simp add: C_CloseAllSessions_def Let_def)
    have hm: "hm_inv hm" "hview hm = scan_erase (\<lambda>_ e. h_slotID e = sid) ?t"
      using all_closed.inv [OF I(1), of sid] all_closed.view [OF I(1), of sid] c by simp_all
    have store: "store_ok (hview hm) (ss_allSessionsClosed sid (fold release rel (hs_store st1)))"
      using close_slot.closed(1) [OF I(1, 4), of sid] c hm(2) by simp
    have gone: "scan_erase (\<lambda>_ e. h_slotID e = sid) ?t k = None \<longleftrightarrow> h_session d \<in> open_on (hs_sm st1) sid"
      if k: "?t k = Some d" "h_kind d = CKH_SESSION" for k d
    proof -
      obtain s where "omap_find (sm_heap (hs_sm st1)) (h_session d) = Some s" "se_slot s = h_slotID d"
        using I(3) k unfolding sessions_match_def by blast
      with k show ?thesis by (simp add: open_on_def)
    qed
    have "sessions_match (hview hm) (omap_find (sm_heap sm))"
      unfolding hm(2) m(3) by (rule sessions_match_drop [OF I(3)], simp, rule gone)
    moreover have "sessions_placed (omap_find (sm_heap sm)) (omap_find (logout_slot sid (hs_slots st1)))"
      unfolding sessions_placed_def
    proof (intro allI impI)
      fix q r assume "omap_find (sm_heap sm) q = Some r"
      then have "omap_find (sm_heap (hs_sm st1)) q = Some r" using m(3) by (auto split: if_splits)
      with I(5) obtain tk where "omap_find (hs_slots st1) (se_slot r) = Some tk" "isSOLoggedIn tk \<longrightarrow> se_isReadWrite r"
        by (auto simp: sessions_placed_def)
      then show "\<exists>tk. omap_find (logout_slot sid (hs_slots st1)) (se_slot r) = Some tk \<and> (isSOLoggedIn tk \<longrightarrow> se_isReadWrite r)"
        using slots_after_logout(2) [OF I(6), of "se_slot r" tk sid] by auto
    qed
    ultimately show ?thesis
      using hm(1) m(2) store slots_after_logout(1) [OF I(6)] by (simp add: hs_inv_def st')
  qed
qed

text \<open>
  Opening a session: the allocator gives an address that is not in use, and the numbers of
  sessions and of handles do not reach the end of their types.
\<close>

definition room_for_session :: "addr \<Rightarrow> ('c, 'r) softhsm \<Rightarrow> bool" where
  "room_for_session a st \<longleftrightarrow> a \<noteq> 0 \<and> omap_find (sm_heap (hs_sm st)) a = None
     \<and> Suc (length (sm_sessions (hs_sm st))) < 2 ^ 64 \<and> handleCounter (hs_hm st) + 1 \<noteq> 0"

lemma sessions_match_add:
  assumes "sessions_match t m" "t c = None" "m a = None" "h_kind e = CKH_SESSION" "h_session e = a" "se_slot s = h_slotID e"
  shows "sessions_match (t(c \<mapsto> e)) (m(a \<mapsto> s))"
proof -
  have ne: "h_session d \<noteq> a" if "t k = Some d" "h_kind d = CKH_SESSION" for k d
    using assms(1, 3) that unfolding sessions_match_def by fastforce
  have 1: "\<exists>r. (m(a \<mapsto> s)) (h_session d) = Some r \<and> se_slot r = h_slotID d"
    if "(t(c \<mapsto> e)) k = Some d" "h_kind d = CKH_SESSION" for k d
    using that assms ne unfolding sessions_match_def by (cases "k = c") auto
  have 2: "\<exists>k d. (t(c \<mapsto> e)) k = Some d \<and> h_kind d = CKH_SESSION \<and> h_session d = q" if q: "(m(a \<mapsto> s)) q = Some r" for q r
  proof (cases "q = a")
    case False
    then have "m q = Some r" using q by simp
    from sessions_matchD(2) [OF assms(1) this] obtain k d where "t k = Some d" "h_kind d = CKH_SESSION" "h_session d = q" by blast
    then show ?thesis using assms(2) by (intro exI [of _ k] exI [of _ d]) auto
  qed (use assms in auto)
  have 3: "k = k'" if "(t(c \<mapsto> e)) k = Some d" "h_kind d = CKH_SESSION" "(t(c \<mapsto> e)) k' = Some d'" "h_kind d' = CKH_SESSION"
    "h_session d = h_session d'" for k k' d d'
  proof (cases "k = c \<or> k' = c")
    case True
    have "k' = c \<and> k = c" using True that ne [of k' d'] ne [of k d] assms(5) by (auto split: if_splits)
    then show ?thesis by simp
  next
    case False
    with that have "t k = Some d" "t k' = Some d'" by simp_all
    then show ?thesis using one_handle [OF assms(1), of k' d' k d] that(2, 4, 5) by blast
  qed
  show ?thesis
    unfolding sessions_match_def
  proof (intro conjI allI impI; (elim conjE)?)
    fix h h' d d'
    assume *: "(t(c \<mapsto> e)) h = Some d" "h_kind d = CKH_SESSION" "(t(c \<mapsto> e)) h' = Some d'" "h_kind d' = CKH_SESSION"
      "h_session d = h_session d'"
    show "h = h'" by (rule 3 [OF *])
  qed (erule (1) 1, erule 2)
qed

lemma store_ok_add_session:
  assumes "store_ok t st" "t c = None" "h_kind e = CKH_SESSION"
  shows "store_ok (t(c \<mapsto> e)) st"
proof -
  have d: "(t(c \<mapsto> e)) k = Some b \<and> object_entry b \<longleftrightarrow> t k = Some b \<and> object_entry b" for k b
    using assms(2, 3) by (auto simp: object_entry_def)
  have "held (t(c \<mapsto> e)) a = held t a" for a unfolding held_entry conj_assoc [symmetric] d by (rule refl)
  then have "references (t(c \<mapsto> e)) = references t" by (simp add: references_def fun_eq_iff)
  moreover have "session_entry (t(c \<mapsto> e)) k l" if "session_entry t k l" for k l
    using that assms(2) by (auto simp: session_entry_def)
  ultimately have r: "refs_ok st (references (t(c \<mapsto> e)))"
    and s: "\<And>k l. session_entry t k l \<Longrightarrow> session_entry (t(c \<mapsto> e)) k l"
    using store_okD(1) [OF assms(1)] by simp_all
  show ?thesis
    unfolding store_ok_def
  proof (intro conjI allI impI)
    show "refs_ok st (references (t(c \<mapsto> e)))" by (rule r)
  next
    fix k b assume "(t(c \<mapsto> e)) k = Some b \<and> object_entry b"
    then have "t k = Some b" "object_entry b" unfolding d by blast+
    then show "h_object b \<in> set (ss_objects st)" "\<exists>x. omap_find (ss_heap st) (h_object b) = Some x \<and> same_object b x"
      using store_okD(2, 3) [OF assms(1)] by blast+
  next
    fix a x assume "a \<in> set (ss_objects st) \<and> omap_find (ss_heap st) a = Some x"
    then show "session_entry (t(c \<mapsto> e)) (so_hSession x) (so_slotID x)"
      using store_okD(4) [OF assms(1)] s by blast
  qed
qed

lemma rw_flag: "flags AND CKF_RW_SESSION \<noteq> 0 \<Longrightarrow> flags AND CKF_RW_SESSION = CKF_RW_SESSION"
proof -
  assume "flags AND CKF_RW_SESSION \<noteq> 0"
  then have "bit flags 1" using and_exp_eq_0_iff_not_bit [of flags 1] by (simp add: CKF_RW_SESSION_def)
  then show ?thesis by (intro bit_word_eqI) (auto simp: bit_and_iff CKF_RW_SESSION_def bit_2_iff)
qed

lemma hs_inv_open:
  assumes "hs_inv st" "one_slot slotID st" "room_for_session a st" "C_OpenSession a slotID flags ph st = (r, st')"
  shows "hs_inv st'"
proof -
  obtain x st1 where rs: "resolve_slot slotID st = (x, st1)" by (cases "resolve_slot slotID st")
  note R = resolve_slot_facts [OF assms(1) rs] and I = hs_invD [OF resolve_slot_facts(1) [OF assms(1) rs]]
  show ?thesis
  proof (cases "hs_initialised st \<and> (\<exists>b slot. x = Inr (b, slot))")
    case False
    then show ?thesis using assms(1, 4) rs R(1) by (auto simp: C_OpenSession_def split: if_splits sum.splits prod.splits)
  next
    case True
    then obtain b slot where x: "x = Inr (b, slot)" by auto
    obtain res sm where o: "sm_openSession a slot flags ph (hs_sm st1) = (res, sm)" by (cases "sm_openSession a slot flags ph (hs_sm st1)")
    show ?thesis
    proof (cases res)
      case (Inl rv)
      with open_session_fails [of a slot flags ph "hs_sm st1" rv sm] o have "sm = hs_sm st1" by simp
      with Inl o x rs True assms(4) R(1) show ?thesis by (simp add: C_OpenSession_def)
    next
      case (Inr h)
      with o have o': "sm_openSession a slot flags ph (hs_sm st1) = (Inr h, sm)" by simp
      then obtain sid tk where s: "slot = Some (sid, tk)" "flags AND CKF_RW_SESSION \<noteq> 0 \<or> \<not> isSOLoggedIn tk"
        "sm_heap sm = omap_insert a ((Session_new sid (flags AND CKF_RW_SESSION = CKF_RW_SESSION))\<lparr>se_hSession := h\<rparr>) (sm_heap (hs_sm st1))"
        by (rule open_session_cases) blast
      let ?s = "(Session_new sid (flags AND CKF_RW_SESSION = CKF_RW_SESSION))\<lparr>se_hSession := h\<rparr>"
      have b: "b = sid" using one_slotD [OF assms(2)] rs x s(1) by simp
      have room: "a \<noteq> 0" "omap_find (sm_heap (hs_sm st1)) a = None" "Suc (length (sm_sessions (hs_sm st1))) < 2 ^ 64"
        "handleCounter (hs_hm st1) + 1 \<noteq> 0"
        using assms(3) R(2, 3) by (simp_all add: room_for_session_def)
      note sm = sm_inv_open [OF I(2) o' room(1-3)]
      let ?e = "(Handle2 CKH_SESSION sid)\<lparr>h_session := a\<rparr>" and ?c = "handleCounter (hs_hm st1) + 1"
      obtain hm where hm: "addSession (hs_hm st1) sid a = (?c, hm)" by (simp add: addSession_def Let_def)
      have st': "st' = st1\<lparr>hs_sm := sm, hs_hm := hm\<rparr>"
        using assms(4) True rs x b s(1) o' sm(2) room(1) hm by (simp add: C_OpenSession_def Let_def)
      have v: "hview hm = (hview (hs_hm st1))(?c \<mapsto> ?e)" using hm by (auto simp: addSession_def Let_def hview_handles hview_find)
      have fresh: "hview (hs_hm st1) ?c = None" by (rule hm_fresh [OF I(1) room(4)])
      have e: "h_kind ?e = CKH_SESSION" "h_session ?e = a" "h_slotID ?e = sid" by (simp_all add: Handle2_def)
      have "omap_find (hs_slots st1) sid = Some tk" using R(5) x s(1) by blast
      moreover have "isSOLoggedIn tk \<longrightarrow> flags AND CKF_RW_SESSION = CKF_RW_SESSION"
        using s(2) rw_flag by blast
      ultimately have "sessions_placed (omap_find (sm_heap sm)) (omap_find (hs_slots st1))"
        using I(5) s(3) by (auto simp: sessions_placed_def Session_new_def)
      moreover have "hm_inv hm" using addSession_inv [OF I(1) room(4), of sid a] hm by simp
      moreover have "sessions_match (hview hm) (omap_find (sm_heap sm))"
        unfolding v s(3) omap_find_insert using sessions_match_add [OF I(3) fresh room(2) e(1, 2), of ?s] e(3) by (simp add: Session_new_def)
      moreover have "store_ok (hview hm) (hs_store st1)" unfolding v by (rule store_ok_add_session [OF I(4) fresh e(1)])
      ultimately show ?thesis using I(6) sm(1) by (simp add: hs_inv_def st')
    qed
  qed
qed

lemma hs_inv_logout:
  assumes "hs_inv st" "C_Logout h st = (rv, st')"
  shows "hs_inv st'"
proof (cases "hs_initialised st \<and> find_session h st \<noteq> None")
  case False
  then show ?thesis using assms by (auto simp: C_Logout_def split: if_splits option.splits)
next
  case True
  then obtain p s tk where f: "find_session h st = Some (p, s, tk)" by auto
  note F = find_session_facts [OF assms(1) f]
  let ?st = "put_slot (se_slot s) (tk_logout tk) st"
  have i: "hs_inv ?st"
    using F(4) by (intro hs_inv_token_keeps [OF assms(1) F(3)]) (auto simp: tk_inv_def split: option.splits)
  note I = hs_invD [OF assms(1)]
  obtain hm rel where c: "hm_tokenLoggedOut (hs_hm st) (se_slot s) = (hm, rel)" by (cases "hm_tokenLoggedOut (hs_hm st) (se_slot s)")
  have st': "st' = ?st\<lparr>hs_hm := hm, hs_store := ss_tokenLoggedOut (se_slot s) (fold release rel (hs_store st))\<rparr>"
    using assms(2) True f c by (simp add: C_Logout_def Let_def)
  have hm: "hm_inv hm" "hview hm = scan_erase (\<lambda>_ e. h_slotID e = se_slot s \<and> private_object e) (hview (hs_hm st))"
    using logged_out.inv [OF I(1), of "se_slot s"] logged_out.view [OF I(1), of "se_slot s"] c by simp_all
  have store: "store_ok (hview hm) (ss_tokenLoggedOut (se_slot s) (fold release rel (hs_store st)))"
    using log_out.closed(1) [OF I(1, 4), of "se_slot s"] c hm(2) by simp
  have "sessions_match (hview hm) (\<lambda>q. if q \<in> {} then None else omap_find (sm_heap (hs_sm st)) q)"
    unfolding hm(2) by (rule sessions_match_drop [OF I(3)]) auto
  then show ?thesis using hs_invD [OF i] hm(1) store by (simp add: hs_inv_def st')
qed

text \<open>Functions that end in an operation on the token of the session.\<close>

lemma hs_inv_on_token:
  assumes "hs_inv st" "omap_find (hs_slots st) (se_slot s) = Some tk0" "on_token s f tk st = (rv, st')"
    and "\<And>r tk'. f tk = (r, tk') \<Longrightarrow> tk_inv tk'"
    and "\<And>r tk'. f tk = (r, tk') \<Longrightarrow> isSOLoggedIn tk' \<Longrightarrow> isSOLoggedIn tk0 \<or> \<not> haveROSession (se_slot s) (hs_sm st)"
  shows "hs_inv st'"
proof -
  obtain r tk' where f: "f tk = (r, tk')" by (cases "f tk")
  have "st' = put_slot (se_slot s) tk' st" using assms(3) f by (simp add: on_token_def)
  moreover have "hs_inv (put_slot (se_slot s) tk' st)"
    using assms(2) assms(4, 5) [OF f] by (intro hs_inv_token [OF assms(1)]) auto
  ultimately show ?thesis by simp
qed

lemma hs_inv_login:
  assumes "rand_sized (cx_rand cx)" "hs_inv st" "C_Login cx h userType pPin st = (rv, st')"
  shows "hs_inv st'"
proof (cases "\<exists>p s tk pin. hs_initialised st \<and> find_session h st = Some (p, s, tk) \<and> pPin = Some pin")
  case False
  then show ?thesis using assms(2, 3) by (auto simp: C_Login_def split: if_splits option.splits)
next
  case True
  then obtain p s tk pin where f: "hs_initialised st" "find_session h st = Some (p, s, tk)" "pPin = Some pin" by blast
  note F = find_session_facts [OF assms(2) f(2)]
  have so: "hs_inv x" if "\<not> haveROSession (se_slot s) (hs_sm st)" "on_token s (loginSO cx pin) tk st = (r, x)" for r x
    using that(1) by (intro hs_inv_on_token [OF assms(2) F(3) that(2)] tk_inv_login(1) [OF assms(1) F(4)]) auto
  have us: "hs_inv x" if "on_token s (loginUser cx pin) tk st = (r, x)" for r x
    by (intro hs_inv_on_token [OF assms(2) F(3) that] tk_inv_login(2) [OF assms(1) F(4)] disjI1) (auto intro: so_loginUser)
  have re: "hs_inv x \<and> omap_find (sm_heap (hs_sm x)) p = Some s" if "on_token s (reAuthenticate cx pin) tk st = (r, x)" for r x
  proof
    show "hs_inv x"
      by (intro hs_inv_on_token [OF assms(2) F(3) that] tk_inv_reAuthenticate [OF F(4)] disjI1) (auto intro: so_reAuthenticate)
    show "omap_find (sm_heap (hs_sm x)) p = Some s" using that F(2) by (auto simp: on_token_def split: prod.splits)
  qed
  have re2: "hs_inv (put_session p (s\<lparr>se_reAuthentication := False\<rparr>) x)" if "on_token s (reAuthenticate cx pin) tk st = (r, x)" for r x
    using re [OF that] by (intro hs_inv_session [of x p s]) simp_all
  show ?thesis
    using assms(2, 3) f so us re re2 by (auto simp: C_Login_def Let_def split: if_splits prod.splits)
qed

lemma hs_inv_init_pin:
  assumes "rand_sized (cx_rand cx)" "hs_inv st" "C_InitPIN cx h pPin st = (rv, st')"
  shows "hs_inv st'"
proof (cases "\<exists>p s tk pin. hs_initialised st \<and> find_session h st = Some (p, s, tk) \<and> pPin = Some pin")
  case False
  then show ?thesis using assms(2, 3) by (auto simp: C_InitPIN_def split: if_splits option.splits)
next
  case True
  then obtain p s tk pin where f: "hs_initialised st" "find_session h st = Some (p, s, tk)" "pPin = Some pin" by blast
  note F = find_session_facts [OF assms(2) f(2)]
  obtain pol tk1 where g: "tk_getPinPolicy tk = (pol, tk1)" by (cases "tk_getPinPolicy tk")
  note same = same_getPinPolicy [OF g]
  have i1: "tk_inv tk1" by (rule tk_inv_same [OF F(4) same])
  have 1: "hs_inv (put_slot (se_slot s) tk1 st)" by (rule hs_inv_token_read [OF assms(2) F(3) same])
  obtain r tk2 where n: "initUserPIN cx pin tk1 = (r, tk2)" by (cases "initUserPIN cx pin tk1")
  have "hs_inv (put_slot (se_slot s) tk2 st)"
    using tk_inv_initUserPIN [OF assms(1) i1 n] so_initUserPIN [OF assms(1) i1 n] so_same [OF same]
    by (intro hs_inv_token_keeps [OF assms(2) F(3)]) auto
  with 1 show ?thesis
    using assms(2, 3) f g n by (auto simp: C_InitPIN_def split: if_splits option.splits)
qed

lemma hs_inv_set_pin:
  assumes "rand_sized (cx_rand cx)" "hs_inv st" "C_SetPIN cx h pOld pNew st = (rv, st')"
  shows "hs_inv st'"
proof (cases "\<exists>p s tk old new. hs_initialised st \<and> find_session h st = Some (p, s, tk) \<and> pOld = Some old \<and> pNew = Some new")
  case False
  then show ?thesis using assms(2, 3) by (auto simp: C_SetPIN_def split: if_splits option.splits)
next
  case True
  then obtain p s tk old new where f: "hs_initialised st" "find_session h st = Some (p, s, tk)" "pOld = Some old" "pNew = Some new" by blast
  note F = find_session_facts [OF assms(2) f(2)]
  obtain pol tk1 where g: "tk_getPinPolicy tk = (pol, tk1)" by (cases "tk_getPinPolicy tk")
  have i1: "tk_inv tk1" by (rule tk_inv_same [OF F(4) same_getPinPolicy [OF g]])
  let ?st = "put_slot (se_slot s) tk1 st"
  have 1: "hs_inv ?st" by (rule hs_inv_token_read [OF assms(2) F(3) same_getPinPolicy [OF g]])
  have k: "omap_find (hs_slots ?st) (se_slot s) = Some tk1" by simp
  have us: "hs_inv x" if "on_token s (tk_setUserPIN cx old new) tk1 ?st = (r, x)" for r x
    by (intro hs_inv_on_token [OF 1 k that] tk_inv_setUserPIN [OF assms(1) i1] disjI1) (auto intro: so_tk_setUserPIN [OF assms(1) i1])
  have so: "hs_inv x" if "on_token s (tk_setSOPIN cx old new) tk1 ?st = (r, x)" for r x
    by (intro hs_inv_on_token [OF 1 k that] tk_inv_setSOPIN [OF assms(1) i1] disjI1) (auto intro: so_tk_setSOPIN [OF assms(1) i1])
  show ?thesis
    using assms(2, 3) f g 1 us so by (auto simp: C_SetPIN_def Let_def split: if_splits option.splits)
qed

text \<open>Formatting: no session is open on the slot, so any login state will do.\<close>

lemma no_session_no_ro: "\<not> haveSession k sm \<Longrightarrow> \<not> haveROSession k sm"
  by (auto simp: haveSession_def haveROSession_def list_ex_iff)

lemma hs_inv_init_token:
  assumes "rand_sized (cx_rand cx)" "hs_inv st" "one_slot slotID st" "C_InitToken cx req os slotID pPin lbl st = (rv, st')"
  shows "hs_inv st'"
proof -
  obtain x st1 where r: "resolve_slot slotID st = (x, st1)" by (cases "resolve_slot slotID st")
  note R = resolve_slot_facts [OF assms(2) r]
  show ?thesis
  proof (cases "hs_initialised st \<and> (\<exists>b sid tk. x = Inr (b, Some (sid, tk)) \<and> \<not> haveSession b (hs_sm st1))")
    case False
    then show ?thesis using assms(2, 4) r R(1) by (auto simp: C_InitToken_def split: if_splits sum.splits prod.splits option.splits)
  next
    case True
    then obtain b sid tk where x: "x = Inr (b, Some (sid, tk))" "\<not> haveSession b (hs_sm st1)" by auto
    have b: "b = sid" using one_slotD [OF assms(3)] r x by simp
    have tk: "omap_find (hs_slots st1) sid = Some tk" using R(5) x by blast
    have i: "tk_inv tk" using tk hs_invD(6) [OF R(1)] by (auto simp: tokens_ok_def)
    obtain pol tk1 where g: "(if hs_rutoken st1 \<and> isInitialized tk then map_prod Some (\<lambda>x. x) (tk_getPinPolicy tk) else (None, tk)) = (pol, tk1)"
      by (metis surj_pair)
    have same: "same_sdm tk tk1"
      using g same_getPinPolicy [of tk] by (cases "tk_getPinPolicy tk") (auto split: if_splits)
    let ?st = "put_slot sid tk1 st1"
    have 1: "hs_inv ?st" by (rule hs_inv_token_read [OF R(1) tk same])
    have 2: "hs_inv (put_slot sid tk2 ?st)" if "slot_initToken cx req os pin lbl tk1 = (v, tk2)" for pin v tk2
      using tk_inv_createToken [OF assms(1) tk_inv_same [OF i same] that [unfolded slot_initToken_def]] no_session_no_ro [OF x(2)] b
      by (intro hs_inv_token [OF 1]) auto
    show ?thesis
      using assms(4) True r x b g 1 2 by (auto simp: C_InitToken_def Let_def split: if_splits option.splits prod.splits)
  qed
qed

lemma hs_inv_ex_init_token:
  assumes "rand_sized (cx_rand cx)" "hs_inv st" "one_slot slotID st" "C_EX_InitToken cx os slotID pPin n info st = (rv, st')"
  shows "hs_inv st'"
proof -
  obtain x st1 where r: "resolve_slot slotID st = (x, st1)" by (cases "resolve_slot slotID st")
  note R = resolve_slot_facts [OF assms(2) r]
  show ?thesis
  proof (cases "hs_initialised st \<and> hs_rutoken st \<and> (\<exists>b sid tk p. x = Inr (b, Some (sid, tk)) \<and> \<not> haveSession b (hs_sm st1) \<and> info = Some p)")
    case False
    then show ?thesis using assms(2, 4) r R(1) by (auto simp: C_EX_InitToken_def split: if_splits sum.splits prod.splits option.splits)
  next
    case True
    then obtain b sid tk p where x: "x = Inr (b, Some (sid, tk))" "\<not> haveSession b (hs_sm st1)" "info = Some p" by auto
    have b: "b = sid" using one_slotD [OF assms(3)] r x by simp
    have tk: "omap_find (hs_slots st1) sid = Some tk" using R(5) x by blast
    have i: "tk_inv tk" using tk hs_invD(6) [OF R(1)] by (auto simp: tokens_ok_def)
    have 2: "hs_inv (put_slot sid tk2 st1)" if "initTokenExtended cx os rep so nso nus pol lbl tk = (v, tk2)" for rep so nso nus pol lbl v tk2
      using tk_inv_initTokenExtended [OF assms(1) i that] no_session_no_ro [OF x(2)] b by (intro hs_inv_token [OF R(1)]) auto
    show ?thesis
      using assms(4) True r x R(1) 2 by (auto simp: C_EX_InitToken_def Let_def split: if_splits prod.splits)
  qed
qed

lemma hs_inv_local_pin:
  assumes "hs_inv st" "C_EX_SetLocalPIN cx slotID cur new n st = (rv, st')"
  shows "hs_inv st'"
proof -
  obtain l s1 where l: "fakeRutokenLayout (hs_slots st) = (l, s1)" by (cases "fakeRutokenLayout (hs_slots st)")
  obtain sl s2 where s: "fakeRutokenSlot slotID s1 = (sl, s2)" by (cases "fakeRutokenSlot slotID s1")
  note F = facade_slot [OF s]
  let ?st = "st\<lparr>hs_slots := s2\<rparr>"
  have i: "hs_inv (st\<lparr>hs_slots := s1\<rparr>)" "hs_inv ?st"
    using hs_inv_read [OF assms(1)] layout_read [OF l] F(1) slots_read_trans by blast+
  have "hs_inv (put_slot sid tk' ?st)" if "sl = Some (sid, tk)" "setLocalPIN cx n c w tk = (v, tk')" for sid tk c w v tk'
  proof -
    have "omap_find (hs_slots ?st) sid = Some tk" using F(2) that(1) by simp
    moreover from this have "tk_inv tk" using hs_invD(6) [OF i(2)] by (auto simp: tokens_ok_def)
    ultimately show ?thesis
      using tk_inv_setLocalPIN [OF _ that(2)] so_setLocalPIN [OF that(2)] by (intro hs_inv_token_keeps [OF i(2)]) auto
  qed
  with i show ?thesis
    using assms l s by (auto simp: C_EX_SetLocalPIN_def Let_def split: if_splits option.splits prod.splits)
qed

text \<open>Functions that change at most the stored token.\<close>

lemma hs_inv_stored:
  assumes "hs_inv st" "find_session h st = Some (p, s, tk)" "on_token s f tk st = (rv, st')"
    and "\<And>r tk'. f tk = (r, tk') \<Longrightarrow> same_sdm tk tk'"
  shows "hs_inv st'"
proof -
  note F = find_session_facts [OF assms(1, 2)]
  show ?thesis
    using assms(4) tk_inv_same [OF F(4)] so_same by (intro hs_inv_on_token [OF assms(1) F(3) assms(3)]) blast+
qed

lemma stored_only:
  "tk_setTokenName x tk = (r, tk') \<Longrightarrow> same_sdm tk tk'" "tk_setLicense n x tk = (r, tk') \<Longrightarrow> same_sdm tk tk'"
  "forceUserPINChange tk = (r, tk') \<Longrightarrow> same_sdm tk tk'" "unblockUserPIN tk = (r, tk') \<Longrightarrow> same_sdm tk tk'"
  using same_refill [of tk r tk']
  by (auto simp: tk_setTokenName_def tk_setLicense_def forceUserPINChange_def unblockUserPIN_def same_sdm_def split: option.splits prod.splits if_splits)

lemma hs_inv_vendor:
  assumes "hs_inv st"
  shows "C_EX_UnblockUserPIN h st = (rv, st') \<Longrightarrow> hs_inv st'"
    "C_EX_SetTokenName h lbl n st = (rv, st') \<Longrightarrow> hs_inv st'"
    "C_EX_SetLicense h k lic n st = (rv, st') \<Longrightarrow> hs_inv st'"
    "C_EX_TokenManage h mode v st = (rv, st') \<Longrightarrow> hs_inv st'"
  using assms
  by (auto simp: C_EX_UnblockUserPIN_def C_EX_SetTokenName_def C_EX_SetLicense_def C_EX_TokenManage_def
      intro: hs_inv_stored stored_only split: if_splits option.splits prod.splits)

lemma hs_inv_readers:
  assumes "hs_inv st"
  shows "C_GetSessionInfo h i st = (x, st') \<Longrightarrow> hs_inv st'"
    "C_FindObjects h a n b st = (y, st') \<Longrightarrow> hs_inv st'"
    "C_FindObjectsFinal h st = (rv, st') \<Longrightarrow> hs_inv st'"
proof -
  show "C_GetSessionInfo h i st = (x, st') \<Longrightarrow> hs_inv st'"
    using assms by (auto simp: C_GetSessionInfo_def Let_def intro: hs_inv_read facade_read(2) split: if_splits option.splits prod.splits)
  have find: "hs_inv (put_session p (setFindOp f s) st)" "hs_inv (put_session p (snd (resetOp s)) st)"
    if "find_session h st = Some (p, s, tk)" for p s tk f
    using find_session_facts(2) [OF assms that]
    by (auto simp: setFindOp_def resetOp_def Let_def intro!: hs_inv_session [OF assms])
  show "C_FindObjects h a n b st = (y, st') \<Longrightarrow> hs_inv st'"
    using assms find(1) by (auto simp: C_FindObjects_def Let_def split: if_splits option.splits prod.splits)
  show "C_FindObjectsFinal h st = (rv, st') \<Longrightarrow> hs_inv st'"
    using assms find(2) by (auto simp: C_FindObjectsFinal_def split: if_splits option.splits prod.splits)
qed

text \<open>The slot list may add a spare slot; the first state has the slots of the tokens found.\<close>

lemma tk_inv_slot: "rand_sized (cx_rand cx) \<Longrightarrow> tk_inv (Slot_new cx r t)"
  by (cases t) (auto simp: Slot_new_def intro: tk_reachable_inv [of cx] tk_reachable.empty tk_reachable.opened)

lemma insert_token_keeps:
  "omap_find slots k = Some tk \<Longrightarrow> omap_find (snd (insertToken cx r n t slots)) k = Some tk"
  by (auto simp: insertToken_def)

lemma tokens_ok_insert:
  "rand_sized (cx_rand cx) \<Longrightarrow> tokens_ok (omap_find slots) \<Longrightarrow> tokens_ok (omap_find (snd (insertToken cx r n t slots)))"
  using tk_inv_slot [of cx r t] by (simp add: insertToken_def tokens_ok_def)

lemma hs_inv_slot_list:
  assumes "rand_sized (cx_rand cx)" "hs_inv st" "C_GetSlotList cx r n present room pul st = (rv, sl, st')"
  shows "hs_inv st'"
proof -
  have ins: "hs_inv (st\<lparr>hs_slots := snd (insertToken cx r k t (hs_slots st))\<rparr>)" for k t
    using hs_invD [OF assms(2)] tokens_ok_insert [OF assms(1)] insert_token_keeps [of "hs_slots st" _ _ cx r k t]
    by (fastforce simp: hs_inv_def sessions_placed_def)
  have list: "hs_inv (st\<lparr>hs_slots := slots\<rparr>)" if "getSlotList cx r n pr ro pu (hs_slots st) = (a, b, slots)" for pr ro pu a b slots
    using that ins assms(2) by (auto simp: getSlotList_def Let_def split: if_splits option.splits prod.splits)
  have count: "hs_inv (st\<lparr>hs_slots := slots'\<rparr>)"
    if "getSlotList cx r n pr ro pu (hs_slots st) = (a, b, slots)" "fakeRutokenPresentCount slots = (m, slots')" for pr ro pu a b slots m slots'
    using hs_inv_read [OF list [OF that(1)], of slots'] facade_read(3) [OF that(2)] by simp
  show ?thesis
    using assms(2, 3) list count
    by (auto simp: C_GetSlotList_def Let_def split: if_splits option.splits prod.splits)
qed

lemma tokens_ok_start:
  assumes "rand_sized (cx_rand cx)" "tokens_ok (omap_find slots)" "insert_tokens cx r ts slots = (ok, slots')"
  shows "tokens_ok (omap_find slots')"
  using assms(2, 3)
proof (induction ts arbitrary: slots ok slots')
  case (Cons t ts)
  obtain bs t1 where t: "getTokenSerial t = (bs, t1)" by (cases "getTokenSerial t")
  define n where "n = slotID_of_serial (map (\<lambda>b. char_of (unat b)) (case bs of None \<Rightarrow> [] | Some b \<Rightarrow> b))"
  obtain ok1 s1 where s1: "insertToken cx r n (Some t1) slots = (ok1, s1)" by (cases "insertToken cx r n (Some t1) slots")
  obtain ok2 s2 where s2: "insert_tokens cx r ts s1 = (ok2, s2)" by (cases "insert_tokens cx r ts s1")
  have "tokens_ok (omap_find s1)" using tokens_ok_insert [OF assms(1) Cons.prems(1), of r n "Some t1"] s1 by simp
  from Cons.IH [OF this s2] Cons.prems(2) t s1 s2 show ?case by (simp add: n_def Let_def)
qed simp

lemma hs_inv_start:
  assumes "rand_sized (cx_rand cx)"
  shows "hs_inv (hs_start cx r rutoken tokens ev)"
proof -
  have "tokens_ok (omap_find (snd (SlotManager_new cx r tokens)))"
  proof -
    obtain ok slots where i: "insert_tokens cx r tokens [] = (ok, slots)" by (cases "insert_tokens cx r tokens []")
    have "tokens_ok (omap_find slots)" by (rule tokens_ok_start [OF assms _ i]) (simp add: tokens_ok_def)
    then show ?thesis
      using i tokens_ok_insert [OF assms, of slots r "of_nat (length tokens)" None]
      by (cases "insertToken cx r (of_nat (length tokens)) None slots") (simp add: SlotManager_new_def)
  qed
  moreover have v: "hview HandleManager_new = (\<lambda>_. None)" by (simp add: HandleManager_new_def hview_def fun_eq_iff)
  moreover have "references (\<lambda>_. None) = (\<lambda>_. 0)" by (simp add: references_def held_def fun_eq_iff)
  then have "store_ok (\<lambda>_. None) SessionObjectStore_new"
    using refs_ok_new by (simp add: store_ok_def SessionObjectStore_new_def)
  ultimately show ?thesis
    using hm_inv_new sm_inv_new
    by (simp add: hs_inv_def hs_start_def sessions_match_def sessions_placed_def SessionManager_new_def)
qed

section \<open>Objects of a session\<close>

text \<open>
  What \<open>CreateObject\<close> and \<open>C_DestroyObject\<close> do to the handle manager and the store for a
  session object: the object is created under the session and gets a handle, its
  attributes are set; it is destroyed through its handle. The allocator gives an unused
  address.
\<close>

definition create_session_object :: "addr \<Rightarrow> ulong \<Rightarrow> ulong \<Rightarrow> bool \<Rightarrow> ('c, 'r) softhsm \<Rightarrow> ulong \<times> ('c, 'r) softhsm" where
  "create_session_object a slotID hSession isPrivate st =
     (let store = ss_createObject a slotID hSession isPrivate (hs_store st);
          (h, hm, taken) = addSessionObject (hs_hm st) slotID hSession isPrivate a
      in (h, st\<lparr>hs_store := fold acquire taken store, hs_hm := hm\<rparr>))"

definition destroy_session_object :: "ulong \<Rightarrow> ('c, 'r) softhsm \<Rightarrow> bool \<times> ('c, 'r) softhsm" where
  "destroy_session_object hObject st =
     (let object = getObject (hs_hm st) hObject;
          (hm, released) = hm_destroyObject (hs_hm st) hObject;
          (ok, store) = ss_deleteObject object (fold release released (hs_store st))
      in (ok, st\<lparr>hs_store := store, hs_hm := hm\<rparr>))"

lemma hs_inv_create:
  assumes "hs_inv st" "find_session h st = Some (p, s, tk)" "handleCounter (hs_hm st) + 1 \<noteq> 0"
    and "omap_find (ss_heap (hs_store st)) a = None" "omap_find (objects (hs_hm st)) a = None"
    and "create_session_object a (se_slot s) h priv st = (c, st')"
  shows "hs_inv st'"
proof -
  note I = hs_invD [OF assms(1)]
  from find_session_facts(1) [OF assms(1, 2)] obtain e where
    e: "hview (hs_hm st) h = Some e" "h_kind e = CKH_SESSION" "h_slotID e = se_slot s" by blast
  let ?c = "handleCounter (hs_hm st) + 1" and ?e = "(Handle3 CKH_OBJECT (se_slot s) h)\<lparr>h_isPrivate := priv, h_object := a\<rparr>"
  obtain hm where hm: "addSessionObject (hs_hm st) (se_slot s) h priv a = (?c, hm, [a])"
    using assms(5) by (simp add: addSessionObject_def Let_def)
  have v: "hview hm = (hview (hs_hm st))(?c \<mapsto> ?e)"
    using hm assms(5) by (auto simp: addSessionObject_def Let_def hview_handles hview_find)
  have fresh: "hview (hs_hm st) ?c = None" by (rule hm_fresh [OF I(1) assms(3)])
  have "hm_inv hm"
    using addSessionObject_inv [OF I(1) assms(3) _ e, of a priv] assms(5) hm by (simp add: registered_here_def)
  moreover have "store_ok (hview hm) (acquire a (ss_createObject a (se_slot s) h priv (hs_store st)))"
    unfolding v using e handle_nonzero [OF I(1) e(1)]
    by (intro store_ok_create [OF I(4) assms(4) fresh]) (auto simp: session_entry_def object_entry_def Handle3_def)
  moreover have "sessions_match (hview hm) (omap_find (sm_heap (hs_sm st)))"
    using fresh by (intro sessions_match_same [OF I(3)]) (auto simp: v Handle3_def)
  ultimately show ?thesis
    using assms(6) hm I by (auto simp: create_session_object_def hs_inv_def)
qed

lemma hs_inv_destroy:
  assumes "hs_inv st" "hview (hs_hm st) h = Some e" "object_entry e" "destroy_session_object h st = (ok, st')"
  shows "hs_inv st'"
proof -
  note I = hs_invD [OF assms(1)]
  have o: "h_kind e = CKH_OBJECT" "h_hSession e \<noteq> 0" using assms(3) by (simp_all add: object_entry_def)
  obtain hm where d: "hm_destroyObject (hs_hm st) h = (hm, [h_object e])"
    using assms(2) o by (simp add: hm_destroyObject_def hview_find Let_def)
  have v: "hview hm = (hview (hs_hm st))(h := None)" using hm_destroyObject_view [of "hs_hm st" h] d assms(2) o by simp
  have g: "getObject (hs_hm st) h = h_object e" using assms(2) o by (simp add: getObject_def hview_find)
  have st': "st' = st\<lparr>hs_store := snd (ss_deleteObject (h_object e) (release (h_object e) (hs_store st))), hs_hm := hm\<rparr>"
    using assms(4) d g by (auto simp: destroy_session_object_def split: prod.splits)
  have "hm_inv hm" using hm_destroyObject_inv [OF I(1), of h] d by simp
  moreover have "store_ok (hview hm) (snd (ss_deleteObject (h_object e) (release (h_object e) (hs_store st))))"
    unfolding v by (rule store_ok_destroy [OF I(1, 4) assms(2, 3)])
  moreover have "sessions_match (hview hm) (\<lambda>q. if q \<in> {} then None else omap_find (sm_heap (hs_sm st)) q)"
    unfolding v using assms(2) o(1) by (intro sessions_match_drop [OF I(3)]) (auto split: if_splits)
  ultimately show ?thesis using I by (simp add: hs_inv_def st')
qed

lemma hs_inv_attribute:
  "hs_inv st \<Longrightarrow> hs_inv (st\<lparr>hs_store := heap_update a (\<lambda>x. snd (so_setAttribute ty v x)) (hs_store st)\<rparr>)"
  by (simp add: hs_inv_def store_ok_attributes)

end
