(* ===== verification/Library_History.thy ===== *)
theory Library_History
  imports SoftHSM_Safety
begin

text \<open>
  Histories of calls to the library (\<^verbatim>\<open>src/lib/SoftHSM.cpp\<close>): the invariant of
  \<^verbatim>\<open>SoftHSM_Safety\<close> holds in every state that a sequence of calls reaches. Shown from it: no
  handle leads to memory that was freed and no session object is forgotten; the SO never
  shares a slot with a read-only session or a logged-in user; what closing a session and
  logging out remove, and what they leave alone.
\<close>

section \<open>Histories\<close>

text \<open>
  One call of the library. Functions that read the layout of the Rutoken profile more than
  once do so while nobody else changes it (\<open>one_slot\<close>); the allocator and the counters have
  room.
\<close>

inductive hs_step :: "('c, 'd, 'r) crypto \<Rightarrow> ('c, 'r) softhsm \<Rightarrow> ('c, 'r) softhsm \<Rightarrow> bool" for cx where
  GetSlotList: "C_GetSlotList cx r n present room pul st = (rv, sl, st') \<Longrightarrow> hs_step cx st st'"
| InitToken: "one_slot k st \<Longrightarrow> C_InitToken cx req os k pin lbl st = (rvo, st') \<Longrightarrow> hs_step cx st st'"
| InitPIN: "C_InitPIN cx h pin st = (rvo, st') \<Longrightarrow> hs_step cx st st'"
| SetPIN: "C_SetPIN cx h old new st = (rv, st') \<Longrightarrow> hs_step cx st st'"
| OpenSession: "one_slot k st \<Longrightarrow> room_for_session a st \<Longrightarrow> C_OpenSession a k flags ph st = (r, st') \<Longrightarrow> hs_step cx st st'"
| CloseSession: "C_CloseSession h st = (rv, st') \<Longrightarrow> hs_step cx st st'"
| CloseAllSessions: "one_slot k st \<Longrightarrow> C_CloseAllSessions k st = (rv, st') \<Longrightarrow> hs_step cx st st'"
| GetSessionInfo: "C_GetSessionInfo h info st = (x, st') \<Longrightarrow> hs_step cx st st'"
| Login: "C_Login cx h userType pin st = (rv, st') \<Longrightarrow> hs_step cx st st'"
| Logout: "C_Logout h st = (rv, st') \<Longrightarrow> hs_step cx st st'"
| EX_InitToken: "one_slot k st \<Longrightarrow> C_EX_InitToken cx os k pin n info' st = (rv, st') \<Longrightarrow> hs_step cx st st'"
| EX_UnblockUserPIN: "C_EX_UnblockUserPIN h st = (rv, st') \<Longrightarrow> hs_step cx st st'"
| EX_SetTokenName: "C_EX_SetTokenName h pin m st = (rv, st') \<Longrightarrow> hs_step cx st st'"
| EX_SetLicense: "C_EX_SetLicense h k pin m st = (rv, st') \<Longrightarrow> hs_step cx st st'"
| EX_SetLocalPIN: "C_EX_SetLocalPIN cx k old new m st = (rv, st') \<Longrightarrow> hs_step cx st st'"
| EX_TokenManage: "C_EX_TokenManage h mode v st = (rv, st') \<Longrightarrow> hs_step cx st st'"
| FindObjects: "C_FindObjects h ph m pul st = (found, st') \<Longrightarrow> hs_step cx st st'"
| FindObjectsFinal: "C_FindObjectsFinal h st = (rv, st') \<Longrightarrow> hs_step cx st st'"
| Create: "find_session h st = Some (p, s, tk) \<Longrightarrow> haveWrite (getState tk s) False priv = CKR_OK \<Longrightarrow>
    handleCounter (hs_hm st) + 1 \<noteq> 0 \<Longrightarrow> omap_find (ss_heap (hs_store st)) a = None \<Longrightarrow>
    omap_find (objects (hs_hm st)) a = None \<Longrightarrow> create_session_object a (se_slot s) h priv st = (c, st') \<Longrightarrow> hs_step cx st st'"
| Attribute: "hs_step cx st (st\<lparr>hs_store := heap_update a (\<lambda>x. snd (so_setAttribute ty val x)) (hs_store st)\<rparr>)"
| Destroy: "hview (hs_hm st) h = Some e \<Longrightarrow> object_entry e \<Longrightarrow> destroy_session_object h st = (ok, st') \<Longrightarrow> hs_step cx st st'"

inductive hs_reachable :: "('c, 'd, 'r) crypto \<Rightarrow> ('c, 'r) softhsm \<Rightarrow> bool" for cx where
  start: "hs_reachable cx (hs_start cx r rutoken tokens ev)"
| step: "hs_reachable cx st \<Longrightarrow> hs_step cx st st' \<Longrightarrow> hs_reachable cx st'"

lemma hs_step_inv:
  assumes "rand_sized (cx_rand cx)" "hs_step cx st st'" "hs_inv st"
  shows "hs_inv st'"
  using assms(2)
proof cases
  case GetSlotList
  then show ?thesis by (rule hs_inv_slot_list [OF assms(1, 3)])
next
  case InitToken
  then show ?thesis by (rule hs_inv_init_token [OF assms(1, 3)])
next
  case InitPIN
  then show ?thesis by (rule hs_inv_init_pin [OF assms(1, 3)])
next
  case SetPIN
  then show ?thesis by (rule hs_inv_set_pin [OF assms(1, 3)])
next
  case OpenSession
  then show ?thesis by (rule hs_inv_open [OF assms(3)])
next
  case CloseSession
  then show ?thesis by (rule hs_inv_close_session [OF assms(3)])
next
  case CloseAllSessions
  then show ?thesis by (rule hs_inv_close_all [OF assms(3)])
next
  case GetSessionInfo
  then show ?thesis by (rule hs_inv_readers(1) [OF assms(3)])
next
  case Login
  then show ?thesis by (rule hs_inv_login [OF assms(1, 3)])
next
  case Logout
  then show ?thesis by (rule hs_inv_logout [OF assms(3)])
next
  case EX_InitToken
  then show ?thesis by (rule hs_inv_ex_init_token [OF assms(1, 3)])
next
  case EX_UnblockUserPIN
  then show ?thesis by (rule hs_inv_vendor(1) [OF assms(3)])
next
  case EX_SetTokenName
  then show ?thesis by (rule hs_inv_vendor(2) [OF assms(3)])
next
  case EX_SetLicense
  then show ?thesis by (rule hs_inv_vendor(3) [OF assms(3)])
next
  case EX_SetLocalPIN
  then show ?thesis by (rule hs_inv_local_pin [OF assms(3)])
next
  case EX_TokenManage
  then show ?thesis by (rule hs_inv_vendor(4) [OF assms(3)])
next
  case FindObjects
  then show ?thesis by (rule hs_inv_readers(2) [OF assms(3)])
next
  case FindObjectsFinal
  then show ?thesis by (rule hs_inv_readers(3) [OF assms(3)])
next
  case (Create h p s tk priv a c)
  then show ?thesis using hs_inv_create [OF assms(3)] by blast
next
  case Attribute
  with hs_inv_attribute [OF assms(3)] show ?thesis by simp
next
  case Destroy
  then show ?thesis by (rule hs_inv_destroy [OF assms(3)])
qed

lemma hs_steps_inv: "(hs_step cx)\<^sup>*\<^sup>* st st' \<Longrightarrow> rand_sized (cx_rand cx) \<Longrightarrow> hs_inv st \<Longrightarrow> hs_inv st'"
  by (induction rule: rtranclp_induct) (auto intro: hs_step_inv)

lemma hs_reachable_inv: "hs_reachable cx st \<Longrightarrow> rand_sized (cx_rand cx) \<Longrightarrow> hs_inv st"
  by (induction rule: hs_reachable.induct) (auto intro: hs_inv_start hs_step_inv)

section \<open>What closing and logging out leave behind\<close>

lemma find_session_iff:
  assumes "hs_inv st"
  shows "find_session h st = Some (p, s, tk) \<longleftrightarrow>
    (\<exists>e. hview (hs_hm st) h = Some e \<and> h_kind e = CKH_SESSION \<and> h_session e = p)
    \<and> omap_find (sm_heap (hs_sm st)) p = Some s \<and> omap_find (hs_slots st) (se_slot s) = Some tk"
proof
  assume "find_session h st = Some (p, s, tk)"
  from find_session_facts [OF assms this] show "(\<exists>e. hview (hs_hm st) h = Some e \<and> h_kind e = CKH_SESSION \<and> h_session e = p)
    \<and> omap_find (sm_heap (hs_sm st)) p = Some s \<and> omap_find (hs_slots st) (se_slot s) = Some tk" by blast
next
  assume *: "(\<exists>e. hview (hs_hm st) h = Some e \<and> h_kind e = CKH_SESSION \<and> h_session e = p)
    \<and> omap_find (sm_heap (hs_sm st)) p = Some s \<and> omap_find (hs_slots st) (se_slot s) = Some tk"
  then have "p \<noteq> 0" using live_in_vector [OF hs_invD(2) [OF assms], of p] by blast
  with * show "find_session h st = Some (p, s, tk)" by (auto simp: find_session_def hm_getSession_def hview_find)
qed

lemma store_after:
  assumes "store_ok t st" "store_ok t' st'"
    and "ss_objects st' = filter (\<lambda>a. \<forall>x. omap_find (ss_heap st) a = Some x \<longrightarrow> \<not> gone x) (ss_objects st)"
    and "\<And>a x. a \<in> set (ss_objects st) \<Longrightarrow> omap_find (ss_heap st) a = Some x \<Longrightarrow> \<not> gone x \<Longrightarrow> omap_find (ss_heap st') a = Some x"
  shows "omap_find (ss_heap st') a = Some x \<longleftrightarrow> omap_find (ss_heap st) a = Some x \<and> \<not> gone x"
proof
  assume x: "omap_find (ss_heap st') a = Some x"
  then have a: "a \<in> set (ss_objects st)" "\<forall>y. omap_find (ss_heap st) a = Some y \<longrightarrow> \<not> gone y"
    using store_ok_listed [OF assms(2) x] assms(3) by auto
  then obtain y where y: "omap_find (ss_heap st) a = Some y"
    using refs_okD(3) [OF store_okD(1) [OF assms(1)], of a] by (auto simp: ref_ok_def split: option.splits)
  with a assms(4) [OF a(1) y] x show "omap_find (ss_heap st) a = Some x \<and> \<not> gone x" by simp
next
  assume "omap_find (ss_heap st) a = Some x \<and> \<not> gone x"
  then show "omap_find (ss_heap st') a = Some x" using store_ok_listed [OF assms(1)] assms(4) by blast
qed

section \<open>A sample history\<close>

text \<open>One token; a session on it, read-write; a private object of that session.\<close>

lemma sample_open:
  fixes tok :: os_token
  obtains st k s tk where "hs_reachable sample_crypto st" "hs_initialised st" "find_session 1 st = Some (10, s, tk)"
    "se_slot s = k" "se_isReadWrite s" "hs_store st = SessionObjectStore_new" "objects (hs_hm st) = []" "handleCounter (hs_hm st) = 1"
    "omap_find (sm_heap (hs_sm st)) = [10 \<mapsto> s]" "tk = Slot_new sample_crypto () (Some (snd (getTokenSerial tok)))" "sm_inv (hs_sm st)"
proof -
  let ?cx = sample_crypto
  obtain bs t where t: "getTokenSerial tok = (bs, t)" by (cases "getTokenSerial tok")
  define k where "k = slotID_of_serial (map (\<lambda>b. char_of (unat b)) (case bs of None \<Rightarrow> [] | Some b \<Rightarrow> b))"
  define tk :: "(unit, unit) hsm_token" where "tk = Slot_new ?cx () (Some t)"
  define st0 where "st0 = hs_start ?cx () False [tok] SlotEventState_new"
  have slots: "omap_find (hs_slots st0) k = Some tk"
  proof -
    have "insert_tokens ?cx () [tok] [] = (True, omap_insert k tk [])"
      using t by (simp add: insertToken_def Let_def k_def tk_def)
    then show ?thesis
      by (simp add: st0_def hs_start_def SlotManager_new_def insertToken_def)
  qed
  have f: "hs_initialised st0" "\<not> hs_rutoken st0" "hs_sm st0 = SessionManager_new" "hs_hm st0 = HandleManager_new"
    "hs_store st0 = SessionObjectStore_new"
    by (simp_all add: st0_def hs_start_def)
  have i: "isInitialized tk" by (auto simp: tk_def Slot_new_def Token_new_def isInitialized_def split: prod.splits)
  have fl: "(6 :: ulong) AND CKF_SERIAL_SESSION \<noteq> 0" "(6 :: ulong) AND CKF_RW_SESSION = CKF_RW_SESSION" "CKF_RW_SESSION \<noteq> 0"
    by (simp_all add: CKF_SERIAL_SESSION_def CKF_RW_SESSION_def)
  have rs: "resolve_slot k st0 = (Inr (k, Some (k, tk)), st0)" using f(2) slots by (simp add: resolve_slot_def getSlot_def)
  define s where "s = (Session_new k True)\<lparr>se_hSession := 1\<rparr>"
  have o: "sm_openSession 10 (Some (k, tk)) 6 True SessionManager_new = (Inr 1, \<lparr>sm_sessions = [10], sm_heap = [(10, s)]\<rparr>)"
    using i fl by (simp add: sm_openSession_def SessionManager_new_def s_def)
  obtain st1 where st1: "C_OpenSession 10 k 6 True st0 = (Inr 1, st1)" "st1 = st0\<lparr>hs_sm := \<lparr>sm_sessions = [10], sm_heap = [(10, s)]\<rparr>,
      hs_hm := snd (addSession HandleManager_new k 10)\<rparr>"
    using f rs o by (simp add: C_OpenSession_def sm_getSession_def addSession_def HandleManager_new_def Let_def)
  have "hs_step ?cx st0 st1"
    using f by (intro hs_step.OpenSession [OF one_slot_plain [OF f(2)] _ st1(1)])
      (simp add: room_for_session_def SessionManager_new_def HandleManager_new_def)
  then have r: "hs_reachable ?cx st1"
    using hs_reachable.step hs_reachable.start [of ?cx "()" False "[tok]" SlotEventState_new] by (simp add: st0_def)
  have inv: "sm_inv (hs_sm st1)" using hs_reachable_inv [OF r] sample_crypto_ok(1) hs_invD(2) by (auto simp: crypto_ok_def)
  show thesis
  proof (rule that [OF r])
    show "find_session 1 st1 = Some (10, s, tk)"
      using slots by (simp add: st1(2) find_session_def hm_getSession_def addSession_def HandleManager_new_def Handle2_def Let_def s_def Session_new_def)
  qed (use f inv in \<open>auto simp: st1(2) s_def tk_def t Session_new_def addSession_def HandleManager_new_def Let_def\<close>)
qed

lemma sample_object:
  obtains st p s tk x where "hs_reachable sample_crypto st" "hs_initialised st" "find_session 1 st = Some (p, s, tk)"
    "omap_find (ss_heap (hs_store st)) 20 = Some x" "so_hSession x = 1" "so_slotID x = se_slot s"
proof (rule sample_open [of sample_token])
  fix st :: "(unit, unit) softhsm" and k s tk
  assume r: "hs_reachable sample_crypto st" and i: "hs_initialised st" and f: "find_session 1 st = Some (10, s, tk)"
    and s: "hs_store st = SessionObjectStore_new" "objects (hs_hm st) = []" "handleCounter (hs_hm st) = 1"
  obtain c st' where c: "create_session_object 20 (se_slot s) 1 False st = (c, st')"
    by (cases "create_session_object 20 (se_slot s) 1 False st")
  have inv: "hs_inv st" using hs_reachable_inv [OF r] sample_crypto_ok(1) by (simp add: crypto_ok_def)
  have w: "haveWrite (getState tk s) False False = CKR_OK"
    by (simp add: haveWrite_def getState_def CKS_defs)
  have "hs_step sample_crypto st st'"
    using s by (intro hs_step.Create [OF f w _ _ _ c]) (simp_all add: SessionObjectStore_new_def)
  then have r': "hs_reachable sample_crypto st'" using r hs_reachable.step by blast
  have st': "hs_initialised st'" "hs_sm st' = hs_sm st" "hs_slots st' = hs_slots st"
    "hview (hs_hm st') = (hview (hs_hm st))(2 \<mapsto> (Handle3 CKH_OBJECT (se_slot s) 1)\<lparr>h_isPrivate := False, h_object := 20\<rparr>)"
    using c i s by (auto simp: create_session_object_def addSessionObject_def Let_def hview_handles hview_find)
  have "find_session 1 st' = find_session 1 st"
    unfolding find_session_def hm_getSession_def hview_find st' by simp
  then have "find_session 1 st' = Some (10, s, tk)" using f by simp
  moreover have "omap_find (ss_heap (hs_store st')) 20 = Some ((SessionObject_new (se_slot s) 1 False)\<lparr>so_refCount := 2\<rparr>)"
    using c s by (auto simp: create_session_object_def addSessionObject_def Let_def ss_createObject_def acquire_def SessionObject_new_def)
  ultimately show thesis using that [OF r' st'(1)] by (simp add: SessionObject_new_def)
qed

lemma sample_rand: "rand_sized (cx_rand sample_crypto)"
  using sample_crypto_ok(1) by (simp add: crypto_ok_def)

text \<open>The SO's right PIN on a disk that works.\<close>

lemma so_pin_logs_in:
  assumes "crypto_ok cx H" "tk_token tk = Some t" "works t g m" "omap_find m CKA_OS_TOKENFLAGS \<noteq> None"
    and "0 < tries True m" "tk_sdm tk = Some s" "sdm_inv s" "\<not> soLoggedIn s" "\<not> userLoggedIn s"
    and "blob_seals cx pin key aes (soEncryptedKey s)" "idle aes"
  shows "\<exists>tk'. loginSO cx pin tk = (CKR_OK, tk') \<and> isSOLoggedIn tk'"
proof -
  obtain t1 where 1: "pinLocked True tk = (False, put_token t1 tk)" "works t1 g m"
    using pinLocked_works [OF assms(2, 3), of True] assms(5) by auto
  obtain s1 where "sdm_login cx pin (soEncryptedKey s) s = (True, s1)"
    using sdm_login_sealed [OF assms(1, 10, 11, 7)] by blast
  then have u: "sdm_loginSO cx pin s = (True, s1\<lparr>soLoggedIn := True\<rparr>)" by (simp add: sdm_loginSO_def)
  obtain p where p: "advance_bytes True True (policy_of m) = Some p" "p ! leftIndex True \<noteq> 0"
    using advance_total [OF assms(5)] by blast
  obtain t2 g' m' where "pinResult True True t1 (s1\<lparr>soLoggedIn := True\<rparr>) = (CKR_OK, t2, s1\<lparr>soLoggedIn := True\<rparr>)"
    "works t2 g' m'"
    using pinResult_works [OF 1(2) assms(4) p(1), of "s1\<lparr>soLoggedIn := True\<rparr>"] p(2) by auto
  with assms(6, 8, 9) 1(1) u show ?thesis by (simp add: loginSO_def tk_pinResult_def isSOLoggedIn_def)
qed

text \<open>The library with the SO logged in on slot 0 and no session.\<close>

lemma sample_so:
  obtains tk :: "(unit, unit) hsm_token" where "loginSO sample_crypto [1, 2, 3, 4] sample_user = (CKR_OK, tk)" "isSOLoggedIn tk" "tk_inv tk"
proof -
  let ?m = "[(CKA_OS_TOKENFLAGS, ULONG CKF_RNG)]" and ?s = "SecureDataManager_blobs sample_crypto () sample_blob sample_blob"
  obtain key aes where aes: "idle aes" "blob_seals sample_crypto [1, 2, 3, 4] key aes sample_blob"
    using setSOPIN_seals(1) [OF sample_crypto_ok(1) sample_new_inv sample_set] by (auto simp: sample_blob_def)
  have pol: "policy_of ?m = default_policy" by (simp add: policy_of_def CKA_OS_TOKENFLAGS_def CKA_OS_PINPOLICY_def)
  have "tries True ?m = 10" by (simp add: tries_def pol default_policy_def policy_bytes_ok_def leftIndex_def)
  moreover have i: "sdm_inv ?s" by (intro sdm_inv_constructors sample_rand)
  moreover have "\<not> soLoggedIn ?s" "\<not> userLoggedIn ?s" "soEncryptedKey ?s = sample_blob"
    by (simp_all add: SecureDataManager_blobs_def initObject_def split: prod.splits)
  moreover have u: "tk_token sample_user = Some sample_flagged" "tk_sdm sample_user = Some ?s" by (simp_all add: sample_user_def)
  ultimately obtain tk where tk: "loginSO sample_crypto [1, 2, 3, 4] sample_user = (CKR_OK, tk)" "isSOLoggedIn tk"
    using so_pin_logs_in [OF sample_crypto_ok(1) u(1) sample_flagged_works, of ?s "[1, 2, 3, 4]" key aes] aes by auto
  have "tk_inv sample_user" using i u by (simp add: tk_inv_def)
  from tk_inv_login(1) [OF sample_rand this tk(1)] tk show thesis by (intro that)
qed

section \<open>Properties\<close>



text \<open>
  C2: the SO shares a slot with nobody. In every state that calls reach from a sound state
  (\<open>hs_inv\<close>, which the first state satisfies), while the SO is logged in on the token of a slot: no read-only session is open on the slot, the user is not logged
  in, and every session of the slot is in the state of the SO's functions, in which no
  private object can be read.
\<close>

theorem so_excludes_readers:
  assumes "rand_sized (cx_rand cx)" and "hs_inv st0" and "(hs_step cx)\<^sup>*\<^sup>* st0 st" and "omap_find (hs_slots st) k = Some tk" and "isSOLoggedIn tk"
  shows "\<not> haveROSession k (hs_sm st) \<and> \<not> isUserLoggedIn tk
    \<and> (\<forall>h p s. find_session h st = Some (p, s, tk) \<and> se_slot s = k \<longrightarrow>
         getState tk s = CKS_RW_SO_FUNCTIONS \<and> haveRead (getState tk s) isToken True = CKR_USER_NOT_LOGGED_IN)"
proof -
  have i: "hs_inv st" by (rule hs_steps_inv [OF assms(3, 1, 2)])
  note I = hs_invD [OF i]
  have rw: "se_isReadWrite s" if "omap_find (sm_heap (hs_sm st)) p = Some s" "se_slot s = k" for p s
    using I(5) that assms(4, 5) by (fastforce simp: sessions_placed_def)
  have "tk_inv tk" using I(6) assms(4) by (auto simp: tokens_ok_def)
  with assms(5) have "\<not> isUserLoggedIn tk"
    by (auto simp: tk_inv_def isSOLoggedIn_def isUserLoggedIn_def sdm_inv_def split: option.splits)
  moreover have "\<not> haveROSession k (hs_sm st)" using haveROSession_iff [OF I(2)] rw by blast
  moreover have "getState tk s = CKS_RW_SO_FUNCTIONS" for s using assms(5) by (simp add: getState_def)
  ultimately show ?thesis by (simp add: haveRead_def CKS_defs)
qed

theorem so_excludes_readers_witness:
  "\<exists>st (tk :: (unit, unit) hsm_token). hs_inv st \<and> omap_find (hs_slots st) 0 = Some tk \<and> isSOLoggedIn tk \<and> \<not> isUserLoggedIn tk"
proof (rule sample_so)
  fix tk :: "(unit, unit) hsm_token" assume tk: "isSOLoggedIn tk" "tk_inv tk"
  let ?st = "(hs_start sample_crypto () False [] SlotEventState_new)\<lparr>hs_slots := [(0, tk)]\<rparr>"
  have "hs_inv ?st"
    using hs_inv_start [OF sample_rand, of "()" False "[]" SlotEventState_new] tk(2)
    by (simp add: hs_inv_def sessions_placed_def tokens_ok_def hs_start_def SessionManager_new_def)
  with so_excludes_readers [OF sample_rand this, of ?st 0 tk] tk(1) show ?thesis by (intro exI [of _ ?st] exI [of _ tk]) simp
qed

text \<open>
  C3: closing a session removes what is the session's and nothing else. \<^verbatim>\<open>C_CloseSession\<close> on
  a live handle succeeds; the handle is dead and the session's memory is free; every other
  session keeps its handle and its state; exactly the session objects of the session are
  gone from memory; and when no session is left on the slot, nobody is logged in there.
\<close>

theorem close_session_complete:
  assumes "hs_inv st" and "hs_initialised st" and "find_session h st = Some (p, s, tk)" and "C_CloseSession h st = (rv, st')"
  shows "rv = CKR_OK \<and> find_session h st' = None \<and> omap_find (sm_heap (hs_sm st')) p = None
    \<and> (\<forall>k q r t. k \<noteq> h \<and> find_session k st = Some (q, r, t) \<longrightarrow> (\<exists>t'. find_session k st' = Some (q, r, t')))
    \<and> (\<forall>a x. omap_find (ss_heap (hs_store st')) a = Some x \<longleftrightarrow> omap_find (ss_heap (hs_store st)) a = Some x \<and> so_hSession x \<noteq> h)
    \<and> (\<not> haveSession (se_slot s) (hs_sm st') \<longrightarrow>
         (\<exists>t'. omap_find (hs_slots st') (se_slot s) = Some t' \<and> \<not> isSOLoggedIn t' \<and> \<not> isUserLoggedIn t'))"
proof -
  note I = hs_invD [OF assms(1)] and C = close_session_state [OF assms] and F = find_session_facts [OF assms(1, 3)]
  have i': "hs_inv st'" by (rule hs_inv_close_session [OF assms(1, 4)])
  note I' = hs_invD [OF i']
  let ?t = "hview (hs_hm st)"
  from F(1) obtain e where e: "?t h = Some e" "h_kind e = CKH_SESSION" "h_session e = p" "h_slotID e = se_slot s" by blast
  have entry: "session_entry (hview (hs_hm st')) k l \<longleftrightarrow> session_entry ?t k l \<and> k \<noteq> h" for k l
    using session_closed_entries [of ?t h e k l, OF e(1, 2)] by (simp add: C(3))
  have "find_session h st' = None"
  proof (rule ccontr)
    assume "find_session h st' \<noteq> None"
    then obtain q r t where "find_session h st' = Some (q, r, t)" by auto
    from find_session_facts(1) [OF i' this] entry [of h "se_slot r"] show False by (auto simp: session_entry_def)
  qed
  moreover have "\<exists>t'. find_session k st' = Some (q, r, t')" if k: "k \<noteq> h" "find_session k st = Some (q, r, t)" for k q r t
  proof -
    from find_session_facts [OF assms(1) k(2)] obtain d where d: "?t k = Some d" "h_kind d = CKH_SESSION" "h_session d = q"
      "h_slotID d = se_slot r" "omap_find (sm_heap (hs_sm st)) q = Some r" by blast
    then have "q \<noteq> p" using one_handle [OF I(3) e(1, 2) d(1, 2)] e(3) k(1) by auto
    then have r: "omap_find (sm_heap (hs_sm st')) q = Some r" using d(5) C(5) by simp
    then obtain t' where "omap_find (hs_slots st') (se_slot r) = Some t'" using I'(5) by (auto simp: sessions_placed_def)
    moreover have "hview (hs_hm st') k = Some d"
      using entry [of k "se_slot r"] d k(1) spec_sessionClosed_le [of ?t h k] by (auto simp: session_entry_def C(3))
    ultimately show ?thesis using find_session_iff [OF i', of k q r t'] r d by auto
  qed
  moreover have "omap_find (ss_heap (hs_store st')) a = Some x \<longleftrightarrow> omap_find (ss_heap (hs_store st)) a = Some x \<and> so_hSession x \<noteq> h" for a x
    using store_after [OF I(4) I'(4), of "\<lambda>x. so_hSession x = h" a x] close_one.closed(2, 3) [OF I(1, 4), where s = h] by (simp add: C(6))
  moreover have "\<exists>t'. omap_find (hs_slots st') (se_slot s) = Some t' \<and> \<not> isSOLoggedIn t' \<and> \<not> isUserLoggedIn t'"
    if n: "\<not> haveSession (se_slot s) (hs_sm st')"
  proof -
    have "open_on (hs_sm st') (se_slot s) = {}" using haveSession_iff [OF I'(2)] n by blast
    then have "open_on (hs_sm st) (se_slot s) \<subseteq> {p}" using C(5) by (auto simp: open_on_def split: if_splits)
    moreover have "p \<in> open_on (hs_sm st) (se_slot s)" using F(2) by (simp add: open_on_def)
    ultimately have "open_on (hs_sm st) (se_slot s) = {p}" by blast
    then show ?thesis
      using F(3) by (simp add: C(7) logout_slot_def logout_simps)
  qed
  ultimately show ?thesis using C(1, 5) by simp
qed

theorem close_session_complete_witness:
  "\<exists>st :: (unit, unit) softhsm. hs_reachable sample_crypto st \<and> omap_find (ss_heap (hs_store st)) 20 \<noteq> None
     \<and> find_session 1 st \<noteq> None \<and> fst (C_CloseSession 1 st) = CKR_OK
     \<and> omap_find (ss_heap (hs_store (snd (C_CloseSession 1 st)))) 20 = None"
proof (rule sample_object)
  fix st :: "(unit, unit) softhsm" and p s tk x
  assume r: "hs_reachable sample_crypto st" and i: "hs_initialised st" and f: "find_session 1 st = Some (p, s, tk)"
    and x: "omap_find (ss_heap (hs_store st)) 20 = Some x" "so_hSession x = 1"
  obtain rv st' where c: "C_CloseSession 1 st = (rv, st')" by (cases "C_CloseSession 1 st")
  have inv: "hs_inv st" by (rule hs_reachable_inv [OF r sample_rand])
  from close_session_complete [OF inv i f c] x have "rv = CKR_OK" "omap_find (ss_heap (hs_store st')) 20 = None"
    by (simp, metis (no_types, lifting) not_Some_eq option.inject)
  with r f x c show ?thesis by (intro exI [of _ st]) simp
qed

text \<open>
  C4: logging out leaves nothing private behind. \<^verbatim>\<open>C_Logout\<close> on a live handle succeeds; nobody
  is logged in on the slot; no object handle of the slot that leads to a private object,
  session or token object, resolves any more, and every other handle resolves as before;
  exactly the private session objects of the slot are gone from memory; all sessions stay.
\<close>

theorem logout_leaves_nothing_private:
  assumes "hs_inv st" and "hs_initialised st" and "find_session h st = Some (p, s, tk)" and "C_Logout h st = (rv, st')"
  shows "rv = CKR_OK
    \<and> (\<exists>t'. omap_find (hs_slots st') (se_slot s) = Some t' \<and> \<not> isSOLoggedIn t' \<and> \<not> isUserLoggedIn t')
    \<and> (\<forall>k e. omap_find (handles (hs_hm st)) k = Some e \<longrightarrow>
         getObject (hs_hm st') k = (if h_slotID e = se_slot s \<and> h_isPrivate e then 0 else getObject (hs_hm st) k))
    \<and> (\<forall>a x. omap_find (ss_heap (hs_store st')) a = Some x \<longleftrightarrow>
         omap_find (ss_heap (hs_store st)) a = Some x \<and> \<not> (so_slotID x = se_slot s \<and> so_isPrivate x))
    \<and> (\<forall>k. find_session k st \<noteq> None \<longrightarrow> find_session k st' \<noteq> None)"
proof -
  note I = hs_invD [OF assms(1)] and F = find_session_facts [OF assms(1, 3)]
  have i': "hs_inv st'" by (rule hs_inv_logout [OF assms(1, 4)])
  note I' = hs_invD [OF i']
  let ?k = "se_slot s" and ?hm = "fst (hm_tokenLoggedOut (hs_hm st) (se_slot s))" and ?rel = "snd (hm_tokenLoggedOut (hs_hm st) (se_slot s))"
  have rv: "rv = CKR_OK" and st': "st' = (put_slot ?k (tk_logout tk) st)\<lparr>hs_hm := ?hm, hs_store := ss_tokenLoggedOut ?k (fold release ?rel (hs_store st))\<rparr>"
    using assms(2-4) by (auto simp: C_Logout_def Let_def split: prod.splits)
  have v: "hview ?hm = scan_erase (\<lambda>_ e. h_slotID e = ?k \<and> private_object e) (hview (hs_hm st))"
    by (rule logged_out.view [OF I(1)])
  have "getObject ?hm k = (if h_slotID e = ?k \<and> h_isPrivate e then 0 else getObject (hs_hm st) k)"
    if "omap_find (handles (hs_hm st)) k = Some e" for k e
    using logged_out.getObject_spec [OF I(1), of ?k k] that by (auto simp: hview_def getObject_def)
  moreover have "omap_find (ss_heap (hs_store st')) a = Some x \<longleftrightarrow>
      omap_find (ss_heap (hs_store st)) a = Some x \<and> \<not> (so_slotID x = ?k \<and> so_isPrivate x)" for a x
    using store_after [OF I(4) I'(4), of "\<lambda>x. so_slotID x = ?k \<and> so_isPrivate x" a x] log_out.closed(2, 3) [OF I(1, 4), where slot = ?k]
    by (simp add: st')
  moreover have "find_session k st' \<noteq> None" if k: "find_session k st \<noteq> None" for k
  proof -
    from k obtain q r t where f: "find_session k st = Some (q, r, t)" by auto
    from find_session_facts [OF assms(1) f] obtain d where d: "hview (hs_hm st) k = Some d" "h_kind d = CKH_SESSION" "h_session d = q"
      "omap_find (sm_heap (hs_sm st)) q = Some r" "omap_find (hs_slots st) (se_slot r) = Some t" by blast
    then have "hview (hs_hm st') k = Some d" "omap_find (sm_heap (hs_sm st')) q = Some r" by (simp_all add: st' v)
    moreover obtain t' where "omap_find (hs_slots st') (se_slot r) = Some t'" using d(5) by (cases "se_slot r = ?k") (simp_all add: st')
    ultimately show ?thesis using d find_session_iff [OF i', of k q r t'] by auto
  qed
  moreover have "\<exists>t'. omap_find (hs_slots st') ?k = Some t' \<and> \<not> isSOLoggedIn t' \<and> \<not> isUserLoggedIn t'"
    by (simp add: st' logout_simps)
  ultimately show ?thesis using rv by (simp add: st')
qed

theorem logout_leaves_nothing_private_witness:
  "\<exists>st :: (unit, unit) softhsm. hs_reachable sample_crypto st \<and> find_session 1 st \<noteq> None
     \<and> fst (C_Logout 1 st) = CKR_OK \<and> find_session 1 (snd (C_Logout 1 st)) \<noteq> None"
proof (rule sample_object)
  fix st :: "(unit, unit) softhsm" and p s tk x
  assume r: "hs_reachable sample_crypto st" and i: "hs_initialised st" and f: "find_session 1 st = Some (p, s, tk)"
  obtain rv st' where c: "C_Logout 1 st = (rv, st')" by (cases "C_Logout 1 st")
  have inv: "hs_inv st" by (rule hs_reachable_inv [OF r sample_rand])
  from logout_leaves_nothing_private [OF inv i f c] r f c show ?thesis by (intro exI [of _ st]) auto
qed

end
