(* ===== verification/P11_Constants.thy ===== *)
theory P11_Constants
  imports HSM_Prelude
begin

text \<open>
  The attribute types, object classes, key, certificate and mechanism types that
  \<^verbatim>\<open>P11Attributes.cpp\<close> and \<^verbatim>\<open>P11Objects.cpp\<close> mention, with the
  values of \<^verbatim>\<open>pkcs11/pkcs11.h\<close> and \<^verbatim>\<open>pkcs11/rutoken.h\<close>. They are input
  abbreviations, so that comparing two of them is arithmetic on numerals.
\<close>

abbreviation (input) CKA_ALLOWED_MECHANISMS :: ulong where "CKA_ALLOWED_MECHANISMS \<equiv> 0x40000600"
abbreviation (input) CKA_ALWAYS_AUTHENTICATE :: ulong where "CKA_ALWAYS_AUTHENTICATE \<equiv> 0x202"
abbreviation (input) CKA_ALWAYS_SENSITIVE :: ulong where "CKA_ALWAYS_SENSITIVE \<equiv> 0x165"
abbreviation (input) CKA_APPLICATION :: ulong where "CKA_APPLICATION \<equiv> 0x10"
abbreviation (input) CKA_AUTH_PIN_FLAGS :: ulong where "CKA_AUTH_PIN_FLAGS \<equiv> 0x201"
abbreviation (input) CKA_BASE :: ulong where "CKA_BASE \<equiv> 0x132"
abbreviation (input) CKA_CERTIFICATE_CATEGORY :: ulong where "CKA_CERTIFICATE_CATEGORY \<equiv> 0x87"
abbreviation (input) CKA_CERTIFICATE_TYPE :: ulong where "CKA_CERTIFICATE_TYPE \<equiv> 0x80"
abbreviation (input) CKA_CHECK_VALUE :: ulong where "CKA_CHECK_VALUE \<equiv> 0x90"
abbreviation (input) CKA_CLASS :: ulong where "CKA_CLASS \<equiv> 0"
abbreviation (input) CKA_COEFFICIENT :: ulong where "CKA_COEFFICIENT \<equiv> 0x128"
abbreviation (input) CKA_COPYABLE :: ulong where "CKA_COPYABLE \<equiv> 0x171"
abbreviation (input) CKA_DECAPSULATE :: ulong where "CKA_DECAPSULATE \<equiv> 0x634"
abbreviation (input) CKA_DECRYPT :: ulong where "CKA_DECRYPT \<equiv> 0x105"
abbreviation (input) CKA_DERIVE :: ulong where "CKA_DERIVE \<equiv> 0x10c"
abbreviation (input) CKA_DESTROYABLE :: ulong where "CKA_DESTROYABLE \<equiv> 0x172"
abbreviation (input) CKA_EC_PARAMS :: ulong where "CKA_EC_PARAMS \<equiv> 0x180"
abbreviation (input) CKA_EC_POINT :: ulong where "CKA_EC_POINT \<equiv> 0x181"
abbreviation (input) CKA_ENCAPSULATE :: ulong where "CKA_ENCAPSULATE \<equiv> 0x633"
abbreviation (input) CKA_ENCRYPT :: ulong where "CKA_ENCRYPT \<equiv> 0x104"
abbreviation (input) CKA_END_DATE :: ulong where "CKA_END_DATE \<equiv> 0x111"
abbreviation (input) CKA_EXPONENT_1 :: ulong where "CKA_EXPONENT_1 \<equiv> 0x126"
abbreviation (input) CKA_EXPONENT_2 :: ulong where "CKA_EXPONENT_2 \<equiv> 0x127"
abbreviation (input) CKA_EXTRACTABLE :: ulong where "CKA_EXTRACTABLE \<equiv> 0x162"
abbreviation (input) CKA_GOST28147_PARAMS :: ulong where "CKA_GOST28147_PARAMS \<equiv> 0x252"
abbreviation (input) CKA_GOSTR3410_PARAMS :: ulong where "CKA_GOSTR3410_PARAMS \<equiv> 0x250"
abbreviation (input) CKA_GOSTR3411_PARAMS :: ulong where "CKA_GOSTR3411_PARAMS \<equiv> 0x251"
abbreviation (input) CKA_HASH_OF_ISSUER_PUBLIC_KEY :: ulong where "CKA_HASH_OF_ISSUER_PUBLIC_KEY \<equiv> 0x8b"
abbreviation (input) CKA_HASH_OF_SUBJECT_PUBLIC_KEY :: ulong where "CKA_HASH_OF_SUBJECT_PUBLIC_KEY \<equiv> 0x8a"
abbreviation (input) CKA_ID :: ulong where "CKA_ID \<equiv> 0x102"
abbreviation (input) CKA_ISSUER :: ulong where "CKA_ISSUER \<equiv> 0x81"
abbreviation (input) CKA_JAVA_MIDP_SECURITY_DOMAIN :: ulong where "CKA_JAVA_MIDP_SECURITY_DOMAIN \<equiv> 0x88"
abbreviation (input) CKA_KEY_GEN_MECHANISM :: ulong where "CKA_KEY_GEN_MECHANISM \<equiv> 0x166"
abbreviation (input) CKA_KEY_TYPE :: ulong where "CKA_KEY_TYPE \<equiv> 0x100"
abbreviation (input) CKA_LABEL :: ulong where "CKA_LABEL \<equiv> 3"
abbreviation (input) CKA_LOCAL :: ulong where "CKA_LOCAL \<equiv> 0x163"
abbreviation (input) CKA_MODIFIABLE :: ulong where "CKA_MODIFIABLE \<equiv> 0x170"
abbreviation (input) CKA_MODULUS :: ulong where "CKA_MODULUS \<equiv> 0x120"
abbreviation (input) CKA_MODULUS_BITS :: ulong where "CKA_MODULUS_BITS \<equiv> 0x121"
abbreviation (input) CKA_NAME_HASH_ALGORITHM :: ulong where "CKA_NAME_HASH_ALGORITHM \<equiv> 0x8c"
abbreviation (input) CKA_NEVER_EXTRACTABLE :: ulong where "CKA_NEVER_EXTRACTABLE \<equiv> 0x164"
abbreviation (input) CKA_OBJECT_ID :: ulong where "CKA_OBJECT_ID \<equiv> 0x12"
abbreviation (input) CKA_PARAMETER_SET :: ulong where "CKA_PARAMETER_SET \<equiv> 0x61d"
abbreviation (input) CKA_PRIME :: ulong where "CKA_PRIME \<equiv> 0x130"
abbreviation (input) CKA_PRIME_1 :: ulong where "CKA_PRIME_1 \<equiv> 0x124"
abbreviation (input) CKA_PRIME_2 :: ulong where "CKA_PRIME_2 \<equiv> 0x125"
abbreviation (input) CKA_PRIME_BITS :: ulong where "CKA_PRIME_BITS \<equiv> 0x133"
abbreviation (input) CKA_PRIVATE :: ulong where "CKA_PRIVATE \<equiv> 2"
abbreviation (input) CKA_PRIVATE_EXPONENT :: ulong where "CKA_PRIVATE_EXPONENT \<equiv> 0x123"
abbreviation (input) CKA_PUBLIC_EXPONENT :: ulong where "CKA_PUBLIC_EXPONENT \<equiv> 0x122"
abbreviation (input) CKA_PUBLIC_KEY_INFO :: ulong where "CKA_PUBLIC_KEY_INFO \<equiv> 0x129"
abbreviation (input) CKA_SECONDARY_AUTH :: ulong where "CKA_SECONDARY_AUTH \<equiv> 0x200"
abbreviation (input) CKA_SEED :: ulong where "CKA_SEED \<equiv> 0x637"
abbreviation (input) CKA_SENSITIVE :: ulong where "CKA_SENSITIVE \<equiv> 0x103"
abbreviation (input) CKA_SERIAL_NUMBER :: ulong where "CKA_SERIAL_NUMBER \<equiv> 0x82"
abbreviation (input) CKA_SIGN :: ulong where "CKA_SIGN \<equiv> 0x108"
abbreviation (input) CKA_SIGN_RECOVER :: ulong where "CKA_SIGN_RECOVER \<equiv> 0x109"
abbreviation (input) CKA_START_DATE :: ulong where "CKA_START_DATE \<equiv> 0x110"
abbreviation (input) CKA_SUBJECT :: ulong where "CKA_SUBJECT \<equiv> 0x101"
abbreviation (input) CKA_SUBPRIME :: ulong where "CKA_SUBPRIME \<equiv> 0x131"
abbreviation (input) CKA_SUB_PRIME_BITS :: ulong where "CKA_SUB_PRIME_BITS \<equiv> 0x134"
abbreviation (input) CKA_TOKEN :: ulong where "CKA_TOKEN \<equiv> 1"
abbreviation (input) CKA_TRUSTED :: ulong where "CKA_TRUSTED \<equiv> 0x86"
abbreviation (input) CKA_UNWRAP :: ulong where "CKA_UNWRAP \<equiv> 0x107"
abbreviation (input) CKA_UNWRAP_TEMPLATE :: ulong where "CKA_UNWRAP_TEMPLATE \<equiv> 0x40000212"
abbreviation (input) CKA_URL :: ulong where "CKA_URL \<equiv> 0x89"
abbreviation (input) CKA_VALUE :: ulong where "CKA_VALUE \<equiv> 0x11"
abbreviation (input) CKA_VALUE_BITS :: ulong where "CKA_VALUE_BITS \<equiv> 0x160"
abbreviation (input) CKA_VALUE_LEN :: ulong where "CKA_VALUE_LEN \<equiv> 0x161"
abbreviation (input) CKA_VENDOR_CONFIRM_BY_TOUCH :: ulong where "CKA_VENDOR_CONFIRM_BY_TOUCH \<equiv> 0x80002003"
abbreviation (input) CKA_VENDOR_DEFINED :: ulong where "CKA_VENDOR_DEFINED \<equiv> 0x80000000"
abbreviation (input) CKA_VENDOR_KEY_CONFIRM_OP :: ulong where "CKA_VENDOR_KEY_CONFIRM_OP \<equiv> 0x80002001"
abbreviation (input) CKA_VENDOR_KEY_JOURNAL :: ulong where "CKA_VENDOR_KEY_JOURNAL \<equiv> 0x80002002"
abbreviation (input) CKA_VENDOR_KEY_PIN_ENTER :: ulong where "CKA_VENDOR_KEY_PIN_ENTER \<equiv> 0x80002000"
abbreviation (input) CKA_VERIFY :: ulong where "CKA_VERIFY \<equiv> 0x10a"
abbreviation (input) CKA_VERIFY_RECOVER :: ulong where "CKA_VERIFY_RECOVER \<equiv> 0x10b"
abbreviation (input) CKA_WRAP :: ulong where "CKA_WRAP \<equiv> 0x106"
abbreviation (input) CKA_WRAP_TEMPLATE :: ulong where "CKA_WRAP_TEMPLATE \<equiv> 0x40000211"
abbreviation (input) CKA_WRAP_WITH_TRUSTED :: ulong where "CKA_WRAP_WITH_TRUSTED \<equiv> 0x210"
abbreviation (input) CKO_CERTIFICATE :: ulong where "CKO_CERTIFICATE \<equiv> 1"
abbreviation (input) CKO_DATA :: ulong where "CKO_DATA \<equiv> 0"
abbreviation (input) CKO_DOMAIN_PARAMETERS :: ulong where "CKO_DOMAIN_PARAMETERS \<equiv> 6"
abbreviation (input) CKO_PRIVATE_KEY :: ulong where "CKO_PRIVATE_KEY \<equiv> 3"
abbreviation (input) CKO_PUBLIC_KEY :: ulong where "CKO_PUBLIC_KEY \<equiv> 2"
abbreviation (input) CKO_SECRET_KEY :: ulong where "CKO_SECRET_KEY \<equiv> 4"
abbreviation (input) CKO_VENDOR_DEFINED :: ulong where "CKO_VENDOR_DEFINED \<equiv> 0x80000000"
abbreviation (input) CKK_AES :: ulong where "CKK_AES \<equiv> 0x1f"
abbreviation (input) CKK_DES :: ulong where "CKK_DES \<equiv> 0x13"
abbreviation (input) CKK_DES2 :: ulong where "CKK_DES2 \<equiv> 0x14"
abbreviation (input) CKK_DES3 :: ulong where "CKK_DES3 \<equiv> 0x15"
abbreviation (input) CKK_DH :: ulong where "CKK_DH \<equiv> 2"
abbreviation (input) CKK_DSA :: ulong where "CKK_DSA \<equiv> 1"
abbreviation (input) CKK_EC :: ulong where "CKK_EC \<equiv> 3"
abbreviation (input) CKK_EC_EDWARDS :: ulong where "CKK_EC_EDWARDS \<equiv> 0x40"
abbreviation (input) CKK_GENERIC_SECRET :: ulong where "CKK_GENERIC_SECRET \<equiv> 0x10"
abbreviation (input) CKK_GOST28147 :: ulong where "CKK_GOST28147 \<equiv> 0x32"
abbreviation (input) CKK_GOSTR3410 :: ulong where "CKK_GOSTR3410 \<equiv> 0x30"
abbreviation (input) CKK_KUZNECHIK :: ulong where "CKK_KUZNECHIK \<equiv> 0xd4321004"
abbreviation (input) CKK_KUZNECHIK_TWIN_KEY :: ulong where "CKK_KUZNECHIK_TWIN_KEY \<equiv> 0xd4321006"
abbreviation (input) CKK_MAGMA :: ulong where "CKK_MAGMA \<equiv> 0xd4321005"
abbreviation (input) CKK_MAGMA_TWIN_KEY :: ulong where "CKK_MAGMA_TWIN_KEY \<equiv> 0xd4321007"
abbreviation (input) CKK_MD5_HMAC :: ulong where "CKK_MD5_HMAC \<equiv> 0x27"
abbreviation (input) CKK_ML_DSA :: ulong where "CKK_ML_DSA \<equiv> 0x4a"
abbreviation (input) CKK_ML_KEM :: ulong where "CKK_ML_KEM \<equiv> 0x49"
abbreviation (input) CKK_RSA :: ulong where "CKK_RSA \<equiv> 0"
abbreviation (input) CKK_SHA224_HMAC :: ulong where "CKK_SHA224_HMAC \<equiv> 0x2e"
abbreviation (input) CKK_SHA256_HMAC :: ulong where "CKK_SHA256_HMAC \<equiv> 0x2b"
abbreviation (input) CKK_SHA384_HMAC :: ulong where "CKK_SHA384_HMAC \<equiv> 0x2c"
abbreviation (input) CKK_SHA512_HMAC :: ulong where "CKK_SHA512_HMAC \<equiv> 0x2d"
abbreviation (input) CKK_SHA_1_HMAC :: ulong where "CKK_SHA_1_HMAC \<equiv> 0x28"
abbreviation (input) CKK_VENDOR_DEFINED :: ulong where "CKK_VENDOR_DEFINED \<equiv> 0x80000000"
abbreviation (input) CKC_OPENPGP :: ulong where "CKC_OPENPGP \<equiv> 0x80504750"
abbreviation (input) CKC_VENDOR_DEFINED :: ulong where "CKC_VENDOR_DEFINED \<equiv> 0x80000000"
abbreviation (input) CKC_X_509 :: ulong where "CKC_X_509 \<equiv> 0"
abbreviation (input) CKM_SHA_1 :: ulong where "CKM_SHA_1 \<equiv> 0x220"
abbreviation (input) CKK_GOSTR3410_512 :: ulong where "CKK_GOSTR3410_512 \<equiv> 0xd4321003"
abbreviation (input) CKM_GOST28147_KEY_GEN :: ulong where "CKM_GOST28147_KEY_GEN \<equiv> 0x1220"

abbreviation (input) CK_UNAVAILABLE :: ulong where "CK_UNAVAILABLE \<equiv> - 1"

end
