(* ===== verification/P11_Attributes.thy ===== *)
theory P11_Attributes
  imports P11_Constants OS_Attributes Token
begin

text \<open>
  The attribute classes of \<^verbatim>\<open>P11Attributes.cpp\<close>. A class is a record of what its
  constructor sets (type, size, checks) and of its virtual methods: the value
  \<open>setDefault\<close> stores, \<open>updateAttr\<close>, and whether short stored values predate
  encryption (\<open>isLegacyPlaintext\<close>). The methods of the base class, \<open>retrieve\<close> and
  \<open>update\<close>, call them through the record as the code does through its vtable.

  The object behind an attribute is a usable \<^verbatim>\<open>OSObject\<close>, a valid session object or a
  token object inside a transaction: it is the ordered map of its attributes, whose
  \<open>setAttribute\<close> succeeds. What the caller passes is typed memory: no memory, a buffer of
  bytes, or an array of \<^verbatim>\<open>CK_ATTRIBUTE\<close>; \<^verbatim>\<open>CK_ULONG\<close> and pointers have eight bytes,
  least significant first. Reading beyond a buffer, following a null pointer inside a
  nested template and taking one kind of memory for another are outside the model.
\<close>

unbundle bit_operations_syntax

section \<open>Templates, operations and the environment\<close>

datatype ck_value = NULL_PTR | BUFFER bytes | ATTRS "ck_attribute list"
  and ck_attribute = CK_ATTRIBUTE (ca_type: ulong) (ca_pValue: ck_value) (ca_ulValueLen: ulong)

abbreviation sizeof_CK_ATTRIBUTE :: nat where "sizeof_CK_ATTRIBUTE \<equiv> 24"

datatype object_op =
    OBJECT_OP_NONE | OBJECT_OP_COPY | OBJECT_OP_CREATE | OBJECT_OP_DERIVE | OBJECT_OP_GENERATE
  | OBJECT_OP_SET | OBJECT_OP_UNWRAP | OBJECT_OP_DECAPSULATE

abbreviation (input) ck1 :: ulong where "ck1 \<equiv> 1"
abbreviation (input) ck2 :: ulong where "ck2 \<equiv> 2"
abbreviation (input) ck3 :: ulong where "ck3 \<equiv> 4"
abbreviation (input) ck4 :: ulong where "ck4 \<equiv> 8"
abbreviation (input) ck5 :: ulong where "ck5 \<equiv> 0x10"
abbreviation (input) ck6 :: ulong where "ck6 \<equiv> 0x20"
abbreviation (input) ck7 :: ulong where "ck7 \<equiv> 0x40"
abbreviation (input) ck8 :: ulong where "ck8 \<equiv> 0x80"
abbreviation (input) ck9 :: ulong where "ck9 \<equiv> 0x100"
abbreviation (input) ck10 :: ulong where "ck10 \<equiv> 0x200"
abbreviation (input) ck11 :: ulong where "ck11 \<equiv> 0x400"
abbreviation (input) ck12 :: ulong where "ck12 \<equiv> 0x800"
abbreviation (input) ck14 :: ulong where "ck14 \<equiv> 0x2000"
abbreviation (input) ck15 :: ulong where "ck15 \<equiv> 0x4000"
abbreviation (input) ck16 :: ulong where "ck16 \<equiv> 0x8000"
abbreviation (input) ck17 :: ulong where "ck17 \<equiv> 0x10000"
abbreviation (input) VARIABLE :: ulong where "VARIABLE \<equiv> - 1"

definition has :: "ulong \<Rightarrow> ulong \<Rightarrow> bool" where
  "has checks ck \<longleftrightarrow> checks AND ck = ck"

text \<open>The token's cryptography, and OpenSSL's SHA-1, which check values are computed with.\<close>

record ('c, 'd, 'r) p11_env =
  pe_crypto :: "('c, 'd, 'r) crypto"
  pe_sha1 :: "'d evp_md"

text \<open>\<^verbatim>\<open>ByteString((unsigned char*)pValue, ulValueLen)\<close>, \<^verbatim>\<open>*(CK_BBOOL*)pValue\<close> and \<^verbatim>\<open>*(CK_ULONG*)pValue\<close>.\<close>

fun raw :: "ck_value \<Rightarrow> ulong \<Rightarrow> bytes" where
  "raw (BUFFER bs) len = take (unat len) bs"
| "raw _ len = []"

definition read_bbool :: "ck_value \<Rightarrow> bool" where
  "read_bbool p \<longleftrightarrow> raw p 1 \<noteq> [0]"

definition ulong_at :: "bytes \<Rightarrow> ulong" where
  "ulong_at bs = long_val (rev (take 8 bs))"

definition read_ulong :: "ck_value \<Rightarrow> ulong" where
  "read_ulong p = ulong_at (raw p 8)"

type_synonym ('c, 'r) attr_result = "ck_rv \<times> attr_map \<times> ('c, 'r) hsm_token"

record ('c, 'd, 'r) p11_attribute =
  pa_type :: ulong
  pa_size :: ulong
  pa_checks :: ulong
  pa_default :: os_attribute
  pa_updateAttr ::
    "('c, 'd, 'r) p11_env \<Rightarrow> ulong \<Rightarrow> bool \<Rightarrow> ck_value \<Rightarrow> ulong \<Rightarrow> object_op \<Rightarrow> attr_map \<Rightarrow> ('c, 'r) hsm_token
     \<Rightarrow> ('c, 'r) attr_result"
  pa_dated :: bool

section \<open>Key check values\<close>

definition sha1_of :: "'d evp_md \<Rightarrow> bytes \<Rightarrow> bytes option" where
  "sha1_of md data = fst (hash_message md [data] HashAlgorithm_new)"

text \<open>The first three bytes of the digest; an empty string when the digest fails.\<close>

definition SymmetricKey_getKeyCheckValue :: "'d evp_md \<Rightarrow> symmetric_key \<Rightarrow> bytes" where
  "SymmetricKey_getKeyCheckValue md key =
     (case sha1_of md (keyData key) of None \<Rightarrow> [] | Some digest \<Rightarrow> resize digest 3)"

text \<open>The first three bytes of a block of zeros encrypted in ECB mode.\<close>

definition cipher_check_value :: "'c evp \<Rightarrow> cipher_class \<Rightarrow> symmetric_key \<Rightarrow> bytes" where
  "cipher_check_value evp cc key =
     (let (ok, alg) = encryptInit evp cc (Some key) SymMode_ECB [] False 0 [] 0 SymmetricAlgorithm_new
      in if \<not> ok then []
         else (let (ok, encryptedData, alg) = encryptUpdate evp cc (replicate (getBlockSize cc) 0) alg
               in if \<not> ok then encryptedData
                  else (let (ok, encryptedFinal, alg) = encryptFinal evp alg
                        in if \<not> ok then encryptedData
                           else resize (bs_append encryptedData encryptedFinal) 3)))"

definition AESKey_getKeyCheckValue :: "'c evp \<Rightarrow> symmetric_key \<Rightarrow> bytes" where
  "AESKey_getKeyCheckValue evp key = cipher_check_value evp OSSLAES key"

definition DESKey_getKeyCheckValue :: "'c evp \<Rightarrow> symmetric_key \<Rightarrow> bytes" where
  "DESKey_getKeyCheckValue evp key =
     (if bitLen key = 56 \<or> bitLen key = 112 \<or> bitLen key = 168 then cipher_check_value evp OSSLDES key else [])"

definition generic_secret :: "ulong \<Rightarrow> bool" where
  "generic_secret kt \<longleftrightarrow>
     kt \<in> {CKK_GENERIC_SECRET, CKK_MD5_HMAC, CKK_SHA_1_HMAC, CKK_SHA224_HMAC, CKK_SHA256_HMAC,
           CKK_SHA384_HMAC, CKK_SHA512_HMAC}"

text \<open>The check value of \<open>keybits\<close> for the key types that have one.\<close>

definition check_value :: "('c, 'd, 'r) p11_env \<Rightarrow> ulong \<Rightarrow> bytes \<Rightarrow> bytes option" where
  "check_value env kt keybits =
     (if generic_secret kt
      then Some (SymmetricKey_getKeyCheckValue (pe_sha1 env) \<lparr>keyData = keybits, bitLen = length keybits * 8\<rparr>)
      else if kt = CKK_AES
      then Some (AESKey_getKeyCheckValue (cx_evp (pe_crypto env)) \<lparr>keyData = keybits, bitLen = length keybits * 8\<rparr>)
      else if kt \<in> {CKK_DES, CKK_DES2, CKK_DES3}
      then Some (DESKey_getKeyCheckValue (cx_evp (pe_crypto env)) \<lparr>keyData = keybits, bitLen = length keybits * 7\<rparr>)
      else None)"

section \<open>The base class\<close>

definition isModifiable :: "attr_map \<Rightarrow> bool" where
  "isModifiable m \<longleftrightarrow> bool_of (omap_find m CKA_MODIFIABLE) True"

definition isSensitive :: "attr_map \<Rightarrow> bool" where
  "isSensitive m \<longleftrightarrow> bool_of (omap_find m CKA_SENSITIVE) False"

definition isExtractable :: "attr_map \<Rightarrow> bool" where
  "isExtractable m \<longleftrightarrow> bool_of (omap_find m CKA_EXTRACTABLE) True"

definition isTrusted :: "attr_map \<Rightarrow> bool" where
  "isTrusted m \<longleftrightarrow> bool_of (omap_find m CKA_TRUSTED) False"

definition object_class :: "attr_map \<Rightarrow> ulong" where
  "object_class m = ulong_of (omap_find m CKA_CLASS) CKO_VENDOR_DEFINED"

definition object_key_type :: "attr_map \<Rightarrow> ulong" where
  "object_key_type m = ulong_of (omap_find m CKA_KEY_TYPE) CKK_VENDOR_DEFINED"

definition attr_init :: "('c, 'd, 'r) p11_attribute \<Rightarrow> attr_map \<Rightarrow> attr_map" where
  "attr_init a m =
     (if omap_find m (pa_type a) = None then omap_insert (pa_type a) (pa_default a) m else m)"

text \<open>A value as it is stored: encrypted when the object is private.\<close>

definition seal :: "('c, 'd, 'r) p11_env \<Rightarrow> bool \<Rightarrow> bytes \<Rightarrow> ('c, 'r) hsm_token \<Rightarrow> bytes option \<times> ('c, 'r) hsm_token" where
  "seal env isPrivate plaintext tk =
     (if isPrivate then tk_encrypt (pe_crypto env) plaintext tk else (Some plaintext, tk))"

definition base_updateAttr ::
  "('c, 'd, 'r) p11_env \<Rightarrow> ulong \<Rightarrow> bool \<Rightarrow> ck_value \<Rightarrow> ulong \<Rightarrow> object_op \<Rightarrow> attr_map \<Rightarrow> ('c, 'r) hsm_token
   \<Rightarrow> ('c, 'r) attr_result" where
  "base_updateAttr env type isPrivate pValue ulValueLen op m tk =
     (case seal env isPrivate (raw pValue ulValueLen) tk of
        (None, tk) \<Rightarrow> (CKR_GENERAL_ERROR, m, tk)
      | (Some value, tk) \<Rightarrow>
          if length value < unat ulValueLen then (CKR_GENERAL_ERROR, m, tk)
          else (CKR_OK, omap_insert type (BYTESTR value) m, tk))"

definition isLegacyPlaintext :: "('c, 'd, 'r) p11_attribute \<Rightarrow> nat \<Rightarrow> bool" where
  "isLegacyPlaintext a storedSize \<longleftrightarrow> pa_dated a \<and> storedSize = 8"

definition readStored ::
  "('c, 'd, 'r) p11_env \<Rightarrow> ('c, 'd, 'r) p11_attribute \<Rightarrow> bytes \<Rightarrow> ('c, 'r) hsm_token \<Rightarrow> bytes option \<times> ('c, 'r) hsm_token" where
  "readStored env a str tk =
     (if isLegacyPlaintext a (length str) then (Some str, tk)
      else tk_decrypt (pe_crypto env) str tk)"

section \<open>Retrieving a value\<close>

text \<open>Writing at the start of the caller's memory.\<close>

fun put_bytes :: "bytes \<Rightarrow> ck_value \<Rightarrow> ck_value" where
  "put_bytes bs (BUFFER old) = BUFFER (bs @ drop (length bs) old)"
| "put_bytes bs v = v"

definition bbool :: "bool \<Rightarrow> bytes" where
  "bbool b = [if b then 1 else 0]"

text \<open>A template map: all types and sizes when every pointer is null, else the values asked for.\<close>

fun plain_bytes :: "os_attribute \<Rightarrow> bytes option" where
  "plain_bytes (BOOL b) = Some (bbool b)"
| "plain_bytes (ULONG n) = Some (host_ulong n)"
| "plain_bytes (BYTESTR bs) = Some bs"
| "plain_bytes _ = None"

fun map_sizes :: "ck_attribute list \<Rightarrow> (ulong \<times> os_attribute) list \<Rightarrow> ck_rv \<times> ck_attribute list" where
  "map_sizes (t # ts) ((k, attr) # m) =
     (case plain_bytes attr of
        None \<Rightarrow> (CKR_GENERAL_ERROR, CK_ATTRIBUTE k (ca_pValue t) (ca_ulValueLen t) # ts)
      | Some bs \<Rightarrow>
          (let (rv, ts) = map_sizes ts m
           in (rv, CK_ATTRIBUTE k (ca_pValue t) (of_nat (length bs)) # ts)))"
| "map_sizes ts m = (CKR_OK, ts)"

fun map_values :: "nat \<Rightarrow> ck_attribute list \<Rightarrow> attr_map \<Rightarrow> ck_rv \<times> ck_attribute list" where
  "map_values (Suc n) (CK_ATTRIBUTE ty p len # ts) m =
     (case omap_find m ty of
        None \<Rightarrow> (CKR_ATTRIBUTE_TYPE_INVALID, CK_ATTRIBUTE ty p CK_UNAVAILABLE # ts)
      | Some attr \<Rightarrow>
          (case plain_bytes attr of
             None \<Rightarrow> (CKR_GENERAL_ERROR, CK_ATTRIBUTE ty p len # ts)
           | Some bs \<Rightarrow>
               if unat len < length bs
               then (CKR_BUFFER_TOO_SMALL, CK_ATTRIBUTE ty p CK_UNAVAILABLE # ts)
               else (let (rv, ts) = map_values n ts m
                     in (rv, CK_ATTRIBUTE ty (put_bytes bs p) (of_nat (length bs)) # ts))))"
| "map_values _ ts m = (CKR_OK, ts)"

definition retrieveAttributeMap :: "ck_attribute list \<Rightarrow> attr_map \<Rightarrow> ck_rv \<times> ck_attribute list" where
  "retrieveAttributeMap pTemplate m =
     (if length (filter (\<lambda>t. ca_pValue t = NULL_PTR) (take (length m) pTemplate)) = length m
      then map_sizes pTemplate m
      else map_values (length m) pTemplate m)"

text \<open>The bytes of a string attribute, decrypted when the object is private and it is not empty.\<close>

definition open_string ::
  "('c, 'd, 'r) p11_env \<Rightarrow> ('c, 'd, 'r) p11_attribute \<Rightarrow> bool \<Rightarrow> bytes \<Rightarrow> ('c, 'r) hsm_token
   \<Rightarrow> bytes option \<times> ('c, 'r) hsm_token" where
  "open_string env a isPrivate str tk =
     (if isPrivate \<and> length str \<noteq> 0 then readStored env a str tk else (Some str, tk))"

definition attr_size ::
  "('c, 'd, 'r) p11_env \<Rightarrow> ('c, 'd, 'r) p11_attribute \<Rightarrow> bool \<Rightarrow> os_attribute \<Rightarrow> ('c, 'r) hsm_token
   \<Rightarrow> ulong option \<times> ('c, 'r) hsm_token" where
  "attr_size env a isPrivate attr tk =
     (if pa_size a \<noteq> VARIABLE then (Some (pa_size a), tk)
      else
        (case attr of
           BYTESTR str \<Rightarrow>
             (let (value, tk) = open_string env a isPrivate str tk
              in (map_option (\<lambda>v. of_nat (length v)) value, tk))
         | MECHSET s \<Rightarrow> (Some (of_nat (length s * 8)), tk)
         | ATTRMAP am \<Rightarrow> (Some (of_nat (length am * sizeof_CK_ATTRIBUTE)), tk)
         | _ \<Rightarrow> (None, tk)))"

definition copy_out ::
  "('c, 'd, 'r) p11_env \<Rightarrow> ('c, 'd, 'r) p11_attribute \<Rightarrow> bool \<Rightarrow> os_attribute \<Rightarrow> ulong \<Rightarrow> ck_value \<Rightarrow> ('c, 'r) hsm_token
   \<Rightarrow> (ck_rv \<times> ck_value) option \<times> ('c, 'r) hsm_token" where
  "copy_out env a isPrivate attr attrSize pValue tk =
     (case attr of
        ULONG n \<Rightarrow> (Some (CKR_OK, put_bytes (host_ulong n) pValue), tk)
      | BOOL b \<Rightarrow> (Some (CKR_OK, put_bytes (bbool b) pValue), tk)
      | BYTESTR str \<Rightarrow>
          (case open_string env a isPrivate str tk of
             (None, tk) \<Rightarrow> (None, tk)
           | (Some value, tk) \<Rightarrow> (Some (CKR_OK, put_bytes (take (unat attrSize) value) pValue), tk))
      | MECHSET s \<Rightarrow> (Some (CKR_OK, put_bytes (concat (map host_ulong s)) pValue), tk)
      | ATTRMAP am \<Rightarrow>
          (Some (case pValue of
                   ATTRS ts \<Rightarrow> (let (rv, ts) = retrieveAttributeMap ts am in (rv, ATTRS ts))
                 | _ \<Rightarrow> (CKR_OK, pValue)), tk))"

definition retrieve ::
  "('c, 'd, 'r) p11_env \<Rightarrow> ('c, 'd, 'r) p11_attribute \<Rightarrow> bool \<Rightarrow> ck_value \<Rightarrow> ulong \<Rightarrow> attr_map \<Rightarrow> ('c, 'r) hsm_token
   \<Rightarrow> ck_rv \<times> ck_value \<times> ulong \<times> ('c, 'r) hsm_token" where
  "retrieve env a isPrivate pValue ulValueLen m tk =
     (if has (pa_checks a) ck7 \<and> (isSensitive m \<or> \<not> isExtractable m)
      then (CKR_ATTRIBUTE_SENSITIVE, pValue, CK_UNAVAILABLE, tk)
      else
        (case omap_find m (pa_type a) of
           None \<Rightarrow> (CKR_GENERAL_ERROR, pValue, ulValueLen, tk)
         | Some attr \<Rightarrow>
             (case attr_size env a isPrivate attr tk of
                (None, tk) \<Rightarrow> (CKR_GENERAL_ERROR, pValue, ulValueLen, tk)
              | (Some attrSize, tk) \<Rightarrow>
                  if pValue = NULL_PTR then (CKR_OK, pValue, attrSize, tk)
                  else if ulValueLen \<ge> attrSize
                  then (case copy_out env a isPrivate attr attrSize pValue tk of
                          (None, tk) \<Rightarrow> (CKR_GENERAL_ERROR, pValue, ulValueLen, tk)
                        | (Some (rv, pValue), tk) \<Rightarrow> (rv, pValue, attrSize, tk))
                  else (CKR_BUFFER_TOO_SMALL, pValue, CK_UNAVAILABLE, tk))))"

section \<open>Updating a value\<close>

text \<open>The operations that make a new object are not held up by its modifiability or trust.\<close>

definition making :: "object_op \<Rightarrow> bool" where
  "making op \<longleftrightarrow> op \<in> {OBJECT_OP_GENERATE, OBJECT_OP_CREATE, OBJECT_OP_UNWRAP, OBJECT_OP_DECAPSULATE}"

definition prohibited :: "ulong \<Rightarrow> object_op \<Rightarrow> bool" where
  "prohibited checks op \<longleftrightarrow>
     has checks ck2 \<and> op = OBJECT_OP_CREATE \<or> has checks ck4 \<and> op = OBJECT_OP_GENERATE
     \<or> has checks ck6 \<and> op = OBJECT_OP_UNWRAP"

definition permitted :: "ulong \<Rightarrow> object_op \<Rightarrow> attr_map \<Rightarrow> bool" where
  "permitted checks op m \<longleftrightarrow>
     has checks ck8 \<and> (op = OBJECT_OP_SET \<or> op = OBJECT_OP_COPY)
     \<or> has checks ck10 \<and> op = OBJECT_OP_SET \<and> object_class m = CKO_CERTIFICATE
     \<or> has checks ck11 \<and> (op = OBJECT_OP_SET \<or> op = OBJECT_OP_COPY)
     \<or> has checks ck17 \<and> op = OBJECT_OP_COPY
     \<or> op \<in> {OBJECT_OP_CREATE, OBJECT_OP_DERIVE, OBJECT_OP_GENERATE, OBJECT_OP_UNWRAP, OBJECT_OP_DECAPSULATE}"

definition update ::
  "('c, 'd, 'r) p11_env \<Rightarrow> ('c, 'd, 'r) p11_attribute \<Rightarrow> bool \<Rightarrow> ck_value \<Rightarrow> ulong \<Rightarrow> object_op \<Rightarrow> attr_map \<Rightarrow> ('c, 'r) hsm_token
   \<Rightarrow> ('c, 'r) attr_result" where
  "update env a isPrivate pValue ulValueLen op m tk =
     (if pValue = NULL_PTR \<and> ulValueLen \<noteq> 0 then (CKR_ATTRIBUTE_VALUE_INVALID, m, tk)
      else if pa_size a \<noteq> VARIABLE \<and> pa_size a \<noteq> ulValueLen then (CKR_ATTRIBUTE_VALUE_INVALID, m, tk)
      else if \<not> isModifiable m \<and> \<not> making op then (CKR_ATTRIBUTE_READ_ONLY, m, tk)
      else if isTrusted m \<and> \<not> making op \<and> object_class m = CKO_CERTIFICATE then (CKR_ATTRIBUTE_READ_ONLY, m, tk)
      else if prohibited (pa_checks a) op then (CKR_ATTRIBUTE_READ_ONLY, m, tk)
      else if permitted (pa_checks a) op m
      then pa_updateAttr a env (pa_type a) isPrivate pValue ulValueLen op m tk
      else (CKR_ATTRIBUTE_READ_ONLY, m, tk))"

section \<open>The overrides of updateAttr\<close>

text \<open>Class, key type and certificate type are fixed: the template may only repeat them.\<close>

definition P11AttrClass_updateAttr ::
  "('c, 'd, 'r) p11_env \<Rightarrow> ulong \<Rightarrow> bool \<Rightarrow> ck_value \<Rightarrow> ulong \<Rightarrow> object_op \<Rightarrow> attr_map \<Rightarrow> ('c, 'r) hsm_token
   \<Rightarrow> ('c, 'r) attr_result" where
  "P11AttrClass_updateAttr env type isPrivate pValue ulValueLen op m tk =
     (if ulValueLen \<noteq> 8 then (CKR_ATTRIBUTE_VALUE_INVALID, m, tk)
      else if ulong_of (omap_find m CKA_CLASS) CKO_VENDOR_DEFINED \<noteq> read_ulong pValue
      then (CKR_TEMPLATE_INCONSISTENT, m, tk) else (CKR_OK, m, tk))"

definition P11AttrKeyType_updateAttr ::
  "('c, 'd, 'r) p11_env \<Rightarrow> ulong \<Rightarrow> bool \<Rightarrow> ck_value \<Rightarrow> ulong \<Rightarrow> object_op \<Rightarrow> attr_map \<Rightarrow> ('c, 'r) hsm_token
   \<Rightarrow> ('c, 'r) attr_result" where
  "P11AttrKeyType_updateAttr env type isPrivate pValue ulValueLen op m tk =
     (if ulValueLen \<noteq> 8 then (CKR_ATTRIBUTE_VALUE_INVALID, m, tk)
      else if ulong_of (omap_find m CKA_KEY_TYPE) CKK_VENDOR_DEFINED \<noteq> read_ulong pValue
      then (CKR_TEMPLATE_INCONSISTENT, m, tk) else (CKR_OK, m, tk))"

definition P11AttrCertificateType_updateAttr ::
  "('c, 'd, 'r) p11_env \<Rightarrow> ulong \<Rightarrow> bool \<Rightarrow> ck_value \<Rightarrow> ulong \<Rightarrow> object_op \<Rightarrow> attr_map \<Rightarrow> ('c, 'r) hsm_token
   \<Rightarrow> ('c, 'r) attr_result" where
  "P11AttrCertificateType_updateAttr env type isPrivate pValue ulValueLen op m tk =
     (if ulValueLen \<noteq> 8 then (CKR_ATTRIBUTE_VALUE_INVALID, m, tk)
      else if ulong_of (omap_find m CKA_CERTIFICATE_TYPE) CKC_VENDOR_DEFINED \<noteq> read_ulong pValue
      then (CKR_TEMPLATE_INCONSISTENT, m, tk) else (CKR_OK, m, tk))"

text \<open>A flag: stored as it is given.\<close>

definition bool_updateAttr ::
  "('c, 'd, 'r) p11_env \<Rightarrow> ulong \<Rightarrow> bool \<Rightarrow> ck_value \<Rightarrow> ulong \<Rightarrow> object_op \<Rightarrow> attr_map \<Rightarrow> ('c, 'r) hsm_token
   \<Rightarrow> ('c, 'r) attr_result" where
  "bool_updateAttr env type isPrivate pValue ulValueLen op m tk =
     (if ulValueLen \<noteq> 1 then (CKR_ATTRIBUTE_VALUE_INVALID, m, tk)
      else (CKR_OK, omap_insert type (BOOL (read_bbool pValue)) m, tk))"

text \<open>A copyable object can be made uncopyable, never the other way round.\<close>

definition P11AttrCopyable_updateAttr ::
  "('c, 'd, 'r) p11_env \<Rightarrow> ulong \<Rightarrow> bool \<Rightarrow> ck_value \<Rightarrow> ulong \<Rightarrow> object_op \<Rightarrow> attr_map \<Rightarrow> ('c, 'r) hsm_token
   \<Rightarrow> ('c, 'r) attr_result" where
  "P11AttrCopyable_updateAttr env type isPrivate pValue ulValueLen op m tk =
     (if ulValueLen \<noteq> 1 then (CKR_ATTRIBUTE_VALUE_INVALID, m, tk)
      else if \<not> read_bbool pValue then (CKR_OK, omap_insert type (BOOL False) m, tk)
      else if \<not> bool_of (omap_find m CKA_COPYABLE) True then (CKR_ATTRIBUTE_READ_ONLY, m, tk)
      else (CKR_OK, m, tk))"

text \<open>A check value is accepted when it is empty or the one computed from the key.\<close>

definition P11AttrCheckValue_updateAttr ::
  "('c, 'd, 'r) p11_env \<Rightarrow> ulong \<Rightarrow> bool \<Rightarrow> ck_value \<Rightarrow> ulong \<Rightarrow> object_op \<Rightarrow> attr_map \<Rightarrow> ('c, 'r) hsm_token
   \<Rightarrow> ('c, 'r) attr_result" where
  "P11AttrCheckValue_updateAttr env type isPrivate pValue ulValueLen op m tk =
     (case seal env isPrivate (raw pValue ulValueLen) tk of
        (None, tk) \<Rightarrow> (CKR_GENERAL_ERROR, m, tk)
      | (Some value, tk) \<Rightarrow>
          if length value < unat ulValueLen then (CKR_GENERAL_ERROR, m, tk)
          else if ulValueLen = 0 then (CKR_OK, omap_insert type (BYTESTR value) m, tk)
          else
            (case (if isPrivate then tk_decrypt (pe_crypto env) (bytes_of (omap_find m CKA_VALUE)) tk
                   else (Some (bytes_of (omap_find m CKA_VALUE)), tk)) of
               (None, tk) \<Rightarrow> (CKR_GENERAL_ERROR, m, tk)
             | (Some keybits, tk) \<Rightarrow>
                 (case (if object_key_type m = CKK_GOST28147 then Some (raw pValue ulValueLen)
                        else check_value env (object_key_type m) keybits) of
                    None \<Rightarrow> (CKR_GENERAL_ERROR, m, tk)
                  | Some checkValue \<Rightarrow>
                      if raw pValue ulValueLen \<noteq> checkValue then (CKR_ATTRIBUTE_VALUE_INVALID, m, tk)
                      else (CKR_OK, omap_insert type (BYTESTR value) m, tk))))"

text \<open>Storing a value brings the length attributes and the check value up to date.\<close>

definition set_existing :: "ulong \<Rightarrow> os_attribute \<Rightarrow> attr_map \<Rightarrow> attr_map" where
  "set_existing type attr m = (if omap_find m type = None then m else omap_insert type attr m)"

definition value_lengths :: "object_op \<Rightarrow> bytes \<Rightarrow> attr_map \<Rightarrow> attr_map" where
  "value_lengths op plaintext m =
     (if op \<in> {OBJECT_OP_CREATE, OBJECT_OP_UNWRAP, OBJECT_OP_DECAPSULATE}
      then set_existing CKA_VALUE_BITS (ULONG (of_nat (bits plaintext)))
             (set_existing CKA_VALUE_LEN (ULONG (of_nat (length plaintext))) m)
      else m)"

definition put_check_value ::
  "('c, 'd, 'r) p11_env \<Rightarrow> bool \<Rightarrow> bytes \<Rightarrow> attr_map \<Rightarrow> ('c, 'r) hsm_token \<Rightarrow> ('c, 'r) attr_result" where
  "put_check_value env isPrivate digest m tk =
     (case seal env isPrivate digest tk of
        (None, tk) \<Rightarrow> (CKR_GENERAL_ERROR, m, tk)
      | (Some v, tk) \<Rightarrow> (CKR_OK, omap_insert CKA_CHECK_VALUE (BYTESTR v) m, tk))"

definition certificate_check_value ::
  "('c, 'd, 'r) p11_env \<Rightarrow> bool \<Rightarrow> bytes \<Rightarrow> attr_map \<Rightarrow> ('c, 'r) hsm_token \<Rightarrow> ('c, 'r) attr_result" where
  "certificate_check_value env isPrivate plaintext m tk =
     (if object_class m \<noteq> CKO_CERTIFICATE then (CKR_OK, m, tk)
      else (case sha1_of (pe_sha1 env) plaintext of
              None \<Rightarrow> (CKR_GENERAL_ERROR, m, tk)
            | Some digest \<Rightarrow> put_check_value env isPrivate (resize digest 3) m tk))"

definition secret_check_value ::
  "('c, 'd, 'r) p11_env \<Rightarrow> bool \<Rightarrow> object_op \<Rightarrow> bytes \<Rightarrow> attr_map \<Rightarrow> ('c, 'r) hsm_token \<Rightarrow> ('c, 'r) attr_result" where
  "secret_check_value env isPrivate op plaintext m tk =
     (if op = OBJECT_OP_CREATE \<and> object_class m = CKO_SECRET_KEY
      then
        (case (if object_key_type m \<in> {CKK_GOST28147, CKK_KUZNECHIK, CKK_MAGMA, CKK_KUZNECHIK_TWIN_KEY, CKK_MAGMA_TWIN_KEY}
               then Some [] else check_value env (object_key_type m) plaintext) of
           None \<Rightarrow> (CKR_GENERAL_ERROR, m, tk)
         | Some checkValue \<Rightarrow> put_check_value env isPrivate checkValue m tk)
      else (CKR_OK, m, tk))"

definition P11AttrValue_updateAttr ::
  "('c, 'd, 'r) p11_env \<Rightarrow> ulong \<Rightarrow> bool \<Rightarrow> ck_value \<Rightarrow> ulong \<Rightarrow> object_op \<Rightarrow> attr_map \<Rightarrow> ('c, 'r) hsm_token
   \<Rightarrow> ('c, 'r) attr_result" where
  "P11AttrValue_updateAttr env type isPrivate pValue ulValueLen op m tk =
     (let plaintext = raw pValue ulValueLen
      in case seal env isPrivate plaintext tk of
           (None, tk) \<Rightarrow> (CKR_GENERAL_ERROR, m, tk)
         | (Some value, tk) \<Rightarrow>
             if length value < unat ulValueLen then (CKR_GENERAL_ERROR, m, tk)
             else
               (let m = value_lengths op plaintext (omap_insert type (BYTESTR value) m)
                in let (rv, m, tk) = certificate_check_value env isPrivate plaintext m tk
                   in if rv \<noteq> CKR_OK then (rv, m, tk)
                      else secret_check_value env isPrivate op plaintext m tk))"

text \<open>Only the security officer marks a certificate as trusted.\<close>

definition P11AttrTrusted_updateAttr ::
  "('c, 'd, 'r) p11_env \<Rightarrow> ulong \<Rightarrow> bool \<Rightarrow> ck_value \<Rightarrow> ulong \<Rightarrow> object_op \<Rightarrow> attr_map \<Rightarrow> ('c, 'r) hsm_token
   \<Rightarrow> ('c, 'r) attr_result" where
  "P11AttrTrusted_updateAttr env type isPrivate pValue ulValueLen op m tk =
     (if ulValueLen \<noteq> 1 then (CKR_ATTRIBUTE_VALUE_INVALID, m, tk)
      else if op = OBJECT_OP_SET \<and> \<not> isSOLoggedIn tk then (CKR_ATTRIBUTE_READ_ONLY, m, tk)
      else if \<not> read_bbool pValue then (CKR_OK, omap_insert type (BOOL False) m, tk)
      else if \<not> isSOLoggedIn tk then (CKR_ATTRIBUTE_READ_ONLY, m, tk)
      else (CKR_OK, omap_insert type (BOOL True) m, tk))"

text \<open>A number, accepted in some operations only.\<close>

definition ulong_updateAttr ::
  "(object_op \<Rightarrow> bool) \<Rightarrow> ('c, 'd, 'r) p11_env \<Rightarrow> ulong \<Rightarrow> bool \<Rightarrow> ck_value \<Rightarrow> ulong \<Rightarrow> object_op \<Rightarrow> attr_map
   \<Rightarrow> ('c, 'r) hsm_token \<Rightarrow> ('c, 'r) attr_result" where
  "ulong_updateAttr accepted env type isPrivate pValue ulValueLen op m tk =
     (if \<not> accepted op then (CKR_ATTRIBUTE_READ_ONLY, m, tk)
      else if ulValueLen \<noteq> 8 then (CKR_ATTRIBUTE_VALUE_INVALID, m, tk)
      else (CKR_OK, omap_insert type (ULONG (read_ulong pValue)) m, tk))"

text \<open>A date has the eight bytes of \<^verbatim>\<open>CK_DATE\<close> or none.\<close>

definition date_updateAttr ::
  "('c, 'd, 'r) p11_env \<Rightarrow> ulong \<Rightarrow> bool \<Rightarrow> ck_value \<Rightarrow> ulong \<Rightarrow> object_op \<Rightarrow> attr_map \<Rightarrow> ('c, 'r) hsm_token
   \<Rightarrow> ('c, 'r) attr_result" where
  "date_updateAttr env type isPrivate pValue ulValueLen op m tk =
     (if ulValueLen \<noteq> 8 \<and> ulValueLen \<noteq> 0 then (CKR_ATTRIBUTE_VALUE_INVALID, m, tk)
      else base_updateAttr env type isPrivate pValue ulValueLen op m tk)"

definition fixed_updateAttr ::
  "('c, 'd, 'r) p11_env \<Rightarrow> ulong \<Rightarrow> bool \<Rightarrow> ck_value \<Rightarrow> ulong \<Rightarrow> object_op \<Rightarrow> attr_map \<Rightarrow> ('c, 'r) hsm_token
   \<Rightarrow> ('c, 'r) attr_result" where
  "fixed_updateAttr env type isPrivate pValue ulValueLen op m tk = (CKR_ATTRIBUTE_READ_ONLY, m, tk)"

text \<open>Sensitive keys stay sensitive, unextractable ones stay unextractable.\<close>

definition P11AttrSensitive_updateAttr ::
  "('c, 'd, 'r) p11_env \<Rightarrow> ulong \<Rightarrow> bool \<Rightarrow> ck_value \<Rightarrow> ulong \<Rightarrow> object_op \<Rightarrow> attr_map \<Rightarrow> ('c, 'r) hsm_token
   \<Rightarrow> ('c, 'r) attr_result" where
  "P11AttrSensitive_updateAttr env type isPrivate pValue ulValueLen op m tk =
     (if (op = OBJECT_OP_SET \<or> op = OBJECT_OP_COPY) \<and> bool_of (omap_find m CKA_SENSITIVE) False
      then (CKR_ATTRIBUTE_READ_ONLY, m, tk)
      else if ulValueLen \<noteq> 1 then (CKR_ATTRIBUTE_VALUE_INVALID, m, tk)
      else if \<not> read_bbool pValue
      then (CKR_OK, omap_insert CKA_ALWAYS_SENSITIVE (BOOL False) (omap_insert type (BOOL False) m), tk)
      else if op = OBJECT_OP_GENERATE \<or> op = OBJECT_OP_DERIVE
      then (CKR_OK, omap_insert CKA_ALWAYS_SENSITIVE (BOOL True) (omap_insert type (BOOL True) m), tk)
      else (CKR_OK, omap_insert type (BOOL True) m, tk))"

definition P11AttrExtractable_updateAttr ::
  "('c, 'd, 'r) p11_env \<Rightarrow> ulong \<Rightarrow> bool \<Rightarrow> ck_value \<Rightarrow> ulong \<Rightarrow> object_op \<Rightarrow> attr_map \<Rightarrow> ('c, 'r) hsm_token
   \<Rightarrow> ('c, 'r) attr_result" where
  "P11AttrExtractable_updateAttr env type isPrivate pValue ulValueLen op m tk =
     (if (op = OBJECT_OP_SET \<or> op = OBJECT_OP_COPY) \<and> \<not> bool_of (omap_find m CKA_EXTRACTABLE) False
      then (CKR_ATTRIBUTE_READ_ONLY, m, tk)
      else if ulValueLen \<noteq> 1 then (CKR_ATTRIBUTE_VALUE_INVALID, m, tk)
      else if \<not> read_bbool pValue then (CKR_OK, omap_insert type (BOOL False) m, tk)
      else (CKR_OK, omap_insert CKA_NEVER_EXTRACTABLE (BOOL False) (omap_insert type (BOOL True) m), tk))"

definition P11AttrWrapWithTrusted_updateAttr ::
  "('c, 'd, 'r) p11_env \<Rightarrow> ulong \<Rightarrow> bool \<Rightarrow> ck_value \<Rightarrow> ulong \<Rightarrow> object_op \<Rightarrow> attr_map \<Rightarrow> ('c, 'r) hsm_token
   \<Rightarrow> ('c, 'r) attr_result" where
  "P11AttrWrapWithTrusted_updateAttr env type isPrivate pValue ulValueLen op m tk =
     (if (op = OBJECT_OP_SET \<or> op = OBJECT_OP_COPY) \<and> bool_of (omap_find m CKA_WRAP_WITH_TRUSTED) False
      then (CKR_ATTRIBUTE_READ_ONLY, m, tk)
      else if ulValueLen \<noteq> 1 then (CKR_ATTRIBUTE_VALUE_INVALID, m, tk)
      else (CKR_OK, omap_insert type (BOOL (read_bbool pValue)) m, tk))"

definition P11AttrAlwaysAuthenticate_updateAttr ::
  "('c, 'd, 'r) p11_env \<Rightarrow> ulong \<Rightarrow> bool \<Rightarrow> ck_value \<Rightarrow> ulong \<Rightarrow> object_op \<Rightarrow> attr_map \<Rightarrow> ('c, 'r) hsm_token
   \<Rightarrow> ('c, 'r) attr_result" where
  "P11AttrAlwaysAuthenticate_updateAttr env type isPrivate pValue ulValueLen op m tk =
     (if ulValueLen \<noteq> 1 then (CKR_ATTRIBUTE_VALUE_INVALID, m, tk)
      else if read_bbool pValue \<and> \<not> isPrivate then (CKR_TEMPLATE_INCONSISTENT, m, tk)
      else (CKR_OK, omap_insert type (BOOL (read_bbool pValue)) m, tk))"

text \<open>The modulus of an RSA key and the prime of a domain set the size attribute too.\<close>

definition number_updateAttr ::
  "ulong \<Rightarrow> ('c, 'd, 'r) p11_env \<Rightarrow> ulong \<Rightarrow> bool \<Rightarrow> ck_value \<Rightarrow> ulong \<Rightarrow> object_op \<Rightarrow> attr_map \<Rightarrow> ('c, 'r) hsm_token
   \<Rightarrow> ('c, 'r) attr_result" where
  "number_updateAttr size_type env type isPrivate pValue ulValueLen op m tk =
     (case seal env isPrivate (raw pValue ulValueLen) tk of
        (None, tk) \<Rightarrow> (CKR_GENERAL_ERROR, m, tk)
      | (Some value, tk) \<Rightarrow>
          if length value < unat ulValueLen then (CKR_GENERAL_ERROR, m, tk)
          else
            (let m = omap_insert type (BYTESTR value) m
             in (CKR_OK,
                 (if op = OBJECT_OP_CREATE
                  then set_existing size_type (ULONG (of_nat (bits (raw pValue ulValueLen)))) m else m),
                 tk)))"

text \<open>A nested template: flags and numbers of known types, bytes otherwise, no template inside.\<close>

definition template_flag :: "ulong \<Rightarrow> bool" where
  "template_flag t \<longleftrightarrow>
     t \<in> {CKA_TOKEN, CKA_PRIVATE, CKA_MODIFIABLE, CKA_COPYABLE, CKA_TRUSTED, CKA_ENCRYPT, CKA_DECRYPT,
          CKA_SIGN, CKA_SIGN_RECOVER, CKA_VERIFY, CKA_VERIFY_RECOVER, CKA_WRAP, CKA_UNWRAP, CKA_DERIVE,
          CKA_LOCAL, CKA_ALWAYS_SENSITIVE, CKA_SENSITIVE, CKA_NEVER_EXTRACTABLE, CKA_EXTRACTABLE,
          CKA_WRAP_WITH_TRUSTED, CKA_SECONDARY_AUTH, CKA_ALWAYS_AUTHENTICATE}"

definition template_ulong :: "ulong \<Rightarrow> bool" where
  "template_ulong t \<longleftrightarrow>
     t \<in> {CKA_CLASS, CKA_KEY_TYPE, CKA_CERTIFICATE_TYPE, CKA_CERTIFICATE_CATEGORY,
          CKA_JAVA_MIDP_SECURITY_DOMAIN, CKA_NAME_HASH_ALGORITHM, CKA_KEY_GEN_MECHANISM,
          CKA_MODULUS_BITS, CKA_PRIME_BITS, CKA_SUB_PRIME_BITS, CKA_VALUE_BITS, CKA_VALUE_LEN,
          CKA_AUTH_PIN_FLAGS}"

definition template_elem :: "ck_attribute \<Rightarrow> os_attribute option" where
  "template_elem t =
     (if template_flag (ca_type t)
      then (if ca_ulValueLen t \<noteq> 1 then None else Some (BOOL (read_bbool (ca_pValue t))))
      else if template_ulong (ca_type t)
      then (if ca_ulValueLen t \<noteq> 8 then None else Some (ULONG (read_ulong (ca_pValue t))))
      else if ca_type t = CKA_WRAP_TEMPLATE \<or> ca_type t = CKA_UNWRAP_TEMPLATE then None
      else Some (BYTESTR (raw (ca_pValue t) (ca_ulValueLen t))))"

text \<open>\<^verbatim>\<open>std::map::insert\<close> keeps the element that is already there.\<close>

fun template_data :: "ck_attribute list \<Rightarrow> attr_map \<Rightarrow> attr_map option" where
  "template_data [] data = Some data"
| "template_data (t # ts) data =
     (case template_elem t of
        None \<Rightarrow> None
      | Some elem \<Rightarrow>
          template_data ts
            (if omap_find data (ca_type t) = None then omap_insert (ca_type t) elem data else data))"

fun template_of :: "ck_value \<Rightarrow> ck_attribute list" where
  "template_of (ATTRS ts) = ts"
| "template_of _ = []"

definition template_updateAttr ::
  "('c, 'd, 'r) p11_env \<Rightarrow> ulong \<Rightarrow> bool \<Rightarrow> ck_value \<Rightarrow> ulong \<Rightarrow> object_op \<Rightarrow> attr_map \<Rightarrow> ('c, 'r) hsm_token
   \<Rightarrow> ('c, 'r) attr_result" where
  "template_updateAttr env type isPrivate pValue ulValueLen op m tk =
     (if unat ulValueLen mod sizeof_CK_ATTRIBUTE \<noteq> 0 then (CKR_ATTRIBUTE_VALUE_INVALID, m, tk)
      else (case template_data (take (unat ulValueLen div sizeof_CK_ATTRIBUTE) (template_of pValue)) [] of
              None \<Rightarrow> (CKR_ATTRIBUTE_VALUE_INVALID, m, tk)
            | Some data \<Rightarrow> (CKR_OK, omap_insert type (ATTRMAP data) m, tk)))"

fun mech_types :: "nat \<Rightarrow> bytes \<Rightarrow> ulong list \<Rightarrow> ulong list" where
  "mech_types 0 bs data = data"
| "mech_types (Suc n) bs data = mech_types n (drop 8 bs) (sset_insert (ulong_at bs) data)"

definition P11AttrAllowedMechanisms_updateAttr ::
  "('c, 'd, 'r) p11_env \<Rightarrow> ulong \<Rightarrow> bool \<Rightarrow> ck_value \<Rightarrow> ulong \<Rightarrow> object_op \<Rightarrow> attr_map \<Rightarrow> ('c, 'r) hsm_token
   \<Rightarrow> ('c, 'r) attr_result" where
  "P11AttrAllowedMechanisms_updateAttr env type isPrivate pValue ulValueLen op m tk =
     (if ulValueLen = 0 \<or> unat ulValueLen mod 8 \<noteq> 0 then (CKR_ATTRIBUTE_VALUE_INVALID, m, tk)
      else (CKR_OK, omap_insert type (MECHSET (mech_types (unat ulValueLen div 8) (raw pValue ulValueLen) [])) m, tk))"

section \<open>The classes\<close>

definition P11AttrClass :: "('c, 'd, 'r) p11_attribute" where
  "P11AttrClass = \<lparr>pa_type = CKA_CLASS, pa_size = 8, pa_checks = ck1,
     pa_default = ULONG CKO_VENDOR_DEFINED, pa_updateAttr = P11AttrClass_updateAttr, pa_dated = False\<rparr>"

definition P11AttrKeyType :: "ulong \<Rightarrow> ('c, 'd, 'r) p11_attribute" where
  "P11AttrKeyType inchecks = \<lparr>pa_type = CKA_KEY_TYPE, pa_size = 8, pa_checks = ck1 OR inchecks,
     pa_default = ULONG CKK_VENDOR_DEFINED, pa_updateAttr = P11AttrKeyType_updateAttr, pa_dated = False\<rparr>"

definition P11AttrCertificateType :: "('c, 'd, 'r) p11_attribute" where
  "P11AttrCertificateType = \<lparr>pa_type = CKA_CERTIFICATE_TYPE, pa_size = 8, pa_checks = ck1,
     pa_default = ULONG CKC_VENDOR_DEFINED, pa_updateAttr = P11AttrCertificateType_updateAttr, pa_dated = False\<rparr>"

definition P11AttrToken :: "('c, 'd, 'r) p11_attribute" where
  "P11AttrToken = \<lparr>pa_type = CKA_TOKEN, pa_size = 1, pa_checks = ck17,
     pa_default = BOOL False, pa_updateAttr = bool_updateAttr, pa_dated = False\<rparr>"

definition P11AttrPrivate :: "('c, 'd, 'r) p11_attribute" where
  "P11AttrPrivate = \<lparr>pa_type = CKA_PRIVATE, pa_size = 1, pa_checks = ck17,
     pa_default = BOOL True, pa_updateAttr = bool_updateAttr, pa_dated = False\<rparr>"

definition P11AttrModifiable :: "('c, 'd, 'r) p11_attribute" where
  "P11AttrModifiable = \<lparr>pa_type = CKA_MODIFIABLE, pa_size = 1, pa_checks = ck17,
     pa_default = BOOL True, pa_updateAttr = bool_updateAttr, pa_dated = False\<rparr>"

definition P11AttrLabel :: "('c, 'd, 'r) p11_attribute" where
  "P11AttrLabel = \<lparr>pa_type = CKA_LABEL, pa_size = VARIABLE, pa_checks = ck8,
     pa_default = BYTESTR [], pa_updateAttr = base_updateAttr, pa_dated = False\<rparr>"

definition P11AttrCopyable :: "('c, 'd, 'r) p11_attribute" where
  "P11AttrCopyable = \<lparr>pa_type = CKA_COPYABLE, pa_size = 1, pa_checks = ck12,
     pa_default = BOOL True, pa_updateAttr = P11AttrCopyable_updateAttr, pa_dated = False\<rparr>"

definition P11AttrDestroyable :: "('c, 'd, 'r) p11_attribute" where
  "P11AttrDestroyable = \<lparr>pa_type = CKA_DESTROYABLE, pa_size = 1, pa_checks = ck17,
     pa_default = BOOL True, pa_updateAttr = bool_updateAttr, pa_dated = False\<rparr>"

definition P11AttrApplication :: "('c, 'd, 'r) p11_attribute" where
  "P11AttrApplication = \<lparr>pa_type = CKA_APPLICATION, pa_size = VARIABLE, pa_checks = 0,
     pa_default = BYTESTR [], pa_updateAttr = base_updateAttr, pa_dated = False\<rparr>"

definition P11AttrObjectID :: "('c, 'd, 'r) p11_attribute" where
  "P11AttrObjectID = \<lparr>pa_type = CKA_OBJECT_ID, pa_size = VARIABLE, pa_checks = 0,
     pa_default = BYTESTR [], pa_updateAttr = base_updateAttr, pa_dated = False\<rparr>"

definition P11AttrCheckValue :: "ulong \<Rightarrow> ('c, 'd, 'r) p11_attribute" where
  "P11AttrCheckValue inchecks = \<lparr>pa_type = CKA_CHECK_VALUE, pa_size = VARIABLE, pa_checks = inchecks,
     pa_default = BYTESTR [], pa_updateAttr = P11AttrCheckValue_updateAttr, pa_dated = False\<rparr>"

definition P11AttrPublicKeyInfo :: "ulong \<Rightarrow> ('c, 'd, 'r) p11_attribute" where
  "P11AttrPublicKeyInfo inchecks = \<lparr>pa_type = CKA_PUBLIC_KEY_INFO, pa_size = VARIABLE, pa_checks = inchecks,
     pa_default = BYTESTR [], pa_updateAttr = base_updateAttr, pa_dated = False\<rparr>"

definition P11AttrID :: "('c, 'd, 'r) p11_attribute" where
  "P11AttrID = \<lparr>pa_type = CKA_ID, pa_size = VARIABLE, pa_checks = ck8,
     pa_default = BYTESTR [], pa_updateAttr = base_updateAttr, pa_dated = False\<rparr>"

definition P11AttrValue :: "ulong \<Rightarrow> ('c, 'd, 'r) p11_attribute" where
  "P11AttrValue inchecks = \<lparr>pa_type = CKA_VALUE, pa_size = VARIABLE, pa_checks = inchecks,
     pa_default = BYTESTR [], pa_updateAttr = P11AttrValue_updateAttr, pa_dated = False\<rparr>"

definition P11AttrSubject :: "ulong \<Rightarrow> ('c, 'd, 'r) p11_attribute" where
  "P11AttrSubject inchecks = \<lparr>pa_type = CKA_SUBJECT, pa_size = VARIABLE, pa_checks = inchecks,
     pa_default = BYTESTR [], pa_updateAttr = base_updateAttr, pa_dated = False\<rparr>"

definition P11AttrIssuer :: "('c, 'd, 'r) p11_attribute" where
  "P11AttrIssuer = \<lparr>pa_type = CKA_ISSUER, pa_size = VARIABLE, pa_checks = ck8,
     pa_default = BYTESTR [], pa_updateAttr = base_updateAttr, pa_dated = False\<rparr>"

definition P11AttrTrusted :: "('c, 'd, 'r) p11_attribute" where
  "P11AttrTrusted = \<lparr>pa_type = CKA_TRUSTED, pa_size = 1, pa_checks = ck10,
     pa_default = BOOL False, pa_updateAttr = P11AttrTrusted_updateAttr, pa_dated = False\<rparr>"

definition P11AttrCertificateCategory :: "('c, 'd, 'r) p11_attribute" where
  "P11AttrCertificateCategory = \<lparr>pa_type = CKA_CERTIFICATE_CATEGORY, pa_size = 8, pa_checks = 0,
     pa_default = ULONG 0, pa_updateAttr = ulong_updateAttr (\<lambda>_. True), pa_dated = False\<rparr>"

definition P11AttrStartDate :: "ulong \<Rightarrow> ('c, 'd, 'r) p11_attribute" where
  "P11AttrStartDate inchecks = \<lparr>pa_type = CKA_START_DATE, pa_size = VARIABLE, pa_checks = inchecks,
     pa_default = BYTESTR [], pa_updateAttr = date_updateAttr, pa_dated = True\<rparr>"

definition P11AttrEndDate :: "ulong \<Rightarrow> ('c, 'd, 'r) p11_attribute" where
  "P11AttrEndDate inchecks = \<lparr>pa_type = CKA_END_DATE, pa_size = VARIABLE, pa_checks = inchecks,
     pa_default = BYTESTR [], pa_updateAttr = date_updateAttr, pa_dated = True\<rparr>"

definition P11AttrSerialNumber :: "('c, 'd, 'r) p11_attribute" where
  "P11AttrSerialNumber = \<lparr>pa_type = CKA_SERIAL_NUMBER, pa_size = VARIABLE, pa_checks = ck8,
     pa_default = BYTESTR [], pa_updateAttr = base_updateAttr, pa_dated = False\<rparr>"

definition P11AttrURL :: "('c, 'd, 'r) p11_attribute" where
  "P11AttrURL = \<lparr>pa_type = CKA_URL, pa_size = VARIABLE, pa_checks = ck15,
     pa_default = BYTESTR [], pa_updateAttr = base_updateAttr, pa_dated = False\<rparr>"

definition P11AttrHashOfSubjectPublicKey :: "('c, 'd, 'r) p11_attribute" where
  "P11AttrHashOfSubjectPublicKey = \<lparr>pa_type = CKA_HASH_OF_SUBJECT_PUBLIC_KEY, pa_size = VARIABLE, pa_checks = ck16,
     pa_default = BYTESTR [], pa_updateAttr = base_updateAttr, pa_dated = False\<rparr>"

definition P11AttrHashOfIssuerPublicKey :: "('c, 'd, 'r) p11_attribute" where
  "P11AttrHashOfIssuerPublicKey = \<lparr>pa_type = CKA_HASH_OF_ISSUER_PUBLIC_KEY, pa_size = VARIABLE, pa_checks = ck16,
     pa_default = BYTESTR [], pa_updateAttr = base_updateAttr, pa_dated = False\<rparr>"

definition P11AttrJavaMidpSecurityDomain :: "('c, 'd, 'r) p11_attribute" where
  "P11AttrJavaMidpSecurityDomain = \<lparr>pa_type = CKA_JAVA_MIDP_SECURITY_DOMAIN, pa_size = 8, pa_checks = 0,
     pa_default = ULONG 0, pa_updateAttr = ulong_updateAttr (\<lambda>_. True), pa_dated = False\<rparr>"

definition P11AttrNameHashAlgorithm :: "('c, 'd, 'r) p11_attribute" where
  "P11AttrNameHashAlgorithm = \<lparr>pa_type = CKA_NAME_HASH_ALGORITHM, pa_size = 8, pa_checks = 0,
     pa_default = ULONG CKM_SHA_1, pa_updateAttr = ulong_updateAttr (\<lambda>_. True), pa_dated = False\<rparr>"

definition P11AttrDerive :: "('c, 'd, 'r) p11_attribute" where
  "P11AttrDerive = \<lparr>pa_type = CKA_DERIVE, pa_size = 1, pa_checks = ck8,
     pa_default = BOOL False, pa_updateAttr = bool_updateAttr, pa_dated = False\<rparr>"

definition P11AttrEncrypt :: "('c, 'd, 'r) p11_attribute" where
  "P11AttrEncrypt = \<lparr>pa_type = CKA_ENCRYPT, pa_size = 1, pa_checks = ck8 OR ck9,
     pa_default = BOOL True, pa_updateAttr = bool_updateAttr, pa_dated = False\<rparr>"

definition P11AttrVerify :: "('c, 'd, 'r) p11_attribute" where
  "P11AttrVerify = \<lparr>pa_type = CKA_VERIFY, pa_size = 1, pa_checks = ck8 OR ck9,
     pa_default = BOOL True, pa_updateAttr = bool_updateAttr, pa_dated = False\<rparr>"

definition P11AttrVerifyRecover :: "('c, 'd, 'r) p11_attribute" where
  "P11AttrVerifyRecover = \<lparr>pa_type = CKA_VERIFY_RECOVER, pa_size = 1, pa_checks = ck8 OR ck9,
     pa_default = BOOL True, pa_updateAttr = bool_updateAttr, pa_dated = False\<rparr>"

definition P11AttrWrap :: "('c, 'd, 'r) p11_attribute" where
  "P11AttrWrap = \<lparr>pa_type = CKA_WRAP, pa_size = 1, pa_checks = ck8 OR ck9,
     pa_default = BOOL True, pa_updateAttr = bool_updateAttr, pa_dated = False\<rparr>"

definition P11AttrDecrypt :: "('c, 'd, 'r) p11_attribute" where
  "P11AttrDecrypt = \<lparr>pa_type = CKA_DECRYPT, pa_size = 1, pa_checks = ck8 OR ck9,
     pa_default = BOOL True, pa_updateAttr = bool_updateAttr, pa_dated = False\<rparr>"

definition P11AttrSign :: "('c, 'd, 'r) p11_attribute" where
  "P11AttrSign = \<lparr>pa_type = CKA_SIGN, pa_size = 1, pa_checks = ck8 OR ck9,
     pa_default = BOOL True, pa_updateAttr = bool_updateAttr, pa_dated = False\<rparr>"

definition P11AttrSignRecover :: "('c, 'd, 'r) p11_attribute" where
  "P11AttrSignRecover = \<lparr>pa_type = CKA_SIGN_RECOVER, pa_size = 1, pa_checks = ck8 OR ck9,
     pa_default = BOOL True, pa_updateAttr = bool_updateAttr, pa_dated = False\<rparr>"

definition P11AttrUnwrap :: "('c, 'd, 'r) p11_attribute" where
  "P11AttrUnwrap = \<lparr>pa_type = CKA_UNWRAP, pa_size = 1, pa_checks = ck8 OR ck9,
     pa_default = BOOL True, pa_updateAttr = bool_updateAttr, pa_dated = False\<rparr>"

definition P11AttrLocal :: "ulong \<Rightarrow> ('c, 'd, 'r) p11_attribute" where
  "P11AttrLocal inchecks = \<lparr>pa_type = CKA_LOCAL, pa_size = 1, pa_checks = ck2 OR ck4 OR inchecks,
     pa_default = BOOL False, pa_updateAttr = fixed_updateAttr, pa_dated = False\<rparr>"

definition P11AttrKeyGenMechanism :: "('c, 'd, 'r) p11_attribute" where
  "P11AttrKeyGenMechanism = \<lparr>pa_type = CKA_KEY_GEN_MECHANISM, pa_size = 8, pa_checks = ck2 OR ck4 OR ck6,
     pa_default = ULONG CK_UNAVAILABLE, pa_updateAttr = fixed_updateAttr, pa_dated = False\<rparr>"

definition P11AttrAlwaysSensitive :: "('c, 'd, 'r) p11_attribute" where
  "P11AttrAlwaysSensitive = \<lparr>pa_type = CKA_ALWAYS_SENSITIVE, pa_size = 1, pa_checks = ck2 OR ck4 OR ck6,
     pa_default = BOOL False, pa_updateAttr = fixed_updateAttr, pa_dated = False\<rparr>"

definition P11AttrNeverExtractable :: "('c, 'd, 'r) p11_attribute" where
  "P11AttrNeverExtractable = \<lparr>pa_type = CKA_NEVER_EXTRACTABLE, pa_size = 1, pa_checks = ck2 OR ck4 OR ck6,
     pa_default = BOOL True, pa_updateAttr = fixed_updateAttr, pa_dated = False\<rparr>"

definition P11AttrSensitive :: "('c, 'd, 'r) p11_attribute" where
  "P11AttrSensitive = \<lparr>pa_type = CKA_SENSITIVE, pa_size = 1, pa_checks = ck8 OR ck9 OR ck11,
     pa_default = BOOL False, pa_updateAttr = P11AttrSensitive_updateAttr, pa_dated = False\<rparr>"

definition P11AttrExtractable :: "('c, 'd, 'r) p11_attribute" where
  "P11AttrExtractable = \<lparr>pa_type = CKA_EXTRACTABLE, pa_size = 1, pa_checks = ck8 OR ck9 OR ck12,
     pa_default = BOOL True, pa_updateAttr = P11AttrExtractable_updateAttr, pa_dated = False\<rparr>"

definition P11AttrWrapWithTrusted :: "('c, 'd, 'r) p11_attribute" where
  "P11AttrWrapWithTrusted = \<lparr>pa_type = CKA_WRAP_WITH_TRUSTED, pa_size = 1, pa_checks = ck11,
     pa_default = BOOL False, pa_updateAttr = P11AttrWrapWithTrusted_updateAttr, pa_dated = False\<rparr>"

definition P11AttrAlwaysAuthenticate :: "('c, 'd, 'r) p11_attribute" where
  "P11AttrAlwaysAuthenticate = \<lparr>pa_type = CKA_ALWAYS_AUTHENTICATE, pa_size = 1, pa_checks = 0,
     pa_default = BOOL False, pa_updateAttr = P11AttrAlwaysAuthenticate_updateAttr, pa_dated = False\<rparr>"

definition P11AttrModulus :: "ulong \<Rightarrow> ('c, 'd, 'r) p11_attribute" where
  "P11AttrModulus inchecks = \<lparr>pa_type = CKA_MODULUS, pa_size = VARIABLE, pa_checks = ck1 OR ck4 OR inchecks,
     pa_default = BYTESTR [], pa_updateAttr = number_updateAttr CKA_MODULUS_BITS, pa_dated = False\<rparr>"

definition P11AttrPublicExponent :: "ulong \<Rightarrow> ('c, 'd, 'r) p11_attribute" where
  "P11AttrPublicExponent inchecks = \<lparr>pa_type = CKA_PUBLIC_EXPONENT, pa_size = VARIABLE, pa_checks = inchecks,
     pa_default = BYTESTR [], pa_updateAttr = base_updateAttr, pa_dated = False\<rparr>"

definition P11AttrPrivateExponent :: "('c, 'd, 'r) p11_attribute" where
  "P11AttrPrivateExponent = \<lparr>pa_type = CKA_PRIVATE_EXPONENT, pa_size = VARIABLE, pa_checks = ck1 OR ck4 OR ck6 OR ck7,
     pa_default = BYTESTR [], pa_updateAttr = base_updateAttr, pa_dated = False\<rparr>"

definition P11AttrPrime1 :: "('c, 'd, 'r) p11_attribute" where
  "P11AttrPrime1 = \<lparr>pa_type = CKA_PRIME_1, pa_size = VARIABLE, pa_checks = ck4 OR ck6 OR ck7,
     pa_default = BYTESTR [], pa_updateAttr = base_updateAttr, pa_dated = False\<rparr>"

definition P11AttrPrime2 :: "('c, 'd, 'r) p11_attribute" where
  "P11AttrPrime2 = \<lparr>pa_type = CKA_PRIME_2, pa_size = VARIABLE, pa_checks = ck4 OR ck6 OR ck7,
     pa_default = BYTESTR [], pa_updateAttr = base_updateAttr, pa_dated = False\<rparr>"

definition P11AttrExponent1 :: "('c, 'd, 'r) p11_attribute" where
  "P11AttrExponent1 = \<lparr>pa_type = CKA_EXPONENT_1, pa_size = VARIABLE, pa_checks = ck4 OR ck6 OR ck7,
     pa_default = BYTESTR [], pa_updateAttr = base_updateAttr, pa_dated = False\<rparr>"

definition P11AttrExponent2 :: "('c, 'd, 'r) p11_attribute" where
  "P11AttrExponent2 = \<lparr>pa_type = CKA_EXPONENT_2, pa_size = VARIABLE, pa_checks = ck4 OR ck6 OR ck7,
     pa_default = BYTESTR [], pa_updateAttr = base_updateAttr, pa_dated = False\<rparr>"

definition P11AttrCoefficient :: "('c, 'd, 'r) p11_attribute" where
  "P11AttrCoefficient = \<lparr>pa_type = CKA_COEFFICIENT, pa_size = VARIABLE, pa_checks = ck4 OR ck6 OR ck7,
     pa_default = BYTESTR [], pa_updateAttr = base_updateAttr, pa_dated = False\<rparr>"

definition P11AttrModulusBits :: "('c, 'd, 'r) p11_attribute" where
  "P11AttrModulusBits = \<lparr>pa_type = CKA_MODULUS_BITS, pa_size = 8, pa_checks = ck2 OR ck3,
     pa_default = ULONG 0, pa_updateAttr = ulong_updateAttr (\<lambda>op. op = OBJECT_OP_GENERATE), pa_dated = False\<rparr>"

definition P11AttrPrime :: "ulong \<Rightarrow> ('c, 'd, 'r) p11_attribute" where
  "P11AttrPrime inchecks = \<lparr>pa_type = CKA_PRIME, pa_size = VARIABLE, pa_checks = ck1 OR inchecks,
     pa_default = BYTESTR [], pa_updateAttr = number_updateAttr CKA_PRIME_BITS, pa_dated = False\<rparr>"

definition P11AttrSubPrime :: "ulong \<Rightarrow> ('c, 'd, 'r) p11_attribute" where
  "P11AttrSubPrime inchecks = \<lparr>pa_type = CKA_SUBPRIME, pa_size = VARIABLE, pa_checks = ck1 OR inchecks,
     pa_default = BYTESTR [], pa_updateAttr = base_updateAttr, pa_dated = False\<rparr>"

definition P11AttrBase :: "ulong \<Rightarrow> ('c, 'd, 'r) p11_attribute" where
  "P11AttrBase inchecks = \<lparr>pa_type = CKA_BASE, pa_size = VARIABLE, pa_checks = ck1 OR inchecks,
     pa_default = BYTESTR [], pa_updateAttr = base_updateAttr, pa_dated = False\<rparr>"

definition P11AttrPrimeBits :: "('c, 'd, 'r) p11_attribute" where
  "P11AttrPrimeBits = \<lparr>pa_type = CKA_PRIME_BITS, pa_size = 8, pa_checks = ck2 OR ck3,
     pa_default = ULONG 0, pa_updateAttr = ulong_updateAttr (\<lambda>op. op = OBJECT_OP_GENERATE), pa_dated = False\<rparr>"

definition P11AttrValueBits :: "('c, 'd, 'r) p11_attribute" where
  "P11AttrValueBits = \<lparr>pa_type = CKA_VALUE_BITS, pa_size = 8, pa_checks = ck2 OR ck6,
     pa_default = ULONG 0, pa_updateAttr = ulong_updateAttr (\<lambda>op. op = OBJECT_OP_GENERATE), pa_dated = False\<rparr>"

definition P11AttrEcParams :: "ulong \<Rightarrow> ('c, 'd, 'r) p11_attribute" where
  "P11AttrEcParams inchecks = \<lparr>pa_type = CKA_EC_PARAMS, pa_size = VARIABLE, pa_checks = ck1 OR inchecks,
     pa_default = BYTESTR [], pa_updateAttr = base_updateAttr, pa_dated = False\<rparr>"

definition P11AttrEcPoint :: "('c, 'd, 'r) p11_attribute" where
  "P11AttrEcPoint = \<lparr>pa_type = CKA_EC_POINT, pa_size = VARIABLE, pa_checks = ck1 OR ck4,
     pa_default = BYTESTR [], pa_updateAttr = base_updateAttr, pa_dated = False\<rparr>"

definition P11AttrParameterSet :: "ulong \<Rightarrow> ('c, 'd, 'r) p11_attribute" where
  "P11AttrParameterSet inchecks = \<lparr>pa_type = CKA_PARAMETER_SET, pa_size = 8, pa_checks = ck1 OR inchecks,
     pa_default = ULONG 0, pa_updateAttr = ulong_updateAttr (\<lambda>op. op = OBJECT_OP_GENERATE \<or> op = OBJECT_OP_CREATE), pa_dated = False\<rparr>"

definition P11AttrGostR3410Params :: "ulong \<Rightarrow> ('c, 'd, 'r) p11_attribute" where
  "P11AttrGostR3410Params inchecks = \<lparr>pa_type = CKA_GOSTR3410_PARAMS, pa_size = VARIABLE, pa_checks = ck1 OR inchecks,
     pa_default = BYTESTR [], pa_updateAttr = base_updateAttr, pa_dated = False\<rparr>"

definition P11AttrGostR3411Params :: "ulong \<Rightarrow> ('c, 'd, 'r) p11_attribute" where
  "P11AttrGostR3411Params inchecks = \<lparr>pa_type = CKA_GOSTR3411_PARAMS, pa_size = VARIABLE, pa_checks = ck1 OR ck8 OR inchecks,
     pa_default = BYTESTR [], pa_updateAttr = base_updateAttr, pa_dated = False\<rparr>"

definition P11AttrGost28147Params :: "ulong \<Rightarrow> ('c, 'd, 'r) p11_attribute" where
  "P11AttrGost28147Params inchecks = \<lparr>pa_type = CKA_GOST28147_PARAMS, pa_size = VARIABLE, pa_checks = inchecks,
     pa_default = BYTESTR [], pa_updateAttr = base_updateAttr, pa_dated = False\<rparr>"

definition P11AttrValueLen :: "ulong \<Rightarrow> ('c, 'd, 'r) p11_attribute" where
  "P11AttrValueLen inchecks = \<lparr>pa_type = CKA_VALUE_LEN, pa_size = 8, pa_checks = ck2 OR ck3 OR inchecks,
     pa_default = ULONG 0, pa_updateAttr = ulong_updateAttr (\<lambda>op. op = OBJECT_OP_GENERATE \<or> op = OBJECT_OP_DERIVE \<or> op = OBJECT_OP_DECAPSULATE), pa_dated = False\<rparr>"

definition P11AttrWrapTemplate :: "('c, 'd, 'r) p11_attribute" where
  "P11AttrWrapTemplate = \<lparr>pa_type = CKA_WRAP_TEMPLATE, pa_size = VARIABLE, pa_checks = 0,
     pa_default = ATTRMAP [], pa_updateAttr = template_updateAttr, pa_dated = False\<rparr>"

definition P11AttrUnwrapTemplate :: "('c, 'd, 'r) p11_attribute" where
  "P11AttrUnwrapTemplate = \<lparr>pa_type = CKA_UNWRAP_TEMPLATE, pa_size = VARIABLE, pa_checks = 0,
     pa_default = ATTRMAP [], pa_updateAttr = template_updateAttr, pa_dated = False\<rparr>"

definition P11AttrAllowedMechanisms :: "('c, 'd, 'r) p11_attribute" where
  "P11AttrAllowedMechanisms = \<lparr>pa_type = CKA_ALLOWED_MECHANISMS, pa_size = VARIABLE, pa_checks = 0,
     pa_default = MECHSET [], pa_updateAttr = P11AttrAllowedMechanisms_updateAttr, pa_dated = False\<rparr>"

definition P11AttrSeed :: "('c, 'd, 'r) p11_attribute" where
  "P11AttrSeed = \<lparr>pa_type = CKA_SEED, pa_size = VARIABLE, pa_checks = ck4 OR ck6 OR ck7,
     pa_default = BYTESTR [], pa_updateAttr = base_updateAttr, pa_dated = False\<rparr>"

definition P11AttrEncapsulate :: "('c, 'd, 'r) p11_attribute" where
  "P11AttrEncapsulate = \<lparr>pa_type = CKA_ENCAPSULATE, pa_size = 1, pa_checks = ck8 OR ck9,
     pa_default = BOOL True, pa_updateAttr = bool_updateAttr, pa_dated = False\<rparr>"

definition P11AttrDecapsulate :: "('c, 'd, 'r) p11_attribute" where
  "P11AttrDecapsulate = \<lparr>pa_type = CKA_DECAPSULATE, pa_size = 1, pa_checks = ck8 OR ck9,
     pa_default = BOOL True, pa_updateAttr = bool_updateAttr, pa_dated = False\<rparr>"

definition P11AttrVendorBool :: "ulong \<Rightarrow> ('c, 'd, 'r) p11_attribute" where
  "P11AttrVendorBool inType = \<lparr>pa_type = inType, pa_size = 1, pa_checks = ck8,
     pa_default = BOOL False, pa_updateAttr = bool_updateAttr, pa_dated = False\<rparr>"

end
