(* ===== verification/P11_Objects.thy ===== *)
theory P11_Objects
  imports P11_Attributes Session_Objects Object_File
begin

text \<open>
  The object classes of \<^verbatim>\<open>P11Objects.cpp\<close> and \<^verbatim>\<open>newP11Object\<close> of \<^verbatim>\<open>SoftHSM.cpp\<close>, which
  picks one. A class is what its \<open>init\<close> does to the stored object: it fixes the class and
  key type, lets the parent class add its attributes, and adds its own, each with its
  default value when the stored object does not have it. The result is the stored object
  and the table of attribute classes, which \<open>loadTemplate\<close> and \<open>saveTemplate\<close> go through.
  The build has both GOST sizes, ML-DSA and ML-KEM.
\<close>

unbundle bit_operations_syntax

section \<open>Building an object\<close>

type_synonym ('c, 'd, 'r) attr_table = "(ulong, ('c, 'd, 'r) p11_attribute) omap"
type_synonym ('c, 'd, 'r) p11_object = "attr_map \<times> ('c, 'd, 'r) attr_table"

definition add_attributes :: "('c, 'd, 'r) p11_attribute list \<Rightarrow> ('c, 'd, 'r) p11_object \<Rightarrow> ('c, 'd, 'r) p11_object" where
  "add_attributes as p =
     (fold attr_init as (fst p), fold (\<lambda>a. omap_insert (pa_type a) a) as (snd p))"

definition set_if_differs :: "ulong \<Rightarrow> ulong \<Rightarrow> attr_map \<Rightarrow> attr_map" where
  "set_if_differs type v m =
     (if omap_find m type = None \<or> ulong_of (omap_find m type) CKO_VENDOR_DEFINED \<noteq> v
      then omap_insert type (ULONG v) m else m)"

definition set_if_absent :: "ulong \<Rightarrow> os_attribute \<Rightarrow> attr_map \<Rightarrow> attr_map" where
  "set_if_absent type v m = (if omap_find m type = None then omap_insert type v m else m)"

definition P11Object_init :: "attr_map \<Rightarrow> ('c, 'd, 'r) p11_object" where
  "P11Object_init m =
     add_attributes
       [P11AttrClass, P11AttrToken, P11AttrPrivate, P11AttrModifiable, P11AttrLabel,
        P11AttrCopyable, P11AttrDestroyable]
       (m, [])"

definition P11DataObj_init :: "attr_map \<Rightarrow> ('c, 'd, 'r) p11_object" where
  "P11DataObj_init m =
     add_attributes
       [P11AttrApplication, P11AttrObjectID, P11AttrValue 0]
       (P11Object_init (set_if_differs CKA_CLASS CKO_DATA m))"

definition P11CertificateObj_init :: "attr_map \<Rightarrow> ('c, 'd, 'r) p11_object" where
  "P11CertificateObj_init m =
     add_attributes
       [P11AttrCertificateType, P11AttrTrusted, P11AttrCertificateCategory, P11AttrCheckValue 0,
        P11AttrStartDate 0, P11AttrEndDate 0, P11AttrPublicKeyInfo 0]
       (P11Object_init (set_if_absent CKA_PRIVATE (BOOL False) (set_if_differs CKA_CLASS CKO_CERTIFICATE m)))"

definition P11X509CertificateObj_init :: "attr_map \<Rightarrow> ('c, 'd, 'r) p11_object" where
  "P11X509CertificateObj_init m =
     add_attributes
       [P11AttrSubject ck1, P11AttrID, P11AttrIssuer, P11AttrSerialNumber,
        P11AttrValue (ck1 OR ck14), P11AttrURL, P11AttrHashOfSubjectPublicKey,
        P11AttrHashOfIssuerPublicKey, P11AttrJavaMidpSecurityDomain, P11AttrNameHashAlgorithm]
       (P11CertificateObj_init (set_if_differs CKA_CERTIFICATE_TYPE CKC_X_509 m))"

definition P11OpenPGPPublicKeyObj_init :: "attr_map \<Rightarrow> ('c, 'd, 'r) p11_object" where
  "P11OpenPGPPublicKeyObj_init m =
     add_attributes
       [P11AttrSubject ck1, P11AttrID, P11AttrIssuer, P11AttrSerialNumber,
        P11AttrValue (ck1 OR ck14), P11AttrURL]
       (P11CertificateObj_init (set_if_differs CKA_CERTIFICATE_TYPE CKC_OPENPGP m))"

definition P11KeyObj_init :: "attr_map \<Rightarrow> ('c, 'd, 'r) p11_object" where
  "P11KeyObj_init m =
     add_attributes
       [P11AttrKeyType ck5, P11AttrID, P11AttrStartDate ck8, P11AttrEndDate ck8, P11AttrDerive,
        P11AttrLocal ck6, P11AttrKeyGenMechanism, P11AttrAllowedMechanisms,
        P11AttrVendorBool CKA_VENDOR_KEY_PIN_ENTER, P11AttrVendorBool CKA_VENDOR_KEY_CONFIRM_OP,
        P11AttrVendorBool CKA_VENDOR_KEY_JOURNAL, P11AttrVendorBool CKA_VENDOR_CONFIRM_BY_TOUCH]
       (P11Object_init m)"

definition P11PublicKeyObj_init :: "attr_map \<Rightarrow> ('c, 'd, 'r) p11_object" where
  "P11PublicKeyObj_init m =
     add_attributes
       [P11AttrSubject ck8, P11AttrEncrypt, P11AttrVerify, P11AttrVerifyRecover, P11AttrWrap,
        P11AttrTrusted, P11AttrWrapTemplate, P11AttrPublicKeyInfo 0]
       (P11KeyObj_init (set_if_absent CKA_PRIVATE (BOOL False) (set_if_differs CKA_CLASS CKO_PUBLIC_KEY m)))"

definition P11RSAPublicKeyObj_init :: "attr_map \<Rightarrow> ('c, 'd, 'r) p11_object" where
  "P11RSAPublicKeyObj_init m =
     add_attributes
       [P11AttrModulus 0, P11AttrModulusBits, P11AttrPublicExponent ck1]
       (P11PublicKeyObj_init (set_if_differs CKA_KEY_TYPE CKK_RSA m))"

definition P11DSAPublicKeyObj_init :: "attr_map \<Rightarrow> ('c, 'd, 'r) p11_object" where
  "P11DSAPublicKeyObj_init m =
     add_attributes
       [P11AttrPrime ck3, P11AttrSubPrime ck3, P11AttrBase ck3, P11AttrValue (ck1 OR ck4)]
       (P11PublicKeyObj_init (set_if_differs CKA_KEY_TYPE CKK_DSA m))"

definition P11ECPublicKeyObj_init :: "attr_map \<Rightarrow> ('c, 'd, 'r) p11_object" where
  "P11ECPublicKeyObj_init m =
     add_attributes
       [P11AttrEcParams ck3, P11AttrEcPoint]
       (P11PublicKeyObj_init (set_if_differs CKA_KEY_TYPE CKK_EC m))"

definition P11EDPublicKeyObj_init :: "attr_map \<Rightarrow> ('c, 'd, 'r) p11_object" where
  "P11EDPublicKeyObj_init m =
     add_attributes
       [P11AttrEcParams ck3, P11AttrEcPoint]
       (P11PublicKeyObj_init (set_if_differs CKA_KEY_TYPE CKK_EC_EDWARDS m))"

definition P11MLDSAPublicKeyObj_init :: "attr_map \<Rightarrow> ('c, 'd, 'r) p11_object" where
  "P11MLDSAPublicKeyObj_init m =
     add_attributes
       [P11AttrParameterSet ck3, P11AttrValue (ck1 OR ck4)]
       (P11PublicKeyObj_init (set_if_differs CKA_KEY_TYPE CKK_ML_DSA m))"

definition P11MLKEMPublicKeyObj_init :: "attr_map \<Rightarrow> ('c, 'd, 'r) p11_object" where
  "P11MLKEMPublicKeyObj_init m =
     add_attributes
       [P11AttrEncapsulate, P11AttrParameterSet (ck1 OR ck3), P11AttrValue (ck1 OR ck4)]
       (P11PublicKeyObj_init (set_if_differs CKA_KEY_TYPE CKK_ML_KEM m))"

definition P11DHPublicKeyObj_init :: "attr_map \<Rightarrow> ('c, 'd, 'r) p11_object" where
  "P11DHPublicKeyObj_init m =
     add_attributes
       [P11AttrPrime ck3, P11AttrBase ck3, P11AttrValue (ck1 OR ck4)]
       (P11PublicKeyObj_init (set_if_differs CKA_KEY_TYPE CKK_DH m))"

definition P11GOSTPublicKeyObj_init :: "ulong \<Rightarrow> attr_map \<Rightarrow> ('c, 'd, 'r) p11_object" where
  "P11GOSTPublicKeyObj_init keyType m =
     add_attributes
       [P11AttrValue (ck1 OR ck4), P11AttrGostR3410Params ck3, P11AttrGostR3411Params ck3,
        P11AttrGost28147Params ck8]
       (P11PublicKeyObj_init (set_if_differs CKA_KEY_TYPE keyType m))"

definition P11PrivateKeyObj_init :: "attr_map \<Rightarrow> ('c, 'd, 'r) p11_object" where
  "P11PrivateKeyObj_init m =
     add_attributes
       [P11AttrSubject ck8, P11AttrSensitive, P11AttrDecrypt, P11AttrSign, P11AttrSignRecover,
        P11AttrUnwrap, P11AttrExtractable, P11AttrAlwaysSensitive, P11AttrNeverExtractable,
        P11AttrWrapWithTrusted, P11AttrUnwrapTemplate, P11AttrAlwaysAuthenticate,
        P11AttrPublicKeyInfo ck8]
       (P11KeyObj_init (set_if_differs CKA_CLASS CKO_PRIVATE_KEY m))"

definition P11RSAPrivateKeyObj_init :: "attr_map \<Rightarrow> ('c, 'd, 'r) p11_object" where
  "P11RSAPrivateKeyObj_init m =
     add_attributes
       [P11AttrModulus ck6, P11AttrPublicExponent (ck4 OR ck6), P11AttrPrivateExponent,
        P11AttrPrime1, P11AttrPrime2, P11AttrExponent1, P11AttrExponent2, P11AttrCoefficient]
       (P11PrivateKeyObj_init (set_if_differs CKA_KEY_TYPE CKK_RSA m))"

definition P11DSAPrivateKeyObj_init :: "attr_map \<Rightarrow> ('c, 'd, 'r) p11_object" where
  "P11DSAPrivateKeyObj_init m =
     add_attributes
       [P11AttrPrime (ck4 OR ck6), P11AttrSubPrime (ck4 OR ck6), P11AttrBase (ck4 OR ck6),
        P11AttrValue (ck1 OR ck4 OR ck6 OR ck7)]
       (P11PrivateKeyObj_init (set_if_differs CKA_KEY_TYPE CKK_DSA m))"

definition P11ECPrivateKeyObj_init :: "attr_map \<Rightarrow> ('c, 'd, 'r) p11_object" where
  "P11ECPrivateKeyObj_init m =
     add_attributes
       [P11AttrEcParams (ck4 OR ck6), P11AttrValue (ck1 OR ck4 OR ck6 OR ck7)]
       (P11PrivateKeyObj_init (set_if_differs CKA_KEY_TYPE CKK_EC m))"

definition P11EDPrivateKeyObj_init :: "attr_map \<Rightarrow> ('c, 'd, 'r) p11_object" where
  "P11EDPrivateKeyObj_init m =
     add_attributes
       [P11AttrEcParams (ck4 OR ck6), P11AttrValue (ck1 OR ck4 OR ck6 OR ck7)]
       (P11PrivateKeyObj_init (set_if_differs CKA_KEY_TYPE CKK_EC_EDWARDS m))"

definition P11MLDSAPrivateKeyObj_init :: "attr_map \<Rightarrow> ('c, 'd, 'r) p11_object" where
  "P11MLDSAPrivateKeyObj_init m =
     add_attributes
       [P11AttrParameterSet (ck4 OR ck6), P11AttrSeed, P11AttrValue (ck1 OR ck4 OR ck6 OR ck7)]
       (P11PrivateKeyObj_init (set_if_differs CKA_KEY_TYPE CKK_ML_DSA m))"

definition P11MLKEMPrivateKeyObj_init :: "attr_map \<Rightarrow> ('c, 'd, 'r) p11_object" where
  "P11MLKEMPrivateKeyObj_init m =
     add_attributes
       [P11AttrDecapsulate, P11AttrParameterSet (ck4 OR ck6), P11AttrSeed,
        P11AttrValue (ck1 OR ck4 OR ck6 OR ck7)]
       (P11PrivateKeyObj_init (set_if_differs CKA_KEY_TYPE CKK_ML_KEM m))"

definition P11DHPrivateKeyObj_init :: "attr_map \<Rightarrow> ('c, 'd, 'r) p11_object" where
  "P11DHPrivateKeyObj_init m =
     add_attributes
       [P11AttrPrime (ck4 OR ck6), P11AttrBase (ck4 OR ck6),
        P11AttrValue (ck1 OR ck4 OR ck6 OR ck7), P11AttrValueBits]
       (P11PrivateKeyObj_init (set_if_differs CKA_KEY_TYPE CKK_DH m))"

definition P11GOSTPrivateKeyObj_init :: "ulong \<Rightarrow> attr_map \<Rightarrow> ('c, 'd, 'r) p11_object" where
  "P11GOSTPrivateKeyObj_init keyType m =
     add_attributes
       [P11AttrValue (ck1 OR ck4 OR ck6 OR ck7), P11AttrGostR3410Params (ck4 OR ck6),
        P11AttrGostR3411Params (ck4 OR ck6), P11AttrGost28147Params (ck4 OR ck6 OR ck8)]
       (P11PrivateKeyObj_init (set_if_differs CKA_KEY_TYPE keyType m))"

definition P11SecretKeyObj_init :: "attr_map \<Rightarrow> ('c, 'd, 'r) p11_object" where
  "P11SecretKeyObj_init m =
     add_attributes
       [P11AttrSensitive, P11AttrEncrypt, P11AttrDecrypt, P11AttrSign, P11AttrVerify, P11AttrWrap,
        P11AttrUnwrap, P11AttrExtractable, P11AttrAlwaysSensitive, P11AttrNeverExtractable,
        P11AttrCheckValue ck8, P11AttrWrapWithTrusted, P11AttrTrusted, P11AttrWrapTemplate,
        P11AttrUnwrapTemplate]
       (P11KeyObj_init (set_if_differs CKA_CLASS CKO_SECRET_KEY m))"

definition P11GenericSecretKeyObj_init :: "ulong \<Rightarrow> attr_map \<Rightarrow> ('c, 'd, 'r) p11_object" where
  "P11GenericSecretKeyObj_init keytype m =
     add_attributes
       [P11AttrValue (ck1 OR ck4 OR ck6 OR ck7), P11AttrValueLen 0]
       (P11SecretKeyObj_init (set_if_differs CKA_KEY_TYPE keytype m))"

definition P11AESSecretKeyObj_init :: "attr_map \<Rightarrow> ('c, 'd, 'r) p11_object" where
  "P11AESSecretKeyObj_init m =
     add_attributes
       [P11AttrValue (ck1 OR ck4 OR ck6 OR ck7), P11AttrValueLen ck6]
       (P11SecretKeyObj_init (set_if_differs CKA_KEY_TYPE CKK_AES m))"

definition P11DESSecretKeyObj_init :: "ulong \<Rightarrow> attr_map \<Rightarrow> ('c, 'd, 'r) p11_object" where
  "P11DESSecretKeyObj_init keytype m =
     add_attributes
       [P11AttrValue (ck1 OR ck4 OR ck6 OR ck7)]
       (P11SecretKeyObj_init (set_if_differs CKA_KEY_TYPE keytype m))"

definition P11GOSTSecretKeyObj_init :: "ulong \<Rightarrow> attr_map \<Rightarrow> ('c, 'd, 'r) p11_object" where
  "P11GOSTSecretKeyObj_init keytype m =
     add_attributes
        ([P11AttrValue (ck1 OR ck4 OR ck6 OR ck7)] @ (if keytype = CKK_GOST28147 then [P11AttrGost28147Params (ck1 OR ck5)] else []))
       (P11SecretKeyObj_init (set_if_differs CKA_KEY_TYPE keytype m))"

definition P11DomainObj_init :: "attr_map \<Rightarrow> ('c, 'd, 'r) p11_object" where
  "P11DomainObj_init m =
     add_attributes
       [P11AttrKeyType 0, P11AttrLocal 0]
       (P11Object_init (set_if_differs CKA_CLASS CKO_DOMAIN_PARAMETERS m))"

definition P11DSADomainObj_init :: "attr_map \<Rightarrow> ('c, 'd, 'r) p11_object" where
  "P11DSADomainObj_init m =
     add_attributes
       [P11AttrPrime ck4, P11AttrSubPrime ck4, P11AttrBase ck4, P11AttrPrimeBits]
       (P11DomainObj_init (set_if_differs CKA_KEY_TYPE CKK_DSA m))"

definition P11DHDomainObj_init :: "attr_map \<Rightarrow> ('c, 'd, 'r) p11_object" where
  "P11DHDomainObj_init m =
     add_attributes
       [P11AttrPrime ck4, P11AttrBase ck4, P11AttrPrimeBits]
       (P11DomainObj_init (set_if_differs CKA_KEY_TYPE CKK_DH m))"

section \<open>Choosing the class\<close>

definition newPublicKey :: "ulong \<Rightarrow> (attr_map \<Rightarrow> ('c, 'd, 'r) p11_object) option" where
  "newPublicKey keyType =
     (if keyType = CKK_RSA then Some P11RSAPublicKeyObj_init
      else if keyType = CKK_DSA then Some P11DSAPublicKeyObj_init
      else if keyType = CKK_EC then Some P11ECPublicKeyObj_init
      else if keyType = CKK_DH then Some P11DHPublicKeyObj_init
      else if keyType = CKK_GOSTR3410 then Some (P11GOSTPublicKeyObj_init CKK_GOSTR3410)
      else if keyType = CKK_GOSTR3410_512 then Some (P11GOSTPublicKeyObj_init CKK_GOSTR3410_512)
      else if keyType = CKK_EC_EDWARDS then Some P11EDPublicKeyObj_init
      else if keyType = CKK_ML_DSA then Some P11MLDSAPublicKeyObj_init
      else if keyType = CKK_ML_KEM then Some P11MLKEMPublicKeyObj_init
      else None)"

definition newPrivateKey :: "ulong \<Rightarrow> (attr_map \<Rightarrow> ('c, 'd, 'r) p11_object) option" where
  "newPrivateKey keyType =
     (if keyType = CKK_RSA then Some P11RSAPrivateKeyObj_init
      else if keyType = CKK_DSA then Some P11DSAPrivateKeyObj_init
      else if keyType = CKK_EC then Some P11ECPrivateKeyObj_init
      else if keyType = CKK_DH then Some P11DHPrivateKeyObj_init
      else if keyType = CKK_GOSTR3410 then Some (P11GOSTPrivateKeyObj_init CKK_GOSTR3410)
      else if keyType = CKK_GOSTR3410_512 then Some (P11GOSTPrivateKeyObj_init CKK_GOSTR3410_512)
      else if keyType = CKK_EC_EDWARDS then Some P11EDPrivateKeyObj_init
      else if keyType = CKK_ML_DSA then Some P11MLDSAPrivateKeyObj_init
      else if keyType = CKK_ML_KEM then Some P11MLKEMPrivateKeyObj_init
      else None)"

definition newSecretKey :: "ulong \<Rightarrow> (attr_map \<Rightarrow> ('c, 'd, 'r) p11_object) option" where
  "newSecretKey keyType =
     (if generic_secret keyType \<or> keyType = CKK_KUZNECHIK_TWIN_KEY \<or> keyType = CKK_MAGMA_TWIN_KEY
      then Some (P11GenericSecretKeyObj_init keyType)
      else if keyType = CKK_AES then Some P11AESSecretKeyObj_init
      else if keyType = CKK_DES \<or> keyType = CKK_DES2 \<or> keyType = CKK_DES3 then Some (P11DESSecretKeyObj_init keyType)
      else if keyType = CKK_GOST28147 \<or> keyType = CKK_KUZNECHIK \<or> keyType = CKK_MAGMA
      then Some (P11GOSTSecretKeyObj_init keyType)
      else None)"

definition newP11Object :: "ulong \<Rightarrow> ulong \<Rightarrow> ulong \<Rightarrow> (attr_map \<Rightarrow> ('c, 'd, 'r) p11_object) option" where
  "newP11Object objClass keyType certType =
     (if objClass = CKO_DATA then Some P11DataObj_init
      else if objClass = CKO_CERTIFICATE
      then (if certType = CKC_X_509 then Some P11X509CertificateObj_init
            else if certType = CKC_OPENPGP then Some P11OpenPGPPublicKeyObj_init else None)
      else if objClass = CKO_PUBLIC_KEY then newPublicKey keyType
      else if objClass = CKO_PRIVATE_KEY then newPrivateKey keyType
      else if objClass = CKO_SECRET_KEY then newSecretKey keyType
      else if objClass = CKO_DOMAIN_PARAMETERS
      then (if keyType = CKK_DSA then Some P11DSADomainObj_init
            else if keyType = CKK_DH then Some P11DHDomainObj_init else None)
      else None)"

text \<open>The same for a stored object, by its own class and types.\<close>

definition P11Object_of :: "attr_map \<Rightarrow> ck_rv + ('c, 'd, 'r) p11_object" where
  "P11Object_of m =
     (case newP11Object (ulong_of (omap_find m CKA_CLASS) CKO_VENDOR_DEFINED)
             (ulong_of (omap_find m CKA_KEY_TYPE) CKK_RSA)
             (ulong_of (omap_find m CKA_CERTIFICATE_TYPE) CKC_X_509) of
        None \<Rightarrow> Inl CKR_ATTRIBUTE_VALUE_INVALID
      | Some f \<Rightarrow> Inr (f m))"

section \<open>Reading a template\<close>

definition po_isPrivate :: "attr_map \<Rightarrow> bool" where
  "po_isPrivate m \<longleftrightarrow> bool_of (omap_find m CKA_PRIVATE) False"

definition po_isCopyable :: "attr_map \<Rightarrow> bool" where
  "po_isCopyable m \<longleftrightarrow> bool_of (omap_find m CKA_COPYABLE) True"

definition po_isModifiable :: "attr_map \<Rightarrow> bool" where
  "po_isModifiable m \<longleftrightarrow> bool_of (omap_find m CKA_MODIFIABLE) True"

definition load_rv :: "bool \<Rightarrow> bool \<Rightarrow> bool \<Rightarrow> ck_rv" where
  "load_rv invalid sensitive buffer_too_small =
     (if sensitive then CKR_ATTRIBUTE_SENSITIVE
      else if invalid then CKR_ATTRIBUTE_TYPE_INVALID
      else if buffer_too_small then CKR_BUFFER_TOO_SMALL else CKR_OK)"

fun load_loop ::
  "('c, 'd, 'r) p11_env \<Rightarrow> ('c, 'd, 'r) attr_table \<Rightarrow> bool \<Rightarrow> attr_map \<Rightarrow> bool \<Rightarrow> bool \<Rightarrow> bool \<Rightarrow> ck_attribute list
   \<Rightarrow> ('c, 'r) hsm_token \<Rightarrow> ck_rv \<times> ck_attribute list \<times> ('c, 'r) hsm_token" where
  "load_loop env tab isPrivate m invalid sensitive small [] tk = (load_rv invalid sensitive small, [], tk)"
| "load_loop env tab isPrivate m invalid sensitive small (CK_ATTRIBUTE ty p len # ts) tk =
     (case omap_find tab ty of
        None \<Rightarrow>
          (let (rv, ts, tk) = load_loop env tab isPrivate m True sensitive small ts tk
           in (rv, CK_ATTRIBUTE ty p CK_UNAVAILABLE # ts, tk))
      | Some a \<Rightarrow>
          (let (rv, p, len, tk) = retrieve env a isPrivate p len m tk
           in if rv \<noteq> CKR_ATTRIBUTE_SENSITIVE \<and> rv \<noteq> CKR_BUFFER_TOO_SMALL \<and> rv \<noteq> CKR_OK
              then (CKR_GENERAL_ERROR, CK_ATTRIBUTE ty p len # ts, tk)
              else
                (let (rv, ts, tk) = load_loop env tab isPrivate m invalid
                                      (sensitive \<or> rv = CKR_ATTRIBUTE_SENSITIVE)
                                      (small \<or> rv = CKR_BUFFER_TOO_SMALL) ts tk
                 in (rv, CK_ATTRIBUTE ty p len # ts, tk))))"

definition loadTemplate ::
  "('c, 'd, 'r) p11_env \<Rightarrow> ('c, 'd, 'r) p11_object \<Rightarrow> ck_attribute list \<Rightarrow> ('c, 'r) hsm_token
   \<Rightarrow> ck_rv \<times> ck_attribute list \<times> ('c, 'r) hsm_token" where
  "loadTemplate env obj pTemplate tk =
     load_loop env (snd obj) (po_isPrivate (fst obj)) (fst obj) False False False pTemplate tk"

section \<open>Writing a template\<close>

fun save_loop ::
  "('c, 'd, 'r) p11_env \<Rightarrow> ('c, 'd, 'r) attr_table \<Rightarrow> bool \<Rightarrow> object_op \<Rightarrow> ck_attribute list \<Rightarrow> attr_map
   \<Rightarrow> ('c, 'r) hsm_token \<Rightarrow> ('c, 'r) attr_result" where
  "save_loop env tab isPrivate op [] m tk = (CKR_OK, m, tk)"
| "save_loop env tab isPrivate op (t # ts) m tk =
     (case omap_find tab (ca_type t) of
        None \<Rightarrow> (CKR_ATTRIBUTE_TYPE_INVALID, m, tk)
      | Some a \<Rightarrow>
          (let (rv, m, tk) = update env a isPrivate (ca_pValue t) (ca_ulValueLen t) op m tk
           in if rv \<noteq> CKR_OK then (rv, m, tk) else save_loop env tab isPrivate op ts m tk))"

definition mandatory :: "ulong \<Rightarrow> object_op \<Rightarrow> bool" where
  "mandatory checks op \<longleftrightarrow>
     has checks ck1 \<and> op = OBJECT_OP_CREATE \<or> has checks ck3 \<and> op = OBJECT_OP_GENERATE
     \<or> has checks ck5 \<and> op = OBJECT_OP_UNWRAP \<or> has checks ck5 \<and> op = OBJECT_OP_DECAPSULATE"

definition complete :: "('c, 'd, 'r) attr_table \<Rightarrow> object_op \<Rightarrow> ck_attribute list \<Rightarrow> bool" where
  "complete tab op pTemplate \<longleftrightarrow>
     list_all (\<lambda>(ty, a). mandatory (pa_checks a) op \<longrightarrow> list_ex (\<lambda>t. ca_type t = ty) pTemplate) tab"

text \<open>What happens between the start of the transaction and its end.\<close>

definition save_body ::
  "('c, 'd, 'r) p11_env \<Rightarrow> ('c, 'd, 'r) attr_table \<Rightarrow> bool \<Rightarrow> ck_attribute list \<Rightarrow> object_op \<Rightarrow> attr_map
   \<Rightarrow> ('c, 'r) hsm_token \<Rightarrow> ('c, 'r) attr_result" where
  "save_body env tab isPrivate pTemplate op m tk =
     (if op = OBJECT_OP_SET \<and> \<not> po_isModifiable m then (CKR_ACTION_PROHIBITED, m, tk)
      else if op = OBJECT_OP_COPY \<and> \<not> po_isCopyable m then (CKR_ACTION_PROHIBITED, m, tk)
      else
        (let (rv, m, tk) = save_loop env tab isPrivate op pTemplate m tk
         in if rv \<noteq> CKR_OK then (rv, m, tk)
            else if \<not> complete tab op pTemplate then (CKR_TEMPLATE_INCOMPLETE, m, tk)
            else (CKR_OK, m, tk)))"

text \<open>On a session object the transaction methods do nothing and return true.\<close>

definition saveTemplate_session ::
  "('c, 'd, 'r) p11_env \<Rightarrow> ('c, 'd, 'r) attr_table \<Rightarrow> bool \<Rightarrow> ck_attribute list \<Rightarrow> object_op \<Rightarrow> session_object
   \<Rightarrow> ('c, 'r) hsm_token \<Rightarrow> ck_rv \<times> session_object \<times> ('c, 'r) hsm_token" where
  "saveTemplate_session env tab isPrivate pTemplate op x tk =
     (let (rv, m, tk) = save_body env tab isPrivate pTemplate op (so_attributes x) tk
      in (rv, x\<lparr>so_attributes := m\<rparr>, tk))"

text \<open>
  On a token object: \<open>locked\<close> is whether the transaction lock was obtained, \<open>io\<close> how the
  write of the commit goes.
\<close>

definition saveTemplate_file ::
  "('c, 'd, 'r) p11_env \<Rightarrow> ('c, 'd, 'r) attr_table \<Rightarrow> bool \<Rightarrow> ck_attribute list \<Rightarrow> object_op \<Rightarrow> bool \<Rightarrow> io \<Rightarrow> bytes option
   \<Rightarrow> object_file \<Rightarrow> ('c, 'r) hsm_token \<Rightarrow> ck_rv \<times> bytes option \<times> object_file \<times> ('c, 'r) hsm_token" where
  "saveTemplate_file env tab isPrivate pTemplate op locked io disk f tk =
     (let (ok, f) = of_startTransaction locked disk f
      in if \<not> ok then (CKR_GENERAL_ERROR, disk, f, tk)
         else
           (let (rv, m, tk) = save_body env tab isPrivate pTemplate op (of_attributes f) tk;
                f = f\<lparr>of_attributes := m\<rparr>
            in if rv \<noteq> CKR_OK then (rv, disk, snd (of_abortTransaction disk f), tk)
               else
                 (let (ok, disk, f) = of_commitTransaction io disk f
                  in (if ok then CKR_OK else CKR_GENERAL_ERROR, disk, f, tk))))"

end
