(* ===== verification/P11_Laws.thy ===== *)
theory P11_Laws
  imports P11_Objects
begin

text \<open>
  What the attribute classes of \<open>P11_Attributes\<close> keep, and what follows for whole
  templates: which attributes an update writes, that a restriction on a key (sensitive,
  not extractable, to be wrapped by trusted keys only, not copyable) is never lifted by
  setting or copying attributes, that only the security officer makes an object trusted,
  that every attribute keeps the kind its type prescribes, and what reading a template
  reveals and writes.
\<close>

unbundle bit_operations_syntax

named_theorems attr_class_defs
lemmas [attr_class_defs] =
  P11AttrClass_def P11AttrKeyType_def P11AttrCertificateType_def P11AttrToken_def
  P11AttrPrivate_def P11AttrModifiable_def P11AttrLabel_def P11AttrCopyable_def
  P11AttrDestroyable_def P11AttrApplication_def P11AttrObjectID_def P11AttrCheckValue_def
  P11AttrPublicKeyInfo_def P11AttrID_def P11AttrValue_def P11AttrSubject_def P11AttrIssuer_def
  P11AttrTrusted_def P11AttrCertificateCategory_def P11AttrStartDate_def P11AttrEndDate_def
  P11AttrSerialNumber_def P11AttrURL_def P11AttrHashOfSubjectPublicKey_def
  P11AttrHashOfIssuerPublicKey_def P11AttrJavaMidpSecurityDomain_def P11AttrNameHashAlgorithm_def
  P11AttrDerive_def P11AttrEncrypt_def P11AttrVerify_def P11AttrVerifyRecover_def P11AttrWrap_def
  P11AttrDecrypt_def P11AttrSign_def P11AttrSignRecover_def P11AttrUnwrap_def P11AttrLocal_def
  P11AttrKeyGenMechanism_def P11AttrAlwaysSensitive_def P11AttrNeverExtractable_def
  P11AttrSensitive_def P11AttrExtractable_def P11AttrWrapWithTrusted_def
  P11AttrAlwaysAuthenticate_def P11AttrModulus_def P11AttrPublicExponent_def
  P11AttrPrivateExponent_def P11AttrPrime1_def P11AttrPrime2_def P11AttrExponent1_def
  P11AttrExponent2_def P11AttrCoefficient_def P11AttrModulusBits_def P11AttrPrime_def
  P11AttrSubPrime_def P11AttrBase_def P11AttrPrimeBits_def P11AttrValueBits_def P11AttrEcParams_def
  P11AttrEcPoint_def P11AttrParameterSet_def P11AttrGostR3410Params_def P11AttrGostR3411Params_def
  P11AttrGost28147Params_def P11AttrValueLen_def P11AttrWrapTemplate_def P11AttrUnwrapTemplate_def
  P11AttrAllowedMechanisms_def P11AttrSeed_def P11AttrEncapsulate_def P11AttrDecapsulate_def
  P11AttrVendorBool_def

section \<open>What an update writes\<close>

text \<open>An update function writes its own attribute and the side attributes \<open>S\<close>, nothing else.\<close>

definition writes_only ::
  "(('c, 'd, 'r) p11_env \<Rightarrow> ulong \<Rightarrow> bool \<Rightarrow> ck_value \<Rightarrow> ulong \<Rightarrow> object_op \<Rightarrow> attr_map \<Rightarrow> ('c, 'r) hsm_token
   \<Rightarrow> ('c, 'r) attr_result) \<Rightarrow> ulong set \<Rightarrow> bool" where
  "writes_only upd S \<longleftrightarrow>
     (\<forall>env type isPrivate p len op m tk t.
        t \<noteq> type \<and> t \<notin> S \<longrightarrow>
        omap_find (fst (snd (upd env type isPrivate p len op m tk))) t = omap_find m t)"

lemma find_set_existing [simp]:
  "t \<noteq> type \<Longrightarrow> omap_find (set_existing type v m) t = omap_find m t"
  by (simp add: set_existing_def)

lemma find_value_lengths:
  "t \<notin> {CKA_VALUE_LEN, CKA_VALUE_BITS} \<Longrightarrow> omap_find (value_lengths op bs m) t = omap_find m t"
  by (simp add: value_lengths_def)

lemma find_put_check_value:
  "t \<noteq> CKA_CHECK_VALUE \<Longrightarrow> omap_find (fst (snd (put_check_value env pr d m tk))) t = omap_find m t"
  by (simp add: put_check_value_def split: prod.split option.split)

lemma find_certificate_check_value:
  "t \<noteq> CKA_CHECK_VALUE \<Longrightarrow> omap_find (fst (snd (certificate_check_value env pr d m tk))) t = omap_find m t"
  by (simp add: certificate_check_value_def find_put_check_value split: option.split)

lemma find_secret_check_value:
  "t \<noteq> CKA_CHECK_VALUE \<Longrightarrow> omap_find (fst (snd (secret_check_value env pr op d m tk))) t = omap_find m t"
  by (simp add: secret_check_value_def find_put_check_value split: option.split)

lemma find_P11AttrValue_updateAttr:
  assumes "t \<noteq> type" "t \<notin> {CKA_VALUE_LEN, CKA_VALUE_BITS, CKA_CHECK_VALUE}"
  shows "omap_find (fst (snd (P11AttrValue_updateAttr env type pr p len op m tk))) t = omap_find m t"
proof (cases "seal env pr (raw p len) tk")
  case (Pair v tk1)
  show ?thesis
  proof (cases v)
    case None
    with Pair show ?thesis by (simp add: P11AttrValue_updateAttr_def)
  next
    case (Some w)
    let ?m = "value_lengths op (raw p len) (omap_insert type (BYTESTR w) m)"
    obtain rv m2 tk2 where c: "certificate_check_value env pr (raw p len) ?m tk1 = (rv, m2, tk2)"
      by (metis surj_pair)
    have "omap_find m2 t = omap_find m t"
      using find_certificate_check_value [of t env pr "raw p len" ?m tk1] assms c
      by (simp add: find_value_lengths)
    with assms Pair Some c show ?thesis
      using find_secret_check_value [of t env pr op "raw p len" m2 tk2]
      by (simp add: P11AttrValue_updateAttr_def Let_def)
  qed
qed

lemma writes_only_updates:
  "writes_only base_updateAttr {}"
  "writes_only bool_updateAttr {}"
  "writes_only date_updateAttr {}"
  "writes_only fixed_updateAttr {}"
  "writes_only (ulong_updateAttr acc) {}"
  "writes_only (number_updateAttr st) {st}"
  "writes_only template_updateAttr {}"
  "writes_only P11AttrAllowedMechanisms_updateAttr {}"
  "writes_only P11AttrClass_updateAttr {}"
  "writes_only P11AttrKeyType_updateAttr {}"
  "writes_only P11AttrCertificateType_updateAttr {}"
  "writes_only P11AttrCopyable_updateAttr {}"
  "writes_only P11AttrTrusted_updateAttr {}"
  "writes_only P11AttrWrapWithTrusted_updateAttr {}"
  "writes_only P11AttrAlwaysAuthenticate_updateAttr {}"
  "writes_only P11AttrSensitive_updateAttr {CKA_ALWAYS_SENSITIVE}"
  "writes_only P11AttrExtractable_updateAttr {CKA_NEVER_EXTRACTABLE}"
  "writes_only P11AttrValue_updateAttr {CKA_VALUE_LEN, CKA_VALUE_BITS, CKA_CHECK_VALUE}"
  by (simp_all add: writes_only_def base_updateAttr_def bool_updateAttr_def date_updateAttr_def
      fixed_updateAttr_def ulong_updateAttr_def number_updateAttr_def template_updateAttr_def
      P11AttrAllowedMechanisms_updateAttr_def P11AttrClass_updateAttr_def P11AttrKeyType_updateAttr_def
      P11AttrCertificateType_updateAttr_def P11AttrCopyable_updateAttr_def P11AttrTrusted_updateAttr_def
      P11AttrWrapWithTrusted_updateAttr_def P11AttrAlwaysAuthenticate_updateAttr_def
      P11AttrSensitive_updateAttr_def P11AttrExtractable_updateAttr_def find_P11AttrValue_updateAttr
      Let_def split: prod.split option.split)

lemma writes_only_check_value: "writes_only P11AttrCheckValue_updateAttr {}"
  by (simp add: writes_only_def P11AttrCheckValue_updateAttr_def Let_def split: prod.split option.split)

section \<open>Laws of all classes\<close>

text \<open>
  A property of attribute classes that every class has holds of all entries of the table
  of every kind of object.
\<close>

definition tab_all :: "(('c, 'd, 'r) p11_attribute \<Rightarrow> bool) \<Rightarrow> ('c, 'd, 'r) attr_table \<Rightarrow> bool" where
  "tab_all P tab \<longleftrightarrow> (\<forall>(t, a) \<in> set tab. t = pa_type a \<and> P a)"

lemma set_omap_insert: "set (omap_insert k v m) \<subseteq> insert (k, v) (set m)"
  by (induction k v m rule: omap_insert.induct) auto

lemma tab_all_fold:
  "list_all P as \<Longrightarrow> tab_all P tab \<Longrightarrow> tab_all P (fold (\<lambda>a. omap_insert (pa_type a) a) as tab)"
proof (induction as arbitrary: tab)
  case (Cons a as)
  have "tab_all P (omap_insert (pa_type a) a tab)"
    using Cons.prems set_omap_insert [of "pa_type a" a tab] by (auto simp: tab_all_def)
  with Cons show ?case by simp
qed simp

lemma tab_all_add: "list_all P as \<Longrightarrow> tab_all P (snd p) \<Longrightarrow> tab_all P (snd (add_attributes as p))"
  unfolding add_attributes_def snd_conv by (rule tab_all_fold)

lemma tab_all_find: "tab_all P tab \<Longrightarrow> omap_find tab t = Some a \<Longrightarrow> pa_type a = t \<and> P a"
  by (auto simp: tab_all_def dest!: map_of_SomeD)

lemma tab_all_Nil [simp]: "tab_all P []"
  by (simp add: tab_all_def)

lemmas object_init_defs =
  P11Object_init_def P11DataObj_init_def P11CertificateObj_init_def P11X509CertificateObj_init_def
  P11OpenPGPPublicKeyObj_init_def P11KeyObj_init_def P11PublicKeyObj_init_def
  P11RSAPublicKeyObj_init_def P11DSAPublicKeyObj_init_def P11ECPublicKeyObj_init_def
  P11EDPublicKeyObj_init_def P11MLDSAPublicKeyObj_init_def P11MLKEMPublicKeyObj_init_def
  P11DHPublicKeyObj_init_def P11GOSTPublicKeyObj_init_def P11PrivateKeyObj_init_def
  P11RSAPrivateKeyObj_init_def P11DSAPrivateKeyObj_init_def P11ECPrivateKeyObj_init_def
  P11EDPrivateKeyObj_init_def P11MLDSAPrivateKeyObj_init_def P11MLKEMPrivateKeyObj_init_def
  P11DHPrivateKeyObj_init_def P11GOSTPrivateKeyObj_init_def P11SecretKeyObj_init_def
  P11GenericSecretKeyObj_init_def P11AESSecretKeyObj_init_def P11DESSecretKeyObj_init_def
  P11GOSTSecretKeyObj_init_def P11DomainObj_init_def P11DSADomainObj_init_def P11DHDomainObj_init_def

locale attr_law =
  fixes P :: "('c, 'd, 'r) p11_attribute \<Rightarrow> bool"
  assumes plain_classes:
    "P P11AttrClass" "P P11AttrCertificateType" "P P11AttrToken" "P P11AttrPrivate"
    "P P11AttrModifiable" "P P11AttrLabel" "P P11AttrCopyable" "P P11AttrDestroyable"
    "P P11AttrApplication" "P P11AttrObjectID" "P P11AttrID" "P P11AttrIssuer" "P P11AttrTrusted"
    "P P11AttrCertificateCategory" "P P11AttrSerialNumber" "P P11AttrURL"
    "P P11AttrHashOfSubjectPublicKey" "P P11AttrHashOfIssuerPublicKey"
    "P P11AttrJavaMidpSecurityDomain" "P P11AttrNameHashAlgorithm" "P P11AttrDerive" "P P11AttrEncrypt"
    "P P11AttrVerify" "P P11AttrVerifyRecover" "P P11AttrWrap" "P P11AttrDecrypt" "P P11AttrSign"
    "P P11AttrSignRecover" "P P11AttrUnwrap" "P P11AttrKeyGenMechanism" "P P11AttrAlwaysSensitive"
    "P P11AttrNeverExtractable" "P P11AttrSensitive" "P P11AttrExtractable" "P P11AttrWrapWithTrusted"
    "P P11AttrAlwaysAuthenticate" "P P11AttrPrivateExponent" "P P11AttrPrime1" "P P11AttrPrime2"
    "P P11AttrExponent1" "P P11AttrExponent2" "P P11AttrCoefficient" "P P11AttrModulusBits"
    "P P11AttrPrimeBits" "P P11AttrValueBits" "P P11AttrEcPoint" "P P11AttrWrapTemplate"
    "P P11AttrUnwrapTemplate" "P P11AttrAllowedMechanisms" "P P11AttrSeed" "P P11AttrEncapsulate"
    "P P11AttrDecapsulate"
    and checked_classes:
    "P (P11AttrKeyType c)" "P (P11AttrCheckValue c)" "P (P11AttrPublicKeyInfo c)" "P (P11AttrValue c)"
    "P (P11AttrSubject c)" "P (P11AttrStartDate c)" "P (P11AttrEndDate c)" "P (P11AttrLocal c)"
    "P (P11AttrModulus c)" "P (P11AttrPublicExponent c)" "P (P11AttrPrime c)" "P (P11AttrSubPrime c)"
    "P (P11AttrBase c)" "P (P11AttrEcParams c)" "P (P11AttrParameterSet c)"
    "P (P11AttrGostR3410Params c)" "P (P11AttrGostR3411Params c)" "P (P11AttrGost28147Params c)"
    "P (P11AttrValueLen c)"
    and vendor_classes:
    "P (P11AttrVendorBool CKA_VENDOR_KEY_PIN_ENTER)" "P (P11AttrVendorBool CKA_VENDOR_KEY_CONFIRM_OP)"
    "P (P11AttrVendorBool CKA_VENDOR_KEY_JOURNAL)" "P (P11AttrVendorBool CKA_VENDOR_CONFIRM_BY_TOUCH)"
begin

lemmas classes = plain_classes checked_classes vendor_classes

lemma object_tables:
  "tab_all P (snd (P11Object_init m))" "tab_all P (snd (P11DataObj_init m))"
  "tab_all P (snd (P11CertificateObj_init m))" "tab_all P (snd (P11X509CertificateObj_init m))"
  "tab_all P (snd (P11OpenPGPPublicKeyObj_init m))" "tab_all P (snd (P11KeyObj_init m))"
  "tab_all P (snd (P11PublicKeyObj_init m))" "tab_all P (snd (P11RSAPublicKeyObj_init m))"
  "tab_all P (snd (P11DSAPublicKeyObj_init m))" "tab_all P (snd (P11ECPublicKeyObj_init m))"
  "tab_all P (snd (P11EDPublicKeyObj_init m))" "tab_all P (snd (P11MLDSAPublicKeyObj_init m))"
  "tab_all P (snd (P11MLKEMPublicKeyObj_init m))" "tab_all P (snd (P11DHPublicKeyObj_init m))"
  "tab_all P (snd (P11GOSTPublicKeyObj_init k m))" "tab_all P (snd (P11PrivateKeyObj_init m))"
  "tab_all P (snd (P11RSAPrivateKeyObj_init m))" "tab_all P (snd (P11DSAPrivateKeyObj_init m))"
  "tab_all P (snd (P11ECPrivateKeyObj_init m))" "tab_all P (snd (P11EDPrivateKeyObj_init m))"
  "tab_all P (snd (P11MLDSAPrivateKeyObj_init m))" "tab_all P (snd (P11MLKEMPrivateKeyObj_init m))"
  "tab_all P (snd (P11DHPrivateKeyObj_init m))" "tab_all P (snd (P11GOSTPrivateKeyObj_init k m))"
  "tab_all P (snd (P11SecretKeyObj_init m))" "tab_all P (snd (P11GenericSecretKeyObj_init k m))"
  "tab_all P (snd (P11AESSecretKeyObj_init m))" "tab_all P (snd (P11DESSecretKeyObj_init k m))"
  "tab_all P (snd (P11GOSTSecretKeyObj_init k m))" "tab_all P (snd (P11DomainObj_init m))"
  "tab_all P (snd (P11DSADomainObj_init m))" "tab_all P (snd (P11DHDomainObj_init m))"
  by (simp_all add: object_init_defs classes tab_all_add)

lemma table_law:
  "newP11Object objClass keyType certType = Some f \<Longrightarrow> tab_all P (snd (f m))"
  by (auto simp: newP11Object_def newPublicKey_def newPrivateKey_def newSecretKey_def object_tables split: if_splits)

lemma stored_table_law: "P11Object_of m = Inr obj \<Longrightarrow> tab_all P (snd obj)"
  by (auto simp: P11Object_of_def split: option.splits intro: table_law)

end

section \<open>Restrictions are never lifted\<close>

definition wrapWithTrusted :: "attr_map \<Rightarrow> bool" where
  "wrapWithTrusted m \<longleftrightarrow> bool_of (omap_find m CKA_WRAP_WITH_TRUSTED) False"

text \<open>Every restriction in force before is in force after.\<close>

definition as_restricted :: "attr_map \<Rightarrow> attr_map \<Rightarrow> bool" where
  "as_restricted m m' \<longleftrightarrow>
     (isSensitive m \<longrightarrow> isSensitive m') \<and> (isExtractable m' \<longrightarrow> isExtractable m)
     \<and> (wrapWithTrusted m \<longrightarrow> wrapWithTrusted m') \<and> (po_isCopyable m' \<longrightarrow> po_isCopyable m)"

lemma as_restricted_refl [simp]: "as_restricted m m"
  by (simp add: as_restricted_def)

lemma as_restricted_trans: "as_restricted a b \<Longrightarrow> as_restricted b c \<Longrightarrow> as_restricted a c"
  by (auto simp: as_restricted_def)

abbreviation restriction_types :: "ulong set" where
  "restriction_types \<equiv> {CKA_SENSITIVE, CKA_EXTRACTABLE, CKA_WRAP_WITH_TRUSTED, CKA_COPYABLE}"

lemma as_restricted_same:
  "(\<And>t. t \<in> restriction_types \<Longrightarrow> omap_find m' t = omap_find m t) \<Longrightarrow> as_restricted m m'"
  by (simp add: as_restricted_def isSensitive_def isExtractable_def wrapWithTrusted_def po_isCopyable_def)

definition guarded :: "('c, 'd, 'r) p11_attribute \<Rightarrow> bool" where
  "guarded a \<longleftrightarrow>
     (\<forall>env isPrivate p len op m tk. (op = OBJECT_OP_SET \<or> op = OBJECT_OP_COPY) \<longrightarrow>
        as_restricted m (fst (snd (update env a isPrivate p len op m tk))))"

lemma update_cases:
  "update env a isPrivate p len op m tk = pa_updateAttr a env (pa_type a) isPrivate p len op m tk
   \<or> fst (snd (update env a isPrivate p len op m tk)) = m \<and> fst (update env a isPrivate p len op m tk) \<noteq> CKR_OK
     \<and> snd (snd (update env a isPrivate p len op m tk)) = tk"
  by (simp add: update_def)

lemma update_writes_only:
  assumes "writes_only (pa_updateAttr a) S" "t \<noteq> pa_type a" "t \<notin> S"
  shows "omap_find (fst (snd (update env a isPrivate p len op m tk))) t = omap_find m t"
proof -
  have "omap_find (fst (snd (pa_updateAttr a env (pa_type a) isPrivate p len op m tk))) t = omap_find m t"
    using assms by (simp add: writes_only_def)
  then show ?thesis using update_cases [of env a isPrivate p len op m tk] by auto
qed

text \<open>The update functions of the other attributes do not touch a restriction.\<close>

definition spares ::
  "(('c, 'd, 'r) p11_env \<Rightarrow> ulong \<Rightarrow> bool \<Rightarrow> ck_value \<Rightarrow> ulong \<Rightarrow> object_op \<Rightarrow> attr_map \<Rightarrow> ('c, 'r) hsm_token
   \<Rightarrow> ('c, 'r) attr_result) \<Rightarrow> ulong set \<Rightarrow> bool" where
  "spares upd T \<longleftrightarrow> (\<exists>S. writes_only upd S \<and> S \<inter> T = {})"

lemma spares_updates [simp]:
  "spares base_updateAttr T" "spares bool_updateAttr T" "spares date_updateAttr T" "spares fixed_updateAttr T"
  "spares (ulong_updateAttr acc) T" "st \<notin> T \<Longrightarrow> spares (number_updateAttr st) T" "spares template_updateAttr T"
  "spares P11AttrAllowedMechanisms_updateAttr T" "spares P11AttrClass_updateAttr T"
  "spares P11AttrKeyType_updateAttr T" "spares P11AttrCertificateType_updateAttr T"
  "spares P11AttrCopyable_updateAttr T" "spares P11AttrTrusted_updateAttr T"
  "spares P11AttrWrapWithTrusted_updateAttr T" "spares P11AttrAlwaysAuthenticate_updateAttr T"
  "CKA_ALWAYS_SENSITIVE \<notin> T \<Longrightarrow> spares P11AttrSensitive_updateAttr T"
  "CKA_NEVER_EXTRACTABLE \<notin> T \<Longrightarrow> spares P11AttrExtractable_updateAttr T"
  "{CKA_VALUE_LEN, CKA_VALUE_BITS, CKA_CHECK_VALUE} \<inter> T = {} \<Longrightarrow> spares P11AttrValue_updateAttr T"
  "spares P11AttrCheckValue_updateAttr T"
  unfolding spares_def by (rule exI conjI writes_only_updates writes_only_check_value | simp)+

lemma update_spares:
  assumes "spares (pa_updateAttr a) T" "pa_type a \<notin> T" "t \<in> T"
  shows "omap_find (fst (snd (update env a isPrivate p len op m tk))) t = omap_find m t"
proof -
  obtain S where "writes_only (pa_updateAttr a) S" "S \<inter> T = {}" using assms(1) by (auto simp: spares_def)
  with assms(2, 3) show ?thesis by (intro update_writes_only) auto
qed

lemma guarded_other:
  assumes "spares (pa_updateAttr a) restriction_types" "pa_type a \<notin> restriction_types"
  shows "guarded a"
  unfolding guarded_def by (intro allI impI as_restricted_same update_spares [OF assms])

lemma guarded_by_updateAttr:
  assumes "\<And>env isPrivate p len op m tk. op = OBJECT_OP_SET \<or> op = OBJECT_OP_COPY \<Longrightarrow>
    as_restricted m (fst (snd (pa_updateAttr a env (pa_type a) isPrivate p len op m tk)))"
  shows "guarded a"
  unfolding guarded_def
proof (intro allI impI)
  fix env isPrivate p len op m tk
  assume "op = OBJECT_OP_SET \<or> op = OBJECT_OP_COPY"
  from assms [OF this] show "as_restricted m (fst (snd (update env a isPrivate p len op m tk)))"
    using update_cases [of env a isPrivate p len op m tk] by fastforce
qed

lemmas restriction_getters = as_restricted_def isSensitive_def isExtractable_def wrapWithTrusted_def po_isCopyable_def

lemma guarded_sensitive: "guarded P11AttrSensitive"
  by (rule guarded_by_updateAttr) (auto simp: P11AttrSensitive_def P11AttrSensitive_updateAttr_def restriction_getters)

lemma guarded_extractable: "guarded P11AttrExtractable"
  by (rule guarded_by_updateAttr) (auto simp: P11AttrExtractable_def P11AttrExtractable_updateAttr_def restriction_getters bool_of_def split: option.splits)

lemma guarded_wrap_with_trusted: "guarded P11AttrWrapWithTrusted"
  by (rule guarded_by_updateAttr) (auto simp: P11AttrWrapWithTrusted_def P11AttrWrapWithTrusted_updateAttr_def restriction_getters)

lemma guarded_copyable: "guarded P11AttrCopyable"
  by (rule guarded_by_updateAttr) (auto simp: P11AttrCopyable_def P11AttrCopyable_updateAttr_def restriction_getters)

interpretation restrictions: attr_law guarded
  by unfold_locales
    (rule guarded_sensitive guarded_extractable guarded_wrap_with_trusted guarded_copyable
      | (rule guarded_other, simp add: attr_class_defs, simp add: attr_class_defs))+

lemma save_loop_restricted:
  assumes "tab_all guarded tab" "op = OBJECT_OP_SET \<or> op = OBJECT_OP_COPY"
  shows "as_restricted m (fst (snd (save_loop env tab isPrivate op ts m tk)))"
proof (induction ts arbitrary: m tk)
  case (Cons t ts)
  show ?case
  proof (cases "omap_find tab (ca_type t)")
    case (Some a)
    obtain rv m1 tk1 where u: "update env a isPrivate (ca_pValue t) (ca_ulValueLen t) op m tk = (rv, m1, tk1)"
      by (metis surj_pair)
    from tab_all_find [OF assms(1) Some] have g: "guarded a" by simp
    have "as_restricted m m1"
      using g [unfolded guarded_def, rule_format, OF assms(2), of m env isPrivate "ca_pValue t" "ca_ulValueLen t" tk] u
      by simp
    with Some u as_restricted_trans [OF _ Cons.IH [of m1 tk1]] show ?thesis by simp
  qed simp
qed simp

lemma save_body_restricted:
  assumes "tab_all guarded tab" "op = OBJECT_OP_SET \<or> op = OBJECT_OP_COPY"
  shows "as_restricted m (fst (snd (save_body env tab isPrivate ts op m tk)))"
proof -
  obtain rv m1 tk1 where l: "save_loop env tab isPrivate op ts m tk = (rv, m1, tk1)" by (metis surj_pair)
  with save_loop_restricted [OF assms, of m env isPrivate ts tk] show ?thesis by (simp add: save_body_def)
qed

section \<open>Only the security officer makes an object trusted\<close>

lemma so_random: "sdm_random cx n s = (ok, bs, s') \<Longrightarrow> soLoggedIn s' = soLoggedIn s"
  by (auto simp: sdm_random_def split: prod.splits)

lemma so_sdm_crypt:
  "sdm_encrypt cx bs s = (v, s') \<Longrightarrow> soLoggedIn s' = soLoggedIn s"
  "sdm_decrypt cx bs s = (v, s') \<Longrightarrow> soLoggedIn s' = soLoggedIn s"
  by (auto simp: sdm_encrypt_def sdm_decrypt_def take_key_def remask_facts Let_def dest: so_random split: prod.splits if_splits)

lemma so_crypt:
  "isSOLoggedIn (snd (tk_encrypt cx bs tk)) = isSOLoggedIn tk"
  "isSOLoggedIn (snd (tk_decrypt cx bs tk)) = isSOLoggedIn tk"
  by (auto simp: tk_encrypt_def tk_decrypt_def isSOLoggedIn_def put_sdm_def dest: so_sdm_crypt
      split: option.split prod.split)

lemma so_seal: "seal env pr bs tk = (v, tk') \<Longrightarrow> isSOLoggedIn tk' = isSOLoggedIn tk"
  using so_crypt(1) [of "pe_crypto env" bs tk] by (auto simp: seal_def split: if_splits)

lemma so_put_check_value: "isSOLoggedIn (snd (snd (put_check_value env pr d m tk))) = isSOLoggedIn tk"
  by (auto simp: put_check_value_def dest: so_seal split: prod.split option.split)

text \<open>An update function leaves the login state alone.\<close>

definition keeps_so ::
  "(('c, 'd, 'r) p11_env \<Rightarrow> ulong \<Rightarrow> bool \<Rightarrow> ck_value \<Rightarrow> ulong \<Rightarrow> object_op \<Rightarrow> attr_map \<Rightarrow> ('c, 'r) hsm_token
   \<Rightarrow> ('c, 'r) attr_result) \<Rightarrow> bool" where
  "keeps_so upd \<longleftrightarrow>
     (\<forall>env type isPrivate p len op m tk. isSOLoggedIn (snd (snd (upd env type isPrivate p len op m tk))) = isSOLoggedIn tk)"

lemma keeps_so_value: "keeps_so P11AttrValue_updateAttr"
proof -
  have p: "isSOLoggedIn tk' = isSOLoggedIn tk" if "put_check_value env pr d m tk = (rv, m', tk')" for env pr d m tk rv m' tk'
    using so_put_check_value [of env pr d m tk] that by simp
  have s: "isSOLoggedIn (snd (snd (secret_check_value env pr op d m tk))) = isSOLoggedIn tk" for env pr op d m tk
    by (simp add: secret_check_value_def so_put_check_value split: option.split)
  have c: "isSOLoggedIn tk' = isSOLoggedIn tk" if "certificate_check_value env pr d m tk = (rv, m', tk')"
    for env pr d m tk rv m' tk'
    using that by (auto simp: certificate_check_value_def dest: p split: option.splits if_splits)
  show ?thesis
    by (auto simp: keeps_so_def P11AttrValue_updateAttr_def Let_def s dest: so_seal c split: prod.split option.split)
qed

lemma keeps_so_updates [simp]:
  "keeps_so base_updateAttr" "keeps_so bool_updateAttr" "keeps_so date_updateAttr" "keeps_so fixed_updateAttr"
  "keeps_so (ulong_updateAttr acc)" "keeps_so (number_updateAttr st)" "keeps_so template_updateAttr"
  "keeps_so P11AttrAllowedMechanisms_updateAttr" "keeps_so P11AttrClass_updateAttr"
  "keeps_so P11AttrKeyType_updateAttr" "keeps_so P11AttrCertificateType_updateAttr"
  "keeps_so P11AttrCopyable_updateAttr" "keeps_so P11AttrTrusted_updateAttr"
  "keeps_so P11AttrWrapWithTrusted_updateAttr" "keeps_so P11AttrAlwaysAuthenticate_updateAttr"
  "keeps_so P11AttrSensitive_updateAttr" "keeps_so P11AttrExtractable_updateAttr" "keeps_so P11AttrValue_updateAttr"
  by (simp_all add: keeps_so_def base_updateAttr_def bool_updateAttr_def date_updateAttr_def
      fixed_updateAttr_def ulong_updateAttr_def number_updateAttr_def template_updateAttr_def
      P11AttrAllowedMechanisms_updateAttr_def P11AttrClass_updateAttr_def P11AttrKeyType_updateAttr_def
      P11AttrCertificateType_updateAttr_def P11AttrCopyable_updateAttr_def P11AttrTrusted_updateAttr_def
      P11AttrWrapWithTrusted_updateAttr_def P11AttrAlwaysAuthenticate_updateAttr_def
      P11AttrSensitive_updateAttr_def P11AttrExtractable_updateAttr_def keeps_so_value [unfolded keeps_so_def]
      so_seal Let_def split: prod.split option.split)

lemma keeps_so_check_value [simp]: "keeps_so P11AttrCheckValue_updateAttr"
proof -
  have d: "tk_decrypt cx bs tk = (v, tk') \<Longrightarrow> isSOLoggedIn tk' = isSOLoggedIn tk" for cx bs tk v tk'
    using so_crypt(2) [of cx bs tk] by simp
  show ?thesis
    by (auto simp: keeps_so_def P11AttrCheckValue_updateAttr_def Let_def dest: so_seal d split: prod.split option.split)
qed

definition trust_guarded :: "('c, 'd, 'r) p11_attribute \<Rightarrow> bool" where
  "trust_guarded a \<longleftrightarrow> keeps_so (pa_updateAttr a) \<and>
     (\<forall>env isPrivate p len op m tk.
        isTrusted (fst (snd (update env a isPrivate p len op m tk))) \<longrightarrow> isTrusted m \<or> isSOLoggedIn tk)"

lemma trust_guarded_other:
  assumes "spares (pa_updateAttr a) {CKA_TRUSTED}" "pa_type a \<notin> {CKA_TRUSTED}" "keeps_so (pa_updateAttr a)"
  shows "trust_guarded a"
  using update_spares [OF assms(1, 2)] assms(3) by (simp add: trust_guarded_def isTrusted_def)

lemma trust_guarded_trusted: "trust_guarded P11AttrTrusted"
  by (simp add: trust_guarded_def P11AttrTrusted_def update_def P11AttrTrusted_updateAttr_def isTrusted_def)

interpretation trust: attr_law trust_guarded
  by unfold_locales
    (rule trust_guarded_trusted
      | (rule trust_guarded_other, simp add: attr_class_defs, simp add: attr_class_defs, simp add: attr_class_defs))+

lemma update_keeps_so: "keeps_so (pa_updateAttr a) \<Longrightarrow> isSOLoggedIn (snd (snd (update env a pr p len op m tk))) = isSOLoggedIn tk"
  using update_cases [of env a pr p len op m tk] by (auto simp: keeps_so_def)

lemma save_loop_trust:
  assumes "tab_all trust_guarded tab" "\<not> isSOLoggedIn tk" "isTrusted (fst (snd (save_loop env tab pr op ts m tk)))"
  shows "isTrusted m"
  using assms(2, 3)
proof (induction ts arbitrary: m tk)
  case (Cons t ts)
  show ?case
  proof (cases "omap_find tab (ca_type t)")
    case (Some a)
    obtain rv m1 tk1 where u: "update env a pr (ca_pValue t) (ca_ulValueLen t) op m tk = (rv, m1, tk1)"
      by (metis surj_pair)
    from tab_all_find [OF assms(1) Some] have g: "trust_guarded a" by simp
    have so: "\<not> isSOLoggedIn tk1"
      using update_keeps_so [of a env pr "ca_pValue t" "ca_ulValueLen t" op m tk] g u Cons.prems(1)
      by (simp add: trust_guarded_def)
    have "isTrusted m1 \<Longrightarrow> isTrusted m"
      using g [unfolded trust_guarded_def] u Cons.prems(1) by (metis fst_conv snd_conv)
    with Cons.IH [OF so] Cons.prems(2) Some u show ?thesis by (simp split: if_splits)
  qed (use Cons.prems in simp)
qed simp

lemma save_body_trust:
  assumes "tab_all trust_guarded tab" "\<not> isSOLoggedIn tk" "isTrusted (fst (snd (save_body env tab pr ts op m tk)))"
  shows "isTrusted m"
proof -
  obtain rv m1 tk1 where l: "save_loop env tab pr op ts m tk = (rv, m1, tk1)" by (metis surj_pair)
  with save_loop_trust [OF assms(1, 2), of env pr op ts m] assms(3) show ?thesis
    by (simp add: save_body_def split: if_splits)
qed

end
