(* ===== verification/P11_Reading.thy ===== *)
theory P11_Reading
  imports P11_Laws
begin

text \<open>
  Reading templates. Every attribute has the kind its type prescribes, whatever templates
  are written; so a read finds the size it announces. Shown for whole templates: nothing is
  written beyond the length the caller stated, neither in a buffer nor in those of a nested
  template; of a sensitive or unextractable object the outcome does not depend on the
  secret attributes at all.
\<close>

unbundle bit_operations_syntax

section \<open>Kinds\<close>

datatype attr_kind = KBool | KUlong | KBytes | KMechs | KMap

definition kind_of_type :: "ulong \<Rightarrow> attr_kind" where
  "kind_of_type t =
     (if t \<in> {CKA_TOKEN, CKA_PRIVATE, CKA_MODIFIABLE, CKA_COPYABLE, CKA_DESTROYABLE, CKA_TRUSTED, CKA_DERIVE,
             CKA_ENCRYPT, CKA_VERIFY, CKA_VERIFY_RECOVER, CKA_WRAP, CKA_DECRYPT, CKA_SIGN, CKA_SIGN_RECOVER,
             CKA_UNWRAP, CKA_LOCAL, CKA_ALWAYS_SENSITIVE, CKA_NEVER_EXTRACTABLE, CKA_SENSITIVE, CKA_EXTRACTABLE,
             CKA_WRAP_WITH_TRUSTED, CKA_ALWAYS_AUTHENTICATE, CKA_ENCAPSULATE, CKA_DECAPSULATE,
             CKA_VENDOR_KEY_PIN_ENTER, CKA_VENDOR_KEY_CONFIRM_OP, CKA_VENDOR_KEY_JOURNAL, CKA_VENDOR_CONFIRM_BY_TOUCH}
      then KBool
      else if t \<in> {CKA_CLASS, CKA_KEY_TYPE, CKA_CERTIFICATE_TYPE, CKA_CERTIFICATE_CATEGORY,
                  CKA_JAVA_MIDP_SECURITY_DOMAIN, CKA_NAME_HASH_ALGORITHM, CKA_KEY_GEN_MECHANISM,
                  CKA_MODULUS_BITS, CKA_PRIME_BITS, CKA_VALUE_BITS, CKA_VALUE_LEN, CKA_PARAMETER_SET}
      then KUlong
      else if t = CKA_ALLOWED_MECHANISMS then KMechs
      else if t = CKA_WRAP_TEMPLATE \<or> t = CKA_UNWRAP_TEMPLATE then KMap
      else KBytes)"

lemma kinds_of_types [simp]:
  "kind_of_type CKA_ALLOWED_MECHANISMS = KMechs" "kind_of_type CKA_ALWAYS_AUTHENTICATE = KBool"
  "kind_of_type CKA_ALWAYS_SENSITIVE = KBool" "kind_of_type CKA_APPLICATION = KBytes"
  "kind_of_type CKA_BASE = KBytes" "kind_of_type CKA_CERTIFICATE_CATEGORY = KUlong"
  "kind_of_type CKA_CERTIFICATE_TYPE = KUlong" "kind_of_type CKA_CHECK_VALUE = KBytes"
  "kind_of_type CKA_CLASS = KUlong" "kind_of_type CKA_COEFFICIENT = KBytes"
  "kind_of_type CKA_COPYABLE = KBool" "kind_of_type CKA_DECAPSULATE = KBool"
  "kind_of_type CKA_DECRYPT = KBool" "kind_of_type CKA_DERIVE = KBool" "kind_of_type CKA_DESTROYABLE = KBool"
  "kind_of_type CKA_EC_PARAMS = KBytes" "kind_of_type CKA_EC_POINT = KBytes"
  "kind_of_type CKA_ENCAPSULATE = KBool" "kind_of_type CKA_ENCRYPT = KBool"
  "kind_of_type CKA_END_DATE = KBytes" "kind_of_type CKA_EXPONENT_1 = KBytes"
  "kind_of_type CKA_EXPONENT_2 = KBytes" "kind_of_type CKA_EXTRACTABLE = KBool"
  "kind_of_type CKA_GOST28147_PARAMS = KBytes" "kind_of_type CKA_GOSTR3410_PARAMS = KBytes"
  "kind_of_type CKA_GOSTR3411_PARAMS = KBytes" "kind_of_type CKA_HASH_OF_ISSUER_PUBLIC_KEY = KBytes"
  "kind_of_type CKA_HASH_OF_SUBJECT_PUBLIC_KEY = KBytes" "kind_of_type CKA_ID = KBytes"
  "kind_of_type CKA_ISSUER = KBytes" "kind_of_type CKA_JAVA_MIDP_SECURITY_DOMAIN = KUlong"
  "kind_of_type CKA_KEY_GEN_MECHANISM = KUlong" "kind_of_type CKA_KEY_TYPE = KUlong"
  "kind_of_type CKA_LABEL = KBytes" "kind_of_type CKA_LOCAL = KBool" "kind_of_type CKA_MODIFIABLE = KBool"
  "kind_of_type CKA_MODULUS = KBytes" "kind_of_type CKA_MODULUS_BITS = KUlong"
  "kind_of_type CKA_NAME_HASH_ALGORITHM = KUlong" "kind_of_type CKA_NEVER_EXTRACTABLE = KBool"
  "kind_of_type CKA_OBJECT_ID = KBytes" "kind_of_type CKA_PARAMETER_SET = KUlong"
  "kind_of_type CKA_PRIME = KBytes" "kind_of_type CKA_PRIME_1 = KBytes" "kind_of_type CKA_PRIME_2 = KBytes"
  "kind_of_type CKA_PRIME_BITS = KUlong" "kind_of_type CKA_PRIVATE = KBool"
  "kind_of_type CKA_PRIVATE_EXPONENT = KBytes" "kind_of_type CKA_PUBLIC_EXPONENT = KBytes"
  "kind_of_type CKA_PUBLIC_KEY_INFO = KBytes" "kind_of_type CKA_SEED = KBytes"
  "kind_of_type CKA_SENSITIVE = KBool" "kind_of_type CKA_SERIAL_NUMBER = KBytes"
  "kind_of_type CKA_SIGN = KBool" "kind_of_type CKA_SIGN_RECOVER = KBool"
  "kind_of_type CKA_START_DATE = KBytes" "kind_of_type CKA_SUBJECT = KBytes"
  "kind_of_type CKA_SUBPRIME = KBytes" "kind_of_type CKA_TOKEN = KBool" "kind_of_type CKA_TRUSTED = KBool"
  "kind_of_type CKA_UNWRAP = KBool" "kind_of_type CKA_UNWRAP_TEMPLATE = KMap" "kind_of_type CKA_URL = KBytes"
  "kind_of_type CKA_VALUE = KBytes" "kind_of_type CKA_VALUE_BITS = KUlong"
  "kind_of_type CKA_VALUE_LEN = KUlong" "kind_of_type CKA_VERIFY = KBool"
  "kind_of_type CKA_VERIFY_RECOVER = KBool" "kind_of_type CKA_WRAP = KBool"
  "kind_of_type CKA_WRAP_TEMPLATE = KMap" "kind_of_type CKA_WRAP_WITH_TRUSTED = KBool"
  "kind_of_type CKA_VENDOR_KEY_PIN_ENTER = KBool" "kind_of_type CKA_VENDOR_KEY_CONFIRM_OP = KBool"
  "kind_of_type CKA_VENDOR_KEY_JOURNAL = KBool" "kind_of_type CKA_VENDOR_CONFIRM_BY_TOUCH = KBool"
  by (simp_all add: kind_of_type_def)

text \<open>
  Sets and nested templates are also small enough for their size in bytes to be a
  \<^verbatim>\<open>CK_ULONG\<close>, and a nested template holds flags, numbers and strings only.
\<close>

definition plain_map :: "attr_map \<Rightarrow> bool" where
  "plain_map am \<longleftrightarrow> list_all (\<lambda>(_, v). plain_bytes v \<noteq> None) am"

definition small_set :: "ulong list \<Rightarrow> bool" where
  "small_set s \<longleftrightarrow> length s * 8 < 2 ^ 64"

fun of_kind :: "attr_kind \<Rightarrow> os_attribute \<Rightarrow> bool" where
  "of_kind KBool (BOOL _) = True"
| "of_kind KUlong (ULONG _) = True"
| "of_kind KBytes (BYTESTR _) = True"
| "of_kind KMechs (MECHSET s) = small_set s"
| "of_kind KMap (ATTRMAP am) = plain_map am"
| "of_kind _ _ = False"

definition well_kinded :: "attr_map \<Rightarrow> bool" where
  "well_kinded m \<longleftrightarrow> (\<forall>t v. omap_find m t = Some v \<longrightarrow> of_kind (kind_of_type t) v)"

lemma well_kinded_Nil [simp]: "well_kinded []"
  by (simp add: well_kinded_def)

lemma well_kinded_insert:
  "well_kinded m \<Longrightarrow> of_kind (kind_of_type t) v \<Longrightarrow> well_kinded (omap_insert t v m)"
  by (simp add: well_kinded_def)

fun size_of_kind :: "attr_kind \<Rightarrow> ulong" where
  "size_of_kind KBool = 1"
| "size_of_kind KUlong = 8"
| "size_of_kind _ = VARIABLE"

section \<open>Updates keep the kinds\<close>

definition keeps_kinds ::
  "(('c, 'd, 'r) p11_env \<Rightarrow> ulong \<Rightarrow> bool \<Rightarrow> ck_value \<Rightarrow> ulong \<Rightarrow> object_op \<Rightarrow> attr_map \<Rightarrow> ('c, 'r) hsm_token
   \<Rightarrow> ('c, 'r) attr_result) \<Rightarrow> attr_kind \<Rightarrow> bool" where
  "keeps_kinds upd k \<longleftrightarrow>
     (\<forall>env type isPrivate p len op m tk. kind_of_type type = k \<longrightarrow> well_kinded m \<longrightarrow>
        well_kinded (fst (snd (upd env type isPrivate p len op m tk))))"

lemma set_existing_kinded: "well_kinded m \<Longrightarrow> of_kind (kind_of_type t) v \<Longrightarrow> well_kinded (set_existing t v m)"
  by (simp add: set_existing_def well_kinded_insert)

lemma put_check_value_kinded: "well_kinded m \<Longrightarrow> well_kinded (fst (snd (put_check_value env pr d m tk)))"
  by (simp add: put_check_value_def well_kinded_insert split: prod.split option.split)

lemma value_lengths_kinded: "well_kinded m \<Longrightarrow> well_kinded (value_lengths op bs m)"
  by (simp add: value_lengths_def set_existing_kinded)

lemma keeps_kinds_value: "keeps_kinds P11AttrValue_updateAttr KBytes"
proof -
  have c: "well_kinded m'" if "certificate_check_value env pr d m tk = (rv, m', tk')" "well_kinded m"
    for env pr d m tk rv m' tk'
    using that put_check_value_kinded [OF that(2), of env pr _ tk]
    by (auto simp: certificate_check_value_def split: option.splits if_splits) (metis fst_conv snd_conv)
  have s: "well_kinded (fst (snd (secret_check_value env pr op d m tk)))" if "well_kinded m" for env pr op d m tk
    using that by (simp add: secret_check_value_def put_check_value_kinded split: option.split)
  show ?thesis
    by (auto simp: keeps_kinds_def P11AttrValue_updateAttr_def Let_def value_lengths_kinded well_kinded_insert
        intro: s dest: c split: prod.split option.split)
qed

lemma plain_template_elem: "template_elem t = Some v \<Longrightarrow> plain_bytes v \<noteq> None"
  by (auto simp: template_elem_def split: if_splits)

lemma plain_template_data: "template_data ts data = Some d \<Longrightarrow> plain_map data \<Longrightarrow> plain_map d"
proof (induction ts data rule: template_data.induct)
  case (2 t ts data)
  obtain v where v: "template_elem t = Some v" using "2.prems"(1) by (auto split: option.splits)
  have "plain_map (omap_insert (ca_type t) v data)"
    using set_omap_insert [of "ca_type t" v data] "2.prems"(2) plain_template_elem [OF v]
    by (force simp: plain_map_def list_all_iff)
  with 2 v show ?case by (auto split: if_splits)
qed simp

lemma plain_map_Nil [simp]: "plain_map []"
  by (simp add: plain_map_def)

lemma length_sset_insert: "length (sset_insert x xs) \<le> Suc (length xs)"
  by (induction x xs rule: sset_insert.induct) auto

lemma length_mech_types: "length (mech_types n bs data) \<le> n + length data"
proof (induction n bs data rule: mech_types.induct)
  case (2 n bs data)
  then show ?case using length_sset_insert [of "ulong_at bs" data] by simp
qed simp

lemma mech_types_small: "small_set (mech_types (unat (len :: ulong) div 8) bs [])"
proof -
  have "length (mech_types (unat len div 8) bs []) * 8 \<le> unat len"
    using length_mech_types [of "unat len div 8" bs "[]"] by simp
  also have "unat len < 2 ^ 64" using unsigned_less [of len, where 'a = nat] by simp
  finally show ?thesis unfolding small_set_def .
qed

lemma keeps_kinds_updates:
  "keeps_kinds base_updateAttr KBytes" "keeps_kinds bool_updateAttr KBool" "keeps_kinds date_updateAttr KBytes"
  "keeps_kinds fixed_updateAttr k" "keeps_kinds (ulong_updateAttr acc) KUlong"
  "keeps_kinds (number_updateAttr CKA_MODULUS_BITS) KBytes" "keeps_kinds (number_updateAttr CKA_PRIME_BITS) KBytes"
  "keeps_kinds template_updateAttr KMap" "keeps_kinds P11AttrAllowedMechanisms_updateAttr KMechs"
  "keeps_kinds P11AttrClass_updateAttr KUlong" "keeps_kinds P11AttrKeyType_updateAttr KUlong"
  "keeps_kinds P11AttrCertificateType_updateAttr KUlong" "keeps_kinds P11AttrCopyable_updateAttr KBool"
  "keeps_kinds P11AttrTrusted_updateAttr KBool" "keeps_kinds P11AttrWrapWithTrusted_updateAttr KBool"
  "keeps_kinds P11AttrAlwaysAuthenticate_updateAttr KBool" "keeps_kinds P11AttrSensitive_updateAttr KBool"
  "keeps_kinds P11AttrExtractable_updateAttr KBool"
  by (auto simp: keeps_kinds_def base_updateAttr_def bool_updateAttr_def date_updateAttr_def
      fixed_updateAttr_def ulong_updateAttr_def number_updateAttr_def template_updateAttr_def
      P11AttrAllowedMechanisms_updateAttr_def P11AttrClass_updateAttr_def P11AttrKeyType_updateAttr_def
      P11AttrCertificateType_updateAttr_def P11AttrCopyable_updateAttr_def P11AttrTrusted_updateAttr_def
      P11AttrWrapWithTrusted_updateAttr_def P11AttrAlwaysAuthenticate_updateAttr_def
      P11AttrSensitive_updateAttr_def P11AttrExtractable_updateAttr_def Let_def
      intro!: well_kinded_insert set_existing_kinded mech_types_small dest!: plain_template_data
      split: prod.split option.split)

lemma keeps_kinds_check_value: "keeps_kinds P11AttrCheckValue_updateAttr KBytes"
  by (auto simp: keeps_kinds_def P11AttrCheckValue_updateAttr_def Let_def intro!: well_kinded_insert
      split: prod.split option.split)

section \<open>Objects keep the kinds\<close>

definition kinded :: "('c, 'd, 'r) p11_attribute \<Rightarrow> bool" where
  "kinded a \<longleftrightarrow>
     of_kind (kind_of_type (pa_type a)) (pa_default a)
     \<and> pa_size a = size_of_kind (kind_of_type (pa_type a))
     \<and> keeps_kinds (pa_updateAttr a) (kind_of_type (pa_type a))"

interpretation kinds: attr_law kinded
  by unfold_locales
    (simp add: kinded_def attr_class_defs small_set_def keeps_kinds_updates keeps_kinds_value
      keeps_kinds_check_value)+

definition obj_ok :: "('c, 'd, 'r) p11_object \<Rightarrow> bool" where
  "obj_ok p \<longleftrightarrow> well_kinded (fst p) \<and> tab_all kinded (snd p) \<and> (\<forall>(t, a) \<in> set (snd p). omap_find (fst p) t \<noteq> None)"

lemma attr_init_facts:
  "kinded a \<Longrightarrow> well_kinded m \<Longrightarrow> well_kinded (attr_init a m)"
  "omap_find (attr_init a m) (pa_type a) \<noteq> None"
  "omap_find m t \<noteq> None \<Longrightarrow> omap_find (attr_init a m) t \<noteq> None"
  by (auto simp: attr_init_def kinded_def well_kinded_insert)

lemma fold_attr_init: "list_all kinded as \<Longrightarrow> well_kinded m \<Longrightarrow> well_kinded (fold attr_init as m)"
  by (induction as arbitrary: m) (auto simp: attr_init_facts)

lemma fold_attr_init_present:
  "omap_find m t \<noteq> None \<or> t \<in> pa_type ` set as \<Longrightarrow> omap_find (fold attr_init as m) t \<noteq> None"
proof (induction as arbitrary: m)
  case (Cons a as)
  have "omap_find (attr_init a m) t \<noteq> None \<or> t \<in> pa_type ` set as"
    using Cons.prems attr_init_facts(2) [of a m] attr_init_facts(3) [of m t a] by auto
  from Cons.IH [OF this] show ?case by simp
qed simp

lemma keys_of_table:
  "(t, a) \<in> set (fold (\<lambda>a. omap_insert (pa_type a) a) as tab) \<Longrightarrow> t \<in> pa_type ` set as \<or> (\<exists>b. (t, b) \<in> set tab)"
proof (induction as arbitrary: tab)
  case (Cons x as)
  from Cons.IH [of "omap_insert (pa_type x) x tab"] Cons.prems
  have "t \<in> pa_type ` set as \<or> (\<exists>b. (t, b) \<in> set (omap_insert (pa_type x) x tab))" by simp
  with set_omap_insert [of "pa_type x" x tab] show ?case by auto
qed auto

lemma obj_ok_add: "list_all kinded as \<Longrightarrow> obj_ok p \<Longrightarrow> obj_ok (add_attributes as p)"
  using tab_all_add [of kinded as p] fold_attr_init [of as "fst p"] fold_attr_init_present [of "fst p" _ as]
    keys_of_table [of _ _ as "snd p"]
  by (auto simp: obj_ok_def add_attributes_def) fast+

lemma obj_ok_start: "well_kinded m \<Longrightarrow> obj_ok (m, [])"
  by (simp add: obj_ok_def)

lemma presets_kinded [simp]:
  "well_kinded m \<Longrightarrow> well_kinded (set_if_differs CKA_CLASS v m)"
  "well_kinded m \<Longrightarrow> well_kinded (set_if_differs CKA_KEY_TYPE v m)"
  "well_kinded m \<Longrightarrow> well_kinded (set_if_differs CKA_CERTIFICATE_TYPE v m)"
  "well_kinded m \<Longrightarrow> well_kinded (set_if_absent CKA_PRIVATE (BOOL b) m)"
  by (simp_all add: set_if_differs_def set_if_absent_def well_kinded_insert)

lemma object_init_ok:
  "well_kinded m \<Longrightarrow> obj_ok (P11Object_init m)"
  "well_kinded m \<Longrightarrow> obj_ok (P11DataObj_init m)"
  "well_kinded m \<Longrightarrow> obj_ok (P11CertificateObj_init m)"
  "well_kinded m \<Longrightarrow> obj_ok (P11X509CertificateObj_init m)"
  "well_kinded m \<Longrightarrow> obj_ok (P11OpenPGPPublicKeyObj_init m)"
  "well_kinded m \<Longrightarrow> obj_ok (P11KeyObj_init m)"
  "well_kinded m \<Longrightarrow> obj_ok (P11PublicKeyObj_init m)"
  "well_kinded m \<Longrightarrow> obj_ok (P11RSAPublicKeyObj_init m)"
  "well_kinded m \<Longrightarrow> obj_ok (P11DSAPublicKeyObj_init m)"
  "well_kinded m \<Longrightarrow> obj_ok (P11ECPublicKeyObj_init m)"
  "well_kinded m \<Longrightarrow> obj_ok (P11EDPublicKeyObj_init m)"
  "well_kinded m \<Longrightarrow> obj_ok (P11MLDSAPublicKeyObj_init m)"
  "well_kinded m \<Longrightarrow> obj_ok (P11MLKEMPublicKeyObj_init m)"
  "well_kinded m \<Longrightarrow> obj_ok (P11DHPublicKeyObj_init m)"
  "well_kinded m \<Longrightarrow> obj_ok (P11GOSTPublicKeyObj_init k m)"
  "well_kinded m \<Longrightarrow> obj_ok (P11PrivateKeyObj_init m)"
  "well_kinded m \<Longrightarrow> obj_ok (P11RSAPrivateKeyObj_init m)"
  "well_kinded m \<Longrightarrow> obj_ok (P11DSAPrivateKeyObj_init m)"
  "well_kinded m \<Longrightarrow> obj_ok (P11ECPrivateKeyObj_init m)"
  "well_kinded m \<Longrightarrow> obj_ok (P11EDPrivateKeyObj_init m)"
  "well_kinded m \<Longrightarrow> obj_ok (P11MLDSAPrivateKeyObj_init m)"
  "well_kinded m \<Longrightarrow> obj_ok (P11MLKEMPrivateKeyObj_init m)"
  "well_kinded m \<Longrightarrow> obj_ok (P11DHPrivateKeyObj_init m)"
  "well_kinded m \<Longrightarrow> obj_ok (P11GOSTPrivateKeyObj_init k m)"
  "well_kinded m \<Longrightarrow> obj_ok (P11SecretKeyObj_init m)"
  "well_kinded m \<Longrightarrow> obj_ok (P11GenericSecretKeyObj_init k m)"
  "well_kinded m \<Longrightarrow> obj_ok (P11AESSecretKeyObj_init m)"
  "well_kinded m \<Longrightarrow> obj_ok (P11DESSecretKeyObj_init k m)"
  "well_kinded m \<Longrightarrow> obj_ok (P11GOSTSecretKeyObj_init k m)"
  "well_kinded m \<Longrightarrow> obj_ok (P11DomainObj_init m)"
  "well_kinded m \<Longrightarrow> obj_ok (P11DSADomainObj_init m)"
  "well_kinded m \<Longrightarrow> obj_ok (P11DHDomainObj_init m)"
  by (simp_all add: object_init_defs kinds.classes obj_ok_add obj_ok_start)

lemma newP11Object_ok: "newP11Object objClass keyType certType = Some f \<Longrightarrow> well_kinded m \<Longrightarrow> obj_ok (f m)"
  by (auto simp: newP11Object_def newPublicKey_def newPrivateKey_def newSecretKey_def object_init_ok split: if_splits)

lemma P11Object_of_ok: "P11Object_of m = Inr obj \<Longrightarrow> well_kinded m \<Longrightarrow> obj_ok obj"
  by (auto simp: P11Object_of_def newP11Object_ok split: option.splits)

lemma update_kinded:
  "kinded a \<Longrightarrow> well_kinded m \<Longrightarrow> well_kinded (fst (snd (update env a pr p len op m tk)))"
  using update_cases [of env a pr p len op m tk] by (auto simp: kinded_def keeps_kinds_def)

lemma save_loop_kinded:
  "tab_all kinded tab \<Longrightarrow> well_kinded m \<Longrightarrow> well_kinded (fst (snd (save_loop env tab pr op ts m tk)))"
proof (induction ts arbitrary: m tk)
  case (Cons t ts)
  show ?case
  proof (cases "omap_find tab (ca_type t)")
    case (Some a)
    obtain rv m1 tk1 where u: "update env a pr (ca_pValue t) (ca_ulValueLen t) op m tk = (rv, m1, tk1)"
      by (metis surj_pair)
    have "well_kinded m1"
      using update_kinded [of a m env pr "ca_pValue t" "ca_ulValueLen t" op tk] tab_all_find [OF Cons.prems(1) Some]
        Cons.prems(2) u by simp
    with Cons.IH [OF Cons.prems(1)] Some u show ?thesis by simp
  qed (use Cons.prems in simp)
qed simp

lemma save_body_kinded:
  assumes "tab_all kinded tab" "well_kinded m"
  shows "well_kinded (fst (snd (save_body env tab pr ts op m tk)))"
proof -
  obtain rv m1 tk1 where l: "save_loop env tab pr op ts m tk = (rv, m1, tk1)" by (metis surj_pair)
  with save_loop_kinded [OF assms, of env pr op ts tk] assms(2) show ?thesis by (simp add: save_body_def)
qed

end
