(* ===== verification/P11_Templates.thy ===== *)
theory P11_Templates
  imports P11_Reading
begin

text \<open>
  Whole templates: what reading one writes into the caller's memory and what it can reveal,
  and how writing one ends for session objects and for token objects.
\<close>

unbundle bit_operations_syntax

section \<open>Nothing is written beyond the stated length\<close>

text \<open>
  Memory before and after, with the length the caller stated: a buffer at least that long
  keeps its length and its bytes from there on; so do the buffers of a nested template.
\<close>

inductive within :: "ck_value \<Rightarrow> ulong \<Rightarrow> ck_value \<Rightarrow> bool" where
  within_null: "within NULL_PTR len NULL_PTR"
| within_buffer:
    "(unat len \<le> length bs \<Longrightarrow> length bs' = length bs \<and> drop (unat len) bs' = drop (unat len) bs) \<Longrightarrow>
     within (BUFFER bs) len (BUFFER bs')"
| within_attrs:
    "list_all2 (\<lambda>t t'. within (ca_pValue t) (ca_ulValueLen t) (ca_pValue t')) ts ts' \<Longrightarrow>
     within (ATTRS ts) len (ATTRS ts')"
monos list.rel_mono_strong

inductive_simps within_simps [simp]:
  "within NULL_PTR len p" "within (BUFFER bs) len p" "within (ATTRS ts) len p"

lemma within_refl: "within p len p" and within_refl_attr: "within (ca_pValue t) l (ca_pValue t)"
  by (induct p and t arbitrary: len and l) (auto simp: list.rel_refl_strong)

lemma within_put_bytes:
  assumes "length bs \<le> unat len"
  shows "within p len (put_bytes bs p)"
  using assms within_refl [of p len] by (cases p) auto

lemma map_sizes_within: "list_all2 (\<lambda>t t'. within (ca_pValue t) (ca_ulValueLen t) (ca_pValue t')) ts (snd (map_sizes ts m))"
  by (induction ts m rule: map_sizes.induct)
    (auto simp: within_refl list.rel_refl_strong split: option.split prod.split)

lemma map_values_within:
  "list_all2 (\<lambda>t t'. within (ca_pValue t) (ca_ulValueLen t) (ca_pValue t')) ts (snd (map_values n ts m))"
  by (induction n ts m rule: map_values.induct)
    (auto simp: within_refl within_put_bytes list.rel_refl_strong split: option.split prod.split)

lemma retrieveAttributeMap_within: "retrieveAttributeMap ts m = (rv, ts') \<Longrightarrow> within (ATTRS ts) len (ATTRS ts')"
  using map_sizes_within [of ts m] map_values_within [of ts "length m" m]
  by (auto simp: retrieveAttributeMap_def split: if_splits)

lemma length_host_ulong [simp]: "length (host_ulong n) = 8"
  by (simp add: host_ulong_def)

lemma length_concat_host: "length (concat (map host_ulong s)) = length s * 8"
  by (induction s) auto

lemma copy_out_within:
  assumes "attr_size env a pr attr tk = (Some attrSize, tk1)" "kinded a" "of_kind (kind_of_type (pa_type a)) attr"
    and "attrSize \<le> len" "copy_out env a pr attr attrSize p tk1 = (Some (rv, p'), tk2)"
  shows "within p len p'"
proof -
  have le: "unat attrSize \<le> unat len" using assms(4) by (simp add: word_le_nat_alt)
  show ?thesis
  proof (cases attr)
    case (BOOL b)
    with assms(1-3) have "attrSize = 1" by (cases "kind_of_type (pa_type a)") (auto simp: kinded_def attr_size_def)
    with BOOL assms(5) le show ?thesis by (auto simp: copy_out_def bbool_def intro!: within_put_bytes)
  next
    case (ULONG n)
    with assms(1-3) have "attrSize = 8" by (cases "kind_of_type (pa_type a)") (auto simp: kinded_def attr_size_def)
    with ULONG assms(5) le show ?thesis by (auto simp: copy_out_def intro!: within_put_bytes)
  next
    case (BYTESTR bs)
    with assms(5) le show ?thesis
      by (auto simp: copy_out_def intro!: within_put_bytes split: prod.splits option.splits)
  next
    case (MECHSET s)
    with assms(1-3) have "attrSize = of_nat (length s * 8)" "small_set s"
      by (cases "kind_of_type (pa_type a)"; auto simp: kinded_def attr_size_def)+
    then have "unat attrSize = length s * 8" unfolding small_set_def by (simp only: unat_of_length)
    with MECHSET assms(5) le show ?thesis by (auto simp: copy_out_def length_concat_host intro!: within_put_bytes)
  next
    case (ATTRMAP am)
    with assms(5) show ?thesis
      by (auto simp: copy_out_def within_refl dest: retrieveAttributeMap_within split: ck_value.splits prod.splits)
  qed
qed

lemma retrieve_within:
  assumes "kinded a" "well_kinded m" "retrieve env a pr p len m tk = (rv, p', len', tk')"
  shows "within p len p'"
proof -
  have "within p len p'" if "omap_find m (pa_type a) = Some attr" "attr_size env a pr attr tk = (Some sz, tk1)"
    "sz \<le> len" "copy_out env a pr attr sz p tk1 = (Some (rv, p'), tk')" for attr sz tk1
    using copy_out_within [OF that(2) assms(1) _ that(3, 4)] assms(2) that(1) by (simp add: well_kinded_def)
  with assms(3) show ?thesis
    by (auto simp: retrieve_def within_refl split: if_splits option.splits prod.splits)
qed

lemma load_loop_within:
  assumes "tab_all kinded tab" "well_kinded m"
  shows "load_loop env tab pr m i s b ts tk = (rv, ts', tk') \<Longrightarrow>
    list_all2 (\<lambda>t t'. ca_type t' = ca_type t \<and> within (ca_pValue t) (ca_ulValueLen t) (ca_pValue t')) ts ts'"
proof (induction ts arbitrary: i s b tk rv ts')
  case (Cons t ts)
  obtain ty p len where t: "t = CK_ATTRIBUTE ty p len" by (cases t)
  show ?case
  proof (cases "omap_find tab ty")
    case None
    with Cons t show ?thesis by (auto simp: within_refl split: prod.splits)
  next
    case (Some a)
    obtain rv1 p1 len1 tk1 where r: "retrieve env a pr p len m tk = (rv1, p1, len1, tk1)" by (metis surj_pair)
    have "within p len p1" using retrieve_within [OF _ assms(2) r] tab_all_find [OF assms(1) Some] by simp
    with Cons t Some r show ?thesis
      by (auto simp: within_refl list.rel_refl_strong split: if_splits prod.splits)
  qed
qed auto

section \<open>Secrets of a protected object are not revealed\<close>

text \<open>The attributes that hold the secret part of a private or secret key.\<close>

definition key_material :: "ulong set" where
  "key_material =
     {CKA_VALUE, CKA_PRIVATE_EXPONENT, CKA_PRIME_1, CKA_PRIME_2, CKA_EXPONENT_1, CKA_EXPONENT_2, CKA_COEFFICIENT, CKA_SEED}"

definition protected :: "attr_map \<Rightarrow> bool" where
  "protected m \<longleftrightarrow> isSensitive m \<or> \<not> isExtractable m"

definition agree_but_secrets :: "attr_map \<Rightarrow> attr_map \<Rightarrow> bool" where
  "agree_but_secrets m n \<longleftrightarrow> (\<forall>t. t \<notin> key_material \<longrightarrow> omap_find m t = omap_find n t)"

definition shields :: "('c, 'd, 'r) p11_attribute \<Rightarrow> bool" where
  "shields a \<longleftrightarrow> (pa_type a \<in> key_material \<longrightarrow> has (pa_checks a) ck7)"

lemma retrieve_no_secret:
  assumes "shields a" "agree_but_secrets m n" "protected m" "protected n"
  shows "retrieve env a pr p len m tk = retrieve env a pr p len n tk"
  using assms by (auto simp: retrieve_def protected_def agree_but_secrets_def shields_def)

lemma load_loop_no_secret:
  assumes "tab_all shields tab" "agree_but_secrets m n" "protected m" "protected n"
  shows "load_loop env tab pr m i s b ts tk = load_loop env tab pr n i s b ts tk"
proof (induction ts arbitrary: i s b tk)
  case (Cons t ts)
  obtain ty p len where t: "t = CK_ATTRIBUTE ty p len" by (cases t)
  show ?case
  proof (cases "omap_find tab ty")
    case (Some a)
    then have "shields a" using tab_all_find [OF assms(1)] by simp
    from retrieve_no_secret [OF this assms(2-4)] Some Cons t show ?thesis by (simp split: prod.split)
  qed (simp add: Cons t)
qed simp

lemma agree_on_flags:
  "agree_but_secrets m n \<Longrightarrow> protected n = protected m \<and> po_isPrivate n = po_isPrivate m"
  by (simp add: agree_but_secrets_def key_material_def protected_def isSensitive_def isExtractable_def po_isPrivate_def)

lemmas shields_simps = shields_def key_material_def has_def attr_class_defs

lemma shielding_bases:
  "tab_all shields (snd (P11PrivateKeyObj_init m))" "tab_all shields (snd (P11SecretKeyObj_init m))"
  by (simp_all add: P11PrivateKeyObj_init_def P11SecretKeyObj_init_def P11KeyObj_init_def P11Object_init_def
      tab_all_add shields_simps)

lemma shielding_private: "newPrivateKey keyType = Some f \<Longrightarrow> tab_all shields (snd (f m))"
  by (auto simp: newPrivateKey_def P11RSAPrivateKeyObj_init_def P11DSAPrivateKeyObj_init_def P11ECPrivateKeyObj_init_def
      P11DHPrivateKeyObj_init_def P11GOSTPrivateKeyObj_init_def P11EDPrivateKeyObj_init_def
      P11MLDSAPrivateKeyObj_init_def P11MLKEMPrivateKeyObj_init_def tab_all_add shielding_bases shields_simps
      split: if_splits)

lemma shielding_secret: "newSecretKey keyType = Some f \<Longrightarrow> tab_all shields (snd (f m))"
  by (auto simp: newSecretKey_def P11GenericSecretKeyObj_init_def P11AESSecretKeyObj_init_def P11DESSecretKeyObj_init_def
      P11GOSTSecretKeyObj_init_def tab_all_add shielding_bases shields_simps
      split: if_splits)

lemma shielding_keys:
  "newP11Object objClass keyType certType = Some f \<Longrightarrow> objClass = CKO_PRIVATE_KEY \<or> objClass = CKO_SECRET_KEY \<Longrightarrow>
   tab_all shields (snd (f m))"
  by (auto simp: newP11Object_def shielding_private shielding_secret)

section \<open>What is stored can be read back\<close>

text \<open>\<open>w\<close> is the ciphertext of \<open>v\<close> under the master key of a manager that is logged in.\<close>

definition sealed :: "('c, 'd, 'r) crypto \<Rightarrow> bytes \<Rightarrow> bytes \<Rightarrow> ('c, 'r) hsm_token \<Rightarrow> bool" where
  "sealed cx w v tk \<longleftrightarrow>
     (\<exists>s IV c aes. tk_sdm tk = Some s \<and> sdm_inv s \<and> logged_in s \<and> length (unmask s) = 32 \<and> w = IV @ c \<and> length IV = 16
        \<and> idle aes
        \<and> fst (encrypt_message (cx_evp cx) OSSLAES \<lparr>keyData = unmask s, bitLen = 256\<rparr> IV [v] aes) = Some c)"

lemma seal_sealed:
  assumes "crypto_ok cx H" "tk_sdm tk = Some s" "sdm_inv s" "tk_encrypt cx v tk = (Some w, tk')"
  shows "sealed cx w v tk'"
proof -
  obtain s' where e: "sdm_encrypt cx v s = (Some w, s')" "tk' = put_sdm s' tk"
    using assms(2, 4) by (auto simp: tk_encrypt_def split: prod.splits)
  have r: "rand_sized (cx_rand cx)" using assms(1) by (simp add: crypto_ok_def)
  have i: "idle (sdm_aes s)" using assms(3) by (simp add: sdm_inv_def)
  from sdm_encrypt_shape [OF r assms(3) e(1)] obtain IV c where
    f: "same_key s s'" "sdm_inv s'" "logged_in s" "length (unmask s) = 32" "length IV = 16" "w = IV @ c"
      "fst (encrypt_message (cx_evp cx) OSSLAES \<lparr>keyData = unmask s, bitLen = 256\<rparr> IV [v] (sdm_aes s)) = Some c"
    by auto
  then have "tk_sdm tk' = Some s'" "logged_in s'" "unmask s' = unmask s" by (auto simp: e(2) put_sdm_def same_key_def)
  with f i show ?thesis unfolding sealed_def by metis
qed

lemma sealed_opens:
  assumes "crypto_ok cx H" "sealed cx w v tk"
  shows "\<exists>tk'. tk_decrypt cx w tk = (Some v, tk') \<and> sealed cx w v tk'"
proof -
  from assms(2) obtain s IV c aes where
    f: "tk_sdm tk = Some s" "sdm_inv s" "logged_in s" "length (unmask s) = 32" "w = IV @ c" "length IV = 16" "idle aes"
      "fst (encrypt_message (cx_evp cx) OSSLAES \<lparr>keyData = unmask s, bitLen = 256\<rparr> IV [v] aes) = Some c"
    unfolding sealed_def by blast
  from sdm_decrypt_sealed [OF assms(1) f(2, 3, 4, 6, 7, 8)] obtain s' where
    s': "sdm_decrypt cx (IV @ c) s = (Some v, s')" "same_key s s'" "sdm_inv s'" by blast
  then have d: "tk_decrypt cx w tk = (Some v, put_sdm s' tk)" by (simp add: tk_decrypt_def f(1, 5))
  have "tk_sdm (put_sdm s' tk) = Some s'" "logged_in s'" "unmask s' = unmask s"
    using s' f(3) by (auto simp: put_sdm_def same_key_def)
  with s' f have "sealed cx w v (put_sdm s' tk)" unfolding sealed_def by metis
  with d show ?thesis by blast
qed

lemma sealed_long: "sealed cx w v tk \<Longrightarrow> 16 \<le> length w"
  by (auto simp: sealed_def)

text \<open>An attribute whose value is kept as a string of bytes, a date included.\<close>

definition string_attr :: "('c, 'd, 'r) p11_attribute \<Rightarrow> bool" where
  "string_attr a \<longleftrightarrow> pa_size a = VARIABLE \<and> (pa_updateAttr a = base_updateAttr \<or> pa_updateAttr a = date_updateAttr)"

lemma base_stores:
  assumes "base_updateAttr env ty pr (BUFFER v) (of_nat (length v)) op m tk = (CKR_OK, m', tk1)" "length v < 2 ^ 64"
  shows "\<exists>w. seal env pr v tk = (Some w, tk1) \<and> m' = omap_insert ty (BYTESTR w) m"
  using assms by (auto simp: base_updateAttr_def unat_of_length split: prod.splits option.splits if_splits)

lemma string_update_stores:
  assumes "string_attr a" "update env a pr (BUFFER v) (of_nat (length v)) op m tk = (CKR_OK, m', tk1)" "length v < 2 ^ 64"
  shows "\<exists>w. seal env pr v tk = (Some w, tk1) \<and> m' = omap_insert (pa_type a) (BYTESTR w) m"
  using assms base_stores [OF _ assms(3), of env "pa_type a" pr op m tk m' tk1]
  by (auto simp: string_attr_def update_def date_updateAttr_def split: if_splits)

lemma open_string_seal:
  assumes "crypto_ok (pe_crypto env) H" "sealed (pe_crypto env) w v tk"
  shows "\<exists>tk'. open_string env a True w tk = (Some v, tk') \<and> sealed (pe_crypto env) w v tk'"
  using sealed_opens [OF assms] sealed_long [OF assms(2)]
  by (auto simp: open_string_def readStored_def isLegacyPlaintext_def)

lemma retrieve_string:
  assumes "omap_find m (pa_type a) = Some (BYTESTR w)" "pa_size a = VARIABLE" "\<not> (has (pa_checks a) ck7 \<and> protected m)"
    and "open_string env a pr w tk = (Some v, tk1)" "open_string env a pr w tk1 = (Some v, tk2)"
    and "length v \<le> unat len" "length v < 2 ^ 64"
  shows "retrieve env a pr (BUFFER buf) len m tk = (CKR_OK, BUFFER (v @ drop (length v) buf), of_nat (length v), tk2)"
  using assms by (auto simp: retrieve_def protected_def attr_size_def copy_out_def word_le_nat_alt unat_of_length)

section \<open>Templates of new objects\<close>

lemma save_loop_entries:
  "save_loop env tab pr op ts m tk = (CKR_OK, m', tk') \<Longrightarrow> t \<in> set ts \<Longrightarrow>
   \<exists>a. omap_find tab (ca_type t) = Some a \<and> \<not> prohibited (pa_checks a) op
     \<and> (pa_size a = VARIABLE \<or> pa_size a = ca_ulValueLen t)"
proof (induction ts arbitrary: m tk)
  case (Cons x ts)
  obtain a where a: "omap_find tab (ca_type x) = Some a" using Cons.prems(1) by (auto split: option.splits)
  obtain rv m1 tk1 where u: "update env a pr (ca_pValue x) (ca_ulValueLen x) op m tk = (rv, m1, tk1)" by (metis surj_pair)
  have rv: "rv = CKR_OK" and l: "save_loop env tab pr op ts m1 tk1 = (CKR_OK, m', tk')"
    using Cons.prems(1) a u by (auto split: if_splits)
  from u rv have "\<not> prohibited (pa_checks a) op \<and> (pa_size a = VARIABLE \<or> pa_size a = ca_ulValueLen x)"
    by (auto simp: update_def split: if_splits)
  with Cons.IH [OF l] Cons.prems(2) a show ?case by auto
qed simp

lemma save_body_ok:
  "save_body env tab pr ts op m tk = (CKR_OK, m', tk') \<Longrightarrow>
   save_loop env tab pr op ts m tk = (CKR_OK, m', tk') \<and> complete tab op ts"
  by (auto simp: save_body_def split: if_splits prod.splits)

end
