(* ===== verification/P11_Properties.thy ===== *)
theory P11_Properties
  imports P11_Templates
begin

text \<open>
  The properties of attributes and templates, on the laws of \<open>P11_Laws\<close>, \<open>P11_Reading\<close> and
  \<open>P11_Templates\<close>, each with a concrete instance.
\<close>

unbundle bit_operations_syntax

section \<open>Concrete objects\<close>

definition sample_env :: "(unit, unit, unit) p11_env" where
  "sample_env = \<lparr>pe_crypto = sample_crypto, pe_sha1 = const_md\<rparr>"

text \<open>Someone is logged in; the master key is 32 ones.\<close>

definition open_sdm :: "bool \<Rightarrow> (unit, unit) sdm" where
  "open_sdm so =
     \<lparr>userEncryptedKey = [], soEncryptedKey = [], soLoggedIn = so, userLoggedIn = \<not> so,
      maskedKey = replicate 32 1, sdm_mask = replicate 32 0, sdm_rng = (), sdm_aes = SymmetricAlgorithm_new\<rparr>"

definition open_token :: "bool \<Rightarrow> (unit, unit) hsm_token" where
  "open_token so = \<lparr>tk_token = None, tk_sdm = Some (open_sdm so), tk_valid = True, tk_rng = ()\<rparr>"

lemma open_sdm_inv: "sdm_inv (open_sdm so)"
  by (simp add: sdm_inv_def open_sdm_def SymmetricAlgorithm_new_def ctx_inv_def)

lemma open_token_so [simp]: "isSOLoggedIn (open_token so) = so"
  by (simp add: isSOLoggedIn_def open_token_def open_sdm_def)

lemma open_token_encrypts: "\<exists>w tk'. tk_encrypt sample_crypto v (open_token so) = (Some w, tk')"
proof -
  let ?s = "open_sdm so" and ?cx = sample_crypto
  have u: "length (unmask ?s) = 32" "length (maskedKey ?s) = 32" "soLoggedIn ?s \<or> userLoggedIn ?s"
    by (simp_all add: open_sdm_def)
  let ?r = "remask ?cx (unmask ?s) ?s"
  obtain ok IV s2 where rd: "sdm_random ?cx 16 ?r = (ok, IV, s2)" by (cases "sdm_random ?cx 16 ?r")
  have r: "rand_sized (cx_rand ?cx)" using sample_crypto_ok(1) by (simp add: crypto_ok_def)
  have ok: "ok" "length IV = 16" using sdm_random_facts [OF rd] sample_crypto_ok(2) r by simp_all
  have "\<exists>c. fst (encrypt_message (cx_evp ?cx) OSSLAES \<lparr>keyData = unmask ?s, bitLen = 256\<rparr> IV [v] (sdm_aes ?s)) = Some c"
    using u open_sdm_inv [of so] sample_crypto_ok(1) ok(2)
    by (intro encrypt_message_succeeds) (simp_all add: crypto_ok_def aes_key_ok_def sdm_inv_def)
  then obtain ct s' where "sdm_encrypt ?cx v ?s = (Some ct, s')"
    using u ok rd same_key_random [OF rd]
    by (auto simp: sdm_encrypt_def take_key_eq remask_facts case_prod_unfold)
  then show ?thesis by (simp add: tk_encrypt_def open_token_def)
qed

text \<open>What a stored object has, its class keeps.\<close>

lemma find_init_kept: "omap_find m t = Some v \<Longrightarrow> omap_find (attr_init a m) t = Some v"
  by (auto simp: attr_init_def)

lemma find_add_kept: "omap_find (fst p) t = Some v \<Longrightarrow> omap_find (fst (add_attributes as p)) t = Some v"
proof -
  have "omap_find m t = Some v \<Longrightarrow> omap_find (fold attr_init as m) t = Some v" for m
    by (induction as arbitrary: m) (auto simp: find_init_kept)
  then show "omap_find (fst p) t = Some v \<Longrightarrow> ?thesis" by (simp add: add_attributes_def)
qed

lemma find_set_if_differs: "t \<noteq> type \<Longrightarrow> omap_find (set_if_differs type v m) t = omap_find m t"
  by (simp add: set_if_differs_def)

definition sample_key :: "bytes \<Rightarrow> attr_map" where
  "sample_key v = [(CKA_VALUE, BYTESTR v), (CKA_SENSITIVE, BOOL True)]"

definition aes_object :: "bytes \<Rightarrow> (unit, unit, unit) p11_object" where
  "aes_object v = P11AESSecretKeyObj_init (sample_key v)"

lemma aes_object_attributes:
  "omap_find (fst (aes_object v)) CKA_SENSITIVE = Some (BOOL True)"
  "omap_find (fst (aes_object v)) CKA_VALUE = Some (BYTESTR v)"
  by (simp_all add: aes_object_def P11AESSecretKeyObj_init_def P11SecretKeyObj_init_def P11KeyObj_init_def
      P11Object_init_def find_add_kept find_set_if_differs sample_key_def)

lemma newAES: "newP11Object CKO_SECRET_KEY CKK_AES ct = Some P11AESSecretKeyObj_init"
  by (simp add: newP11Object_def newSecretKey_def generic_secret_def)

section \<open>Properties\<close>

text \<open>
  C6: the secret part of a protected key is not revealed. For a private or secret key of
  any type that is sensitive or not extractable, the outcome of reading a template, codes,
  lengths and memory, is the same whatever the values of the secret attributes (the value,
  the private exponent, the primes, the seed and the rest) are.
\<close>

theorem secrets_not_revealed:
  assumes "newP11Object objClass keyType certType = Some f" and "objClass = CKO_PRIVATE_KEY \<or> objClass = CKO_SECRET_KEY"
    and "f m0 = (m, tab)" and "protected m" and "agree_but_secrets m n"
  shows "loadTemplate env (m, tab) pTemplate tk = loadTemplate env (n, tab) pTemplate tk"
  using load_loop_no_secret [OF _ assms(5, 4)] agree_on_flags [OF assms(5)] shielding_keys [OF assms(1, 2), of m0]
    assms(3, 4)
  by (simp add: loadTemplate_def)

theorem secrets_not_revealed_witness:
  "loadTemplate sample_env (aes_object [1, 2, 3]) [CK_ATTRIBUTE CKA_VALUE (BUFFER [0, 0, 0, 0]) 4] (open_token False)
   = loadTemplate sample_env (omap_insert CKA_VALUE (BYTESTR [9]) (fst (aes_object [1, 2, 3])), snd (aes_object [1, 2, 3]))
       [CK_ATTRIBUTE CKA_VALUE (BUFFER [0, 0, 0, 0]) 4] (open_token False)"
proof -
  let ?m = "fst (aes_object [1, 2, 3])"
  have "protected ?m" by (simp add: protected_def isSensitive_def aes_object_attributes)
  moreover have "agree_but_secrets ?m (omap_insert CKA_VALUE (BYTESTR [9]) ?m)"
    by (simp add: agree_but_secrets_def key_material_def)
  ultimately show ?thesis
    using secrets_not_revealed [OF newAES, of "sample_key [1, 2, 3]" ?m "snd (aes_object [1, 2, 3])"
        "omap_insert CKA_VALUE (BYTESTR [9]) ?m" sample_env "[CK_ATTRIBUTE CKA_VALUE (BUFFER [0, 0, 0, 0]) 4]" "open_token False"]
    by (simp add: aes_object_def)
qed

text \<open>
  C7: a restriction on an object is never lifted. Setting attributes, or changing them
  while the object is copied, whatever the template and whether the call succeeds or fails
  half way, a sensitive object stays sensitive, one that is not extractable stays so, one to
  be wrapped by trusted keys only stays so, and one that is not copyable stays so.
\<close>

theorem restrictions_never_lifted:
  assumes "newP11Object objClass keyType certType = Some f" and "op = OBJECT_OP_SET \<or> op = OBJECT_OP_COPY"
    and "save_body env (snd (f m0)) isPrivate pTemplate op m tk = (rv, m', tk')"
  shows "(isSensitive m \<longrightarrow> isSensitive m') \<and> (\<not> isExtractable m \<longrightarrow> \<not> isExtractable m')
    \<and> (wrapWithTrusted m \<longrightarrow> wrapWithTrusted m') \<and> (\<not> po_isCopyable m \<longrightarrow> \<not> po_isCopyable m')"
  using save_body_restricted [OF restrictions.table_law [OF assms(1)] assms(2), of m env m0 isPrivate pTemplate tk] assms(3)
  by (auto simp: as_restricted_def)

theorem restrictions_never_lifted_witness:
  "isSensitive (fst (snd (save_body sample_env (snd (P11AESSecretKeyObj_init (sample_key [1]))) True
     [CK_ATTRIBUTE CKA_SENSITIVE (BUFFER [0]) 1] OBJECT_OP_SET (fst (aes_object [1])) (open_token False))))"
proof -
  obtain rv m' tk' where b: "save_body sample_env (snd (P11AESSecretKeyObj_init (sample_key [1]))) True
    [CK_ATTRIBUTE CKA_SENSITIVE (BUFFER [0]) 1] OBJECT_OP_SET (fst (aes_object [1])) (open_token False) = (rv, m', tk')"
    by (metis surj_pair)
  have "isSensitive (fst (aes_object [1]))" by (simp add: isSensitive_def aes_object_attributes)
  with restrictions_never_lifted [OF newAES _ b] show ?thesis by (simp add: b)
qed

text \<open>
  C25: trust comes from the security officer. Whatever the operation, creating and
  generating included, and whatever the template, an object that is trusted afterwards was
  trusted before or the security officer is logged in.
\<close>

theorem trust_needs_security_officer:
  assumes "newP11Object objClass keyType certType = Some f" and "\<not> isSOLoggedIn tk"
    and "save_body env (snd (f m0)) isPrivate pTemplate op m tk = (rv, m', tk')" and "isTrusted m'"
  shows "isTrusted m"
  using save_body_trust [OF trust.table_law [OF assms(1)] assms(2), of env m0 isPrivate pTemplate op m] assms(3, 4) by simp

theorem trust_needs_security_officer_witness:
  "\<not> isTrusted (fst (snd (save_body sample_env (snd (P11AESSecretKeyObj_init (sample_key [1]))) True
     [CK_ATTRIBUTE CKA_TRUSTED (BUFFER [1]) 1] OBJECT_OP_CREATE (sample_key [1]) (open_token False))))"
proof -
  obtain rv m' tk' where b: "save_body sample_env (snd (P11AESSecretKeyObj_init (sample_key [1]))) True
    [CK_ATTRIBUTE CKA_TRUSTED (BUFFER [1]) 1] OBJECT_OP_CREATE (sample_key [1]) (open_token False) = (rv, m', tk')"
    by (metis surj_pair)
  have "\<not> isTrusted (sample_key [1])" by (simp add: isTrusted_def sample_key_def)
  with trust_needs_security_officer [OF newAES _ b] show ?thesis by (auto simp: b)
qed

text \<open>
  C23: attributes keep their kinds. An object made by any class has every attribute of the
  class, each of the kind its type prescribes: flags, numbers, strings, sets of mechanisms
  and nested templates that hold only flags, numbers and strings. Whatever template is then
  written, by whichever operation and with whatever result, all kinds stay right.
\<close>

theorem attribute_kinds_kept:
  assumes "newP11Object objClass keyType certType = Some f" and "well_kinded m0" and "f m0 = (m, tab)"
  shows "(\<forall>(t, a) \<in> set tab. \<exists>v. omap_find m t = Some v \<and> of_kind (kind_of_type t) v)
    \<and> (\<forall>n env isPrivate pTemplate op tk. well_kinded n \<longrightarrow>
         well_kinded (fst (snd (save_body env tab isPrivate pTemplate op n tk))))
    \<and> well_kinded m"
proof -
  have ok: "obj_ok (m, tab)" using newP11Object_ok [OF assms(1, 2)] assms(3) by simp
  then have "\<exists>v. omap_find m t = Some v \<and> of_kind (kind_of_type t) v" if "(t, a) \<in> set tab" for t a
    using that by (fastforce simp: obj_ok_def well_kinded_def)
  with ok show ?thesis by (auto simp: obj_ok_def save_body_kinded)
qed

theorem attribute_kinds_kept_witness:
  "\<exists>v. omap_find (fst (aes_object [1])) CKA_SENSITIVE = Some v \<and> of_kind KBool v"
proof -
  have "well_kinded (sample_key [1])" by (simp add: well_kinded_def sample_key_def)
  from attribute_kinds_kept [OF newAES this, of "fst (aes_object [1])" "snd (aes_object [1])"]
  have "well_kinded (fst (aes_object [1]))" by (simp add: aes_object_def)
  then have "of_kind (kind_of_type CKA_SENSITIVE) (BOOL True)"
    using aes_object_attributes(1) [of "[1]"] unfolding well_kinded_def by metis
  then show ?thesis by (simp add: aes_object_attributes)
qed



text \<open>
  C9: what is stored can be read back. If an attribute kept as a string, a date included,
  was updated with a value, by any operation, on a public object or, with somebody logged
  in, on a private one, where it is stored encrypted, then reading it into a buffer that is
  long enough gives exactly this value and its length, unless the attribute is secret and
  the object protected.
\<close>

theorem stored_value_reads_back:
  assumes "crypto_ok (pe_crypto env) H" and "isPrivate \<longrightarrow> (\<exists>s. tk_sdm tk = Some s \<and> sdm_inv s)"
    and "string_attr a" and "length v < 2 ^ 64"
    and "update env a isPrivate (BUFFER v) (of_nat (length v)) op m tk = (CKR_OK, m', tk1)"
    and "length v \<le> unat ulValueLen" and "\<not> (has (pa_checks a) ck7 \<and> protected m')"
  shows "\<exists>tk2. retrieve env a isPrivate (BUFFER buf) ulValueLen m' tk1
    = (CKR_OK, BUFFER (v @ drop (length v) buf), of_nat (length v), tk2)"
proof -
  obtain w where w: "seal env isPrivate v tk = (Some w, tk1)" "m' = omap_insert (pa_type a) (BYTESTR w) m"
    using string_update_stores [OF assms(3, 5, 4)] by blast
  have "\<exists>tk2 tk3. open_string env a isPrivate w tk1 = (Some v, tk2) \<and> open_string env a isPrivate w tk2 = (Some v, tk3)"
  proof (cases isPrivate)
    case True
    with assms(2) obtain s where s: "tk_sdm tk = Some s" "sdm_inv s" by blast
    have "sealed (pe_crypto env) w v tk1"
      using seal_sealed [OF assms(1) s, of v w tk1] w(1) True by (simp add: seal_def)
    with True show ?thesis using open_string_seal [OF assms(1)] by metis
  qed (use w(1) in \<open>simp add: seal_def open_string_def\<close>)
  then obtain tk2 tk3 where o: "open_string env a isPrivate w tk1 = (Some v, tk2)" "open_string env a isPrivate w tk2 = (Some v, tk3)"
    by blast
  have "pa_size a = VARIABLE" using assms(3) by (simp add: string_attr_def)
  from retrieve_string [OF _ this assms(7) o assms(6, 4)] w(2) show ?thesis by auto
qed

theorem stored_value_reads_back_witness:
  "\<exists>m' tk1 tk2. update sample_env P11AttrLabel True (BUFFER [65, 66]) 2 OBJECT_OP_SET [] (open_token False) = (CKR_OK, m', tk1)
     \<and> retrieve sample_env P11AttrLabel True (BUFFER [0, 0, 9]) 3 m' tk1 = (CKR_OK, BUFFER [65, 66, 9], 2, tk2)"
proof -
  obtain w tk1 where w: "tk_encrypt sample_crypto [65, 66] (open_token False) = (Some w, tk1)"
    using open_token_encrypts by blast
  have "sealed sample_crypto w [65, 66] tk1"
    using seal_sealed [OF sample_crypto_ok(1) _ open_sdm_inv w] by (simp add: open_token_def)
  then have "16 \<le> length w" by (rule sealed_long)
  then have u2: "update sample_env P11AttrLabel True (BUFFER [65, 66]) 2 OBJECT_OP_SET [] (open_token False)
    = (CKR_OK, [(CKA_LABEL, BYTESTR w)], tk1)"
    using w by (simp add: update_def P11AttrLabel_def isModifiable_def isTrusted_def prohibited_def permitted_def has_def
        base_updateAttr_def seal_def sample_env_def)
  then have u: "update sample_env P11AttrLabel True (BUFFER [65, 66]) (of_nat (length [65, 66 :: byte])) OBJECT_OP_SET []
    (open_token False) = (CKR_OK, [(CKA_LABEL, BYTESTR w)], tk1)" by simp
  have "crypto_ok (pe_crypto sample_env) (\<lambda>_. replicate 32 7)" by (simp add: sample_env_def sample_crypto_ok(1))
  from stored_value_reads_back [OF this _ _ _ u, where ulValueLen = 3 and buf = "[0, 0, 9]"] u2 show ?thesis
    using open_sdm_inv by (simp add: open_token_def string_attr_def P11AttrLabel_def has_def)
qed



text \<open>
  C26: the templates that create an object. If creating from a template succeeds, every
  entry names an attribute of the class, has the size the attribute prescribes and is not
  reserved for the library, and every attribute that has to be given is given.
\<close>

theorem create_template_rules:
  assumes "newP11Object objClass keyType certType = Some f"
    and "save_body env (snd (f m0)) isPrivate pTemplate OBJECT_OP_CREATE m tk = (CKR_OK, m', tk')"
  shows "(\<forall>t \<in> set pTemplate. \<exists>a. omap_find (snd (f m0)) (ca_type t) = Some a \<and> pa_type a = ca_type t
            \<and> \<not> has (pa_checks a) ck2 \<and> (pa_size a = VARIABLE \<or> pa_size a = ca_ulValueLen t))
    \<and> (\<forall>(ty, a) \<in> set (snd (f m0)). has (pa_checks a) ck1 \<longrightarrow> (\<exists>t \<in> set pTemplate. ca_type t = ty))"
proof -
  note b = save_body_ok [OF assms(2)]
  have "\<exists>a. omap_find (snd (f m0)) (ca_type t) = Some a \<and> pa_type a = ca_type t
      \<and> \<not> has (pa_checks a) ck2 \<and> (pa_size a = VARIABLE \<or> pa_size a = ca_ulValueLen t)" if "t \<in> set pTemplate" for t
    using save_loop_entries [OF conjunct1 [OF b] that] tab_all_find [OF kinds.table_law [OF assms(1)], of m0 "ca_type t"]
    by (auto simp: prohibited_def)
  moreover have "\<forall>(ty, a) \<in> set (snd (f m0)). has (pa_checks a) ck1 \<longrightarrow> (\<exists>t \<in> set pTemplate. ca_type t = ty)"
    using conjunct2 [OF b] by (auto simp: complete_def mandatory_def list_all_iff list_ex_iff)
  ultimately show ?thesis by blast
qed

theorem create_template_rules_witness:
  "fst (save_body sample_env (snd (P11AESSecretKeyObj_init (sample_key [1]))) False
     [CK_ATTRIBUTE CKA_LABEL (BUFFER [65]) 1] OBJECT_OP_CREATE (sample_key [1]) (open_token False)) \<noteq> CKR_OK"
proof
  let ?b = "save_body sample_env (snd (P11AESSecretKeyObj_init (sample_key [1]))) False
    [CK_ATTRIBUTE CKA_LABEL (BUFFER [65]) 1] OBJECT_OP_CREATE (sample_key [1]) (open_token False)"
  assume "fst ?b = CKR_OK"
  then obtain m' tk' where b: "?b = (CKR_OK, m', tk')" by (metis fst_conv surj_pair)
  have "(CKA_KEY_TYPE, P11AttrKeyType ck5) \<in> set (snd (P11AESSecretKeyObj_init (sample_key [1])))"
    by (rule map_of_SomeD)
      (simp add: object_init_defs add_attributes_def attr_class_defs)
  moreover have "has (pa_checks (P11AttrKeyType ck5)) ck1" by (simp add: P11AttrKeyType_def has_def)
  ultimately show False using create_template_rules [OF newAES b] by fastforce
qed

text \<open>
  On a session object a refused template is not undone. A data object of a session,
  public and modifiable, that is given a template with a label and then its own class is
  refused with the code for a read-only attribute; the label has been changed all the same.
\<close>

definition session_data_object :: "ulong \<Rightarrow> ulong \<Rightarrow> session_object" where
  "session_data_object slotID hSession =
     (SessionObject_new slotID hSession False)\<lparr>so_attributes := fst (P11DataObj_init [(CKA_PRIVATE, BOOL False)] :: (unit, unit, unit) p11_object)\<rparr>"

theorem session_template_partial:
  "\<exists>x'. saveTemplate_session env (snd (P11DataObj_init [(CKA_PRIVATE, BOOL False)])) False
       [CK_ATTRIBUTE CKA_LABEL (BUFFER [65]) 1, CK_ATTRIBUTE CKA_CLASS (BUFFER (host_ulong CKO_DATA)) 8] OBJECT_OP_SET
       (session_data_object slotID hSession) tk
     = (CKR_ATTRIBUTE_READ_ONLY, x', tk)
     \<and> so_getByteStringValue (session_data_object slotID hSession) CKA_LABEL = []
     \<and> so_getByteStringValue x' CKA_LABEL = [65]"
  by (simp add: saveTemplate_session_def session_data_object_def P11DataObj_init_def P11Object_init_def add_attributes_def
      attr_init_def attr_class_defs set_if_differs_def SessionObject_new_def save_body_def po_isModifiable_def update_def
      isModifiable_def isTrusted_def prohibited_def permitted_def has_def base_updateAttr_def seal_def
      so_getByteStringValue_def object_class_def)

end
