(* ===== verification/Gost_Block.thy ===== *)
theory Gost_Block
  imports Byte_String
begin

text \<open>
  The block ciphers of \<^verbatim>\<open>crypto/GOST28147.cpp\<close> and the Magma part of
  \<^verbatim>\<open>crypto/GOSTSymmetric.cpp\<close>, on 32-bit words with wrapping addition. Both are
  Feistel ciphers; that such a cipher is undone by running it with the keys in the opposite
  order is proved once, in the locale \<open>feistel\<close>.
\<close>

unbundle bit_operations_syntax

type_synonym word32 = "32 word"

section \<open>Words and bytes\<close>

definition loadLE32 :: "bytes \<Rightarrow> word32" where
  "loadLE32 p =
     ucast (p ! 0) OR push_bit 8 (ucast (p ! 1)) OR push_bit 16 (ucast (p ! 2)) OR push_bit 24 (ucast (p ! 3))"

definition storeLE32 :: "word32 \<Rightarrow> bytes" where
  "storeLE32 v = [ucast v, ucast (drop_bit 8 v), ucast (drop_bit 16 v), ucast (drop_bit 24 v)]"

definition loadBE32 :: "bytes \<Rightarrow> word32" where
  "loadBE32 p =
     push_bit 24 (ucast (p ! 0)) OR push_bit 16 (ucast (p ! 1)) OR push_bit 8 (ucast (p ! 2)) OR ucast (p ! 3)"

definition storeBE32 :: "word32 \<Rightarrow> bytes" where
  "storeBE32 v = [ucast (drop_bit 24 v), ucast (drop_bit 16 v), ucast (drop_bit 8 v), ucast v]"

lemma length_store32 [simp]: "length (storeLE32 v) = 4" "length (storeBE32 v) = 4"
  by (simp_all add: storeLE32_def storeBE32_def)

lemma load_store32 [simp]: "loadLE32 (storeLE32 v @ r) = v" "loadBE32 (storeBE32 v @ r) = v"
proof -
  show "loadLE32 (storeLE32 v @ r) = v"
  proof (rule bit_word_eqI)
    fix n assume "n < LENGTH(32)"
    then show "bit (loadLE32 (storeLE32 v @ r)) n = bit v n"
      by (cases "n < 8"; cases "n < 16"; cases "n < 24"; auto simp: loadLE32_def storeLE32_def bit_simps)
  qed
  show "loadBE32 (storeBE32 v @ r) = v"
  proof (rule bit_word_eqI)
    fix n assume "n < LENGTH(32)"
    then show "bit (loadBE32 (storeBE32 v @ r)) n = bit v n"
      by (cases "n < 8"; cases "n < 16"; cases "n < 24"; auto simp: loadBE32_def storeBE32_def bit_simps)
  qed
qed

lemma length4: "length (p :: 'a list) = 4 \<longleftrightarrow> (\<exists>a b c d. p = [a, b, c, d])"
  by (auto simp: length_Suc_conv numeral_eq_Suc)

lemma no_high_bits [simp]:
  "\<not> bit (a :: byte) (8 + n)" "\<not> bit (a :: byte) (16 + n)" "\<not> bit (a :: byte) (24 + n)"
  by (auto dest: bit_imp_le_length)

lemma store_load32:
  assumes "length p = 4"
  shows "storeLE32 (loadLE32 p) = p" "storeBE32 (loadBE32 p) = p"
proof -
  obtain a b c d where p: "p = [a, b, c, d]" using assms by (auto simp: length4)
  show "storeLE32 (loadLE32 p) = p" "storeBE32 (loadBE32 p) = p"
    by (auto simp: p loadLE32_def storeLE32_def loadBE32_def storeBE32_def bit_simps
        intro!: bit_word_eqI)
qed

lemma load_take32: "loadLE32 (take 4 p) = loadLE32 p" "loadBE32 (take 4 p) = loadBE32 p"
  by (simp_all add: loadLE32_def loadBE32_def)

section \<open>Feistel ciphers\<close>

text \<open>
  One round on the pair of the active and the passive half; the cipher is all rounds with
  the halves exchanged at the end.
\<close>

locale feistel =
  fixes G :: "'k \<Rightarrow> word32 \<Rightarrow> word32"
begin

definition half_round :: "'k \<Rightarrow> word32 \<times> word32 \<Rightarrow> word32 \<times> word32" where
  "half_round k = (\<lambda>(a, b). (b XOR G k a, a))"

definition rounds :: "'k list \<Rightarrow> word32 \<times> word32 \<Rightarrow> word32 \<times> word32" where
  "rounds ks x = prod.swap (fold half_round ks x)"

lemma half_round_back: "half_round k (prod.swap (half_round k x)) = prod.swap x"
  by (cases x) (simp add: half_round_def xor.assoc)

lemma fold_back: "fold half_round (rev ks) (prod.swap (fold half_round ks x)) = prod.swap x"
proof (induction ks arbitrary: x)
  case (Cons k ks)
  have "fold half_round (rev (k # ks)) (prod.swap (fold half_round (k # ks) x))
    = half_round k (fold half_round (rev ks) (prod.swap (fold half_round ks (half_round k x))))" by simp
  then show ?case by (simp add: Cons.IH half_round_back)
qed simp

lemma rounds_inverse: "rounds (rev ks) (rounds ks x) = x"
  by (simp add: rounds_def fold_back)

end

section \<open>GOST 28147-89\<close>

definition testPacked :: bytes where
  "testPacked =
     [0x4c, 0xde, 0x38, 0x9c, 0x29, 0x89, 0xef, 0xb6, 0xff, 0xeb, 0x56, 0xc5, 0x5e, 0xc2, 0x9b, 0x02,
      0x98, 0x75, 0x61, 0x3b, 0x11, 0x3f, 0x89, 0x60, 0x03, 0x97, 0x0c, 0x79, 0x8a, 0xa1, 0xd5, 0x5d,
      0xe2, 0x10, 0xad, 0x43, 0x37, 0x5d, 0xb3, 0x8e, 0xb4, 0x2c, 0x77, 0xe7, 0xcd, 0x46, 0xca, 0xfa,
      0xd6, 0x6a, 0x20, 0x1f, 0x70, 0xf4, 0x1e, 0xa4, 0xab, 0x03, 0xf2, 0x21, 0x65, 0xb8, 0x44, 0xd8]"

definition aPacked :: bytes where
  "aPacked =
     [0x93, 0xee, 0xb3, 0x1b, 0x67, 0x47, 0x5a, 0xda, 0x3e, 0x6a, 0x1d, 0x2f, 0x29, 0x2c, 0x9c, 0x95,
      0x88, 0xbd, 0x81, 0x70, 0xba, 0x31, 0xd2, 0xac, 0x1f, 0xd3, 0xf0, 0x6e, 0x70, 0x89, 0x0b, 0x08,
      0xa5, 0xc0, 0xe7, 0x86, 0x42, 0xf2, 0x45, 0xc2, 0xe6, 0x5b, 0x29, 0x43, 0xfc, 0xa4, 0x34, 0x59,
      0xcb, 0x0f, 0xc8, 0xf1, 0x04, 0x78, 0x7f, 0x37, 0xdd, 0x15, 0xae, 0xbd, 0x51, 0x96, 0x66, 0xe4]"

definition bPacked :: bytes where
  "bPacked =
     [0x80, 0xe7, 0x28, 0x50, 0x41, 0xc5, 0x73, 0x24, 0xb2, 0x00, 0xc2, 0xab, 0x1a, 0xad, 0xf6, 0xbe,
      0x34, 0x9b, 0x94, 0x98, 0x5d, 0x26, 0x5d, 0x13, 0x05, 0xd1, 0xae, 0xc7, 0x9c, 0xb2, 0xbb, 0x31,
      0x29, 0x73, 0x1c, 0x7a, 0xe7, 0x5a, 0x41, 0x42, 0xa3, 0x8c, 0x07, 0xd9, 0xcf, 0xff, 0xdf, 0x06,
      0xdb, 0x34, 0x6a, 0x6f, 0x68, 0x6e, 0x80, 0xfd, 0x76, 0x19, 0xe9, 0x85, 0xfe, 0x48, 0x35, 0xec]"

definition cPacked :: bytes where
  "cPacked =
     [0x10, 0x83, 0x8c, 0xa7, 0xb1, 0x26, 0xd9, 0x94, 0xc7, 0x50, 0xbb, 0x60, 0x2d, 0x01, 0x01, 0x85,
      0x9b, 0x45, 0x48, 0xda, 0xd4, 0x9d, 0x5e, 0xe2, 0x05, 0xfa, 0x12, 0x2f, 0xf2, 0xa8, 0x24, 0x0e,
      0x48, 0x3b, 0x97, 0xfc, 0x5e, 0x72, 0x33, 0x36, 0x8f, 0xc9, 0xc6, 0x51, 0xec, 0xd7, 0xe5, 0xbb,
      0xa9, 0x6e, 0x6a, 0x4d, 0x7a, 0xef, 0xf0, 0x19, 0x66, 0x1c, 0xaf, 0xc3, 0x33, 0xb4, 0x7d, 0x78]"

definition dPacked :: bytes where
  "dPacked =
     [0xfb, 0x11, 0x08, 0x31, 0xc6, 0xc5, 0xc0, 0x0a, 0x23, 0xbe, 0x8f, 0x66, 0xa4, 0x0c, 0x93, 0xf8,
      0x6c, 0xfa, 0xd2, 0x1f, 0x4f, 0xe7, 0x25, 0xeb, 0x5e, 0x60, 0xae, 0x90, 0x02, 0x5d, 0xbb, 0x24,
      0x77, 0xa6, 0x71, 0xdc, 0x9d, 0xd2, 0x3a, 0x83, 0xe8, 0x4b, 0x64, 0xc5, 0xd0, 0x84, 0x57, 0x49,
      0x15, 0x99, 0x4c, 0xb7, 0xba, 0x33, 0xe9, 0xad, 0x89, 0x7f, 0xfd, 0x52, 0x31, 0x28, 0x16, 0x7e]"

definition meshConstant :: bytes where
  "meshConstant =
     [0x69, 0x00, 0x72, 0x22, 0x64, 0xc9, 0x04, 0x23, 0x8d, 0x3a, 0xdb, 0x96, 0x46, 0xe9, 0x2a, 0xc4,
      0x18, 0xfe, 0xac, 0x94, 0x00, 0xed, 0x07, 0x12, 0xc0, 0x86, 0xdc, 0xc2, 0xef, 0x4c, 0xa9, 0x2b]"

definition zSBox :: "bytes list" where
  "zSBox =
     [[12, 4, 6, 2, 10, 5, 11, 9, 14, 8, 13, 7, 0, 3, 15, 1],
      [6, 8, 2, 3, 9, 10, 5, 12, 1, 14, 4, 7, 11, 13, 0, 15],
      [11, 3, 5, 8, 2, 15, 10, 13, 14, 1, 7, 4, 12, 9, 6, 0],
      [12, 8, 2, 1, 13, 4, 15, 6, 7, 0, 10, 5, 3, 14, 9, 11],
      [7, 15, 5, 10, 8, 1, 6, 13, 0, 9, 3, 14, 11, 4, 2, 12],
      [5, 13, 15, 6, 9, 2, 12, 10, 11, 7, 8, 1, 4, 3, 14, 0],
      [8, 14, 2, 5, 6, 9, 1, 12, 15, 4, 11, 0, 13, 10, 3, 7],
      [1, 7, 14, 13, 0, 5, 8, 3, 4, 15, 10, 6, 9, 12, 11, 2]]"

datatype param_set = TEST | CRYPTOPRO_A | CRYPTOPRO_B | CRYPTOPRO_C | CRYPTOPRO_D | TC26_Z

record gost28147 =
  g_paramSet :: param_set
  g_keyed :: bool
  g_key :: "word32 list"
  g_sbox :: "bytes list"

definition packed_box :: "param_set \<Rightarrow> bytes" where
  "packed_box ps =
     (case ps of CRYPTOPRO_A \<Rightarrow> aPacked | CRYPTOPRO_B \<Rightarrow> bPacked | CRYPTOPRO_C \<Rightarrow> cPacked
       | CRYPTOPRO_D \<Rightarrow> dPacked | _ \<Rightarrow> testPacked)"

definition loadSBox :: "gost28147 \<Rightarrow> gost28147" where
  "loadSBox g =
     (if g_paramSet g = TC26_Z then g\<lparr>g_sbox := zSBox\<rparr>
      else
        (let p = packed_box (g_paramSet g)
         in g\<lparr>g_sbox :=
               map (\<lambda>b. map (\<lambda>v. let x = p ! (v * 4 + b div 2) in if b mod 2 = 0 then drop_bit 4 x else x AND 15)
                          [0..<16]) [0..<8]\<rparr>))"

definition GOST28147_new :: gost28147 where
  "GOST28147_new = loadSBox \<lparr>g_paramSet = CRYPTOPRO_A, g_keyed = False, g_key = replicate 8 0, g_sbox = []\<rparr>"

definition param_set_of :: "byte \<Rightarrow> param_set" where
  "param_set_of n =
     (if n = 0 then TEST else if n = 1 then CRYPTOPRO_A else if n = 2 then CRYPTOPRO_B
      else if n = 3 then CRYPTOPRO_C else CRYPTOPRO_D)"

definition setParamSet :: "bytes \<Rightarrow> gost28147 \<Rightarrow> bool \<times> gost28147" where
  "setParamSet oid g =
     (if length oid = 0 then (True, loadSBox (g\<lparr>g_paramSet := CRYPTOPRO_A\<rparr>))
      else if length oid = 9 \<and> take 8 oid = [0x06, 0x07, 0x2a, 0x85, 0x03, 0x02, 0x02, 0x1f] \<and> oid ! 8 \<le> 4
      then (True, loadSBox (g\<lparr>g_paramSet := param_set_of (oid ! 8)\<rparr>))
      else if oid = [0x06, 0x09, 0x2a, 0x85, 0x03, 0x07, 0x01, 0x02, 0x05, 0x01, 0x01]
      then (True, loadSBox (g\<lparr>g_paramSet := TC26_Z\<rparr>))
      else (False, g))"

definition g_setKey :: "bytes \<Rightarrow> gost28147 \<Rightarrow> bool \<times> gost28147" where
  "g_setKey p g =
     (if length p \<noteq> 32 then (False, g)
      else (True, g\<lparr>g_key := map (\<lambda>i. loadLE32 (drop (i * 4) p)) [0..<8], g_keyed := True\<rparr>))"

text \<open>The substitution of the eight nibbles; then a rotation by eleven.\<close>

definition nibble :: "word32 \<Rightarrow> nat \<Rightarrow> nat" where
  "nibble v i = unat (drop_bit (4 * i) v AND 15)"

definition sbox_word :: "bytes list \<Rightarrow> word32 \<Rightarrow> word32" where
  "sbox_word box v = fold (\<lambda>i r. r OR push_bit (4 * i) (ucast (box ! i ! nibble v i))) [0..<8] 0"

definition rotl11 :: "word32 \<Rightarrow> word32" where
  "rotl11 r = push_bit 11 r OR drop_bit 21 r"

definition g_round :: "gost28147 \<Rightarrow> word32 \<Rightarrow> word32" where
  "g_round g v = rotl11 (sbox_word (g_sbox g) v)"

definition key_index :: "bool \<Rightarrow> nat \<Rightarrow> nat" where
  "key_index dec i =
     (if dec then (if i < 8 then i else 7 - i mod 8) else (if i < 24 then i mod 8 else 7 - i mod 8))"

definition crypt_step :: "gost28147 \<Rightarrow> bool \<Rightarrow> nat \<Rightarrow> word32 \<times> word32 \<Rightarrow> word32 \<times> word32" where
  "crypt_step g dec i =
     (\<lambda>(n1, n2). let next = n2 XOR g_round g (n1 + g_key g ! key_index dec i)
                 in if i = 31 then (n1, next) else (next, n1))"

text \<open>Without a key the output is left as it was: \<open>None\<close>.\<close>

definition g_crypt :: "gost28147 \<Rightarrow> bool \<Rightarrow> bytes \<Rightarrow> bytes option" where
  "g_crypt g dec inp =
     (if \<not> g_keyed g then None
      else
        (let (n1, n2) = fold (crypt_step g dec) [0..<32] (loadLE32 inp, loadLE32 (drop 4 inp))
         in Some (storeLE32 n1 @ storeLE32 n2)))"

definition g_encryptBlock :: "gost28147 \<Rightarrow> bytes \<Rightarrow> bytes option" where
  "g_encryptBlock g inp = g_crypt g False inp"

definition g_decryptBlock :: "gost28147 \<Rightarrow> bytes \<Rightarrow> bytes option" where
  "g_decryptBlock g inp = g_crypt g True inp"

definition macBlock :: "gost28147 \<Rightarrow> bytes \<Rightarrow> bytes \<Rightarrow> bytes" where
  "macBlock g state block =
     (let (n1, n2) =
        fold (\<lambda>i (n1, n2). (n2 XOR g_round g (n1 + g_key g ! (i mod 8)), n1)) [0..<16]
          (loadLE32 state XOR loadLE32 block, loadLE32 (drop 4 state) XOR loadLE32 (drop 4 block))
      in storeLE32 n1 @ storeLE32 n2)"

text \<open>
  The new key is the mesh constant decrypted under the old one. The four calls write into an
  uninitialised array when there is no key; here that is the case without a result.
\<close>

definition meshKey :: "bytes option \<Rightarrow> gost28147 \<Rightarrow> (bytes option \<times> gost28147) option" where
  "meshKey iv g =
     (if \<not> g_keyed g then None
      else
        (let next = concat (map (\<lambda>i. the (g_decryptBlock g (drop (8 * i) meshConstant))) [0..<4]);
             g = snd (g_setKey next g)
         in Some (map_option (\<lambda>iv. the (g_encryptBlock g iv)) iv, g)))"

definition key_sums :: "bytes \<Rightarrow> byte \<Rightarrow> word32 \<times> word32" where
  "key_sums k u =
     fold (\<lambda>j (s1, s2). let w = loadLE32 (drop (4 * j) k)
                        in if bit u j then (s1 + w, s2) else (s1, s2 + w)) [0..<8] (0, 0)"

fun cfb_blocks :: "gost28147 \<Rightarrow> nat \<Rightarrow> bytes \<Rightarrow> bytes \<Rightarrow> bytes" where
  "cfb_blocks g 0 iv k = []"
| "cfb_blocks g (Suc n) iv k =
     (let gamma = the (g_encryptBlock g iv);
          c = map2 (XOR) (take 8 k) gamma
      in c @ cfb_blocks g n c (drop 8 k))"

definition diversify_step :: "byte \<Rightarrow> bytes \<times> gost28147 \<Rightarrow> bytes \<times> gost28147" where
  "diversify_step u = (\<lambda>(k, g).
     (let (s1, s2) = key_sums k u;
          g = snd (g_setKey k g)
      in (cfb_blocks g 4 (storeLE32 s1 @ storeLE32 s2) k, g)))"

definition diversifyCryptoPro :: "bytes \<Rightarrow> bytes \<Rightarrow> gost28147 \<Rightarrow> bytes \<times> gost28147" where
  "diversifyCryptoPro k ukm g = fold diversify_step (take 8 ukm) (k, g)"

section \<open>Magma\<close>

definition magmaPi :: "bytes list" where
  "magmaPi =
     [[12, 4, 6, 2, 10, 5, 11, 9, 14, 8, 13, 7, 0, 3, 15, 1],
      [6, 8, 2, 3, 9, 10, 5, 12, 1, 14, 4, 7, 11, 13, 0, 15],
      [11, 3, 5, 8, 2, 15, 10, 13, 14, 1, 7, 4, 12, 9, 6, 0],
      [12, 8, 2, 1, 13, 4, 15, 6, 7, 0, 10, 5, 3, 14, 9, 11],
      [7, 15, 5, 10, 8, 1, 6, 13, 0, 9, 3, 14, 11, 4, 2, 12],
      [5, 13, 15, 6, 9, 2, 12, 10, 11, 7, 8, 1, 4, 3, 14, 0],
      [8, 14, 2, 5, 6, 9, 1, 12, 15, 4, 11, 0, 13, 10, 3, 7],
      [1, 7, 14, 13, 0, 5, 8, 3, 4, 15, 10, 6, 9, 12, 11, 2]]"

definition magmaG :: "word32 \<Rightarrow> word32 \<Rightarrow> word32" where
  "magmaG k a = rotl11 (sbox_word magmaPi (k + a))"

definition expandMagmaKey :: "bytes \<Rightarrow> word32 list" where
  "expandMagmaKey key = map (\<lambda>i. loadBE32 (drop (i * 4) key)) [0..<8]"

definition magma_step :: "word32 list \<Rightarrow> bool \<Rightarrow> nat \<Rightarrow> word32 \<times> word32 \<Rightarrow> word32 \<times> word32" where
  "magma_step key dec r = (\<lambda>(a1, a0). (a0, a1 XOR magmaG (key ! key_index dec r) a0))"

definition cryptMagma :: "word32 list \<Rightarrow> bool \<Rightarrow> bytes \<Rightarrow> bytes" where
  "cryptMagma key dec inp =
     (let (a1, a0) = fold (magma_step key dec) [0..<31] (loadBE32 inp, loadBE32 (drop 4 inp));
          result = a1 XOR magmaG (key ! 0) a0
      in storeBE32 result @ storeBE32 a0)"

section \<open>Decryption undoes encryption\<close>

lemma map_upt_cons: "a < b \<Longrightarrow> map f [a..<b] = f a # map f [Suc a..<b]"
  by (simp add: upt_rec)

lemma key_index_rev: "map (key_index True) [0..<32] = rev (map (key_index False) [0..<32])"
  by (simp add: upt_rec key_index_def)

definition schedule :: "word32 list \<Rightarrow> bool \<Rightarrow> word32 list" where
  "schedule key dec = map (\<lambda>i. key ! key_index dec i) [0..<32]"

lemma schedule_rev: "schedule key True = rev (schedule key False)"
  using arg_cong [OF key_index_rev, of "map (\<lambda>i. key ! i)"] by (simp add: schedule_def o_def rev_map)

lemma schedule_back: "schedule key (\<not> dec) = rev (schedule key dec)"
  by (cases dec) (simp_all add: schedule_rev)

lemma upt_32: "[0..<32] = [0..<31] @ [31 :: nat]"
  by (simp add: upt_rec)

interpretation g89: feistel "\<lambda>k a. rotl11 (sbox_word box (a + k))" for box .

interpretation magma: feistel magmaG .

lemma g_crypt_rounds:
  "fold (crypt_step g dec) [0..<32] x = g89.rounds (g_sbox g) (schedule (g_key g) dec) x"
proof -
  define h where "h i = g89.half_round (g_sbox g) (g_key g ! key_index dec i)" for i
  have "fold (crypt_step g dec) [0..<31] x = fold h [0..<31] x"
    by (rule fold_cong) (auto simp: h_def fun_eq_iff crypt_step_def g89.half_round_def g_round_def Let_def)
  moreover have "crypt_step g dec 31 y = prod.swap (h 31 y)" for y
    by (cases y) (simp add: h_def crypt_step_def g89.half_round_def g_round_def Let_def)
  ultimately have "fold (crypt_step g dec) [0..<32] x = prod.swap (fold h [0..<32] x)"
    by (simp only: upt_32 fold_append fold_Cons fold_Nil o_apply id_apply)
  then show ?thesis by (simp add: g89.rounds_def schedule_def fold_map h_def [abs_def] o_def)
qed

lemma g_crypt_Some:
  "g_keyed g \<Longrightarrow> g_crypt g dec inp = Some (let (n1, n2) = g89.rounds (g_sbox g) (schedule (g_key g) dec)
      (loadLE32 inp, loadLE32 (drop 4 inp)) in storeLE32 n1 @ storeLE32 n2)"
  by (simp add: g_crypt_def g_crypt_rounds split: prod.split)

lemma store_load_pair:
  assumes "length p = 8"
  shows "storeLE32 (loadLE32 p) @ storeLE32 (loadLE32 (drop 4 p)) = p"
    "storeBE32 (loadBE32 p) @ storeBE32 (loadBE32 (drop 4 p)) = p"
proof -
  have l: "length (take 4 p) = 4" "length (drop 4 p) = 4" using assms by simp_all
  show "storeLE32 (loadLE32 p) @ storeLE32 (loadLE32 (drop 4 p)) = p"
    "storeBE32 (loadBE32 p) @ storeBE32 (loadBE32 (drop 4 p)) = p"
    using store_load32 [OF l(1)] store_load32 [OF l(2)] by (simp_all only: load_take32 append_take_drop_id)
qed

lemma drop_store [simp]: "drop 4 (storeLE32 v @ r) = r" "drop 4 (storeBE32 v @ r) = r"
  by simp_all

lemma load_store_all [simp]: "loadLE32 (storeLE32 v) = v" "loadBE32 (storeBE32 v) = v"
  using load_store32 [where r = "[]"] by simp_all

lemma g_crypt_length: "g_crypt g dec inp = Some c \<Longrightarrow> length c = 8"
  by (auto simp: g_crypt_def split: if_splits prod.splits)

lemma g_crypt_back:
  assumes "g_keyed g" "length inp = 8" "g_crypt g dec inp = Some c"
  shows "g_crypt g (\<not> dec) c = Some inp"
proof -
  obtain n1 n2 where n: "g89.rounds (g_sbox g) (schedule (g_key g) dec) (loadLE32 inp, loadLE32 (drop 4 inp)) = (n1, n2)"
    by (metis surj_pair)
  then have "g89.rounds (g_sbox g) (schedule (g_key g) (\<not> dec)) (n1, n2) = (loadLE32 inp, loadLE32 (drop 4 inp))"
    by (simp add: schedule_back g89.rounds_inverse flip: n)
  then show ?thesis
    using assms(3) n by (auto simp: g_crypt_Some [OF assms(1)] store_load_pair [OF assms(2)])
qed

lemma magma_rounds:
  "cryptMagma key dec inp = (let (a0, a1) = magma.rounds (schedule key dec) (loadBE32 (drop 4 inp), loadBE32 inp)
     in storeBE32 a1 @ storeBE32 a0)"
proof -
  define h where "h i = magma.half_round (key ! key_index dec i)" for i
  have step: "magma_step key dec i (prod.swap x) = prod.swap (h i x)" for i x
    by (cases x) (simp add: magma_step_def h_def magma.half_round_def)
  have fold: "fold (magma_step key dec) is (prod.swap x) = prod.swap (fold h is x)" for "is" x
    by (induction "is" arbitrary: x) (simp_all add: step)
  obtain b0 b1 where b: "fold h [0..<31] (loadBE32 (drop 4 inp), loadBE32 inp) = (b0, b1)" by (metis surj_pair)
  have "key_index dec 31 = 0" by (simp add: key_index_def)
  then have "fold h [0..<32] (loadBE32 (drop 4 inp), loadBE32 inp) = (b1 XOR magmaG (key ! 0) b0, b0)"
    by (simp only: upt_32 fold_append fold_Cons fold_Nil o_apply id_apply b) (simp add: h_def magma.half_round_def)
  then have "magma.rounds (schedule key dec) (loadBE32 (drop 4 inp), loadBE32 inp) = (b0, b1 XOR magmaG (key ! 0) b0)"
    by (simp add: magma.rounds_def schedule_def fold_map h_def [abs_def] o_def)
  moreover have "fold (magma_step key dec) [0..<31] (loadBE32 inp, loadBE32 (drop 4 inp)) = (b1, b0)"
    using fold [of "[0..<31]" "(loadBE32 (drop 4 inp), loadBE32 inp)"] b by simp
  ultimately show ?thesis by (simp add: cryptMagma_def Let_def)
qed

lemma length_cryptMagma [simp]: "length (cryptMagma key dec inp) = 8"
  by (simp add: magma_rounds split: prod.split)

lemma cryptMagma_back:
  assumes "length inp = 8"
  shows "cryptMagma key (\<not> dec) (cryptMagma key dec inp) = inp"
proof -
  let ?in = "(loadBE32 (drop 4 inp), loadBE32 inp)"
  obtain a0 a1 where a: "magma.rounds (schedule key dec) ?in = (a0, a1)" by (metis surj_pair)
  then have "magma.rounds (schedule key (\<not> dec)) (a0, a1) = ?in"
    by (simp add: schedule_back magma.rounds_inverse flip: a)
  then show ?thesis by (simp add: magma_rounds a store_load_pair [OF assms])
qed

end
