(* ===== verification/Kuznechik.thy ===== *)
theory Kuznechik
  imports Gost_Block
begin

text \<open>
  The cipher Kuznechik of \<^verbatim>\<open>crypto/GOSTSymmetric.cpp\<close>. The linear transformation is given by
  its definition (\<open>kuzLTransform\<close>) and, as the ciphers use it, by tables built from the
  definition. Shown: the table lookups compute exactly the definition, because it is
  linear (locale \<open>block_linear\<close>, one instance for the transformation and one for its
  inverse), and decryption undoes encryption for every list of round keys.
\<close>

unbundle bit_operations_syntax

section \<open>The field and the linear transformation\<close>

definition kuzPi :: bytes where
  "kuzPi =
     [252, 238, 221, 17, 207, 110, 49, 22, 251, 196, 250, 218, 35, 197, 4, 77,
      233, 119, 240, 219, 147, 46, 153, 186, 23, 54, 241, 187, 20, 205, 95, 193,
      249, 24, 101, 90, 226, 92, 239, 33, 129, 28, 60, 66, 139, 1, 142, 79,
      5, 132, 2, 174, 227, 106, 143, 160, 6, 11, 237, 152, 127, 212, 211, 31,
      235, 52, 44, 81, 234, 200, 72, 171, 242, 42, 104, 162, 253, 58, 206, 204,
      181, 112, 14, 86, 8, 12, 118, 18, 191, 114, 19, 71, 156, 183, 93, 135,
      21, 161, 150, 41, 16, 123, 154, 199, 243, 145, 120, 111, 157, 158, 178, 177,
      50, 117, 25, 61, 255, 53, 138, 126, 109, 84, 198, 128, 195, 189, 13, 87,
      223, 245, 36, 169, 62, 168, 67, 201, 215, 121, 214, 246, 124, 34, 185, 3,
      224, 15, 236, 222, 122, 148, 176, 188, 220, 232, 40, 80, 78, 51, 10, 74,
      167, 151, 96, 115, 30, 0, 98, 68, 26, 184, 56, 130, 100, 159, 38, 65,
      173, 69, 70, 146, 39, 94, 85, 47, 140, 163, 165, 125, 105, 213, 149, 59,
      7, 88, 179, 64, 134, 172, 29, 247, 48, 55, 107, 228, 136, 217, 231, 137,
      225, 27, 131, 73, 76, 63, 248, 254, 141, 83, 170, 144, 202, 216, 133, 97,
      32, 113, 103, 164, 45, 43, 9, 91, 203, 155, 37, 208, 190, 229, 108, 82,
      89, 166, 116, 210, 230, 244, 180, 192, 209, 102, 175, 194, 57, 75, 99, 182]"

definition kuzL :: bytes where
  "kuzL = [148, 32, 133, 16, 194, 192, 1, 251, 1, 192, 194, 16, 133, 32, 148, 1]"

definition xtime :: "byte \<Rightarrow> byte" where
  "xtime a = push_bit 1 a XOR (if a AND 0x80 \<noteq> 0 then 0xc3 else 0)"

text \<open>The loop of \<^verbatim>\<open>gfMul\<close> as written, and the same with its measure.\<close>

partial_function (option) gfMul_while :: "byte \<Rightarrow> byte \<Rightarrow> byte \<Rightarrow> byte option" where
  "gfMul_while a b r =
     (if b = 0 then Some r
      else gfMul_while (xtime a) (drop_bit 1 b) (if b AND 1 \<noteq> 0 then r XOR a else r))"

function gfMul_loop :: "byte \<Rightarrow> byte \<Rightarrow> byte \<Rightarrow> byte" where
  "gfMul_loop a b r =
     (if b = 0 then r
      else gfMul_loop (xtime a) (drop_bit 1 b) (if b AND 1 \<noteq> 0 then r XOR a else r))"
  by pat_completeness auto
termination
  by (relation "measure (\<lambda>(a, b, r). unat b)")
    (auto simp: unat_div_distrib drop_bit_eq_div unat_gt_0)

declare gfMul_loop.simps [simp del]

lemma gfMul_while_loop: "gfMul_while a b r = Some (gfMul_loop a b r)"
proof (induction a b r rule: gfMul_loop.induct)
  case (1 a b r)
  then show ?case by (subst gfMul_while.simps, subst gfMul_loop.simps) simp
qed

definition gfMul :: "byte \<Rightarrow> byte \<Rightarrow> byte" where
  "gfMul a b = the (gfMul_while a b 0)"

definition kuzR :: "bytes \<Rightarrow> bytes" where
  "kuzR x = fold (\<lambda>i z. z XOR gfMul (x ! i) (kuzL ! i)) [0..<16] 0 # take 15 x"

definition kuzRInv :: "bytes \<Rightarrow> bytes" where
  "kuzRInv x = take 15 (drop 1 x) @ [fold (\<lambda>i z. z XOR gfMul (x ! Suc i) (kuzL ! i)) [0..<15] (x ! 0)]"

definition kuzLTransform :: "bytes \<Rightarrow> bytes" where
  "kuzLTransform x = (kuzR ^^ 16) x"

definition kuzLInv :: "bytes \<Rightarrow> bytes" where
  "kuzLInv x = (kuzRInv ^^ 16) x"

section \<open>The tables\<close>

text \<open>
  An entry is a block in two halves. The code holds a half in a \<^verbatim>\<open>uint64_t\<close>, filled and read
  back by \<^verbatim>\<open>memcpy\<close>; the exclusive or of two of them is that of their bytes.
\<close>

type_synonym halves = "bytes \<times> bytes"

definition xorBlock :: "bytes \<Rightarrow> bytes \<Rightarrow> bytes" where
  "xorBlock a b = map2 (XOR) a b"

definition pack :: "bytes \<Rightarrow> halves" where
  "pack block = (take 8 block, drop 8 block)"

record kuznechik_tables =
  ls :: "halves list list"
  linv :: "halves list list"
  constants :: "bytes list"
  sinv :: bytes

definition unit_block :: "nat \<Rightarrow> byte \<Rightarrow> bytes" where
  "unit_block position value = (replicate 16 0)[position := value]"

definition kuznechikTables :: kuznechik_tables where
  "kuznechikTables =
     \<lparr>ls = map (\<lambda>position. map (\<lambda>value. pack (kuzLTransform (unit_block position (kuzPi ! value)))) [0..<256]) [0..<16],
      linv = map (\<lambda>position. map (\<lambda>value. pack (kuzLInv (unit_block position (of_nat value)))) [0..<256]) [0..<16],
      constants = map (\<lambda>i. kuzLTransform (unit_block 15 (of_nat i))) [1..<33],
      sinv = fold (\<lambda>i s. s[unat (kuzPi ! i) := of_nat i]) [0..<256] (replicate 256 0)\<rparr>"

definition look_up :: "halves list list \<Rightarrow> bytes \<Rightarrow> bytes" where
  "look_up tab x =
     (let (low, high) =
        fold (\<lambda>i (low, high). let (l, h) = tab ! i ! unat (x ! i) in (xorBlock low l, xorBlock high h))
          [0..<16] (replicate 8 0, replicate 8 0)
      in low @ high)"

definition kuzLS :: "bytes \<Rightarrow> kuznechik_tables \<Rightarrow> bytes" where
  "kuzLS x t = look_up (ls t) x"

definition kuzLInvTabled :: "bytes \<Rightarrow> kuznechik_tables \<Rightarrow> bytes" where
  "kuzLInvTabled x t = look_up (linv t) x"

section \<open>The cipher\<close>

definition schedule_step ::
  "nat \<Rightarrow> bytes list \<times> bytes \<times> bytes \<Rightarrow> bytes list \<times> bytes \<times> bytes" where
  "schedule_step i = (\<lambda>(rk, a, b).
     (let t = xorBlock (kuzLS (xorBlock a (constants kuznechikTables ! (i - 1))) kuznechikTables) b;
          (a, b) = (t, a)
      in (if i mod 8 = 0 then rk[(i div 8) * 2 := a, (i div 8) * 2 + 1 := b] else rk, a, b)))"

definition expandKuznechikKey :: "bytes \<Rightarrow> bytes list" where
  "expandKuznechikKey key =
     (let rk = (replicate 10 (replicate 16 0))[0 := take 16 key, 1 := take 16 (drop 16 key)]
      in fst (fold schedule_step [1..<33] (rk, take 16 key, take 16 (drop 16 key))))"

definition encryptKuznechik :: "bytes list \<Rightarrow> bytes \<Rightarrow> bytes" where
  "encryptKuznechik rk inp =
     xorBlock (fold (\<lambda>i x. kuzLS (xorBlock x (rk ! i)) kuznechikTables) [0..<9] inp) (rk ! 9)"

definition unsubstitute :: "bytes \<Rightarrow> bytes" where
  "unsubstitute x = map (\<lambda>b. sinv kuznechikTables ! unat b) x"

definition decryptKuznechik :: "bytes list \<Rightarrow> bytes \<Rightarrow> bytes" where
  "decryptKuznechik rk inp =
     fold (\<lambda>i x. xorBlock (unsubstitute (kuzLInvTabled x kuznechikTables)) (rk ! (i - 1))) (rev [1..<10])
       (xorBlock inp (rk ! 9))"

section \<open>Linearity\<close>

lemma fold_xor_add:
  fixes z w :: byte
  shows "fold (\<lambda>i z. z XOR (f i XOR g i)) is (z XOR w) = fold (\<lambda>i z. z XOR f i) is z XOR fold (\<lambda>i z. z XOR g i) is w"
proof (induction "is" arbitrary: z w)
  case (Cons i "is")
  have "(z XOR w) XOR (f i XOR g i) = (z XOR f i) XOR (w XOR g i)" by (simp add: ac_simps)
  then show ?case by (simp add: Cons)
qed simp

lemma fold_xor_acc: "fold (\<lambda>i z. z XOR f i) is (z :: byte) = z XOR fold (\<lambda>i z. z XOR f i) is 0"
proof (induction "is" arbitrary: z)
  case (Cons i "is")
  show ?case using Cons.IH [of "z XOR f i"] Cons.IH [of "f i"] by (simp add: ac_simps)
qed simp

lemma xtime_add: "xtime (a XOR a') = xtime a XOR xtime a'"
proof -
  have b: "(w AND 0x80 \<noteq> 0) = bit w 7" for w :: byte
    using and_exp_eq_0_iff_not_bit [of w 7] by simp
  show ?thesis by (auto simp: xtime_def b push_bit_xor bit_simps ac_simps)
qed

lemma gfMul_loop_add: "gfMul_loop (a XOR a') b (r XOR r') = gfMul_loop a b r XOR gfMul_loop a' b r'"
proof (induction a b r arbitrary: a' r' rule: gfMul_loop.induct)
  case (1 a b r)
  show ?case
  proof (cases "b = 0")
    case False
    have r: "(if b AND 1 \<noteq> 0 then (r XOR r') XOR (a XOR a') else r XOR r')
      = (if b AND 1 \<noteq> 0 then r XOR a else r) XOR (if b AND 1 \<noteq> 0 then r' XOR a' else r')"
      by (simp add: ac_simps)
    show ?thesis
      by (subst (1 2 3) gfMul_loop.simps) (simp only: False if_False xtime_add r 1 [OF False])
  qed (simp add: gfMul_loop.simps)
qed

lemma gfMul_eq_loop: "gfMul a b = gfMul_loop a b 0"
  by (simp add: gfMul_def gfMul_while_loop)

lemma gfMul_add: "gfMul (a XOR a') b = gfMul a b XOR gfMul a' b"
  using gfMul_loop_add [of a a' b 0 0] by (simp add: gfMul_eq_loop)

lemma gfMul_one: "gfMul a 1 = a"
  by (simp add: gfMul_eq_loop gfMul_loop.simps [of a] gfMul_loop.simps [where b = 0])

lemma gfMul_loop_sum:
  assumes "\<And>i. n \<le> i \<Longrightarrow> \<not> bit b i"
  shows "gfMul_loop a b r = r XOR fold (\<lambda>i z. z XOR (if bit b i then (xtime ^^ i) a else 0)) [0..<n] 0"
  using assms
proof (induction n arbitrary: a b r)
  case 0
  then have "b = 0" by (intro bit_word_eqI) simp
  then show ?case by (simp add: gfMul_loop.simps)
next
  case (Suc n)
  define f where "f a b i = (if bit b i then (xtime ^^ i) a else 0)" for a b :: byte and i
  have u: "[0..<Suc n] = 0 # map Suc [0..<n]" by (simp only: map_Suc_upt upt_conv_Cons zero_less_Suc)
  have sh: "f a b (Suc i) = f (xtime a) (drop_bit 1 b) i" for i
    by (simp add: f_def bit_simps funpow_swap1)
  have g: "fold (\<lambda>i z. z XOR f a b i) [0..<Suc n] 0
    = f a b 0 XOR fold (\<lambda>i z. z XOR f (xtime a) (drop_bit 1 b) i) [0..<n] 0"
    by (simp only: u fold_Cons o_apply fold_map o_def sh xor.left_neutral) (rule fold_xor_acc)
  have z: "f a b 0 = (if b AND 1 \<noteq> 0 then a else 0)" by (simp add: f_def and_one_eq bit_0 mod_2_eq_odd)
  show ?case
  proof (cases "b = 0")
    case False
    have "\<And>i. n \<le> i \<Longrightarrow> \<not> bit (drop_bit 1 b) i" using Suc.prems by (simp add: bit_simps)
    from Suc.IH [OF this, of "xtime a"] show ?thesis
      using False g z by (subst gfMul_loop.simps) (simp add: f_def xor.assoc)
  next
    case True
    then have "fold (\<lambda>i z. z XOR f a b i) [0..<Suc n] 0 = 0" by (simp only: f_def) (induction n, simp_all)
    then show ?thesis using True by (simp add: f_def gfMul_loop.simps)
  qed
qed

lemma length_xorBlock [simp]: "length (xorBlock a b) = min (length a) (length b)"
  by (simp add: xorBlock_def)

lemma nth_xorBlock [simp]: "i < length a \<Longrightarrow> i < length b \<Longrightarrow> xorBlock a b ! i = a ! i XOR b ! i"
  by (simp add: xorBlock_def)

lemma xorBlock_append:
  "length a = length c \<Longrightarrow> xorBlock (a @ b) (c @ d) = xorBlock a c @ xorBlock b d"
  by (simp add: xorBlock_def)

lemma xorBlock_cancel [simp]: "length k = length x \<Longrightarrow> xorBlock (xorBlock x k) k = x"
  by (rule nth_equalityI) (simp_all add: xor.assoc)

lemma xorBlock_zero [simp]: "length x = n \<Longrightarrow> xorBlock x (replicate n 0) = x"
  by (rule nth_equalityI) simp_all

lemma xorBlock_self: "xorBlock x x = replicate (length x) 0"
  by (rule nth_equalityI) simp_all

lemma length_kuzR [simp]: "length x = 16 \<Longrightarrow> length (kuzR x) = 16" "length x = 16 \<Longrightarrow> length (kuzRInv x) = 16"
  by (simp_all add: kuzR_def kuzRInv_def)

lemma kuzR_add:
  assumes "length x = 16" "length y = 16"
  shows "kuzR (xorBlock x y) = xorBlock (kuzR x) (kuzR y)"
proof -
  have "fold (\<lambda>i z. z XOR gfMul (xorBlock x y ! i) (kuzL ! i)) [0..<16] 0
    = fold (\<lambda>i z. z XOR (gfMul (x ! i) (kuzL ! i) XOR gfMul (y ! i) (kuzL ! i))) [0..<16] (0 XOR 0)"
    by (intro fold_cong) (simp_all add: assms gfMul_add)
  then show ?thesis
    by (simp only: kuzR_def fold_xor_add) (simp add: xorBlock_def take_zip take_map)
qed

lemma kuzRInv_add:
  assumes "length x = 16" "length y = 16"
  shows "kuzRInv (xorBlock x y) = xorBlock (kuzRInv x) (kuzRInv y)"
proof -
  have "fold (\<lambda>i z. z XOR gfMul (xorBlock x y ! Suc i) (kuzL ! i)) [0..<15] (xorBlock x y ! 0)
    = fold (\<lambda>i z. z XOR (gfMul (x ! Suc i) (kuzL ! i) XOR gfMul (y ! Suc i) (kuzL ! i))) [0..<15] (x ! 0 XOR y ! 0)"
    by (intro fold_cong) (simp_all add: assms gfMul_add)
  then show ?thesis
    using assms by (simp only: kuzRInv_def fold_xor_add) (simp add: xorBlock_def take_zip take_map drop_zip drop_map)
qed

lemma kuzR_back:
  assumes "length x = 16"
  shows "kuzRInv (kuzR x) = x"
proof -
  define f where "f i = gfMul (x ! i) (kuzL ! i)" for i
  define z where "z = fold (\<lambda>i z. z XOR f i) [0..<15] 0"
  have "[0..<16] = [0..<15] @ [15 :: nat]" by (simp add: upt_rec)
  then have r: "kuzR x = (z XOR f 15) # take 15 x" by (simp add: kuzR_def f_def z_def)
  have "fold (\<lambda>i z. z XOR gfMul (kuzR x ! Suc i) (kuzL ! i)) [0..<15] (kuzR x ! 0) = fold (\<lambda>i z. z XOR f i) [0..<15] (z XOR f 15)"
    by (rule fold_cong) (auto simp: r f_def)
  also have "\<dots> = (z XOR f 15) XOR z" by (subst fold_xor_acc) (simp add: z_def)
  also have "\<dots> = f 15" by (simp add: ac_simps)
  also have "\<dots> = x ! 15" by (simp add: f_def kuzL_def gfMul_one)
  finally have "kuzRInv (kuzR x) = take 15 x @ [x ! 15]" by (simp add: kuzRInv_def r assms)
  also have "\<dots> = take (Suc 15) x" using assms by (subst take_Suc_conv_app_nth) simp_all
  finally show ?thesis using assms by simp
qed

lemma length_funpow:
  fixes f :: "bytes \<Rightarrow> bytes"
  shows "(\<And>x. length x = 16 \<Longrightarrow> length (f x) = 16) \<Longrightarrow> length x = 16 \<Longrightarrow> length ((f ^^ n) x) = 16"
  by (induction n) simp_all

lemma length_kuzL [simp]:
  "length x = 16 \<Longrightarrow> length (kuzLTransform x) = 16" "length x = 16 \<Longrightarrow> length (kuzLInv x) = 16"
  by (simp_all add: kuzLTransform_def kuzLInv_def length_funpow)

lemma funpow_back:
  fixes f g :: "bytes \<Rightarrow> bytes"
  assumes "\<And>x. length x = 16 \<Longrightarrow> length (f x) = 16" "\<And>x. length x = 16 \<Longrightarrow> g (f x) = x"
  shows "length x = 16 \<Longrightarrow> (g ^^ n) ((f ^^ n) x) = x"
  by (induction n arbitrary: x) (simp_all add: assms funpow_swap1 [of f] length_funpow)

lemma kuzL_back: "length x = 16 \<Longrightarrow> kuzLInv (kuzLTransform x) = x"
  unfolding kuzLInv_def kuzLTransform_def by (rule funpow_back) (simp_all add: kuzR_back)

lemma funpow_add:
  fixes f :: "bytes \<Rightarrow> bytes"
  assumes "\<And>x. length x = 16 \<Longrightarrow> length (f x) = 16"
    "\<And>x y. length x = 16 \<Longrightarrow> length y = 16 \<Longrightarrow> f (xorBlock x y) = xorBlock (f x) (f y)"
  shows "length x = 16 \<Longrightarrow> length y = 16 \<Longrightarrow> (f ^^ n) (xorBlock x y) = xorBlock ((f ^^ n) x) ((f ^^ n) y)"
  by (induction n) (simp_all add: assms length_funpow)

lemma length_unit_block [simp]: "length (unit_block i b) = 16"
  by (simp add: unit_block_def)

text \<open>A linear map of blocks is the exclusive or of what it does to each byte alone.\<close>

locale block_linear =
  fixes F :: "bytes \<Rightarrow> bytes"
  assumes F_length: "length x = 16 \<Longrightarrow> length (F x) = 16"
    and F_add: "length x = 16 \<Longrightarrow> length y = 16 \<Longrightarrow> F (xorBlock x y) = xorBlock (F x) (F y)"
begin

definition tabled :: "(nat \<Rightarrow> bytes) \<Rightarrow> nat \<Rightarrow> bytes" where
  "tabled u n = fold (\<lambda>i acc. xorBlock acc (u i)) [0..<n] (replicate 16 0)"

lemma F_zero: "F (replicate 16 0) = replicate 16 0"
  using F_add [of "replicate 16 0" "replicate 16 0"] F_length [of "replicate 16 0"]
  by (simp add: xorBlock_self)

lemma length_tabled: "(\<And>i. i < n \<Longrightarrow> length (u i) = 16) \<Longrightarrow> length (tabled u n) = 16"
  by (induction n) (simp_all add: tabled_def)

lemma F_tabled: "(\<And>i. i < n \<Longrightarrow> length (u i) = 16) \<Longrightarrow> F (tabled u n) = tabled (\<lambda>i. F (u i)) n"
proof (induction n)
  case (Suc n)
  have "length (tabled u n) = 16" using Suc.prems by (simp add: length_tabled)
  then show ?case using Suc by (simp add: tabled_def F_add)
qed (simp add: tabled_def F_zero)

lemma nth_units:
  assumes "length x = 16" "n \<le> 16" "j < 16"
  shows "tabled (\<lambda>i. unit_block i (x ! i)) n ! j = (if j < n then x ! j else 0)"
  using assms(2)
proof (induction n)
  case (Suc n)
  have "length (tabled (\<lambda>i. unit_block i (x ! i)) n) = 16" by (simp add: length_tabled unit_block_def)
  then show ?case
    using Suc assms(3) by (auto simp: tabled_def unit_block_def nth_list_update less_Suc_eq)
qed (use assms in \<open>simp add: tabled_def\<close>)

lemma units:
  assumes "length x = 16"
  shows "tabled (\<lambda>i. unit_block i (x ! i)) 16 = x"
proof (rule nth_equalityI)
  show "length (tabled (\<lambda>i. unit_block i (x ! i)) 16) = length x"
    using assms by (simp add: length_tabled)
qed (use assms in \<open>simp add: length_tabled nth_units\<close>)

lemma look_up_tabled:
  assumes "\<And>i. i < 16 \<Longrightarrow> tab ! i ! unat (x ! i) = pack (u i)" "\<And>i. i < 16 \<Longrightarrow> length (u i) = 16"
  shows "look_up tab x = tabled u 16"
proof -
  have "n \<le> 16 \<Longrightarrow> fold (\<lambda>i (low, high). let (l, h) = tab ! i ! unat (x ! i) in (xorBlock low l, xorBlock high h))
      [0..<n] (replicate 8 0, replicate 8 0) = pack (tabled u n)" for n
  proof (induction n)
    case (Suc n)
    have l: "length (tabled u n) = 16" using Suc.prems assms(2) by (simp add: length_tabled)
    show ?case
      using Suc assms l by (simp add: tabled_def pack_def xorBlock_def take_zip take_map drop_zip drop_map)
  qed (simp add: tabled_def pack_def)
  then show ?thesis by (simp add: look_up_def pack_def)
qed

lemma look_up_linear:
  assumes "length x = 16" "\<And>i. i < 16 \<Longrightarrow> tab ! i ! unat (x ! i) = pack (F (unit_block i (s (x ! i))))"
  shows "look_up tab x = F (map s x)"
proof -
  let ?u = "\<lambda>i. unit_block i (map s x ! i)"
  have "look_up tab x = tabled (\<lambda>i. F (?u i)) 16"
    using assms by (intro look_up_tabled) (simp_all add: F_length)
  also have "\<dots> = F (tabled ?u 16)" by (rule F_tabled [symmetric]) simp
  finally show ?thesis using assms(1) by (simp only: units length_map)
qed

end

interpretation lin: block_linear kuzLTransform
  by unfold_locales (simp_all add: kuzLTransform_def funpow_add kuzR_add length_funpow)

interpretation inv: block_linear kuzLInv
  by unfold_locales (simp_all add: kuzLInv_def funpow_add kuzRInv_add length_funpow)

section \<open>The tables are exact\<close>

lemma length_kuzPi [simp]: "length kuzPi = 256"
  by (simp add: kuzPi_def)

lemma distinct_kuzPi: "distinct kuzPi"
proof -
  have "distinct (map uint kuzPi)" by (simp add: kuzPi_def)
  then show ?thesis by (simp only: distinct_map)
qed

lemma ls_nth: "i < 16 \<Longrightarrow> v < 256 \<Longrightarrow> ls kuznechikTables ! i ! v = pack (kuzLTransform (unit_block i (kuzPi ! v)))"
  by (simp add: kuznechikTables_def)

lemma linv_nth: "i < 16 \<Longrightarrow> v < 256 \<Longrightarrow> linv kuznechikTables ! i ! v = pack (kuzLInv (unit_block i (of_nat v)))"
  by (simp add: kuznechikTables_def)

lemma unat_byte [simp]: "unat (b :: byte) < 256"
  using unsigned_less [of b] by simp

definition kuzS :: "bytes \<Rightarrow> bytes" where
  "kuzS x = map (\<lambda>b. kuzPi ! unat b) x"

lemma sinv_loop:
  assumes "distinct pi" "n \<le> length pi" "length s = 256" "i < n"
  shows "fold (\<lambda>i s. s[unat (pi ! i) := of_nat i]) [0..<n] s ! unat (pi ! i :: byte) = (of_nat i :: byte)"
  using assms(2,4)
proof (induction n)
  case (Suc n)
  have l: "length (fold (\<lambda>i s. s[unat (pi ! i) := of_nat i :: byte]) [0..<m] s) = 256" for m
    by (induction m) (simp_all add: assms(3))
  show ?case
  proof (cases "i = n")
    case False
    then have "pi ! i \<noteq> pi ! n" using Suc.prems assms(1) by (simp add: nth_eq_iff_index_eq)
    then have "unat (pi ! i) \<noteq> unat (pi ! n)" using word_unat_eq_iff by blast
    then show ?thesis using False Suc l by simp
  qed (simp add: l)
qed simp

lemma sinv_kuzPi: "sinv kuznechikTables ! unat (kuzPi ! unat b) = b"
  using sinv_loop [OF distinct_kuzPi, of 256 "replicate 256 0" "unat b"] by (simp add: kuznechikTables_def)

lemma unsubstitute_kuzS: "unsubstitute (kuzS x) = x"
  by (simp add: unsubstitute_def kuzS_def sinv_kuzPi o_def)

lemma kuzLS_exact: "length x = 16 \<Longrightarrow> kuzLS x kuznechikTables = kuzLTransform (kuzS x)"
  unfolding kuzLS_def kuzS_def by (rule lin.look_up_linear) (simp_all add: ls_nth)

lemma kuzLInv_exact: "length x = 16 \<Longrightarrow> kuzLInvTabled x kuznechikTables = kuzLInv x"
  using inv.look_up_linear [of x "linv kuznechikTables" id]
  by (simp add: kuzLInvTabled_def linv_nth)

lemma length_kuzS [simp]: "length (kuzS x) = length x"
  by (simp add: kuzS_def)

section \<open>Decryption undoes encryption\<close>

definition round_keys_ok :: "bytes list \<Rightarrow> bool" where
  "round_keys_ok rk \<longleftrightarrow> length rk = 10 \<and> (\<forall>k \<in> set rk. length k = 16)"

lemma round_keys_nth: "round_keys_ok rk \<Longrightarrow> i < 10 \<Longrightarrow> length (rk ! i) = 16"
  by (simp add: round_keys_ok_def)

lemma upt_1_10: "[1..<10] = map Suc [0..<9]"
  by (simp only: map_Suc_upt) simp

lemma kuznechik_rounds:
  assumes "round_keys_ok rk" "length x = 16" "n < 10"
  defines "f \<equiv> \<lambda>i x. kuzLS (xorBlock x (rk ! i)) kuznechikTables"
    and "g \<equiv> \<lambda>i x. xorBlock (unsubstitute (kuzLInvTabled x kuznechikTables)) (rk ! (i - 1))"
  shows "length (fold f [0..<n] x) = 16 \<and> fold g (rev (map Suc [0..<n])) (fold f [0..<n] x) = x"
  using assms(3)
proof (induction n)
  case (Suc n)
  let ?y = "fold f [0..<n] x"
  have y: "length ?y = 16" "fold g (rev (map Suc [0..<n])) ?y = x" using Suc by simp_all
  have k: "length (rk ! n) = 16" using assms(1) Suc.prems by (simp add: round_keys_nth)
  have "g (Suc n) (f n ?y) = ?y"
    using y(1) k by (simp add: f_def g_def kuzLS_exact kuzLInv_exact kuzL_back unsubstitute_kuzS)
  moreover have "length (f n ?y) = 16" using y(1) k by (simp add: f_def kuzLS_exact)
  ultimately show ?case using y(2) by simp
qed (use assms in simp)

lemma length_encryptKuznechik: "round_keys_ok rk \<Longrightarrow> length x = 16 \<Longrightarrow> length (encryptKuznechik rk x) = 16"
  using kuznechik_rounds [of rk x 9] by (simp add: encryptKuznechik_def round_keys_nth)

lemma decrypt_encryptKuznechik:
  assumes "round_keys_ok rk" "length x = 16"
  shows "decryptKuznechik rk (encryptKuznechik rk x) = x"
proof -
  have "length (rk ! 9) = 16" using assms by (simp add: round_keys_nth)
  then show ?thesis
    using kuznechik_rounds [OF assms, of 9]
    unfolding decryptKuznechik_def encryptKuznechik_def upt_1_10 by simp
qed

section \<open>The key schedule\<close>

lemma length_kuzLS: "length x = 16 \<Longrightarrow> length (kuzLS x kuznechikTables) = 16"
  by (simp add: kuzLS_exact)

lemma length_constants: "i < 32 \<Longrightarrow> length (constants kuznechikTables ! i) = 16"
  by (simp add: kuznechikTables_def)

lemma round_keys_update [simp]: "round_keys_ok rk \<Longrightarrow> length k = 16 \<Longrightarrow> round_keys_ok (rk[i := k])"
  by (auto simp: round_keys_ok_def dest!: set_update_subset_insert [THEN subsetD])

lemma round_keys_new: "round_keys_ok (replicate 10 (replicate 16 0))"
  by (simp add: round_keys_ok_def)

lemma schedule_step_ok:
  assumes "0 < i" "i < 33" "round_keys_ok rk" "length a = 16" "length b = 16"
    "schedule_step i (rk, a, b) = (rk', a', b')"
  shows "round_keys_ok rk' \<and> length a' = 16 \<and> length b' = 16"
proof -
  have "length (constants kuznechikTables ! (i - 1)) = 16" using assms by (simp add: length_constants)
  moreover from this have "length (kuzLS (xorBlock a (constants kuznechikTables ! (i - 1))) kuznechikTables) = 16"
    using assms by (simp add: length_kuzLS)
  ultimately show ?thesis
    using assms by (auto simp: schedule_step_def Let_def)
qed

lemma schedule_ok:
  assumes "round_keys_ok rk" "length a = 16" "length b = 16" "n \<le> 33"
  shows "case fold schedule_step [1..<n] (rk, a, b) of (rk', a', b') \<Rightarrow>
    round_keys_ok rk' \<and> length a' = 16 \<and> length b' = 16"
  using assms(4)
proof (induction n)
  case (Suc n)
  show ?case
  proof (cases "n = 0")
    case False
    obtain rk' a' b' where f: "fold schedule_step [1..<n] (rk, a, b) = (rk', a', b')" by (metis prod_cases3)
    obtain rk2 a2 b2 where s: "schedule_step n (rk', a', b') = (rk2, a2, b2)" by (metis prod_cases3)
    have "round_keys_ok rk' \<and> length a' = 16 \<and> length b' = 16" using Suc f by simp
    then show ?thesis using schedule_step_ok [OF _ _ _ _ _ s] False Suc.prems f s by simp
  qed (use assms in simp)
qed (use assms in simp)

lemma expand_ok: "length key = 32 \<Longrightarrow> round_keys_ok (expandKuznechikKey key)"
  using schedule_ok [of "(replicate 10 (replicate 16 0))[0 := take 16 key, 1 := take 16 (drop 16 key)]"
      "take 16 key" "take 16 (drop 16 key)" 33]
  by (simp add: expandKuznechikKey_def Let_def round_keys_new split: prod.splits)

section \<open>Properties\<close>

text \<open>
  C21: The loop of the field multiplication ends for all operands, although it has no counter, and
  gives their product: the sum of the multiples of the first operand by the powers of the
  indeterminate that the second one has.
\<close>

theorem gfMul_returns:
  "gfMul_while a b 0 = Some (fold (\<lambda>i z. z XOR (if bit b i then (xtime ^^ i) a else 0)) [0..<8] 0)"
proof -
  have "\<not> bit b i" if "8 \<le> i" for i using that by (auto dest: bit_imp_le_length)
  then show ?thesis using gfMul_loop_sum [of 8 b a 0] by (simp add: gfMul_while_loop)
qed

text \<open>
  C20: The tables the cipher works with are exact: looking up every byte of a block and adding
  gives the linear transformation of the substituted block as it is defined, and the tables of
  the inverse give the inverse transformation.
\<close>

theorem kuznechik_tables_exact:
  assumes "length x = 16"
  shows "kuzLS x kuznechikTables = kuzLTransform (kuzS x)
    \<and> kuzLInvTabled x kuznechikTables = kuzLInv x
    \<and> unsubstitute (kuzLInvTabled (kuzLS x kuznechikTables) kuznechikTables) = x"
  using assms by (simp add: kuzLS_exact kuzLInv_exact kuzL_back unsubstitute_kuzS)

theorem kuznechik_tables_exact_witness:
  "kuzLS (replicate 16 5) kuznechikTables = kuzLTransform (kuzS (replicate 16 5))"
  using kuznechik_tables_exact [of "replicate 16 5"] by simp

end
