(* ===== verification/Gost_Symmetric.thy ===== *)
theory Gost_Symmetric
  imports Kuznechik
begin

text \<open>
  The class \<^verbatim>\<open>GOSTSymmetric\<close> (\<^verbatim>\<open>crypto/GOSTSymmetric.cpp\<close>): the block ciphers behind one
  interface, and on them counter mode, the MAC and the authenticated mode MGM. Pointers and
  their lengths are byte strings here, so the tests for null pointers have no counterpart;
  of the sixteen bytes of a buffer the model has those of a block. \<open>None\<close> is the return value
  false.

  The locale \<open>block_cipher\<close> is what the modes rely on; both ciphers are instances for every
  key.
\<close>

unbundle bit_operations_syntax

section \<open>The ciphers\<close>

datatype gost_cipher = KUZNECHIK | MAGMA

record gost_sym =
  gs_cipher :: gost_cipher
  gs_keyed :: bool
  kuzRoundKeys :: "bytes list"
  magmaKey :: "word32 list"

definition GOSTSymmetric_new :: "gost_cipher \<Rightarrow> gost_sym" where
  "GOSTSymmetric_new c =
     \<lparr>gs_cipher = c, gs_keyed = False, kuzRoundKeys = replicate 10 (replicate 16 0), magmaKey = replicate 8 0\<rparr>"

definition gs_setKey :: "bytes \<Rightarrow> gost_sym \<Rightarrow> bool \<times> gost_sym" where
  "gs_setKey key g =
     (if length key \<noteq> 32 then (False, g)
      else
        (let g = (if gs_cipher g = KUZNECHIK then g\<lparr>kuzRoundKeys := expandKuznechikKey key\<rparr>
                  else g\<lparr>magmaKey := expandMagmaKey key\<rparr>)
         in (True, g\<lparr>gs_keyed := True\<rparr>)))"

definition cipher_block :: "gost_cipher \<Rightarrow> nat" where
  "cipher_block c = (if c = KUZNECHIK then 16 else 8)"

definition gs_blockSize :: "gost_sym \<Rightarrow> nat" where
  "gs_blockSize g = cipher_block (gs_cipher g)"

definition encrypt_keyed :: "gost_sym \<Rightarrow> bytes \<Rightarrow> bytes" where
  "encrypt_keyed g inp =
     (if gs_cipher g = KUZNECHIK then encryptKuznechik (kuzRoundKeys g) inp else cryptMagma (magmaKey g) False inp)"

definition decrypt_keyed :: "gost_sym \<Rightarrow> bytes \<Rightarrow> bytes" where
  "decrypt_keyed g inp =
     (if gs_cipher g = KUZNECHIK then decryptKuznechik (kuzRoundKeys g) inp else cryptMagma (magmaKey g) True inp)"

text \<open>Without a key the output is not written: \<open>None\<close>.\<close>

definition gs_encryptBlock :: "gost_sym \<Rightarrow> bytes \<Rightarrow> bytes option" where
  "gs_encryptBlock g inp = (if \<not> gs_keyed g then None else Some (encrypt_keyed g inp))"

definition gs_decryptBlock :: "gost_sym \<Rightarrow> bytes \<Rightarrow> bytes option" where
  "gs_decryptBlock g inp = (if \<not> gs_keyed g then None else Some (decrypt_keyed g inp))"

section \<open>Counters and the field of the block\<close>

fun incrementHalf :: "bytes \<Rightarrow> nat \<Rightarrow> nat \<Rightarrow> bytes" where
  "incrementHalf value start 0 = value"
| "incrementHalf value start (Suc n) =
     (if Suc n = start then value
      else
        (let b = value ! n + 1; value = value[n := b]
         in if b \<noteq> 0 then value else incrementHalf value start n))"

definition field_poly :: "nat \<Rightarrow> byte" where
  "field_poly block = (if block = 16 then 0x87 else 0x1b)"

definition reduce_carry :: "nat \<Rightarrow> bool \<Rightarrow> bytes \<Rightarrow> bytes" where
  "reduce_carry block carry v =
     (if carry then v[block - 1 := v ! (block - 1) XOR field_poly block] else v)"

definition shiftSubkey :: "bytes \<Rightarrow> nat \<Rightarrow> bytes" where
  "shiftSubkey inp block =
     (let (carry, out) = foldr (\<lambda>b (carry, out). (drop_bit 7 b, (push_bit 1 b OR carry) # out)) (take block inp) (0, [])
      in reduce_carry block (carry \<noteq> 0) out)"

definition mul_step :: "bytes \<Rightarrow> nat \<Rightarrow> nat \<Rightarrow> bytes \<times> bytes \<Rightarrow> bytes \<times> bytes" where
  "mul_step y block i = (\<lambda>(v, z).
     (let z = (if bit (y ! (block - 1 - i div 8)) (i mod 8) then xorBlock z v else z);
          carry = (v ! 0 AND 0x80 \<noteq> 0);
          v = map (\<lambda>j. push_bit 1 (v ! j) OR (if j + 1 < block then drop_bit 7 (v ! (j + 1)) else 0)) [0..<block]
      in (reduce_carry block carry v, z)))"

definition gfMultiply :: "bytes \<Rightarrow> bytes \<Rightarrow> nat \<Rightarrow> bytes" where
  "gfMultiply x y block = snd (fold (mul_step y block) [0..<block * 8] (take block x, replicate block 0))"

definition storeLength :: "nat \<Rightarrow> nat \<Rightarrow> bytes" where
  "storeLength len n =
     (let bits = (of_nat len :: ulong) * 8
      in rev (map (\<lambda>i. if i < 8 then ucast (drop_bit (8 * i) bits) else 0) [0..<n]))"

definition equalConstantTime :: "bytes \<Rightarrow> bytes \<Rightarrow> bool" where
  "equalConstantTime a b = (fold (\<lambda>(x, y) d. d OR (x XOR y)) (zip a b) 0 = 0)"

definition maximumMGMBytes :: "nat \<Rightarrow> nat" where
  "maximumMGMBytes block = (if block = 8 then 2 ^ 29 - 1 else 2 ^ 61 - 1)"

section \<open>The modes\<close>

text \<open>
  The loop that counter mode and MGM share: a block of the data, or what is left, against the
  encrypted counter.
\<close>

function gamma_loop :: "(bytes \<Rightarrow> bytes) \<Rightarrow> nat \<Rightarrow> bytes \<Rightarrow> bytes \<Rightarrow> bytes" where
  "gamma_loop E block counter inp =
     (if inp = [] \<or> block = 0 then []
      else xorBlock (take block inp) (E counter)
        @ gamma_loop E block (incrementHalf counter (block div 2) block) (drop block inp))"
  by pat_completeness auto
termination by (relation "measure (\<lambda>(E, block, counter, inp). length inp)") auto

declare gamma_loop.simps [simp del]

definition gs_ctr :: "gost_sym \<Rightarrow> bytes \<Rightarrow> bytes \<Rightarrow> bytes option" where
  "gs_ctr g iv inp =
     (let block = gs_blockSize g
      in if \<not> gs_keyed g \<or> length iv \<noteq> block div 2 then None
         else Some (gamma_loop (encrypt_keyed g) block (iv @ replicate (block - length iv) 0) inp))"

definition omac_block :: "(bytes \<Rightarrow> bytes) \<Rightarrow> nat \<Rightarrow> bytes \<Rightarrow> bytes" where
  "omac_block E block inp =
     (let l = E (replicate block 0);
          k1 = shiftSubkey l block;
          k2 = shiftSubkey k1 block;
          full = length inp div block;
          complete = (length inp \<noteq> 0 \<and> length inp mod block = 0);
          beforeLast = (if complete then full - 1 else full);
          chain = fold (\<lambda>n chain. E (xorBlock chain (take block (drop (n * block) inp)))) [0..<beforeLast]
                    (replicate block 0);
          rest = drop (beforeLast * block) inp;
          last = (if complete then xorBlock (take block rest) k1
                  else xorBlock (rest @ 0x80 # replicate (block - 1 - length rest) 0) k2)
      in E (xorBlock chain last))"

definition gs_omac :: "gost_sym \<Rightarrow> bytes \<Rightarrow> bytes option" where
  "gs_omac g inp = (if \<not> gs_keyed g then None else Some (omac_block (encrypt_keyed g) (gs_blockSize g) inp))"

text \<open>
  MGM: the keystream starts from the nonce with its top bit clear, the chain of multipliers
  from the nonce with its top bit set.
\<close>

definition mgm_gamma :: "(bytes \<Rightarrow> bytes) \<Rightarrow> nat \<Rightarrow> bytes \<Rightarrow> bytes \<Rightarrow> bytes" where
  "mgm_gamma E block icn inp = gamma_loop E block (E (icn[0 := icn ! 0 AND 0x7f])) inp"

function mgm_sum :: "(bytes \<Rightarrow> bytes) \<Rightarrow> nat \<Rightarrow> bytes \<Rightarrow> bytes \<times> bytes \<Rightarrow> bytes \<times> bytes" where
  "mgm_sum E block part (z, acc) =
     (if part = [] \<or> block = 0 then (z, acc)
      else
        (let padded = take block part @ replicate (block - length (take block part)) 0;
             product = gfMultiply (E z) padded block
         in mgm_sum E block (drop block part) (incrementHalf z 0 (block div 2), xorBlock acc product)))"
  by pat_completeness auto
termination by (relation "measure (\<lambda>(E, block, part, zs). length part)") auto

declare mgm_sum.simps [simp del]

definition mgm_tag :: "(bytes \<Rightarrow> bytes) \<Rightarrow> nat \<Rightarrow> bytes \<Rightarrow> bytes \<Rightarrow> bytes \<Rightarrow> bytes" where
  "mgm_tag E block icn aad cipherText =
     (let z = E (icn[0 := icn ! 0 OR 0x80]);
          (z, acc) = mgm_sum E block cipherText (mgm_sum E block aad (z, replicate block 0));
          lengthBlock = storeLength (length aad) (block div 2) @ storeLength (length cipherText) (block div 2);
          product = gfMultiply (E z) lengthBlock block
      in E (xorBlock acc product))"

definition mgm_refused :: "gost_sym \<Rightarrow> bytes \<Rightarrow> bytes \<Rightarrow> nat \<Rightarrow> nat \<Rightarrow> bool" where
  "mgm_refused g icn aad len tagLen \<longleftrightarrow>
     (let block = gs_blockSize g
      in \<not> gs_keyed g \<or> icn ! 0 AND 0x80 \<noteq> 0 \<or> tagLen < 4 \<or> tagLen > block \<or> (length aad = 0 \<and> len = 0)
         \<or> length aad > maximumMGMBytes block \<or> len > maximumMGMBytes block)"

definition mgmEncrypt :: "gost_sym \<Rightarrow> bytes \<Rightarrow> bytes \<Rightarrow> bytes \<Rightarrow> nat \<Rightarrow> (bytes \<times> bytes) option" where
  "mgmEncrypt g icn aad plain tagLen =
     (let block = gs_blockSize g; E = encrypt_keyed g
      in if mgm_refused g icn aad (length plain) tagLen then None
         else
           (let cipherText = mgm_gamma E block icn plain
            in Some (cipherText, take tagLen (mgm_tag E block icn aad cipherText))))"

text \<open>
  Decryption writes into the caller's buffer before the tag is known: first the decrypted
  text, from which \<open>mgmEncrypt\<close> computes the ciphertext and its tag in place; then zeros if the tag
  is wrong, otherwise the decrypted text again. The result has the buffer as it is left.
\<close>

definition mgmDecrypt :: "gost_sym \<Rightarrow> bytes \<Rightarrow> bytes \<Rightarrow> bytes \<Rightarrow> bytes \<Rightarrow> bytes \<Rightarrow> bool \<times> bytes" where
  "mgmDecrypt g icn aad cipherText tag plain =
     (let block = gs_blockSize g; E = encrypt_keyed g; len = length cipherText; rest = drop len plain
      in if mgm_refused g icn aad len (length tag) then (False, plain)
         else
           (let temporary = mgm_gamma E block icn cipherText
            in case mgmEncrypt g icn aad temporary (length tag) of
                 None \<Rightarrow> (False, replicate len 0 @ rest)
               | Some (_, expected) \<Rightarrow>
                   if \<not> equalConstantTime expected tag then (False, replicate len 0 @ rest)
                   else (True, mgm_gamma E block icn cipherText @ rest)))"

section \<open>What the modes need of a block cipher\<close>

locale block_cipher =
  fixes block :: nat and enc dec :: "bytes \<Rightarrow> bytes"
  assumes block_pos: "0 < block"
    and enc_length: "length x = block \<Longrightarrow> length (enc x) = block"
    and dec_length: "length x = block \<Longrightarrow> length (dec x) = block"
    and dec_enc: "length x = block \<Longrightarrow> dec (enc x) = x"

text \<open>The state of every object: the round keys have the right shape.\<close>

definition gs_ok :: "gost_sym \<Rightarrow> bool" where
  "gs_ok g \<longleftrightarrow> round_keys_ok (kuzRoundKeys g)"

lemma gs_ok_new [simp]: "gs_ok (GOSTSymmetric_new c)"
  by (simp add: gs_ok_def GOSTSymmetric_new_def round_keys_new)

lemma gs_ok_setKey: "gs_ok g \<Longrightarrow> gs_setKey key g = (ok, g') \<Longrightarrow> gs_ok g'"
  by (auto simp: gs_ok_def gs_setKey_def expand_ok split: if_splits)

lemma length_decryptKuznechik:
  assumes "round_keys_ok rk" "length x = 16"
  shows "length (decryptKuznechik rk x) = 16"
proof -
  have "length (fold (\<lambda>i x. xorBlock (unsubstitute (kuzLInvTabled x kuznechikTables)) (rk ! (i - 1))) is y) = 16"
    if "set is \<subseteq> {1..<10}" "length y = 16" for "is" y
    using that
  proof (induction "is" arbitrary: y)
    case (Cons i "is")
    have "length (rk ! (i - 1)) = 16" using Cons.prems assms(1) by (auto intro: round_keys_nth)
    then show ?case using Cons by (simp add: kuzLInv_exact unsubstitute_def)
  qed simp
  moreover have "length (xorBlock x (rk ! 9)) = 16" using assms by (simp add: round_keys_nth)
  ultimately show ?thesis by (simp add: decryptKuznechik_def)
qed

lemma gs_block_cipher: "gs_ok g \<Longrightarrow> block_cipher (gs_blockSize g) (encrypt_keyed g) (decrypt_keyed g)"
  by unfold_locales
    (auto simp: gs_ok_def gs_blockSize_def cipher_block_def encrypt_keyed_def decrypt_keyed_def
      length_encryptKuznechik length_decryptKuznechik decrypt_encryptKuznechik cryptMagma_back [of _ _ False, simplified])

text \<open>GOST 28147-89, keyed or not: the word arithmetic alone.\<close>

definition g89_crypt :: "gost28147 \<Rightarrow> bool \<Rightarrow> bytes \<Rightarrow> bytes" where
  "g89_crypt g dec inp = the (g_crypt (g\<lparr>g_keyed := True\<rparr>) dec inp)"

lemma g_crypt_keyed: "g_keyed g \<Longrightarrow> g_crypt g dec inp = Some (g89_crypt g dec inp)"
  by (simp add: g89_crypt_def g_crypt_Some)

lemma length_g89_crypt [simp]: "length (g89_crypt g dec inp) = 8"
  by (simp add: g89_crypt_def g_crypt_Some split: prod.split)

interpretation g89b: block_cipher 8 "g89_crypt g False" "g89_crypt g True" for g
proof
  fix x :: bytes assume "length x = 8"
  then show "g89_crypt g True (g89_crypt g False x) = x"
    using g_crypt_back [of "g\<lparr>g_keyed := True\<rparr>" x False] by (simp add: g89_crypt_def g_crypt_Some)
qed simp_all

section \<open>The keystream is its own inverse\<close>

lemma length_incrementHalf [simp]: "length (incrementHalf value start n) = length value"
  by (induction n arbitrary: "value") (simp_all add: Let_def)

lemma xorBlock_cancel_le: "length x \<le> length k \<Longrightarrow> xorBlock (xorBlock x k) k = x"
  by (rule nth_equalityI) (simp_all add: xor.assoc)

lemma equalConstantTime_iff:
  assumes "length a = length b"
  shows "equalConstantTime a b \<longleftrightarrow> a = b"
proof -
  have or0: "(x OR y = 0) = (x = 0 \<and> y = 0)" for x y :: byte
    by (simp add: or_eq_0_iff)
  have xor0: "(x XOR y = 0) = (x = y)" for x y :: byte
    by (auto simp: bit_eq_iff bit_simps)
  have "(fold (\<lambda>(x, y) d. d OR (x XOR y)) (zip a b) d = 0) = (d = 0 \<and> a = b)" for d :: byte
    using assms by (induction a b arbitrary: d rule: list_induct2) (simp_all add: or0 xor0 conj_assoc)
  then show ?thesis by (simp add: equalConstantTime_def)
qed

context block_cipher begin

lemma length_gamma: "length counter = block \<Longrightarrow> length (gamma_loop enc block counter inp) = length inp"
proof (induction "length inp" arbitrary: inp counter rule: less_induct)
  case less
  show ?case
  proof (cases "inp = []")
    case False
    then have "length (drop block inp) < length inp" using block_pos by simp
    then show ?thesis
      using less False block_pos enc_length [OF less.prems]
      by (subst gamma_loop.simps) (simp add: less.hyps)
  qed (simp add: gamma_loop.simps)
qed

lemma gamma_back:
  "length counter = block \<Longrightarrow> gamma_loop enc block counter (gamma_loop enc block counter inp) = inp"
proof (induction "length inp" arbitrary: inp counter rule: less_induct)
  case less
  note l = enc_length [OF less.prems]
  show ?case
  proof (cases "inp = []")
    case False
    define rest where "rest = gamma_loop enc block (incrementHalf counter (block div 2) block) (drop block inp)"
    have out: "gamma_loop enc block counter inp = xorBlock (take block inp) (enc counter) @ rest"
      using False block_pos by (subst gamma_loop.simps) (simp add: rest_def)
    have "length (drop block inp) < length inp" using False block_pos by simp
    then have again: "gamma_loop enc block (incrementHalf counter (block div 2) block) rest = drop block inp"
      unfolding rest_def by (rule less.hyps) (simp add: less.prems)
    have short: "rest = []" if "length inp < block"
      using that by (simp add: rest_def gamma_loop.simps)
    have tail: "take block (gamma_loop enc block counter inp) = xorBlock (take block inp) (enc counter)"
      "drop block (gamma_loop enc block counter inp) = rest"
      using short l by (cases "length inp < block"; simp add: out)+
    have "gamma_loop enc block counter inp \<noteq> []"
      using length_gamma [OF less.prems, of inp] False by auto
    then show ?thesis
      using block_pos l by (subst gamma_loop.simps) (simp add: tail again xorBlock_cancel_le)
  qed (simp add: gamma_loop.simps)
qed

end

section \<open>MGM\<close>

context block_cipher begin

lemma mgm_gamma_back: "length icn = block \<Longrightarrow> mgm_gamma enc block icn (mgm_gamma enc block icn inp) = inp"
  unfolding mgm_gamma_def by (rule gamma_back) (simp add: enc_length)

lemma length_mgm_gamma: "length icn = block \<Longrightarrow> length (mgm_gamma enc block icn inp) = length inp"
  unfolding mgm_gamma_def by (rule length_gamma) (simp add: enc_length)

end

lemma length_mul: 
  assumes "length x = block" 
  shows "length (gfMultiply x y block) = block"
proof -
  have "case fold (mul_step y block) is (v, z) of (v', z') \<Rightarrow> length v' = block \<and> length z' = block"
    if "length v = block" "length z = block" for "is" v z
    using that by (induction "is" arbitrary: v z) (auto simp: mul_step_def reduce_carry_def Let_def)
  from this [of "take block x" "replicate block 0" "[0..<block * 8]"] show ?thesis
    using assms by (auto simp: gfMultiply_def split: prod.splits)
qed

lemma length_storeLength [simp]: "length (storeLength len n) = n"
  by (simp add: storeLength_def Let_def)

context block_cipher begin

lemma length_mgm_sum:
  "length z = block \<Longrightarrow> length acc = block \<Longrightarrow> mgm_sum enc block part (z, acc) = (z', acc') \<Longrightarrow>
    length z' = block \<and> length acc' = block"
proof (induction "length part" arbitrary: part z acc rule: less_induct)
  case less
  show ?case
  proof (cases "part = []")
    case False
    have l: "length (gfMultiply (enc z) (take block part @ replicate (block - length (take block part)) 0) block) = block"
      by (rule length_mul) (simp add: enc_length less.prems)
    have e: "mgm_sum enc block (drop block part) (incrementHalf z 0 (block div 2), xorBlock acc
        (gfMultiply (enc z) (take block part @ replicate (block - length (take block part)) 0) block)) = (z', acc')"
      using less.prems(3) False block_pos by (subst (asm) mgm_sum.simps) (simp add: Let_def)
    show ?thesis
      by (rule less.hyps [OF _ _ _ e]) (use False block_pos l less.prems in simp_all)
  qed (use less.prems in \<open>simp add: mgm_sum.simps\<close>)
qed

lemma length_mgm_tag:
  assumes "length icn = block"
  shows "length (mgm_tag enc block icn aad c) = block"
proof -
  have "length (enc (icn[0 := icn ! 0 OR 0x80])) = block" using assms by (simp add: enc_length)
  then obtain z acc where
    "mgm_sum enc block c (mgm_sum enc block aad (enc (icn[0 := icn ! 0 OR 0x80]), replicate block 0)) = (z, acc)"
    "length z = block" "length acc = block"
    by (metis length_mgm_sum length_replicate surj_pair)
  then show ?thesis
    by (simp add: mgm_tag_def Let_def enc_length length_mul)
qed

end

lemma mgmEncrypt_Some:
  "mgmEncrypt g icn aad plain tagLen = Some (c, t) \<longleftrightarrow>
    \<not> mgm_refused g icn aad (length plain) tagLen \<and> c = mgm_gamma (encrypt_keyed g) (gs_blockSize g) icn plain
    \<and> t = take tagLen (mgm_tag (encrypt_keyed g) (gs_blockSize g) icn aad c)"
  by (auto simp: mgmEncrypt_def Let_def)

text \<open>
  Decryption answers true exactly when the tag is that of the ciphertext, and then delivers the
  text; otherwise the caller finds zeros, or the buffer untouched when the call is refused.
\<close>

lemma mgmDecrypt_exact:
  assumes "gs_ok g" "length icn = gs_blockSize g"
  shows "mgmDecrypt g icn aad c tag plain =
    (let E = encrypt_keyed g; block = gs_blockSize g
     in if mgm_refused g icn aad (length c) (length tag) then (False, plain)
        else if tag = take (length tag) (mgm_tag E block icn aad c)
        then (True, mgm_gamma E block icn c @ drop (length c) plain)
        else (False, replicate (length c) 0 @ drop (length c) plain))"
proof (cases "mgm_refused g icn aad (length c) (length tag)")
  case False
note b = gs_block_cipher [OF assms(1)]
  let ?c = "mgm_gamma (encrypt_keyed g) (gs_blockSize g) icn c"
  have l: "length ?c = length c" by (rule block_cipher.length_mgm_gamma [OF b assms(2)])
  have e: "mgmEncrypt g icn aad ?c (length tag)
    = Some (c, take (length tag) (mgm_tag (encrypt_keyed g) (gs_blockSize g) icn aad c))"
    using False by (simp add: mgmEncrypt_Some l block_cipher.mgm_gamma_back [OF b assms(2)])
  have "length tag \<le> gs_blockSize g" using False by (auto simp: mgm_refused_def Let_def)
  then have "length (take (length tag) (mgm_tag (encrypt_keyed g) (gs_blockSize g) icn aad c)) = length tag"
    by (simp add: block_cipher.length_mgm_tag [OF b assms(2)])
  then show ?thesis
    using False by (auto simp: mgmDecrypt_def Let_def e equalConstantTime_iff)
qed (simp add: mgmDecrypt_def Let_def)

section \<open>Properties\<close>

text \<open>
  Decrypting a block undoes encrypting it: for Kuznechik and Magma under every key, and for
  GOST 28147-89 under every key and parameter set.
\<close>

theorem gost_blocks_invert:
  assumes "length key = 32" "length x = cipher_block c" "length y = 8"
    and "setParamSet oid GOST28147_new = (True, g)" "g_setKey key g = (True, g')"
  shows "Option.bind (gs_encryptBlock (snd (gs_setKey key (GOSTSymmetric_new c))) x)
        (gs_decryptBlock (snd (gs_setKey key (GOSTSymmetric_new c)))) = Some x
    \<and> Option.bind (g_encryptBlock g' y) (g_decryptBlock g') = Some y"
proof
  let ?g = "snd (gs_setKey key (GOSTSymmetric_new c))"
  have k: "gs_keyed ?g" "gs_ok ?g"
    using assms(1) gs_ok_setKey [of "GOSTSymmetric_new c" key True ?g] by (simp_all add: gs_setKey_def Let_def)
  have "length x = gs_blockSize ?g"
    using assms(1,2) by (simp add: gs_setKey_def gs_blockSize_def GOSTSymmetric_new_def Let_def)
  then show "Option.bind (gs_encryptBlock ?g x) (gs_decryptBlock ?g) = Some x"
    using k(1) block_cipher.dec_enc [OF gs_block_cipher [OF k(2)]]
    by (simp add: gs_encryptBlock_def gs_decryptBlock_def)
  have "g_keyed g'" using assms(5) by (auto simp: g_setKey_def split: if_splits)
  then show "Option.bind (g_encryptBlock g' y) (g_decryptBlock g') = Some y"
    using assms(3) by (simp add: g_encryptBlock_def g_decryptBlock_def g_crypt_keyed g89b.dec_enc)
qed

theorem gost_blocks_invert_witness:
  "Option.bind (gs_encryptBlock (snd (gs_setKey (replicate 32 3) (GOSTSymmetric_new KUZNECHIK))) (replicate 16 1))
    (gs_decryptBlock (snd (gs_setKey (replicate 32 3) (GOSTSymmetric_new KUZNECHIK)))) = Some (replicate 16 1)"
proof -
  obtain g where g: "setParamSet [] GOST28147_new = (True, g)" by (simp add: setParamSet_def)
  obtain g' where g': "g_setKey (replicate 32 3) g = (True, g')" by (simp add: g_setKey_def)
  have l: "length (replicate 32 (3 :: byte)) = 32" "length (replicate 16 (1 :: byte)) = cipher_block KUZNECHIK"
    "length (replicate 8 (0 :: byte)) = 8" by (simp_all add: cipher_block_def)
  show ?thesis using gost_blocks_invert [OF l g g'] by (rule conjunct1)
qed

text \<open>
  C18: MGM decryption answers true exactly for the tag of the ciphertext, and then the caller's
  buffer begins with the text that encrypts to it; for any other tag it begins with zeros, so that
  nothing of the text is left; a refused call leaves the buffer as it was.
\<close>

theorem mgm_accepts_exactly_its_tag:
  assumes "gs_ok g" "length icn = gs_blockSize g"
    and "mgmDecrypt g icn aad ct tag buf = (ok, buf')"
  shows "(ok \<longleftrightarrow> (\<exists>plain. mgmEncrypt g icn aad plain (length tag) = Some (ct, tag)))
    \<and> (ok \<and> length ct \<le> length buf \<longrightarrow> mgmEncrypt g icn aad (take (length ct) buf') (length tag) = Some (ct, tag))
    \<and> (\<not> ok \<longrightarrow> buf' = buf \<and> mgm_refused g icn aad (length ct) (length tag)
        \<or> buf' = replicate (length ct) 0 @ drop (length ct) buf)"
proof -
  note b = gs_block_cipher [OF assms(1)]
  let ?gamma = "mgm_gamma (encrypt_keyed g) (gs_blockSize g) icn"
  note l = block_cipher.length_mgm_gamma [OF b assms(2)] and r = block_cipher.mgm_gamma_back [OF b assms(2)]
  have iff: "ok \<longleftrightarrow> mgmEncrypt g icn aad (?gamma ct) (length tag) = Some (ct, tag)"
    using assms(3) by (auto simp: mgmDecrypt_exact [OF assms(1,2)] mgmEncrypt_Some Let_def l r split: if_splits)
  have "mgmEncrypt g icn aad plain (length tag) = Some (ct, tag) \<Longrightarrow> plain = ?gamma ct" for plain
    by (auto simp: mgmEncrypt_Some r)
  then have 1: "ok \<longleftrightarrow> (\<exists>plain. mgmEncrypt g icn aad plain (length tag) = Some (ct, tag))"
    using iff by blast
  have 2: "mgmEncrypt g icn aad (take (length ct) buf') (length tag) = Some (ct, tag)" if "ok" "length ct \<le> length buf"
  proof -
    have "buf' = ?gamma ct @ drop (length ct) buf"
      using assms(3) that(1) by (auto simp: mgmDecrypt_exact [OF assms(1,2)] Let_def split: if_splits)
    then show ?thesis using iff that(1) by (simp add: l)
  qed
  have 3: "buf' = buf \<and> mgm_refused g icn aad (length ct) (length tag) \<or> buf' = replicate (length ct) 0 @ drop (length ct) buf"
    if "\<not> ok"
    using assms(3) that by (auto simp: mgmDecrypt_exact [OF assms(1,2)] Let_def split: if_splits)
  show ?thesis using 1 2 3 by blast
qed

theorem mgm_accepts_exactly_its_tag_witness:
  "\<exists>ok buf'. mgmDecrypt (snd (gs_setKey (replicate 32 3) (GOSTSymmetric_new MAGMA))) (replicate 8 0) [1] [7, 7] [1, 2, 3, 4] [0, 0] = (ok, buf')
    \<and> (ok \<longleftrightarrow> (\<exists>plain. mgmEncrypt (snd (gs_setKey (replicate 32 3) (GOSTSymmetric_new MAGMA))) (replicate 8 0) [1] plain (length [1, 2, 3, 4 :: byte]) = Some ([7, 7], [1, 2, 3, 4])))"
proof -
  let ?g = "snd (gs_setKey (replicate 32 3) (GOSTSymmetric_new MAGMA))"
  have g: "gs_ok ?g" using gs_ok_setKey [of "GOSTSymmetric_new MAGMA" "replicate 32 3" True ?g] by (simp add: gs_setKey_def Let_def)
  have s: "length (replicate 8 (0 :: byte)) = gs_blockSize ?g"
    by (simp add: gs_setKey_def gs_blockSize_def GOSTSymmetric_new_def cipher_block_def Let_def)
  obtain ok buf' where d: "mgmDecrypt ?g (replicate 8 0) [1] [7, 7] [1, 2, 3, 4] [0, 0] = (ok, buf')" by (metis surj_pair)
  from mgm_accepts_exactly_its_tag [OF g s d] d show ?thesis by fastforce
qed

end
