(* ===== verification/Gost_Alg.thy ===== *)
theory Gost_Alg
  imports Gost_Symmetric Symmetric_Alg
begin

text \<open>
  The cipher objects for the GOST ciphers, \<^verbatim>\<open>crypto/GOSTSymmetricAlgorithm.cpp\<close> and
  \<^verbatim>\<open>crypto/GOST28147Algorithm.cpp\<close>. Updates collect the input; the final call processes all of
  it. The state of the base class is that of \<open>Symmetric_Alg\<close>, without a context.

  Every mode is a loop over the blocks of the input with a state that changes from block to
  block (\<open>run\<close>): the counter, the feedback, the key where it is meshed. The locale
  \<open>mode_pair\<close> is what makes one loop undo another; each mode is an instance.
\<close>

unbundle bit_operations_syntax

section \<open>Loops over blocks\<close>

function run :: "nat \<Rightarrow> ('s \<Rightarrow> bytes \<Rightarrow> bytes \<times> 's) \<Rightarrow> 's \<Rightarrow> bytes \<Rightarrow> bytes" where
  "run block step s inp =
     (if inp = [] \<or> block = 0 then []
      else (let (out, s) = step s (take block inp) in out @ run block step s (drop block inp)))"
  by pat_completeness auto
termination by (relation "measure (\<lambda>(block, step, s, inp). length inp)") auto

declare run.simps [simp del]

section \<open>GOSTSymmetricAlgorithm\<close>

record gost_alg =
  ga_base :: "unit sym_alg"
  ga_input :: bytes
  ga_parameters :: bytes
  ga_associatedData :: bytes
  ga_encrypting :: bool

definition GOSTSymmetricAlgorithm_new :: gost_alg where
  "GOSTSymmetricAlgorithm_new =
     \<lparr>ga_base = SymmetricAlgorithm_new, ga_input = [], ga_parameters = [], ga_associatedData = [],
      ga_encrypting = False\<rparr>"

definition sectionBytes :: "nat \<Rightarrow> nat" where
  "sectionBytes periodBits = periodBits div 8"

definition period_of :: "bytes \<Rightarrow> nat" where
  "period_of params = unat (loadBE32 params)"

definition ga_checkMaximumBytes :: "gost_cipher \<Rightarrow> nat \<Rightarrow> gost_alg \<Rightarrow> bool" where
  "ga_checkMaximumBytes c n a =
     (if currentCipherMode (ga_base a) \<noteq> SymMode_MGM then True
      else
        (let maximum = (if c = MAGMA then 2 ^ 29 - 1 else 2 ^ 61 - 1);
             maximumInput = maximum + (if ga_encrypting a then 0 else currentTagBytes (ga_base a))
         in length (ga_input a) \<le> maximumInput \<and> n \<le> maximumInput - length (ga_input a)))"

definition ga_accepts :: "gost_cipher \<Rightarrow> symmetric_key option \<Rightarrow> sym_mode \<Rightarrow> bytes \<Rightarrow> bytes \<Rightarrow> nat \<Rightarrow> bool" where
  "ga_accepts c key mode params aad tagBytes =
     (let block = cipher_block c; blockBits = block * 8
      in (case key of None \<Rightarrow> False | Some k \<Rightarrow> length (keyData k) = 32)
         \<and> (mode = SymMode_ECB \<or> mode = SymMode_CTR_ACPKM \<or> mode = SymMode_MGM)
         \<and> (mode = SymMode_ECB \<longrightarrow> length params = 0)
         \<and> (mode = SymMode_CTR_ACPKM \<longrightarrow> length params = 4 + block div 2
             \<and> (period_of params = 0 \<or> period_of params \<ge> blockBits \<and> period_of params mod blockBits = 0))
         \<and> (mode = SymMode_MGM \<longrightarrow> length params = block \<and> params ! 0 AND 0x80 = 0 \<and> 4 \<le> tagBytes \<and> tagBytes \<le> block
             \<and> \<not> (c = MAGMA \<and> length aad > 2 ^ 29 - 1))
         \<and> (mode \<noteq> SymMode_MGM \<longrightarrow> length aad = 0 \<and> tagBytes = 0))"

definition ga_init ::
  "gost_cipher \<Rightarrow> symmetric_key option \<Rightarrow> sym_mode \<Rightarrow> bytes \<Rightarrow> bool \<Rightarrow> bytes \<Rightarrow> nat \<Rightarrow> gost_alg \<Rightarrow> bool \<times> gost_alg" where
  "ga_init c key mode params encrypt aad tagBytes a =
     (if \<not> ga_accepts c key mode params aad tagBytes then (False, a)
      else
        (let a = a\<lparr>ga_input := [], ga_parameters := params, ga_associatedData := aad, ga_encrypting := encrypt\<rparr>;
             (ok, b) = (if encrypt then base_encryptInit key mode False 0 tagBytes (ga_base a)
                        else base_decryptInit key mode False 0 tagBytes (ga_base a))
         in (ok, a\<lparr>ga_base := b\<rparr>)))"

definition ga_encryptInit ::
  "gost_cipher \<Rightarrow> symmetric_key option \<Rightarrow> sym_mode \<Rightarrow> bytes \<Rightarrow> bool \<Rightarrow> bytes \<Rightarrow> nat \<Rightarrow> gost_alg \<Rightarrow> bool \<times> gost_alg" where
  "ga_encryptInit c key mode iv padding aad tagBytes a =
     (if padding then (False, a) else ga_init c key mode iv True aad tagBytes a)"

definition ga_decryptInit ::
  "gost_cipher \<Rightarrow> symmetric_key option \<Rightarrow> sym_mode \<Rightarrow> bytes \<Rightarrow> bool \<Rightarrow> bytes \<Rightarrow> nat \<Rightarrow> gost_alg \<Rightarrow> bool \<times> gost_alg" where
  "ga_decryptInit c key mode iv padding aad tagBytes a =
     (if padding then (False, a) else ga_init c key mode iv False aad tagBytes a)"

definition ga_encryptUpdate :: "gost_cipher \<Rightarrow> bytes \<Rightarrow> gost_alg \<Rightarrow> bool \<times> gost_alg" where
  "ga_encryptUpdate c data a =
     (if \<not> ga_checkMaximumBytes c (length data) a then (False, a)
      else
        (let (ok, b) = base_encryptUpdate data (ga_base a); a = a\<lparr>ga_base := b\<rparr>
         in if \<not> ok then (False, a) else (True, a\<lparr>ga_input := ga_input a @ data\<rparr>)))"

definition ga_decryptUpdate :: "gost_cipher \<Rightarrow> bytes \<Rightarrow> gost_alg \<Rightarrow> bool \<times> gost_alg" where
  "ga_decryptUpdate c data a =
     (if \<not> ga_checkMaximumBytes c (length data) a then (False, a)
      else
        (let (ok, b) = base_decryptUpdate data (ga_base a); a = a\<lparr>ga_base := b\<rparr>
         in if \<not> ok then (False, a) else (True, a\<lparr>ga_input := ga_input a @ data\<rparr>)))"

text \<open>A fresh cipher under the object's key.\<close>

definition cipher_with :: "gost_cipher \<Rightarrow> bytes \<Rightarrow> gost_sym" where
  "cipher_with c key = snd (gs_setKey key (GOSTSymmetric_new c))"

definition ecb_step :: "(bytes \<Rightarrow> bytes) \<Rightarrow> unit \<Rightarrow> bytes \<Rightarrow> bytes \<times> unit" where
  "ecb_step f s chunk = (f chunk, ())"

definition processECB :: "gost_cipher \<Rightarrow> bytes \<Rightarrow> bool \<Rightarrow> bytes \<Rightarrow> bytes option" where
  "processECB c key encrypt inp =
     (if length inp mod cipher_block c \<noteq> 0 then None
      else Some (run (cipher_block c)
                  (ecb_step (if encrypt then encrypt_keyed (cipher_with c key) else decrypt_keyed (cipher_with c key))) () inp))"

definition acpkm_meshKey :: "gost_sym \<Rightarrow> gost_sym" where
  "acpkm_meshKey g =
     (let block = gs_blockSize g;
          key = concat (map (\<lambda>j. encrypt_keyed g (map (\<lambda>i. of_nat (0x80 + j * block + i)) [0..<block])) [0..<32 div block])
      in snd (gs_setKey key g))"

definition acpkm_step :: "nat \<Rightarrow> nat \<times> gost_sym \<times> bytes \<Rightarrow> bytes \<Rightarrow> bytes \<times> nat \<times> gost_sym \<times> bytes" where
  "acpkm_step section = (\<lambda>(offset, g, counter) chunk.
     (let block = gs_blockSize g;
          g = (if section \<noteq> 0 \<and> offset \<noteq> 0 \<and> offset mod section = 0 then acpkm_meshKey g else g)
      in (xorBlock chunk (encrypt_keyed g counter),
          offset + block, g, incrementHalf counter (block div 2) block)))"

definition processCTRACPKM :: "gost_cipher \<Rightarrow> bytes \<Rightarrow> bytes \<Rightarrow> bytes \<Rightarrow> bytes" where
  "processCTRACPKM c key params inp =
     (let block = cipher_block c;
          section = sectionBytes (period_of params);
          counter = take (block div 2) (drop 4 params) @ replicate (block - block div 2) 0
      in run block (acpkm_step section) (0, cipher_with c key, counter) inp)"

definition mgm_short :: "bool \<Rightarrow> bytes \<Rightarrow> bytes \<Rightarrow> nat \<Rightarrow> bool" where
  "mgm_short encrypt inp aad tagBytes =
     (if encrypt then length inp = 0 \<and> length aad = 0
      else length inp < tagBytes \<or> (length inp = tagBytes \<and> length aad = 0))"

definition processMGM :: "gost_cipher \<Rightarrow> bytes \<Rightarrow> bytes \<Rightarrow> bytes \<Rightarrow> nat \<Rightarrow> bool \<Rightarrow> bytes \<Rightarrow> bytes option" where
  "processMGM c key params aad tagBytes encrypt inp =
     (if mgm_short encrypt inp aad tagBytes then None
      else if encrypt
      then map_option (\<lambda>(ct, tag). ct @ tag) (mgmEncrypt (cipher_with c key) params aad inp tagBytes)
      else
        (let cipherLen = length inp - tagBytes;
             (ok, out) = mgmDecrypt (cipher_with c key) params aad (take cipherLen inp) (drop cipherLen inp)
                           (replicate cipherLen 0)
         in if ok then Some out else None))"

text \<open>
  The final call. Where it uses a key or parameters that are not there, reading through a null
  pointer or past the end of an empty string, there is no result (\<open>None\<close>). The output of a
  call that fails is modelled as empty.
\<close>

definition ga_usable :: "gost_cipher \<Rightarrow> bool \<Rightarrow> gost_alg \<Rightarrow> bool" where
  "ga_usable c encrypt a \<longleftrightarrow> currentKey (ga_base a) \<noteq> None
     \<and> (currentCipherMode (ga_base a) = SymMode_ECB
        \<or> currentCipherMode (ga_base a) = SymMode_MGM
          \<and> (mgm_short encrypt (ga_input a) (ga_associatedData a) (currentTagBytes (ga_base a))
             \<or> length (ga_parameters a) \<ge> cipher_block c)
        \<or> currentCipherMode (ga_base a) \<noteq> SymMode_MGM \<and> length (ga_parameters a) \<ge> 4 + cipher_block c div 2)"

definition ga_process :: "gost_cipher \<Rightarrow> bool \<Rightarrow> gost_alg \<Rightarrow> bytes option" where
  "ga_process c encrypt a =
     (let mode = currentCipherMode (ga_base a); key = keyData (the (currentKey (ga_base a)))
      in if mode = SymMode_ECB then processECB c key encrypt (ga_input a)
         else if mode = SymMode_MGM
         then processMGM c key (ga_parameters a) (ga_associatedData a) (currentTagBytes (ga_base a)) encrypt (ga_input a)
         else Some (processCTRACPKM c key (ga_parameters a) (ga_input a)))"

definition ga_wipe :: "gost_alg \<Rightarrow> gost_alg" where
  "ga_wipe a = a\<lparr>ga_input := [], ga_parameters := [], ga_associatedData := []\<rparr>"

definition ga_finish :: "gost_cipher \<Rightarrow> bool \<Rightarrow> gost_alg \<Rightarrow> (bool \<times> bytes \<times> gost_alg) option" where
  "ga_finish c encrypt a =
     (if \<not> ga_usable c encrypt a then None
      else
        (case ga_process c encrypt a of
           None \<Rightarrow> Some (False, [], ga_wipe a)
         | Some out \<Rightarrow>
             (let (ok, b) = (if encrypt then base_encryptFinal (ga_base a) else base_decryptFinal (ga_base a))
              in Some (ok, if ok then out else [], ga_wipe (a\<lparr>ga_base := b\<rparr>)))))"

definition ga_encryptFinal :: "gost_cipher \<Rightarrow> gost_alg \<Rightarrow> (bool \<times> bytes \<times> gost_alg) option" where
  "ga_encryptFinal c a = ga_finish c True a"

definition ga_decryptFinal :: "gost_cipher \<Rightarrow> gost_alg \<Rightarrow> (bool \<times> bytes \<times> gost_alg) option" where
  "ga_decryptFinal c a = ga_finish c False a"

section \<open>GOST28147Algorithm\<close>

text \<open>
  The key of these objects carries the object identifier of a parameter set; \<open>g8_keyParams\<close> is
  that of the current key.
\<close>

record g89_alg =
  g8_base :: "unit sym_alg"
  g8_input :: bytes
  g8_parameters :: bytes
  g8_keyParams :: bytes

definition GOST28147Algorithm_new :: g89_alg where
  "GOST28147Algorithm_new =
     \<lparr>g8_base = SymmetricAlgorithm_new, g8_input = [], g8_parameters = [], g8_keyParams = []\<rparr>"

definition g8_accepts :: "symmetric_key option \<Rightarrow> bytes \<Rightarrow> sym_mode \<Rightarrow> bytes \<Rightarrow> bool \<Rightarrow> bool" where
  "g8_accepts key oid mode iv padding \<longleftrightarrow>
     (case key of None \<Rightarrow> False | Some k \<Rightarrow> length (keyData k) = 32)
     \<and> (mode = SymMode_ECB \<or> mode = SymMode_CFB \<or> mode = SymMode_CBC)
     \<and> \<not> (mode = SymMode_ECB \<and> length iv \<noteq> 0) \<and> \<not> (mode \<noteq> SymMode_ECB \<and> length iv \<noteq> 8)
     \<and> \<not> (if mode = SymMode_CBC then \<not> padding else padding)
     \<and> fst (setParamSet oid GOST28147_new)"

definition g8_init ::
  "symmetric_key option \<Rightarrow> bytes \<Rightarrow> sym_mode \<Rightarrow> bytes \<Rightarrow> bool \<Rightarrow> bool \<Rightarrow> g89_alg \<Rightarrow> bool \<times> g89_alg" where
  "g8_init key oid mode iv padding encrypt a =
     (if \<not> g8_accepts key oid mode iv padding then (False, a)
      else
        (let a = a\<lparr>g8_input := [], g8_parameters := iv\<rparr>;
             (ok, b) = (if encrypt then base_encryptInit key mode padding 0 0 (g8_base a)
                        else base_decryptInit key mode padding 0 0 (g8_base a))
         in (ok, if ok then a\<lparr>g8_base := b, g8_keyParams := oid\<rparr> else a\<lparr>g8_base := b\<rparr>)))"

definition g8_encryptInit ::
  "symmetric_key option \<Rightarrow> bytes \<Rightarrow> sym_mode \<Rightarrow> bytes \<Rightarrow> bool \<Rightarrow> bytes \<Rightarrow> nat \<Rightarrow> g89_alg \<Rightarrow> bool \<times> g89_alg" where
  "g8_encryptInit key oid mode iv padding aad tagBytes a =
     (if length aad \<noteq> 0 \<or> tagBytes \<noteq> 0 then (False, a) else g8_init key oid mode iv padding True a)"

definition g8_decryptInit ::
  "symmetric_key option \<Rightarrow> bytes \<Rightarrow> sym_mode \<Rightarrow> bytes \<Rightarrow> bool \<Rightarrow> bytes \<Rightarrow> nat \<Rightarrow> g89_alg \<Rightarrow> bool \<times> g89_alg" where
  "g8_decryptInit key oid mode iv padding aad tagBytes a =
     (if length aad \<noteq> 0 \<or> tagBytes \<noteq> 0 then (False, a) else g8_init key oid mode iv padding False a)"

definition g8_encryptUpdate :: "bytes \<Rightarrow> g89_alg \<Rightarrow> bool \<times> g89_alg" where
  "g8_encryptUpdate data a =
     (let (ok, b) = base_encryptUpdate data (g8_base a); a = a\<lparr>g8_base := b\<rparr>
      in if \<not> ok then (False, a) else (True, a\<lparr>g8_input := g8_input a @ data\<rparr>))"

definition g8_decryptUpdate :: "bytes \<Rightarrow> g89_alg \<Rightarrow> bool \<times> g89_alg" where
  "g8_decryptUpdate data a =
     (let (ok, b) = base_decryptUpdate data (g8_base a); a = a\<lparr>g8_base := b\<rparr>
      in if \<not> ok then (False, a) else (True, a\<lparr>g8_input := g8_input a @ data\<rparr>))"

definition usesKeyMeshing :: "gost28147 \<Rightarrow> bool" where
  "usesKeyMeshing g \<longleftrightarrow> g_paramSet g \<noteq> TEST"

text \<open>The key is meshed every 1024 bytes, the feedback with it where there is one.\<close>

definition mesh_due :: "nat \<Rightarrow> gost28147 \<Rightarrow> bool" where
  "mesh_due offset g \<longleftrightarrow> offset \<noteq> 0 \<and> offset mod 1024 = 0 \<and> usesKeyMeshing g"

definition mesh_key :: "nat \<Rightarrow> gost28147 \<Rightarrow> gost28147" where
  "mesh_key offset g = (if mesh_due offset g then snd (the (meshKey None g)) else g)"

definition mesh_iv :: "nat \<Rightarrow> gost28147 \<Rightarrow> bytes \<Rightarrow> bytes \<times> gost28147" where
  "mesh_iv offset g feedback =
     (if mesh_due offset g then (case the (meshKey (Some feedback) g) of (iv, g) \<Rightarrow> (the iv, g)) else (feedback, g))"

definition g8_ecb_step :: "bool \<Rightarrow> nat \<times> gost28147 \<Rightarrow> bytes \<Rightarrow> bytes \<times> nat \<times> gost28147" where
  "g8_ecb_step encrypt = (\<lambda>(offset, g) chunk.
     (let g = mesh_key offset g
      in (the (if encrypt then g_encryptBlock g chunk else g_decryptBlock g chunk), offset + 8, g)))"

definition g8_processECB :: "gost28147 \<Rightarrow> bool \<Rightarrow> bytes \<Rightarrow> bytes option" where
  "g8_processECB g encrypt inp =
     (if length inp mod 8 \<noteq> 0 then None else Some (run 8 (g8_ecb_step encrypt) (0, g) inp))"

definition g8_cfb_step :: "bool \<Rightarrow> nat \<times> gost28147 \<times> bytes \<Rightarrow> bytes \<Rightarrow> bytes \<times> nat \<times> gost28147 \<times> bytes" where
  "g8_cfb_step encrypt = (\<lambda>(offset, g, feedback) chunk.
     (let (feedback, g) = mesh_iv offset g feedback;
          out = xorBlock chunk (the (g_encryptBlock g feedback));
          feedback = (if length chunk = 8 then (if encrypt then out else chunk) else feedback)
      in (out, offset + 8, g, feedback)))"

definition g8_processCFB :: "gost28147 \<Rightarrow> bytes \<Rightarrow> bool \<Rightarrow> bytes \<Rightarrow> bytes" where
  "g8_processCFB g iv encrypt inp = run 8 (g8_cfb_step encrypt) (0, g, take 8 iv) inp"

definition g8_cbc_step :: "bool \<Rightarrow> nat \<times> gost28147 \<times> bytes \<Rightarrow> bytes \<Rightarrow> bytes \<times> nat \<times> gost28147 \<times> bytes" where
  "g8_cbc_step encrypt = (\<lambda>(offset, g, feedback) chunk.
     (let (feedback, g) = mesh_iv offset g feedback
      in if encrypt
         then (let out = the (g_encryptBlock g (xorBlock chunk feedback)) in (out, offset + 8, g, out))
         else (xorBlock (the (g_decryptBlock g chunk)) feedback, offset + 8, g, chunk)))"

definition pad8 :: "bytes \<Rightarrow> bytes" where
  "pad8 inp = (let n = 8 - length inp mod 8 in inp @ replicate n (of_nat n))"

definition unpad8 :: "bytes \<Rightarrow> bytes option" where
  "unpad8 out =
     (let n = last out
      in if n = 0 \<or> n > 8 then None
         else if fold (\<lambda>i d. if i < unat n then d OR (out ! (length out - 1 - i) XOR n) else d) [0..<8] 0 \<noteq> 0 then None
         else Some (take (length out - unat n) out))"

definition g8_processCBC :: "gost28147 \<Rightarrow> bytes \<Rightarrow> bool \<Rightarrow> bytes \<Rightarrow> bytes option" where
  "g8_processCBC g iv encrypt inp =
     (if \<not> encrypt \<and> (length inp = 0 \<or> length inp mod 8 \<noteq> 0) then None
      else
        (let out = run 8 (g8_cbc_step encrypt) (0, g, take 8 iv) (if encrypt then pad8 inp else inp)
         in if encrypt then Some out else unpad8 out))"

definition g8_process :: "bool \<Rightarrow> g89_alg \<Rightarrow> bytes option" where
  "g8_process encrypt a =
     (let (ok, g) = setParamSet (g8_keyParams a) GOST28147_new;
          (ok', g') = g_setKey (keyData (the (currentKey (g8_base a)))) g
      in if \<not> ok \<or> \<not> ok' then None
         else if currentCipherMode (g8_base a) = SymMode_ECB then g8_processECB g' encrypt (g8_input a)
         else if currentCipherMode (g8_base a) = SymMode_CBC
         then g8_processCBC g' (g8_parameters a) encrypt (g8_input a)
         else Some (g8_processCFB g' (g8_parameters a) encrypt (g8_input a)))"

definition g8_usable :: "bool \<Rightarrow> g89_alg \<Rightarrow> bool" where
  "g8_usable encrypt a \<longleftrightarrow> currentKey (g8_base a) \<noteq> None
     \<and> (currentCipherMode (g8_base a) = SymMode_ECB \<or> length (g8_parameters a) \<ge> 8
        \<or> currentCipherMode (g8_base a) = SymMode_CBC \<and> \<not> encrypt \<and> (length (g8_input a) = 0 \<or> length (g8_input a) mod 8 \<noteq> 0))"

definition g8_finish :: "bool \<Rightarrow> g89_alg \<Rightarrow> (bool \<times> bytes \<times> g89_alg) option" where
  "g8_finish encrypt a =
     (if \<not> g8_usable encrypt a then None
      else
        (case g8_process encrypt a of
           None \<Rightarrow> Some (False, [], a\<lparr>g8_input := [], g8_parameters := []\<rparr>)
         | Some out \<Rightarrow>
             (let (ok, b) = (if encrypt then base_encryptFinal (g8_base a) else base_decryptFinal (g8_base a))
              in Some (ok, if ok then out else [], a\<lparr>g8_base := b, g8_input := [], g8_parameters := []\<rparr>))))"

definition g8_encryptFinal :: "g89_alg \<Rightarrow> (bool \<times> bytes \<times> g89_alg) option" where
  "g8_encryptFinal a = g8_finish True a"

definition g8_decryptFinal :: "g89_alg \<Rightarrow> (bool \<times> bytes \<times> g89_alg) option" where
  "g8_decryptFinal a = g8_finish False a"

section \<open>Pairs of modes\<close>

locale mode_pair =
  fixes block :: nat
    and step unstep :: "'s \<Rightarrow> bytes \<Rightarrow> bytes \<times> 's"
    and ok :: "'s \<Rightarrow> bool"
    and partial :: bool
  assumes size_pos: "0 < block"
    and undo: "ok s \<Longrightarrow> chunk \<noteq> [] \<Longrightarrow> length chunk = block \<or> partial \<and> length chunk < block \<Longrightarrow>
      step s chunk = (out, s') \<Longrightarrow> length out = length chunk \<and> unstep s out = (chunk, s') \<and> ok s'"
begin

definition whole :: "bytes \<Rightarrow> bool" where
  "whole inp \<longleftrightarrow> partial \<or> length inp mod block = 0"

lemma whole_take: "whole inp \<Longrightarrow> inp \<noteq> [] \<Longrightarrow> length (take block inp) = block \<or> partial \<and> length (take block inp) < block"
  by (cases "length inp < block") (auto simp: whole_def)

lemma whole_drop: "whole inp \<Longrightarrow> whole (drop block inp)"
  by (cases "length inp < block") (auto simp: whole_def mod_if)

lemma run_undone: "ok s \<Longrightarrow> whole inp \<Longrightarrow>
  length (run block step s inp) = length inp \<and> run block unstep s (run block step s inp) = inp"
proof (induction "length inp" arbitrary: inp s rule: less_induct)
  case less
  show ?case
  proof (cases "inp = []")
    case False
    obtain out s' where st: "step s (take block inp) = (out, s')" by (cases "step s (take block inp)")
    have u: "length out = length (take block inp)" "unstep s out = (take block inp, s')" "ok s'"
      using undo [OF less.prems(1) _ whole_take [OF less.prems(2) False] st] False size_pos by simp_all
    define rest where "rest = run block step s' (drop block inp)"
    have e: "run block step s inp = out @ rest"
      using False size_pos by (subst run.simps) (simp add: st rest_def)
    have "length (drop block inp) < length inp" using False size_pos by simp
    then have r: "length rest = length (drop block inp)" "run block unstep s' rest = drop block inp"
      unfolding rest_def using less.hyps [OF _ u(3) whole_drop [OF less.prems(2)]] by simp_all
    have t: "take block (out @ rest) = out" "drop block (out @ rest) = rest"
      using u(1) r(1) by (cases "length inp < block"; simp)+
    have "out \<noteq> []" using u(1) False size_pos by (cases inp; cases out) simp_all
    then have "run block unstep s (out @ rest) = take block inp @ run block unstep s' rest"
      using size_pos by (subst run.simps) (simp add: t u(2) del: take_append drop_append)
    then show ?thesis using u(1) r by (simp add: e)
  qed (simp add: run.simps)
qed

end

lemma gs_setKey_cipher [simp]: "gs_cipher (snd (gs_setKey key g)) = gs_cipher g" "gs_ok g \<Longrightarrow> gs_ok (snd (gs_setKey key g))"
  by (simp_all add: gs_setKey_def Let_def gs_ok_def expand_ok)

lemma cipher_with_facts [simp]: "gs_ok (cipher_with c key)" "gs_blockSize (cipher_with c key) = cipher_block c"
  by (simp_all add: cipher_with_def gs_blockSize_def) (simp add: GOSTSymmetric_new_def)

lemma cipher_block_pos [simp]: "0 < cipher_block c"
  by (simp add: cipher_block_def)

interpretation ecb: mode_pair "cipher_block c" "ecb_step (encrypt_keyed (cipher_with c key))"
  "ecb_step (decrypt_keyed (cipher_with c key))" "\<lambda>_. True" False for c key
proof
  fix s chunk out s'
  assume "length chunk = cipher_block c \<or> False \<and> length chunk < cipher_block c"
    "ecb_step (encrypt_keyed (cipher_with c key)) s chunk = (out, s')"
  then show "length out = length chunk \<and> ecb_step (decrypt_keyed (cipher_with c key)) s out = (chunk, s') \<and> True"
    using block_cipher.dec_enc [OF gs_block_cipher [of "cipher_with c key"], of chunk]
      block_cipher.enc_length [OF gs_block_cipher [of "cipher_with c key"], of chunk]
    by (auto simp: ecb_step_def)
qed simp

definition acpkm_ok :: "gost_cipher \<Rightarrow> nat \<times> gost_sym \<times> bytes \<Rightarrow> bool" where
  "acpkm_ok c = (\<lambda>(offset, g, counter). gs_ok g \<and> gs_cipher g = c \<and> length counter = cipher_block c)"

lemma acpkm_mesh_facts: "gs_ok g \<Longrightarrow> gs_ok (acpkm_meshKey g)" "gs_cipher (acpkm_meshKey g) = gs_cipher g"
  by (simp_all add: acpkm_meshKey_def Let_def)

interpretation acpkm: mode_pair "cipher_block c" "acpkm_step section" "acpkm_step section" "acpkm_ok c" True
  for c "section"
proof
  fix s chunk out s'
  assume s: "acpkm_ok c s" "acpkm_step section s chunk = (out, s')"
    and l: "length chunk = cipher_block c \<or> True \<and> length chunk < cipher_block c"
  obtain offset g0 counter where s0: "s = (offset, g0, counter)" by (cases s)
  define g where "g = (if section \<noteq> 0 \<and> offset \<noteq> 0 \<and> offset mod section = 0 then acpkm_meshKey g0 else g0)"
  have g: "gs_ok g" "gs_cipher g = c" "gs_blockSize g0 = cipher_block c" "gs_blockSize g = cipher_block c"
    and counter: "length counter = cipher_block c"
    using s(1) by (auto simp: g_def s0 acpkm_ok_def acpkm_mesh_facts gs_blockSize_def)
  have "length (encrypt_keyed g counter) = cipher_block c"
    using block_cipher.enc_length [OF gs_block_cipher [OF g(1)]] g(4) counter by simp
  moreover have "acpkm_step section s ch = (xorBlock ch (encrypt_keyed g counter), offset + cipher_block c, g,
      incrementHalf counter (cipher_block c div 2) (cipher_block c))" for ch
    by (simp add: s0 acpkm_step_def Let_def g_def g(3))
  ultimately show "length out = length chunk \<and> acpkm_step section s out = (chunk, s') \<and> acpkm_ok c s'"
    using s(2) l g counter by (auto simp: acpkm_ok_def xorBlock_cancel_le)
qed simp

section \<open>Whole messages\<close>

fun updates :: "(bytes \<Rightarrow> 'a \<Rightarrow> bool \<times> 'a) \<Rightarrow> bytes list \<Rightarrow> 'a \<Rightarrow> 'a option" where
  "updates upd [] a = Some a"
| "updates upd (d # ds) a = (case upd d a of (True, a) \<Rightarrow> updates upd ds a | (False, _) \<Rightarrow> None)"

definition finished :: "(bool \<times> bytes \<times> 'a) option \<Rightarrow> (bytes \<times> 'a) option" where
  "finished r = (case r of Some (True, out, a) \<Rightarrow> Some (out, a) | _ \<Rightarrow> None)"

definition ga_encrypt_message ::
  "gost_cipher \<Rightarrow> symmetric_key \<Rightarrow> sym_mode \<Rightarrow> bytes \<Rightarrow> bytes \<Rightarrow> nat \<Rightarrow> bytes list \<Rightarrow> gost_alg \<Rightarrow> (bytes \<times> gost_alg) option" where
  "ga_encrypt_message c key mode params aad tagBytes chunks a =
     (case ga_encryptInit c (Some key) mode params False aad tagBytes a of
        (False, _) \<Rightarrow> None
      | (True, a) \<Rightarrow>
          Option.bind (updates (ga_encryptUpdate c) chunks a) (\<lambda>a. finished (ga_encryptFinal c a)))"

definition ga_decrypt_message ::
  "gost_cipher \<Rightarrow> symmetric_key \<Rightarrow> sym_mode \<Rightarrow> bytes \<Rightarrow> bytes \<Rightarrow> nat \<Rightarrow> bytes list \<Rightarrow> gost_alg \<Rightarrow> (bytes \<times> gost_alg) option" where
  "ga_decrypt_message c key mode params aad tagBytes chunks a =
     (case ga_decryptInit c (Some key) mode params False aad tagBytes a of
        (False, _) \<Rightarrow> None
      | (True, a) \<Rightarrow>
          Option.bind (updates (ga_decryptUpdate c) chunks a) (\<lambda>a. finished (ga_decryptFinal c a)))"

text \<open>The object in the middle of an operation.\<close>

definition ga_during ::
  "sym_operation \<Rightarrow> symmetric_key \<Rightarrow> sym_mode \<Rightarrow> bytes \<Rightarrow> bytes \<Rightarrow> nat \<Rightarrow> bytes \<Rightarrow> gost_alg \<Rightarrow> bool" where
  "ga_during op key mode params aad tagBytes inp a \<longleftrightarrow>
     currentOperation (ga_base a) = op \<and> currentKey (ga_base a) = Some key \<and> currentCipherMode (ga_base a) = mode
     \<and> currentTagBytes (ga_base a) = tagBytes \<and> ga_input a = inp \<and> ga_parameters a = params
     \<and> ga_associatedData a = aad \<and> ga_encrypting a = (op = ENCRYPT)"

definition mgm_limit :: "gost_cipher \<Rightarrow> nat" where
  "mgm_limit c = (if c = MAGMA then 2 ^ 29 - 1 else 2 ^ 61 - 1)"

lemma ga_check_during:
  "ga_during op key mode params aad tb inp a \<Longrightarrow> ga_checkMaximumBytes c n a \<longleftrightarrow>
    (mode = SymMode_MGM \<longrightarrow> length inp + n \<le> mgm_limit c + (if op = ENCRYPT then 0 else tb))"
  by (auto simp: ga_during_def ga_checkMaximumBytes_def mgm_limit_def Let_def)

lemma ga_init_during:
  "ga_init c (Some key) mode params enc aad tb a = (True, a') \<Longrightarrow>
    ga_during (if enc then ENCRYPT else DECRYPT) key mode params aad tb [] a' \<and> ga_accepts c (Some key) mode params aad tb"
  by (auto simp: Let_def ga_init_def ga_during_def base_encryptInit_def base_decryptInit_def split: if_splits)

lemma ga_init_idle:
  "ga_accepts c (Some key) mode params aad tb \<Longrightarrow> currentOperation (ga_base a) = NONE \<Longrightarrow>
    fst (ga_init c (Some key) mode params enc aad tb a)"
  by (auto simp: Let_def ga_init_def base_encryptInit_def base_decryptInit_def)

lemma ga_encryptUpdate_during:
  assumes "ga_during ENCRYPT key mode params aad tb inp a" "ga_encryptUpdate c d a = (True, a')"
  shows "ga_during ENCRYPT key mode params aad tb (inp @ d) a' \<and> (mode = SymMode_MGM \<longrightarrow> length (inp @ d) \<le> mgm_limit c)"
  using assms(2) ga_check_during [OF assms(1), of c "length d"] assms(1)
  by (auto simp: Let_def ga_encryptUpdate_def ga_during_def base_encryptUpdate_def split: if_splits)

lemma ga_encryptUpdates_during:
  "ga_during ENCRYPT key mode params aad tb inp a \<Longrightarrow> (mode = SymMode_MGM \<Longrightarrow> length inp \<le> mgm_limit c) \<Longrightarrow>
    updates (ga_encryptUpdate c) ds a = Some a' \<Longrightarrow>
    ga_during ENCRYPT key mode params aad tb (inp @ concat ds) a'
    \<and> (mode = SymMode_MGM \<longrightarrow> length (inp @ concat ds) \<le> mgm_limit c)"
proof (induction ds arbitrary: inp a)
  case (Cons d ds)
  obtain a1 where u: "ga_encryptUpdate c d a = (True, a1)" "updates (ga_encryptUpdate c) ds a1 = Some a'"
    using Cons.prems(3) by (auto split: prod.splits bool.splits)
  have s: "ga_during ENCRYPT key mode params aad tb (inp @ d) a1" "mode = SymMode_MGM \<Longrightarrow> length (inp @ d) \<le> mgm_limit c"
    using ga_encryptUpdate_during [OF Cons.prems(1) u(1)] by auto
  show ?case using Cons.IH [OF s u(2)] by simp
qed simp

lemma ga_decryptUpdates_during:
  "ga_during DECRYPT key mode params aad tb inp a \<Longrightarrow>
    (mode = SymMode_MGM \<Longrightarrow> length (inp @ concat ds) \<le> mgm_limit c + tb) \<Longrightarrow>
    \<exists>a'. updates (ga_decryptUpdate c) ds a = Some a' \<and> ga_during DECRYPT key mode params aad tb (inp @ concat ds) a'"
proof (induction ds arbitrary: inp a)
  case (Cons d ds)
  have ch: "ga_checkMaximumBytes c (length d) a"
    using ga_check_during [OF Cons.prems(1), of c "length d"] Cons.prems(2) by auto
  obtain a1 where u: "ga_decryptUpdate c d a = (True, a1)" "ga_during DECRYPT key mode params aad tb (inp @ d) a1"
    using Cons.prems(1) ch by (auto simp: ga_decryptUpdate_def ga_during_def base_decryptUpdate_def Let_def)
  show ?case using Cons.IH [OF u(2)] Cons.prems(2) by (simp add: u(1))
qed simp

lemma processECB_back:
  assumes "processECB c key True inp = Some ct"
  shows "processECB c key False ct = Some inp"
proof -
  have m: "length inp mod cipher_block c = 0" using assms by (auto simp: processECB_def split: if_splits)
  then have ct: "ct = run (cipher_block c) (ecb_step (encrypt_keyed (cipher_with c key))) () inp"
    using assms by (simp add: processECB_def)
  show ?thesis
    using ecb.run_undone [where s = "()" and inp = inp and c = c and key = key] m by (simp add: processECB_def ecb.whole_def ct)
qed

lemma processCTRACPKM_back:
  assumes "length params = 4 + cipher_block c div 2"
  shows "processCTRACPKM c key params (processCTRACPKM c key params inp) = inp"
proof -
  have "acpkm_ok c (0, cipher_with c key, take (cipher_block c div 2) (drop 4 params) @ replicate (cipher_block c - cipher_block c div 2) 0)"
    using assms by (simp add: acpkm_ok_def cipher_with_def) (simp add: GOSTSymmetric_new_def)
  from acpkm.run_undone [OF this, of inp] show ?thesis
    by (simp add: processCTRACPKM_def Let_def acpkm.whole_def)
qed

lemma mgm_refused_len:
  "\<not> mgm_refused g icn aad len tb \<Longrightarrow> tb \<le> gs_blockSize g \<and> 4 \<le> tb"
  by (auto simp: mgm_refused_def Let_def)

lemma processMGM_back:
  assumes "length params = cipher_block c" "processMGM c key params aad tb True inp = Some out"
  shows "processMGM c key params aad tb False out = Some inp"
proof -
  let ?g = "cipher_with c key"
  have s: "\<not> mgm_short True inp aad tb" using assms(2) by (auto simp: processMGM_def split: if_splits)
  obtain ct tag where e: "mgmEncrypt ?g params aad inp tb = Some (ct, tag)" and out: "out = ct @ tag"
    using assms(2) s by (auto simp: processMGM_def)
  note b = gs_block_cipher [of ?g, simplified] and icn = assms(1)
  have f: "\<not> mgm_refused ?g params aad (length inp) tb"
    "ct = mgm_gamma (encrypt_keyed ?g) (cipher_block c) params inp"
    "tag = take tb (mgm_tag (encrypt_keyed ?g) (cipher_block c) params aad ct)"
    using e by (simp_all add: mgmEncrypt_Some)
  have l: "length ct = length inp" "length tag = tb"
    using mgm_refused_len [OF f(1)] f(2,3)
    by (simp_all add: block_cipher.length_mgm_gamma [OF b icn] block_cipher.length_mgm_tag [OF b icn])
  have "mgm_gamma (encrypt_keyed ?g) (cipher_block c) params ct = inp"
    by (simp add: f(2) block_cipher.mgm_gamma_back [OF b icn])
  then have d: "mgmDecrypt ?g params aad ct tag (replicate (length ct) 0) = (True, inp)"
    using f(1,3) l by (simp add: mgmDecrypt_exact icn Let_def)
  have "\<not> mgm_short False out aad tb" using s l by (auto simp: mgm_short_def out)
  then show ?thesis using d l by (simp add: processMGM_def out Let_def)
qed

lemma ga_process_back:
  assumes "ga_accepts c (Some key) mode params aad tb"
    "ga_during ENCRYPT key mode params aad tb inp a" "ga_process c True a = Some ct"
    "ga_during DECRYPT key mode params aad tb ct b"
  shows "ga_process c False b = Some inp" "ga_usable c False b"
proof -
  have m: "mode = SymMode_ECB \<or> mode = SymMode_CTR_ACPKM \<and> length params = 4 + cipher_block c div 2
    \<or> mode = SymMode_MGM \<and> length params = cipher_block c"
    using assms(1) by (auto simp: ga_accepts_def Let_def)
  show "ga_process c False b = Some inp"
    using m assms(2-4) processCTRACPKM_back [of params c "keyData key" inp]
    by (auto simp: ga_process_def ga_during_def Let_def processECB_back processMGM_back)
  show "ga_usable c False b" using m assms(4) by (auto simp: ga_usable_def ga_during_def)
qed

lemma ga_process_length:
  assumes "ga_accepts c (Some key) mode params aad tb"
    "ga_during ENCRYPT key mode params aad tb inp a" "ga_process c True a = Some ct" "mode = SymMode_MGM"
  shows "length ct = length inp + tb"
proof -
  have p: "processMGM c (keyData key) params aad tb True inp = Some ct"
    using assms(2-4) by (simp add: ga_process_def ga_during_def Let_def)
  then obtain c1 t where e: "mgmEncrypt (cipher_with c (keyData key)) params aad inp tb = Some (c1, t)" "ct = c1 @ t"
    by (auto simp: processMGM_def split: if_splits)
  have icn: "length params = gs_blockSize (cipher_with c (keyData key))"
    using assms(1,4) by (auto simp: ga_accepts_def Let_def)
  note b = gs_block_cipher [of "cipher_with c (keyData key)", simplified]
  have f: "\<not> mgm_refused (cipher_with c (keyData key)) params aad (length inp) tb"
    "c1 = mgm_gamma (encrypt_keyed (cipher_with c (keyData key))) (cipher_block c) params inp"
    "t = take tb (mgm_tag (encrypt_keyed (cipher_with c (keyData key))) (cipher_block c) params aad c1)"
    using e(1) by (simp_all add: mgmEncrypt_Some)
  show ?thesis
    using mgm_refused_len [OF f(1)] icn f(2,3) e(2)
    by (simp add: block_cipher.length_mgm_gamma [OF b] block_cipher.length_mgm_tag [OF b])
qed

lemma finished_Some: "finished r = Some (out, a) \<longleftrightarrow> r = Some (True, out, a)"
  by (auto simp: finished_def split: option.splits prod.splits bool.splits)

lemma ga_finish_during:
  assumes "ga_during (if enc then ENCRYPT else DECRYPT) key mode params aad tb inp a" "ga_usable c enc a"
    "ga_process c enc a = Some out"
  shows "\<exists>a'. ga_finish c enc a = Some (True, out, a') \<and> currentOperation (ga_base a') = NONE"
  using assms by (auto simp: ga_finish_def ga_during_def ga_wipe_def base_encryptFinal_def base_decryptFinal_def Let_def)

lemma ga_finish_True:
  "ga_finish c enc a = Some (True, out, a') \<Longrightarrow> ga_process c enc a = Some out \<and> currentOperation (ga_base a') = NONE"
  by (auto simp: ga_finish_def ga_wipe_def base_encryptFinal_def base_decryptFinal_def Let_def
      split: if_splits option.splits)

lemma ga_encrypt_message_Some:
  assumes "ga_encrypt_message c key mode params aad tb ps a = Some (ct, a')"
  obtains a1 where "ga_accepts c (Some key) mode params aad tb"
    "ga_during ENCRYPT key mode params aad tb (concat ps) a1" "ga_process c True a1 = Some ct"
    "mode = SymMode_MGM \<longrightarrow> length (concat ps) \<le> mgm_limit c" "currentOperation (ga_base a') = NONE"
proof -
  obtain a0 where i: "ga_init c (Some key) mode params True aad tb a = (True, a0)"
    and r: "Option.bind (updates (ga_encryptUpdate c) ps a0) (\<lambda>a. finished (ga_encryptFinal c a)) = Some (ct, a')"
    using assms by (auto simp: ga_encrypt_message_def ga_encryptInit_def split: prod.splits bool.splits)
  then obtain a1 where u: "updates (ga_encryptUpdate c) ps a0 = Some a1" and f: "ga_finish c True a1 = Some (True, ct, a')"
    by (auto simp: bind_eq_Some_conv finished_Some ga_encryptFinal_def)
  note d = ga_init_during [OF i]
  have "ga_during ENCRYPT key mode params aad tb ([] @ concat ps) a1 \<and> (mode = SymMode_MGM \<longrightarrow> length ([] @ concat ps) \<le> mgm_limit c)"
    by (rule ga_encryptUpdates_during [OF _ _ u]) (use d in simp_all)
  then show thesis using that [of a1] d ga_finish_True [OF f] by fastforce
qed

lemma ga_decrypt_message_Some:
  assumes "ga_accepts c (Some key) mode params aad tb" "currentOperation (ga_base a) = NONE"
    "mode = SymMode_MGM \<Longrightarrow> length (concat cs) \<le> mgm_limit c + tb"
    "\<And>b. ga_during DECRYPT key mode params aad tb (concat cs) b \<Longrightarrow> ga_usable c False b \<and> ga_process c False b = Some out"
  shows "\<exists>a'. ga_decrypt_message c key mode params aad tb cs a = Some (out, a') \<and> currentOperation (ga_base a') = NONE"
proof -
  obtain a0 where i: "ga_init c (Some key) mode params False aad tb a = (True, a0)"
    using ga_init_idle [OF assms(1,2), of False] by (cases "ga_init c (Some key) mode params False aad tb a") auto
  then have d: "ga_during DECRYPT key mode params aad tb [] a0" using ga_init_during [OF i] by simp
  obtain b where b: "updates (ga_decryptUpdate c) cs a0 = Some b" "ga_during DECRYPT key mode params aad tb (concat cs) b"
    using ga_decryptUpdates_during [OF d, of cs c] assms(3) by auto
  then show ?thesis
    using ga_finish_during [of False key mode params aad tb "concat cs" b c out] assms(4) [OF b(2)] i
    by (auto simp: ga_decrypt_message_def ga_decryptInit_def ga_decryptFinal_def finished_def)
qed

text \<open>
  What a GOST cipher object encrypted, in pieces of any size, an object with the same key
  and parameters decrypts to the message, in pieces of any size: for both ciphers, in ECB, in
  counter mode with key meshing and in MGM, where the tag is checked.
\<close>

theorem gost_messages_roundtrip:
  assumes "ga_encrypt_message c key mode params aad tagBytes ps a = Some (ct, a')"
    and "concat cs = ct"
  shows "\<exists>a''. ga_decrypt_message c key mode params aad tagBytes cs a' = Some (concat ps, a'')"
proof -
  obtain a1 where e: "ga_accepts c (Some key) mode params aad tagBytes"
    "ga_during ENCRYPT key mode params aad tagBytes (concat ps) a1" "ga_process c True a1 = Some ct"
    "mode = SymMode_MGM \<longrightarrow> length (concat ps) \<le> mgm_limit c" "currentOperation (ga_base a') = NONE"
    using assms(1) by (rule ga_encrypt_message_Some)
  have p: "ga_usable c False b \<and> ga_process c False b = Some (concat ps)"
    if "ga_during DECRYPT key mode params aad tagBytes (concat cs) b" for b
    using ga_process_back [OF e(1-3)] that assms(2) by blast
  have "length (concat cs) \<le> mgm_limit c + tagBytes" if m: "mode = SymMode_MGM"
    using ga_process_length [OF e(1-3) m] e(4) m assms(2) by simp
  then show ?thesis using ga_decrypt_message_Some [OF e(1,5) _ p] by blast
qed

theorem gost_messages_roundtrip_witness:
  "\<exists>ct a a''. ga_encrypt_message KUZNECHIK \<lparr>keyData = replicate 32 7, bitLen = 256\<rparr> SymMode_CTR_ACPKM
      (replicate 12 0) [] 0 [[1, 2], [3]] GOSTSymmetricAlgorithm_new = Some (ct, a)
    \<and> ga_decrypt_message KUZNECHIK \<lparr>keyData = replicate 32 7, bitLen = 256\<rparr> SymMode_CTR_ACPKM
        (replicate 12 0) [] 0 [ct] a = Some ([1, 2, 3], a'')"
proof -
  have "\<exists>ct a. ga_encrypt_message KUZNECHIK \<lparr>keyData = replicate 32 7, bitLen = 256\<rparr> SymMode_CTR_ACPKM
      (replicate 12 0) [] 0 [[1, 2], [3]] GOSTSymmetricAlgorithm_new = Some (ct, a)"
    by (simp add: ga_encrypt_message_def ga_encryptInit_def ga_init_def ga_accepts_def period_of_def loadBE32_def
        cipher_block_def base_encryptInit_def GOSTSymmetricAlgorithm_new_def SymmetricAlgorithm_new_def
        ga_encryptUpdate_def ga_checkMaximumBytes_def base_encryptUpdate_def ga_encryptFinal_def ga_finish_def
        ga_usable_def ga_process_def base_encryptFinal_def finished_def Let_def)
  then show ?thesis using gost_messages_roundtrip [where cs = "[ct]" for ct] by fastforce
qed

section \<open>GOST 28147-89 messages\<close>

lemma g_setKey_keyed: "length p = 32 \<Longrightarrow> g_keyed (snd (g_setKey p g))"
  by (simp add: g_setKey_def)

lemma keyed_block [simp]:
  "g_keyed g \<Longrightarrow> the (g_encryptBlock g x) = g89_crypt g False x"
  "g_keyed g \<Longrightarrow> the (g_decryptBlock g x) = g89_crypt g True x"
  by (simp_all add: g_encryptBlock_def g_decryptBlock_def g_crypt_keyed)

lemma meshKey_facts:
  assumes "g_keyed g" "meshKey iv g = Some (iv', g')"
  shows "g_keyed g'" "iv = Some x \<Longrightarrow> \<exists>y. iv' = Some y \<and> length y = 8"
proof -
  let ?next = "concat (map (\<lambda>i. g89_crypt g True (drop (8 * i) meshConstant)) [0..<4])"
  have "length ?next = 32" by (simp add: length_concat upt_rec)
  then have k: "g_keyed (snd (g_setKey ?next g))" by (rule g_setKey_keyed)
  have m: "meshKey iv g = Some (map_option (g89_crypt (snd (g_setKey ?next g)) False) iv, snd (g_setKey ?next g))"
    using assms(1) k by (simp add: meshKey_def Let_def)
  show "g_keyed g'" using assms(2) k m by simp
  show "\<exists>y. iv' = Some y \<and> length y = 8" if "iv = Some x" using assms(2) m that by auto
qed

lemma meshKey_Some: "g_keyed g \<Longrightarrow> \<exists>r. meshKey iv g = Some r"
  by (simp add: meshKey_def Let_def)

lemma mesh_key_keyed: "g_keyed g \<Longrightarrow> g_keyed (mesh_key offset g)"
  using meshKey_Some [of g None] meshKey_facts(1) [of g None] by (fastforce simp: mesh_key_def)

lemma mesh_iv_facts:
  assumes "g_keyed g" "length fb = 8" "mesh_iv offset g fb = (fb', g')"
  shows "g_keyed g'" "length fb' = 8"
proof -
  obtain r where "meshKey (Some fb) g = Some r" using meshKey_Some assms(1) by blast
  moreover obtain iv g2 where "r = (iv, g2)" by (cases r)
  ultimately have m: "meshKey (Some fb) g = Some (iv, g2)" by simp
  then obtain y where "iv = Some y" "length y = 8" using meshKey_facts(2) [OF assms(1) m refl] by blast
  then show "g_keyed g'" "length fb' = 8"
    using m meshKey_facts(1) [OF assms(1) m] assms by (auto simp: mesh_iv_def split: if_splits)
qed

definition g8_ok :: "nat \<times> gost28147 \<times> bytes \<Rightarrow> bool" where
  "g8_ok = (\<lambda>(offset, g, feedback). g_keyed g \<and> length feedback = 8)"

interpretation g8_ecb: mode_pair 8 "g8_ecb_step True" "g8_ecb_step False" "\<lambda>(offset, g). g_keyed g" False
  by unfold_locales
    (auto simp: g8_ecb_step_def Let_def mesh_key_keyed g89b.dec_enc)

interpretation g8_cfb: mode_pair 8 "g8_cfb_step True" "g8_cfb_step False" g8_ok True
proof
  fix s chunk out s'
  assume s: "g8_ok s" "g8_cfb_step True s chunk = (out, s')" and l: "length chunk = 8 \<or> True \<and> length chunk < 8"
  obtain offset g0 fb0 where s0: "s = (offset, g0, fb0)" by (cases s)
  obtain fb g where m: "mesh_iv offset g0 fb0 = (fb, g)" by (cases "mesh_iv offset g0 fb0")
  have k: "g_keyed g" "length fb = 8" using mesh_iv_facts [OF _ _ m] s(1) by (auto simp: s0 g8_ok_def)
  show "length out = length chunk \<and> g8_cfb_step False s out = (chunk, s') \<and> g8_ok s'"
    using s(2) l k by (auto simp: g8_cfb_step_def s0 m Let_def g8_ok_def xorBlock_cancel_le)
qed simp

interpretation g8_cbc: mode_pair 8 "g8_cbc_step True" "g8_cbc_step False" g8_ok False
proof
  fix s chunk out s'
  assume s: "g8_ok s" "g8_cbc_step True s chunk = (out, s')" and l: "length chunk = 8 \<or> False \<and> length chunk < 8"
  obtain offset g0 fb0 where s0: "s = (offset, g0, fb0)" by (cases s)
  obtain fb g where m: "mesh_iv offset g0 fb0 = (fb, g)" by (cases "mesh_iv offset g0 fb0")
  have k: "g_keyed g" "length fb = 8" using mesh_iv_facts [OF _ _ m] s(1) by (auto simp: s0 g8_ok_def)
  show "length out = length chunk \<and> g8_cbc_step False s out = (chunk, s') \<and> g8_ok s'"
    using s(2) l k by (auto simp: g8_cbc_step_def s0 m Let_def g8_ok_def g89b.dec_enc)
qed simp

text \<open>Padding.\<close>

lemma xor_byte_zero: "(x XOR y = 0) = (x = y)" for x y :: byte
  by (auto simp: bit_eq_iff bit_simps)

lemma fold_or_zero:
  "(fold (\<lambda>i d. if P i then d OR (f i) else d) is (d :: byte) = 0) \<longleftrightarrow> d = 0 \<and> (\<forall>i \<in> set is. P i \<longrightarrow> f i = 0)"
  by (induction "is" arbitrary: d) (auto simp: or_eq_0_iff)

lemma length_pad8: "length (pad8 inp) mod 8 = 0" "pad8 inp \<noteq> []"
  by (simp_all add: pad8_def Let_def) presburger

lemma unpad_pad8: "unpad8 (pad8 inp) = Some inp"
proof -
  define n where "n = 8 - length inp mod 8"
  have n: "0 < n" "n \<le> 8" by (simp_all add: n_def)
  then have u: "unat (of_nat n :: byte) = n" by (simp add: unat_of_nat)
  have p: "pad8 inp = inp @ replicate n (of_nat n)" by (simp add: pad8_def n_def Let_def)
  have l: "last (pad8 inp) = of_nat n" using n by (simp add: p)
  have nz: "(of_nat n :: byte) \<noteq> 0" using u n by (metis less_irrefl unat_0)
  have le: "\<not> (8 :: byte) < of_nat n" using u n by (simp add: word_less_nat_alt)
  have all: "pad8 inp ! (length (pad8 inp) - 1 - i) XOR of_nat n = 0" if "i < n" for i
  proof -
    have "\<not> length inp + n - Suc i < length inp" using that by arith
    then show ?thesis using that by (simp add: p nth_append)
  qed
  show ?thesis
    using all by (simp add: unpad8_def Let_def l nz le u fold_or_zero) (simp add: p)
qed

definition g8_encrypt_message ::
  "symmetric_key \<Rightarrow> bytes \<Rightarrow> sym_mode \<Rightarrow> bytes \<Rightarrow> bool \<Rightarrow> bytes list \<Rightarrow> g89_alg \<Rightarrow> (bytes \<times> g89_alg) option" where
  "g8_encrypt_message key oid mode iv padding chunks a =
     (case g8_encryptInit (Some key) oid mode iv padding [] 0 a of
        (False, _) \<Rightarrow> None
      | (True, a) \<Rightarrow> Option.bind (updates g8_encryptUpdate chunks a) (\<lambda>a. finished (g8_encryptFinal a)))"

definition g8_decrypt_message ::
  "symmetric_key \<Rightarrow> bytes \<Rightarrow> sym_mode \<Rightarrow> bytes \<Rightarrow> bool \<Rightarrow> bytes list \<Rightarrow> g89_alg \<Rightarrow> (bytes \<times> g89_alg) option" where
  "g8_decrypt_message key oid mode iv padding chunks a =
     (case g8_decryptInit (Some key) oid mode iv padding [] 0 a of
        (False, _) \<Rightarrow> None
      | (True, a) \<Rightarrow> Option.bind (updates g8_decryptUpdate chunks a) (\<lambda>a. finished (g8_decryptFinal a)))"

definition g8_during ::
  "sym_operation \<Rightarrow> symmetric_key \<Rightarrow> bytes \<Rightarrow> sym_mode \<Rightarrow> bytes \<Rightarrow> bytes \<Rightarrow> g89_alg \<Rightarrow> bool" where
  "g8_during op key oid mode iv inp a \<longleftrightarrow>
     currentOperation (g8_base a) = op \<and> currentKey (g8_base a) = Some key \<and> currentCipherMode (g8_base a) = mode
     \<and> g8_input a = inp \<and> g8_parameters a = iv \<and> g8_keyParams a = oid"

lemma g8_init_during:
  "g8_init (Some key) oid mode iv padding enc a = (True, a') \<Longrightarrow>
    g8_during (if enc then ENCRYPT else DECRYPT) key oid mode iv [] a' \<and> g8_accepts (Some key) oid mode iv padding"
  by (auto simp: Let_def g8_init_def g8_during_def base_encryptInit_def base_decryptInit_def split: if_splits)

lemma g8_init_idle:
  "g8_accepts (Some key) oid mode iv padding \<Longrightarrow> currentOperation (g8_base a) = NONE \<Longrightarrow>
    fst (g8_init (Some key) oid mode iv padding enc a)"
  by (auto simp: Let_def g8_init_def base_encryptInit_def base_decryptInit_def)

lemma g8_encryptUpdates_during:
  "g8_during ENCRYPT key oid mode iv inp a \<Longrightarrow>
    \<exists>a'. updates g8_encryptUpdate ds a = Some a' \<and> g8_during ENCRYPT key oid mode iv (inp @ concat ds) a'"
proof (induction ds arbitrary: inp a)
  case (Cons d ds)
  obtain a1 where u: "g8_encryptUpdate d a = (True, a1)" "g8_during ENCRYPT key oid mode iv (inp @ d) a1"
    using Cons.prems by (auto simp: g8_encryptUpdate_def g8_during_def base_encryptUpdate_def Let_def)
  show ?case using Cons.IH [OF u(2)] by (simp add: u(1))
qed simp

lemma g8_decryptUpdates_during:
  "g8_during DECRYPT key oid mode iv inp a \<Longrightarrow>
    \<exists>a'. updates g8_decryptUpdate ds a = Some a' \<and> g8_during DECRYPT key oid mode iv (inp @ concat ds) a'"
proof (induction ds arbitrary: inp a)
  case (Cons d ds)
  obtain a1 where u: "g8_decryptUpdate d a = (True, a1)" "g8_during DECRYPT key oid mode iv (inp @ d) a1"
    using Cons.prems by (auto simp: g8_decryptUpdate_def g8_during_def base_decryptUpdate_def Let_def)
  show ?case using Cons.IH [OF u(2)] by (simp add: u(1))
qed simp

lemma g8_modes_back:
  assumes "g_keyed g"
  shows "g8_processECB g True inp = Some ct \<Longrightarrow> g8_processECB g False ct = Some inp"
    "length iv = 8 \<Longrightarrow> g8_processCFB g iv False (g8_processCFB g iv True inp) = inp"
    "length iv = 8 \<Longrightarrow> g8_processCBC g iv True inp = Some ct \<Longrightarrow> g8_processCBC g iv False ct = Some inp"
proof -
  show "g8_processECB g False ct = Some inp" if e: "g8_processECB g True inp = Some ct"
  proof -
    have m: "length inp mod 8 = 0" using e by (auto simp: g8_processECB_def split: if_splits)
    then show ?thesis
      using e g8_ecb.run_undone [of "(0, g)" inp] assms by (auto simp: g8_processECB_def g8_ecb.whole_def)
  qed
  have ok: "g8_ok (0, g, take 8 iv)" if "length iv = 8" using that assms by (simp add: g8_ok_def)
  show "g8_processCFB g iv False (g8_processCFB g iv True inp) = inp" if "length iv = 8"
    using g8_cfb.run_undone [OF ok [OF that], of inp] by (simp add: g8_processCFB_def g8_cfb.whole_def)
  show "g8_processCBC g iv False ct = Some inp" if "length iv = 8" "g8_processCBC g iv True inp = Some ct"
  proof -
    have ct: "ct = run 8 (g8_cbc_step True) (0, g, take 8 iv) (pad8 inp)"
      using that(2) by (simp add: g8_processCBC_def Let_def)
    have r: "length ct = length (pad8 inp)" "run 8 (g8_cbc_step False) (0, g, take 8 iv) ct = pad8 inp"
      using g8_cbc.run_undone [OF ok [OF that(1)], of "pad8 inp"] length_pad8 [of inp]
      by (simp_all add: g8_cbc.whole_def ct)
    show ?thesis
      using r length_pad8 [of inp] by (simp add: g8_processCBC_def Let_def unpad_pad8)
  qed
qed

lemma g8_process_back:
  assumes "g8_accepts (Some key) oid mode iv padding"
    "g8_during ENCRYPT key oid mode iv inp a" "g8_process True a = Some ct"
    "g8_during DECRYPT key oid mode iv ct b"
  shows "g8_process False b = Some inp" "g8_usable False b"
proof -
  obtain g where p: "setParamSet oid GOST28147_new = (True, g)"
    using assms(1) by (cases "setParamSet oid GOST28147_new") (auto simp: g8_accepts_def)
  obtain g' where k: "g_setKey (keyData key) g = (True, g')" "g_keyed g'"
    using assms(1) by (auto simp: g8_accepts_def g_setKey_def)
  have m: "mode = SymMode_ECB \<or> mode = SymMode_CFB \<and> length iv = 8 \<or> mode = SymMode_CBC \<and> length iv = 8"
    using assms(1) by (auto simp: g8_accepts_def)
  show "g8_process False b = Some inp"
    using m assms(2-4) g8_modes_back(1,3) [OF k(2)] g8_modes_back(2) [OF k(2), of iv inp]
    by (auto simp: g8_process_def g8_during_def p k(1))
  show "g8_usable False b" using m assms(4) by (auto simp: g8_usable_def g8_during_def)
qed

lemma g8_finish_during:
  assumes "g8_during (if enc then ENCRYPT else DECRYPT) key oid mode iv inp a" "g8_usable enc a"
    "g8_process enc a = Some out"
  shows "\<exists>a'. g8_finish enc a = Some (True, out, a')"
  using assms by (auto simp: g8_finish_def g8_during_def base_encryptFinal_def base_decryptFinal_def Let_def)

lemma g8_finish_True:
  "g8_finish enc a = Some (True, out, a') \<Longrightarrow> g8_process enc a = Some out \<and> currentOperation (g8_base a') = NONE"
  by (auto simp: g8_finish_def base_encryptFinal_def base_decryptFinal_def Let_def split: if_splits option.splits)

text \<open>
  The same for GOST 28147-89: ECB, CFB and CBC with padding, with the key meshed every 1024
  bytes, for every parameter set the object accepts.
\<close>

theorem gost89_messages_roundtrip:
  assumes "g8_encrypt_message key oid mode iv padding ps a = Some (ct, a')"
    and "concat cs = ct"
  shows "\<exists>a''. g8_decrypt_message key oid mode iv padding cs a' = Some (concat ps, a'')"
proof -
  obtain a0 a1 where i: "g8_init (Some key) oid mode iv padding True a = (True, a0)"
    and u: "updates g8_encryptUpdate ps a0 = Some a1" and f: "g8_finish True a1 = Some (True, ct, a')"
    using assms(1) by (auto simp: g8_encrypt_message_def g8_encryptInit_def g8_encryptFinal_def bind_eq_Some_conv
        finished_Some split: prod.splits bool.splits)
  have acc: "g8_accepts (Some key) oid mode iv padding" and d: "g8_during ENCRYPT key oid mode iv (concat ps) a1"
    using g8_init_during [OF i] g8_encryptUpdates_during [of key oid mode iv "[]" a0 ps] u by auto
  have e: "g8_process True a1 = Some ct" "currentOperation (g8_base a') = NONE"
    using g8_finish_True [OF f] by auto
  obtain b0 where j: "g8_init (Some key) oid mode iv padding False a' = (True, b0)"
    using g8_init_idle [OF acc e(2), of False] by (cases "g8_init (Some key) oid mode iv padding False a'") auto
  then obtain b1 where b: "updates g8_decryptUpdate cs b0 = Some b1" "g8_during DECRYPT key oid mode iv ct b1"
    using g8_init_during [OF j] g8_decryptUpdates_during [of key oid mode iv "[]" b0 cs] assms(2) by auto
  obtain a'' where "g8_finish False b1 = Some (True, concat ps, a'')"
    using g8_finish_during [of False key oid mode iv ct b1 "concat ps"] g8_process_back [OF acc d e(1) b(2)] b(2) by auto
  then show ?thesis
    by (simp add: g8_decrypt_message_def g8_decryptInit_def j b(1) g8_decryptFinal_def finished_def)
qed

theorem gost89_messages_roundtrip_witness:
  "\<exists>ct a a''. g8_encrypt_message \<lparr>keyData = replicate 32 7, bitLen = 256\<rparr> [] SymMode_CBC
      (replicate 8 0) True [[1, 2], [3]] GOST28147Algorithm_new = Some (ct, a)
    \<and> g8_decrypt_message \<lparr>keyData = replicate 32 7, bitLen = 256\<rparr> [] SymMode_CBC
        (replicate 8 0) True [ct] a = Some ([1, 2, 3], a'')"
proof -
  have "\<exists>ct a. g8_encrypt_message \<lparr>keyData = replicate 32 7, bitLen = 256\<rparr> [] SymMode_CBC
      (replicate 8 0) True [[1, 2], [3]] GOST28147Algorithm_new = Some (ct, a)"
    by (simp add: g8_encrypt_message_def g8_encryptInit_def g8_init_def g8_accepts_def setParamSet_def
        base_encryptInit_def GOST28147Algorithm_new_def SymmetricAlgorithm_new_def g8_encryptUpdate_def
        base_encryptUpdate_def g8_encryptFinal_def g8_finish_def g8_usable_def g8_process_def g_setKey_def
        g8_processCBC_def base_encryptFinal_def finished_def Let_def)
  then show ?thesis using gost89_messages_roundtrip [where cs = "[ct]" for ct] by fastforce
qed

text \<open>
  A final call that fails does not end the operation, but takes its parameters away: the
  object refuses every new operation, and after more input the next final call reads the nonce
  of MGM from an empty string.
\<close>

theorem failed_final_keeps_object_busy:
  assumes "ga_during DECRYPT key SymMode_MGM params aad tagBytes inp a"
    and "ga_decryptFinal c a = Some (False, out, a')"
  shows "\<not> fst (ga_decryptInit c key' mode' iv padding aad' tagBytes' a')
    \<and> (ga_decryptUpdate c d a' = (True, a'') \<and> tagBytes < length d \<longrightarrow> ga_decryptFinal c a'' = None)"
proof -
  have a': "a' = ga_wipe a"
    using assms by (auto simp: ga_decryptFinal_def ga_finish_def ga_during_def base_decryptFinal_def Let_def
        split: if_splits option.splits)
  then have d: "ga_during DECRYPT key SymMode_MGM [] [] tagBytes [] a'"
    using assms(1) by (simp add: ga_wipe_def ga_during_def)
  then have "\<not> fst (ga_decryptInit c key' mode' iv padding aad' tagBytes' a')"
    by (auto simp: ga_decryptInit_def ga_init_def base_decryptInit_def ga_during_def Let_def)
  moreover have "ga_decryptFinal c a'' = None" if u: "ga_decryptUpdate c d a' = (True, a'')" "tagBytes < length d"
  proof -
    have "ga_during DECRYPT key SymMode_MGM [] [] tagBytes d a''"
      using d u(1) by (auto simp: Let_def ga_decryptUpdate_def ga_during_def base_decryptUpdate_def split: if_splits)
    then show ?thesis
      using u(2) by (auto simp: ga_decryptFinal_def ga_finish_def ga_usable_def ga_during_def mgm_short_def cipher_block_def)
  qed
  ultimately show ?thesis by blast
qed

theorem failed_final_keeps_object_busy_witness:
  "\<exists>a a'. ga_during DECRYPT \<lparr>keyData = replicate 32 7, bitLen = 256\<rparr> SymMode_MGM (replicate 16 0) [] 16 [1] a
    \<and> ga_decryptFinal KUZNECHIK a = Some (False, [], a')
    \<and> \<not> fst (ga_decryptInit KUZNECHIK None SymMode_ECB [] False [] 0 a')"
proof -
  let ?k = "\<lparr>keyData = replicate 32 7, bitLen = 256\<rparr>"
  let ?a = "GOSTSymmetricAlgorithm_new\<lparr>ga_base := SymmetricAlgorithm_new\<lparr>currentKey := Some ?k,
    currentCipherMode := SymMode_MGM, currentTagBytes := 16, currentOperation := DECRYPT\<rparr>,
    ga_input := [1], ga_parameters := replicate 16 0\<rparr>"
  have d: "ga_during DECRYPT ?k SymMode_MGM (replicate 16 0) [] 16 [1] ?a"
    by (simp add: ga_during_def GOSTSymmetricAlgorithm_new_def)
  have "ga_decryptFinal KUZNECHIK ?a = Some (False, [], ga_wipe ?a)"
    by (simp add: ga_decryptFinal_def ga_finish_def ga_usable_def ga_process_def processMGM_def mgm_short_def Let_def
        GOSTSymmetricAlgorithm_new_def)
  then show ?thesis using d failed_final_keeps_object_busy [OF d] by blast
qed

end
