(* ===== verification/Gost_Mac.thy ===== *)
theory Gost_Mac
  imports Gost_Alg
begin

text \<open>
  The MAC objects for the GOST ciphers: \<^verbatim>\<open>crypto/MacAlgorithm.cpp\<close>,
  \<^verbatim>\<open>crypto/GOSTMacAlgorithm.cpp\<close> and \<^verbatim>\<open>crypto/GOST28147MacAlgorithm.cpp\<close>. Shown: verification
  accepts exactly the signature that signing the same message under the same key gives; the MAC
  of the objects is the beginning of \<open>omac\<close> of the cipher class, which is a second copy of the
  same construction; and the GOST 28147-89 MAC of the empty message is the same for all keys.
\<close>

unbundle bit_operations_syntax

section \<open>The base class\<close>

datatype mac_operation = MAC_NONE | SIGN | VERIFY

text \<open>\<open>gm_keyParams\<close> are the algorithm parameters of the current key.\<close>

record gost_mac =
  gm_operation :: mac_operation
  gm_key :: "symmetric_key option"
  gm_keyParams :: bytes
  gm_input :: bytes

definition MacAlgorithm_new :: gost_mac where
  "MacAlgorithm_new = \<lparr>gm_operation = MAC_NONE, gm_key = None, gm_keyParams = [], gm_input = []\<rparr>"

definition mac_signInit :: "symmetric_key option \<Rightarrow> bytes \<Rightarrow> gost_mac \<Rightarrow> bool \<times> gost_mac" where
  "mac_signInit key oid m =
     (if key = None \<or> gm_operation m \<noteq> MAC_NONE then (False, m)
      else (True, m\<lparr>gm_key := key, gm_keyParams := oid, gm_operation := SIGN\<rparr>))"

definition mac_signUpdate :: "gost_mac \<Rightarrow> bool" where
  "mac_signUpdate m \<longleftrightarrow> gm_operation m = SIGN"

definition mac_signFinal :: "gost_mac \<Rightarrow> bool \<times> gost_mac" where
  "mac_signFinal m =
     (if gm_operation m \<noteq> SIGN then (False, m) else (True, m\<lparr>gm_operation := MAC_NONE, gm_key := None\<rparr>))"

definition mac_verifyInit :: "symmetric_key option \<Rightarrow> bytes \<Rightarrow> gost_mac \<Rightarrow> bool \<times> gost_mac" where
  "mac_verifyInit key oid m =
     (if key = None \<or> gm_operation m \<noteq> MAC_NONE then (False, m)
      else (True, m\<lparr>gm_operation := VERIFY, gm_key := key, gm_keyParams := oid\<rparr>))"

definition mac_verifyUpdate :: "gost_mac \<Rightarrow> bool" where
  "mac_verifyUpdate m \<longleftrightarrow> gm_operation m = VERIFY"

definition mac_verifyFinal :: "gost_mac \<Rightarrow> bool \<times> gost_mac" where
  "mac_verifyFinal m =
     (if gm_operation m \<noteq> VERIFY then (False, m) else (True, m\<lparr>gm_operation := MAC_NONE, gm_key := None\<rparr>))"

section \<open>The GOST objects\<close>

text \<open>
  Both classes start by wiping what was collected, whether or not the call is then accepted.
\<close>

definition gm_signInit :: "symmetric_key option \<Rightarrow> bytes \<Rightarrow> gost_mac \<Rightarrow> bool \<times> gost_mac" where
  "gm_signInit key oid m0 =
     (let m = m0\<lparr>gm_input := []\<rparr>
      in case key of
           None \<Rightarrow> (False, m)
         | Some k \<Rightarrow> if length (keyData k) \<noteq> 32 then (False, m) else mac_signInit key oid m)"

definition gm_signUpdate :: "bytes \<Rightarrow> gost_mac \<Rightarrow> bool \<times> gost_mac" where
  "gm_signUpdate data m = (if \<not> mac_signUpdate m then (False, m) else (True, m\<lparr>gm_input := gm_input m @ data\<rparr>))"

definition gm_verifyInit :: "symmetric_key option \<Rightarrow> bytes \<Rightarrow> gost_mac \<Rightarrow> bool \<times> gost_mac" where
  "gm_verifyInit key oid m0 =
     (let m = m0\<lparr>gm_input := []\<rparr>
      in case key of
           None \<Rightarrow> (False, m)
         | Some k \<Rightarrow> if length (keyData k) \<noteq> 32 then (False, m) else mac_verifyInit key oid m)"

definition gm_verifyUpdate :: "bytes \<Rightarrow> gost_mac \<Rightarrow> bool \<times> gost_mac" where
  "gm_verifyUpdate data m = (if \<not> mac_verifyUpdate m then (False, m) else (True, m\<lparr>gm_input := gm_input m @ data\<rparr>))"

definition getMacSize :: "gost_cipher \<Rightarrow> nat" where
  "getMacSize c = (if c = KUZNECHIK then 8 else 4)"

definition calculate_omac :: "gost_cipher \<Rightarrow> bytes \<Rightarrow> bytes \<Rightarrow> bytes" where
  "calculate_omac c key inp =
     (let block = (if c = KUZNECHIK then 16 else 8);
          cipher = snd (gs_setKey key (GOSTSymmetric_new c));
          E = (\<lambda>x. the (gs_encryptBlock cipher x));
          k1 = shiftSubkey (E (replicate block 0)) block;
          k2 = shiftSubkey k1 block;
          complete = (length inp \<noteq> 0 \<and> length inp mod block = 0);
          beforeLast = (if complete then length inp div block - 1 else length inp div block);
          chain = fold (\<lambda>n chain. E (xorBlock chain (take block (drop (n * block) inp)))) [0..<beforeLast]
                    (replicate block 0);
          tail = drop (beforeLast * block) inp;
          last = (if complete then xorBlock (take block tail) k1
                  else xorBlock (tail @ 0x80 # replicate (block - 1 - length tail) 0) k2)
      in take (getMacSize c) (E (xorBlock chain last)))"

definition mac_mesh :: "nat \<Rightarrow> gost28147 \<times> bytes \<Rightarrow> gost28147 \<times> bytes" where
  "mac_mesh processed = (\<lambda>(g, state). (let (iv, g) = mesh_iv processed g state in (g, iv)))"

fun mac_blocks :: "nat \<Rightarrow> nat \<Rightarrow> bytes \<Rightarrow> gost28147 \<times> bytes \<Rightarrow> gost28147 \<times> bytes" where
  "mac_blocks 0 processed inp s = s"
| "mac_blocks (Suc n) processed inp s =
     (let (g, state) = mac_mesh processed s
      in mac_blocks n (processed + 8) (drop 8 inp) (g, macBlock g state (take 8 inp)))"

text \<open>
  A whole message in blocks, the rest padded with zeros, and one block of zeros more for a
  message of one block.
\<close>

definition imit :: "gost28147 \<Rightarrow> bytes \<Rightarrow> bytes" where
  "imit g inp =
     (let n = length inp div 8;
          (g, state) = mac_blocks n 0 inp (g, replicate 8 0);
          rest = drop (8 * n) inp;
          state = (if rest \<noteq> [] then macBlock g state (rest @ replicate (8 - length rest) 0) else state);
          processed = 8 * n + (if rest \<noteq> [] then 8 else 0);
          state = (if processed = 8 then macBlock g state (replicate 8 0) else state)
      in take 4 state)"

definition calculate_imit :: "bytes \<Rightarrow> bytes \<Rightarrow> bytes \<Rightarrow> bytes option" where
  "calculate_imit oid key inp =
     (let (ok, g) = setParamSet oid GOST28147_new
      in if \<not> ok then None else (let (ok, g) = g_setKey key g in if \<not> ok then None else Some (imit g inp)))"

datatype mac_class = Omac gost_cipher | Imit

definition gm_calculate :: "mac_class \<Rightarrow> gost_mac \<Rightarrow> bytes option" where
  "gm_calculate k m =
     (case k of
        Omac c \<Rightarrow> Some (calculate_omac c (keyData (the (gm_key m))) (gm_input m))
      | Imit \<Rightarrow> calculate_imit (gm_keyParams m) (keyData (the (gm_key m))) (gm_input m))"

text \<open>
  The final calls. Without a key the code reads through a null pointer: no result. Verification
  compares before it asks the base class whether it was verifying at all.
\<close>

definition mac_equal :: "bytes \<Rightarrow> bytes \<Rightarrow> bool" where
  "mac_equal a b = (if length a \<noteq> length b then False else equalConstantTime a b)"

definition gm_signFinal :: "mac_class \<Rightarrow> gost_mac \<Rightarrow> (bool \<times> bytes \<times> gost_mac) option" where
  "gm_signFinal k m =
     (if gm_key m = None then None
      else
        (case gm_calculate k m of
           None \<Rightarrow> Some (False, [], m)
         | Some mac \<Rightarrow> (let (ok, m) = mac_signFinal (m\<lparr>gm_input := []\<rparr>) in Some (ok, mac, m))))"

definition gm_verifyFinal :: "mac_class \<Rightarrow> bytes \<Rightarrow> gost_mac \<Rightarrow> (bool \<times> gost_mac) option" where
  "gm_verifyFinal k signature m =
     (if gm_key m = None then None
      else
        (case gm_calculate k m of
           None \<Rightarrow> Some (False, m)
         | Some expected \<Rightarrow>
             (let (ok, m) = mac_verifyFinal (m\<lparr>gm_input := []\<rparr>) in Some (ok \<and> mac_equal expected signature, m))))"

section \<open>Messages\<close>

definition mac_sign :: "mac_class \<Rightarrow> symmetric_key \<Rightarrow> bytes \<Rightarrow> bytes list \<Rightarrow> gost_mac \<Rightarrow> (bytes \<times> gost_mac) option" where
  "mac_sign k key oid chunks m =
     (case gm_signInit (Some key) oid m of
        (False, _) \<Rightarrow> None
      | (True, m) \<Rightarrow> Option.bind (updates gm_signUpdate chunks m) (\<lambda>m. finished (gm_signFinal k m)))"

definition mac_verify :: "mac_class \<Rightarrow> symmetric_key \<Rightarrow> bytes \<Rightarrow> bytes list \<Rightarrow> bytes \<Rightarrow> gost_mac \<Rightarrow> (bool \<times> gost_mac) option" where
  "mac_verify k key oid chunks signature m =
     (case gm_verifyInit (Some key) oid m of
        (False, _) \<Rightarrow> None
      | (True, m) \<Rightarrow> Option.bind (updates gm_verifyUpdate chunks m) (gm_verifyFinal k signature))"

definition gm_during :: "mac_operation \<Rightarrow> symmetric_key \<Rightarrow> bytes \<Rightarrow> bytes \<Rightarrow> gost_mac \<Rightarrow> bool" where
  "gm_during op key oid inp m \<longleftrightarrow>
     gm_operation m = op \<and> gm_key m = Some key \<and> gm_keyParams m = oid \<and> gm_input m = inp"

lemma gm_signInit_during:
  "gm_signInit (Some key) oid m = (True, m') \<Longrightarrow> gm_during SIGN key oid [] m' \<and> length (keyData key) = 32"
  by (auto simp: gm_signInit_def mac_signInit_def gm_during_def Let_def split: if_splits)

lemma gm_verifyInit_during:
  "gm_verifyInit (Some key) oid m = (True, m') \<Longrightarrow> gm_during VERIFY key oid [] m' \<and> length (keyData key) = 32"
  by (auto simp: gm_verifyInit_def mac_verifyInit_def gm_during_def Let_def split: if_splits)

lemma gm_signUpdates_during:
  "gm_during SIGN key oid inp m \<Longrightarrow>
    \<exists>m'. updates gm_signUpdate ds m = Some m' \<and> gm_during SIGN key oid (inp @ concat ds) m'"
proof (induction ds arbitrary: inp m)
  case (Cons d ds)
  obtain m1 where u: "gm_signUpdate d m = (True, m1)" "gm_during SIGN key oid (inp @ d) m1"
    by (rule that [of "m\<lparr>gm_input := gm_input m @ d\<rparr>"])
      (use Cons.prems in \<open>auto simp: gm_signUpdate_def mac_signUpdate_def gm_during_def\<close>)
  show ?case using Cons.IH [OF u(2)] by (simp add: u(1))
qed simp

lemma gm_verifyUpdates_during:
  "gm_during VERIFY key oid inp m \<Longrightarrow>
    \<exists>m'. updates gm_verifyUpdate ds m = Some m' \<and> gm_during VERIFY key oid (inp @ concat ds) m'"
proof (induction ds arbitrary: inp m)
  case (Cons d ds)
  obtain m1 where u: "gm_verifyUpdate d m = (True, m1)" "gm_during VERIFY key oid (inp @ d) m1"
    by (rule that [of "m\<lparr>gm_input := gm_input m @ d\<rparr>"])
      (use Cons.prems in \<open>auto simp: gm_verifyUpdate_def mac_verifyUpdate_def gm_during_def\<close>)
  show ?case using Cons.IH [OF u(2)] by (simp add: u(1))
qed simp

lemma mac_equal_iff: "mac_equal a b \<longleftrightarrow> a = b"
  by (auto simp: mac_equal_def equalConstantTime_iff)

text \<open>
  C19: Verification accepts exactly the signature that signing gives: whatever the pieces in which
  the message was signed and is verified, with any object that is free, under the same key and
  parameters.
\<close>

theorem mac_verifies_exactly:
  assumes "mac_sign k key oid ps m = Some (mac, m')"
    and "gm_operation n = MAC_NONE" and "concat cs = concat ps"
  shows "\<exists>n'. mac_verify k key oid cs signature n = Some (signature = mac, n') \<and> gm_operation n' = MAC_NONE"
proof -
  obtain m0 where i: "gm_signInit (Some key) oid m = (True, m0)"
    using assms(1) by (auto simp: mac_sign_def split: prod.splits bool.splits)
  have d: "gm_during SIGN key oid [] m0" "length (keyData key) = 32" using gm_signInit_during [OF i] by auto
  obtain m1 where u: "updates gm_signUpdate ps m0 = Some m1" "gm_during SIGN key oid (concat ps) m1"
    using gm_signUpdates_during [OF d(1), of ps] by auto
  have f: "gm_signFinal k m1 = Some (True, mac, m')"
    using assms(1) by (auto simp: mac_sign_def i u(1) finished_Some)
  then have c: "gm_calculate k m1 = Some mac"
    by (auto simp: gm_signFinal_def Let_def split: if_splits option.splits prod.splits)
  obtain n0 where j: "gm_verifyInit (Some key) oid n = (True, n0)"
    using d(2) assms(2) by (simp add: gm_verifyInit_def mac_verifyInit_def Let_def)
  obtain n1 where v: "updates gm_verifyUpdate cs n0 = Some n1" "gm_during VERIFY key oid (concat cs) n1"
    using gm_verifyUpdates_during [of key oid "[]" n0 cs] gm_verifyInit_during [OF j] by auto
  have "gm_calculate k n1 = gm_calculate k m1"
    using u(2) v(2) assms(3) by (simp add: gm_calculate_def gm_during_def split: mac_class.split)
  then show ?thesis
    using v(2) c by (auto simp: mac_verify_def j v(1) gm_verifyFinal_def gm_during_def mac_verifyFinal_def mac_equal_iff)
qed

theorem mac_verifies_exactly_witness:
  "\<exists>mac m' n'. mac_sign (Omac MAGMA) \<lparr>keyData = replicate 32 7, bitLen = 256\<rparr> [] [[1, 2], [3]] MacAlgorithm_new = Some (mac, m')
    \<and> mac_verify (Omac MAGMA) \<lparr>keyData = replicate 32 7, bitLen = 256\<rparr> [] [[1], [2, 3]] mac MacAlgorithm_new = Some (True, n')"
proof -
  have "\<exists>mac m'. mac_sign (Omac MAGMA) \<lparr>keyData = replicate 32 7, bitLen = 256\<rparr> [] [[1, 2], [3]] MacAlgorithm_new = Some (mac, m')"
    by (simp add: mac_sign_def gm_signInit_def mac_signInit_def MacAlgorithm_new_def gm_signUpdate_def
        mac_signUpdate_def gm_signFinal_def mac_signFinal_def gm_calculate_def finished_def Let_def)
  then obtain mac m' where sgn: "mac_sign (Omac MAGMA) \<lparr>keyData = replicate 32 7, bitLen = 256\<rparr> [] [[1, 2], [3]] MacAlgorithm_new = Some (mac, m')"
    by blast
  have idle: "gm_operation MacAlgorithm_new = MAC_NONE" by (simp add: MacAlgorithm_new_def)
  have same: "concat [[1], [2, 3]] = concat [[1, 2], [3 :: byte]]" by simp
  obtain n' where "mac_verify (Omac MAGMA) \<lparr>keyData = replicate 32 7, bitLen = 256\<rparr> [] [[1], [2, 3]] mac MacAlgorithm_new
      = Some (mac = mac, n')"
    using mac_verifies_exactly [OF sgn idle same, of mac] by blast
  then show ?thesis using sgn by auto
qed

text \<open>
  The MAC objects compute the beginning of the MAC of the cipher class, which the sources
  implement a second time.
\<close>

theorem omac_copies_agree:
  assumes "length key = 32"
  shows "gs_omac (snd (gs_setKey key (GOSTSymmetric_new c))) inp = Some full \<Longrightarrow>
    calculate_omac c key inp = take (getMacSize c) full"
proof -
  have "gs_keyed (snd (gs_setKey key (GOSTSymmetric_new c)))" using assms by (simp add: gs_setKey_def Let_def)
  moreover have "gs_blockSize (snd (gs_setKey key (GOSTSymmetric_new c))) = (if c = KUZNECHIK then 16 else 8)"
    by (simp add: gs_blockSize_def cipher_block_def) (simp add: GOSTSymmetric_new_def)
  ultimately show "gs_omac (snd (gs_setKey key (GOSTSymmetric_new c))) inp = Some full \<Longrightarrow>
      calculate_omac c key inp = take (getMacSize c) full"
    by (auto simp: gs_omac_def calculate_omac_def omac_block_def gs_encryptBlock_def Let_def)
qed

theorem omac_copies_agree_witness:
  "\<exists>full. gs_omac (snd (gs_setKey (replicate 32 1) (GOSTSymmetric_new MAGMA))) [5] = Some full
    \<and> calculate_omac MAGMA (replicate 32 1) [5] = take (getMacSize MAGMA) full"
proof -
  have "\<exists>full. gs_omac (snd (gs_setKey (replicate 32 1) (GOSTSymmetric_new MAGMA))) [5] = Some full"
    by (simp add: gs_omac_def gs_setKey_def Let_def)
  then show ?thesis using omac_copies_agree [of "replicate 32 1" MAGMA "[5]"] by fastforce
qed

text \<open>
  The GOST 28147-89 MAC of the empty message is four zero bytes, whatever the key: no block is
  ever processed, so anybody can sign the empty message.
\<close>

theorem imit_empty_constant:
  assumes "calculate_imit oid key [] = Some mac"
  shows "mac = [0, 0, 0, 0]"
proof -
  have z: "replicate 4 0 = [0, 0, 0, 0 :: byte]" by (simp add: eval_nat_numeral)
  have "imit g [] = replicate 4 0" for g by (simp add: imit_def)
  then show ?thesis using assms z by (auto simp: calculate_imit_def Let_def split: prod.splits if_splits)
qed

theorem imit_empty_constant_witness:
  "calculate_imit [] (replicate 32 1) [] = Some [0, 0, 0, 0] \<and> calculate_imit [] (replicate 32 2) [] = Some [0, 0, 0, 0]"
proof -
  have e: "\<exists>mac. calculate_imit [] key [] = Some mac" if "length key = 32" for key
    using that by (simp add: calculate_imit_def setParamSet_def g_setKey_def Let_def)
  obtain m1 where 1: "calculate_imit [] (replicate 32 1) [] = Some m1" using e [of "replicate 32 1"] by auto
  obtain m2 where 2: "calculate_imit [] (replicate 32 2) [] = Some m2" using e [of "replicate 32 2"] by auto
  show ?thesis using 1 2 by (simp only: imit_empty_constant [OF 1] imit_empty_constant [OF 2])
qed

end
