(* ===== verification/Cipher_Calls.thy ===== *)
theory Cipher_Calls
  imports SoftHSM_Core Gost_Mac P11_Constants
begin

text \<open>
  Encryption and decryption with symmetric keys in \<^verbatim>\<open>src/lib/SoftHSM.cpp\<close>: what a session does
  with its cipher object between the initialising and the final call. A cipher object is one
  of the classes of the OpenSSL backend and of the GOST ciphers, and its virtual functions are
  the functions of that class.

  A call sees the session, its cipher and the pointers it gave back. Sizes are
  \<^verbatim>\<open>CK_ULONG\<close> and wrap; an output buffer is the size the caller states for it, or null.
  \<open>None\<close> is an answer of a cipher object that has no defined result; the invariant of
  \<^verbatim>\<open>Cipher_Safety\<close> excludes it. Shown: what a call may answer, and that nothing is written
  beyond the caller's buffer.
\<close>

unbundle bit_operations_syntax

section \<open>Cipher objects\<close>

datatype 'c cipher_obj =
    OsslCipher cipher_class "'c sym_alg"
  | GostCipher gost_cipher gost_alg
  | Gost89Cipher g89_alg

fun co_isBlockCipher :: "'c cipher_obj \<Rightarrow> bool" where
  "co_isBlockCipher (OsslCipher cc a) = isBlockCipher a"
| "co_isBlockCipher (GostCipher c a) = isBlockCipher (ga_base a)"
| "co_isBlockCipher (Gost89Cipher a) = isBlockCipher (g8_base a)"

fun co_getPaddingMode :: "'c cipher_obj \<Rightarrow> bool" where
  "co_getPaddingMode (OsslCipher cc a) = currentPaddingMode a"
| "co_getPaddingMode (GostCipher c a) = currentPaddingMode (ga_base a)"
| "co_getPaddingMode (Gost89Cipher a) = currentPaddingMode (g8_base a)"

fun co_getTagBytes :: "'c cipher_obj \<Rightarrow> nat" where
  "co_getTagBytes (OsslCipher cc a) = currentTagBytes a"
| "co_getTagBytes (GostCipher c a) = currentTagBytes (ga_base a)"
| "co_getTagBytes (Gost89Cipher a) = currentTagBytes (g8_base a)"

fun co_getBufferSize :: "'c cipher_obj \<Rightarrow> ulong" where
  "co_getBufferSize (OsslCipher cc a) = currentBufferSize a"
| "co_getBufferSize (GostCipher c a) = currentBufferSize (ga_base a)"
| "co_getBufferSize (Gost89Cipher a) = currentBufferSize (g8_base a)"

fun co_getBlockSize :: "'c cipher_obj \<Rightarrow> nat" where
  "co_getBlockSize (OsslCipher cc a) = getBlockSize cc"
| "co_getBlockSize (GostCipher c a) = cipher_block c"
| "co_getBlockSize (Gost89Cipher a) = 8"

fun co_checkMaximumBytes :: "ulong \<Rightarrow> 'c cipher_obj \<Rightarrow> bool" where
  "co_checkMaximumBytes n (OsslCipher cc a) = checkMaximumBytes (unat n) a"
| "co_checkMaximumBytes n (GostCipher c a) = ga_checkMaximumBytes c (unat n) a"
| "co_checkMaximumBytes n (Gost89Cipher a) = True"

fun co_encryptUpdate :: "'c evp \<Rightarrow> bytes \<Rightarrow> 'c cipher_obj \<Rightarrow> bool \<times> bytes \<times> 'c cipher_obj" where
  "co_encryptUpdate evp data (OsslCipher cc a) =
     (case encryptUpdate evp cc data a of (ok, out, a) \<Rightarrow> (ok, out, OsslCipher cc a))"
| "co_encryptUpdate evp data (GostCipher c a) =
     (case ga_encryptUpdate c data a of (ok, a) \<Rightarrow> (ok, [], GostCipher c a))"
| "co_encryptUpdate evp data (Gost89Cipher a) =
     (case g8_encryptUpdate data a of (ok, a) \<Rightarrow> (ok, [], Gost89Cipher a))"

fun co_decryptUpdate :: "'c evp \<Rightarrow> bytes \<Rightarrow> 'c cipher_obj \<Rightarrow> bool \<times> bytes \<times> 'c cipher_obj" where
  "co_decryptUpdate evp data (OsslCipher cc a) =
     (case decryptUpdate evp data a of (ok, out, a) \<Rightarrow> (ok, out, OsslCipher cc a))"
| "co_decryptUpdate evp data (GostCipher c a) =
     (case ga_decryptUpdate c data a of (ok, a) \<Rightarrow> (ok, [], GostCipher c a))"
| "co_decryptUpdate evp data (Gost89Cipher a) =
     (case g8_decryptUpdate data a of (ok, a) \<Rightarrow> (ok, [], Gost89Cipher a))"

fun co_encryptFinal :: "'c evp \<Rightarrow> 'c cipher_obj \<Rightarrow> (bool \<times> bytes \<times> 'c cipher_obj) option" where
  "co_encryptFinal evp (OsslCipher cc a) =
     (case encryptFinal evp a of (ok, out, a) \<Rightarrow> Some (ok, out, OsslCipher cc a))"
| "co_encryptFinal evp (GostCipher c a) =
     map_option (\<lambda>(ok, out, a). (ok, out, GostCipher c a)) (ga_encryptFinal c a)"
| "co_encryptFinal evp (Gost89Cipher a) =
     map_option (\<lambda>(ok, out, a). (ok, out, Gost89Cipher a)) (g8_encryptFinal a)"

fun co_decryptFinal :: "'c evp \<Rightarrow> 'c cipher_obj \<Rightarrow> (bool \<times> bytes \<times> 'c cipher_obj) option" where
  "co_decryptFinal evp (OsslCipher cc a) =
     (case decryptFinal evp a of (ok, out, a) \<Rightarrow> Some (ok, out, OsslCipher cc a))"
| "co_decryptFinal evp (GostCipher c a) =
     map_option (\<lambda>(ok, out, a). (ok, out, GostCipher c a)) (ga_decryptFinal c a)"
| "co_decryptFinal evp (Gost89Cipher a) =
     map_option (\<lambda>(ok, out, a). (ok, out, Gost89Cipher a)) (g8_decryptFinal a)"

section \<open>The calls\<close>

record 'c op_state =
  os_session :: session
  os_cipher :: "'c cipher_obj"
  os_freed :: "addr list"

text \<open>The answer, the size left in the caller's variable and the bytes written to the buffer.\<close>

record op_out =
  oo_rv :: ck_rv
  oo_len :: ulong
  oo_data :: bytes

definition out_rv :: "ck_rv \<Rightarrow> ulong \<Rightarrow> op_out" where
  "out_rv rv len = \<lparr>oo_rv = rv, oo_len = len, oo_data = []\<rparr>"

definition reset_session :: "'c op_state \<Rightarrow> 'c op_state" where
  "reset_session x =
     (let (given, s) = resetOp (os_session x) in x\<lparr>os_session := s, os_freed := os_freed x @ given\<rparr>)"

definition ends :: "ck_rv \<Rightarrow> ulong \<Rightarrow> 'c op_state \<Rightarrow> (op_out \<times> 'c op_state) option" where
  "ends rv len x = Some (out_rv rv len, reset_session x)"

definition usable :: "bool \<Rightarrow> 'c op_state \<Rightarrow> bool" where
  "usable allowed x \<longleftrightarrow> se_symmetricCryptoOp (os_session x) \<noteq> 0 \<and> allowed"

definition SymEncrypt ::
  "'c evp \<Rightarrow> bytes \<Rightarrow> bool \<Rightarrow> ulong \<Rightarrow> 'c op_state \<Rightarrow> (op_out \<times> 'c op_state) option" where
  "SymEncrypt evp pData pEncryptedData len x =
     (let ulDataLen = of_nat (length pData) :: ulong;
          cipher = os_cipher x;
          blockSize = of_nat (co_getBlockSize cipher) :: ulong;
          remainder = ulDataLen mod blockSize;
          maxSize =
            (if co_isBlockCipher cipher then
               (if remainder \<noteq> 0 then ulDataLen + blockSize - remainder
                else if co_getPaddingMode cipher then ulDataLen + blockSize
                else ulDataLen + of_nat (co_getTagBytes cipher))
             else ulDataLen + of_nat (co_getTagBytes cipher))
      in if \<not> usable (se_allowSinglePartOp (os_session x)) x then ends CKR_OPERATION_NOT_INITIALIZED len x
         else if co_isBlockCipher cipher \<and> \<not> co_getPaddingMode cipher \<and> remainder \<noteq> 0 then ends CKR_DATA_LEN_RANGE len x
         else if \<not> co_checkMaximumBytes ulDataLen cipher then ends CKR_DATA_LEN_RANGE len x
         else if \<not> pEncryptedData then Some (out_rv CKR_OK maxSize, x)
         else if len < maxSize then Some (out_rv CKR_BUFFER_TOO_SMALL maxSize, x)
         else
           (let (ok, encryptedData, cipher) = co_encryptUpdate evp pData cipher;
                x = x\<lparr>os_cipher := cipher\<rparr>
            in if \<not> ok then ends CKR_GENERAL_ERROR len x
               else
                 (case co_encryptFinal evp cipher of
                    None \<Rightarrow> None
                  | Some (ok, encryptedFinal, cipher) \<Rightarrow>
                      (let x = x\<lparr>os_cipher := cipher\<rparr>
                       in if \<not> ok then ends CKR_GENERAL_ERROR len x
                          else
                            (let out = resize (encryptedData @ encryptedFinal) (unat maxSize)
                             in Some (\<lparr>oo_rv = CKR_OK, oo_len = of_nat (length out), oo_data = out\<rparr>,
                                      reset_session x))))))"

text \<open>The number of blocks is held in an \<^verbatim>\<open>int\<close>.\<close>

definition whole_blocks :: "ulong \<Rightarrow> nat \<Rightarrow> ulong" where
  "whole_blocks n blockSize =
     scast (ucast (n div of_nat blockSize) :: 32 word) * of_nat blockSize"

definition SymEncryptUpdate ::
  "'c evp \<Rightarrow> bytes \<Rightarrow> bool \<Rightarrow> ulong \<Rightarrow> 'c op_state \<Rightarrow> op_out \<times> 'c op_state" where
  "SymEncryptUpdate evp pData pEncryptedData len x =
     (let ulDataLen = of_nat (length pData) :: ulong;
          cipher = os_cipher x;
          remainingSize = co_getBufferSize cipher;
          maxSize =
            (if co_isBlockCipher cipher then whole_blocks (ulDataLen + remainingSize) (co_getBlockSize cipher)
             else ulDataLen + remainingSize)
      in if \<not> usable (se_allowMultiPartOp (os_session x)) x
         then (out_rv CKR_OPERATION_NOT_INITIALIZED len, reset_session x)
         else if \<not> co_checkMaximumBytes ulDataLen cipher then (out_rv CKR_DATA_LEN_RANGE len, reset_session x)
         else if \<not> pEncryptedData then (out_rv CKR_OK maxSize, x)
         else if len < maxSize then (out_rv CKR_BUFFER_TOO_SMALL maxSize, x)
         else
           (let (ok, encryptedData, cipher) = co_encryptUpdate evp pData cipher;
                x = x\<lparr>os_cipher := cipher\<rparr>
            in if \<not> ok then (out_rv CKR_GENERAL_ERROR len, reset_session x)
               else if unat len < length encryptedData then (out_rv CKR_GENERAL_ERROR len, reset_session x)
               else (\<lparr>oo_rv = CKR_OK, oo_len = of_nat (length encryptedData), oo_data = encryptedData\<rparr>, x)))"

definition SymEncryptFinal ::
  "'c evp \<Rightarrow> bool \<Rightarrow> ulong \<Rightarrow> 'c op_state \<Rightarrow> (op_out \<times> 'c op_state) option" where
  "SymEncryptFinal evp pEncryptedData len x =
     (let cipher = os_cipher x;
          remainingSize = co_getBufferSize cipher + of_nat (co_getTagBytes cipher);
          blockSize = of_nat (co_getBlockSize cipher) :: ulong;
          size = (if co_isBlockCipher cipher \<and> co_getPaddingMode cipher
                  then ((remainingSize + blockSize) div blockSize) * blockSize else remainingSize)
      in if \<not> usable (se_allowMultiPartOp (os_session x)) x then ends CKR_OPERATION_NOT_INITIALIZED len x
         else if co_isBlockCipher cipher \<and> remainingSize mod blockSize \<noteq> 0 \<and> \<not> co_getPaddingMode cipher
         then ends CKR_DATA_LEN_RANGE len x
         else if \<not> pEncryptedData then Some (out_rv CKR_OK size, x)
         else if len < size then Some (out_rv CKR_BUFFER_TOO_SMALL size, x)
         else
           (case co_encryptFinal evp cipher of
              None \<Rightarrow> None
            | Some (ok, encryptedFinal, cipher) \<Rightarrow>
                (let x = x\<lparr>os_cipher := cipher\<rparr>
                 in if \<not> ok then ends CKR_GENERAL_ERROR len x
                    else if unat len < length encryptedFinal then ends CKR_GENERAL_ERROR len x
                    else Some (\<lparr>oo_rv = CKR_OK, oo_len = of_nat (length encryptedFinal), oo_data = encryptedFinal\<rparr>,
                               reset_session x))))"

definition SymDecrypt ::
  "'c evp \<Rightarrow> bytes \<Rightarrow> bool \<Rightarrow> ulong \<Rightarrow> 'c op_state \<Rightarrow> (op_out \<times> 'c op_state) option" where
  "SymDecrypt evp pEncryptedData pData len x =
     (let ulEncryptedDataLen = of_nat (length pEncryptedData) :: ulong;
          cipher = os_cipher x;
          blockSize = of_nat (co_getBlockSize cipher) :: ulong
      in if \<not> usable (se_allowSinglePartOp (os_session x)) x then ends CKR_OPERATION_NOT_INITIALIZED len x
         else if co_isBlockCipher cipher \<and> ulEncryptedDataLen mod blockSize \<noteq> 0
         then ends CKR_ENCRYPTED_DATA_LEN_RANGE len x
         else if \<not> co_checkMaximumBytes ulEncryptedDataLen cipher then ends CKR_ENCRYPTED_DATA_LEN_RANGE len x
         else if \<not> pData then Some (out_rv CKR_OK ulEncryptedDataLen, x)
         else if len < ulEncryptedDataLen then Some (out_rv CKR_BUFFER_TOO_SMALL ulEncryptedDataLen, x)
         else
           (let (ok, data, cipher) = co_decryptUpdate evp pEncryptedData cipher;
                x = x\<lparr>os_cipher := cipher\<rparr>
            in if \<not> ok then ends CKR_ENCRYPTED_DATA_INVALID len x
               else
                 (case co_decryptFinal evp cipher of
                    None \<Rightarrow> None
                  | Some (ok, dataFinal, cipher) \<Rightarrow>
                      (let x = x\<lparr>os_cipher := cipher\<rparr>
                       in if \<not> ok then ends CKR_ENCRYPTED_DATA_INVALID len x
                          else
                            (let out = data @ dataFinal;
                                 out = (if length out > unat ulEncryptedDataLen
                                        then resize out (unat ulEncryptedDataLen) else out)
                             in Some (\<lparr>oo_rv = CKR_OK, oo_len = of_nat (length out), oo_data = out\<rparr>,
                                      reset_session x))))))"

definition SymDecryptUpdate ::
  "'c evp \<Rightarrow> bytes \<Rightarrow> bool \<Rightarrow> ulong \<Rightarrow> 'c op_state \<Rightarrow> op_out \<times> 'c op_state" where
  "SymDecryptUpdate evp pEncryptedData pData len x =
     (let ulEncryptedDataLen = of_nat (length pEncryptedData) :: ulong;
          cipher = os_cipher x;
          remainingSize = co_getBufferSize cipher;
          paddingAdjustByte = (if co_getPaddingMode cipher then 1 else 0);
          maxSize =
            (if co_isBlockCipher cipher
             then whole_blocks (ulEncryptedDataLen + remainingSize - paddingAdjustByte) (co_getBlockSize cipher)
             else ulEncryptedDataLen + remainingSize)
      in if \<not> usable (se_allowMultiPartOp (os_session x)) x
         then (out_rv CKR_OPERATION_NOT_INITIALIZED len, reset_session x)
         else if \<not> co_checkMaximumBytes ulEncryptedDataLen cipher
         then (out_rv CKR_ENCRYPTED_DATA_LEN_RANGE len, reset_session x)
         else if \<not> pData then (out_rv CKR_OK maxSize, x)
         else if len < maxSize then (out_rv CKR_BUFFER_TOO_SMALL maxSize, x)
         else
           (let (ok, decryptedData, cipher) = co_decryptUpdate evp pEncryptedData cipher;
                x = x\<lparr>os_cipher := cipher\<rparr>
            in if \<not> ok then (out_rv CKR_ENCRYPTED_DATA_INVALID len, reset_session x)
               else if unat len < length decryptedData
               then (out_rv CKR_ENCRYPTED_DATA_LEN_RANGE len, reset_session x)
               else (\<lparr>oo_rv = CKR_OK, oo_len = of_nat (length decryptedData), oo_data = decryptedData\<rparr>, x)))"

definition SymDecryptFinal ::
  "'c evp \<Rightarrow> bool \<Rightarrow> ulong \<Rightarrow> 'c op_state \<Rightarrow> (op_out \<times> 'c op_state) option" where
  "SymDecryptFinal evp pDecryptedData len x =
     (let cipher = os_cipher x;
          remainingSize = co_getBufferSize cipher;
          blockSize = of_nat (co_getBlockSize cipher) :: ulong;
          paddingAdjustByte = (if co_getPaddingMode cipher then 1 else 0);
          size = (if co_isBlockCipher cipher then remainingSize - paddingAdjustByte else remainingSize)
      in if \<not> usable (se_allowMultiPartOp (os_session x)) x then ends CKR_OPERATION_NOT_INITIALIZED len x
         else if co_isBlockCipher cipher \<and> remainingSize mod blockSize \<noteq> 0
         then ends CKR_ENCRYPTED_DATA_LEN_RANGE len x
         else if \<not> pDecryptedData then Some (out_rv CKR_OK size, x)
         else if len < size then Some (out_rv CKR_BUFFER_TOO_SMALL size, x)
         else
           (case co_decryptFinal evp cipher of
              None \<Rightarrow> None
            | Some (ok, decryptedFinal, cipher) \<Rightarrow>
                (let x = x\<lparr>os_cipher := cipher\<rparr>
                 in if \<not> ok then ends CKR_ENCRYPTED_DATA_INVALID len x
                    else if unat len < length decryptedFinal then ends CKR_ENCRYPTED_DATA_LEN_RANGE len x
                    else Some (\<lparr>oo_rv = CKR_OK, oo_len = of_nat (length decryptedFinal), oo_data = decryptedFinal\<rparr>,
                               reset_session x))))"

text \<open>
  The six functions after the session is found. Without a symmetric cipher in the session the
  two single calls go on with the asymmetric operation, the parameter \<open>asymCrypt\<close>.
\<close>

definition refused :: "ck_rv \<Rightarrow> 'c op_state \<Rightarrow> (op_out \<times> 'c op_state) option" where
  "refused rv x = Some (out_rv rv 0, x)"

definition encrypt_call ::
  "'c evp \<Rightarrow> ('c op_state \<Rightarrow> (op_out \<times> 'c op_state) option) \<Rightarrow> bytes option \<Rightarrow> bool \<Rightarrow> ulong option \<Rightarrow>
     'c op_state \<Rightarrow> (op_out \<times> 'c op_state) option" where
  "encrypt_call evp asymCrypt pData pEncryptedData pulLen x =
     (case (pData, pulLen) of
        (Some data, Some len) \<Rightarrow>
          (if se_operation (os_session x) \<noteq> SESSION_OP_ENCRYPT then refused CKR_OPERATION_NOT_INITIALIZED x
           else if se_symmetricCryptoOp (os_session x) \<noteq> 0 then SymEncrypt evp data pEncryptedData len x
           else asymCrypt x)
      | _ \<Rightarrow> ends CKR_ARGUMENTS_BAD 0 x)"

definition encrypt_update_call ::
  "'c evp \<Rightarrow> bytes option \<Rightarrow> bool \<Rightarrow> ulong option \<Rightarrow> 'c op_state \<Rightarrow> (op_out \<times> 'c op_state) option" where
  "encrypt_update_call evp pData pEncryptedData pulLen x =
     (case (pData, pulLen) of
        (Some data, Some len) \<Rightarrow>
          (if se_operation (os_session x) \<noteq> SESSION_OP_ENCRYPT then refused CKR_OPERATION_NOT_INITIALIZED x
           else if se_symmetricCryptoOp (os_session x) \<noteq> 0 then Some (SymEncryptUpdate evp data pEncryptedData len x)
           else refused CKR_FUNCTION_NOT_SUPPORTED x)
      | _ \<Rightarrow> ends CKR_ARGUMENTS_BAD 0 x)"

definition encrypt_final_call ::
  "'c evp \<Rightarrow> bool \<Rightarrow> ulong option \<Rightarrow> 'c op_state \<Rightarrow> (op_out \<times> 'c op_state) option" where
  "encrypt_final_call evp pEncryptedData pulLen x =
     (case pulLen of
        None \<Rightarrow> ends CKR_ARGUMENTS_BAD 0 x
      | Some len \<Rightarrow>
          (if se_operation (os_session x) \<noteq> SESSION_OP_ENCRYPT then refused CKR_OPERATION_NOT_INITIALIZED x
           else if se_symmetricCryptoOp (os_session x) \<noteq> 0 then SymEncryptFinal evp pEncryptedData len x
           else refused CKR_FUNCTION_NOT_SUPPORTED x))"

definition decrypt_call ::
  "'c evp \<Rightarrow> ('c op_state \<Rightarrow> (op_out \<times> 'c op_state) option) \<Rightarrow> bytes option \<Rightarrow> bool \<Rightarrow> ulong option \<Rightarrow>
     'c op_state \<Rightarrow> (op_out \<times> 'c op_state) option" where
  "decrypt_call evp asymCrypt pEncryptedData pData pulLen x =
     (case (pEncryptedData, pulLen) of
        (Some data, Some len) \<Rightarrow>
          (if se_operation (os_session x) \<noteq> SESSION_OP_DECRYPT then refused CKR_OPERATION_NOT_INITIALIZED x
           else if se_symmetricCryptoOp (os_session x) \<noteq> 0 then SymDecrypt evp data pData len x
           else asymCrypt x)
      | _ \<Rightarrow> ends CKR_ARGUMENTS_BAD 0 x)"

definition decrypt_update_call ::
  "'c evp \<Rightarrow> bytes option \<Rightarrow> bool \<Rightarrow> ulong option \<Rightarrow> 'c op_state \<Rightarrow> (op_out \<times> 'c op_state) option" where
  "decrypt_update_call evp pEncryptedData pData pulLen x =
     (case (pEncryptedData, pulLen) of
        (Some data, Some len) \<Rightarrow>
          (if se_operation (os_session x) \<noteq> SESSION_OP_DECRYPT then refused CKR_OPERATION_NOT_INITIALIZED x
           else if se_symmetricCryptoOp (os_session x) \<noteq> 0 then Some (SymDecryptUpdate evp data pData len x)
           else refused CKR_FUNCTION_NOT_SUPPORTED x)
      | _ \<Rightarrow> ends CKR_ARGUMENTS_BAD 0 x)"

definition decrypt_final_call ::
  "'c evp \<Rightarrow> bool \<Rightarrow> ulong option \<Rightarrow> 'c op_state \<Rightarrow> (op_out \<times> 'c op_state) option" where
  "decrypt_final_call evp pData pulLen x =
     (case pulLen of
        None \<Rightarrow> ends CKR_ARGUMENTS_BAD 0 x
      | Some len \<Rightarrow>
          (if se_operation (os_session x) \<noteq> SESSION_OP_DECRYPT then refused CKR_OPERATION_NOT_INITIALIZED x
           else if se_symmetricCryptoOp (os_session x) \<noteq> 0 then SymDecryptFinal evp pData len x
           else refused CKR_FUNCTION_NOT_SUPPORTED x))"

section \<open>The functions of the library\<close>

text \<open>
  The library with the cipher objects its sessions point to. A pointer to no object has no
  defined result. Afterwards the objects given back are gone.
\<close>

record ('c, 'r) cipher_hsm =
  ch_hsm :: "('c, 'r) softhsm"
  ch_ciphers :: "(addr, 'c cipher_obj) omap"

definition call_on ::
  "ulong \<Rightarrow> ('c op_state \<Rightarrow> (op_out \<times> 'c op_state) option) \<Rightarrow> ('c, 'r) cipher_hsm \<Rightarrow> (op_out \<times> ('c, 'r) cipher_hsm) option" where
  "call_on hSession f st =
     (if \<not> hs_initialised (ch_hsm st) then Some (out_rv CKR_CRYPTOKI_NOT_INITIALIZED 0, st)
      else
        (case find_session hSession (ch_hsm st) of
           None \<Rightarrow> Some (out_rv CKR_SESSION_HANDLE_INVALID 0, st)
         | Some (p, s, tk) \<Rightarrow>
             (let op = se_symmetricCryptoOp s;
                  held = (if op = 0 then Some (GostCipher MAGMA GOSTSymmetricAlgorithm_new) else omap_find (ch_ciphers st) op)
              in Option.bind held (\<lambda>cipher.
                   Option.bind (f \<lparr>os_session = s, os_cipher = cipher, os_freed = []\<rparr>) (\<lambda>(out, x).
                     (let ciphers = (if op = 0 then ch_ciphers st else omap_insert op (os_cipher x) (ch_ciphers st))
                      in Some (out, \<lparr>ch_hsm = put_session p (os_session x) (ch_hsm st),
                                     ch_ciphers = fold omap_erase (os_freed x) ciphers\<rparr>)))))))"

definition C_Encrypt where
  "C_Encrypt evp asymCrypt hSession pData pEncryptedData pulLen = call_on hSession (encrypt_call evp asymCrypt pData pEncryptedData pulLen)"

definition C_EncryptUpdate where
  "C_EncryptUpdate evp hSession pData pEncryptedData pulLen = call_on hSession (encrypt_update_call evp pData pEncryptedData pulLen)"

definition C_EncryptFinal where
  "C_EncryptFinal evp hSession pEncryptedData pulLen = call_on hSession (encrypt_final_call evp pEncryptedData pulLen)"

definition C_Decrypt where
  "C_Decrypt evp asymCrypt hSession pEncryptedData pData pulLen = call_on hSession (decrypt_call evp asymCrypt pEncryptedData pData pulLen)"

definition C_DecryptUpdate where
  "C_DecryptUpdate evp hSession pEncryptedData pData pulLen = call_on hSession (decrypt_update_call evp pEncryptedData pData pulLen)"

definition C_DecryptFinal where
  "C_DecryptFinal evp hSession pData pulLen = call_on hSession (decrypt_final_call evp pData pulLen)"

section \<open>Every sequence of calls\<close>

datatype op_call =
    Encrypt "bytes option" bool "ulong option"
  | EncryptUpdate "bytes option" bool "ulong option"
  | EncryptFinal bool "ulong option"
  | Decrypt "bytes option" bool "ulong option"
  | DecryptUpdate "bytes option" bool "ulong option"
  | DecryptFinal bool "ulong option"

fun op_step ::
  "'c evp \<Rightarrow> ('c op_state \<Rightarrow> (op_out \<times> 'c op_state) option) \<Rightarrow> op_call \<Rightarrow> 'c op_state \<Rightarrow> (op_out \<times> 'c op_state) option" where
  "op_step evp asymCrypt (Encrypt d b l) = encrypt_call evp asymCrypt d b l"
| "op_step evp asymCrypt (EncryptUpdate d b l) = encrypt_update_call evp d b l"
| "op_step evp asymCrypt (EncryptFinal b l) = encrypt_final_call evp b l"
| "op_step evp asymCrypt (Decrypt d b l) = decrypt_call evp asymCrypt d b l"
| "op_step evp asymCrypt (DecryptUpdate d b l) = decrypt_update_call evp d b l"
| "op_step evp asymCrypt (DecryptFinal b l) = decrypt_final_call evp b l"

text \<open>The room the caller gives: none with a null pointer for the buffer.\<close>

fun room :: "op_call \<Rightarrow> nat" where
  "room (Encrypt d b l) = (if b then (case l of None \<Rightarrow> 0 | Some n \<Rightarrow> unat n) else 0)"
| "room (EncryptUpdate d b l) = (if b then (case l of None \<Rightarrow> 0 | Some n \<Rightarrow> unat n) else 0)"
| "room (EncryptFinal b l) = (if b then (case l of None \<Rightarrow> 0 | Some n \<Rightarrow> unat n) else 0)"
| "room (Decrypt d b l) = (if b then (case l of None \<Rightarrow> 0 | Some n \<Rightarrow> unat n) else 0)"
| "room (DecryptUpdate d b l) = (if b then (case l of None \<Rightarrow> 0 | Some n \<Rightarrow> unat n) else 0)"
| "room (DecryptFinal b l) = (if b then (case l of None \<Rightarrow> 0 | Some n \<Rightarrow> unat n) else 0)"

fun is_update :: "op_call \<Rightarrow> bool" where
  "is_update (EncryptUpdate d b l) = True"
| "is_update (DecryptUpdate d b l) = True"
| "is_update _ = False"

text \<open>
  What any call answers: a refusal or a size, which leave everything as it is; the output of an
  update; or the end of the operation, with output when it went well.
\<close>

definition answered :: "nat \<Rightarrow> bool \<Rightarrow> 'c op_state \<Rightarrow> op_out \<Rightarrow> 'c op_state \<Rightarrow> bool" where
  "answered n upd x out x' \<longleftrightarrow> length (oo_data out) \<le> n
     \<and> (x' = x \<and> oo_data out = []
          \<and> oo_rv out \<in> {CKR_OK, CKR_BUFFER_TOO_SMALL, CKR_OPERATION_NOT_INITIALIZED, CKR_FUNCTION_NOT_SUPPORTED}
        \<or> (\<exists>c. x' = reset_session (x\<lparr>os_cipher := c\<rparr>)) \<and> (oo_rv out \<noteq> CKR_OK \<longrightarrow> oo_data out = [])
        \<or> upd \<and> oo_rv out = CKR_OK \<and> (\<exists>c. x' = x\<lparr>os_cipher := c\<rparr>))"

lemma answered_size:
  "rv \<in> {CKR_OK, CKR_BUFFER_TOO_SMALL, CKR_OPERATION_NOT_INITIALIZED, CKR_FUNCTION_NOT_SUPPORTED} \<Longrightarrow>
    answered n upd x (out_rv rv len) x"
  by (auto simp: answered_def out_rv_def)

lemma answered_end: "answered n upd x (out_rv rv len) (reset_session x)"
proof -
  have "reset_session x = reset_session (x\<lparr>os_cipher := os_cipher x\<rparr>)" by simp
  then show ?thesis unfolding answered_def out_rv_def by fastforce
qed

lemma answered_end_cipher: "answered n upd x (out_rv rv len) (reset_session (x\<lparr>os_cipher := c\<rparr>))"
  unfolding answered_def out_rv_def by fastforce

lemma answered_last:
  "length out \<le> n \<Longrightarrow> answered n upd x \<lparr>oo_rv = CKR_OK, oo_len = len, oo_data = out\<rparr> (reset_session (x\<lparr>os_cipher := c\<rparr>))"
  unfolding answered_def by fastforce

lemma answered_update:
  "length out \<le> n \<Longrightarrow> answered n True x \<lparr>oo_rv = CKR_OK, oo_len = len, oo_data = out\<rparr> (x\<lparr>os_cipher := c\<rparr>)"
  unfolding answered_def by fastforce

lemmas answers = answered_size answered_end answered_end_cipher answered_last answered_update

lemma answered_SymEncrypt:
  "SymEncrypt evp d b len x = Some (out, x') \<Longrightarrow> answered (if b then unat len else 0) False x out x'"
  by (auto simp: SymEncrypt_def ends_def Let_def not_less word_le_nat_alt intro!: answers
      split: if_splits prod.splits option.splits)

lemma answered_SymEncryptUpdate:
  "SymEncryptUpdate evp d b len x = (out, x') \<Longrightarrow> answered (if b then unat len else 0) True x out x'"
  by (auto simp: SymEncryptUpdate_def Let_def not_less intro!: answers split: if_splits prod.splits)

lemma answered_SymEncryptFinal:
  "SymEncryptFinal evp b len x = Some (out, x') \<Longrightarrow> answered (if b then unat len else 0) False x out x'"
  by (auto simp: SymEncryptFinal_def ends_def Let_def not_less intro!: answers
      split: if_splits prod.splits option.splits)

lemma answered_SymDecrypt:
  "SymDecrypt evp d b len x = Some (out, x') \<Longrightarrow> answered (if b then unat len else 0) False x out x'"
  by (auto simp: SymDecrypt_def ends_def Let_def not_less word_le_nat_alt intro!: answers
      split: if_splits prod.splits option.splits)

lemma answered_SymDecryptUpdate:
  "SymDecryptUpdate evp d b len x = (out, x') \<Longrightarrow> answered (if b then unat len else 0) True x out x'"
  by (auto simp: SymDecryptUpdate_def Let_def not_less intro!: answers split: if_splits prod.splits)

lemma answered_SymDecryptFinal:
  "SymDecryptFinal evp b len x = Some (out, x') \<Longrightarrow> answered (if b then unat len else 0) False x out x'"
  by (auto simp: SymDecryptFinal_def ends_def Let_def not_less intro!: answers
      split: if_splits prod.splits option.splits)

lemmas answered_calls = answered_SymEncrypt answered_SymEncryptUpdate answered_SymEncryptFinal
  answered_SymDecrypt answered_SymDecryptUpdate answered_SymDecryptFinal

end
