(* ===== verification/Cipher_Init.thy ===== *)
theory Cipher_Init
  imports Cipher_Calls
begin

text \<open>
  How an encryption or decryption with a symmetric key begins, in \<^verbatim>\<open>src/lib/SoftHSM.cpp\<close>: the
  parameters of the mechanism, the key behind its handle, the checks on it, and the cipher
  object of the crypto factory that is set up with them. Encryption and decryption go through
  the same steps. What the caller has configured as supported mechanisms is an argument.
\<close>

unbundle bit_operations_syntax

section \<open>What a mechanism asks for\<close>

text \<open>
  The parameter of a mechanism as the structure its type says: octets, a counter block, or the
  parameters of GCM and MGM. A parameter of another shape than the mechanism names has no
  defined meaning (\<open>None\<close>). The octets are as many as the caller states; the structures have
  their size on a 64-bit machine.
\<close>

datatype mech_param =
    Octets bytes
  | AES_CTR_PARAMS nat bytes
  | GCM_PARAMS bytes bytes nat
  | MGM_PARAMS "bytes option" nat nat "bytes option" nat nat

record ck_mechanism =
  mc_mechanism :: ulong
  mc_parameter :: "mech_param option"
  mc_parameterLen :: nat

datatype sym_algo = SymAlgo_AES | SymAlgo_DES | SymAlgo_DES3 | SymAlgo_GOST28147 | SymAlgo_KUZNECHIK | SymAlgo_MAGMA

record sym_params =
  sp_algo :: sym_algo
  sp_mode :: sym_mode
  sp_padding :: bool
  sp_iv :: bytes
  sp_bb :: nat
  sp_counterBits :: nat
  sp_aad :: bytes
  sp_tagBytes :: nat

definition plain_params :: "sym_algo \<Rightarrow> sym_mode \<Rightarrow> nat \<Rightarrow> sym_params" where
  "plain_params algo mode bb =
     \<lparr>sp_algo = algo, sp_mode = mode, sp_padding = False, sp_iv = [], sp_bb = bb, sp_counterBits = 0, sp_aad = [],
      sp_tagBytes = 0\<rparr>"

abbreviation (input) "CKM_DES_ECB \<equiv> 0x121 :: ulong"
abbreviation (input) "CKM_DES_CBC \<equiv> 0x122 :: ulong"
abbreviation (input) "CKM_DES_CBC_PAD \<equiv> 0x125 :: ulong"
abbreviation (input) "CKM_DES3_ECB \<equiv> 0x132 :: ulong"
abbreviation (input) "CKM_DES3_CBC \<equiv> 0x133 :: ulong"
abbreviation (input) "CKM_DES3_CBC_PAD \<equiv> 0x136 :: ulong"
abbreviation (input) "CKM_AES_ECB \<equiv> 0x1081 :: ulong"
abbreviation (input) "CKM_AES_CBC \<equiv> 0x1082 :: ulong"
abbreviation (input) "CKM_AES_CBC_PAD \<equiv> 0x1085 :: ulong"
abbreviation (input) "CKM_AES_CTR \<equiv> 0x1086 :: ulong"
abbreviation (input) "CKM_AES_GCM \<equiv> 0x1087 :: ulong"
abbreviation (input) "CKM_GOST28147_ECB \<equiv> 0x1221 :: ulong"
abbreviation (input) "CKM_GOST28147 \<equiv> 0x1222 :: ulong"
abbreviation (input) "CKM_VENDOR_GOST28147_CBC_FSS \<equiv> 0x8000000B :: ulong"
abbreviation (input) "CKM_KUZNECHIK_MGM \<equiv> 0xD432102D :: ulong"
abbreviation (input) "CKM_MAGMA_MGM \<equiv> 0xD432102E :: ulong"
abbreviation (input) "CKM_KUZNECHIK_ECB \<equiv> 0xD4321031 :: ulong"
abbreviation (input) "CKM_KUZNECHIK_CTR_ACPKM \<equiv> 0xD4321032 :: ulong"
abbreviation (input) "CKM_MAGMA_ECB \<equiv> 0xD4321035 :: ulong"
abbreviation (input) "CKM_MAGMA_CTR_ACPKM \<equiv> 0xD4321036 :: ulong"

definition isSymMechanism :: "ck_mechanism option \<Rightarrow> bool" where
  "isSymMechanism pMechanism =
     (case pMechanism of
        None \<Rightarrow> False
      | Some m \<Rightarrow>
          mc_mechanism m \<in> {CKM_DES_ECB, CKM_DES_CBC, CKM_DES_CBC_PAD, CKM_DES3_ECB, CKM_DES3_CBC, CKM_DES3_CBC_PAD,
            CKM_AES_ECB, CKM_AES_CBC, CKM_AES_CBC_PAD, CKM_AES_CTR, CKM_AES_GCM, CKM_GOST28147_ECB, CKM_GOST28147,
            CKM_VENDOR_GOST28147_CBC_FSS, CKM_KUZNECHIK_ECB, CKM_MAGMA_ECB, CKM_KUZNECHIK_CTR_ACPKM,
            CKM_MAGMA_CTR_ACPKM, CKM_KUZNECHIK_MGM, CKM_MAGMA_MGM})"

definition parseMGMParameters :: "ck_mechanism \<Rightarrow> nat \<Rightarrow> (ck_rv + bytes \<times> bytes \<times> nat) option" where
  "parseMGMParameters m blockSize =
     (case mc_parameter m of
        None \<Rightarrow> Some (Inl CKR_MECHANISM_PARAM_INVALID)
      | Some p \<Rightarrow>
          if mc_parameterLen m \<noteq> 48 then Some (Inl CKR_MECHANISM_PARAM_INVALID)
          else
            (case p of
               MGM_PARAMS pIv ulIvLen ulIvBits pAAD ulAADLen ulTagBits \<Rightarrow>
                 (let maximumBytes = (if blockSize = 8 then 2 ^ 29 - 1 else 2 ^ 61 - 1)
                  in if pIv = None \<or> ulIvLen \<noteq> blockSize \<or> (ulIvBits \<noteq> 0 \<and> ulIvBits \<noteq> blockSize * 8)
                       \<or> the pIv ! 0 AND 0x80 \<noteq> 0 \<or> (ulAADLen \<noteq> 0 \<and> pAAD = None) \<or> ulAADLen > maximumBytes
                       \<or> ulTagBits < 32 \<or> ulTagBits > blockSize * 8 \<or> ulTagBits mod 8 \<noteq> 0
                     then Some (Inl CKR_MECHANISM_PARAM_INVALID)
                     else Some (Inr (resize (the pIv) blockSize,
                                     (if ulAADLen \<noteq> 0 then resize (the pAAD) ulAADLen else []), ulTagBits div 8)))
             | _ \<Rightarrow> None))"

text \<open>The initialisation vector of CBC.\<close>

definition cbc_params :: "sym_algo \<Rightarrow> bool \<Rightarrow> nat \<Rightarrow> ck_mechanism \<Rightarrow> (ck_rv + sym_params) option" where
  "cbc_params algo padding bb m =
     (if mc_parameter m = None \<or> mc_parameterLen m = 0 then Some (Inl CKR_ARGUMENTS_BAD)
      else
        (case mc_parameter m of
           Some (Octets iv) \<Rightarrow>
             Some (Inr ((plain_params algo SymMode_CBC bb)
                          \<lparr>sp_padding := padding, sp_iv := resize iv (mc_parameterLen m)\<rparr>))
         | _ \<Rightarrow> None))"

definition des_params :: "ulong \<Rightarrow> ck_mechanism \<Rightarrow> (ck_rv + sym_params) option" where
  "des_params keyType m =
     (if keyType \<noteq> CKK_DES then Some (Inl CKR_KEY_TYPE_INCONSISTENT)
      else if mc_mechanism m = CKM_DES_ECB then Some (Inr (plain_params SymAlgo_DES SymMode_ECB 7))
      else cbc_params SymAlgo_DES (mc_mechanism m = CKM_DES_CBC_PAD) 7 m)"

definition des3_params :: "ulong \<Rightarrow> ck_mechanism \<Rightarrow> (ck_rv + sym_params) option" where
  "des3_params keyType m =
     (if keyType \<noteq> CKK_DES2 \<and> keyType \<noteq> CKK_DES3 then Some (Inl CKR_KEY_TYPE_INCONSISTENT)
      else if mc_mechanism m = CKM_DES3_ECB then Some (Inr (plain_params SymAlgo_DES3 SymMode_ECB 7))
      else cbc_params SymAlgo_DES3 (mc_mechanism m = CKM_DES3_CBC_PAD) 7 m)"

definition ecb_params :: "sym_algo \<Rightarrow> ck_mechanism \<Rightarrow> (ck_rv + sym_params) option" where
  "ecb_params algo m =
     (if mc_parameter m \<noteq> None \<or> mc_parameterLen m \<noteq> 0 then Some (Inl CKR_MECHANISM_PARAM_INVALID)
      else Some (Inr (plain_params algo SymMode_ECB 8)))"

definition octets_params :: "sym_algo \<Rightarrow> sym_mode \<Rightarrow> nat \<Rightarrow> ck_mechanism \<Rightarrow> (ck_rv + sym_params) option" where
  "octets_params algo mode expected m =
     (if mc_parameter m = None \<or> mc_parameterLen m \<noteq> expected then Some (Inl CKR_MECHANISM_PARAM_INVALID)
      else
        (case mc_parameter m of
           Some (Octets iv) \<Rightarrow> Some (Inr ((plain_params algo mode 8)\<lparr>sp_iv := resize iv expected\<rparr>))
         | _ \<Rightarrow> None))"

definition gost28147_params :: "bool \<Rightarrow> ulong \<Rightarrow> ck_mechanism \<Rightarrow> (ck_rv + sym_params) option" where
  "gost28147_params rutoken keyType m =
     (if mc_mechanism m = CKM_VENDOR_GOST28147_CBC_FSS \<and> \<not> rutoken then Some (Inl CKR_MECHANISM_INVALID)
      else if keyType \<noteq> CKK_GOST28147 then Some (Inl CKR_KEY_TYPE_INCONSISTENT)
      else if mc_mechanism m = CKM_GOST28147_ECB then ecb_params SymAlgo_GOST28147 m
      else if mc_mechanism m = CKM_GOST28147 then octets_params SymAlgo_GOST28147 SymMode_CFB 8 m
      else if (mc_parameter m = None \<and> mc_parameterLen m \<noteq> 0) \<or> (mc_parameter m \<noteq> None \<and> mc_parameterLen m \<noteq> 8)
      then Some (Inl CKR_MECHANISM_PARAM_INVALID)
      else
        (let p = (plain_params SymAlgo_GOST28147 SymMode_CBC 8)\<lparr>sp_padding := True\<rparr>
         in case mc_parameter m of
              None \<Rightarrow> Some (Inr (p\<lparr>sp_iv := replicate 8 0\<rparr>))
            | Some (Octets iv) \<Rightarrow> Some (Inr (p\<lparr>sp_iv := resize iv 8\<rparr>))
            | _ \<Rightarrow> None))"

definition tc26_params :: "bool \<Rightarrow> ulong \<Rightarrow> ck_mechanism \<Rightarrow> (ck_rv + sym_params) option" where
  "tc26_params kuz keyType m =
     (let algo = (if kuz then SymAlgo_KUZNECHIK else SymAlgo_MAGMA)
      in if keyType \<noteq> (if kuz then CKK_KUZNECHIK else CKK_MAGMA) then Some (Inl CKR_KEY_TYPE_INCONSISTENT)
         else if mc_mechanism m = CKM_KUZNECHIK_ECB \<or> mc_mechanism m = CKM_MAGMA_ECB then ecb_params algo m
         else if mc_mechanism m = CKM_KUZNECHIK_CTR_ACPKM \<or> mc_mechanism m = CKM_MAGMA_CTR_ACPKM
         then octets_params algo SymMode_CTR_ACPKM (if kuz then 12 else 8) m
         else
           (case parseMGMParameters m (if kuz then 16 else 8) of
              None \<Rightarrow> None
            | Some (Inl rv) \<Rightarrow> Some (Inl rv)
            | Some (Inr (iv, aad, tagBytes)) \<Rightarrow>
                Some (Inr ((plain_params algo SymMode_MGM 8)\<lparr>sp_iv := iv, sp_aad := aad, sp_tagBytes := tagBytes\<rparr>))))"

definition aes_ctr_params :: "ck_mechanism \<Rightarrow> (ck_rv + sym_params) option" where
  "aes_ctr_params m =
     (if mc_parameter m = None \<or> mc_parameterLen m \<noteq> 24 then Some (Inl CKR_ARGUMENTS_BAD)
      else
        (case mc_parameter m of
           Some (AES_CTR_PARAMS counterBits cb) \<Rightarrow>
             if counterBits = 0 \<or> counterBits > 128 then Some (Inl CKR_MECHANISM_PARAM_INVALID)
             else Some (Inr ((plain_params SymAlgo_AES SymMode_CTR 8)\<lparr>sp_counterBits := counterBits, sp_iv := resize cb 16\<rparr>))
         | _ \<Rightarrow> None))"

definition aes_gcm_params :: "ck_mechanism \<Rightarrow> (ck_rv + sym_params) option" where
  "aes_gcm_params m =
     (if mc_parameter m = None \<or> mc_parameterLen m \<noteq> 48 then Some (Inl CKR_ARGUMENTS_BAD)
      else
        (case mc_parameter m of
           Some (GCM_PARAMS iv aad tagBits) \<Rightarrow>
             if tagBits > 128 \<or> tagBits mod 8 \<noteq> 0 then Some (Inl CKR_ARGUMENTS_BAD)
             else Some (Inr ((plain_params SymAlgo_AES SymMode_GCM 8)\<lparr>sp_iv := iv, sp_aad := aad, sp_tagBytes := tagBits div 8\<rparr>))
         | _ \<Rightarrow> None))"

definition aes_params :: "ulong \<Rightarrow> ck_mechanism \<Rightarrow> (ck_rv + sym_params) option" where
  "aes_params keyType m =
     (if keyType \<noteq> CKK_AES then Some (Inl CKR_KEY_TYPE_INCONSISTENT)
      else if mc_mechanism m = CKM_AES_ECB then Some (Inr (plain_params SymAlgo_AES SymMode_ECB 8))
      else if mc_mechanism m = CKM_AES_CTR then aes_ctr_params m
      else if mc_mechanism m = CKM_AES_GCM then aes_gcm_params m
      else cbc_params SymAlgo_AES (mc_mechanism m = CKM_AES_CBC_PAD) 8 m)"

definition mechanism_params :: "bool \<Rightarrow> ulong \<Rightarrow> ck_mechanism \<Rightarrow> (ck_rv + sym_params) option" where
  "mechanism_params rutoken keyType m =
     (let t = mc_mechanism m
      in if t \<in> {CKM_DES_ECB, CKM_DES_CBC, CKM_DES_CBC_PAD} then des_params keyType m
         else if t \<in> {CKM_DES3_ECB, CKM_DES3_CBC, CKM_DES3_CBC_PAD} then des3_params keyType m
         else if t \<in> {CKM_GOST28147_ECB, CKM_GOST28147, CKM_VENDOR_GOST28147_CBC_FSS} then gost28147_params rutoken keyType m
         else if t \<in> {CKM_KUZNECHIK_ECB, CKM_KUZNECHIK_CTR_ACPKM, CKM_KUZNECHIK_MGM} then tc26_params True keyType m
         else if t \<in> {CKM_MAGMA_ECB, CKM_MAGMA_CTR_ACPKM, CKM_MAGMA_MGM} then tc26_params False keyType m
         else if t \<in> {CKM_AES_ECB, CKM_AES_CBC, CKM_AES_CBC_PAD, CKM_AES_CTR, CKM_AES_GCM} then aes_params keyType m
         else Some (Inl CKR_MECHANISM_INVALID))"

section \<open>Starting an operation\<close>

text \<open>
  The object behind a handle: a session object, or an object file of the token in the slot the
  handle names. The question whether it is valid reads the file again if it was changed. A
  handle for an object that is gone has no defined result.
\<close>

definition token_object ::
  "ulong \<Rightarrow> addr \<Rightarrow> ('c, 'r) softhsm \<Rightarrow> ((bool \<times> attr_map) \<times> ('c, 'r) softhsm) option" where
  "token_object slotID a st =
     Option.bind (omap_find (hs_slots st) slotID) (\<lambda>tk.
     Option.bind (tk_token tk) (\<lambda>t.
     Option.bind (ot_heap t a) (\<lambda>(name, f).
       (let (valid, f) = of_isValid (dir_get t name) f;
            t = t\<lparr>ot_heap := (ot_heap t)(a \<mapsto> (name, f))\<rparr>
        in Some ((valid, of_attributes f), put_slot slotID (put_token t tk) st)))))"

definition key_object ::
  "handle \<Rightarrow> ('c, 'r) softhsm \<Rightarrow> ((bool \<times> attr_map) \<times> ('c, 'r) softhsm) option" where
  "key_object h st =
     (if h_hSession h \<noteq> CK_INVALID_HANDLE
      then map_option (\<lambda>x. ((so_valid x, so_attributes x), st)) (omap_find (ss_heap (hs_store st)) (h_object h))
      else token_object (h_slotID h) (h_object h) st)"

definition isMechanismPermitted :: "ulong list \<Rightarrow> attr_map \<Rightarrow> ulong \<Rightarrow> bool" where
  "isMechanismPermitted supportedMechanisms attrs mechanism =
     (if mechanism \<notin> set supportedMechanisms then False
      else
        (let allowed = attr_getMechanismTypeSetValue (attr_of (omap_find attrs CKA_ALLOWED_MECHANISMS))
         in if allowed = [] then True else mechanism \<in> set allowed))"

fun getSymmetricAlgorithm :: "sym_algo \<Rightarrow> 'c cipher_obj" where
  "getSymmetricAlgorithm SymAlgo_AES = OsslCipher OSSLAES SymmetricAlgorithm_new"
| "getSymmetricAlgorithm SymAlgo_DES = OsslCipher OSSLDES SymmetricAlgorithm_new"
| "getSymmetricAlgorithm SymAlgo_DES3 = OsslCipher OSSLDES SymmetricAlgorithm_new"
| "getSymmetricAlgorithm SymAlgo_GOST28147 = Gost89Cipher GOST28147Algorithm_new"
| "getSymmetricAlgorithm SymAlgo_KUZNECHIK = GostCipher KUZNECHIK GOSTSymmetricAlgorithm_new"
| "getSymmetricAlgorithm SymAlgo_MAGMA = GostCipher MAGMA GOSTSymmetricAlgorithm_new"

text \<open>The value of an attribute of a key; those of a private key are sealed.\<close>

definition key_bytes ::
  "('c, 'd, 'r) crypto \<Rightarrow> bool \<Rightarrow> attr_map \<Rightarrow> ulong \<Rightarrow> ('c, 'r) hsm_token \<Rightarrow> bytes option \<times> ('c, 'r) hsm_token" where
  "key_bytes cx isKeyPrivate attrs t tk =
     (if isKeyPrivate then tk_decrypt cx (bytes_of (omap_find attrs t)) tk else (Some (bytes_of (omap_find attrs t)), tk))"

text \<open>The key, and the parameter set that goes with a GOST 28147-89 key.\<close>

definition getSymmetricKey ::
  "('c, 'd, 'r) crypto \<Rightarrow> attr_map \<Rightarrow> ('c, 'r) hsm_token \<Rightarrow> (symmetric_key \<times> bytes) option \<times> ('c, 'r) hsm_token" where
  "getSymmetricKey cx attrs tk =
     (let isKeyPrivate = bool_of (omap_find attrs CKA_PRIVATE) False;
          (keybits, tk) = key_bytes cx isKeyPrivate attrs CKA_VALUE tk
      in case keybits of
           None \<Rightarrow> (None, tk)
         | Some keybits \<Rightarrow>
             (let key = snd (setKeyBits (SymmetricKey_new 0) keybits)
              in if ulong_of (omap_find attrs CKA_KEY_TYPE) CKK_VENDOR_DEFINED = CKK_GOST28147
                 then (let (parameters, tk) = key_bytes cx isKeyPrivate attrs CKA_GOST28147_PARAMS tk
                       in (map_option (Pair key) parameters, tk))
                 else (Some (key, []), tk)))"

text \<open>The initialising function of an object, for one direction.\<close>

fun co_init ::
  "'c evp \<Rightarrow> bool \<Rightarrow> symmetric_key \<Rightarrow> bytes \<Rightarrow> sym_params \<Rightarrow> 'c cipher_obj \<Rightarrow> bool \<times> 'c cipher_obj" where
  "co_init evp encrypt key oid p (OsslCipher cc a) =
     (case (if encrypt then encryptInit else decryptInit) evp cc (Some key) (sp_mode p) (sp_iv p) (sp_padding p)
             (sp_counterBits p) (sp_aad p) (sp_tagBytes p) a of (ok, a) \<Rightarrow> (ok, OsslCipher cc a))"
| "co_init evp encrypt key oid p (GostCipher c a) =
     (case (if encrypt then ga_encryptInit else ga_decryptInit) c (Some key) (sp_mode p) (sp_iv p) (sp_padding p)
             (sp_aad p) (sp_tagBytes p) a of (ok, a) \<Rightarrow> (ok, GostCipher c a))"
| "co_init evp encrypt key oid p (Gost89Cipher a) =
     (case (if encrypt then g8_encryptInit else g8_decryptInit) (Some key) oid (sp_mode p) (sp_iv p) (sp_padding p)
             (sp_aad p) (sp_tagBytes p) a of (ok, a) \<Rightarrow> (ok, Gost89Cipher a))"

text \<open>
  The end of both functions, once the parameters are known: \<open>cipherAt\<close> and \<open>keyAt\<close> are the
  addresses of the new cipher and of the new key.
\<close>

definition operation_of :: "bool \<Rightarrow> int" where
  "operation_of encrypt = (if encrypt then SESSION_OP_ENCRYPT else SESSION_OP_DECRYPT)"

definition start_session :: "bool \<Rightarrow> addr \<Rightarrow> addr \<Rightarrow> session \<Rightarrow> addr list \<times> session" where
  "start_session encrypt cipherAt keyAt s =
     (let (given1, s) = setSymmetricCryptoOp cipherAt (s\<lparr>se_operation := operation_of encrypt\<rparr>);
          (given2, s) = setSymmetricKey keyAt (s\<lparr>se_allowMultiPartOp := True, se_allowSinglePartOp := True\<rparr>)
      in (given1 @ given2, s))"

definition sym_start ::
  "('c, 'd, 'r) crypto \<Rightarrow> bool \<Rightarrow> addr \<times> addr \<Rightarrow> attr_map \<Rightarrow> sym_params \<Rightarrow> session \<Rightarrow> ('c, 'r) hsm_token
     \<Rightarrow> (ck_rv + 'c op_state) \<times> ('c, 'r) hsm_token" where
  "sym_start cx encrypt at attrs p s tk =
     (case getSymmetricKey cx attrs tk of
        (None, tk) \<Rightarrow> (Inl CKR_GENERAL_ERROR, tk)
      | (Some (key, oid), tk) \<Rightarrow>
          (case co_init (cx_evp cx) encrypt (key\<lparr>bitLen := length (keyData key) * sp_bb p\<rparr>) oid p (getSymmetricAlgorithm (sp_algo p)) of
             (False, cipher) \<Rightarrow> (Inl CKR_MECHANISM_INVALID, tk)
           | (True, cipher) \<Rightarrow>
               (let (given, s) = start_session encrypt (fst at) (snd at) s
                in (Inr \<lparr>os_session = s, os_cipher = cipher, os_freed = given\<rparr>, tk))))"

definition key_refused :: "bool \<Rightarrow> ulong list \<Rightarrow> ulong \<Rightarrow> bool \<times> attr_map \<Rightarrow> ('c, 'r) hsm_token \<Rightarrow> session \<Rightarrow> ck_rv" where
  "key_refused encrypt supportedMechanisms mechanism key tk s =
     (let (valid, attrs) = key;
          rv = haveRead (getState tk s) (bool_of (omap_find attrs CKA_TOKEN) False) (bool_of (omap_find attrs CKA_PRIVATE) True)
      in if \<not> valid then CKR_OBJECT_HANDLE_INVALID
         else if rv \<noteq> CKR_OK then rv
         else if \<not> bool_of (omap_find attrs (if encrypt then CKA_ENCRYPT else CKA_DECRYPT)) False
         then CKR_KEY_FUNCTION_NOT_PERMITTED
         else if \<not> isMechanismPermitted supportedMechanisms attrs mechanism then CKR_MECHANISM_INVALID
         else CKR_OK)"

definition SymInit ::
  "('c, 'd, 'r) crypto \<Rightarrow> bool \<Rightarrow> ulong list \<Rightarrow> addr \<times> addr \<Rightarrow> ulong \<Rightarrow> ck_mechanism option \<Rightarrow> ulong \<Rightarrow> ('c, 'r) cipher_hsm
     \<Rightarrow> (ck_rv \<times> ('c, 'r) cipher_hsm) option" where
  "SymInit cx encrypt supportedMechanisms at hSession pMechanism hKey st =
     (if \<not> hs_initialised (ch_hsm st) then Some (CKR_CRYPTOKI_NOT_INITIALIZED, st)
      else
        (case (pMechanism, find_session hSession (ch_hsm st), omap_find (handles (hs_hm (ch_hsm st))) hKey) of
           (None, _, _) \<Rightarrow> Some (CKR_ARGUMENTS_BAD, st)
         | (Some m, None, _) \<Rightarrow> Some (CKR_SESSION_HANDLE_INVALID, st)
         | (Some m, Some (at_session, s, tk), h) \<Rightarrow>
             if se_operation s \<noteq> SESSION_OP_NONE then Some (CKR_OPERATION_ACTIVE, st)
             else if getObject (hs_hm (ch_hsm st)) hKey = 0 then Some (CKR_OBJECT_HANDLE_INVALID, st)
             else
               Option.bind (key_object (the h) (ch_hsm st)) (\<lambda>(key, hsm).
                 (let rv = key_refused encrypt supportedMechanisms (mc_mechanism m) key tk s;
                      keyType = ulong_of (omap_find (snd key) CKA_KEY_TYPE) CKK_VENDOR_DEFINED
                  in if rv \<noteq> CKR_OK then Some (rv, st\<lparr>ch_hsm := hsm\<rparr>)
                     else
                       Option.bind (mechanism_params (hs_rutoken hsm) keyType m) (\<lambda>params.
                         (case params of
                            Inl rv \<Rightarrow> Some (rv, st\<lparr>ch_hsm := hsm\<rparr>)
                          | Inr p \<Rightarrow>
                              Option.bind (omap_find (hs_slots hsm) (se_slot s)) (\<lambda>tk.
                                Some
                                  (case sym_start cx encrypt at (snd key) p s tk of
                                     (Inl rv, tk) \<Rightarrow> (rv, st\<lparr>ch_hsm := put_slot (se_slot s) tk hsm\<rparr>)
                                   | (Inr x, tk) \<Rightarrow>
                                       (CKR_OK,
                                        \<lparr>ch_hsm = put_session at_session (os_session x) (put_slot (se_slot s) tk hsm),
                                         ch_ciphers =
                                           omap_insert (fst at) (os_cipher x) (fold omap_erase (os_freed x) (ch_ciphers st))\<rparr>)))))))))"

definition SymEncryptInit where
  "SymEncryptInit cx = SymInit cx True"

definition SymDecryptInit where
  "SymDecryptInit cx = SymInit cx False"

text \<open>The two functions of the library; \<open>asymInit\<close> is what they do with other mechanisms.\<close>

definition C_EncryptInit where
  "C_EncryptInit cx supportedMechanisms asymInit at hSession pMechanism hKey st =
     (if isSymMechanism pMechanism then SymEncryptInit cx supportedMechanisms at hSession pMechanism hKey st
      else asymInit hSession pMechanism hKey st)"

definition C_DecryptInit where
  "C_DecryptInit cx supportedMechanisms asymInit at hSession pMechanism hKey st =
     (if isSymMechanism pMechanism then SymDecryptInit cx supportedMechanisms at hSession pMechanism hKey st
      else asymInit hSession pMechanism hKey st)"

end
