(* ===== verification/Cipher_Safety.thy ===== *)
theory Cipher_Safety
  imports Cipher_Init
begin

text \<open>
  The life of an encryption or decryption in a session: from the start over any sequence of
  calls to the end, the cipher object and the session agree on what is going on, so that every
  call has an answer, nothing is written beyond the buffer that was given for it, and the
  object is in use exactly as long as the session says so.
\<close>

unbundle bit_operations_syntax

section \<open>A cipher in use\<close>

definition op_state_of :: "bool \<Rightarrow> sym_operation" where
  "op_state_of encrypt = (if encrypt then ENCRYPT else DECRYPT)"

text \<open>A cipher that was set up for one direction and has not been finished.\<close>

fun co_ready :: "bool \<Rightarrow> 'c cipher_obj \<Rightarrow> bool" where
  "co_ready encrypt (OsslCipher cc a) \<longleftrightarrow> currentOperation a = op_state_of encrypt"
| "co_ready encrypt (GostCipher c a) \<longleftrightarrow> currentOperation (ga_base a) = op_state_of encrypt
     \<and> currentKey (ga_base a) \<noteq> None
     \<and> (currentCipherMode (ga_base a) = SymMode_ECB
        \<or> currentCipherMode (ga_base a) = SymMode_MGM \<and> cipher_block c \<le> length (ga_parameters a)
        \<or> currentCipherMode (ga_base a) \<noteq> SymMode_MGM \<and> 4 + cipher_block c div 2 \<le> length (ga_parameters a))"
| "co_ready encrypt (Gost89Cipher a) \<longleftrightarrow> currentOperation (g8_base a) = op_state_of encrypt
     \<and> currentKey (g8_base a) \<noteq> None
     \<and> (currentCipherMode (g8_base a) = SymMode_ECB \<or> 8 \<le> length (g8_parameters a))"

definition op_inv :: "'c op_state \<Rightarrow> bool" where
  "op_inv x \<longleftrightarrow>
     (\<forall>encrypt. se_operation (os_session x) = operation_of encrypt \<longrightarrow>
        se_symmetricCryptoOp (os_session x) \<noteq> 0 \<and> co_ready encrypt (os_cipher x))"

named_theorems ready_defs

declare op_state_of_def [ready_defs] base_encryptUpdate_def [ready_defs] base_decryptUpdate_def [ready_defs]
  Let_def [ready_defs]

lemma encryptUpdate_ready:
  "co_ready True c \<Longrightarrow> co_encryptUpdate evp data c = (True, out, c') \<Longrightarrow> co_ready True c'"
  by (cases c) (auto simp: ready_defs encryptUpdate_def ga_encryptUpdate_def g8_encryptUpdate_def
      split: prod.splits if_splits option.splits)

lemma decryptUpdate_ready:
  "co_ready False c \<Longrightarrow> co_decryptUpdate evp data c = (True, out, c') \<Longrightarrow> co_ready False c'"
  by (cases c) (auto simp: ready_defs decryptUpdate_def ga_decryptUpdate_def g8_decryptUpdate_def
      split: prod.splits if_splits option.splits)

lemma encryptFinal_defined: "co_ready True c \<Longrightarrow> co_encryptFinal evp c \<noteq> None"
  by (cases c) (auto simp: ga_encryptFinal_def ga_finish_def ga_usable_def g8_encryptFinal_def g8_finish_def
      g8_usable_def Let_def split: prod.splits option.splits)

lemma decryptFinal_defined: "co_ready False c \<Longrightarrow> co_decryptFinal evp c \<noteq> None"
  by (cases c) (auto simp: ga_decryptFinal_def ga_finish_def ga_usable_def g8_decryptFinal_def g8_finish_def
      g8_usable_def Let_def split: prod.splits option.splits)

section \<open>The start\<close>

lemma co_init_ready:
  "co_init evp encrypt key oid p (getSymmetricAlgorithm algo) = (True, c) \<Longrightarrow> co_ready encrypt c"
  by (cases algo)
    (auto simp: encryptInit_def decryptInit_def ga_encryptInit_def ga_decryptInit_def ga_init_def ga_accepts_def
      g8_encryptInit_def g8_decryptInit_def g8_init_def g8_accepts_def op_state_of_def Let_def
      base_encryptInit_def base_decryptInit_def SymmetricAlgorithm_new_def counterBitsInit_def
      GOSTSymmetricAlgorithm_new_def GOST28147Algorithm_new_def
      split: prod.splits if_splits option.splits)
lemma operations_differ: "operation_of a = operation_of b \<longleftrightarrow> a = b" "operation_of a \<noteq> SESSION_OP_NONE"
  by (auto simp: operation_of_def SESSION_OP_ENCRYPT_def SESSION_OP_DECRYPT_def SESSION_OP_NONE_def)

lemma start_session_fields:
  "se_operation (snd (start_session encrypt at keyAt s)) = operation_of encrypt
   \<and> se_symmetricCryptoOp (snd (start_session encrypt at keyAt s)) = at"
  by (auto simp: start_session_def setSymmetricCryptoOp_def setSymmetricKey_def Let_def split: prod.splits)

lemma sym_start_inv:
  assumes "sym_start cx encrypt at attrs p s tk = (Inr x, tk')" and "fst at \<noteq> 0"
  shows "op_inv x"
proof -
  obtain key oid tk1 c where "co_init (cx_evp cx) encrypt key oid p (getSymmetricAlgorithm (sp_algo p)) = (True, c)"
    and x: "os_cipher x = c" "os_session x = snd (start_session encrypt (fst at) (snd at) s)"
    using assms(1) by (auto simp: sym_start_def Let_def split: option.splits prod.splits bool.splits)
  then have "co_ready encrypt c" by (blast intro: co_init_ready)
  with x assms(2) start_session_fields [of encrypt "fst at" "snd at" s] show ?thesis
    by (auto simp: op_inv_def operations_differ)
qed

section \<open>Every call\<close>

lemma reset_inv: "op_inv (reset_session x)"
  by (auto simp: op_inv_def reset_session_def resetOp_def Let_def operations_differ(2) [symmetric] operations_differ
      dest: sym split: prod.splits)

lemma op_inv_encrypt:
  "op_inv x \<Longrightarrow> se_operation (os_session x) = SESSION_OP_ENCRYPT \<Longrightarrow>
     se_symmetricCryptoOp (os_session x) \<noteq> 0 \<and> co_ready True (os_cipher x)"
  unfolding op_inv_def operation_of_def by (metis (full_types))

lemma op_inv_decrypt:
  "op_inv x \<Longrightarrow> se_operation (os_session x) = SESSION_OP_DECRYPT \<Longrightarrow>
     se_symmetricCryptoOp (os_session x) \<noteq> 0 \<and> co_ready False (os_cipher x)"
  unfolding op_inv_def operation_of_def by (metis (full_types))

lemma op_inv_update:
  "op_inv x \<Longrightarrow> se_operation (os_session x) = operation_of encrypt \<Longrightarrow> co_ready encrypt c \<Longrightarrow> op_inv (x\<lparr>os_cipher := c\<rparr>)"
  by (auto simp: op_inv_def operations_differ)
text \<open>\<open>fine r\<close>: an answer that keeps the invariant.\<close>

definition fine :: "(op_out \<times> 'c op_state) option \<Rightarrow> bool" where
  "fine r \<longleftrightarrow> (\<exists>out x. r = Some (out, x) \<and> op_inv x)"

lemma fine_Some [simp]: "fine (Some (out, x)) \<longleftrightarrow> op_inv x"
  by (simp add: fine_def)

lemma fine_ends [simp]: "fine (ends rv len x)"
  by (simp add: ends_def reset_inv)

lemma fine_refused [simp]: "fine (refused rv x) \<longleftrightarrow> op_inv x"
  by (simp add: refused_def)

lemma encrypt_end_defined:
  "co_ready True c \<Longrightarrow> co_encryptUpdate evp data c = (True, out, c') \<Longrightarrow> \<exists>r. co_encryptFinal evp c' = Some r"
  using encryptFinal_defined encryptUpdate_ready by blast

lemma decrypt_end_defined:
  "co_ready False c \<Longrightarrow> co_decryptUpdate evp data c = (True, out, c') \<Longrightarrow> \<exists>r. co_decryptFinal evp c' = Some r"
  using decryptFinal_defined decryptUpdate_ready by blast

lemma fine_SymEncrypt:
  assumes "op_inv x" and "co_ready True (os_cipher x)"
  shows "fine (SymEncrypt evp d b len x)"
proof -
  obtain ok out c where u: "co_encryptUpdate evp d (os_cipher x) = (ok, out, c)" by (rule prod_cases3)
  have "ok \<Longrightarrow> \<exists>r. co_encryptFinal evp c = Some r" using encrypt_end_defined [OF assms(2), of evp d out c] u by simp
  then show ?thesis using assms(1) u by (cases ok) (auto simp: SymEncrypt_def Let_def reset_inv split: prod.split)
qed

lemma fine_SymDecrypt:
  assumes "op_inv x" and "co_ready False (os_cipher x)"
  shows "fine (SymDecrypt evp d b len x)"
proof -
  obtain ok out c where u: "co_decryptUpdate evp d (os_cipher x) = (ok, out, c)" by (rule prod_cases3)
  have "ok \<Longrightarrow> \<exists>r. co_decryptFinal evp c = Some r" using decrypt_end_defined [OF assms(2), of evp d out c] u by simp
  then show ?thesis using assms(1) u by (cases ok) (auto simp: SymDecrypt_def Let_def reset_inv split: prod.split)
qed

lemma fine_SymEncryptFinal:
  assumes "op_inv x" and "co_ready True (os_cipher x)"
  shows "fine (SymEncryptFinal evp b len x)"
proof -
  obtain r where "co_encryptFinal evp (os_cipher x) = Some r" using encryptFinal_defined [OF assms(2)] by blast
  then show ?thesis using assms(1) by (auto simp: SymEncryptFinal_def Let_def reset_inv split: prod.split)
qed

lemma fine_SymDecryptFinal:
  assumes "op_inv x" and "co_ready False (os_cipher x)"
  shows "fine (SymDecryptFinal evp b len x)"
proof -
  obtain r where "co_decryptFinal evp (os_cipher x) = Some r" using decryptFinal_defined [OF assms(2)] by blast
  then show ?thesis using assms(1) by (auto simp: SymDecryptFinal_def Let_def reset_inv split: prod.split)
qed

lemma fine_SymEncryptUpdate:
  assumes "op_inv x" and "se_operation (os_session x) = SESSION_OP_ENCRYPT" and "co_ready True (os_cipher x)"
  shows "fine (Some (SymEncryptUpdate evp d b len x))"
proof -
  obtain ok out c where u: "co_encryptUpdate evp d (os_cipher x) = (ok, out, c)" by (rule prod_cases3)
  have "ok \<Longrightarrow> op_inv (x\<lparr>os_cipher := c\<rparr>)"
    using op_inv_update [OF assms(1), of True c] encryptUpdate_ready [OF assms(3)] u assms(2) by (auto simp: operation_of_def)
  then show ?thesis using assms(1) u by (cases ok) (auto simp: SymEncryptUpdate_def Let_def reset_inv)
qed

lemma fine_SymDecryptUpdate:
  assumes "op_inv x" and "se_operation (os_session x) = SESSION_OP_DECRYPT" and "co_ready False (os_cipher x)"
  shows "fine (Some (SymDecryptUpdate evp d b len x))"
proof -
  obtain ok out c where u: "co_decryptUpdate evp d (os_cipher x) = (ok, out, c)" by (rule prod_cases3)
  have "ok \<Longrightarrow> op_inv (x\<lparr>os_cipher := c\<rparr>)"
    using op_inv_update [OF assms(1), of False c] decryptUpdate_ready [OF assms(3)] u assms(2) by (auto simp: operation_of_def)
  then show ?thesis using assms(1) u by (cases ok) (auto simp: SymDecryptUpdate_def Let_def reset_inv)
qed

lemmas fine_calls = fine_SymEncrypt fine_SymEncryptUpdate fine_SymEncryptFinal
  fine_SymDecrypt fine_SymDecryptUpdate fine_SymDecryptFinal

lemmas call_defs = encrypt_call_def encrypt_update_call_def encrypt_final_call_def
  decrypt_call_def decrypt_update_call_def decrypt_final_call_def

lemma fine_op_step: "op_inv x \<Longrightarrow> fine (op_step evp asymCrypt call x)"
  by (cases call) (auto simp: call_defs fine_calls op_inv_encrypt op_inv_decrypt split: option.splits)

lemma answered_op_step:
  assumes "op_inv x" and "op_step evp asymCrypt call x = Some (out, x')"
  shows "answered (room call) (is_update call) x out x'"
  using assms(2)
  by (cases call)
    (auto simp: call_defs refused_def ends_def intro: answered_size answered_end
      dest: op_inv_encrypt [OF assms(1)] op_inv_decrypt [OF assms(1)] dest!: answered_calls
      split: option.splits if_splits)

section \<open>Every sequence of calls\<close>

fun run_calls ::
  "'c evp \<Rightarrow> ('c op_state \<Rightarrow> (op_out \<times> 'c op_state) option) \<Rightarrow> op_call list \<Rightarrow> 'c op_state \<Rightarrow> (op_out list \<times> 'c op_state) option" where
  "run_calls evp asymCrypt [] x = Some ([], x)"
| "run_calls evp asymCrypt (call # calls) x =
     Option.bind (op_step evp asymCrypt call x) (\<lambda>(out, x).
       map_option (\<lambda>(outs, x). (out # outs, x)) (run_calls evp asymCrypt calls x))"

lemma run_calls_fine:
  "op_inv x \<Longrightarrow> \<exists>outs x'. run_calls evp asymCrypt calls x = Some (outs, x') \<and> op_inv x'
     \<and> list_all2 (\<lambda>call out. length (oo_data out) \<le> room call) calls outs"
proof (induction calls arbitrary: x)
  case (Cons call calls)
  obtain out x1 where s: "op_step evp asymCrypt call x = Some (out, x1)" and i: "op_inv x1"
    using fine_op_step [OF Cons.prems] unfolding fine_def by blast
  have "length (oo_data out) \<le> room call"
    using answered_op_step [OF Cons.prems s] by (simp add: answered_def)
  then show ?case using Cons.IH [OF i] s by fastforce
qed simp

section \<open>A public key\<close>

definition sample_key :: attr_map where
  "sample_key = [(CKA_PRIVATE, BOOL False), (CKA_VALUE, BYTESTR (replicate 32 7)), (CKA_KEY_TYPE, ULONG CKK_KUZNECHIK)]"

definition sample_params :: sym_params where
  "sample_params = (plain_params SymAlgo_KUZNECHIK SymMode_CTR_ACPKM 8)\<lparr>sp_iv := replicate 12 0\<rparr>"

lemma sample_start: "\<exists>x. sym_start cx encrypt at sample_key sample_params s tk = (Inr x, tk)"
  by (simp add: sym_start_def getSymmetricKey_def key_bytes_def sample_key_def sample_params_def
      bool_of_def bytes_of_def ulong_of_def plain_params_def SymmetricKey_new_def setKeyBits_def
      ga_encryptInit_def ga_decryptInit_def ga_init_def ga_accepts_def cipher_block_def period_of_def loadBE32_def
      base_encryptInit_def base_decryptInit_def GOSTSymmetricAlgorithm_new_def SymmetricAlgorithm_new_def Let_def
      split: prod.split)

text \<open>
  C12: Once an encryption or decryption with a symmetric key has been started, every sequence of
  the six calls, in any order, with any input, any buffer and any null pointers, is answered:
  no call asks a cipher object for something it has no parameters for, and no call writes more
  than the room it was given.
\<close>

theorem cipher_use_safe:
  assumes "sym_start cx encrypt at attrs p s tk = (Inr x, tk')" and "fst at \<noteq> 0"
  shows "\<exists>outs x'. run_calls evp asymCrypt calls x = Some (outs, x')
    \<and> list_all2 (\<lambda>call out. length (oo_data out) \<le> room call) calls outs"
  using run_calls_fine [OF sym_start_inv [OF assms], of evp asymCrypt calls] by blast

theorem cipher_use_safe_witness:
  "\<forall>cx s tk evp asymCrypt. \<exists>x tk' outs x'. sym_start cx True (1, 2) sample_key sample_params s tk = (Inr x, tk')
     \<and> run_calls evp asymCrypt [EncryptUpdate (Some [1]) True (Some 16), EncryptFinal True (Some 16)] x = Some (outs, x')"
proof (intro allI)
  fix cx s tk evp asymCrypt
  obtain x where x: "sym_start cx True (1, 2) sample_key sample_params s tk = (Inr x, tk)"
    using sample_start by blast
  show "\<exists>x tk' outs x'. sym_start cx True (1, 2) sample_key sample_params s tk = (Inr x, tk')
     \<and> run_calls evp asymCrypt [EncryptUpdate (Some [1]) True (Some 16), EncryptFinal True (Some 16)] x = Some (outs, x')"
    using cipher_use_safe [OF x, of evp asymCrypt "[EncryptUpdate (Some [1]) True (Some 16), EncryptFinal True (Some 16)]"] x
    by auto
qed



section \<open>Where the sizes are wrong\<close>

text \<open>
  With padding and nothing collected, the room a decryption asks for is computed below zero
  and wraps: an update with an empty piece asks for all addresses but one block, and the final
  call for all but one byte, where there is nothing to write.
\<close>

theorem padded_decryption_asks_for_all:
  assumes "usable (se_allowMultiPartOp (os_session x)) x"
    and "co_isBlockCipher (os_cipher x)" "co_getPaddingMode (os_cipher x)" "co_getBufferSize (os_cipher x) = 0"
    and "co_checkMaximumBytes 0 (os_cipher x)" "co_getBlockSize (os_cipher x) \<in> {8, 16}"
    and "len < - of_nat (co_getBlockSize (os_cipher x))"
  shows "SymDecryptUpdate evp [] True len x = (out_rv CKR_BUFFER_TOO_SMALL (- of_nat (co_getBlockSize (os_cipher x))), x)
    \<and> SymDecryptFinal evp True len x = Some (out_rv CKR_BUFFER_TOO_SMALL (- 1), x)"
proof -
  have w: "whole_blocks (- 1) 8 = - 8" "whole_blocks (- 1) 16 = - 16"
    by code_simp+
  have "len < - 1"
    using assms(7) by (rule less_le_trans) simp
  then show ?thesis
    using assms w by (auto simp: SymDecryptUpdate_def SymDecryptFinal_def Let_def)
qed

theorem padded_decryption_asks_for_all_witness:
  "\<exists>(x :: 'c op_state). \<forall>evp. SymDecryptFinal evp True 64 x = Some (out_rv CKR_BUFFER_TOO_SMALL (- 1), x)"
proof -
  let ?c = "Gost89Cipher (GOST28147Algorithm_new\<lparr>g8_base := SymmetricAlgorithm_new\<lparr>currentCipherMode := SymMode_CBC,
    currentOperation := DECRYPT\<rparr>\<rparr>)"
  let ?s = "(Session_new 0 True)\<lparr>se_operation := SESSION_OP_DECRYPT, se_symmetricCryptoOp := 1, se_allowMultiPartOp := True\<rparr>"
  show ?thesis
    using padded_decryption_asks_for_all [of "\<lparr>os_session = ?s, os_cipher = ?c, os_freed = []\<rparr>" 64]
    by (auto simp: usable_def isBlockCipher_def GOST28147Algorithm_new_def SymmetricAlgorithm_new_def Session_new_def)
qed

end
