(* ===== verification/Cipher_Roundtrip.thy ===== *)
theory Cipher_Roundtrip
  imports Cipher_Safety
begin

text \<open>
  What the functions of the library write when a message is encrypted with a GOST key, put
  together and handed to the decrypting functions in pieces of any size, is the message again.
  The GOST objects collect their input and answer with the final call, so one interface serves
  both classes.
\<close>

lemma scast_small:
  assumes "(k :: ulong) < 2 ^ 31"
  shows "scast (ucast k :: 32 word) = k"
proof (rule bit_word_eqI)
  have "take_bit 31 (uint k) = uint k" using assms by (simp add: take_bit_int_eq_self_iff word_less_def)
  then have t: "take_bit 31 k = k" by (metis unsigned_take_bit_eq word_eq_iff_unsigned)
  have b: "bit k i \<Longrightarrow> i < 31" for i by (subst (asm) t [symmetric]) (simp add: bit_simps)
  show "bit (scast (ucast k :: 32 word) :: ulong) i \<longleftrightarrow> bit k i" if "i < LENGTH(64)" for i
    using b [of i] b [of 31] that by (auto simp: bit_simps min_def)
qed

lemma whole_blocks_le:
  assumes "n < 2 ^ 31"
  shows "whole_blocks n b \<le> n"
proof -
  have "n div of_nat b \<le> n" by (simp add: word_le_nat_alt unat_div)
  then have "n div of_nat b < 2 ^ 31" using assms by simp
  then show ?thesis by (simp add: whole_blocks_def scast_small word_div_mult_le)
qed

section \<open>The interface\<close>

text \<open>
  A cipher that collects a message: \<open>enc\<close> and \<open>dec\<close> say that an object is encrypting or
  decrypting and what it has collected, \<open>pair\<close> that a message and a ciphertext belong together.
\<close>

locale collecting_cipher =
  fixes evp :: "'c evp"
    and enc dec :: "bytes \<Rightarrow> 'c cipher_obj \<Rightarrow> bool"
    and pair :: "bytes \<Rightarrow> bytes \<Rightarrow> bool"
  assumes enc_update: "enc inp c \<Longrightarrow> co_encryptUpdate evp d c = (True, out, c') \<Longrightarrow> out = [] \<and> enc (inp @ d) c'"
    and enc_final: "enc inp c \<Longrightarrow> co_encryptFinal evp c = Some (True, ct, c') \<Longrightarrow> pair inp ct"
    and dec_update: "dec inp c \<Longrightarrow> pair m (inp @ d @ r) \<Longrightarrow> length d < 2 ^ 31 \<Longrightarrow>
      co_checkMaximumBytes (of_nat (length d)) c \<and> (\<exists>c'. co_decryptUpdate evp d c = (True, [], c') \<and> dec (inp @ d) c')"
    and dec_final: "dec ct c \<Longrightarrow> pair m ct \<Longrightarrow> \<exists>c'. co_decryptFinal evp c = Some (True, m, c')"
    and dec_size: "dec inp c \<Longrightarrow> co_getBufferSize c = of_nat (length inp)"
    and dec_block: "dec ct c \<Longrightarrow> pair m ct \<Longrightarrow> co_isBlockCipher c \<Longrightarrow>
      co_getBlockSize c \<in> {8, 16} \<and> length ct mod co_getBlockSize c = 0 \<and> (co_getPaddingMode c \<longrightarrow> ct \<noteq> [])"
    and pair_length: "pair m ct \<Longrightarrow> length m \<le> length ct"
begin

lemma encrypting_calls:
  assumes "enc inp (os_cipher x)"
    and "run_calls evp asymCrypt (map (\<lambda>d. EncryptUpdate (Some d) True (Some n)) ps @ [EncryptFinal True (Some n)]) x
      = Some (outs, x')"
    and "\<forall>out \<in> set outs. oo_rv out = CKR_OK"
  shows "pair (inp @ concat ps) (concat (map oo_data outs))"
  using assms
proof (induction ps arbitrary: inp x outs)
  case Nil
  then show ?case
    by (auto simp: encrypt_final_call_def SymEncryptFinal_def ends_def refused_def out_rv_def Let_def dest: enc_final
        split: if_splits option.splits prod.splits)
next
  case (Cons d ps)
  obtain out x1 os where s: "op_step evp asymCrypt (EncryptUpdate (Some d) True (Some n)) x = Some (out, x1)"
    and r: "run_calls evp asymCrypt (map (\<lambda>d. EncryptUpdate (Some d) True (Some n)) ps @ [EncryptFinal True (Some n)]) x1
      = Some (os, x')" and o: "outs = out # os"
    using Cons.prems(2) by (auto simp: bind_eq_Some_conv)
  have "oo_data out = [] \<and> enc (inp @ d) (os_cipher x1)"
    using s Cons.prems(1,3) enc_update [OF Cons.prems(1)] unfolding o
    by (auto simp: encrypt_update_call_def SymEncryptUpdate_def refused_def out_rv_def Let_def
        split: if_splits prod.splits)
  then show ?case using Cons.IH [of "inp @ d", OF _ r] Cons.prems(3) by (simp add: o)
qed

lemma decrypting_update:
  assumes d: "dec inp (os_cipher x)" and p: "pair m (inp @ d @ r)"
    and u: "usable (se_allowMultiPartOp (os_session x)) x" "se_operation (os_session x) = SESSION_OP_DECRYPT"
    and n: "d \<noteq> []" "length (inp @ d @ r) < 2 ^ 31" "length (inp @ d @ r) \<le> unat n"
  shows "\<exists>c. op_step evp asymCrypt (DecryptUpdate (Some d) True (Some n)) x
      = Some (\<lparr>oo_rv = CKR_OK, oo_len = 0, oo_data = []\<rparr>, x\<lparr>os_cipher := c\<rparr>) \<and> dec (inp @ d) c"
proof -
  have len: "length d < 2 ^ 31" using n(2) by simp
  obtain c where ok: "co_checkMaximumBytes (of_nat (length d)) (os_cipher x)"
    and c: "co_decryptUpdate evp d (os_cipher x) = (True, [], c)" "dec (inp @ d) c"
    using dec_update [OF d p len] by blast
  have room: "of_nat k \<le> n" if "k \<le> length (inp @ d)" for k
  proof -
    have "k \<le> unat n" using that n(3) by simp
    moreover have "unat (of_nat k :: ulong) \<le> k" by (simp add: unat_of_nat)
    ultimately show ?thesis by (simp add: word_le_nat_alt)
  qed
  have block: "whole_blocks (of_nat (length d) + co_getBufferSize (os_cipher x) - (if pad then 1 else 0)) b \<le> n" for pad b
  proof -
    let ?k = "length d + length inp - (if pad then 1 else 0)"
    have e: "of_nat (length d) + co_getBufferSize (os_cipher x) - (if pad then 1 else 0) = (of_nat ?k :: ulong)"
      using n(1) by (cases d) (simp_all add: dec_size [OF d])
    have "?k < 2 ^ 31" using n(2) by simp
    moreover have "unat (of_nat ?k :: ulong) \<le> ?k" unfolding unat_of_nat by (rule mod_less_eq_dividend)
    ultimately have l: "(of_nat ?k :: ulong) < 2 ^ 31" by (simp add: word_less_nat_alt)
    show ?thesis unfolding e by (rule order_trans [OF whole_blocks_le [OF l]], rule room) simp
  qed
  have plain: "of_nat (length d) + co_getBufferSize (os_cipher x) \<le> n"
    using room [of "length d + length inp"] by (simp add: dec_size [OF d])
  have "se_symmetricCryptoOp (os_session x) \<noteq> 0" using u(1) by (simp add: usable_def)
  then show ?thesis
    using u ok c plain block [of "co_getPaddingMode (os_cipher x)" "co_getBlockSize (os_cipher x)"]
    by (auto simp: decrypt_update_call_def SymDecryptUpdate_def not_less Let_def)
qed

lemma decrypting_final:
  assumes d: "dec ct (os_cipher x)" and p: "pair m ct"
    and u: "usable (se_allowMultiPartOp (os_session x)) x" "se_operation (os_session x) = SESSION_OP_DECRYPT"
    and n: "length ct < 2 ^ 31" "length ct \<le> unat n"
  shows "\<exists>x'. op_step evp asymCrypt (DecryptFinal True (Some n)) x
      = Some (\<lparr>oo_rv = CKR_OK, oo_len = of_nat (length m), oo_data = m\<rparr>, x')"
proof -
  obtain c where c: "co_decryptFinal evp (os_cipher x) = Some (True, m, c)" using dec_final [OF d p] by blast
  have room: "of_nat k \<le> n" if "k \<le> length ct" for k
    using that n(2) by (simp add: word_le_nat_alt unat_of_nat)
  have size: "(if co_isBlockCipher (os_cipher x)
      then of_nat (length ct) - (if co_getPaddingMode (os_cipher x) then 1 else 0) else of_nat (length ct)) \<le> n"
    using room [of "length ct"] room [of "length ct - 1"] dec_block [OF d p] by (cases ct) auto
  have whole: "of_nat (length ct) mod of_nat (co_getBlockSize (os_cipher x)) = (0 :: ulong)"
    if "co_isBlockCipher (os_cipher x)"
    using dec_block [OF d p that] n(1) by (auto simp: word_arith_nat_mod unat_of_nat)
  have "length m \<le> unat n" using pair_length [OF p] n(2) by simp
  moreover have "se_symmetricCryptoOp (os_session x) \<noteq> 0" using u(1) by (simp add: usable_def)
  ultimately show ?thesis
    using u c size whole dec_size [OF d]
    by (auto simp: decrypt_final_call_def SymDecryptFinal_def not_less Let_def split: if_splits)
qed

lemma decrypting_calls:
  assumes "dec inp (os_cipher x)" and "pair m (inp @ concat cs)"
    and "usable (se_allowMultiPartOp (os_session x)) x" and "se_operation (os_session x) = SESSION_OP_DECRYPT"
    and "[] \<notin> set cs" and "length (inp @ concat cs) < 2 ^ 31" and "length (inp @ concat cs) \<le> unat n"
  shows "\<exists>outs x'. run_calls evp asymCrypt (map (\<lambda>d. DecryptUpdate (Some d) True (Some n)) cs @ [DecryptFinal True (Some n)]) x
      = Some (outs, x') \<and> (\<forall>out \<in> set outs. oo_rv out = CKR_OK) \<and> concat (map oo_data outs) = m"
  using assms
proof (induction cs arbitrary: inp x)
  case Nil
  then show ?case
    using decrypting_final [of inp x m n asymCrypt] by (fastforce simp del: op_step.simps)
next
  case (Cons d cs)
  obtain c where s: "op_step evp asymCrypt (DecryptUpdate (Some d) True (Some n)) x
      = Some (\<lparr>oo_rv = CKR_OK, oo_len = 0, oo_data = []\<rparr>, x\<lparr>os_cipher := c\<rparr>)" and c: "dec (inp @ d) c"
    using decrypting_update [of inp x m d "concat cs" n asymCrypt] Cons.prems by auto
  have "\<exists>outs x'. run_calls evp asymCrypt (map (\<lambda>d. DecryptUpdate (Some d) True (Some n)) cs @ [DecryptFinal True (Some n)])
        (x\<lparr>os_cipher := c\<rparr>) = Some (outs, x') \<and> (\<forall>out \<in> set outs. oo_rv out = CKR_OK) \<and> concat (map oo_data outs) = m"
    by (rule Cons.IH [of "inp @ d"]) (use c Cons.prems in \<open>auto simp: usable_def\<close>)
  then show ?case using s by (fastforce simp del: op_step.simps)
qed

theorem calls_roundtrip:
  assumes "enc [] (os_cipher x)" and "dec [] (os_cipher y)"
    and "run_calls evp asymCrypt (map (\<lambda>d. EncryptUpdate (Some d) True (Some n)) ps @ [EncryptFinal True (Some n)]) x
      = Some (outs, x')" and "\<forall>out \<in> set outs. oo_rv out = CKR_OK"
    and "usable (se_allowMultiPartOp (os_session y)) y" and "se_operation (os_session y) = SESSION_OP_DECRYPT"
    and "concat cs = concat (map oo_data outs)" and "[] \<notin> set cs"
    and "length (concat cs) < 2 ^ 31" and "length (concat cs) \<le> unat n'"
  shows "\<exists>outs' y'. run_calls evp asymCrypt (map (\<lambda>d. DecryptUpdate (Some d) True (Some n')) cs @ [DecryptFinal True (Some n')]) y
      = Some (outs', y') \<and> (\<forall>out \<in> set outs'. oo_rv out = CKR_OK) \<and> concat (map oo_data outs') = concat ps"
proof -
  have "pair ([] @ concat ps) ([] @ concat cs)"
    using encrypting_calls [OF assms(1,3,4)] assms(7) by simp
  then show ?thesis
    using decrypting_calls [OF assms(2), of "concat ps" cs n' asymCrypt] assms by simp
qed

end

section \<open>Kuznyechik and Magma\<close>

definition gost_enc ::
  "gost_cipher \<Rightarrow> symmetric_key \<Rightarrow> sym_mode \<Rightarrow> bytes \<Rightarrow> bytes \<Rightarrow> nat \<Rightarrow> bytes \<Rightarrow> 'c cipher_obj \<Rightarrow> bool" where
  "gost_enc c key mode params aad tagBytes inp obj \<longleftrightarrow> ga_accepts c (Some key) mode params aad tagBytes
     \<and> (\<exists>a. obj = GostCipher c a \<and> ga_during ENCRYPT key mode params aad tagBytes inp a
          \<and> (mode = SymMode_MGM \<longrightarrow> length inp \<le> mgm_limit c))"

definition gost_dec ::
  "gost_cipher \<Rightarrow> symmetric_key \<Rightarrow> sym_mode \<Rightarrow> bytes \<Rightarrow> bytes \<Rightarrow> nat \<Rightarrow> bytes \<Rightarrow> 'c cipher_obj \<Rightarrow> bool" where
  "gost_dec c key mode params aad tagBytes inp obj \<longleftrightarrow>
     (\<exists>a. obj = GostCipher c a \<and> ga_during DECRYPT key mode params aad tagBytes inp a
          \<and> currentBufferSize (ga_base a) = of_nat (length inp) \<and> \<not> currentPaddingMode (ga_base a))"

definition gost_pair ::
  "gost_cipher \<Rightarrow> symmetric_key \<Rightarrow> sym_mode \<Rightarrow> bytes \<Rightarrow> bytes \<Rightarrow> nat \<Rightarrow> bytes \<Rightarrow> bytes \<Rightarrow> bool" where
  "gost_pair c key mode params aad tagBytes m ct \<longleftrightarrow> ga_accepts c (Some key) mode params aad tagBytes
     \<and> (\<exists>a. ga_during ENCRYPT key mode params aad tagBytes m a \<and> ga_process c True a = Some ct)
     \<and> (mode = SymMode_MGM \<longrightarrow> length m \<le> mgm_limit c)"

lemma gost_pair_lengths:
  assumes "gost_pair c key mode params aad tb m ct"
  shows "length ct = (if mode = SymMode_MGM then length m + tb else length m)"
    and "mode = SymMode_ECB \<Longrightarrow> length ct mod cipher_block c = 0"
proof -
  obtain a where a: "ga_accepts c (Some key) mode params aad tb" "ga_during ENCRYPT key mode params aad tb m a"
    "ga_process c True a = Some ct"
    using assms by (auto simp: gost_pair_def)
  consider "mode = SymMode_ECB" | "mode = SymMode_CTR_ACPKM" "length params = 4 + cipher_block c div 2" | "mode = SymMode_MGM"
    using a(1) by (auto simp: ga_accepts_def Let_def)
  then have "length ct = (if mode = SymMode_MGM then length m + tb else length m)
    \<and> (mode = SymMode_ECB \<longrightarrow> length ct mod cipher_block c = 0)"
  proof cases
    case 1
    then show ?thesis
      using a(2,3) ecb.run_undone [where s = "()" and inp = m and c = c and key = "keyData key"]
      by (auto simp: ga_process_def ga_during_def processECB_def ecb.whole_def Let_def split: if_splits)
  next
    case 2
    have ok: "acpkm_ok c (0, cipher_with c (keyData key),
        take (cipher_block c div 2) (drop 4 params) @ replicate (cipher_block c - cipher_block c div 2) 0)"
      using 2(2) by (simp add: acpkm_ok_def cipher_with_def) (simp add: GOSTSymmetric_new_def)
    show ?thesis
      using 2 a(2,3) acpkm.run_undone [OF ok, of m]
      by (auto simp: ga_process_def ga_during_def processCTRACPKM_def acpkm.whole_def Let_def)
  next
    case 3
    then show ?thesis using ga_process_length [OF a] by simp
  qed
  then show "length ct = (if mode = SymMode_MGM then length m + tb else length m)"
    "mode = SymMode_ECB \<Longrightarrow> length ct mod cipher_block c = 0" by auto
qed

interpretation gost: collecting_cipher e "gost_enc c key mode params aad tb" "gost_dec c key mode params aad tb"
  "gost_pair c key mode params aad tb" for e :: "'a evp" and c key mode params aad tb
proof
  fix inp d out and obj obj' :: "'a cipher_obj"
  assume "gost_enc c key mode params aad tb inp obj" "co_encryptUpdate e d obj = (True, out, obj')"
  then show "out = [] \<and> gost_enc c key mode params aad tb (inp @ d) obj'"
    using ga_encryptUpdate_during by (fastforce simp: gost_enc_def split: prod.splits)
next
  fix inp ct and obj obj' :: "'a cipher_obj"
  assume "gost_enc c key mode params aad tb inp obj" "co_encryptFinal e obj = Some (True, ct, obj')"
  then show "gost_pair c key mode params aad tb inp ct"
    using ga_finish_True by (fastforce simp: gost_enc_def gost_pair_def ga_encryptFinal_def)
next
  fix inp m d r and obj :: "'a cipher_obj"
  assume dec: "gost_dec c key mode params aad tb inp obj" and p: "gost_pair c key mode params aad tb m (inp @ d @ r)"
    and l: "length d < 2 ^ 31"
  obtain a where a: "obj = GostCipher c a" "ga_during DECRYPT key mode params aad tb inp a"
    "currentBufferSize (ga_base a) = of_nat (length inp)" "\<not> currentPaddingMode (ga_base a)"
    using dec by (auto simp: gost_dec_def)
  have "mode = SymMode_MGM \<Longrightarrow> length inp + length d \<le> mgm_limit c + tb"
    using gost_pair_lengths(1) [OF p] p by (auto simp: gost_pair_def)
  then have ch: "ga_checkMaximumBytes c (length d) a" using ga_check_during [OF a(2), of c "length d"] by auto
  have "unat (of_nat (length d) :: ulong) = length d" using l by (simp add: unat_of_nat)
  then show "co_checkMaximumBytes (of_nat (length d)) obj
    \<and> (\<exists>obj'. co_decryptUpdate e d obj = (True, [], obj') \<and> gost_dec c key mode params aad tb (inp @ d) obj')"
    using a ch by (auto simp: ga_decryptUpdate_def gost_dec_def ga_during_def base_decryptUpdate_def Let_def)
next
  fix ct m and obj :: "'a cipher_obj"
  assume "gost_dec c key mode params aad tb ct obj" "gost_pair c key mode params aad tb m ct"
  then show "\<exists>obj'. co_decryptFinal e obj = Some (True, m, obj')"
    using ga_process_back ga_finish_during [of False key mode params aad tb ct _ c m]
    by (fastforce simp: gost_dec_def gost_pair_def ga_decryptFinal_def)
next
  fix inp and obj :: "'a cipher_obj"
  assume "gost_dec c key mode params aad tb inp obj"
  then show "co_getBufferSize obj = of_nat (length inp)" by (auto simp: gost_dec_def)
next
  fix ct m and obj :: "'a cipher_obj"
  assume d: "gost_dec c key mode params aad tb ct obj" and p: "gost_pair c key mode params aad tb m ct"
    and b: "co_isBlockCipher obj"
  have "mode = SymMode_ECB"
    using d b p by (auto simp: gost_dec_def gost_pair_def ga_during_def isBlockCipher_def ga_accepts_def Let_def
        split: sym_mode.splits)
  then show "co_getBlockSize obj \<in> {8, 16} \<and> length ct mod co_getBlockSize obj = 0 \<and> (co_getPaddingMode obj \<longrightarrow> ct \<noteq> [])"
    using d gost_pair_lengths(2) [OF p] by (auto simp: gost_dec_def cipher_block_def split: if_splits)
next
  fix m ct
  assume "gost_pair c key mode params aad tb m ct"
  from gost_pair_lengths(1) [OF this] show "length m \<le> length ct" by (auto split: if_splits)
qed

section \<open>GOST 28147-89\<close>

definition g89_enc :: "symmetric_key \<Rightarrow> bytes \<Rightarrow> sym_mode \<Rightarrow> bytes \<Rightarrow> bool \<Rightarrow> bytes \<Rightarrow> 'c cipher_obj \<Rightarrow> bool" where
  "g89_enc key oid mode iv padding inp obj \<longleftrightarrow> g8_accepts (Some key) oid mode iv padding
     \<and> (\<exists>a. obj = Gost89Cipher a \<and> g8_during ENCRYPT key oid mode iv inp a)"

definition g89_dec :: "symmetric_key \<Rightarrow> bytes \<Rightarrow> sym_mode \<Rightarrow> bytes \<Rightarrow> bool \<Rightarrow> bytes \<Rightarrow> 'c cipher_obj \<Rightarrow> bool" where
  "g89_dec key oid mode iv padding inp obj \<longleftrightarrow>
     (\<exists>a. obj = Gost89Cipher a \<and> g8_during DECRYPT key oid mode iv inp a
          \<and> currentBufferSize (g8_base a) = of_nat (length inp) \<and> currentPaddingMode (g8_base a) = padding)"

definition g89_pair :: "symmetric_key \<Rightarrow> bytes \<Rightarrow> sym_mode \<Rightarrow> bytes \<Rightarrow> bool \<Rightarrow> bytes \<Rightarrow> bytes \<Rightarrow> bool" where
  "g89_pair key oid mode iv padding m ct \<longleftrightarrow> g8_accepts (Some key) oid mode iv padding
     \<and> (\<exists>a. g8_during ENCRYPT key oid mode iv m a \<and> g8_process True a = Some ct)"

lemma g89_pair_lengths:
  assumes "g89_pair key oid mode iv padding m ct"
  shows "length m \<le> length ct"
    and "mode \<noteq> SymMode_CFB \<Longrightarrow> length ct mod 8 = 0"
    and "mode = SymMode_CBC \<Longrightarrow> ct \<noteq> []"
proof -
  obtain a where a: "g8_accepts (Some key) oid mode iv padding" "g8_during ENCRYPT key oid mode iv m a"
    "g8_process True a = Some ct"
    using assms by (auto simp: g89_pair_def)
  obtain g where p: "setParamSet oid GOST28147_new = (True, g)"
    using a(1) by (cases "setParamSet oid GOST28147_new") (auto simp: g8_accepts_def)
  obtain g' where k: "g_setKey (keyData key) g = (True, g')" "g_keyed g'"
    using a(1) by (auto simp: g8_accepts_def g_setKey_def)
  consider "mode = SymMode_ECB" | "mode = SymMode_CFB" "length iv = 8" | "mode = SymMode_CBC" "length iv = 8"
    using a(1) by (auto simp: g8_accepts_def)
  then have "length m \<le> length ct \<and> (mode \<noteq> SymMode_CFB \<longrightarrow> length ct mod 8 = 0) \<and> (mode = SymMode_CBC \<longrightarrow> ct \<noteq> [])"
  proof cases
    case 1
    then show ?thesis
      using a(2,3) g8_ecb.run_undone [of "(0, g')" m] k(2)
      by (auto simp: g8_process_def g8_during_def p k(1) g8_processECB_def g8_ecb.whole_def split: if_splits)
  next
    case 2
    then show ?thesis
      using a(2,3) g8_cfb.run_undone [of "(0, g', take 8 iv)" m] k(2)
      by (auto simp: g8_process_def g8_during_def p k(1) g8_processCFB_def g8_cfb.whole_def g8_ok_def)
  next
    case 3
    then have "ct = run 8 (g8_cbc_step True) (0, g', take 8 iv) (pad8 m)"
      using a(2,3) by (auto simp: g8_process_def g8_during_def p k(1) g8_processCBC_def Let_def)
    then have "length ct = length (pad8 m)"
      using g8_cbc.run_undone [of "(0, g', take 8 iv)" "pad8 m"] length_pad8 [of m] k(2) 3(2)
      by (simp add: g8_cbc.whole_def g8_ok_def)
    then show ?thesis using length_pad8 [of m] by (auto simp: pad8_def Let_def)
  qed
  then show "length m \<le> length ct" "mode \<noteq> SymMode_CFB \<Longrightarrow> length ct mod 8 = 0" "mode = SymMode_CBC \<Longrightarrow> ct \<noteq> []"
    by auto
qed

interpretation g89: collecting_cipher e "g89_enc key oid mode iv padding" "g89_dec key oid mode iv padding"
  "g89_pair key oid mode iv padding" for e :: "'a evp" and key oid mode iv padding
proof
  fix inp d out and obj obj' :: "'a cipher_obj"
  assume "g89_enc key oid mode iv padding inp obj" "co_encryptUpdate e d obj = (True, out, obj')"
  then show "out = [] \<and> g89_enc key oid mode iv padding (inp @ d) obj'"
    by (auto simp: g89_enc_def g8_during_def g8_encryptUpdate_def base_encryptUpdate_def Let_def split: prod.splits if_splits)
next
  fix inp ct and obj obj' :: "'a cipher_obj"
  assume "g89_enc key oid mode iv padding inp obj" "co_encryptFinal e obj = Some (True, ct, obj')"
  then show "g89_pair key oid mode iv padding inp ct"
    using g8_finish_True by (fastforce simp: g89_enc_def g89_pair_def g8_encryptFinal_def)
next
  fix inp m d r and obj :: "'a cipher_obj"
  assume "g89_dec key oid mode iv padding inp obj"
  then show "co_checkMaximumBytes (of_nat (length d)) obj
    \<and> (\<exists>obj'. co_decryptUpdate e d obj = (True, [], obj') \<and> g89_dec key oid mode iv padding (inp @ d) obj')"
    by (auto simp: g8_decryptUpdate_def g89_dec_def g8_during_def base_decryptUpdate_def Let_def)
next
  fix ct m and obj :: "'a cipher_obj"
  assume "g89_dec key oid mode iv padding ct obj" "g89_pair key oid mode iv padding m ct"
  then show "\<exists>obj'. co_decryptFinal e obj = Some (True, m, obj')"
    using g8_process_back g8_finish_during [of False key oid mode iv ct _ m]
    by (fastforce simp: g89_dec_def g89_pair_def g8_decryptFinal_def)
next
  fix inp and obj :: "'a cipher_obj"
  assume "g89_dec key oid mode iv padding inp obj"
  then show "co_getBufferSize obj = of_nat (length inp)" by (auto simp: g89_dec_def)
next
  fix ct m and obj :: "'a cipher_obj"
  assume d: "g89_dec key oid mode iv padding ct obj" and p: "g89_pair key oid mode iv padding m ct"
    and b: "co_isBlockCipher obj"
  have "mode \<noteq> SymMode_CFB" using d b by (auto simp: g89_dec_def g8_during_def isBlockCipher_def)
  moreover have "padding \<Longrightarrow> mode = SymMode_CBC" using p by (auto simp: g89_pair_def g8_accepts_def split: if_splits)
  ultimately show "co_getBlockSize obj \<in> {8, 16} \<and> length ct mod co_getBlockSize obj = 0 \<and> (co_getPaddingMode obj \<longrightarrow> ct \<noteq> [])"
    using d g89_pair_lengths [OF p] by (auto simp: g89_dec_def)
next
  fix m ct
  assume "g89_pair key oid mode iv padding m ct"
  then show "length m \<le> length ct" by (rule g89_pair_lengths(1))
qed

section \<open>Through the library\<close>

lemma co_init_gost:
  "co_init evp encrypt key oid p (GostCipher c GOSTSymmetricAlgorithm_new) = (True, obj) \<Longrightarrow>
    (if encrypt then gost_enc c key (sp_mode p) (sp_iv p) (sp_aad p) (sp_tagBytes p) [] obj
     else gost_dec c key (sp_mode p) (sp_iv p) (sp_aad p) (sp_tagBytes p) [] obj)"
  using ga_init_during [of c key "sp_mode p" "sp_iv p" encrypt "sp_aad p" "sp_tagBytes p" GOSTSymmetricAlgorithm_new]
  by (auto simp: ga_encryptInit_def ga_decryptInit_def gost_enc_def gost_dec_def ga_init_def base_decryptInit_def Let_def
      split: prod.splits if_splits)

lemma co_init_g89:
  "co_init evp encrypt key oid p (Gost89Cipher GOST28147Algorithm_new) = (True, obj) \<Longrightarrow>
    (if encrypt then g89_enc key oid (sp_mode p) (sp_iv p) (sp_padding p) [] obj
     else g89_dec key oid (sp_mode p) (sp_iv p) (sp_padding p) [] obj)"
  using g8_init_during [of key oid "sp_mode p" "sp_iv p" "sp_padding p" encrypt GOST28147Algorithm_new]
  by (auto simp: g8_encryptInit_def g8_decryptInit_def g89_enc_def g89_dec_def g8_init_def base_decryptInit_def Let_def
      split: prod.splits if_splits)

lemma co_init_both_ways:
  assumes "co_init evp True key oid p (getSymmetricAlgorithm algo) = (True, obj)"
    and "algo \<in> {SymAlgo_GOST28147, SymAlgo_KUZNECHIK, SymAlgo_MAGMA}"
  shows "\<exists>obj'. co_init evp False key oid p (getSymmetricAlgorithm algo) = (True, obj')"
  using assms
  by (auto simp: ga_encryptInit_def ga_decryptInit_def ga_init_def g8_encryptInit_def g8_decryptInit_def g8_init_def
      base_encryptInit_def base_decryptInit_def GOSTSymmetricAlgorithm_new_def GOST28147Algorithm_new_def
      SymmetricAlgorithm_new_def Let_def split: prod.splits if_splits)

text \<open>What a start that succeeds did.\<close>

lemma sym_start_Inr:
  "(\<exists>tk'. sym_start cx encrypt at attrs p s tk = (Inr x, tk')) \<longleftrightarrow>
    (\<exists>key oid. fst (getSymmetricKey cx attrs tk) = Some (key, oid)
      \<and> co_init (cx_evp cx) encrypt (key\<lparr>bitLen := length (keyData key) * sp_bb p\<rparr>) oid p (getSymmetricAlgorithm (sp_algo p))
          = (True, os_cipher x)
      \<and> os_session x = snd (start_session encrypt (fst at) (snd at) s)
      \<and> os_freed x = fst (start_session encrypt (fst at) (snd at) s))"
  by (cases x) (auto simp: sym_start_def Let_def split: option.splits prod.splits bool.splits)

lemma start_session_usable:
  "se_allowMultiPartOp (snd (start_session encrypt at keyAt s)) \<and> se_allowSinglePartOp (snd (start_session encrypt at keyAt s))"
  by (auto simp: start_session_def setSymmetricCryptoOp_def setSymmetricKey_def Let_def split: prod.splits)

definition encrypting :: "ulong \<Rightarrow> bytes list \<Rightarrow> op_call list" where
  "encrypting n ps = map (\<lambda>d. EncryptUpdate (Some d) True (Some n)) ps @ [EncryptFinal True (Some n)]"

definition decrypting :: "ulong \<Rightarrow> bytes list \<Rightarrow> op_call list" where
  "decrypting n cs = map (\<lambda>d. DecryptUpdate (Some d) True (Some n)) cs @ [DecryptFinal True (Some n)]"

text \<open>
  C15: With a GOST key, a message encrypted in pieces through the library, each call in a buffer
  the caller chose, is decrypted through the library by a session that is started with the same
  key and parameters: the start succeeds, every call succeeds when the buffer has room for the
  ciphertext, and what the calls wrote is the message. The pieces of the ciphertext may be cut
  differently from those of the message, but must not be empty.
\<close>

theorem gost_calls_roundtrip:
  fixes cx :: "('c, 'd, 'r) crypto"
  assumes "sp_algo p \<in> {SymAlgo_GOST28147, SymAlgo_KUZNECHIK, SymAlgo_MAGMA}"
    and "sym_start cx True at attrs p s tk = (Inr x, tk1)"
    and "run_calls evp asymCrypt (encrypting n ps) x = Some (outs, x1)" and "\<forall>out \<in> set outs. oo_rv out = CKR_OK"
    and "fst (getSymmetricKey cx attrs tk') = fst (getSymmetricKey cx attrs tk)" and "fst at' \<noteq> 0"
    and "concat cs = concat (map oo_data outs)" and "[] \<notin> set cs"
    and "length (concat cs) < 2 ^ 31" and "length (concat cs) \<le> unat n'"
  shows "\<exists>y tk2 outs' y1. sym_start cx False at' attrs p s' tk' = (Inr y, tk2)
    \<and> run_calls evp asymCrypt (decrypting n' cs) y = Some (outs', y1)
    \<and> (\<forall>out \<in> set outs'. oo_rv out = CKR_OK) \<and> concat (map oo_data outs') = concat ps"
proof -
  obtain key oid where k: "fst (getSymmetricKey cx attrs tk) = Some (key, oid)"
    and i: "co_init (cx_evp cx) True (key\<lparr>bitLen := length (keyData key) * sp_bb p\<rparr>) oid p (getSymmetricAlgorithm (sp_algo p))
      = (True, os_cipher x)"
    using assms(2) sym_start_Inr [of cx True at attrs p s tk x] by blast
  obtain obj where j: "co_init (cx_evp cx) False (key\<lparr>bitLen := length (keyData key) * sp_bb p\<rparr>) oid p
      (getSymmetricAlgorithm (sp_algo p)) = (True, obj)"
    using co_init_both_ways [OF i assms(1)] by blast
  define y where "y = \<lparr>os_session = snd (start_session False (fst at') (snd at') s'), os_cipher = obj,
    os_freed = fst (start_session False (fst at') (snd at') s')\<rparr>"
  obtain tk2 where y: "sym_start cx False at' attrs p s' tk' = (Inr y, tk2)"
    using sym_start_Inr [of cx False at' attrs p s' tk' y] k j assms(5) by (auto simp: y_def)
  have u: "usable (se_allowMultiPartOp (os_session y)) y" "se_operation (os_session y) = SESSION_OP_DECRYPT"
    using assms(6) start_session_fields [of False "fst at'" "snd at'" s'] start_session_usable [of False "fst at'" "snd at'" s']
    by (auto simp: y_def usable_def operation_of_def)
  note rest = assms(3) [unfolded encrypting_def] assms(4) u assms(7-10)
  have o: "os_cipher y = obj" by (simp add: y_def)
  have "\<exists>outs' y1. run_calls evp asymCrypt (decrypting n' cs) y = Some (outs', y1)
    \<and> (\<forall>out \<in> set outs'. oo_rv out = CKR_OK) \<and> concat (map oo_data outs') = concat ps"
  proof (cases "sp_algo p = SymAlgo_GOST28147")
    case True
    show ?thesis unfolding decrypting_def
      by (rule g89.calls_roundtrip [OF _ _ rest])
        (use True co_init_g89 [where encrypt = True, OF i [simplified True getSymmetricAlgorithm.simps]]
          co_init_g89 [where encrypt = False, OF j [simplified True getSymmetricAlgorithm.simps]] in \<open>simp_all add: o\<close>)
  next
    case False
    then obtain c where g: "getSymmetricAlgorithm (sp_algo p) = (GostCipher c GOSTSymmetricAlgorithm_new :: 'c cipher_obj)"
      using assms(1) by auto
    show ?thesis unfolding decrypting_def
      by (rule gost.calls_roundtrip [OF _ _ rest])
        (use co_init_gost [OF i [unfolded g]] co_init_gost [OF j [unfolded g]] in \<open>simp_all add: o\<close>)
  qed
  with y show ?thesis by blast
qed

lemma length_processCTRACPKM:
  assumes "length params = 4 + cipher_block c div 2"
  shows "length (processCTRACPKM c key params inp) = length inp"
proof -
  have "acpkm_ok c (0, cipher_with c key, take (cipher_block c div 2) (drop 4 params) @ replicate (cipher_block c - cipher_block c div 2) 0)"
    using assms by (simp add: acpkm_ok_def cipher_with_def) (simp add: GOSTSymmetric_new_def)
  from acpkm.run_undone [OF this, of inp] show ?thesis by (simp add: processCTRACPKM_def Let_def acpkm.whole_def)
qed

lemma sample_run:
  assumes "sym_start cx True (1, 2) sample_key sample_params s tk = (Inr x, tk)"
  shows "\<exists>ct x1. run_calls evp asymCrypt (encrypting 16 [[1], [2, 3]]) x
    = Some ([\<lparr>oo_rv = CKR_OK, oo_len = 0, oo_data = []\<rparr>, \<lparr>oo_rv = CKR_OK, oo_len = 0, oo_data = []\<rparr>,
        \<lparr>oo_rv = CKR_OK, oo_len = 3, oo_data = ct\<rparr>], x1) \<and> length ct = 3"
proof -
  have l: "length (processCTRACPKM KUZNECHIK key (replicate 12 0) inp) = length inp" for key inp
    by (rule length_processCTRACPKM) (simp add: cipher_block_def)
  have u: "usable (se_allowMultiPartOp (os_session x)) x" "se_operation (os_session x) = SESSION_OP_ENCRYPT"
    using assms sym_start_Inr [of cx True "(1, 2)" sample_key sample_params s tk x]
      start_session_fields [of True 1 2 s] start_session_usable [of True 1 2 s] by (auto simp: usable_def operation_of_def)
  obtain key oid where i: "co_init (cx_evp cx) True key oid sample_params (GostCipher KUZNECHIK GOSTSymmetricAlgorithm_new)
      = (True, os_cipher x)"
    using assms sym_start_Inr [of cx True "(1, 2)" sample_key sample_params s tk x]
    by (auto simp: sample_params_def plain_params_def simp del: co_init.simps)
  obtain a where a: "os_cipher x = GostCipher KUZNECHIK a" "ga_during ENCRYPT key SymMode_CTR_ACPKM (replicate 12 0) [] 0 [] a"
    "currentBufferSize (ga_base a) = 0"
    using i by (auto simp: ga_encryptInit_def ga_init_def ga_during_def base_encryptInit_def sample_params_def plain_params_def
        Let_def dest!: sym [where t = "os_cipher x"] split: prod.splits if_splits)
  show ?thesis
    using u a l
    by (auto simp: encrypting_def encrypt_update_call_def encrypt_final_call_def SymEncryptUpdate_def SymEncryptFinal_def
        usable_def isBlockCipher_def ga_during_def ga_checkMaximumBytes_def ga_encryptUpdate_def base_encryptUpdate_def
        ga_encryptFinal_def ga_finish_def ga_usable_def ga_process_def cipher_block_def base_encryptFinal_def Let_def)
qed

theorem gost_calls_roundtrip_witness:
  "\<forall>cx s tk evp asymCrypt. \<exists>x outs x1 y outs' y1. sym_start cx True (1, 2) sample_key sample_params s tk = (Inr x, tk)
     \<and> run_calls evp asymCrypt (encrypting 16 [[1], [2, 3]]) x = Some (outs, x1)
     \<and> run_calls evp asymCrypt (decrypting 16 [concat (map oo_data outs)]) y = Some (outs', y1)
     \<and> concat (map oo_data outs') = [1, 2, 3]"
proof (intro allI)
  fix cx s tk evp asymCrypt
  obtain x where x: "sym_start cx True (1, 2) sample_key sample_params s tk = (Inr x, tk)"
    using sample_start by blast
  obtain ct x1 where r: "run_calls evp asymCrypt (encrypting 16 [[1], [2, 3]]) x
    = Some ([\<lparr>oo_rv = CKR_OK, oo_len = 0, oo_data = []\<rparr>, \<lparr>oo_rv = CKR_OK, oo_len = 0, oo_data = []\<rparr>,
        \<lparr>oo_rv = CKR_OK, oo_len = 3, oo_data = ct\<rparr>], x1)" "length ct = 3"
    using sample_run [OF x, of evp asymCrypt] by blast
  have "sp_algo sample_params \<in> {SymAlgo_GOST28147, SymAlgo_KUZNECHIK, SymAlgo_MAGMA}"
    by (simp add: sample_params_def plain_params_def)
  moreover have "ct \<noteq> []" using r(2) by auto
  ultimately have "\<exists>y tk2 outs' y1. sym_start cx False (3, 4) sample_key sample_params s tk = (Inr y, tk2)
    \<and> run_calls evp asymCrypt (decrypting 16 [ct]) y = Some (outs', y1)
    \<and> (\<forall>out \<in> set outs'. oo_rv out = CKR_OK) \<and> concat (map oo_data outs') = concat [[1], [2, 3]]"
    by (intro gost_calls_roundtrip [OF _ x r(1)]) (use r(2) in auto)
  then obtain y tk2 outs' y1 where "run_calls evp asymCrypt (decrypting 16 [ct]) y = Some (outs', y1)"
    "concat (map oo_data outs') = [1, 2, 3]" by auto
  then show "\<exists>x outs x1 y outs' y1. sym_start cx True (1, 2) sample_key sample_params s tk = (Inr x, tk)
     \<and> run_calls evp asymCrypt (encrypting 16 [[1], [2, 3]]) x = Some (outs, x1)
     \<and> run_calls evp asymCrypt (decrypting 16 [concat (map oo_data outs)]) y = Some (outs', y1)
     \<and> concat (map oo_data outs') = [1, 2, 3]"
    using x r(1) by fastforce
qed

section \<open>A single call after an update\<close>



end
