(* ===== verification/Object_Search.thy ===== *)
theory Object_Search
  imports Cipher_Init P11_Objects
begin

text \<open>
  The search for objects in \<^verbatim>\<open>src/lib/SoftHSM.cpp\<close>: \<open>C_FindObjectsInit\<close> collects the objects of
  the token and of the sessions on its slot, reads each again, leaves out what the session may
  not see, compares attributes with the template and gives a handle to every match. Under
  the Rutoken profile an object that describes the device is found too, without being stored.
  Addresses of session objects and of token objects are different. Shown: what a search finds.
\<close>

unbundle bit_operations_syntax

section \<open>The object that describes the device\<close>

definition FAKE_RUTOKEN_FEATURE_HANDLE :: ulong where
  "FAKE_RUTOKEN_FEATURE_HANDLE = 0x52544B48"

abbreviation (input) "CKO_HW_FEATURE \<equiv> 5 :: ulong"

text \<open>The type of the attribute, whether it is a boolean, and the number.\<close>

definition FAKE_RUTOKEN_FEATURE :: "(ulong \<times> bool \<times> ulong) list" where
  "FAKE_RUTOKEN_FEATURE =
     [(CKA_CLASS, False, CKO_HW_FEATURE), (0x300, False, 0x80000001), (0x80003000, True, 0), (0x80003001, False, 0xFF),
      (0x80003002, False, 0xFF), (0x80003003, False, 1), (0x80003004, False, 0x21), (0x80003005, True, 0),
      (0x80003006, False, 0), (0x80003007, True, 1), (0x80003008, True, 0), (0x80003009, True, 0), (0x8000300A, True, 1),
      (0x8000300B, True, 1), (0x8000300C, True, 0), (0x8000300D, True, 1), (0x8000300E, True, 0), (0x8000300F, True, 0),
      (0x80003011, True, 0), (0x80003012, True, 1), (0x8000800D, True, 0), (0x8000800E, False, 0)]"

definition findFakeRutokenFeatureAttribute :: "ulong \<Rightarrow> (bool \<times> ulong) option" where
  "findFakeRutokenFeatureAttribute type = map_of FAKE_RUTOKEN_FEATURE type"

fun feature_bytes :: "bool \<times> ulong \<Rightarrow> bytes" where
  "feature_bytes (isBool, n) = (if isBool then bbool (n \<noteq> 0) else host_ulong n)"

definition feature_has :: "ck_attribute \<Rightarrow> bool" where
  "feature_has t =
     (case findFakeRutokenFeatureAttribute (ca_type t) of
        None \<Rightarrow> False
      | Some a \<Rightarrow>
          ca_pValue t \<noteq> NULL_PTR \<and> ca_ulValueLen t = of_nat (length (feature_bytes a))
          \<and> raw (ca_pValue t) (ca_ulValueLen t) = feature_bytes a)"

definition fakeRutokenFeatureMatches :: "ck_attribute list \<Rightarrow> bool" where
  "fakeRutokenFeatureMatches pTemplate \<longleftrightarrow>
     list_all feature_has pTemplate \<and> list_ex (\<lambda>t. ca_type t = CKA_CLASS) pTemplate"

definition feature_load :: "ck_attribute \<Rightarrow> ck_rv option \<times> ck_attribute" where
  "feature_load t =
     (case findFakeRutokenFeatureAttribute (ca_type t) of
        None \<Rightarrow> (Some CKR_ATTRIBUTE_TYPE_INVALID, CK_ATTRIBUTE (ca_type t) (ca_pValue t) (- 1))
      | Some a \<Rightarrow>
          (let mineLen = of_nat (length (feature_bytes a)) :: ulong
           in if ca_pValue t = NULL_PTR then (None, CK_ATTRIBUTE (ca_type t) NULL_PTR mineLen)
              else if ca_ulValueLen t < mineLen
              then (Some CKR_BUFFER_TOO_SMALL, CK_ATTRIBUTE (ca_type t) (ca_pValue t) (- 1))
              else (None, CK_ATTRIBUTE (ca_type t) (put_bytes (feature_bytes a) (ca_pValue t)) mineLen)))"

fun fakeRutokenFeatureLoad :: "ck_rv \<Rightarrow> ck_attribute list \<Rightarrow> ck_rv \<times> ck_attribute list" where
  "fakeRutokenFeatureLoad rv [] = (rv, [])"
| "fakeRutokenFeatureLoad rv (t # ts) =
     (let (problem, t) = feature_load t;
          (rv, ts) = fakeRutokenFeatureLoad (case problem of None \<Rightarrow> rv | Some rv \<Rightarrow> rv) ts
      in (rv, t # ts))"

section \<open>Matching\<close>

text \<open>
  One attribute against one entry of the template: no answer when a value cannot be
  decrypted. A null pointer with a length is read (\<open>None\<close>).
\<close>

fun match_attribute ::
  "('c, 'd, 'r) crypto \<Rightarrow> bool \<Rightarrow> attr_map \<Rightarrow> ck_attribute \<Rightarrow> ('c, 'r) hsm_token \<Rightarrow> (bool option \<times> ('c, 'r) hsm_token) option" where
  "match_attribute cx isPrivateObject attrs (CK_ATTRIBUTE ty p len) tk =
     (case omap_find attrs ty of
        Some (BOOL b) \<Rightarrow> Some (Some (len = 1 \<and> p \<noteq> NULL_PTR \<and> b = (raw p 1 = [1])), tk)
      | Some (ULONG n) \<Rightarrow> Some (Some (len = 8 \<and> p \<noteq> NULL_PTR \<and> n = read_ulong p), tk)
      | Some (BYTESTR s) \<Rightarrow>
          (case (if isPrivateObject \<and> length s \<noteq> 0 then tk_decrypt cx s tk else (Some s, tk)) of
             (None, tk) \<Rightarrow> Some (None, tk)
           | (Some v, tk) \<Rightarrow>
               if of_nat (length v) \<noteq> len then Some (Some False, tk)
               else if len = 0 then Some (Some True, tk)
               else if p = NULL_PTR then None
               else Some (Some (bs_eq v (raw p len)), tk))
      | _ \<Rightarrow> Some (Some False, tk))"

fun match_template ::
  "('c, 'd, 'r) crypto \<Rightarrow> bool \<Rightarrow> attr_map \<Rightarrow> ck_attribute list \<Rightarrow> ('c, 'r) hsm_token \<Rightarrow> (bool option \<times> ('c, 'r) hsm_token) option" where
  "match_template cx isPrivateObject attrs [] tk = Some (Some True, tk)"
| "match_template cx isPrivateObject attrs (t # ts) tk =
     (case match_attribute cx isPrivateObject attrs t tk of
        Some (Some True, tk) \<Rightarrow> match_template cx isPrivateObject attrs ts tk
      | r \<Rightarrow> r)"

section \<open>The search\<close>

text \<open>An object by its address, read again if its file was changed.\<close>

definition fresh_object :: "ulong \<Rightarrow> addr \<Rightarrow> ('c, 'r) softhsm \<Rightarrow> ((bool \<times> attr_map) \<times> ('c, 'r) softhsm) option" where
  "fresh_object slotID a st =
     (case omap_find (ss_heap (hs_store st)) a of
        Some x \<Rightarrow> Some ((so_valid x, so_attributes x), st)
      | None \<Rightarrow> token_object slotID a st)"

text \<open>The handle of an object that matched; a session object is acquired for a new handle.\<close>

definition register_object :: "ulong \<Rightarrow> ulong \<Rightarrow> bool \<Rightarrow> bool \<Rightarrow> addr \<Rightarrow> ('c, 'r) softhsm \<Rightarrow> ulong \<times> ('c, 'r) softhsm" where
  "register_object slotID hSession isOnToken isPrivate a st =
     (if isOnToken
      then (let (h, hm) = addTokenObject (hs_hm st) slotID isPrivate a in (h, st\<lparr>hs_hm := hm\<rparr>))
      else (let (h, hm, taken) = addSessionObject (hs_hm st) slotID hSession isPrivate a
            in (h, st\<lparr>hs_hm := hm, hs_store := fold acquire taken (hs_store st)\<rparr>)))"

definition find_one ::
  "('c, 'd, 'r) crypto \<Rightarrow> bool \<Rightarrow> ulong \<Rightarrow> ulong \<Rightarrow> ck_attribute list \<Rightarrow> addr \<Rightarrow> ulong list \<Rightarrow> ('c, 'r) softhsm
     \<Rightarrow> ((ck_rv + ulong list) \<times> ('c, 'r) softhsm) option" where
  "find_one cx isPublicSession slotID hSession pTemplate a hs st =
     Option.bind (fresh_object slotID a st) (\<lambda>((valid, attrs), st).
       (let isPrivate = bool_of (omap_find attrs CKA_PRIVATE) True
        in if \<not> valid \<or> isPublicSession \<and> isPrivate then Some (Inr hs, st)
           else
             Option.bind (omap_find (hs_slots st) slotID) (\<lambda>tk.
             Option.bind (match_template cx isPrivate attrs pTemplate tk) (\<lambda>(r, tk).
               (let st = put_slot slotID tk st
                in case r of
                     None \<Rightarrow> Some (Inl CKR_GENERAL_ERROR, st)
                   | Some False \<Rightarrow> Some (Inr hs, st)
                   | Some True \<Rightarrow>
                       (let (h, st) = register_object slotID hSession (bool_of (omap_find attrs CKA_TOKEN) False) isPrivate a st
                        in if h = CK_INVALID_HANDLE then Some (Inl CKR_GENERAL_ERROR, st)
                           else Some (Inr (sset_insert h hs), st)))))))"

fun find_all ::
  "('c, 'd, 'r) crypto \<Rightarrow> bool \<Rightarrow> ulong \<Rightarrow> ulong \<Rightarrow> ck_attribute list \<Rightarrow> addr list \<Rightarrow> ulong list \<Rightarrow> ('c, 'r) softhsm
     \<Rightarrow> ((ck_rv + ulong list) \<times> ('c, 'r) softhsm) option" where
  "find_all cx isPublicSession slotID hSession pTemplate [] hs st = Some (Inr hs, st)"
| "find_all cx isPublicSession slotID hSession pTemplate (a # as) hs st =
     Option.bind (find_one cx isPublicSession slotID hSession pTemplate a hs st) (\<lambda>(r, st).
       case r of
         Inl rv \<Rightarrow> Some (Inl rv, st)
       | Inr hs \<Rightarrow> find_all cx isPublicSession slotID hSession pTemplate as hs st)"

definition public_state :: "ulong \<Rightarrow> bool" where
  "public_state state \<longleftrightarrow> state \<noteq> CKS_RO_USER_FUNCTIONS \<and> state \<noteq> CKS_RW_USER_FUNCTIONS"

text \<open>
  The template may be null when it is empty. The operation is marked before the search, so that
  a search that fails leaves it behind without results.
\<close>

definition C_FindObjectsInit ::
  "('c, 'd, 'r) crypto \<Rightarrow> ulong \<Rightarrow> ck_attribute list option \<Rightarrow> ulong \<Rightarrow> ('c, 'r) softhsm \<Rightarrow> (ck_rv \<times> ('c, 'r) softhsm) option" where
  "C_FindObjectsInit cx hSession pTemplate ulCount st =
     (if \<not> hs_initialised st then Some (CKR_CRYPTOKI_NOT_INITIALIZED, st)
      else if pTemplate = None \<and> ulCount \<noteq> 0 then Some (CKR_ARGUMENTS_BAD, st)
      else
        (case find_session hSession st of
           None \<Rightarrow> Some (CKR_SESSION_HANDLE_INVALID, st)
         | Some (p, s, tk) \<Rightarrow>
             if se_operation s \<noteq> SESSION_OP_NONE then Some (CKR_OPERATION_ACTIVE, st)
             else
               (let slotID = se_slot s;
                    s = s\<lparr>se_operation := SESSION_OP_FIND\<rparr>;
                    ts = (case pTemplate of None \<Rightarrow> [] | Some ts \<Rightarrow> ts);
                    st = put_session p s st
                in Option.bind (tk_token tk) (\<lambda>t.
                     (let (tokenObjects, t) = ot_getObjects t;
                          (sessionObjects, store) = ss_getObjects (hs_store st) slotID;
                          st = (put_slot slotID (put_token t tk) st)\<lparr>hs_store := store\<rparr>;
                          allObjects = fold sset_insert sessionObjects tokenObjects
                      in Option.bind (find_all cx (public_state (getState tk s)) slotID hSession ts allObjects [] st) (\<lambda>(r, st).
                           (let st = st\<lparr>hs_store := fold release sessionObjects (hs_store st)\<rparr>
                            in case r of
                                 Inl rv \<Rightarrow> Some (rv, st)
                               | Inr hs \<Rightarrow>
                                   (let hs = (if hs_rutoken st \<and> fakeRutokenFeatureMatches ts
                                              then sset_insert FAKE_RUTOKEN_FEATURE_HANDLE hs else hs)
                                    in Some (CKR_OK, put_session p (setFindOp (Some hs) s) st)))))))))"

section \<open>Decrypting leaves the token able to decrypt\<close>

lemma decrypt_message_idle:
  assumes "idle a" "idle b"
  shows "fst (decrypt_message evp cc k iv [d] a) = fst (decrypt_message evp cc k iv [d] b)"
  using assms
  by (simp add: decrypt_message_def decryptInit_def base_decryptInit_def counterBitsInit_def Let_def evp_start_def
      decryptUpdate_def base_decryptUpdate_def decryptFinal_def base_decryptFinal_def clean_def
      split: option.split prod.split)

text \<open>What of a manager of secure data a decryption depends on.\<close>

definition opens_alike :: "('c, 'r) sdm \<Rightarrow> ('c, 'r) sdm \<Rightarrow> bool" where
  "opens_alike a b \<longleftrightarrow> same_key a b \<and> idle (sdm_aes a) \<and> idle (sdm_aes b)"

lemma sdm_decrypt_alike:
  assumes "opens_alike a b"
  shows "fst (sdm_decrypt cx s a) = fst (sdm_decrypt cx s b)"
proof -
  have k: "unmask b = unmask a" "length (maskedKey b) = length (maskedKey a)" "soLoggedIn b = soLoggedIn a"
    "userLoggedIn b = userLoggedIn a" and i: "idle (sdm_aes a)" "idle (sdm_aes b)"
    using assms by (auto simp: opens_alike_def same_key_def)
  have d: "fst (decrypt_message evp cc key iv [d] (sdm_aes a)) = fst (decrypt_message evp cc key iv [d] (sdm_aes b))"
    for evp :: "'a evp" and cc key iv d
    using i by (rule decrypt_message_idle)
  show ?thesis
    by (simp add: sdm_decrypt_def take_key_def Let_def remask_facts case_prod_unfold k d)
qed

lemma sdm_decrypt_keeps:
  assumes "rand_sized (cx_rand cx)" and "sdm_inv a"
  shows "opens_alike a (snd (sdm_decrypt cx s a)) \<and> sdm_inv (snd (sdm_decrypt cx s a))"
proof -
  have l: "left_in NONE True (sdm_aes a)" using assms(2) by (rule sdm_inv_left_in)
  have r: "same_key a (remask cx (unmask a) a)" using assms(1) by (rule same_key_remask)
  obtain res aes where d: "decrypt_message (cx_evp cx) OSSLAES (fst (take_key cx a)) (substr s 0 aes_block)
      [substr_from s aes_block] (sdm_aes a) = (res, aes)"
    by (cases "decrypt_message (cx_evp cx) OSSLAES (fst (take_key cx a)) (substr s 0 aes_block)
      [substr_from s aes_block] (sdm_aes a)")
  from decrypt_message_left_in [OF l d] have "idle aes \<and> ctx_inv aes" by (simp add: left_in_def)
  then show ?thesis
    using assms(2) r d
    by (auto simp: sdm_decrypt_def take_key_def opens_alike_def sdm_inv_def Let_def remask_facts same_key_def
        case_prod_unfold)
qed

section \<open>What a search should find\<close>

definition sdm_ok :: "('c, 'r) hsm_token \<Rightarrow> bool" where
  "sdm_ok tk \<longleftrightarrow> (case tk_sdm tk of None \<Rightarrow> True | Some s \<Rightarrow> sdm_inv s)"

definition same_token :: "('c, 'd, 'r) crypto \<Rightarrow> ('c, 'r) hsm_token \<Rightarrow> ('c, 'r) hsm_token \<Rightarrow> bool" where
  "same_token cx tk tk' \<longleftrightarrow> tk_token tk' = tk_token tk \<and> sdm_ok tk' \<and> (\<forall>s. fst (tk_decrypt cx s tk') = fst (tk_decrypt cx s tk))"

definition value_of :: "('c, 'd, 'r) crypto \<Rightarrow> ('c, 'r) hsm_token \<Rightarrow> bool \<Rightarrow> bytes \<Rightarrow> bytes option" where
  "value_of cx tk isPrivateObject s = (if isPrivateObject \<and> s \<noteq> [] then fst (tk_decrypt cx s tk) else Some s)"

fun entry_matches ::
  "('c, 'd, 'r) crypto \<Rightarrow> ('c, 'r) hsm_token \<Rightarrow> bool \<Rightarrow> attr_map \<Rightarrow> ck_attribute \<Rightarrow> bool" where
  "entry_matches cx tk isPrivateObject attrs (CK_ATTRIBUTE ty p len) \<longleftrightarrow>
     (case omap_find attrs ty of
        Some (BOOL b) \<Rightarrow> len = 1 \<and> p \<noteq> NULL_PTR \<and> b = (raw p 1 = [1])
      | Some (ULONG n) \<Rightarrow> len = 8 \<and> p \<noteq> NULL_PTR \<and> n = read_ulong p
      | Some (BYTESTR s) \<Rightarrow>
          (case value_of cx tk isPrivateObject s of
             None \<Rightarrow> False
           | Some v \<Rightarrow> of_nat (length v) = len \<and> (len = 0 \<or> bs_eq v (raw p len)))
      | _ \<Rightarrow> False)"

lemma same_token_refl: "sdm_ok tk \<Longrightarrow> same_token cx tk tk"
  by (simp add: same_token_def)

lemma same_token_trans: "same_token cx a b \<Longrightarrow> same_token cx b c \<Longrightarrow> same_token cx a c"
  by (simp add: same_token_def)

lemma tk_decrypt_same:
  assumes "rand_sized (cx_rand cx)" and "sdm_ok tk"
  shows "same_token cx tk (snd (tk_decrypt cx s tk))"
proof (cases "tk_sdm tk")
  case (Some sdm)
  then have "sdm_inv sdm" using assms(2) by (simp add: sdm_ok_def)
  from sdm_decrypt_keeps [OF assms(1) this, of s]
  have k: "sdm_inv (snd (sdm_decrypt cx s sdm))" "\<And>s'. fst (sdm_decrypt cx s' (snd (sdm_decrypt cx s sdm))) = fst (sdm_decrypt cx s' sdm)"
    using sdm_decrypt_alike by metis+
  then show ?thesis
    by (simp add: same_token_def tk_decrypt_def Some sdm_ok_def put_sdm_def case_prod_unfold Let_def)
qed (simp add: same_token_def tk_decrypt_def sdm_ok_def)

lemma tk_decrypt_eq:
  "rand_sized (cx_rand cx) \<Longrightarrow> sdm_ok tk \<Longrightarrow> tk_decrypt cx s tk = (r, tk') \<Longrightarrow> same_token cx tk tk'"
  using tk_decrypt_same [of cx tk s] by simp

lemma entry_matches_same: "same_token cx tk tk' \<Longrightarrow> entry_matches cx tk' = entry_matches cx tk"
proof -
  assume "same_token cx tk tk'"
  then have v: "value_of cx tk' priv s = value_of cx tk priv s" for priv s by (simp add: value_of_def same_token_def)
  have "entry_matches cx tk' priv attrs t = entry_matches cx tk priv attrs t" for priv attrs t
    by (cases t) (simp add: v cong: option.case_cong os_attribute.case_cong)
  then show ?thesis by (intro ext)
qed

lemma match_attribute_spec:
  assumes "rand_sized (cx_rand cx)" and "sdm_ok tk"
    and "match_attribute cx priv attrs t tk = Some (Some r, tk')"
  shows "r = entry_matches cx tk priv attrs t \<and> same_token cx tk tk'"
proof (cases t)
  case (CK_ATTRIBUTE ty p len)
  then show ?thesis
    using assms(3) same_token_refl [OF assms(2), of cx] tk_decrypt_same [OF assms(1,2)]
    by (auto dest: tk_decrypt_eq [OF assms(1,2)] simp: value_of_def split: option.splits os_attribute.splits if_splits prod.splits)
qed

lemma match_template_spec:
  assumes "rand_sized (cx_rand cx)"
  shows "sdm_ok tk \<Longrightarrow> match_template cx priv attrs ts tk = Some (Some r, tk') \<Longrightarrow>
    r = list_all (entry_matches cx tk priv attrs) ts \<and> same_token cx tk tk'"
proof (induction ts arbitrary: tk)
  case (Cons t ts)
  obtain r1 tk1 where m: "match_attribute cx priv attrs t tk = Some (Some r1, tk1)"
    using Cons.prems(2) by (auto split: option.splits prod.splits bool.splits)
  note s = match_attribute_spec [OF assms Cons.prems(1) m]
  then have ok: "sdm_ok tk1" by (simp add: same_token_def)
  show ?case
  proof (cases r1)
    case True
    have e: "entry_matches cx tk1 = entry_matches cx tk" using s by (simp add: entry_matches_same)
    show ?thesis using Cons.prems(2) Cons.IH [OF ok] s m True same_token_trans [of cx tk tk1 tk'] by (simp add: e)
  qed (use Cons.prems(2) s m in simp)
qed (simp add: same_token_refl)

section \<open>One object\<close>

text \<open>What an object would be read as.\<close>

definition object_view :: "ulong \<Rightarrow> ('c, 'r) softhsm \<Rightarrow> addr \<Rightarrow> (bool \<times> attr_map) option" where
  "object_view slotID st a = map_option fst (fresh_object slotID a st)"

definition token_view :: "os_token \<Rightarrow> addr \<Rightarrow> (bool \<times> attr_map) option" where
  "token_view t a = map_option (\<lambda>(name, f). (fst (of_isValid (dir_get t name) f), of_attributes (snd (of_isValid (dir_get t name) f)))) (ot_heap t a)"

lemma object_view_eq:
  "object_view slotID st a =
     (case omap_find (ss_heap (hs_store st)) a of
        Some x \<Rightarrow> Some (so_valid x, so_attributes x)
      | None \<Rightarrow> Option.bind (omap_find (hs_slots st) slotID) (\<lambda>tk. Option.bind (tk_token tk) (\<lambda>t. token_view t a)))"
  by (auto simp: object_view_def fresh_object_def token_object_def token_view_def Let_def case_prod_unfold
      split: option.split bind_split)

lemma token_view_other [simp]:
  "a \<noteq> b \<Longrightarrow> token_view (t\<lparr>ot_heap := (ot_heap t)(a \<mapsto> x)\<rparr>) b = token_view t b"
  by (simp add: token_view_def dir_get_def)

text \<open>
  What the work on object \<open>a\<close> leaves of the state: the other objects, and a token that decrypts
  as before.
\<close>

definition decrypts_alike :: "('c, 'd, 'r) crypto \<Rightarrow> ('c, 'r) hsm_token \<Rightarrow> ('c, 'r) hsm_token \<Rightarrow> bool" where
  "decrypts_alike cx tk tk' \<longleftrightarrow> sdm_ok tk' \<and> (\<forall>s. fst (tk_decrypt cx s tk') = fst (tk_decrypt cx s tk))"

definition only_touches :: "('c, 'd, 'r) crypto \<Rightarrow> ulong \<Rightarrow> addr \<Rightarrow> ('c, 'r) softhsm \<Rightarrow> ('c, 'r) softhsm \<Rightarrow> bool" where
  "only_touches cx slotID a st st' \<longleftrightarrow>
     (\<forall>b. b \<noteq> a \<longrightarrow> object_view slotID st' b = object_view slotID st b)
     \<and> (\<forall>tk. omap_find (hs_slots st) slotID = Some tk \<and> sdm_ok tk \<longrightarrow>
          (\<exists>tk'. omap_find (hs_slots st') slotID = Some tk' \<and> decrypts_alike cx tk tk'))"

lemma only_touches_refl: "only_touches cx slotID a st st"
  by (auto simp: only_touches_def decrypts_alike_def)

lemma only_touches_trans:
  "only_touches cx slotID a st st1 \<Longrightarrow> only_touches cx slotID a st1 st2 \<Longrightarrow> only_touches cx slotID a st st2"
  unfolding only_touches_def decrypts_alike_def by metis

lemma fresh_object_touches:
  assumes "fresh_object slotID a st = Some (r, st')"
  shows "only_touches cx slotID a st st'" "hs_hm st' = hs_hm st" "object_view slotID st a = Some r"
proof -
  show "object_view slotID st a = Some r" using assms by (simp add: object_view_def)
  show "hs_hm st' = hs_hm st"
    using assms by (auto simp: fresh_object_def token_object_def put_slot_def bind_eq_Some_conv Let_def case_prod_unfold
        split: option.splits)
  show "only_touches cx slotID a st st'"
  proof (cases "omap_find (ss_heap (hs_store st)) a")
    case None
    then obtain tk t name f where t: "omap_find (hs_slots st) slotID = Some tk" "tk_token tk = Some t" "ot_heap t a = Some (name, f)"
      and st': "st' = put_slot slotID (put_token (t\<lparr>ot_heap := (ot_heap t)(a \<mapsto> (name, snd (of_isValid (dir_get t name) f)))\<rparr>) tk) st"
      using assms by (auto simp: fresh_object_def token_object_def bind_eq_Some_conv Let_def case_prod_unfold)
    then show ?thesis
      by (auto simp: only_touches_def object_view_eq put_slot_def put_token_def decrypts_alike_def sdm_ok_def tk_decrypt_def
          put_sdm_def case_prod_unfold Let_def split: option.split)
  next
    case (Some x)
    then show ?thesis using assms by (auto simp: fresh_object_def only_touches_refl)
  qed
qed

lemma put_same_token:
  assumes "omap_find (hs_slots st) slotID = Some tk" and "same_token cx tk tk'"
  shows "only_touches cx slotID a st (put_slot slotID tk' st)"
  using assms by (auto simp: only_touches_def object_view_eq put_slot_def decrypts_alike_def same_token_def split: option.split)

lemma acquire_view:
  "map_option (\<lambda>x. (so_valid x, so_attributes x)) (omap_find (ss_heap (acquire b store)) a)
   = map_option (\<lambda>x. (so_valid x, so_attributes x)) (omap_find (ss_heap store) a)"
  by (auto simp: acquire_def split: option.split)

lemma fold_acquire_view:
  "map_option (\<lambda>x. (so_valid x, so_attributes x)) (omap_find (ss_heap (fold acquire bs store)) a)
   = map_option (\<lambda>x. (so_valid x, so_attributes x)) (omap_find (ss_heap store) a)"
  by (induction bs arbitrary: store) (simp_all add: acquire_view)

lemma object_view_store:
  assumes "map_option (\<lambda>x. (so_valid x, so_attributes x)) (omap_find (ss_heap (hs_store st')) a)
      = map_option (\<lambda>x. (so_valid x, so_attributes x)) (omap_find (ss_heap (hs_store st)) a)"
    and "hs_slots st' = hs_slots st"
  shows "object_view slotID st' a = object_view slotID st a"
  using assms by (auto simp: object_view_eq split: option.splits)

lemma register_object_touches:
  assumes "register_object slotID hSession onToken priv a st = (h, st')"
  shows "only_touches cx slotID b st st'" "hs_rutoken st' = hs_rutoken st"
proof -
  have s: "hs_slots st' = hs_slots st" and
    v: "\<exists>bs. hs_store st' = fold acquire bs (hs_store st)"
    using assms by (auto simp: register_object_def case_prod_unfold Let_def split: if_splits intro: exI [of _ "[]"])
  have "object_view slotID st' c = object_view slotID st c" for c
    using v fold_acquire_view [of _ "hs_store st" c] by (intro object_view_store s) auto
  then show "only_touches cx slotID b st st'" by (auto simp: only_touches_def s decrypts_alike_def)
  show "hs_rutoken st' = hs_rutoken st"
    using assms by (auto simp: register_object_def case_prod_unfold Let_def split: if_splits)
qed

lemma register_object_handle:
  assumes "register_object slotID hSession onToken priv a st = (h, st')" and "h \<noteq> CK_INVALID_HANDLE"
  shows "getObjectHandle (hs_hm st') a = h"
    and "b \<noteq> a \<Longrightarrow> getObjectHandle (hs_hm st') b = getObjectHandle (hs_hm st) b"
  using assms
  by (auto simp: register_object_def addTokenObject_def addSessionObject_def getObjectHandle_def Let_def
      split: if_splits option.splits)

section \<open>The loop\<close>

text \<open>The object is there, the session may see it, and the template matches.\<close>

definition sees ::
  "('c, 'd, 'r) crypto \<Rightarrow> bool \<Rightarrow> ck_attribute list \<Rightarrow> ('c, 'r) hsm_token \<Rightarrow> (bool \<times> attr_map) option \<Rightarrow> bool" where
  "sees cx isPublicSession ts tk view \<longleftrightarrow>
     (\<exists>attrs. view = Some (True, attrs)
        \<and> (let isPrivate = bool_of (omap_find attrs CKA_PRIVATE) True
           in \<not> (isPublicSession \<and> isPrivate) \<and> list_all (entry_matches cx tk isPrivate attrs) ts))"

lemma entry_matches_alike: "decrypts_alike cx tk tk' \<Longrightarrow> entry_matches cx tk' = entry_matches cx tk"
proof -
  assume "decrypts_alike cx tk tk'"
  then have v: "value_of cx tk' priv s = value_of cx tk priv s" for priv s by (simp add: value_of_def decrypts_alike_def)
  have "entry_matches cx tk' priv attrs t = entry_matches cx tk priv attrs t" for priv attrs t
    by (cases t) (simp add: v cong: option.case_cong os_attribute.case_cong)
  then show ?thesis by (intro ext)
qed

lemma sees_alike: "decrypts_alike cx tk tk' \<Longrightarrow> sees cx pub ts tk' = sees cx pub ts tk"
  by (intro ext) (simp add: sees_def entry_matches_alike)

lemma find_one_spec:
  assumes "rand_sized (cx_rand cx)" and "omap_find (hs_slots st) slotID = Some tk" and "sdm_ok tk"
    and "find_one cx pub slotID hSession ts a hs st = Some (Inr hs', st')"
  shows "only_touches cx slotID a st st'"
    and "b \<noteq> a \<Longrightarrow> getObjectHandle (hs_hm st') b = getObjectHandle (hs_hm st) b"
    and "if sees cx pub ts tk (object_view slotID st a)
         then getObjectHandle (hs_hm st') a \<noteq> CK_INVALID_HANDLE \<and> set hs' = insert (getObjectHandle (hs_hm st') a) (set hs)
         else hs' = hs"
proof -
  obtain valid attrs st1 where f: "fresh_object slotID a st = Some ((valid, attrs), st1)"
    using assms(4) by (auto simp: find_one_def bind_eq_Some_conv)
  note t1 = fresh_object_touches [OF f]
  obtain tk1 where tk1: "omap_find (hs_slots st1) slotID = Some tk1" "decrypts_alike cx tk tk1"
    using t1(1) assms(2,3) unfolding only_touches_def by blast
  let ?priv = "bool_of (omap_find attrs CKA_PRIVATE) True"
  have goals: "only_touches cx slotID a st st' \<and> (\<forall>b. b \<noteq> a \<longrightarrow> getObjectHandle (hs_hm st') b = getObjectHandle (hs_hm st) b)
    \<and> (if sees cx pub ts tk (object_view slotID st a)
       then getObjectHandle (hs_hm st') a \<noteq> CK_INVALID_HANDLE \<and> set hs' = insert (getObjectHandle (hs_hm st') a) (set hs)
       else hs' = hs)"
  proof (cases "\<not> valid \<or> pub \<and> ?priv")
    case True
    then show ?thesis using assms(4) f t1 by (auto simp: find_one_def sees_def Let_def)
  next
    case False
    obtain r tk2 where m: "match_template cx ?priv attrs ts tk1 = Some (Some r, tk2)"
      using assms(4) f tk1(1) False by (auto simp: find_one_def bind_eq_Some_conv Let_def split: option.splits)
    have "sdm_ok tk1" using tk1(2) by (simp add: decrypts_alike_def)
    note ms = match_template_spec [OF assms(1) this m]
    have t2: "only_touches cx slotID a st1 (put_slot slotID tk2 st1)" using put_same_token [OF tk1(1)] ms by blast
    note t12 = only_touches_trans [OF t1(1) t2]
    have r: "r = sees cx pub ts tk (object_view slotID st a)"
      using False ms entry_matches_alike [OF tk1(2)] by (simp add: t1(3) sees_def Let_def)
    show ?thesis
    proof (cases r)
      case True
      obtain h st3 where g: "register_object slotID hSession (bool_of (omap_find attrs CKA_TOKEN) False) ?priv a (put_slot slotID tk2 st1)
          = (h, st3)" by (cases "register_object slotID hSession (bool_of (omap_find attrs CKA_TOKEN) False) ?priv a (put_slot slotID tk2 st1)")
      have o: "h \<noteq> CK_INVALID_HANDLE" "st' = st3" "hs' = sset_insert h hs"
        using assms(4) f tk1(1) False m True g by (auto simp: find_one_def Let_def split: if_splits)
      then show ?thesis
        using register_object_handle [OF g o(1)] only_touches_trans [OF t12 register_object_touches(1) [OF g]] r True t1(2)
        by (auto simp: put_slot_def)
    next
      case False2: False
      then have "st' = put_slot slotID tk2 st1" "hs' = hs"
        using assms(4) f tk1(1) False m by (auto simp: find_one_def Let_def)
      then show ?thesis using t12 r False2 t1(2) by (auto simp: put_slot_def)
    qed
  qed
  from goals show "only_touches cx slotID a st st'"
    "b \<noteq> a \<Longrightarrow> getObjectHandle (hs_hm st') b = getObjectHandle (hs_hm st) b"
    "if sees cx pub ts tk (object_view slotID st a)
         then getObjectHandle (hs_hm st') a \<noteq> CK_INVALID_HANDLE \<and> set hs' = insert (getObjectHandle (hs_hm st') a) (set hs)
         else hs' = hs" by blast+
qed

lemma fresh_object_rutoken: "fresh_object slotID a st = Some (r, st') \<Longrightarrow> hs_rutoken st' = hs_rutoken st"
  by (auto simp: fresh_object_def token_object_def put_slot_def bind_eq_Some_conv Let_def case_prod_unfold split: option.splits)

lemma find_one_rutoken:
  assumes "find_one cx pub slotID hSession ts a hs st = Some (r, st')"
  shows "hs_rutoken st' = hs_rutoken st"
proof -
  obtain valid attrs st1 where f: "fresh_object slotID a st = Some ((valid, attrs), st1)"
    using assms by (auto simp: find_one_def bind_eq_Some_conv)
  have r: "hs_rutoken (snd (register_object slotID hSession t b a (put_slot slotID tk st1))) = hs_rutoken st1" for t b tk
    using register_object_touches(2) [of slotID hSession t b a "put_slot slotID tk st1"]
    by (cases "register_object slotID hSession t b a (put_slot slotID tk st1)") (simp add: put_slot_def)
  have p: "hs_rutoken (put_slot slotID tk st1) = hs_rutoken st1" for tk by (simp add: put_slot_def)
  show ?thesis
    using assms fresh_object_rutoken [OF f] r unfolding find_one_def f
    by (auto simp: bind_eq_Some_conv Let_def case_prod_unfold p split: if_splits option.splits bool.splits)
qed

lemma find_all_rutoken:
  "find_all cx pub slotID hSession ts as hs st = Some (r, st') \<Longrightarrow> hs_rutoken st' = hs_rutoken st"
proof (induction as arbitrary: hs st)
  case (Cons a as)
  obtain r1 st1 where o: "find_one cx pub slotID hSession ts a hs st = Some (r1, st1)"
    using Cons.prems by (auto simp: bind_eq_Some_conv)
  show ?case
    using Cons find_one_rutoken [OF o] o by (cases r1) auto
qed simp

lemma find_one_error:
  assumes "find_one cx pub slotID hSession ts a hs st = Some (Inl rv, st')"
  shows "rv = CKR_GENERAL_ERROR"
proof -
  obtain valid attrs st1 where f: "fresh_object slotID a st = Some ((valid, attrs), st1)"
    using assms by (auto simp: find_one_def bind_eq_Some_conv)
  show ?thesis
    using assms unfolding find_one_def f
    by (auto simp: bind_eq_Some_conv Let_def case_prod_unfold split: if_splits option.splits bool.splits)
qed

lemma find_all_error:
  "find_all cx pub slotID hSession ts as hs st = Some (Inl rv, st') \<Longrightarrow> rv = CKR_GENERAL_ERROR"
proof (induction as arbitrary: hs st)
  case (Cons a as)
  obtain r1 st1 where o: "find_one cx pub slotID hSession ts a hs st = Some (r1, st1)"
    using Cons.prems by (auto simp: bind_eq_Some_conv)
  show ?case using Cons find_one_error o by (cases r1) auto
qed simp

lemma put_simps [simp]:
  "hs_store (put_session p s st) = hs_store st" "hs_slots (put_session p s st) = hs_slots st"
  "hs_rutoken (put_session p s st) = hs_rutoken st" "hs_hm (put_session p s st) = hs_hm st"
  "hs_store (put_slot slotID tk st) = hs_store st" "hs_slots (put_slot slotID tk st) = omap_insert slotID tk (hs_slots st)"
  "hs_rutoken (put_slot slotID tk st) = hs_rutoken st"
  by (simp_all add: put_session_def put_slot_def)

lemma fold_sset_insert:
  "sset_ok xs \<Longrightarrow> sset_ok (fold sset_insert ys xs) \<and> set (fold sset_insert ys xs) = set xs \<union> set ys"
  by (induction ys arbitrary: xs) auto

lemma find_all_spec:
  assumes "rand_sized (cx_rand cx)"
  shows "distinct as \<Longrightarrow> omap_find (hs_slots st) slotID = Some tk \<Longrightarrow> sdm_ok tk \<Longrightarrow>
    find_all cx pub slotID hSession ts as hs st = Some (Inr hs', st') \<Longrightarrow>
    set hs' = set hs \<union> getObjectHandle (hs_hm st') ` {a \<in> set as. sees cx pub ts tk (object_view slotID st a)}
    \<and> (\<forall>a \<in> set as. sees cx pub ts tk (object_view slotID st a) \<longrightarrow> getObjectHandle (hs_hm st') a \<noteq> CK_INVALID_HANDLE)
    \<and> (\<forall>b. b \<notin> set as \<longrightarrow> getObjectHandle (hs_hm st') b = getObjectHandle (hs_hm st) b)"
proof (induction as arbitrary: hs st tk)
  case (Cons a as)
  obtain r1 st1 where o1: "find_one cx pub slotID hSession ts a hs st = Some (r1, st1)"
    using Cons.prems(4) by (auto simp: bind_eq_Some_conv)
  obtain hs1 where o: "find_one cx pub slotID hSession ts a hs st = Some (Inr hs1, st1)"
    and r: "find_all cx pub slotID hSession ts as hs1 st1 = Some (Inr hs', st')"
    using Cons.prems(4) o1 by (cases r1) auto
  note s = find_one_spec [OF assms Cons.prems(2,3) o]
  obtain tk1 where tk1: "omap_find (hs_slots st1) slotID = Some tk1" "decrypts_alike cx tk tk1"
    using s(1) Cons.prems(2,3) unfolding only_touches_def by blast
  have v: "object_view slotID st1 b = object_view slotID st b" if "b \<in> set as" for b
    using s(1) Cons.prems(1) that by (auto simp: only_touches_def)
  have "sdm_ok tk1" using tk1(2) by (simp add: decrypts_alike_def)
  note ih = Cons.IH [OF _ tk1(1) this r]
  have same: "{b \<in> set as. sees cx pub ts tk1 (object_view slotID st1 b)} = {b \<in> set as. sees cx pub ts tk (object_view slotID st b)}"
    using v sees_alike [OF tk1(2)] by auto
  have ha: "getObjectHandle (hs_hm st') a = getObjectHandle (hs_hm st1) a" using ih Cons.prems(1) by simp
  have split: "{b \<in> set (a # as). sees cx pub ts tk (object_view slotID st b)} =
    (if sees cx pub ts tk (object_view slotID st a) then {a} else {}) \<union> {b \<in> set as. sees cx pub ts tk (object_view slotID st b)}"
    by auto
  show ?case
    using ih [unfolded same] Cons.prems(1) s(2,3) ha v sees_alike [OF tk1(2)]
    unfolding split by (cases "sees cx pub ts tk (object_view slotID st a)") auto
qed simp

text \<open>What a search comes to once it is allowed to begin.\<close>

definition search_from ::
  "('c, 'd, 'r) crypto \<Rightarrow> ulong \<Rightarrow> ck_attribute list \<Rightarrow> addr \<Rightarrow> session \<Rightarrow> ('c, 'r) hsm_token \<Rightarrow> os_token \<Rightarrow> ('c, 'r) softhsm
     \<Rightarrow> ((ck_rv + ulong list) \<times> ('c, 'r) softhsm) option" where
  "search_from cx hSession ts p s tk t st =
     find_all cx (public_state (getState tk s)) (se_slot s) hSession ts
       (fold sset_insert (fst (ss_getObjects (hs_store st) (se_slot s))) (fst (ot_getObjects t))) []
       ((put_slot (se_slot s) (put_token (snd (ot_getObjects t)) tk) (put_session p (s\<lparr>se_operation := SESSION_OP_FIND\<rparr>) st))
          \<lparr>hs_store := snd (ss_getObjects (hs_store st) (se_slot s))\<rparr>)"

lemma find_init_allowed:
  assumes "C_FindObjectsInit cx hSession pTemplate ulCount st = Some (rv, st')" and "rv \<in> {CKR_OK, CKR_GENERAL_ERROR}"
    and "find_session hSession st = Some (p, s, tk)"
  obtains t where "hs_initialised st" "se_operation s = SESSION_OP_NONE" "\<not> (pTemplate = None \<and> ulCount \<noteq> 0)" "tk_token tk = Some t"
proof (rule that)
  show "hs_initialised st" "se_operation s = SESSION_OP_NONE" "\<not> (pTemplate = None \<and> ulCount \<noteq> 0)"
    using assms by (auto simp: C_FindObjectsInit_def split: if_splits)
  then show "tk_token tk = Some (the (tk_token tk))"
    using assms by (auto simp: C_FindObjectsInit_def Let_def bind_eq_Some_conv)
qed

lemma find_init_result:
  assumes "C_FindObjectsInit cx hSession pTemplate ulCount st = Some (rv, st')" and "rv \<in> {CKR_OK, CKR_GENERAL_ERROR}"
    and "find_session hSession st = Some (p, s, tk)" and "tk_token tk = Some t"
  obtains r st2 where
    "search_from cx hSession (case pTemplate of None \<Rightarrow> [] | Some ts \<Rightarrow> ts) p s tk t st = Some (r, st2)"
    "case r of
       Inl rv' \<Rightarrow> rv = rv' \<and> hs_sm st' = hs_sm st2
     | Inr hs \<Rightarrow> rv = CKR_OK \<and> hs_hm st' = hs_hm st2
         \<and> omap_find (sm_heap (hs_sm st')) p
             = Some (s\<lparr>se_operation := SESSION_OP_FIND,
                       se_findOp := Some (if hs_rutoken st2 \<and> fakeRutokenFeatureMatches (case pTemplate of None \<Rightarrow> [] | Some ts \<Rightarrow> ts)
                                          then sset_insert FAKE_RUTOKEN_FEATURE_HANDLE hs else hs)\<rparr>)"
proof -
  have gs: "getState tk (s\<lparr>se_operation := SESSION_OP_FIND\<rparr>) = getState tk s" by (simp add: getState_def)
  have ok: "hs_initialised st" "se_operation s = SESSION_OP_NONE" "\<not> (pTemplate = None \<and> ulCount \<noteq> 0)"
    using find_init_allowed [OF assms(1-3)] by auto
  let ?ts = "case pTemplate of None \<Rightarrow> [] | Some ts \<Rightarrow> ts" and ?found = "fst (ss_getObjects (hs_store st) (se_slot s))"
  have call: "Option.bind (search_from cx hSession ?ts p s tk t st)
      (\<lambda>(r, st). let st = st\<lparr>hs_store := fold release ?found (hs_store st)\<rparr>
        in case r of
             Inl rv \<Rightarrow> Some (rv, st)
           | Inr hs \<Rightarrow> (let hs = (if hs_rutoken st \<and> fakeRutokenFeatureMatches ?ts
                          then sset_insert FAKE_RUTOKEN_FEATURE_HANDLE hs else hs)
                       in Some (CKR_OK, put_session p (setFindOp (Some hs) (s\<lparr>se_operation := SESSION_OP_FIND\<rparr>)) st))) = Some (rv, st')"
    using assms(1,3,4) ok
    by (simp add: C_FindObjectsInit_def search_from_def Let_def gs case_prod_unfold cong: sum.case_cong)
  then obtain r st2 where f: "search_from cx hSession ?ts p s tk t st = Some (r, st2)" by (auto simp: bind_eq_Some_conv)
  show thesis
    using call that [OF f] by (cases r) (auto simp: f Let_def put_session_def setFindOp_def)
qed

text \<open>
  C5: What a search that is started finds: exactly the objects of the token and of the sessions on
  the slot that are valid, that the session may see (no private object unless the user is
  logged in) and that have every attribute of the template with its value, decrypted where it is
  stored encrypted. Each is found by the one handle the manager has for it. Under the Rutoken
  profile the object of the device is added when the template asks for its class.
\<close>

theorem search_finds_exactly:
  assumes "rand_sized (cx_rand cx)"
    and "find_session hSession st = Some (p, s, tk)" and "tk_token tk = Some t" and "sdm_ok tk"
    and "ot_getObjects t = (tokenObjects, t')" and "sset_ok tokenObjects"
    and "C_FindObjectsInit cx hSession (Some ts) ulCount st = Some (CKR_OK, st')"
  shows "\<exists>s' hs. omap_find (sm_heap (hs_sm st')) p = Some s' \<and> se_operation s' = SESSION_OP_FIND \<and> se_findOp s' = Some hs
    \<and> set hs = (if hs_rutoken st \<and> fakeRutokenFeatureMatches ts then {FAKE_RUTOKEN_FEATURE_HANDLE} else {})
        \<union> getObjectHandle (hs_hm st') `
            {a \<in> set tokenObjects \<union> set (fst (ss_getObjects (hs_store st) (se_slot s))).
               sees cx (public_state (getState tk s)) ts tk
                 (object_view (se_slot s) (put_slot (se_slot s) (put_token t' tk) st) a)}"
proof -
  let ?slot = "se_slot s" and ?found = "fst (ss_getObjects (hs_store st) (se_slot s))"
  let ?st1 = "(put_slot ?slot (put_token t' tk) (put_session p (s\<lparr>se_operation := SESSION_OP_FIND\<rparr>) st))
    \<lparr>hs_store := snd (ss_getObjects (hs_store st) ?slot)\<rparr>"
  obtain r st2 where f0: "search_from cx hSession ts p s tk t st = Some (r, st2)"
    and r0: "case r of Inl rv' \<Rightarrow> CKR_OK = rv' \<and> hs_sm st' = hs_sm st2 | Inr hs \<Rightarrow> CKR_OK = CKR_OK \<and> hs_hm st' = hs_hm st2
      \<and> omap_find (sm_heap (hs_sm st')) p = Some (s\<lparr>se_operation := SESSION_OP_FIND,
          se_findOp := Some (if hs_rutoken st2 \<and> fakeRutokenFeatureMatches ts then sset_insert FAKE_RUTOKEN_FEATURE_HANDLE hs else hs)\<rparr>)"
    by (rule find_init_result [OF assms(7) _ assms(2,3)]) (simp_all split: sum.splits)
  obtain hs where r: "r = Inr hs"
    using f0 r0 by (cases r) (auto simp: search_from_def dest: find_all_error)
  have f: "find_all cx (public_state (getState tk s)) ?slot hSession ts (fold sset_insert ?found tokenObjects) [] ?st1
      = Some (Inr hs, st2)"
    using f0 r assms(5) by (simp add: search_from_def)
  have slot: "omap_find (hs_slots ?st1) ?slot = Some (put_token t' tk)" by (simp add: put_slot_def)
  have ok: "sdm_ok (put_token t' tk)" using assms(4) by (simp add: sdm_ok_def put_token_def)
  have same: "decrypts_alike cx tk (put_token t' tk)"
    using ok by (simp add: decrypts_alike_def tk_decrypt_def put_token_def put_sdm_def case_prod_unfold Let_def split: option.split)
  have d: "distinct (fold sset_insert ?found tokenObjects)" and m: "set (fold sset_insert ?found tokenObjects) = set tokenObjects \<union> set ?found"
    using assms(6) fold_sset_insert [of tokenObjects ?found] sset_ok_distinct by auto
  have v: "object_view ?slot ?st1 a = object_view ?slot (put_slot ?slot (put_token t' tk) st) a" for a
    using fold_acquire_view [of ?found "hs_store st" a]
    by (intro object_view_store) (simp_all add: ss_getObjects_def Let_def)
  have ru: "hs_rutoken st2 = hs_rutoken st" using find_all_rutoken [OF f] by simp
  show ?thesis
    using find_all_spec [OF assms(1) d slot ok f] sees_alike [OF same] r0
    by (auto simp: r ru m v)
qed

section \<open>A search that fails\<close>

lemma find_one_sm:
  assumes "find_one cx pub slotID hSession ts a hs st = Some (r, st')"
  shows "hs_sm st' = hs_sm st"
proof -
  obtain valid attrs st1 where f: "fresh_object slotID a st = Some ((valid, attrs), st1)"
    using assms by (auto simp: find_one_def bind_eq_Some_conv)
  have f1: "hs_sm st1 = hs_sm st"
    using f by (auto simp: fresh_object_def token_object_def put_slot_def bind_eq_Some_conv Let_def case_prod_unfold split: option.splits)
  have r: "hs_sm (snd (register_object slotID hSession t b a (put_slot slotID tk st1))) = hs_sm st1" for t b tk
    by (simp add: register_object_def put_slot_def case_prod_unfold Let_def)
  have p: "hs_sm (put_slot slotID tk st1) = hs_sm st1" for tk by (simp add: put_slot_def)
  show ?thesis
    using assms f1 r unfolding find_one_def f
    by (auto simp: bind_eq_Some_conv Let_def case_prod_unfold p split: if_splits option.splits bool.splits)
qed

lemma find_all_sm: "find_all cx pub slotID hSession ts as hs st = Some (r, st') \<Longrightarrow> hs_sm st' = hs_sm st"
proof (induction as arbitrary: hs st)
  case (Cons a as)
  obtain r1 st1 where o: "find_one cx pub slotID hSession ts a hs st = Some (r1, st1)"
    using Cons.prems by (auto simp: bind_eq_Some_conv)
  show ?case using Cons find_one_sm [OF o] o by (cases r1) auto
qed simp


section \<open>Concrete searches\<close>

text \<open>
  A session on a token without objects, and two session objects with the label \<^verbatim>\<open>a\<close>: a public
  one, and a private one whose label is no ciphertext.
\<close>

definition search_disk :: os_token where
  "search_disk =
     \<lparr>ot_valid = True, ot_tokenObject = ObjectFile_open (Some []), ot_gen = 7, ot_pendingUpdate = False,
      ot_currentFiles = [], ot_objects = [], ot_allObjects = [], ot_heap = Map.empty, ot_next = 1,
      ot_dir = Some [(''generation'', writeULong 7)], ot_writes = [], ot_answers = []\<rparr>"

definition search_token :: "bool \<Rightarrow> (unit, unit) hsm_token" where
  "search_token user =
     \<lparr>tk_token = Some search_disk,
      tk_sdm = Some \<lparr>userEncryptedKey = [], soEncryptedKey = [], soLoggedIn = False, userLoggedIn = user,
        maskedKey = replicate 32 1, sdm_mask = replicate 32 0, sdm_rng = (), sdm_aes = SymmetricAlgorithm_new\<rparr>,
      tk_valid = True, tk_rng = ()\<rparr>"

definition labelled :: "bool \<Rightarrow> session_object" where
  "labelled private =
     (SessionObject_new 0 1 private)\<lparr>so_attributes := [(CKA_TOKEN, BOOL False), (CKA_PRIVATE, BOOL private), (CKA_LABEL, BYTESTR [0x61])]\<rparr>"

definition search_library :: "bool \<Rightarrow> (unit, unit) softhsm" where
  "search_library user =
     \<lparr>hs_initialised = True, hs_rutoken = False, hs_slots = [(0, search_token user)],
      hs_sm = \<lparr>sm_sessions = [10], sm_heap = [(10, (Session_new 0 True)\<lparr>se_hSession := 1\<rparr>)]\<rparr>,
      hs_hm = snd (addSession HandleManager_new 0 10),
      hs_store = \<lparr>ss_heap = [(20, labelled False), (21, labelled True)], ss_objects = [20, 21], ss_allObjects = [20, 21]\<rparr>,
      hs_events = SlotEventState_new\<rparr>"

abbreviation label_a :: "ck_attribute list" where
  "label_a \<equiv> [CK_ATTRIBUTE CKA_LABEL (BUFFER [0x61]) 1]"

lemma search_disk_objects: "ot_getObjects search_disk = ([], search_disk)"
proof -
  have r: "readULong (writeULong 7) = Some (7, [])" using readULong_write [of 7 "[]"] by simp
  show ?thesis
    by (simp add: search_disk_def ot_getObjects_def index_def tokengen_wasUpdated_def dir_get_def Let_def r)
qed

lemma search_library_session:
  "find_session 1 (search_library user) = Some (10, (Session_new 0 True)\<lparr>se_hSession := 1\<rparr>, search_token user)"
  by (simp add: find_session_def search_library_def hm_getSession_def addSession_def HandleManager_new_def Handle2_def Handle3_def
      Let_def Session_new_def)

lemma search_library_store:
  "ss_getObjects (hs_store (search_library user)) 0
     = ([20, 21], fold acquire [20, 21] (hs_store (search_library user)))"
  by (simp add: ss_getObjects_def search_library_def labelled_def SessionObject_new_def Let_def)

lemmas search_defs = search_library_def labelled_def SessionObject_new_def find_one_def fresh_object_def acquire_def
  bool_of_def register_object_def addSessionObject_def addSession_def HandleManager_new_def Handle2_def Handle3_def
  idx_insert_def idx_at_def put_slot_def put_session_def public_state_def getState_def Let_def Session_new_def
  CKS_RW_PUBLIC_SESSION_def CKS_RO_USER_FUNCTIONS_def CKS_RW_USER_FUNCTIONS_def bs_eq_def

lemma search_token_facts:
  "tk_token (search_token user) = Some search_disk" "isSOLoggedIn (search_token user) = False"
  "isUserLoggedIn (search_token user) = user" "put_token search_disk (search_token user) = search_token user"
  by (simp_all add: search_token_def isSOLoggedIn_def isUserLoggedIn_def put_token_def)

lemma search_library_init:
  "C_FindObjectsInit sample_crypto 1 (Some label_a) 1 (search_library user) =
     Option.bind (find_all sample_crypto (\<not> user) 0 1 label_a [20, 21] []
        ((put_session 10 ((Session_new 0 True)\<lparr>se_hSession := 1, se_operation := SESSION_OP_FIND\<rparr>) (search_library user))
          \<lparr>hs_store := fold acquire [20, 21] (hs_store (search_library user))\<rparr>))
      (\<lambda>(r, st). let st = st\<lparr>hs_store := fold release [20, 21] (hs_store st)\<rparr>
         in case r of Inl rv \<Rightarrow> Some (rv, st)
            | Inr hs \<Rightarrow> Some (CKR_OK, put_session 10 (setFindOp (Some hs) ((Session_new 0 True)\<lparr>se_hSession := 1, se_operation := SESSION_OP_FIND\<rparr>)) st))"
proof -
  have i: "hs_initialised (search_library user)" and o: "se_operation ((Session_new 0 True)\<lparr>se_hSession := 1\<rparr>) = SESSION_OP_NONE"
    by (simp_all add: search_library_def Session_new_def)
  have p: "put_slot 0 (search_token user) (put_session 10 s (search_library user)) = put_session 10 s (search_library user)" for s
    by (simp add: put_slot_def put_session_def search_library_def)
  have g: "public_state (getState (search_token user) s) = (\<not> user)" for s
    by (simp add: search_defs search_token_facts CKS_RO_PUBLIC_SESSION_def)
  have n: "\<not> fakeRutokenFeatureMatches label_a"
    by (simp add: fakeRutokenFeatureMatches_def)
  show ?thesis
    by (simp add: C_FindObjectsInit_def search_library_session i o search_token_facts search_disk_objects search_library_store p g n
        Session_new_def Let_def cong: sum.case_cong)
qed

lemma search_public_runs:
  obtains st' where "C_FindObjectsInit sample_crypto 1 (Some label_a) 1 (search_library False) = Some (CKR_OK, st')"
    "getObjectHandle (hs_hm st') 20 = 2"
  by (simp add: search_library_init) (simp add: search_defs search_token_facts getObjectHandle_def setFindOp_def)

lemma search_user_fails:
  obtains st' where "C_FindObjectsInit sample_crypto 1 (Some label_a) 1 (search_library True) = Some (CKR_GENERAL_ERROR, st')"
proof -
  have "fst (tk_decrypt sample_crypto [0x61] (search_token True)) = None"
    by (simp add: tk_decrypt_def search_token_def sdm_decrypt_def take_key_def Let_def case_prod_unfold remask_facts substr_def)
  then obtain tk' where d: "tk_decrypt sample_crypto [0x61] (search_token True) = (None, tk')"
    by (cases "tk_decrypt sample_crypto [0x61] (search_token True)") auto
  show thesis
    by (rule that, simp add: search_library_init) (simp add: search_defs search_token_facts d)
qed

lemma search_token_ok: "sdm_ok (search_token user)"
  by (simp add: sdm_ok_def search_token_def sdm_inv_def SymmetricAlgorithm_new_def ctx_inv_def)

theorem search_finds_exactly_witness:
  "\<exists>st' s' hs. C_FindObjectsInit sample_crypto 1 (Some label_a) 1 (search_library False) = Some (CKR_OK, st')
    \<and> omap_find (sm_heap (hs_sm st')) 10 = Some s' \<and> se_findOp s' = Some hs \<and> set hs = {2}"
proof -
  obtain st' where run: "C_FindObjectsInit sample_crypto 1 (Some label_a) 1 (search_library False) = Some (CKR_OK, st')"
    and h: "getObjectHandle (hs_hm st') 20 = 2" by (rule search_public_runs)
  have r: "rand_sized (cx_rand sample_crypto)" using sample_crypto_ok(1) by (simp add: crypto_ok_def)
  have v: "object_view 0 st 20 = Some (True, so_attributes (labelled False))" "object_view 0 st 21 = Some (True, so_attributes (labelled True))"
    if "ss_heap (hs_store st) = ss_heap (hs_store (search_library False))" for st :: "(unit, unit) softhsm"
    using that by (simp_all add: object_view_eq search_library_def labelled_def SessionObject_new_def)
  have "{a \<in> {20, 21}. sees sample_crypto True label_a (search_token False)
      (object_view 0 (put_slot 0 (search_token False) (search_library False)) a)} = {20}"
    by (auto simp: v put_slot_def sees_def labelled_def bool_of_def value_of_def bs_eq_def)
  then show ?thesis
    using search_finds_exactly [OF r search_library_session search_token_facts(1) search_token_ok search_disk_objects _ run] run h
    by (auto simp: search_library_store search_token_facts public_state_def getState_def Session_new_def
        CKS_RW_PUBLIC_SESSION_def CKS_RO_USER_FUNCTIONS_def CKS_RW_USER_FUNCTIONS_def search_library_def [of False, THEN arg_cong, of hs_rutoken])
qed


end
