(* ===== verification/Spec2Isabelle.thy ===== *)
theory Spec2Isabelle
  imports Handle_Mgr Secure_Data Session_Objects Token_Index Token_Progress Library_History P11_Properties Cipher_Roundtrip Object_Search
begin

text \<open>

  A verification development of SoftHSMv2, a software security module behind the PKCS\#11
  interface. All paths are under \<^verbatim>\<open>src/src/lib/\<close>.

  \<^bold>\<open>The program.\<close> An application calls the PKCS\#11 functions of \<^verbatim>\<open>SoftHSM.cpp\<close>. They
  find a slot (\<^verbatim>\<open>slot_mgr\<close>), a session (\<^verbatim>\<open>session_mgr\<close>) and objects through one table of
  handles (\<^verbatim>\<open>handle_mgr\<close>). A slot has a token, which guards a master key with the PINs of
  the security officer and of the user (\<^verbatim>\<open>data_mgr\<close>) and keeps its state and its objects
  in a directory of files (\<^verbatim>\<open>object_store\<close>). Objects of a session live in memory only. An
  object is read and written through the classes of \<^verbatim>\<open>P11Objects.cpp\<close>, one rule per
  attribute type (\<^verbatim>\<open>P11Attributes.cpp\<close>), and private values are stored encrypted with
  the classes of \<^verbatim>\<open>crypto\<close>.

  \<^bold>\<open>Foundations.\<close> \<open>HSM_Prelude\<close> has the machine types, the return codes, and the sorted
  list and association list that stand for \<^verbatim>\<open>std::set\<close> and \<^verbatim>\<open>std::map\<close>, with the locale
  \<open>ordered_map\<close> of what a map promises. \<open>Byte_String\<close> is \<^verbatim>\<open>data_mgr/ByteString.cpp\<close>:
  splitting, 8-byte big-endian lengths, serialisation and its inverse.

  \<^bold>\<open>Handles.\<close> \<open>Handle_Mgr\<close> is \<^verbatim>\<open>handle_mgr\<close>: the table from handles to sessions and
  objects and its secondary index from objects to handles, both iterated and erased as
  the code does. It is refined by the specification that deletes a set of handles (locale
  \<open>table_cleanup\<close>, one instance for each of the three ways a session or login ends);
  handles are never reused.

  \<^bold>\<open>Cryptographic objects.\<close> \<open>Symmetric_Alg\<close> is the buffering and the state machine of
  \<^verbatim>\<open>SymmetricAlgorithm.cpp\<close> and \<^verbatim>\<open>OSSLEVPSymmetricAlgorithm.cpp\<close> (AES and DES), with the
  ciphers of the OpenSSL library as parameters; \<open>Hash_Alg\<close> likewise for hashes. Shown:
  CBC decryption in any pieces inverts encryption in any pieces, the context is held
  exactly while an operation runs, and the counter of CTR mode never wraps unnoticed.
  \<open>Secure_Data\<close> is \<^verbatim>\<open>RFC4880.cpp\<close> and \<^verbatim>\<open>SecureDataManager.cpp\<close>: the master key is kept
  masked, opens with either PIN, and without a login nothing is encrypted or decrypted.

  \<^bold>\<open>GOST.\<close> The ciphers this fork implements itself are modelled to the word:
  \<open>Gost_Block\<close> is \<^verbatim>\<open>GOST28147.cpp\<close> and the Magma part of \<^verbatim>\<open>GOSTSymmetric.cpp\<close> (locale
  \<open>feistel\<close>), \<open>Kuznechik\<close> the other cipher, whose lookup tables are shown to be its linear
  transformation (locale \<open>block_linear\<close>), \<open>Gost_Symmetric\<close> counter mode, OMAC and MGM over
  either (locale \<open>block_cipher\<close>), \<open>Gost_Alg\<close> and \<open>Gost_Mac\<close> the cipher and MAC objects
  (locale \<open>mode_pair\<close>): what was encrypted in any pieces decrypts, MGM accepts exactly
  its tag, verification exactly the signature.

  \<^bold>\<open>Storage.\<close> \<open>OS_Attributes\<close> is the values of \<^verbatim>\<open>OSAttribute.cpp\<close>, with the locale
  \<open>os_object\<close> of what every object store gives its clients. \<open>Session_Objects\<close> is the
  store of session objects (locale \<open>store_sweep\<close>), \<open>Store_Sync\<close> its agreement with the
  table of handles (locale \<open>joint_cleanup\<close>). \<open>Object_File\<close> is the file format, the generation
  counter and transactions of \<^verbatim>\<open>File.cpp\<close>, \<^verbatim>\<open>Generation.cpp\<close> and \<^verbatim>\<open>ObjectFile.cpp\<close>: what was
  stored reads back, a transaction reaches the disk whole or not at all, a failed write is
  reported. \<open>OS_Token\<close> and \<open>Token_Index\<close> are \<^verbatim>\<open>OSToken.cpp\<close> over such files and the
  index that follows the directory.

  \<^bold>\<open>Tokens.\<close> \<open>Token\<close> is \<^verbatim>\<open>slot_mgr/Token.cpp\<close>: logins, PIN changes, retry counters, local
  PINs, creation and formatting, names, licences and the journal. \<open>Token_Security\<close> shows
  that logins fail closed and, in the locale \<open>pin_guard\<close>, that wrong guesses are bounded
  whatever writes fail; \<open>Token_Life\<close> the invariant of the login state over every
  operation; \<open>Token_Progress\<close> that the right PIN logs in when the disk works, and who may
  format; \<open>SO_Login\<close> which operations log the security officer in.

  \<^bold>\<open>The library.\<close> \<open>Session_Mgr\<close> is \<^verbatim>\<open>access.cpp\<close>, \<^verbatim>\<open>Session.cpp\<close> and
  \<^verbatim>\<open>SessionManager.cpp\<close>, \<open>Slot_Mgr\<close> the slots and the two layouts of the slot list,
  \<open>Slot_Events\<close> the queue of slot events and the threads that sleep on it, as a step
  relation. \<open>SoftHSM_Core\<close> joins them in the functions of \<^verbatim>\<open>SoftHSM.cpp\<close> for
  initialisation, slots, tokens, PINs, sessions, logins and the life of session objects.
  \<open>SoftHSM_Safety\<close> proves the invariant of the joint state for each function and
  \<open>Library_History\<close> what follows for every history of calls: handles are sound, there is
  no reader while the security officer is logged in, closing a session and logging out
  leave nothing behind.

  \<^bold>\<open>Objects and templates.\<close> \<open>P11_Constants\<close>, \<open>P11_Attributes\<close> and \<open>P11_Objects\<close> are
  \<^verbatim>\<open>P11Attributes.cpp\<close> and \<^verbatim>\<open>P11Objects.cpp\<close>: a class of attribute is a record of what its
  constructor sets and its overridden function, an object is the list of its
  attributes over a store, and \<open>loadTemplate\<close> and \<open>saveTemplate\<close> are the loops of the code.
  What every attribute class keeps is lifted to whole templates in the locale \<open>attr_law\<close>
  (\<open>P11_Laws\<close>), used for the restrictions, for trust and for kinds (\<open>P11_Reading\<close>).
  \<open>P11_Templates\<close> and \<open>P11_Properties\<close>: secrets of sensitive objects are not revealed,
  restrictions are not lifted, only the security officer makes an object trusted, a template
  on a token object is all or nothing while a refused one on a session object is not.

  \<open>Object_Search\<close> is \<open>C_FindObjectsInit\<close>: which objects a search finds, and what a failed one leaves.

  \<^bold>\<open>Encryption and decryption.\<close> \<open>Cipher_Init\<close> is the start of an operation with a symmetric
  key: mechanism parameters, the key behind its handle and the checks on it, the cipher
  object that is set up. \<open>Cipher_Calls\<close> is the six functions from \<open>C_Encrypt\<close> to
  \<open>C_DecryptFinal\<close> over cipher objects of any class. \<open>Cipher_Safety\<close>: after a start any sequence of the
  calls is answered and stays within the caller's buffers. \<open>Cipher_Roundtrip\<close>: with a GOST key what
  the library encrypted it decrypts (locale \<open>collecting_cipher\<close>), and what goes wrong when a single
  call follows an update.

  \<^bold>\<open>Bounds and parameters.\<close> Integers have the width of the code; sizes that only count the
  elements of a container in memory are natural numbers. Loops over containers recurse on the
  container. \<open>local_pin_loop\<close> makes the sixteen attempts of the source; the other counted loops
  have the constants of the source too. Where the
  code counts up without a check (handles, generations) a statement that needs room for
  the counter says so. The OpenSSL library, the random generator, the file system's answers
  and the clock are parameters; what is assumed of them (a key of the right length, decryption
  inverts encryption) is a hypothesis by name. A template in the caller's memory is the
  list of its buffers, so that a length names the memory it belongs to; an object handed to a
  class has the operations of \<open>os_object\<close> and is valid.

  \<^bold>\<open>Not modelled.\<close> Entry points (\<^verbatim>\<open>main.cpp\<close> forwards every call), asymmetric algorithms and
  MACs over OpenSSL (marshalling around library calls), the Botan backend and the
  database store (alternatives chosen at build time), CMS messages and certificate requests,
  configuration, logging and locking, secure memory, and the command-line tools. Of
  \<^verbatim>\<open>SoftHSM.cpp\<close> the functions that sign, digest, generate and wrap keys and encrypt with
  public keys. Threads are modelled for slot events only; every other
  operation is one step under the mutex the code holds.
\<close>

end
